(* ===== verification/Prelude.thy ===== *)
theory Prelude
  imports Main "HOL-Library.Word" "HOL-Library.Monad_Syntax"
begin

unbundle bit_operations_syntax

text \<open>
  Shared vocabulary of the development: the C types of the sources, C strings and the pieces of
  the C library that the sources call on them, and the list and option lemmas that several
  components use.

  A C string is the list of its characters without the terminating NUL; a pointer into it is
  the suffix it points at, so the empty list is a pointer to the NUL.  An operation that may
  leave the bounds of an object, or that is otherwise undefined in C, returns an option and
  \<open>None\<close> is the undefined outcome.
\<close>

type_synonym byte = "8 word"
type_synonym u16 = "16 word"
type_synonym u32 = "32 word"
type_synonym cstr = "char list"

abbreviation NUL :: char where "NUL \<equiv> CHR 0x00"
abbreviation TAB :: char where "TAB \<equiv> CHR 0x09"
abbreviation LF :: char where "LF \<equiv> CHR 0x0A"
abbreviation CR :: char where "CR \<equiv> CHR 0x0D"

text \<open>The size of the type \<open>Str\<close> of \<^verbatim>\<open>common.h\<close>, and the range of an \<open>int\<close>.\<close>

definition MAXCHAR :: nat where
  "MAXCHAR = 2048"

definition INT_MAX :: int where
  "INT_MAX = 2147483647"

definition int_ok :: "int \<Rightarrow> bool" where
  "int_ok i \<longleftrightarrow> - INT_MAX - 1 \<le> i \<and> i \<le> INT_MAX"

named_theorems cstr_simps "unfoldings of the C character and string functions"
named_theorems bounds_intros "rules that keep an operation inside its bounds"

subsection \<open>Characters of the C locale\<close>

definition cisspace :: "char \<Rightarrow> bool" where
  "cisspace c \<longleftrightarrow> c \<in> {CHR '' '', TAB, LF, CHR 0x0B, CHR 0x0C, CR}"

definition cisdigit :: "char \<Rightarrow> bool" where
  "cisdigit c \<longleftrightarrow> 48 \<le> (of_char c :: nat) \<and> (of_char c :: nat) \<le> 57"

definition ctolower :: "char \<Rightarrow> char" where
  "ctolower c = (if 65 \<le> (of_char c :: nat) \<and> (of_char c :: nat) \<le> 90
                 then char_of ((of_char c :: nat) + 32) else c)"

text \<open>The value of a plain \<open>char\<close> promoted to \<open>int\<close>: plain \<open>char\<close> is signed.\<close>

definition schar :: "char \<Rightarrow> int" where
  "schar c = (let n = int (of_char c) in if n < 128 then n else n - 256)"

definition byte_of :: "char \<Rightarrow> byte" where
  "byte_of c = word_of_nat (of_char c)"

definition char_of_byte :: "byte \<Rightarrow> char" where
  "char_of_byte b = char_of (unat b)"

definition proper :: "cstr \<Rightarrow> bool" where
  "proper s \<longleftrightarrow> NUL \<notin> set s"

lemma of_char_less_256: "(of_char c :: nat) < 256"
  by (cases c) (simp add: of_char_def horner_sum_simps of_bool_def)

lemma char_of_byte_of [simp]: "char_of_byte (byte_of c) = c"
proof -
  have "unat (byte_of c) = of_char c"
    using of_char_less_256 [of c] by (simp add: byte_of_def unat_of_nat)
  then show ?thesis by (simp add: char_of_byte_def)
qed

lemma byte_of_char_of_byte [simp]: "byte_of (char_of_byte b) = b"
proof -
  have "unat b < 256" using unsigned_less [of b, where ?'a = nat] by simp
  then show ?thesis by (simp add: char_of_byte_def byte_of_def)
qed

lemma byte_of_inject [simp]: "byte_of c = byte_of d \<longleftrightarrow> c = d"
  by (metis char_of_byte_of)

lemma proper_simps [simp]:
  "proper []"
  "proper (c # s) \<longleftrightarrow> c \<noteq> NUL \<and> proper s"
  "proper (s @ t) \<longleftrightarrow> proper s \<and> proper t"
  by (auto simp: proper_def)

lemma proper_takeWhile [simp]: "proper s \<Longrightarrow> proper (takeWhile P s)"
  by (auto simp: proper_def dest: set_takeWhileD)

lemma proper_dropWhile [simp]: "proper s \<Longrightarrow> proper (dropWhile P s)"
  by (auto simp: proper_def dest: set_dropWhileD)

lemma proper_take [simp]: "proper s \<Longrightarrow> proper (take n s)"
  by (auto simp: proper_def dest: in_set_takeD)

lemma proper_drop [simp]: "proper s \<Longrightarrow> proper (drop n s)"
  by (auto simp: proper_def dest: in_set_dropD)

subsection \<open>Strings of the C library\<close>

text \<open>\<open>strstr\<close>: the suffix at the first occurrence.\<close>

fun cstrstr :: "cstr \<Rightarrow> cstr \<Rightarrow> cstr option" where
  "cstrstr s pat =
     (if take (length pat) s = pat then Some s
      else case s of [] \<Rightarrow> None | _ # s' \<Rightarrow> cstrstr s' pat)"

declare cstrstr.simps [simp del]

lemma cstrstr_Some: "cstrstr s pat = Some t \<Longrightarrow> \<exists>u v. s = u @ t \<and> t = pat @ v"
proof (induction s pat rule: cstrstr.induct)
  case (1 s pat)
  show ?case
  proof (cases "take (length pat) s = pat")
    case True
    with 1(2) have "t = s" by (simp add: cstrstr.simps [of s pat])
    with True have "s = [] @ t \<and> t = pat @ drop (length pat) s"
      by (metis append_Nil append_take_drop_id)
    then show ?thesis by blast
  next
    case False
    with 1(2) obtain c s' where s: "s = c # s'" and "cstrstr s' pat = Some t"
      by (auto simp: cstrstr.simps [of s pat] split: list.splits if_splits)
    with 1(1) [OF False s] obtain u v where "s' = u @ t \<and> t = pat @ v" by blast
    with s have "s = (c # u) @ t \<and> t = pat @ v" by simp
    then show ?thesis by blast
  qed
qed

lemma cstrstr_None: "cstrstr s pat = None \<longleftrightarrow> (\<forall>u v. s \<noteq> u @ pat @ v)"
proof (induction s pat rule: cstrstr.induct)
  case (1 s pat)
  show ?case
  proof (cases "take (length pat) s = pat")
    case True
    then have "s = [] @ pat @ drop (length pat) s"
      by (metis append_Nil append_take_drop_id)
    then have "\<exists>u v. s = u @ pat @ v" by blast
    with True show ?thesis by (simp add: cstrstr.simps [of s pat])
  next
    case False
    show ?thesis
    proof (cases s)
      case Nil
      with False show ?thesis by (subst cstrstr.simps) auto
    next
      case (Cons c s')
      have "(\<forall>u v. s \<noteq> u @ pat @ v) \<longleftrightarrow> (\<forall>u v. s' \<noteq> u @ pat @ v)"
      proof
        assume L: "\<forall>u v. s \<noteq> u @ pat @ v"
        show "\<forall>u v. s' \<noteq> u @ pat @ v"
        proof (intro allI notI)
          fix u v assume "s' = u @ pat @ v"
          with Cons have "s = (c # u) @ pat @ v" by simp
          with L show False by blast
        qed
      next
        assume R: "\<forall>u v. s' \<noteq> u @ pat @ v"
        show "\<forall>u v. s \<noteq> u @ pat @ v"
        proof (intro allI notI)
          fix u v assume e: "s = u @ pat @ v"
          show False
          proof (cases u)
            case Nil with e have "take (length pat) s = pat" by simp
            with False show ?thesis by simp
          next
            case (Cons d u') with e \<open>s = c # s'\<close> have "s' = u' @ pat @ v" by simp
            with R show ?thesis by blast
          qed
        qed
      qed
      with False Cons 1 [OF False Cons] show ?thesis
        by (simp add: cstrstr.simps [of "c # s'" pat])
    qed
  qed
qed

text \<open>Decimal output of \<open>printf\<close> (\<open>%u\<close>, \<open>%lu\<close>, \<open>%d\<close>, \<open>%i\<close>).\<close>

fun dec_nat :: "nat \<Rightarrow> cstr" where
  "dec_nat n = (if n < 10 then [char_of (48 + n)]
                else dec_nat (n div 10) @ [char_of (48 + n mod 10)])"

declare dec_nat.simps [simp del]

definition dec_int :: "int \<Rightarrow> cstr" where
  "dec_int i = (if i < 0 then CHR ''-'' # dec_nat (nat (- i)) else dec_nat (nat i))"

text \<open>
  The conversion \<open>%d\<close> of \<open>sscanf\<close>: white space, an optional sign, at least one digit.  The
  result is the number and the rest of the input.
\<close>

definition dec_val :: "cstr \<Rightarrow> nat" where
  "dec_val ds = foldl (\<lambda>a c. 10 * a + (of_char c - 48)) 0 ds"

definition scan_nat :: "cstr \<Rightarrow> (nat \<times> cstr) option" where
  "scan_nat s = (case takeWhile cisdigit s of [] \<Rightarrow> None
                 | ds \<Rightarrow> Some (dec_val ds, dropWhile cisdigit s))"

definition scan_d :: "cstr \<Rightarrow> (int \<times> cstr) option" where
  "scan_d s =
     (case dropWhile cisspace s of
        [] \<Rightarrow> None
      | c # r \<Rightarrow>
          if c = CHR ''-'' then map_option (\<lambda>(n, r'). (- int n, r')) (scan_nat r)
          else if c = CHR ''+'' then map_option (\<lambda>(n, r'). (int n, r')) (scan_nat r)
          else map_option (\<lambda>(n, r'). (int n, r')) (scan_nat (c # r)))"

text \<open>The conversion \<open>%s\<close>: skip white space, read a non-empty run of other characters.\<close>

definition scan_s :: "cstr \<Rightarrow> (cstr \<times> cstr) option" where
  "scan_s s = (let r = dropWhile cisspace s; w = takeWhile (\<lambda>c. \<not> cisspace c) r
               in if w = [] then None else Some (w, dropWhile (\<lambda>c. \<not> cisspace c) r))"

lemma cisdigit_dec_nat: "c \<in> set (dec_nat n) \<Longrightarrow> cisdigit c"
proof (induction n rule: dec_nat.induct)
  case (1 n)
  have d: "cisdigit (char_of (48 + k))" if "k < 10" for k :: nat
    using that by (simp add: cisdigit_def of_char_mod_256)
  show ?case
  proof (cases "n < 10")
    case True
    with 1 d [of n] show ?thesis by (simp add: dec_nat.simps [of n])
  next
    case False
    with 1 d [of "n mod 10"] show ?thesis by (auto simp: dec_nat.simps [of n])
  qed
qed

lemma dec_nat_nonempty [simp]: "dec_nat n \<noteq> []"
  by (subst dec_nat.simps) simp

lemma dec_val_snoc [simp]: "dec_val (ds @ [c]) = 10 * dec_val ds + (of_char c - 48)"
  by (simp add: dec_val_def)

lemma dec_val_dec_nat [simp]: "dec_val (dec_nat n) = n"
proof (induction n rule: dec_nat.induct)
  case (1 n)
  show ?case
  proof (cases "n < 10")
    case True
    then show ?thesis by (simp add: dec_nat.simps [of n] dec_val_def of_char_mod_256)
  next
    case False
    with 1 show ?thesis by (simp add: dec_nat.simps [of n] of_char_mod_256)
  qed
qed

lemma takeWhile_run: "\<forall>c \<in> set s. P c \<Longrightarrow> t = [] \<or> \<not> P (hd t) \<Longrightarrow> takeWhile P (s @ t) = s"
  by (cases t) (auto simp: takeWhile_append)

lemma dropWhile_run: "\<forall>c \<in> set s. P c \<Longrightarrow> t = [] \<or> \<not> P (hd t) \<Longrightarrow> dropWhile P (s @ t) = t"
  by (cases t) (auto simp: dropWhile_append)

lemma scan_nat_dec_nat:
  assumes "t = [] \<or> \<not> cisdigit (hd t)"
  shows "scan_nat (dec_nat n @ t) = Some (n, t)"
proof -
  have d: "\<forall>c \<in> set (dec_nat n). cisdigit c" using cisdigit_dec_nat by blast
  have "takeWhile cisdigit (dec_nat n @ t) = dec_nat n" by (rule takeWhile_run [OF d assms])
  moreover have "dropWhile cisdigit (dec_nat n @ t) = t" by (rule dropWhile_run [OF d assms])
  ultimately show ?thesis
    by (auto simp: scan_nat_def split: list.splits) (metis dec_val_dec_nat)
qed

lemma hd_dec_nat: "cisdigit (hd (dec_nat n))"
  using cisdigit_dec_nat [of "hd (dec_nat n)" n] by simp

lemma cisdigit_not: "cisdigit c \<Longrightarrow> \<not> cisspace c \<and> c \<noteq> CHR ''-'' \<and> c \<noteq> CHR ''+''
    \<and> c \<noteq> NUL \<and> c \<noteq> TAB \<and> c \<noteq> LF"
  by (auto simp: cisdigit_def cisspace_def)

lemma scan_d_dec_int:
  assumes "t = [] \<or> \<not> cisdigit (hd t)"
  shows "scan_d (dec_int i @ t) = Some (i, t)"
proof (cases "i < 0")
  case True
  then show ?thesis
    using scan_nat_dec_nat [OF assms, of "nat (- i)"]
    by (simp add: scan_d_def dec_int_def cisspace_def)
next
  case False
  obtain c r where cr: "dec_nat (nat i) = c # r" by (cases "dec_nat (nat i)") simp_all
  with hd_dec_nat [of "nat i"] have "cisdigit c" by simp
  note n = cisdigit_not [OF this]
  with False cr scan_nat_dec_nat [OF assms, of "nat i"] show ?thesis
    by (simp add: scan_d_def dec_int_def)
qed

lemma proper_dec_int [simp]: "proper (dec_int i)"
  using cisdigit_dec_nat cisdigit_not by (auto simp: proper_def dec_int_def)

subsection \<open>Lists\<close>

text \<open>The reference for every routine that cuts a string into fields: the maximal non-empty runs of
  elements that are no separators.\<close>

fun runs :: "('a \<Rightarrow> bool) \<Rightarrow> 'a list \<Rightarrow> 'a list \<Rightarrow> 'a list list" where
  "runs sep acc [] = (if acc = [] then [] else [acc])"
| "runs sep acc (c # s) =
     (if sep c then (if acc = [] then runs sep [] s else acc # runs sep [] s)
      else runs sep (acc @ [c]) s)"

abbreviation words_of :: "('a \<Rightarrow> bool) \<Rightarrow> 'a list \<Rightarrow> 'a list list" where
  "words_of sep s \<equiv> runs sep [] s"

lemma words_of_skip: "words_of sep (dropWhile sep s) = words_of sep s"
  by (induction s) auto

lemma words_of_seps: "\<forall>c \<in> set r. sep c \<Longrightarrow> words_of sep (r @ s) = words_of sep s"
  by (induction r) auto

lemma runs_token:
  "runs sep acc s =
     (let t = acc @ takeWhile (\<lambda>c. \<not> sep c) s in
      (if t = [] then [] else [t]) @ words_of sep (dropWhile (\<lambda>c. \<not> sep c) s))"
proof (induction s arbitrary: acc)
  case Nil
  then show ?case by simp
next
  case (Cons c s)
  show ?case
  proof (cases "sep c")
    case True
    then show ?thesis by simp
  next
    case False
    then show ?thesis using Cons [of "acc @ [c]"] by simp
  qed
qed

lemma words_of_run:
  "w \<noteq> [] \<Longrightarrow> \<forall>c \<in> set w. \<not> sep c \<Longrightarrow> t = [] \<or> sep (hd t) \<Longrightarrow> words_of sep (w @ t) = w # words_of sep t"
proof -
  assume w: "w \<noteq> []" and n: "\<forall>c \<in> set w. \<not> sep c" and t: "t = [] \<or> sep (hd t)"
  have tw: "takeWhile (\<lambda>c. \<not> sep c) (w @ t) = w" by (rule takeWhile_run) (use n t in auto)
  have dw: "dropWhile (\<lambda>c. \<not> sep c) (w @ t) = t" by (rule dropWhile_run) (use n t in auto)
  have "words_of sep (w @ t) =
      (let v = [] @ takeWhile (\<lambda>c. \<not> sep c) (w @ t) in
       (if v = [] then [] else [v]) @ words_of sep (dropWhile (\<lambda>c. \<not> sep c) (w @ t)))"
    by (rule runs_token)
  then show ?thesis unfolding tw dw using w by simp
qed

lemma list_all2_nthD_iff:
  "(\<forall>i < length xs. xs ! i = ys ! i) \<Longrightarrow> length xs = length ys \<Longrightarrow> xs = ys"
  by (simp add: list_eq_iff_nth_eq)

lemma map_snoc_upt: "map f [0..<Suc n] = map f [0..<n] @ [f n]"
  by simp

end
