(* ===== verification/Bullsafe.thy ===== *)
theory Bullsafe
  imports Prelude
begin

text \<open>
  The cipher programs \<^verbatim>\<open>config/polizei/bullencode/safe.c\<close> (encryption and decryption) and
  \<^verbatim>\<open>bullsafe.c\<close> (encryption only): the two tables, \<open>encrypt\<close>, \<open>decrypt\<close> with \<open>backbox\<close>,
  and the read loop of \<open>main\<close>.  Bytes are 8-bit words; the xor of \<open>decrypt\<close> is computed
  in \<open>int\<close> after the sign extension of \<open>backbox\<close>'s plain \<open>char\<close> and truncated by the store.
  The index is an \<open>int\<close>, and \<open>None\<close> is its overflow in the product with a round, which a buffer of more than 8421505
  bytes reaches; \<open>main\<close> calls the routines with at most 1000.  The lemmas: the substitution box is a permutation and \<open>backbox\<close> inverts it,
  decryption inverts encryption on one buffer and on a stream cut at the same places, and a
  stream that is cut at other places decrypts to something else.
\<close>

definition keytable_nats :: "nat list" where
  "keytable_nats =
     [28, 23, 98, 23, 128, 70, 154, 101, 38, 212, 75, 175, 91, 179, 155, 217,
      148, 172, 222, 25, 64, 189, 66, 210, 244, 113, 25, 247, 183, 40, 250, 27,
      120, 159, 255, 213, 138, 214, 255, 163, 144, 236, 77, 156, 27, 180, 138, 249,
      140, 194, 81, 135, 27, 58, 202, 171, 193, 227, 175, 12, 120, 152, 221, 226,
      172, 50, 64, 202, 210, 239, 180, 47, 181, 179, 145, 216, 215, 195, 141, 196,
      209, 211, 157, 160, 49, 190, 74, 72, 139, 115, 0, 127, 11, 230, 125, 74,
      154, 104, 193, 18, 183, 232, 82, 20, 41, 252, 179, 126, 197, 125, 61, 41,
      202, 12, 19, 56, 163, 68, 9, 67, 102, 217, 78, 106, 187, 86, 67, 99,
      107, 247, 191, 121, 119, 80, 183, 163, 200, 47, 166, 198, 100, 23, 132, 71,
      222, 190, 237, 36, 126, 163, 12, 136, 205, 231, 212, 93, 160, 204, 191, 233,
      0, 226, 82, 138, 240, 68, 127, 198, 238, 233, 92, 166, 198, 63, 29, 247,
      72, 150, 215, 148, 108, 151, 55, 100, 216, 4, 92, 181, 168, 8, 118, 239,
      197, 35, 246, 81, 72, 55, 183, 171, 26, 54, 255, 16, 189, 182, 174, 90,
      156, 226, 200, 29, 223, 53, 227, 251, 216, 150, 189, 201, 55, 10, 180, 117,
      88, 108, 141, 95, 141, 173, 160, 49, 110, 30, 226, 68, 1, 114, 72, 90,
      44, 76, 79, 71, 118, 202, 29, 97, 255, 237, 8, 63, 163, 207, 158, 123,
      201, 30, 226, 143, 239, 96, 198, 230, 214, 58, 47, 109, 88, 201, 63, 53,
      56, 55, 186, 90, 5, 143, 106, 47, 156, 71, 189, 219, 177, 67, 103, 29,
      23, 4, 202, 115, 138, 74, 215, 227, 122, 185, 176, 82, 254, 98, 37, 196,
      155, 46, 146, 159, 105, 238, 218, 38, 94, 183, 22, 25, 46, 152, 222, 22,
      176, 219, 82, 49, 112, 232, 175, 4, 198, 234, 197, 210, 6, 188, 83, 112,
      22, 183, 195, 194, 174, 8, 177, 134, 54, 121, 91, 55, 46, 202, 144, 66,
      70, 160, 36, 37, 97, 6, 121, 202, 155, 121, 88, 69, 167, 116, 242, 253,
      6, 184, 209, 211, 122, 117, 78, 128, 120, 239, 31, 48, 86, 101, 129, 41,
      137, 157, 5, 6, 255, 165, 61, 111, 157, 140, 186, 1, 249, 102, 240, 60,
      140, 64, 91, 108, 183, 234, 238, 113, 110, 224, 123, 34, 8, 199, 156, 204,
      173, 40, 213, 164, 199, 6, 85, 69, 127, 204, 24, 166, 70, 116, 244, 28,
      40, 90, 89, 108, 37, 232, 94, 35, 11, 146, 85, 37, 14, 203, 19, 69,
      11, 211, 63, 29, 15, 179, 138, 119, 200, 86, 246, 191, 0, 7, 253, 143,
      87, 51, 194, 142, 219, 106, 63, 24, 96, 226, 44, 221, 230, 150, 156, 27,
      241, 246, 239, 38, 204, 96, 73, 75, 238, 144, 235, 140, 211, 112, 82, 248,
      236, 9, 148, 46, 168, 169, 127, 133, 141, 250, 182, 169, 165, 238, 76, 92,
      111, 119, 27, 242, 200, 37, 96, 123, 142, 233, 171, 108, 115, 163, 79, 156,
      66, 142, 31, 77, 55, 73, 123, 130, 191, 104, 56, 240, 188, 240, 19, 148,
      36, 174, 0, 108, 44, 36, 112, 220, 128, 47, 229, 25, 76, 230, 7, 42,
      93, 217, 40, 20, 151, 145, 29, 86, 13, 17, 115, 53, 37, 181, 81, 38,
      184, 199, 246, 201, 206, 213, 39, 140, 75, 29, 97, 79, 76, 235, 192, 31,
      237, 169, 21, 161, 185, 154, 135, 145, 29, 133, 97, 212, 185, 167, 115, 63,
      55, 226, 248, 18, 21, 221, 180, 29, 207, 95, 254, 135, 245, 29, 89, 142,
      173, 214, 17, 160, 220, 108, 165, 179, 91, 197, 83, 120, 217, 20, 45, 14,
      208, 241, 239, 252, 95, 156, 128, 15, 133, 195, 119, 132, 118, 134, 245, 3,
      204, 50, 99, 151, 67, 165, 247, 204, 154, 255, 68, 78, 203, 129, 142, 142,
      137, 10, 165, 243, 25, 88, 102, 154, 163, 122, 22, 181, 186, 46, 183, 71,
      83, 52, 144, 154, 55, 156, 120, 8, 194, 195, 53, 1, 247, 242, 48, 53,
      20, 234, 212, 38, 147, 180, 164, 95, 170, 120, 14, 38, 192, 249, 52, 99,
      171, 138, 159, 135, 129, 67, 225, 191, 181, 136, 118, 34, 59, 125, 214, 34,
      15, 44, 67, 170, 206, 172, 191, 203, 234, 225, 184, 124, 196, 123, 96, 6,
      94, 126, 174, 59, 82, 234, 101, 62, 2, 14, 190, 91, 225, 72, 101, 239,
      71, 232, 120, 89, 149, 241, 147, 52, 166, 242, 77, 204, 4, 173, 136, 168,
      77, 105, 103, 202, 106, 93, 78, 230, 54, 36, 66, 131, 194, 175, 164, 26,
      118, 195, 160, 242, 112, 189, 127, 89, 210, 166, 145, 59, 159, 97, 232, 10,
      100, 147, 164, 199, 152, 219, 179, 209, 247, 222, 60, 142, 157, 22, 112, 29,
      211, 208, 59, 225, 19, 55, 54, 137, 245, 53, 145, 226, 17, 56, 27, 99,
      147, 106, 7, 161, 42, 74, 232, 135, 199, 157, 208, 63, 184, 212, 200, 107,
      65, 21, 47, 133, 13, 134, 157, 190, 172, 55, 233, 253, 248, 213, 108, 91,
      238, 65, 143, 43, 22, 230, 65, 118, 71, 169, 74, 116, 61, 161, 30, 17,
      232, 215, 5, 16, 128, 142, 24, 72, 59, 93, 155, 137, 220, 239, 81, 180,
      189, 79, 184, 215, 97, 100, 160, 72, 243, 58, 172, 66, 88, 50, 49, 49,
      212, 48, 59, 203, 6, 162, 7, 49, 5, 31, 148, 39, 201, 117, 146, 233,
      228, 152, 135, 219, 169, 179, 87, 82, 124, 66, 204, 165, 124, 109, 147, 15,
      136, 51, 247, 93, 86, 72, 60, 215, 184, 78, 242, 252, 32, 180, 253, 237,
      191, 13, 226, 157, 20, 233, 29, 219, 11, 134, 241, 227, 39, 5, 211, 253,
      245, 8, 130, 48, 6, 76, 142, 156, 90, 33, 2, 181, 94, 229, 40, 7,
      69, 219, 207, 180, 28, 244, 226, 34, 122, 134, 130, 8, 11, 254, 47, 172]"

definition box_nats :: "nat list" where
  "box_nats =
     [70, 133, 240, 77, 88, 18, 244, 87, 223, 76, 32, 135, 177, 106, 157, 104,
      23, 150, 205, 197, 167, 189, 162, 38, 73, 168, 108, 12, 132, 6, 188, 19,
      214, 91, 46, 254, 185, 146, 13, 247, 107, 40, 29, 5, 152, 121, 52, 237,
      116, 155, 245, 92, 86, 160, 55, 252, 53, 163, 248, 111, 25, 253, 16, 204,
      10, 97, 159, 156, 227, 154, 54, 213, 131, 57, 115, 99, 191, 251, 228, 151,
      190, 11, 182, 161, 8, 233, 158, 117, 218, 149, 9, 183, 199, 0, 128, 206,
      95, 172, 41, 212, 63, 89, 129, 226, 49, 93, 130, 198, 179, 221, 48, 43,
      20, 71, 200, 169, 83, 196, 225, 153, 22, 255, 24, 174, 51, 192, 45, 96,
      134, 84, 64, 62, 39, 15, 140, 219, 170, 238, 85, 21, 222, 118, 249, 69,
      101, 143, 232, 137, 28, 186, 102, 100, 142, 14, 250, 103, 2, 147, 27, 144,
      148, 239, 241, 68, 44, 119, 50, 3, 246, 37, 58, 1, 193, 7, 4, 194,
      26, 141, 242, 30, 171, 80, 175, 79, 110, 36, 243, 114, 109, 82, 145, 47,
      201, 229, 66, 173, 81, 113, 215, 210, 31, 90, 187, 17, 235, 234, 105, 56,
      34, 165, 184, 166, 42, 112, 61, 138, 220, 231, 98, 60, 211, 59, 33, 35,
      127, 94, 224, 126, 74, 236, 164, 180, 122, 217, 75, 124, 178, 123, 78, 72,
      181, 65, 207, 125, 230, 176, 139, 136, 208, 209, 203, 216, 67, 120, 202, 195]"

definition keytable :: "byte list" where
  "keytable = map word_of_nat keytable_nats"

definition box :: "byte list" where
  "box = map word_of_nat box_nats"

text \<open>The tables as \<^verbatim>\<open>bullsafe.c\<close> spells them.\<close>

definition bullsafe_keytable_nats :: "nat list" where
  "bullsafe_keytable_nats =
     [28, 23, 98, 23, 128, 70, 154, 101, 38, 212, 75, 175, 91, 179, 155, 217,
      148, 172, 222, 25, 64, 189, 66, 210, 244, 113, 25, 247, 183, 40, 250, 27,
      120, 159, 255, 213, 138, 214, 255, 163, 144, 236, 77, 156, 27, 180, 138, 249,
      140, 194, 81, 135, 27, 58, 202, 171, 193, 227, 175, 12, 120, 152, 221, 226,
      172, 50, 64, 202, 210, 239, 180, 47, 181, 179, 145, 216, 215, 195, 141, 196,
      209, 211, 157, 160, 49, 190, 74, 72, 139, 115, 0, 127, 11, 230, 125, 74,
      154, 104, 193, 18, 183, 232, 82, 20, 41, 252, 179, 126, 197, 125, 61, 41,
      202, 12, 19, 56, 163, 68, 9, 67, 102, 217, 78, 106, 187, 86, 67, 99,
      107, 247, 191, 121, 119, 80, 183, 163, 200, 47, 166, 198, 100, 23, 132, 71,
      222, 190, 237, 36, 126, 163, 12, 136, 205, 231, 212, 93, 160, 204, 191, 233,
      0, 226, 82, 138, 240, 68, 127, 198, 238, 233, 92, 166, 198, 63, 29, 247,
      72, 150, 215, 148, 108, 151, 55, 100, 216, 4, 92, 181, 168, 8, 118, 239,
      197, 35, 246, 81, 72, 55, 183, 171, 26, 54, 255, 16, 189, 182, 174, 90,
      156, 226, 200, 29, 223, 53, 227, 251, 216, 150, 189, 201, 55, 10, 180, 117,
      88, 108, 141, 95, 141, 173, 160, 49, 110, 30, 226, 68, 1, 114, 72, 90,
      44, 76, 79, 71, 118, 202, 29, 97, 255, 237, 8, 63, 163, 207, 158, 123,
      201, 30, 226, 143, 239, 96, 198, 230, 214, 58, 47, 109, 88, 201, 63, 53,
      56, 55, 186, 90, 5, 143, 106, 47, 156, 71, 189, 219, 177, 67, 103, 29,
      23, 4, 202, 115, 138, 74, 215, 227, 122, 185, 176, 82, 254, 98, 37, 196,
      155, 46, 146, 159, 105, 238, 218, 38, 94, 183, 22, 25, 46, 152, 222, 22,
      176, 219, 82, 49, 112, 232, 175, 4, 198, 234, 197, 210, 6, 188, 83, 112,
      22, 183, 195, 194, 174, 8, 177, 134, 54, 121, 91, 55, 46, 202, 144, 66,
      70, 160, 36, 37, 97, 6, 121, 202, 155, 121, 88, 69, 167, 116, 242, 253,
      6, 184, 209, 211, 122, 117, 78, 128, 120, 239, 31, 48, 86, 101, 129, 41,
      137, 157, 5, 6, 255, 165, 61, 111, 157, 140, 186, 1, 249, 102, 240, 60,
      140, 64, 91, 108, 183, 234, 238, 113, 110, 224, 123, 34, 8, 199, 156, 204,
      173, 40, 213, 164, 199, 6, 85, 69, 127, 204, 24, 166, 70, 116, 244, 28,
      40, 90, 89, 108, 37, 232, 94, 35, 11, 146, 85, 37, 14, 203, 19, 69,
      11, 211, 63, 29, 15, 179, 138, 119, 200, 86, 246, 191, 0, 7, 253, 143,
      87, 51, 194, 142, 219, 106, 63, 24, 96, 226, 44, 221, 230, 150, 156, 27,
      241, 246, 239, 38, 204, 96, 73, 75, 238, 144, 235, 140, 211, 112, 82, 248,
      236, 9, 148, 46, 168, 169, 127, 133, 141, 250, 182, 169, 165, 238, 76, 92,
      111, 119, 27, 242, 200, 37, 96, 123, 142, 233, 171, 108, 115, 163, 79, 156,
      66, 142, 31, 77, 55, 73, 123, 130, 191, 104, 56, 240, 188, 240, 19, 148,
      36, 174, 0, 108, 44, 36, 112, 220, 128, 47, 229, 25, 76, 230, 7, 42,
      93, 217, 40, 20, 151, 145, 29, 86, 13, 17, 115, 53, 37, 181, 81, 38,
      184, 199, 246, 201, 206, 213, 39, 140, 75, 29, 97, 79, 76, 235, 192, 31,
      237, 169, 21, 161, 185, 154, 135, 145, 29, 133, 97, 212, 185, 167, 115, 63,
      55, 226, 248, 18, 21, 221, 180, 29, 207, 95, 254, 135, 245, 29, 89, 142,
      173, 214, 17, 160, 220, 108, 165, 179, 91, 197, 83, 120, 217, 20, 45, 14,
      208, 241, 239, 252, 95, 156, 128, 15, 133, 195, 119, 132, 118, 134, 245, 3,
      204, 50, 99, 151, 67, 165, 247, 204, 154, 255, 68, 78, 203, 129, 142, 142,
      137, 10, 165, 243, 25, 88, 102, 154, 163, 122, 22, 181, 186, 46, 183, 71,
      83, 52, 144, 154, 55, 156, 120, 8, 194, 195, 53, 1, 247, 242, 48, 53,
      20, 234, 212, 38, 147, 180, 164, 95, 170, 120, 14, 38, 192, 249, 52, 99,
      171, 138, 159, 135, 129, 67, 225, 191, 181, 136, 118, 34, 59, 125, 214, 34,
      15, 44, 67, 170, 206, 172, 191, 203, 234, 225, 184, 124, 196, 123, 96, 6,
      94, 126, 174, 59, 82, 234, 101, 62, 2, 14, 190, 91, 225, 72, 101, 239,
      71, 232, 120, 89, 149, 241, 147, 52, 166, 242, 77, 204, 4, 173, 136, 168,
      77, 105, 103, 202, 106, 93, 78, 230, 54, 36, 66, 131, 194, 175, 164, 26,
      118, 195, 160, 242, 112, 189, 127, 89, 210, 166, 145, 59, 159, 97, 232, 10,
      100, 147, 164, 199, 152, 219, 179, 209, 247, 222, 60, 142, 157, 22, 112, 29,
      211, 208, 59, 225, 19, 55, 54, 137, 245, 53, 145, 226, 17, 56, 27, 99,
      147, 106, 7, 161, 42, 74, 232, 135, 199, 157, 208, 63, 184, 212, 200, 107,
      65, 21, 47, 133, 13, 134, 157, 190, 172, 55, 233, 253, 248, 213, 108, 91,
      238, 65, 143, 43, 22, 230, 65, 118, 71, 169, 74, 116, 61, 161, 30, 17,
      232, 215, 5, 16, 128, 142, 24, 72, 59, 93, 155, 137, 220, 239, 81, 180,
      189, 79, 184, 215, 97, 100, 160, 72, 243, 58, 172, 66, 88, 50, 49, 49,
      212, 48, 59, 203, 6, 162, 7, 49, 5, 31, 148, 39, 201, 117, 146, 233,
      228, 152, 135, 219, 169, 179, 87, 82, 124, 66, 204, 165, 124, 109, 147, 15,
      136, 51, 247, 93, 86, 72, 60, 215, 184, 78, 242, 252, 32, 180, 253, 237,
      191, 13, 226, 157, 20, 233, 29, 219, 11, 134, 241, 227, 39, 5, 211, 253,
      245, 8, 130, 48, 6, 76, 142, 156, 90, 33, 2, 181, 94, 229, 40, 7,
      69, 219, 207, 180, 28, 244, 226, 34, 122, 134, 130, 8, 11, 254, 47, 172]"

definition bullsafe_box_nats :: "nat list" where
  "bullsafe_box_nats =
     [70, 133, 240, 77, 88, 18, 244, 87, 223, 76, 32, 135, 177, 106, 157, 104,
      23, 150, 205, 197, 167, 189, 162, 38, 73, 168, 108, 12, 132, 6, 188, 19,
      214, 91, 46, 254, 185, 146, 13, 247, 107, 40, 29, 5, 152, 121, 52, 237,
      116, 155, 245, 92, 86, 160, 55, 252, 53, 163, 248, 111, 25, 253, 16, 204,
      10, 97, 159, 156, 227, 154, 54, 213, 131, 57, 115, 99, 191, 251, 228, 151,
      190, 11, 182, 161, 8, 233, 158, 117, 218, 149, 9, 183, 199, 0, 128, 206,
      95, 172, 41, 212, 63, 89, 129, 226, 49, 93, 130, 198, 179, 221, 48, 43,
      20, 71, 200, 169, 83, 196, 225, 153, 22, 255, 24, 174, 51, 192, 45, 96,
      134, 84, 64, 62, 39, 15, 140, 219, 170, 238, 85, 21, 222, 118, 249, 69,
      101, 143, 232, 137, 28, 186, 102, 100, 142, 14, 250, 103, 2, 147, 27, 144,
      148, 239, 241, 68, 44, 119, 50, 3, 246, 37, 58, 1, 193, 7, 4, 194,
      26, 141, 242, 30, 171, 80, 175, 79, 110, 36, 243, 114, 109, 82, 145, 47,
      201, 229, 66, 173, 81, 113, 215, 210, 31, 90, 187, 17, 235, 234, 105, 56,
      34, 165, 184, 166, 42, 112, 61, 138, 220, 231, 98, 60, 211, 59, 33, 35,
      127, 94, 224, 126, 74, 236, 164, 180, 122, 217, 75, 124, 178, 123, 78, 72,
      181, 65, 207, 125, 230, 176, 139, 136, 208, 209, 203, 216, 67, 120, 202, 195]"

subsection \<open>Encryption\<close>

text \<open>
  \<open>key_at tab m i round\<close> is \<open>tab[i * (round | round<<4) % m]\<close>; \<open>encrypt\<close> reduces by the literal
  1024, \<open>decrypt\<close> by \<open>sizeof(keytable)\<close>.  The product is an \<open>int\<close>.
\<close>

definition key_at :: "byte list \<Rightarrow> nat \<Rightarrow> nat \<Rightarrow> nat \<Rightarrow> byte option" where
  "key_at tab m i r =
     (let n = i * (r OR push_bit 4 r) in if int_ok (int n) then Some (tab ! (n mod m)) else None)"

definition enc_seed :: "byte list \<Rightarrow> byte list \<Rightarrow> byte \<Rightarrow> nat \<Rightarrow> byte" where
  "enc_seed kt bx seed i = (bx ! unat (seed XOR kt ! (i mod length kt))) XOR kt ! (i mod 0x400)"

fun enc_rounds :: "byte list \<Rightarrow> byte list \<Rightarrow> byte \<Rightarrow> nat \<Rightarrow> nat list \<Rightarrow> byte \<Rightarrow> byte option" where
  "enc_rounds kt bx seed i [] b = Some b"
| "enc_rounds kt bx seed i (r # rs) b =
     do { k \<leftarrow> key_at kt 1024 i r; enc_rounds kt bx seed i rs (bx ! unat (seed XOR b XOR k)) }"

fun encrypt_loop :: "byte list \<Rightarrow> byte list \<Rightarrow> nat \<Rightarrow> byte \<Rightarrow> byte list \<Rightarrow> byte list option" where
  "encrypt_loop kt bx i seed [] = Some []"
| "encrypt_loop kt bx i seed (b # from) =
     (let seed' = enc_seed kt bx seed i in
      do { b' \<leftarrow> enc_rounds kt bx seed' i [0..<16] b;
           bs \<leftarrow> encrypt_loop kt bx (Suc i) seed' from;
           Some (b' # bs) })"

definition encrypt :: "byte list \<Rightarrow> byte list option" where
  "encrypt from = encrypt_loop keytable box 0 0x42 from"

text \<open>\<^verbatim>\<open>bullsafe.c\<close> has its own copy of the tables and of \<open>encrypt\<close>; the body of its \<open>decrypt\<close>
  is empty, so the output buffer keeps what it held.\<close>

definition bullsafe_encrypt :: "byte list \<Rightarrow> byte list option" where
  "bullsafe_encrypt from =
     encrypt_loop (map word_of_nat bullsafe_keytable_nats) (map word_of_nat bullsafe_box_nats)
       0 0x42 from"

definition bullsafe_decrypt :: "byte list \<Rightarrow> byte list \<Rightarrow> byte list" where
  "bullsafe_decrypt from to = to"

subsection \<open>Decryption\<close>

text \<open>\<open>backbox\<close> returns the first index of a value; a value that is not in the box would leave
  the function without a return value, which is undefined.\<close>

fun backbox_loop :: "byte list \<Rightarrow> nat \<Rightarrow> byte \<Rightarrow> byte option" where
  "backbox_loop [] i v = None"
| "backbox_loop (x # xs) i v = (if x = v then Some (word_of_nat i) else backbox_loop xs (Suc i) v)"

definition backbox :: "byte \<Rightarrow> byte option" where
  "backbox v = backbox_loop box 0 v"

definition dec_seed :: "byte \<Rightarrow> nat \<Rightarrow> byte" where
  "dec_seed seed i =
     (box ! unat (seed XOR keytable ! (i mod length keytable)))
       XOR keytable ! (i mod length keytable)"

text \<open>\<open>b = backbox(b) ^ seed ^ keytable[...]\<close>: a signed \<open>char\<close> and two \<open>unsigned char\<close> promoted
  to \<open>int\<close>, the result stored in an \<open>unsigned char\<close>.\<close>

definition xor_promoted :: "byte \<Rightarrow> byte \<Rightarrow> byte \<Rightarrow> byte" where
  "xor_promoted c seed k =
     ucast ((scast c :: 32 word) XOR (ucast seed :: 32 word) XOR (ucast k :: 32 word))"

fun dec_rounds :: "byte \<Rightarrow> nat \<Rightarrow> nat list \<Rightarrow> byte \<Rightarrow> byte option" where
  "dec_rounds seed i [] b = Some b"
| "dec_rounds seed i (r # rs) b =
     do { c \<leftarrow> backbox b; k \<leftarrow> key_at keytable (length keytable) i r; dec_rounds seed i rs (xor_promoted c seed k) }"

fun decrypt_loop :: "nat \<Rightarrow> byte \<Rightarrow> byte list \<Rightarrow> byte list option" where
  "decrypt_loop i seed [] = Some []"
| "decrypt_loop i seed (b # from) =
     (let seed' = dec_seed seed i in
      do { b' \<leftarrow> dec_rounds seed' i (rev [0..<16]) b;
           bs \<leftarrow> decrypt_loop (Suc i) seed' from;
           Some (b' # bs) })"

definition decrypt :: "byte list \<Rightarrow> byte list option" where
  "decrypt from = decrypt_loop 0 0x42 from"

subsection \<open>The main programs\<close>

text \<open>
  The result of one \<open>read(0, in, 1000)\<close>.  The loop \<open>while ((len = read(...)))\<close> ends on 0 only:
  on an error \<open>len\<close> is -1, the routine converts nothing and \<open>write(1, out, -1)\<close> fails.  A read of no bytes is the end.
\<close>

datatype rd = Data "byte list" | Eof | Rd_error

datatype exit = Exit int | Reads_exhausted

fun safe_loop :: "(byte list \<Rightarrow> byte list option) \<Rightarrow> rd list \<Rightarrow> (byte list \<times> exit) option" where
  "safe_loop f [] = Some ([], Reads_exhausted)"
| "safe_loop f (Eof # rs) = Some ([], Exit 0)"
| "safe_loop f (Rd_error # rs) = safe_loop f rs"
| "safe_loop f (Data c # rs) =
     (if c = [] then Some ([], Exit 0)
      else do { out \<leftarrow> f c; (outs, e) \<leftarrow> safe_loop f rs; Some (out @ outs, e) })"

definition safe_main :: "cstr list \<Rightarrow> rd list \<Rightarrow> (byte list \<times> exit) option" where
  "safe_main argv reads =
     (case argv of
        [_, opt] \<Rightarrow>
          if opt = ''-e'' then safe_loop encrypt reads
          else if opt = ''-d'' then safe_loop decrypt reads
          else Some ([], Exit 1)
      | _ \<Rightarrow> Some ([], Exit 1))"

text \<open>\<^verbatim>\<open>bullsafe.c\<close>: \<open>stale\<close> is what its uninitialised output buffer holds.\<close>

definition bullsafe_main :: "cstr list \<Rightarrow> byte list \<Rightarrow> rd list \<Rightarrow> (byte list \<times> exit) option" where
  "bullsafe_main argv stale reads =
     (case argv of
        [_, opt] \<Rightarrow>
          if opt = ''-e'' then safe_loop bullsafe_encrypt reads
          else if opt = ''-d'' then
            safe_loop (\<lambda>c. Some (take (length c) (bullsafe_decrypt c stale))) reads
          else Some ([], Exit 1)
      | _ \<Rightarrow> Some ([], Exit 1))"

subsection \<open>The box is a permutation\<close>

lemma length_keytable [simp]: "length keytable = 1024"
  by (simp add: keytable_def) code_simp

lemma length_box [simp]: "length box = 256"
  by (simp add: box_def) code_simp

lemma box_nats_small: "\<forall>n \<in> set box_nats. n < 256"
  by (simp add: box_nats_def)

lemma distinct_box_nats: "distinct box_nats"
  by (simp add: box_nats_def)

lemma distinct_box: "distinct box"
proof -
  have "inj_on (word_of_nat :: nat \<Rightarrow> byte) (set box_nats)"
  proof (rule inj_onI)
    fix x y assume "x \<in> set box_nats" "y \<in> set box_nats"
      and e: "(word_of_nat x :: byte) = word_of_nat y"
    with box_nats_small have "x < 256" "y < 256" by auto
    with arg_cong [OF e, of unat] show "x = y" by (simp add: unat_of_nat)
  qed
  with distinct_box_nats show ?thesis by (simp add: box_def distinct_map)
qed

lemma box_bij: "bij_betw (\<lambda>x :: byte. box ! unat x) UNIV UNIV"
proof -
  have "inj (\<lambda>x :: byte. box ! unat x)"
  proof (rule injI)
    fix x y :: byte assume "box ! unat x = box ! unat y"
    with distinct_box unsigned_less [of x, where ?'a = nat] unsigned_less [of y, where ?'a = nat]
    have "unat x = unat y" by (simp add: nth_eq_iff_index_eq)
    then show "x = y" by (rule unsigned_word_eqI)
  qed
  then show ?thesis by (simp add: bij_betw_def finite_UNIV_inj_surj)
qed

lemma backbox_loop_nth:
  "distinct xs \<Longrightarrow> n < length xs \<Longrightarrow> backbox_loop xs i (xs ! n) = Some (word_of_nat (i + n))"
proof (induction xs arbitrary: i n)
  case Nil
  then show ?case by simp
next
  case (Cons x xs)
  show ?case
  proof (cases n)
    case 0
    then show ?thesis by simp
  next
    case (Suc m)
    with Cons.prems have "x \<noteq> xs ! m" by auto
    with Suc Cons.IH [of m "Suc i"] Cons.prems show ?thesis by simp
  qed
qed

lemma backbox_box: "backbox (box ! unat x) = Some x"
  using backbox_loop_nth [OF distinct_box, of "unat x" 0] unsigned_less [of x, where ?'a = nat]
  by (simp add: backbox_def)

lemma xor_promoted_eq: "xor_promoted c seed k = c XOR seed XOR k"
  unfolding xor_promoted_def
  by (rule bit_word_eqI) (auto simp: bit_simps)

subsection \<open>Decryption inverts encryption\<close>

lemma dec_seed_enc_seed: "dec_seed seed i = enc_seed keytable box seed i"
  by (simp add: dec_seed_def enc_seed_def)

lemma xor_cancel: "(seed XOR b XOR k) XOR seed XOR k = (b :: byte)"
  by (rule bit_word_eqI) (auto simp: bit_simps)

lemma dec_rounds_append: "dec_rounds seed i (rs @ rs') b = do { c \<leftarrow> dec_rounds seed i rs b; dec_rounds seed i rs' c }"
  by (induction rs arbitrary: b) (simp_all split: Option.bind_splits)

lemma dec_rounds_enc: "enc_rounds keytable box seed i rs b = Some c \<Longrightarrow> dec_rounds seed i (rev rs) c = Some b"
  by (induction rs arbitrary: b)
     (auto simp: dec_rounds_append backbox_box xor_promoted_eq xor_cancel split: Option.bind_splits)

lemma decrypt_encrypt_loop: "encrypt_loop keytable box i seed bs = Some cs \<Longrightarrow> decrypt_loop i seed cs = Some bs"
  by (induction bs arbitrary: i seed cs)
     (auto simp: Let_def dec_seed_enc_seed dec_rounds_enc simp del: upt_rec_numeral split: Option.bind_splits)

lemma length_encrypt_loop: "encrypt_loop kt bx i seed bs = Some cs \<Longrightarrow> length cs = length bs"
  by (induction bs arbitrary: i seed cs) (auto simp: Let_def split: Option.bind_splits)

text \<open>The product overflows in a round exactly when the index is too large for the last one.\<close>

definition MAXLEN :: nat where "MAXLEN = 8421505"

lemma round_factor: "r \<in> set [0..<16] \<Longrightarrow> r OR push_bit 4 r \<le> (255 :: nat)"
proof -
  have "\<forall>r \<in> set [0..<16]. r OR push_bit 4 r \<le> (255 :: nat)" by code_simp
  then show "r \<in> set [0..<16] \<Longrightarrow> r OR push_bit 4 r \<le> (255 :: nat)" by blast
qed

lemma last_factor: "15 OR push_bit 4 15 = (255 :: nat)"
  by code_simp

lemma key_at_defined: "i < MAXLEN \<Longrightarrow> r \<in> set [0..<16] \<Longrightarrow> key_at tab m i r \<noteq> None"
proof -
  assume "i < MAXLEN" "r \<in> set [0..<16]"
  then have "i * (r OR push_bit 4 r) \<le> 8421504 * 255" using round_factor by (intro mult_le_mono) (simp_all add: MAXLEN_def)
  then have le: "i * (r OR push_bit 4 r) \<le> 2147483647" by linarith
  have "int_ok (int n)" if "n \<le> 2147483647" for n using that by (simp add: int_ok_def INT_MAX_def)
  from this [OF le] show ?thesis by (simp only: key_at_def Let_def if_True) simp
qed

lemma key_at_overflow: "MAXLEN \<le> i \<Longrightarrow> key_at tab m i 15 = None"
  unfolding key_at_def Let_def last_factor by (simp add: int_ok_def INT_MAX_def MAXLEN_def)

lemma enc_rounds_None: "enc_rounds kt bx seed i rs b = None \<longleftrightarrow> (\<exists>r \<in> set rs. key_at kt 1024 i r = None)"
  by (induction rs arbitrary: b) (auto split: Option.bind_splits)

lemma encrypt_loop_defined:
  "encrypt_loop kt bx i seed bs \<noteq> None \<longleftrightarrow> bs = [] \<or> i + length bs \<le> MAXLEN"
proof (induction bs arbitrary: i seed)
  case (Cons b bs)
  have "enc_rounds kt bx s i [0..<16] b \<noteq> None \<longleftrightarrow> i < MAXLEN" for s
  proof (cases "i < MAXLEN")
    case True then show ?thesis using key_at_defined [OF True] enc_rounds_None [of kt bx s i "[0..<16]" b] by blast
  next
    case False
    then have "key_at kt 1024 i 15 = None" by (simp add: key_at_overflow)
    moreover have "15 \<in> set [0..<16 :: nat]" by simp
    ultimately have "enc_rounds kt bx s i [0..<16] b = None" unfolding enc_rounds_None by (rule bexI)
    then show ?thesis using False by simp
  qed
  then obtain c where c: "i < MAXLEN \<Longrightarrow> enc_rounds kt bx (enc_seed kt bx seed i) i [0..<16] b = Some c"
      "\<not> i < MAXLEN \<Longrightarrow> enc_rounds kt bx (enc_seed kt bx seed i) i [0..<16] b = None" by fastforce
  show ?case
  proof (cases "i < MAXLEN")
    case True
    then show ?thesis using c(1) Cons.IH [of "Suc i" "enc_seed kt bx seed i"]
      by (cases bs) (auto simp: Let_def simp del: upt_rec_numeral split: Option.bind_splits)
  next
    case False
    then show ?thesis using c(2) by (simp add: Let_def del: upt_rec_numeral)
  qed
qed simp

lemma encrypt_defined: "encrypt bs \<noteq> None \<longleftrightarrow> length bs \<le> MAXLEN"
  using encrypt_loop_defined [of keytable box 0 "0x42" bs] by (auto simp: encrypt_def)

lemma length_encrypt: "encrypt bs = Some cs \<Longrightarrow> length cs = length bs"
  by (auto simp: encrypt_def dest: length_encrypt_loop)

lemma bullsafe_encrypt_eq: "bullsafe_encrypt bs = encrypt bs"
  by (simp add: bullsafe_encrypt_def encrypt_def keytable_def box_def
      bullsafe_keytable_nats_def bullsafe_box_nats_def keytable_nats_def box_nats_def)

lemma decrypt_encrypt_eq: "encrypt bs = Some cs \<Longrightarrow> decrypt cs = Some bs"
  by (simp add: decrypt_def encrypt_def decrypt_encrypt_loop)

text \<open>What \<open>read\<close> can put into the buffer of \<open>main\<close>.\<close>

definition reads_ok :: "byte list list \<Rightarrow> bool" where
  "reads_ok cs \<longleftrightarrow> (\<forall>c \<in> set cs. c \<noteq> [] \<and> length c \<le> 1000)"

lemma encrypt_read: "length c \<le> 1000 \<Longrightarrow> \<exists>d. encrypt c = Some d \<and> decrypt d = Some c \<and> length d = length c"
  using encrypt_defined [of c] by (auto simp: MAXLEN_def intro: decrypt_encrypt_eq length_encrypt)

lemma safe_loop_encrypt:
  "reads_ok cs \<Longrightarrow> safe_loop encrypt (map Data cs @ [Eof]) = Some (concat (map (the \<circ> encrypt) cs), Exit 0)"
  by (induction cs) (auto simp: reads_ok_def dest!: encrypt_read)

lemma safe_loop_decrypt:
  "reads_ok cs \<Longrightarrow> safe_loop decrypt (map (\<lambda>c. Data (the (encrypt c))) cs @ [Eof]) = Some (concat cs, Exit 0)"
  by (induction cs) (auto simp: reads_ok_def dest!: encrypt_read)

lemma safe_loop_errors:
  "safe_loop f (replicate n Rd_error @ rs) = safe_loop f rs"
  by (induction n) simp_all

text \<open>Entries of the tables, for the evaluation of a concrete run.\<close>

lemma box_entries:
  "box ! 6 = 244"
  "box ! 7 = 87"
  "box ! 10 = 32"
  "box ! 11 = 135"
  "box ! 12 = 177"
  "box ! 18 = 205"
  "box ! 20 = 167"
  "box ! 25 = 168"
  "box ! 30 = 188"
  "box ! 38 = 13"
  "box ! 39 = 247"
  "box ! 48 = 116"
  "box ! 51 = 92"
  "box ! 52 = 86"
  "box ! 55 = 252"
  "box ! 56 = 53"
  "box ! 80 = 190"
  "box ! 81 = 11"
  "box ! 94 = 128"
  "box ! 113 = 71"
  "box ! 116 = 83"
  "box ! 119 = 153"
  "box ! 124 = 51"
  "box ! 127 = 96"
  "box ! 128 = 134"
  "box ! 133 = 15"
  "box ! 139 = 21"
  "box ! 141 = 118"
  "box ! 145 = 143"
  "box ! 155 = 103"
  "box ! 158 = 27"
  "box ! 160 = 148"
  "box ! 162 = 241"
  "box ! 176 = 26"
  "box ! 179 = 30"
  "box ! 181 = 80"
  "box ! 188 = 109"
  "box ! 189 = 82"
  "box ! 199 = 210"
  "box ! 208 = 34"
  "box ! 210 = 184"
  "box ! 211 = 166"
  "box ! 214 = 61"
  "box ! 215 = 138"
  "box ! 231 = 180"
  "box ! 240 = 181"
  "box ! 241 = 65"
  "box ! 246 = 139"
  by (simp_all add: box_def box_nats_def)

lemma keytable_entries:
  "keytable ! 0 = 28"
  "keytable ! Suc 0 = 23"
  "keytable ! 17 = 172"
  "keytable ! 34 = 255"
  "keytable ! 51 = 135"
  "keytable ! 68 = 210"
  "keytable ! 85 = 190"
  "keytable ! 102 = 82"
  "keytable ! 119 = 67"
  "keytable ! 136 = 200"
  "keytable ! 153 = 231"
  "keytable ! 170 = 92"
  "keytable ! 187 = 181"
  "keytable ! 204 = 189"
  "keytable ! 221 = 10"
  "keytable ! 238 = 72"
  "keytable ! 255 = 123"
  by (simp_all add: keytable_def keytable_nats_def)

lemma sixteen_rounds: "[0..<16] = [0, Suc 0, 2, 3, 4, 5, 6, 7, 8, 9, 10, 11, 12, 13, 14, 15]"
  by (simp add: upt_rec)

lemma encrypt_zeros: "encrypt [0, 0] = Some [168, 210]"
  by (simp add: encrypt_def enc_seed_def key_at_def int_ok_def INT_MAX_def sixteen_rounds
      box_entries keytable_entries)

lemma encrypt_zero: "encrypt [0] = Some [168]"
  by (simp add: encrypt_def enc_seed_def key_at_def int_ok_def INT_MAX_def sixteen_rounds
      box_entries keytable_entries)

lemma encrypt_183: "encrypt [183] = Some [210]"
  by (simp add: encrypt_def enc_seed_def key_at_def int_ok_def INT_MAX_def sixteen_rounds
      box_entries keytable_entries)

text \<open>C32. The decryption of \<open>safe.c\<close> inverts the encryption of both programs byte for byte, for every buffer on which
  the encryption is defined, and these are the buffers of at most 8421505 bytes: behind that the product of the \<open>int\<close>
  index and the round overflows.  \<open>backbox\<close> never runs off its table: every byte has its place in the box.\<close>

theorem decrypt_inverts_encrypt:
  "(if length bs \<le> 8421505
    then \<exists>cs. encrypt bs = Some cs \<and> bullsafe_encrypt bs = Some cs \<and> length cs = length bs \<and> decrypt cs = Some bs
    else encrypt bs = None \<and> bullsafe_encrypt bs = None)
   \<and> (\<exists>n. backbox v = Some n \<and> box ! unat n = v)"
proof
  have "v \<in> range (\<lambda>x :: byte. box ! unat x)" by (simp only: bij_betw_imp_surj_on [OF box_bij] UNIV_I)
  then obtain n :: byte where "v = box ! unat n" by (rule rangeE)
  with backbox_box [of n] show "\<exists>n. backbox v = Some n \<and> box ! unat n = v" by (intro exI [of _ n]) simp
  have d: "length bs \<le> 8421505 \<longleftrightarrow> encrypt bs \<noteq> None" by (rule encrypt_defined [unfolded MAXLEN_def, symmetric])
  show "if length bs \<le> 8421505
    then \<exists>cs. encrypt bs = Some cs \<and> bullsafe_encrypt bs = Some cs \<and> length cs = length bs \<and> decrypt cs = Some bs
    else encrypt bs = None \<and> bullsafe_encrypt bs = None"
  proof (cases "encrypt bs")
    case (Some cs)
    with length_encrypt [OF Some] decrypt_encrypt_eq [OF Some] show ?thesis by (simp only: d bullsafe_encrypt_eq) simp
  qed (simp only: d bullsafe_encrypt_eq, simp)
qed

text \<open>At the level of the programs: encrypting a stream that arrives in the reads \<open>cs\<close> writes, with
  \<^verbatim>\<open>safe.c\<close> and with \<^verbatim>\<open>bullsafe.c\<close>, the concatenation of the encrypted reads, and \<^verbatim>\<open>safe.c\<close> decrypting
  those same pieces, read one by one, writes the original stream.\<close>

theorem safe_stream_roundtrip:
  "reads_ok cs \<Longrightarrow>
   safe_main [prog, ''-e''] (map Data cs @ [Eof]) = Some (concat (map (the \<circ> encrypt) cs), Exit 0)
   \<and> bullsafe_main [prog, ''-e''] stale (map Data cs @ [Eof])
       = Some (concat (map (the \<circ> encrypt) cs), Exit 0)
   \<and> safe_main [prog, ''-d''] (map (\<lambda>c. Data (the (encrypt c))) cs @ [Eof]) = Some (concat cs, Exit 0)"
proof -
  have "bullsafe_encrypt = encrypt" by (rule ext) (rule bullsafe_encrypt_eq)
  then show "reads_ok cs \<Longrightarrow> ?thesis" by (simp add: safe_main_def bullsafe_main_def safe_loop_encrypt safe_loop_decrypt)
qed

text \<open>The key position restarts with every \<open>read\<close>, so the two processes must cut the stream at
  the same places: the two bytes encrypted as one read and decrypted as two do not come back.\<close>

theorem safe_chunk_boundaries_matter:
  "\<exists>cs ds out. concat (map (the \<circ> encrypt) cs) = concat ds
     \<and> safe_main [prog, ''-d''] (map Data ds @ [Eof]) = Some (out, Exit 0) \<and> out \<noteq> concat cs"
proof -
  have "decrypt [210] = Some [183]"
    using decrypt_encrypt_eq [OF encrypt_183] by simp
  moreover have "\<exists>x. decrypt [168] = Some [x]"
    using decrypt_encrypt_eq [OF encrypt_zero] by auto
  ultimately obtain x where
    d: "safe_main [prog, ''-d''] (map Data [[168], [210]] @ [Eof]) = Some ([x, 183], Exit 0)"
    by (auto simp: safe_main_def)
  have "concat (map (the \<circ> encrypt) [[0, 0]]) = concat [[168], [210]]" by (simp add: encrypt_zeros)
  moreover have "[x, 183] \<noteq> concat [[0, 0]]" by simp
  ultimately show ?thesis using d by blast
qed

end
