(* ===== verification/Bulld.thy ===== *)
theory Bulld
  imports Prelude
begin

text \<open>
  The police daemon \<^verbatim>\<open>config/polizei/bullencode/bulld.c\<close>: one client session
  (\<open>handleclient\<close>, with \<open>polsyshandlecmd\<close> of \<^verbatim>\<open>polsys.h\<close>), the accept loop (\<open>mainloop\<close>) and the
  start-up of \<open>main\<close> as a function of what the system calls return.

  A session is the list of what \<open>read\<close> delivered, one non-empty piece of at most 1000000 bytes per
  call, until \<open>read\<close> returns 0 or an error; the result is the list of pieces written to the client.
  The input buffer \<open>in\<close> and the output buffer \<open>out\<close> have 256 bytes; a write outside of them, or a
  \<open>printf\<close> conversion without an argument, is undefined and makes the result \<open>None\<close>.
  The lemmas say exactly which sessions are defined, that the length check of the source can never
  fire in a defined session, what each command answers, and that the daemon serves clients with
  root's identity given up.
\<close>

definition IN_SIZE :: nat where
  "IN_SIZE = 256"

definition welcome_text :: "cstr" where
  "welcome_text = ''> Willkommen im neuen Polizeisystem'' @ [LF]
     @ ''> '' @ replicate 49 (CHR ''-'') @ [LF]
     @ ''> Achtung: Dies ist eine Alphaversion von Polsys II'' @ [LF]
     @ ''> '' @ replicate 49 (CHR ''-'') @ [LF]
     @ ''> HELP zeigt Hilfe an.'' @ [LF]"

definition warn_too_long :: cstr where
  "warn_too_long = ''> Befehl zu lang'' @ [LF]"

definition help_text :: cstr where
  "help_text = ''> Das Hilfesystem ist noch nicht implementiert.'' @ [LF]
     @ ''> Bitte schlagen sie die vorhandenen Polsysbefehle'' @ [LF]
     @ ''> in ihrem Polsys II Bedienungshandbuch nach.'' @ [LF]"

definition quit_text :: cstr where
  "quit_text = ''> Polsys II beendet'' @ [LF]"

definition cmdok_text :: cstr where
  "cmdok_text = ''> Success'' @ [LF]"

definition unkn_text :: cstr where
  "unkn_text = ''> Unknown command: ''"

definition disconmsg :: cstr where
  "disconmsg = ''> Verbindung beendet'' @ [LF]"

definition polsyshandlecmd :: "cstr \<Rightarrow> bool" where
  "polsyshandlecmd cmd = False"

text \<open>\<open>!strncasecmp(s, word, n)\<close> for a lower case \<open>word\<close> of \<open>n\<close> letters.\<close>

definition starts_nocase :: "cstr \<Rightarrow> cstr \<Rightarrow> bool" where
  "starts_nocase word s \<longleftrightarrow> map ctolower (take (length word) s) = word"

text \<open>\<open>sprintf(out, fmt)\<close> without further arguments: \<open>%%\<close> prints one percent sign, any other
  conversion reads an argument that was not passed.\<close>

fun sprintf0 :: "cstr \<Rightarrow> cstr option" where
  "sprintf0 [] = Some []"
| "sprintf0 (c # s) =
     (if c \<noteq> CHR ''%'' then map_option ((#) c) (sprintf0 s)
      else case s of
             [] \<Rightarrow> None
           | d # s' \<Rightarrow> if d = CHR ''%'' then map_option ((#) d) (sprintf0 s') else None)"

datatype next_step = Continue | Return0

text \<open>One turn of the loop: \<open>chunk\<close> is what \<open>read(fd, inptr, 1000000)\<close> stored, \<open>len\<close> its length.
  The store of the chunk and the store \<open>in[len]=0\<close> come first; the string in the buffer then ends
  at the first NUL.\<close>

definition handle_chunk :: "cstr \<Rightarrow> (cstr list \<times> next_step) option" where
  "handle_chunk chunk =
     (let len = length chunk; inp = takeWhile (\<lambda>c. c \<noteq> NUL) chunk in
      if len > IN_SIZE \<or> len \<ge> IN_SIZE then None
      else if len > IN_SIZE then Some ([warn_too_long], Return0)
      else if starts_nocase ''help'' inp then Some ([help_text], Continue)
      else if starts_nocase ''quit'' inp then Some ([quit_text], Return0)
      else if polsyshandlecmd inp then Some ([cmdok_text], Continue)
      else (case sprintf0 inp of
              None \<Rightarrow> None
            | Some out \<Rightarrow> if length out \<ge> 256 then None else Some ([unkn_text, out], Continue)))"

fun session_loop :: "cstr list \<Rightarrow> cstr list option" where
  "session_loop [] = Some []"
| "session_loop (chunk # reads) =
     (if chunk = [] then Some [] else
      case handle_chunk chunk of
        None \<Rightarrow> None
      | Some (out, Return0) \<Rightarrow> Some out
      | Some (out, Continue) \<Rightarrow> map_option ((@) out) (session_loop reads))"

definition handleclient :: "cstr list \<Rightarrow> cstr list option" where
  "handleclient reads = map_option ((#) welcome_text) (session_loop reads)"

subsection \<open>Accepting connections\<close>

text \<open>What one turn of \<open>mainloop\<close> meets: \<open>accept\<close> fails, \<open>fork\<close> fails, the parent, or the child,
  which serves the session and exits.  Its visible effects are a list of actions.\<close>

datatype accept_result =
    Accept_failed
  | Fork_failed
  | In_parent
  | In_child "cstr list"

datatype loop_action = Sleep nat | Perror_fork | Close_client | Served "cstr list" | Exit_child

fun mainloop :: "accept_result list \<Rightarrow> loop_action list option" where
  "mainloop [] = Some []"
| "mainloop (Accept_failed # rs) = map_option ((#) (Sleep 10)) (mainloop rs)"
| "mainloop (Fork_failed # rs) = map_option ((#) Perror_fork) (mainloop rs)"
| "mainloop (In_parent # rs) = map_option (\<lambda>as. Close_client # Sleep 1 # as) (mainloop rs)"
| "mainloop (In_child reads # rs) =
     map_option (\<lambda>out. [Served (out @ [disconmsg]), Close_client, Exit_child]) (handleclient reads)"

subsection \<open>Start-up\<close>

record syscalls =
  sc_argc :: nat
  sc_signal :: bool
  sc_socket :: bool
  sc_setsockopt :: bool
  sc_bind :: bool
  sc_listen :: bool
  sc_gid :: nat
  sc_uid :: nat
  sc_setgid :: bool
  sc_setuid :: bool

datatype startup = Exit_failure | Serving nat nat

text \<open>\<open>Serving gid uid\<close>: \<open>mainloop\<close> runs with these identities.\<close>

definition bulld_main :: "syscalls \<Rightarrow> startup" where
  "bulld_main sc =
     (if sc_argc sc \<noteq> 3 then Exit_failure
      else if \<not> sc_signal sc then Exit_failure
      else if \<not> sc_socket sc then Exit_failure
      else if \<not> sc_setsockopt sc then Exit_failure
      else if \<not> sc_bind sc then Exit_failure
      else if \<not> sc_listen sc then Exit_failure
      else if sc_gid sc = 0 \<and> \<not> sc_setgid sc then Exit_failure
      else
        let gid = (if sc_gid sc = 0 then 1000 else sc_gid sc) in
        if sc_uid sc = 0 \<and> \<not> sc_setuid sc then Exit_failure
        else
          let uid = (if sc_uid sc = 0 then 1000 else sc_uid sc) in Serving gid uid)"

subsection \<open>Which sessions are defined\<close>

text \<open>A string \<open>sprintf0\<close> prints: every percent sign is the first of a pair.\<close>

fun percents_paired :: "cstr \<Rightarrow> bool" where
  "percents_paired [] = True"
| "percents_paired (c # s) =
     (if c \<noteq> CHR ''%'' then percents_paired s
      else case s of [] \<Rightarrow> False | d # s' \<Rightarrow> d = CHR ''%'' \<and> percents_paired s')"

lemma sprintf0_defined: "(\<exists>out. sprintf0 s = Some out) \<longleftrightarrow> percents_paired s"
  by (induction s rule: percents_paired.induct) (auto split: list.splits)

lemma sprintf0_length: "sprintf0 s = Some out \<Longrightarrow> length out \<le> length s"
proof (induction s arbitrary: out rule: sprintf0.induct)
  case 1
  then show ?case by simp
next
  case (2 c s)
  then show ?case
    by (cases "c = CHR ''%''"; cases s) (fastforce split: if_splits)+
qed

lemma sprintf0_plain: "CHR ''%'' \<notin> set s \<Longrightarrow> sprintf0 s = Some s"
  by (induction s rule: sprintf0.induct) auto

abbreviation cmd_of :: "cstr \<Rightarrow> cstr" where
  "cmd_of chunk \<equiv> takeWhile (\<lambda>c. c \<noteq> NUL) chunk"

definition chunk_ok :: "cstr \<Rightarrow> bool" where
  "chunk_ok chunk \<longleftrightarrow> length chunk < IN_SIZE
     \<and> (starts_nocase ''help'' (cmd_of chunk) \<or> starts_nocase ''quit'' (cmd_of chunk)
        \<or> percents_paired (cmd_of chunk))"

text \<open>The reads the session looks at: up to an empty one, the end of the input, or up to and including the first quit command.\<close>

fun reads_used :: "cstr list \<Rightarrow> cstr list" where
  "reads_used [] = []"
| "reads_used (c # cs) =
     (if c = [] then []
      else if \<not> starts_nocase ''help'' (cmd_of c) \<and> starts_nocase ''quit'' (cmd_of c)
      then [c] else c # reads_used cs)"

lemma handle_chunk_None: "handle_chunk chunk = None \<longleftrightarrow> \<not> chunk_ok chunk"
proof (cases "length chunk < IN_SIZE")
  case True
  have "length out < 256" if "sprintf0 (cmd_of chunk) = Some out" for out
    using sprintf0_length [OF that] length_takeWhile_le [of "\<lambda>c. c \<noteq> NUL" chunk] True
    by (simp add: IN_SIZE_def)
  then show ?thesis
    using True sprintf0_defined [of "cmd_of chunk"]
    by (force simp: handle_chunk_def chunk_ok_def polsyshandlecmd_def Let_def
        split: option.splits)
qed (simp add: handle_chunk_def chunk_ok_def Let_def)

lemma handle_chunk_Return0:
  "handle_chunk chunk = Some (out, Return0) \<Longrightarrow>
     out = [quit_text] \<and> \<not> starts_nocase ''help'' (cmd_of chunk)
     \<and> starts_nocase ''quit'' (cmd_of chunk)"
  by (auto simp: handle_chunk_def Let_def split: if_splits option.splits)

lemma handle_chunk_Continue:
  "handle_chunk chunk = Some (out, Continue) \<Longrightarrow>
     starts_nocase ''help'' (cmd_of chunk) \<or> \<not> starts_nocase ''quit'' (cmd_of chunk)"
  by (auto simp: handle_chunk_def Let_def split: if_splits option.splits)

lemma session_loop_defined:
  "(\<exists>out. session_loop reads = Some out) \<longleftrightarrow> (\<forall>c \<in> set (reads_used reads). chunk_ok c)"
proof (induction reads)
  case Nil
  then show ?case by simp
next
  case (Cons c reads)
  show ?case
  proof (cases "handle_chunk c")
    case None
    then show ?thesis using handle_chunk_None [of c] by simp
  next
    case (Some p)
    then have ok: "chunk_ok c" using handle_chunk_None [of c] by auto
    obtain out n where p: "handle_chunk c = Some (out, n)" using Some by (cases p) simp
    show ?thesis
    proof (cases n)
      case Continue
      with p have "handle_chunk c = Some (out, Continue)" by simp
      from handle_chunk_Continue [OF this] this Cons ok show ?thesis by auto
    next
      case Return0
      with p have "handle_chunk c = Some (out, Return0)" by simp
      from handle_chunk_Return0 [OF this] this ok show ?thesis by auto
    qed
  qed
qed

lemma text_heads:
  "welcome_text \<noteq> warn_too_long" "help_text \<noteq> warn_too_long" "quit_text \<noteq> warn_too_long"
  "unkn_text \<noteq> warn_too_long" "cmdok_text \<noteq> welcome_text"
  by (simp_all add: welcome_text_def warn_too_long_def help_text_def quit_text_def unkn_text_def
      cmdok_text_def)

text \<open>C40. A client session has defined behaviour exactly when every piece that is read before the
  first quit command is shorter than 256 bytes and is a help or quit command or carries no percent
  sign other than in pairs: a longer piece overruns the input buffer before its length is tested,
  and an unknown command is used as a format string.\<close>

theorem handleclient_defined_iff:
  "(\<exists>out. handleclient reads = Some out) \<longleftrightarrow> (\<forall>c \<in> set (reads_used reads). chunk_ok c)"
  using session_loop_defined [of reads] by (auto simp: handleclient_def)

theorem handleclient_defined_iff_witness:
  "\<exists>out. handleclient [''HELP'', ''100%%'', ''quit'', ''%s''] = Some out"
  using handleclient_defined_iff [of "[''HELP'', ''100%%'', ''quit'', ''%s'']"]
  by (simp add: chunk_ok_def starts_nocase_def ctolower_def IN_SIZE_def char_of_def)

lemma handle_chunk_long: "IN_SIZE \<le> length c \<Longrightarrow> handle_chunk c = None"
  by (simp add: handle_chunk_def)

text \<open>The length check of \<open>handleclient\<close> is dead: no defined turn of the loop answers with the
  warning, because a piece that would trigger it, or a piece of exactly 256 bytes, which it would let
  pass, has already been stored past the end of the buffer.\<close>

theorem too_long_never_reported:
  "(IN_SIZE \<le> length chunk \<longrightarrow> handle_chunk chunk = None)
   \<and> (\<forall>out n. handle_chunk chunk = Some (out, n) \<longrightarrow>
        length chunk < IN_SIZE \<and> out \<in> {[help_text], [quit_text]}
          \<union> {[unkn_text, s] |s. sprintf0 (cmd_of chunk) = Some s})"
  by (auto simp: handle_chunk_def polsyshandlecmd_def Let_def split: if_splits option.splits)

theorem too_long_never_reported_witness:
  "handle_chunk (replicate 256 (CHR ''A'')) = None"
  using too_long_never_reported [of "replicate 256 (CHR ''A'')"] by (simp add: IN_SIZE_def)

text \<open>When the daemon reaches its accept loop, it runs neither with group 0 nor with user 0: each
  was replaced by 1000, the group first, and a failing \<open>setgid\<close> or \<open>setuid\<close> ends the program.\<close>

theorem serves_without_root:
  "bulld_main sc = Serving gid uid \<Longrightarrow>
     gid \<noteq> 0 \<and> uid \<noteq> 0 \<and> (sc_gid sc = 0 \<longrightarrow> sc_setgid sc \<and> gid = 1000)
     \<and> (sc_uid sc = 0 \<longrightarrow> sc_setuid sc \<and> uid = 1000)"
  by (auto simp: bulld_main_def Let_def split: if_splits)

definition root_calls :: syscalls where
  "root_calls = \<lparr>sc_argc = 3, sc_signal = True, sc_socket = True, sc_setsockopt = True,
     sc_bind = True, sc_listen = True, sc_gid = 0, sc_uid = 0, sc_setgid = True, sc_setuid = True\<rparr>"

theorem serves_without_root_witness:
  "bulld_main root_calls = Serving 1000 1000 \<and> (1000::nat) \<noteq> 0"
proof -
  have r: "bulld_main root_calls = Serving 1000 1000"
    by (simp add: bulld_main_def root_calls_def)
  from r serves_without_root [OF r] show ?thesis by simp
qed

end
