(* ===== verification/P2p.thy ===== *)
theory P2p
  imports Prelude
begin

text \<open>
  The multicast messenger \<^verbatim>\<open>p2p.c\<close>: the message file is cut into lines, every line is masked in
  place with a repeating password, and random lines are sent once a second.

  \<open>main\<close> is a function of the file, of what the socket calls return and of the results of
  \<open>rand\<close>; \<open>None\<close> is undefined behaviour (the remainder by zero of an empty file).  The lemmas say
  what the in-place loop leaves of a message, that the receiver recovers exactly the part
  before the first character that equals its key character, and which paths leave a socket open.
\<close>

definition MAXMESSAGES :: nat where
  "MAXMESSAGES = 100"

definition BUFSIZE :: nat where
  "BUFSIZE = 10000"

definition password :: cstr where
  "password = ''Muahaha''"

subsection \<open>Reading the messages\<close>

text \<open>\<open>strtok(p, "\n")\<close> called until it returns no token or the table is full: leading newlines
  are skipped, a token is a non-empty run of other characters.\<close>

function strtok_loop :: "nat \<Rightarrow> cstr \<Rightarrow> cstr list" where
  "strtok_loop room s =
     (let r = dropWhile (\<lambda>c. c = LF) s in
      if room = 0 \<or> r = [] then []
      else takeWhile (\<lambda>c. c \<noteq> LF) r # strtok_loop (room - 1) (dropWhile (\<lambda>c. c \<noteq> LF) r))"
  by pat_completeness auto

termination by (relation "measure fst") (auto simp: Let_def)

declare strtok_loop.simps [simp del]

definition read_messages :: "cstr \<Rightarrow> cstr list" where
  "read_messages file =
     strtok_loop MAXMESSAGES (takeWhile (\<lambda>c. c \<noteq> NUL) (take (BUFSIZE - 1) file))"

subsection \<open>Masking a message\<close>

definition cxor :: "char \<Rightarrow> char \<Rightarrow> char" where
  "cxor c d = char_of_byte (byte_of c XOR byte_of d)"

definition cstrlen :: "cstr \<Rightarrow> nat" where
  "cstrlen buf = length (takeWhile (\<lambda>c. c \<noteq> NUL) buf)"

text \<open>The inner loop on the array \<open>buf\<close> that starts at the message; the length is computed anew
  in every turn, from the bytes already changed.\<close>

function mask_loop :: "nat \<Rightarrow> cstr \<Rightarrow> cstr" where
  "mask_loop j buf =
     (if j < cstrlen buf
      then mask_loop (Suc j) (buf[j := cxor (buf ! j) (password ! (j mod length password))])
      else buf)"
  by pat_completeness auto

termination
proof (relation "measure (\<lambda>(j, buf). length buf - j)")
  fix j buf
  assume "j < cstrlen buf"
  moreover have "cstrlen buf \<le> length buf" by (simp add: cstrlen_def length_takeWhile_le)
  ultimately show "((Suc j, buf[j := cxor (buf ! j) (password ! (j mod length password))]), j, buf)
      \<in> measure (\<lambda>(j, buf). length buf - j)" by auto
qed simp

declare mask_loop.simps [simp del]

text \<open>What \<open>send(msock, message, strlen(message), 0)\<close> later sends of the message \<open>m\<close>.\<close>

definition mask_message :: "cstr \<Rightarrow> cstr" where
  "mask_message m = (let buf = mask_loop 0 (m @ [NUL]) in take (cstrlen buf) buf)"

subsection \<open>The sending socket\<close>

record netcalls =
  nc_lookup_target :: bool
  nc_lookup_source :: bool
  nc_socket :: bool
  nc_bind :: bool
  nc_reuseaddr :: bool
  nc_multicast :: bool
  nc_ttl :: bool
  nc_loop :: bool
  nc_connect :: bool

text \<open>The result says whether a descriptor was returned; \<open>fds\<close> is the number of open sockets.\<close>

definition mcast_socket :: "netcalls \<Rightarrow> nat \<Rightarrow> bool \<times> nat" where
  "mcast_socket nc fds =
     (if \<not> nc_socket nc then (False, fds)
      else let fds' = Suc fds in
        if \<not> nc_bind nc then (False, fds')
        else if \<not> nc_reuseaddr nc then (False, fds' - 1)
        else if \<not> nc_multicast nc then (True, fds')
        else if \<not> nc_ttl nc \<or> \<not> nc_loop nc then (False, fds' - 1)
        else (True, fds'))"

definition mcast_send_socket :: "netcalls \<Rightarrow> nat \<Rightarrow> bool \<times> nat" where
  "mcast_send_socket nc fds =
     (if \<not> nc_lookup_target nc then (False, fds)
      else if \<not> nc_lookup_source nc then (False, fds)
      else case mcast_socket nc fds of
             (False, fds') \<Rightarrow> (False, fds')
           | (True, fds') \<Rightarrow> if \<not> nc_connect nc then (False, fds' - 1) else (True, fds'))"

datatype p2p_end = Exit1 | Sending

text \<open>\<open>draws\<close> lists, for each turn of the endless loop that is looked at, the non-negative result
  of \<open>rand\<close> and whether \<open>send\<close> succeeded.  The result is how the run stands and what was sent.\<close>

fun send_loop :: "cstr list \<Rightarrow> (nat \<times> bool) list \<Rightarrow> (p2p_end \<times> cstr list) option" where
  "send_loop messages [] = Some (Sending, [])"
| "send_loop messages ((r, sent) # draws) =
     (if length messages = 0 then None
      else if \<not> sent then Some (Exit1, [])
      else map_option (\<lambda>(e, out). (e, messages ! (r mod length messages) # out))
             (send_loop messages draws))"

definition p2p_main ::
  "nat \<Rightarrow> cstr option \<Rightarrow> netcalls \<Rightarrow> (nat \<times> bool) list \<Rightarrow> (p2p_end \<times> cstr list) option" where
  "p2p_main argc file nc draws =
     (if argc \<noteq> 5 then Some (Exit1, [])
      else case file of
             None \<Rightarrow> Some (Exit1, [])
           | Some f \<Rightarrow>
               let messages = map mask_message (read_messages f) in
               if \<not> fst (mcast_send_socket nc 0) then Some (Exit1, [])
               else send_loop messages draws)"

subsection \<open>What the messages are\<close>

lemma dropWhile_eq_self: "s \<noteq> [] \<Longrightarrow> \<not> P (hd s) \<Longrightarrow> dropWhile P s = s"
  by (cases s) auto

text \<open>The reference: the non-empty lines of a text.\<close>

abbreviation lines_of :: "cstr \<Rightarrow> cstr list" where
  "lines_of s \<equiv> words_of (\<lambda>c. c = LF) s"

lemma strtok_loop_lines: "strtok_loop room s = take room (lines_of s)"
proof (induction room s rule: strtok_loop.induct)
  case (1 room s)
  define r where "r = dropWhile (\<lambda>c. c = LF) s"
  show ?case
  proof (cases "room = 0 \<or> r = []")
    case True
    then have "strtok_loop room s = []"
      by (auto simp: strtok_loop.simps [of room s] r_def Let_def)
    moreover have "take room (lines_of s) = take room (lines_of r)"
      by (simp only: r_def words_of_skip)
    ultimately show ?thesis using True by auto
  next
    case False
    then obtain k where k: "room = Suc k" by (cases room) auto
    have "hd r \<noteq> LF" using hd_dropWhile [of "\<lambda>c. c = LF" s] False by (simp add: r_def)
    with False have t: "takeWhile (\<lambda>c. c \<noteq> LF) r \<noteq> []" by (cases r) auto
    from 1 [OF r_def] False k
    have "strtok_loop room s = takeWhile (\<lambda>c. c \<noteq> LF) r
        # take k (lines_of (dropWhile (\<lambda>c. c \<noteq> LF) r))"
      by (simp add: strtok_loop.simps [of "Suc k" s] r_def Let_def)
    also have "\<dots> = take room (lines_of r)"
      using t k runs_token [of "\<lambda>c. c = LF" "[]" r] by (simp add: Let_def)
    also have "\<dots> = take room (lines_of s)"
      by (simp only: r_def words_of_skip)
    finally show ?thesis .
  qed
qed

subsection \<open>What masking does\<close>

abbreviation key :: "nat \<Rightarrow> char" where
  "key j \<equiv> password ! (j mod length password)"

lemma cxor_cxor [simp]: "cxor (cxor c d) d = c"
  by (simp add: cxor_def xor.assoc)

lemma cxor_NUL: "cxor c d = NUL \<longleftrightarrow> c = d"
proof -
  have "byte_of NUL = 0" by (simp add: byte_of_def)
  then have "cxor c d = NUL \<longleftrightarrow> byte_of c XOR byte_of d = 0"
    unfolding cxor_def by (metis byte_of_char_of_byte char_of_byte_of)
  also have "\<dots> \<longleftrightarrow> c = d"
  proof
    assume "byte_of c XOR byte_of d = 0"
    moreover have "byte_of c XOR (byte_of c XOR byte_of d) = byte_of d"
      by (simp add: xor.assoc [symmetric])
    ultimately show "c = d" by simp
  qed simp
  finally show ?thesis .
qed

text \<open>The characters of \<open>m\<close>, which stand from position \<open>j\<close> on, up to the first one that equals its
  key character; and their masked values.\<close>

fun clear_run :: "nat \<Rightarrow> cstr \<Rightarrow> cstr" where
  "clear_run j [] = []"
| "clear_run j (c # m) = (if c = key j then [] else c # clear_run (Suc j) m)"

fun xor_from :: "nat \<Rightarrow> cstr \<Rightarrow> cstr" where
  "xor_from j [] = []"
| "xor_from j (c # m) = cxor c (key j) # xor_from (Suc j) m"

lemma xor_from_xor_from [simp]: "xor_from j (xor_from j m) = m"
  by (induction m arbitrary: j) auto

lemma length_xor_from [simp]: "length (xor_from j m) = length m"
  by (induction m arbitrary: j) auto

lemma proper_xor_from_clear_run: "proper (xor_from j (clear_run j m))"
  by (induction m arbitrary: j) (auto simp: cxor_NUL)

lemma cstrlen_at: "proper p \<Longrightarrow> proper m \<Longrightarrow> cstrlen (p @ m @ NUL # t) = length p + length m"
proof -
  assume "proper p" "proper m"
  then have "takeWhile (\<lambda>c. c \<noteq> NUL) ((p @ m) @ NUL # t) = p @ m"
    by (intro takeWhile_run) (auto simp: proper_def)
  then show ?thesis by (simp add: cstrlen_def)
qed

lemma mask_loop_run:
  assumes "proper p" "proper m"
  shows "\<exists>t. mask_loop (length p) (p @ m @ [NUL]) = p @ xor_from (length p) (clear_run (length p) m) @ NUL # t"
  using assms
proof (induction m arbitrary: p)
  case Nil
  then show ?case
    using cstrlen_at [of p "[]" "[]"] by (simp add: mask_loop.simps [of "length p"])
next
  case (Cons c m)
  let ?j = "length p"
  have up: "(p @ (c # m) @ [NUL])[?j := cxor c (key ?j)] = p @ cxor c (key ?j) # m @ [NUL]"
    by simp
  have step: "mask_loop ?j (p @ (c # m) @ [NUL]) = mask_loop (Suc ?j) (p @ cxor c (key ?j) # m @ [NUL])"
    using Cons.prems cstrlen_at [of p "c # m" "[]"] up
    by (subst mask_loop.simps) (simp add: nth_append)
  show ?case
  proof (cases "c = key ?j")
    case True
    then have n: "cxor c (key ?j) = NUL" by (simp add: cxor_NUL)
    have "mask_loop (Suc ?j) (p @ NUL # m @ [NUL]) = p @ NUL # m @ [NUL]"
      using Cons.prems cstrlen_at [of p "[]" "m @ [NUL]"] by (simp add: mask_loop.simps [of "Suc ?j"])
    with step n True show ?thesis by simp
  next
    case False
    then have n: "cxor c (key ?j) \<noteq> NUL" by (simp add: cxor_NUL)
    with Cons.IH [of "p @ [cxor c (key ?j)]"] Cons.prems step False show ?thesis by simp
  qed
qed

lemma mask_eq: "proper m \<Longrightarrow> mask_message m = xor_from 0 (clear_run 0 m)"
  using mask_loop_run [of "[]" m] cstrlen_at [OF proper_xor_from_clear_run [of 0 m], of "[]"]
  by (auto simp: mask_message_def Let_def)

lemma clear_run_prefix: "\<exists>t. m = clear_run j m @ t \<and> (t = [] \<or> hd t = key (j + length (clear_run j m)))"
proof (induction m arbitrary: j)
  case (Cons c m)
  from Cons [of "Suc j"] show ?case by (cases "c = key j") auto
qed simp

lemma send_loop_defined:
  "(\<exists>r. send_loop ms draws = Some r) \<longleftrightarrow> ms \<noteq> [] \<or> draws = []"
  by (induction ms draws rule: send_loop.induct) auto

lemma send_loop_None: "send_loop ms draws = None \<longleftrightarrow> ms = [] \<and> draws \<noteq> []"
  using send_loop_defined [of ms draws] by (cases "send_loop ms draws") auto

lemma send_loop_sent: "send_loop ms draws = Some (e, out) \<Longrightarrow> set out \<subseteq> set ms"
proof (induction ms draws arbitrary: out rule: send_loop.induct)
  case (2 ms r sent draws)
  then show ?case by (force split: if_splits)
qed simp

text \<open>Unmasking what is sent for a message gives the longest part of it whose characters all
  differ from their key characters: a character that equals its key character becomes the end
  of the string, and it and all that follows are never sent.\<close>

theorem mask_recovers_prefix:
  "proper m \<Longrightarrow>
     xor_from 0 (mask_message m) = clear_run 0 m
     \<and> (\<exists>t. m = xor_from 0 (mask_message m) @ t \<and> (t = [] \<or> hd t = key (length (mask_message m))))"
  using clear_run_prefix [of m 0] by (simp add: mask_eq)

theorem mask_recovers_prefix_witness:
  "xor_from 0 (mask_message ''Hallo Jens'') = ''Hallo Jens''
   \<and> xor_from 0 (mask_message ''Guten Tag'') = ''G''"
  using mask_recovers_prefix [of "''Hallo Jens''"] mask_recovers_prefix [of "''Guten Tag''"]
  by (simp add: password_def)

text \<open>Every message that is sent is the masked form of one of the first 100 non-empty lines of
  the text that stands before the first NUL among the first 9999 bytes of the file, and if that text
  has no non-empty line, the first turn of the sending loop divides by zero.\<close>

theorem p2p_sends_masked_lines:
  "(let ls = take 100 (lines_of (takeWhile (\<lambda>c. c \<noteq> NUL) (take 9999 f))) in
     case p2p_main argc (Some f) nc draws of
       None \<Rightarrow> argc = 5 \<and> fst (mcast_send_socket nc 0) \<and> ls = [] \<and> draws \<noteq> []
     | Some (e, out) \<Rightarrow> set out \<subseteq> mask_message ` set ls)"
proof -
  define ls where "ls = take 100 (lines_of (takeWhile (\<lambda>c. c \<noteq> NUL) (take 9999 f)))"
  have m: "read_messages f = ls"
    by (simp add: read_messages_def ls_def strtok_loop_lines BUFSIZE_def MAXMESSAGES_def)
  have "send_loop (map mask_message ls) draws = None \<longleftrightarrow> ls = [] \<and> draws \<noteq> []"
    by (simp add: send_loop_None)
  moreover have "set out \<subseteq> mask_message ` set ls"
    if "send_loop (map mask_message ls) draws = Some (e, out)" for e out
    using send_loop_sent [OF that] by simp
  ultimately show ?thesis
    unfolding ls_def [symmetric] Let_def
    by (auto simp: p2p_main_def m Let_def send_loop_None split: option.splits)
qed

text \<open>\<open>mcast_send_socket\<close> leaves exactly one more open socket when it succeeds, and none when it
  fails, unless it is \<open>bind\<close> that failed: that path returns without closing the socket.\<close>

theorem mcast_send_socket_descriptors:
  "snd (mcast_send_socket nc fds) =
     (if fst (mcast_send_socket nc fds)
        \<or> (nc_lookup_target nc \<and> nc_lookup_source nc \<and> nc_socket nc \<and> \<not> nc_bind nc)
      then Suc fds else fds)"
  by (auto simp: mcast_send_socket_def mcast_socket_def Let_def)

end
