(* ===== verification/Wildmat.thy ===== *)
theory Wildmat
  imports Prelude
begin

text \<open>
  Shell-style patterns, \<^verbatim>\<open>noffle-1.0.1/src/wildmat.c\<close>: \<open>DoMatch\<close> with its three results and the
  abort rule that keeps a failing pattern from backtracking, and \<open>Wld_match\<close>.

  Text and pattern are C strings; \<open>None\<close> is a read beyond the end of the pattern, which the source
  warns of for malformed character classes.  The reference is a pattern syntax tree \<open>tok list\<close>
  with the obvious backtracking semantics \<open>wmatch\<close>; \<open>Wld_match_reference\<close> shows that the code
  decides it on every well-formed pattern.
\<close>

datatype match = M_TRUE | M_FALSE | M_ABORT

text \<open>The loop over a character class.  \<open>last\<close> is \<open>*p\<close> and the list is what follows it; the result
  is the flag and the pattern behind the closing bracket, or no pattern when the NUL was reached.\<close>

fun class_loop :: "char \<Rightarrow> char \<Rightarrow> bool \<Rightarrow> cstr \<Rightarrow> (bool \<times> cstr option) option" where
  "class_loop t lst matched [] = Some (matched, None)"
| "class_loop t lst matched (c # p) =
     (if c = CHR '']'' then Some (matched, Some p)
      else if c = CHR ''-'' then
        (case p of
           [] \<Rightarrow> None
         | d # p' \<Rightarrow>
             if d \<noteq> CHR '']''
             then class_loop t d (matched \<or> (schar t \<le> schar d \<and> schar t \<ge> schar lst)) p'
             else class_loop t c (matched \<or> t = c) p)
      else class_loop t c (matched \<or> t = c) p)"

text \<open>The whole class behind its opening bracket: negation, and a first bracket or dash that stands
  for itself.\<close>

definition class_body :: "char \<Rightarrow> char \<Rightarrow> cstr \<Rightarrow> (bool \<times> cstr option) option" where
  "class_body t lst p =
     (case p of
        [] \<Rightarrow> class_loop t lst False p
      | c # p2 \<Rightarrow>
          if c = CHR '']'' \<or> c = CHR ''-'' then class_loop t c (c = t) p2
          else class_loop t lst False p)"

definition class_match :: "char \<Rightarrow> cstr \<Rightarrow> (bool \<times> bool \<times> cstr option) option" where
  "class_match t p =
     (let inverted = (p \<noteq> [] \<and> hd p = CHR ''^'') in
      map_option (\<lambda>(m, r). (m, inverted, r))
        (if inverted then class_body t (CHR ''^'') (tl p) else class_body t (CHR ''['') p))"

lemma class_loop_shorter: "class_loop t l m p = Some (m', Some q) \<Longrightarrow> length q < length p"
proof (induction t l m p rule: class_loop.induct)
  case (2 t l m c p)
  then show ?case by (force split: if_splits list.splits)
qed simp

lemma class_body_shorter: "class_body t l p = Some (m, Some q) \<Longrightarrow> length q \<le> length p"
  by (auto simp: class_body_def split: list.splits if_splits dest!: class_loop_shorter)

lemma class_match_shorter: "class_match t p = Some (m, r, Some q) \<Longrightarrow> length q \<le> length p"
  by (cases p) (auto simp: class_match_def Let_def split: if_splits dest!: class_body_shorter)

function (sequential)
  DoMatch :: "cstr \<Rightarrow> cstr \<Rightarrow> match option" and
  star_loop :: "cstr \<Rightarrow> cstr \<Rightarrow> match option" where
  "DoMatch tx [] = Some (if tx = [] then M_TRUE else M_FALSE)"
| "DoMatch tx (c # p) =
     (if c = CHR ''*'' then
        let q = dropWhile (\<lambda>d. d = CHR ''*'') p in
        if q = [] then Some M_TRUE else star_loop tx q
      else case tx of
        [] \<Rightarrow> Some M_ABORT
      | t # tx' \<Rightarrow>
          if c = CHR 0x5C then
            (case p of
               [] \<Rightarrow> Some M_FALSE
             | d # p' \<Rightarrow> if t \<noteq> d then Some M_FALSE else DoMatch tx' p')
          else if c = CHR ''?'' then DoMatch tx' p
          else if c = CHR ''['' then
            (case class_match t p of
               None \<Rightarrow> None
             | Some (matched, inverted, r) \<Rightarrow>
                 if matched = inverted then Some M_FALSE
                 else (case r of None \<Rightarrow> None | Some p' \<Rightarrow> DoMatch tx' p'))
          else if t \<noteq> c then Some M_FALSE
          else DoMatch tx' p)"
| "star_loop [] p = Some M_ABORT"
| "star_loop (t # tx) p =
     (case DoMatch (t # tx) p of
        None \<Rightarrow> None
      | Some M_FALSE \<Rightarrow> star_loop tx p
      | Some r \<Rightarrow> Some r)"
  by pat_completeness auto

termination
  by (relation "measures [\<lambda>x. case x of Inl (t, p) \<Rightarrow> length p | Inr (t, p) \<Rightarrow> length p,
      \<lambda>x. case x of Inl (t, p) \<Rightarrow> 0 | Inr (t, p) \<Rightarrow> Suc (length t)]")
    (auto simp: less_Suc_eq_le length_dropWhile_le dest: class_match_shorter)

definition Wld_match :: "cstr \<Rightarrow> cstr \<Rightarrow> bool option" where
  "Wld_match tx pattern =
     (if pattern = ''*'' then Some True
      else map_option (\<lambda>r. r = M_TRUE) (DoMatch tx pattern))"

subsection \<open>The reference\<close>

datatype item = Single char | Range char char

datatype tok = Lit char | Any | Star | Class bool "item list" | Never

fun in_item :: "char \<Rightarrow> item \<Rightarrow> bool" where
  "in_item t (Single c) = (t = c)"
| "in_item t (Range a b) = (schar a \<le> schar t \<and> schar t \<le> schar b)"

fun tok_accepts :: "tok \<Rightarrow> char \<Rightarrow> bool" where
  "tok_accepts (Lit c) t = (t = c)"
| "tok_accepts Any t = True"
| "tok_accepts (Class neg is) t = (list_ex (in_item t) is \<noteq> neg)"
| "tok_accepts Never t = False"
| "tok_accepts Star t = False"

fun wmatch :: "tok list \<Rightarrow> cstr \<Rightarrow> bool" where
  "wmatch [] tx = (tx = [])"
| "wmatch (Star # ts) [] = wmatch ts []"
| "wmatch (Star # ts) (t # tx) = (wmatch ts (t # tx) \<or> wmatch (Star # ts) tx)"
| "wmatch (k # ts) [] = False"
| "wmatch (k # ts) (t # tx) = (tok_accepts k t \<and> wmatch ts tx)"

text \<open>The syntax: \<open>None\<close> for a class that is not closed.  A backslash at the end of the pattern
  matches nothing.\<close>

fun items :: "char \<Rightarrow> cstr \<Rightarrow> (item list \<times> cstr) option" where
  "items lst [] = None"
| "items lst (c # p) =
     (if c = CHR '']'' then Some ([], p)
      else if c = CHR ''-'' then
        (case p of
           [] \<Rightarrow> None
         | d # p' \<Rightarrow>
             if d \<noteq> CHR '']''
             then map_option (\<lambda>(is, r). (Range lst d # is, r)) (items d p')
             else map_option (\<lambda>(is, r). (Single c # is, r)) (items c p))
      else map_option (\<lambda>(is, r). (Single c # is, r)) (items c p))"

definition item_body :: "char \<Rightarrow> cstr \<Rightarrow> (item list \<times> cstr) option" where
  "item_body lst p =
     (case p of
        [] \<Rightarrow> None
      | c # p2 \<Rightarrow>
          if c = CHR '']'' \<or> c = CHR ''-''
          then map_option (\<lambda>(is, r). (Single c # is, r)) (items c p2)
          else items lst p)"

definition class_tok :: "cstr \<Rightarrow> (tok \<times> cstr) option" where
  "class_tok p =
     (let inverted = (p \<noteq> [] \<and> hd p = CHR ''^'') in
      map_option (\<lambda>(is, r). (Class inverted is, r))
        (if inverted then item_body (CHR ''^'') (tl p) else item_body (CHR ''['') p))"

lemma items_shorter: "items l p = Some (is, q) \<Longrightarrow> length q < length p"
proof (induction l p arbitrary: "is" rule: items.induct)
  case (2 l c p)
  then show ?case by (force split: if_splits list.splits)
qed simp

lemma item_body_shorter: "item_body l p = Some (is, q) \<Longrightarrow> length q \<le> length p"
  by (auto simp: item_body_def split: list.splits if_splits dest!: items_shorter)

lemma class_tok_shorter: "class_tok p = Some (k, q) \<Longrightarrow> length q \<le> length p"
  by (cases p) (auto simp: class_tok_def Let_def split: if_splits dest!: item_body_shorter)

function (sequential) parse :: "cstr \<Rightarrow> tok list option" where
  "parse [] = Some []"
| "parse (c # p) =
     (if c = CHR ''*'' then map_option ((#) Star) (parse p)
      else if c = CHR ''?'' then map_option ((#) Any) (parse p)
      else if c = CHR 0x5C then
        (case p of [] \<Rightarrow> Some [Never] | d # p' \<Rightarrow> map_option ((#) (Lit d)) (parse p'))
      else if c = CHR ''['' then
        (case class_tok p of None \<Rightarrow> None | Some (k, p') \<Rightarrow> map_option ((#) k) (parse p'))
      else map_option ((#) (Lit c)) (parse p))"
  by pat_completeness auto

termination
  by (relation "measure length") (auto dest: class_tok_shorter)

subsection \<open>The code decides the reference\<close>

lemma class_loop_items:
  "items l p = Some (is, q) \<Longrightarrow>
     class_loop t l m p = Some (m \<or> list_ex (in_item t) is, Some q)"
proof (induction l p arbitrary: "is" m rule: items.induct)
  case (2 l c p)
  then show ?case by (fastforce split: if_splits list.splits)
qed simp

lemma class_body_items:
  "item_body l p = Some (is, q) \<Longrightarrow> class_body t l p = Some (list_ex (in_item t) is, Some q)"
  by (cases p) (auto simp: item_body_def class_body_def class_loop_items split: if_splits)

lemma class_match_tok:
  "class_tok p = Some (k, q) \<Longrightarrow>
     \<exists>m inverted is. k = Class inverted is \<and> class_match t p = Some (m, inverted, Some q)
       \<and> (m \<noteq> inverted \<longleftrightarrow> tok_accepts k t)"
  by (cases "p \<noteq> [] \<and> hd p = CHR ''^''")
    (auto simp: class_tok_def class_match_def class_body_items)

lemma wmatch_Star: "wmatch (Star # ts) tx \<longleftrightarrow> (\<exists>k. wmatch ts (drop k tx))"
proof (induction tx)
  case (Cons t tx)
  have "(\<exists>k. wmatch ts (drop k (t # tx))) \<longleftrightarrow> wmatch ts (t # tx) \<or> (\<exists>k. wmatch ts (drop k tx))"
    (is "?L \<longleftrightarrow> ?R")
  proof
    assume ?L
    then obtain k where "wmatch ts (drop k (t # tx))" ..
    then show ?R by (cases k) auto
  next
    assume ?R
    then show ?L
    proof
      assume "wmatch ts (t # tx)"
      then have "wmatch ts (drop 0 (t # tx))" by simp
      then show ?thesis ..
    next
      assume "\<exists>k. wmatch ts (drop k tx)"
      then obtain k where "wmatch ts (drop k tx)" ..
      then have "wmatch ts (drop (Suc k) (t # tx))" by simp
      then show ?thesis ..
    qed
  qed
  with Cons show ?case by simp
qed simp

lemma wmatch_Star_Star: "wmatch (Star # Star # ts) tx = wmatch (Star # ts) tx"
  unfolding wmatch_Star by (metis drop_0 drop_drop wmatch_Star)

text \<open>What a result says about the suffixes of the text.\<close>

definition sound :: "match \<Rightarrow> tok list \<Rightarrow> cstr \<Rightarrow> bool" where
  "sound r ts tx \<longleftrightarrow> (r = M_TRUE \<longleftrightarrow> wmatch ts tx)
     \<and> (r = M_ABORT \<longrightarrow> (\<forall>k. \<not> wmatch ts (drop k tx)))"

lemma wmatch_consumes: "k \<noteq> Star \<Longrightarrow> wmatch (k # ts) tx \<longleftrightarrow>
    (\<exists>t tx'. tx = t # tx' \<and> tok_accepts k t \<and> wmatch ts tx')"
  by (cases k; cases tx) auto

lemma sound_consume:
  assumes "sound r ts tx" "k \<noteq> Star" "tok_accepts k t"
  shows "sound r (k # ts) (t # tx)"
proof -
  have "\<not> wmatch (k # ts) (drop n (t # tx))" if a: "r = M_ABORT" for n
  proof
    assume "wmatch (k # ts) (drop n (t # tx))"
    with assms(2) obtain u us where d: "drop n (t # tx) = u # us" and "wmatch ts us"
      by (auto simp: wmatch_consumes)
    from d have "us = drop n tx" by (metis drop_Suc drop_Suc_Cons list.sel(3) tl_drop)
    with \<open>wmatch ts us\<close> a assms(1) show False by (auto simp: sound_def)
  qed
  with assms show ?thesis by (auto simp: sound_def wmatch_consumes)
qed

lemma sound_reject: "k \<noteq> Star \<Longrightarrow> \<not> tok_accepts k t \<Longrightarrow> sound M_FALSE (k # ts) (t # tx)"
  by (auto simp: sound_def wmatch_consumes)

lemma sound_end: "k \<noteq> Star \<Longrightarrow> sound M_ABORT (k # ts) []"
  by (auto simp: sound_def wmatch_consumes)

lemma parse_stars:
  "parse p = Some ts \<Longrightarrow>
     \<exists>us. parse (dropWhile (\<lambda>d. d = CHR ''*'') p) = Some us
       \<and> (\<forall>tx. wmatch (Star # ts) tx = wmatch (Star # us) tx)"
proof (induction p arbitrary: ts)
  case (Cons c p)
  show ?case
  proof (cases "c = CHR ''*''")
    case True
    with Cons.prems obtain ts' where "parse p = Some ts'" "ts = Star # ts'" by auto
    with Cons.IH [of ts'] True show ?thesis by (simp add: wmatch_Star_Star)
  qed (use Cons.prems in auto)
qed auto

lemma parse_hd_not_star:
  "p \<noteq> [] \<Longrightarrow> hd p \<noteq> CHR ''*'' \<Longrightarrow> parse p = Some ts \<Longrightarrow> \<exists>k us. ts = k # us \<and> k \<noteq> Star"
  by (cases p) (auto split: if_splits list.splits option.splits dest!: class_match_tok)

definition star_sound :: "match \<Rightarrow> tok list \<Rightarrow> cstr \<Rightarrow> bool" where
  "star_sound r ts tx \<longleftrightarrow> (r = M_TRUE \<and> (\<exists>k. wmatch ts (drop k tx)))
     \<or> (r = M_ABORT \<and> (\<forall>k. \<not> wmatch ts (drop k tx)))"

lemma drop_cases: "(\<exists>k. P (drop k (t # tx))) \<longleftrightarrow> P (t # tx) \<or> (\<exists>k. P (drop k tx))"
  by (metis drop_0 drop_Suc_Cons not0_implies_Suc)

lemma star_sound_Star: "star_sound r us tx \<Longrightarrow> sound r (Star # us) tx"
proof -
  have "\<not> wmatch (Star # us) (drop n tx)" if "\<forall>k. \<not> wmatch us (drop k tx)" for n
    using that by (auto simp: wmatch_Star drop_drop)
  then show "star_sound r us tx \<Longrightarrow> ?thesis"
    by (auto simp: star_sound_def sound_def wmatch_Star)
qed

lemma sound_imp_star_sound_Cons:
  assumes "sound r ts (t # tx)" "r = M_FALSE \<Longrightarrow> star_sound r' ts tx"
  shows "star_sound (if r = M_FALSE then r' else r) ts (t # tx)"
proof (cases r)
  case M_TRUE
  with assms(1) have "wmatch ts (drop 0 (t # tx))" by (simp add: sound_def)
  then have "\<exists>k. wmatch ts (drop k (t # tx))" by (rule exI)
  with M_TRUE show ?thesis by (simp add: star_sound_def)
next
  case M_FALSE
  with assms show ?thesis
    using drop_cases [of "wmatch ts" t tx] by (auto simp: star_sound_def sound_def)
next
  case M_ABORT
  with assms(1) show ?thesis by (simp add: star_sound_def sound_def)
qed

lemma star_sound_Nil: "ts \<noteq> [] \<Longrightarrow> hd ts \<noteq> Star \<Longrightarrow> star_sound M_ABORT ts []"
  by (cases ts) (auto simp: star_sound_def wmatch_consumes)

abbreviation hd_not_star :: "cstr \<Rightarrow> bool" where
  "hd_not_star p \<equiv> p \<noteq> [] \<and> hd p \<noteq> CHR ''*''"

lemma DoMatch_star_loop_sound:
  "parse p = Some ts \<Longrightarrow> \<exists>r. DoMatch tx p = Some r \<and> sound r ts tx"
  "parse p = Some ts \<Longrightarrow> hd_not_star p \<Longrightarrow> \<exists>r. star_loop tx p = Some r \<and> star_sound r ts tx"
proof (induction tx p and tx p arbitrary: ts and ts rule: DoMatch_star_loop.induct)
  case (1 tx)
  then show ?case by (auto simp: sound_def)
next
  case (2 tx c p)
  consider (star) "c = CHR ''*''" | (nil) "c \<noteq> CHR ''*''" "tx = []"
    | (esc) t tx' where "tx = t # tx'" "c = CHR 0x5C"
    | (any) t tx' where "tx = t # tx'" "c = CHR ''?''"
    | (cls) t tx' where "tx = t # tx'" "c = CHR ''[''"
    | (lit) t tx' where "tx = t # tx'" "c \<noteq> CHR ''*''" "c \<noteq> CHR 0x5C" "c \<noteq> CHR ''?''" "c \<noteq> CHR ''[''"
    by (cases tx) auto
  then show ?case
  proof cases
    case star
    define q where "q = dropWhile (\<lambda>d. d = CHR ''*'') p"
    from star "2.prems" obtain ts' where "parse p = Some ts'" and ts: "ts = Star # ts'" by auto
    from parse_stars [OF this(1)] obtain us where
      us: "parse q = Some us" "\<forall>tx. wmatch (Star # ts') tx = wmatch (Star # us) tx"
      by (auto simp: q_def)
    have eq: "sound r ts tx = sound r (Star # us) tx" for r
      using us(2) ts by (simp add: sound_def)
    show ?thesis
    proof (cases "q = []")
      case True
      with us(1) have "us = []" by simp
      then have "wmatch (Star # us) tx" by (auto simp: wmatch_Star intro: exI [of _ "length tx"])
      with True star eq show ?thesis by (simp add: q_def sound_def)
    next
      case False
      then have "hd_not_star q" using hd_dropWhile [of "\<lambda>d. d = CHR ''*''" p] by (simp add: q_def)
      from "2.IH"(1) [OF star q_def False us(1) this] obtain r where
        "star_loop tx q = Some r" "star_sound r us tx" by blast
      moreover from False star have "DoMatch tx (c # p) = star_loop tx q"
        unfolding q_def by (simp del: dropWhile_eq_Nil_conv)
      ultimately show ?thesis using star_sound_Star eq by simp
    qed
  next
    case nil
    from parse_hd_not_star [of "c # p" ts] nil "2.prems" obtain k us where "ts = k # us" "k \<noteq> Star"
      by auto
    with nil sound_end show ?thesis by simp
  next
    case esc
    show ?thesis
    proof (cases p)
      case Nil
      with esc "2.prems" sound_reject [of Never t "[]" tx'] show ?thesis by simp
    next
      case (Cons d p')
      with esc "2.prems" obtain us where us: "parse p' = Some us" "ts = Lit d # us" by auto
      show ?thesis
      proof (cases "t = d")
        case True
        with "2.IH"(2) [of t tx' d p' us] esc Cons us obtain r where
          "DoMatch tx' p' = Some r" "sound r us tx'" by auto
        with sound_consume [of r us tx' "Lit d" t] True esc Cons us show ?thesis by simp
      next
        case False
        with sound_reject [of "Lit d" t us tx'] esc Cons us show ?thesis by simp
      qed
    qed
  next
    case any
    with "2.prems" obtain us where us: "parse p = Some us" "ts = Any # us" by auto
    with "2.IH"(3) [of t tx' us] any obtain r where "DoMatch tx' p = Some r" "sound r us tx'" by auto
    with sound_consume [of r us tx' Any t] any us show ?thesis by simp
  next
    case cls
    with "2.prems" obtain k p' us where k: "class_tok p = Some (k, p')" "parse p' = Some us" "ts = k # us"
      by (auto split: option.splits)
    from class_match_tok [OF k(1), of t] obtain m inverted "is" where
      m: "k = Class inverted is" "class_match t p = Some (m, inverted, Some p')"
        "m \<noteq> inverted \<longleftrightarrow> tok_accepts k t" by blast
    show ?thesis
    proof (cases "m = inverted")
      case True
      with sound_reject [of k t us tx'] m k cls show ?thesis by simp
    next
      case False
      from cls have "c \<noteq> CHR ''*''" "c \<noteq> CHR 0x5C" "c \<noteq> CHR ''?''" by simp_all
      from "2.IH"(4) [OF this(1) cls(1) this(2,3) cls(2) m(2) refl refl False refl k(2)]
      obtain r where "DoMatch tx' p' = Some r" "sound r us tx'" by blast
      with sound_consume [of r us tx' k t] False m k cls show ?thesis by simp
    qed
  next
    case lit
    with "2.prems" obtain us where us: "parse p = Some us" "ts = Lit c # us" by auto
    show ?thesis
    proof (cases "t = c")
      case True
      with "2.IH"(5) [of t tx' us] lit us obtain r where "DoMatch tx' p = Some r" "sound r us tx'"
        by auto
      with sound_consume [of r us tx' "Lit c" t] True lit us show ?thesis by simp
    next
      case False
      with sound_reject [of "Lit c" t us tx'] lit us show ?thesis by simp
    qed
  qed
next
  case (3 p)
  with parse_hd_not_star [of p ts] star_sound_Nil [of ts] show ?case by auto
next
  case (4 t tx p)
  from "4.IH"(1) [OF "4.prems"(1)] obtain r where
    r: "DoMatch (t # tx) p = Some r" "sound r ts (t # tx)" by blast
  show ?case
  proof (cases "r = M_FALSE")
    case True
    with "4.IH"(2) [OF r(1)] "4.prems" obtain r' where "star_loop tx p = Some r'" "star_sound r' ts tx"
      by auto
    with sound_imp_star_sound_Cons [OF r(2), of r'] r True show ?thesis by simp
  next
    case False
    with sound_imp_star_sound_Cons [OF r(2)] r show ?thesis by (cases r) auto
  qed
qed

lemma Wld_match_parse:
  "parse p = Some ts \<Longrightarrow> Wld_match tx p = Some (wmatch ts tx)"
proof -
  assume a: "parse p = Some ts"
  show ?thesis
  proof (cases "p = ''*''")
    case True
    with a have "ts = [Star]" by auto
    then have "wmatch ts tx" by (auto simp: wmatch_Star intro: exI [of _ "length tx"])
    with True show ?thesis by (simp add: Wld_match_def)
  next
    case False
    from DoMatch_star_loop_sound(1) [OF a, of tx] obtain r where
      "DoMatch tx p = Some r" "sound r ts tx" by blast
    with False show ?thesis by (simp add: Wld_match_def sound_def)
  qed
qed

text \<open>C15. On every pattern whose character classes are closed, \<open>Wld_match\<close> reads inside the
  pattern and its answer is that of the backtracking reference: the abort rule and the shortcut for
  the pattern of a single star change no result.\<close>

theorem Wld_match_reference:
  "parse p = Some ts \<Longrightarrow> Wld_match tx p = Some (wmatch ts tx)"
  by (rule Wld_match_parse)

theorem Wld_match_reference_witness:
  "Wld_match ''comp.lang.c'' ''comp.*.[a-c]'' = Some True"
  using Wld_match_reference [of "''comp.*.[a-c]''" _ "''comp.lang.c''"]
  by (simp add: class_tok_def item_body_def schar_def)

end
