(* ===== verification/Interfaces.thy ===== *)
theory Interfaces
  imports Prelude
begin

text \<open>
  The contracts the components rely on, as locales: cursors that enumerate a sequence one call
  at a time, fixed-width codecs, and byte filters whose result does not depend on how the input
  is cut into reads.  Each is interpreted by the components that provide it.
\<close>

subsection \<open>Cursors\<close>

text \<open>
  A loop \<open>for (x = first(s); x != NULL; x = next(s)) body\<close> over a cursor, with fuel for the
  number of calls; the result is the list of the values the body sees.
\<close>

fun drain :: "('s \<Rightarrow> ('a \<times> 's) option) \<Rightarrow> nat \<Rightarrow> 's \<Rightarrow> 'a list" where
  "drain nxt 0 s = []"
| "drain nxt (Suc n) s = (case nxt s of None \<Rightarrow> [] | Some (x, s') \<Rightarrow> x # drain nxt n s')"

locale cursor =
  fixes nxt :: "'s \<Rightarrow> ('a \<times> 's) option"
    and rest :: "'s \<Rightarrow> 'a list"
    and ok :: "'s \<Rightarrow> bool"
  assumes nxt_end: "ok s \<Longrightarrow> nxt s = None \<Longrightarrow> rest s = []"
    and nxt_item: "ok s \<Longrightarrow> nxt s = Some (x, s') \<Longrightarrow> rest s = x # rest s' \<and> ok s'"
begin

lemma nxt_None_iff: "ok s \<Longrightarrow> nxt s = None \<longleftrightarrow> rest s = []"
  by (cases "nxt s") (auto dest: nxt_end nxt_item)

lemma drain_rest: "ok s \<Longrightarrow> length (rest s) \<le> n \<Longrightarrow> drain nxt n s = rest s"
proof (induction n arbitrary: s)
  case 0
  then show ?case by simp
next
  case (Suc n)
  show ?case
  proof (cases "nxt s")
    case None
    with Suc.prems show ?thesis by (simp add: nxt_end)
  next
    case (Some p)
    then obtain x s' where p: "nxt s = Some (x, s')" by (cases p) simp
    from nxt_item [OF Suc.prems(1) p] have r: "rest s = x # rest s'" "ok s'" by simp_all
    with Suc.IH [of s'] Suc.prems(2) p show ?thesis by simp
  qed
qed

lemma drain_enough:
  "ok s \<Longrightarrow> length (rest s) \<le> n \<Longrightarrow> length (rest s) \<le> m \<Longrightarrow> drain nxt n s = drain nxt m s"
  by (simp add: drain_rest)

end

subsection \<open>Fixed-width codecs\<close>

locale codec =
  fixes pack :: "'v \<Rightarrow> byte list"
    and unpack :: "byte list \<Rightarrow> 'v"
    and width :: nat
  assumes width_pack: "length (pack v) = width"
    and unpack_pack: "unpack (pack v) = v"
    and pack_unpack: "length bs = width \<Longrightarrow> pack (unpack bs) = bs"
begin

lemma pack_inject: "pack v = pack w \<longleftrightarrow> v = w"
  by (metis unpack_pack)

lemma field_at: "unpack (take width (drop (length xs) (xs @ pack v @ ys))) = v"
  using width_pack [of v] by (simp add: unpack_pack)

lemma unpack_inject:
  "length bs = width \<Longrightarrow> length cs = width \<Longrightarrow> unpack bs = unpack cs \<longleftrightarrow> bs = cs"
  by (metis pack_unpack)

end

subsection \<open>Byte filters\<close>

text \<open>
  A filter program reads its input in chunks of any size, carries a small state from one byte to
  the next and appends to its output.  \<open>run_filter\<close> is its inner loop on one chunk.
\<close>

fun run_filter :: "('s \<Rightarrow> 'a \<Rightarrow> 's \<times> 'a list) \<Rightarrow> 's \<Rightarrow> 'a list \<Rightarrow> 's \<times> 'a list" where
  "run_filter step s [] = (s, [])"
| "run_filter step s (x # xs) =
     (let (s1, o1) = step s x; (s2, o2) = run_filter step s1 xs in (s2, o1 @ o2))"

fun run_chunks :: "('s \<Rightarrow> 'a \<Rightarrow> 's \<times> 'a list) \<Rightarrow> 's \<Rightarrow> 'a list list \<Rightarrow> 's \<times> 'a list" where
  "run_chunks step s [] = (s, [])"
| "run_chunks step s (c # cs) =
     (let (s1, o1) = run_filter step s c; (s2, o2) = run_chunks step s1 cs in (s2, o1 @ o2))"

lemma run_filter_append:
  "run_filter step s (xs @ ys) =
     (let (s1, o1) = run_filter step s xs; (s2, o2) = run_filter step s1 ys in (s2, o1 @ o2))"
  by (induction xs arbitrary: s) (auto simp: Let_def split: prod.splits)

lemma run_chunks_concat: "run_chunks step s cs = run_filter step s (concat cs)"
  by (induction cs arbitrary: s) (auto simp: run_filter_append Let_def split: prod.splits)

locale byte_filter =
  fixes step :: "'s \<Rightarrow> 'a \<Rightarrow> 's \<times> 'a list"
    and grow :: nat
  assumes step_length: "length (snd (step s x)) \<le> grow"
begin

lemma run_filter_length: "length (snd (run_filter step s xs)) \<le> grow * length xs"
proof (induction xs arbitrary: s)
  case Nil
  then show ?case by simp
next
  case (Cons x xs)
  obtain s1 o1 where st: "step s x = (s1, o1)" by fastforce
  obtain s2 o2 where rn: "run_filter step s1 xs = (s2, o2)" by fastforce
  from step_length [of s x] st have "length o1 \<le> grow" by simp
  moreover from Cons [of s1] rn have "length o2 \<le> grow * length xs" by simp
  ultimately show ?case using st rn by simp
qed

lemma chunking_irrelevant:
  "concat cs = concat ds \<Longrightarrow> run_chunks step s cs = run_chunks step s ds"
  by (simp add: run_chunks_concat)

end

subsection \<open>Sets kept as lists\<close>

text \<open>
  A component that records keys: what it contains after an insertion and after a removal.  The
  operations return the new state, \<open>None\<close> when they are undefined; \<open>ok\<close> says which keys fit.
\<close>

locale keyset =
  fixes contains :: "'s \<Rightarrow> 'k \<Rightarrow> bool"
    and add :: "'k \<Rightarrow> 's \<Rightarrow> 's option"
    and remove :: "'k \<Rightarrow> 's \<Rightarrow> 's option"
    and inv :: "'s \<Rightarrow> bool"
    and ok :: "'k \<Rightarrow> bool"
  assumes add_ok: "inv s \<Longrightarrow> ok k \<Longrightarrow> \<exists>s'. add k s = Some s' \<and> inv s' \<and> (\<forall>j. contains s' j \<longleftrightarrow> j = k \<or> contains s j)"
    and remove_ok: "inv s \<Longrightarrow> ok k \<Longrightarrow> \<exists>s'. remove k s = Some s' \<and> inv s' \<and> (\<forall>j. contains s' j \<longleftrightarrow> j \<noteq> k \<and> contains s j)"
begin

text \<open>A sequence of insertions (\<open>True\<close>) and removals.\<close>

fun run :: "(bool \<times> 'k) list \<Rightarrow> 's \<Rightarrow> 's option" where
  "run [] s = Some s"
| "run ((True, k) # ops) s = do { s' \<leftarrow> add k s; run ops s' }"
| "run ((False, k) # ops) s = do { s' \<leftarrow> remove k s; run ops s' }"

fun members :: "(bool \<times> 'k) list \<Rightarrow> 'k set \<Rightarrow> 'k set" where
  "members [] K = K"
| "members ((True, k) # ops) K = members ops (insert k K)"
| "members ((False, k) # ops) K = members ops (K - {k})"

lemma run_members:
  "inv s \<Longrightarrow> list_all (\<lambda>(_, k). ok k) ops \<Longrightarrow>
     \<exists>s'. run ops s = Some s' \<and> inv s' \<and> {j. contains s' j} = members ops {j. contains s j}"
proof (induction ops arbitrary: s)
  case Nil
  then show ?case by simp
next
  case (Cons op ops)
  obtain b k where op: "op = (b, k)" by (cases op)
  with Cons.prems have ok: "ok k" by simp
  show ?case
  proof (cases b)
    case True
    from add_ok [OF Cons.prems(1) ok] obtain s' where
      s': "add k s = Some s'" "inv s'" "{j. contains s' j} = insert k {j. contains s j}" by auto
    from Cons.IH [OF s'(2)] Cons.prems s' op True show ?thesis by auto
  next
    case False
    from remove_ok [OF Cons.prems(1) ok] obtain s' where
      s': "remove k s = Some s'" "inv s'" "{j. contains s' j} = {j. contains s j} - {k}" by auto
    from Cons.IH [OF s'(2)] Cons.prems s' op False show ?thesis by auto
  qed
qed

lemma add_remove_absent:
  assumes "inv s" "ok k" "\<not> contains s k"
  shows "\<exists>s1 s2. add k s = Some s1 \<and> remove k s1 = Some s2 \<and> (\<forall>j. contains s2 j \<longleftrightarrow> contains s j)"
proof -
  from add_ok [OF assms(1,2)] obtain s1 where
    s1: "add k s = Some s1" "inv s1" "\<forall>j. contains s1 j \<longleftrightarrow> j = k \<or> contains s j" by blast
  from remove_ok [OF s1(2) assms(2)] s1 assms(3) show ?thesis by auto
qed

end

end
