(* ===== verification/Itemlist.thy ===== *)
theory Itemlist
  imports Interfaces
begin

text \<open>
  Item lists, \<^verbatim>\<open>noffle-1.0.1/src/itemlist.c\<close>: a copy of a string in which every separator behind an
  item has become a NUL and every other separator a \<open>SEP_CHAR\<close>, with a pointer to the next item.

  The pointer is the rest of the buffer; the buffer ends with two NULs, and \<open>None\<close> is a read
  behind them.  Allocation does not fail.  \<open>Itl_enumerates\<close> shows that a loop over
  \<open>Itl_first\<close> and \<open>Itl_next\<close> sees exactly the maximal runs of non-separators.
\<close>

definition SEP_CHAR :: char where
  "SEP_CHAR = CHR 0x01"

record ItemList =
  il_list :: cstr
  il_next :: cstr
  il_count :: nat

fun separate :: "cstr \<Rightarrow> bool \<Rightarrow> cstr \<Rightarrow> cstr \<times> nat" where
  "separate seps inItem [] = ([], if inItem then 1 else 0)"
| "separate seps inItem (c # p) =
     (if inItem then
        if c \<in> set seps
        then (let (b, n) = separate seps False p in (NUL # b, Suc n))
        else (let (b, n) = separate seps True p in (c # b, n))
      else
        if c \<in> set seps
        then (let (b, n) = separate seps False p in (SEP_CHAR # b, n))
        else (let (b, n) = separate seps True p in (c # b, n)))"

definition new_Itl :: "cstr \<Rightarrow> cstr \<Rightarrow> ItemList" where
  "new_Itl lst separators =
     (let (b, n) = separate separators False lst; buf = b @ [NUL, NUL] in
      \<lparr>il_list = buf, il_next = buf, il_count = n\<rparr>)"

fun skip_seps :: "cstr \<Rightarrow> cstr" where
  "skip_seps [] = []"
| "skip_seps (c # p) = (if c = SEP_CHAR then skip_seps p else c # p)"

definition Itl_next :: "ItemList \<Rightarrow> (cstr option \<times> ItemList) option" where
  "Itl_next self =
     (case il_next self of
        [] \<Rightarrow> None
      | c # _ \<Rightarrow>
          if c = NUL then Some (None, self)
          else case skip_seps (il_next self) of
                 [] \<Rightarrow> None
               | d # p \<Rightarrow>
                   if d = NUL \<and> p = [] then None
                   else if d = NUL \<and> hd p = NUL then Some (None, self)
                   else let item = takeWhile (\<lambda>c. c \<noteq> NUL) (d # p) in
                     if length item = length (d # p) then None
                     else Some (Some item, self\<lparr>il_next := drop (Suc (length item)) (d # p)\<rparr>))"

definition Itl_first :: "ItemList \<Rightarrow> (cstr option \<times> ItemList) option" where
  "Itl_first self = Itl_next (self\<lparr>il_next := il_list self\<rparr>)"

definition Itl_count :: "ItemList \<Rightarrow> nat" where
  "Itl_count self = il_count self"

subsection \<open>The enumeration\<close>

text \<open>The buffer position of a cursor: behind the last item, or at the marked form of what is left
  of the string.\<close>

definition is_sep :: "cstr \<Rightarrow> char \<Rightarrow> bool" where
  "is_sep seps c \<longleftrightarrow> c \<in> set seps"

definition list_ok :: "cstr \<Rightarrow> cstr \<Rightarrow> bool" where
  "list_ok seps s \<longleftrightarrow> proper s \<and> (SEP_CHAR \<in> set s \<longrightarrow> SEP_CHAR \<in> set seps)"

definition itl_buf :: "cstr \<Rightarrow> bool" where
  "itl_buf b \<longleftrightarrow> b = [NUL] \<or> (\<exists>seps s. list_ok seps s \<and> b = fst (separate seps False s) @ [NUL, NUL])"

definition itl_step :: "ItemList \<Rightarrow> (cstr \<times> ItemList) option" where
  "itl_step self = (case Itl_next self of Some (Some item, self') \<Rightarrow> Some (item, self') | _ \<Rightarrow> None)"

definition itl_rest :: "ItemList \<Rightarrow> cstr list" where
  "itl_rest self = words_of (\<lambda>c. c = NUL \<or> c = SEP_CHAR) (il_next self)"

lemma list_ok_Cons: "list_ok seps (c # s) \<Longrightarrow> list_ok seps s"
  by (auto simp: list_ok_def)

lemma separate_run:
  "separate seps True s =
     (let w = takeWhile (\<lambda>c. c \<notin> set seps) s; r = dropWhile (\<lambda>c. c \<notin> set seps) s in
      case r of [] \<Rightarrow> (w, 1)
      | _ # r' \<Rightarrow> (w @ NUL # fst (separate seps False r'), Suc (snd (separate seps False r'))))"
  by (induction s)
    (auto simp: Let_def simp del: dropWhile_eq_Nil_conv split: list.splits prod.splits)

lemma separate_skip:
  "separate seps False s =
     (let k = length (takeWhile (\<lambda>c. c \<in> set seps) s); r = dropWhile (\<lambda>c. c \<in> set seps) s in
      (replicate k SEP_CHAR @ fst (separate seps (r \<noteq> []) r), snd (separate seps (r \<noteq> []) r)))"
  by (induction s) (auto simp: Let_def split: prod.splits)

text \<open>The marked string has the same items as the string has runs, and as many as were counted.\<close>

lemma separate_words:
  "list_ok seps s \<Longrightarrow>
     words_of (\<lambda>c. c = NUL \<or> c = SEP_CHAR) (fst (separate seps False s) @ [NUL, NUL])
       = words_of (is_sep seps) s
     \<and> snd (separate seps False s) = length (words_of (is_sep seps) s)"
  and separate_words_in:
  "list_ok seps s \<Longrightarrow> acc \<noteq> [] \<Longrightarrow>
     runs (\<lambda>c. c = NUL \<or> c = SEP_CHAR) acc (fst (separate seps True s) @ [NUL, NUL])
       = runs (is_sep seps) acc s
     \<and> snd (separate seps True s) = length (runs (is_sep seps) acc s)"
  for acc :: cstr
proof (induction s arbitrary: acc)
  case Nil
  { case 1 then show ?case by simp }
  { case 2 then show ?case by simp }
next
  case (Cons c s)
  { case 1
    then have ok: "list_ok seps s" "c \<noteq> NUL" "c = SEP_CHAR \<longrightarrow> c \<in> set seps"
      by (auto simp: list_ok_def)
    show ?case using Cons.IH(1) [OF ok(1)] Cons.IH(2) [OF ok(1), of "[c]"] ok
      by (auto simp: is_sep_def Let_def split: prod.splits) }
  { case 2
    then have ok: "list_ok seps s" "c \<noteq> NUL" "c = SEP_CHAR \<longrightarrow> c \<in> set seps"
      by (auto simp: list_ok_def)
    show ?case using Cons.IH(1) [OF ok(1)] Cons.IH(2) [OF ok(1), of "acc @ [c]"] ok 2
      by (auto simp: is_sep_def Let_def split: prod.splits) }
qed

lemma skip_seps_eq: "skip_seps p = dropWhile (\<lambda>c. c = SEP_CHAR) p"
  by (induction p) auto

text \<open>A cursor position is a run of \<open>SEP_CHAR\<close>, then two NULs at the end of the buffer, or an item,
  its NUL and another cursor position.\<close>

lemma itl_buf_cases:
  assumes "itl_buf b"
  obtains (behind) "b = [NUL]"
  | (blank) k where "b = replicate k SEP_CHAR @ [NUL, NUL]"
  | (item) k w b' where "b = replicate k SEP_CHAR @ w @ NUL # b'" "w \<noteq> []" "proper w"
      "SEP_CHAR \<notin> set w" "itl_buf b'"
proof (cases "b = [NUL]")
  case True
  then show thesis by (rule behind)
next
  case False
  with assms obtain seps s where ok: "list_ok seps s" and
    b: "b = fst (separate seps False s) @ [NUL, NUL]" by (auto simp: itl_buf_def)
  define k where "k = length (takeWhile (\<lambda>c. c \<in> set seps) s)"
  define r where "r = dropWhile (\<lambda>c. c \<in> set seps) s"
  have okr: "list_ok seps r" using ok by (auto simp: list_ok_def r_def dest: set_dropWhileD)
  have sep: "fst (separate seps False s) = replicate k SEP_CHAR @ fst (separate seps (r \<noteq> []) r)"
    unfolding k_def r_def by (subst separate_skip) (simp add: Let_def)
  show thesis
  proof (cases "r = []")
    case True
    with sep b show thesis by (intro blank [of k]) simp
  next
    case False
    define w where "w = takeWhile (\<lambda>c. c \<notin> set seps) r"
    define t where "t = dropWhile (\<lambda>c. c \<notin> set seps) r"
    have "hd r \<notin> set seps" using hd_dropWhile [of "\<lambda>c. c \<in> set seps" s] False by (simp add: r_def)
    with False have w: "w \<noteq> []" by (cases r) (auto simp: w_def)
    have pw: "proper w" using okr by (simp add: w_def list_ok_def)
    have sw: "SEP_CHAR \<notin> set w"
      using okr by (auto simp: w_def list_ok_def dest: set_takeWhileD)
    show thesis
    proof (cases t)
      case Nil
      then have "fst (separate seps True r) = w"
        by (subst separate_run) (simp add: Let_def w_def [symmetric] t_def [symmetric])
      with sep b False w pw sw show thesis
        by (intro item [of k w "[NUL]"]) (auto simp: itl_buf_def)
    next
      case (Cons c t')
      then have "fst (separate seps True r) = w @ NUL # fst (separate seps False t')"
        by (subst separate_run) (simp add: Let_def w_def [symmetric] t_def [symmetric])
      moreover have "set t' \<subseteq> set r"
        using Cons set_dropWhileD [of _ "\<lambda>c. c \<notin> set seps" r] by (auto simp: t_def)
      with okr have "list_ok seps t'" by (auto simp: list_ok_def proper_def)
      ultimately show thesis using sep b False w pw sw
        by (intro item [of k w "fst (separate seps False t') @ [NUL, NUL]"])
          (auto simp: itl_buf_def)
    qed
  qed
qed

lemma words_of_item:
  "w \<noteq> [] \<Longrightarrow> proper w \<Longrightarrow> SEP_CHAR \<notin> set w \<Longrightarrow>
     words_of (\<lambda>c. c = NUL \<or> c = SEP_CHAR) (replicate k SEP_CHAR @ w @ NUL # b)
       = w # words_of (\<lambda>c. c = NUL \<or> c = SEP_CHAR) b"
proof -
  assume w: "w \<noteq> []" "proper w" "SEP_CHAR \<notin> set w"
  have "words_of (\<lambda>c. c = NUL \<or> c = SEP_CHAR) (replicate k SEP_CHAR @ w @ NUL # b)
      = words_of (\<lambda>c. c = NUL \<or> c = SEP_CHAR) (w @ NUL # b)"
    by (rule words_of_seps) auto
  also have "\<dots> = w # words_of (\<lambda>c. c = NUL \<or> c = SEP_CHAR) (NUL # b)"
    by (rule words_of_run) (use w in \<open>auto simp: proper_def\<close>)
  finally show ?thesis by simp
qed

lemma words_of_blank:
  "words_of (\<lambda>c. c = NUL \<or> c = SEP_CHAR) (replicate k SEP_CHAR @ [NUL, NUL]) = []"
  using words_of_seps [of "replicate k SEP_CHAR" "\<lambda>c. c = NUL \<or> c = SEP_CHAR" "[NUL, NUL]"] by simp

lemma SEP_CHAR_not_NUL [simp]: "SEP_CHAR \<noteq> NUL" "NUL \<noteq> SEP_CHAR"
  by (simp_all add: SEP_CHAR_def)

lemma Itl_next_blank:
  "il_next self = replicate k SEP_CHAR @ [NUL, NUL] \<Longrightarrow> Itl_next self = Some (None, self)"
  by (cases k) (auto simp: Itl_next_def skip_seps_eq dropWhile_append split: list.splits)

lemma Itl_next_item:
  assumes b: "il_next self = replicate k SEP_CHAR @ w @ NUL # b'"
    and w: "w \<noteq> []" "proper w" "SEP_CHAR \<notin> set w"
  shows "Itl_next self = Some (Some w, self\<lparr>il_next := b'\<rparr>)"
proof -
  obtain d w' where d: "w = d # w'" using w(1) by (cases w) auto
  have sk: "skip_seps (il_next self) = d # (w' @ NUL # b')"
    unfolding skip_seps_eq b using w d by (auto simp: dropWhile_append)
  have "takeWhile (\<lambda>c. c \<noteq> NUL) (w @ NUL # b') = w"
    by (rule takeWhile_run) (use w(2) in \<open>auto simp: proper_def\<close>)
  then have tw: "takeWhile (\<lambda>c. c \<noteq> NUL) (d # (w' @ NUL # b')) = w"
    by (simp only: d append_Cons)
  have dn: "d \<noteq> NUL" using w(2) d by simp
  have dr: "drop (Suc (length w)) (d # (w' @ NUL # b')) = b'" using d by simp
  obtain c r where c: "il_next self = c # r" "c \<noteq> NUL"
    using b d dn by (cases k) auto
  show ?thesis unfolding Itl_next_def sk c(1) list.case
    using sk c dn d by (simp only: c(1) list.case sk tw dr Let_def) simp
qed

text \<open>The cursor of an item list.\<close>

lemma itl_step_end: "itl_buf (il_next s) \<Longrightarrow> itl_step s = None \<Longrightarrow> itl_rest s = []"
  by (erule itl_buf_cases)
    (auto simp: itl_step_def itl_rest_def Itl_next_item words_of_blank)

lemma itl_step_item:
  assumes "itl_buf (il_next s)" "itl_step s = Some (x, s')"
  shows "itl_rest s = x # itl_rest s' \<and> itl_buf (il_next s')"
  using assms(1)
proof (cases rule: itl_buf_cases)
  case behind
  with assms(2) show ?thesis by (simp add: itl_step_def Itl_next_def)
next
  case (blank k)
  with assms(2) show ?thesis by (simp add: itl_step_def Itl_next_blank)
next
  case (item k w b')
  with assms(2) show ?thesis
    by (auto simp: itl_step_def itl_rest_def Itl_next_item words_of_item)
qed

interpretation itl: cursor itl_step itl_rest "\<lambda>s. itl_buf (il_next s)"
  by unfold_locales (auto dest: itl_step_end itl_step_item)

text \<open>No call on a list that \<open>new_Itl\<close> made and \<open>Itl_next\<close> advanced reads behind the buffer.\<close>

lemma Itl_next_defined: "itl_buf (il_next s) \<Longrightarrow> \<exists>r s'. Itl_next s = Some (r, s') \<and> itl_buf (il_next s')"
proof -
  assume b: "itl_buf (il_next s)"
  then show ?thesis
  proof (cases rule: itl_buf_cases)
    case behind
    with b show ?thesis by (simp add: Itl_next_def)
  qed (use b in \<open>auto simp: Itl_next_blank Itl_next_item\<close>)
qed

lemma il_next_new_Itl: "il_next (new_Itl s seps) = fst (separate seps False s) @ [NUL, NUL]"
  by (simp add: new_Itl_def Let_def split: prod.splits)

lemma itl_rest_new: "list_ok seps s \<Longrightarrow> itl_rest (new_Itl s seps) = words_of (is_sep seps) s"
  using separate_words [of seps s] by (auto simp: itl_rest_def new_Itl_def Let_def split: prod.splits)

text \<open>The two outcomes of a call.\<close>

lemma Itl_next_rest:
  assumes "itl_buf (il_next s)"
  shows "itl_rest s = [] \<Longrightarrow> \<exists>s'. Itl_next s = Some (None, s') \<and> itl_buf (il_next s') \<and> itl_rest s' = []"
    and "itl_rest s = w # ws \<Longrightarrow> \<exists>s'. Itl_next s = Some (Some w, s') \<and> itl_buf (il_next s') \<and> itl_rest s' = ws"
proof -
  obtain r s' where n: "Itl_next s = Some (r, s')" "itl_buf (il_next s')" using Itl_next_defined [OF assms] by blast
  {
    assume "itl_rest s = []"
    then have "itl_step s = None" using itl.nxt_None_iff [OF assms] by simp
    with n have "r = None" by (cases r) (simp_all add: itl_step_def)
    moreover from n this have "s' = s"
      by (auto simp: Itl_next_def Let_def split: list.splits if_splits)
    ultimately show "\<exists>s'. Itl_next s = Some (None, s') \<and> itl_buf (il_next s') \<and> itl_rest s' = []"
      using n \<open>itl_rest s = []\<close> by simp
  next
    assume r: "itl_rest s = w # ws"
    then have "itl_step s \<noteq> None" using itl.nxt_None_iff [OF assms] by simp
    with n obtain x where x: "r = Some x" by (cases r) (simp_all add: itl_step_def)
    with n have "itl_step s = Some (x, s')" by (simp add: itl_step_def)
    from itl.nxt_item [OF assms this] r x n
    show "\<exists>s'. Itl_next s = Some (Some w, s') \<and> itl_buf (il_next s') \<and> itl_rest s' = ws" by simp
  }
qed

lemma new_Itl_buf: "list_ok seps s \<Longrightarrow> itl_buf (il_next (new_Itl s seps))"
  unfolding il_next_new_Itl itl_buf_def by blast

text \<open>A loop from \<open>Itl_first\<close> over \<open>Itl_next\<close> on \<open>new_Itl(list, separators)\<close> sees exactly the
  maximal runs of non-separators of the list, in order, and \<open>Itl_count\<close> is their number, for every
  list that does not carry the character \<open>SEP_CHAR\<close> as text.\<close>

theorem Itl_enumerates:
  "list_ok seps s \<Longrightarrow>
     drain itl_step (Itl_count (new_Itl s seps)) (new_Itl s seps) = words_of (is_sep seps) s
     \<and> Itl_count (new_Itl s seps) = length (words_of (is_sep seps) s)
     \<and> Itl_first (new_Itl s seps) = Itl_next (new_Itl s seps)"
proof -
  assume ok: "list_ok seps s"
  note w = separate_words [OF ok]
  note r = itl_rest_new [OF ok]
  have n: "Itl_count (new_Itl s seps) = length (words_of (is_sep seps) s)"
    using w by (auto simp: Itl_count_def new_Itl_def Let_def split: prod.splits)
  have "Itl_first (new_Itl s seps) = Itl_next (new_Itl s seps)"
    by (simp add: Itl_first_def new_Itl_def Let_def split: prod.splits)
  with itl.drain_rest [OF new_Itl_buf [OF ok]] r n show ?thesis by simp
qed

theorem Itl_enumerates_witness:
  "drain itl_step (Itl_count (new_Itl '' a,,b '' '' ,'')) (new_Itl '' a,,b '' '' ,'') = [''a'', ''b'']"
proof -
  have "list_ok '' ,'' '' a,,b ''" by (simp add: list_ok_def SEP_CHAR_def)
  from conjunct1 [OF Itl_enumerates [OF this]] show ?thesis
    by (simp add: is_sep_def del: drain.simps)
qed

text \<open>With that character in the text the count and the loop disagree.\<close>

lemma Itl_count_wrong:
  "Itl_count (new_Itl [SEP_CHAR] '' '') = 1 \<and> itl_step (new_Itl [SEP_CHAR] '' '') = None"
  by (simp add: Itl_count_def new_Itl_def Let_def SEP_CHAR_def itl_step_def Itl_next_def)

end
