(* ===== verification/Dynstr.thy ===== *)
theory Dynstr
  imports Prelude
begin

text \<open>
  Growing strings, \<^verbatim>\<open>noffle-1.0.1/src/dynamicstring.c\<close>: a buffer that at least doubles when it is
  full.

  A cell of the buffer is \<open>None\<close> until it is written; lengths are \<open>int\<close> and an overflow, a store or
  a read outside the buffer, or a read of an unwritten cell makes the result \<open>None\<close>.  \<open>realloc\<close>
  succeeds.  The abstract value of a dynamic string is the C string in it (\<open>ds_repr\<close>); the
  operations refine appending and clearing.
\<close>

record DynStr =
  ds_len :: int
  ds_max :: int
  ds_str :: "char option list option"

text \<open>Checked \<open>int\<close> results and stores.\<close>

definition as_int :: "int \<Rightarrow> int option" where
  "as_int i = (if int_ok i then Some i else None)"

definition store :: "char option list option \<Rightarrow> int \<Rightarrow> char option list \<Rightarrow> char option list option" where
  "store str at cs =
     (case str of
        None \<Rightarrow> None
      | Some buf \<Rightarrow>
          if at < 0 \<or> at + int (length cs) > int (length buf) then None
          else Some (take (nat at) buf @ cs @ drop (nat at + length cs) buf))"

definition grow_buf :: "char option list option \<Rightarrow> int \<Rightarrow> char option list" where
  "grow_buf str m =
     (let old = (case str of None \<Rightarrow> [] | Some b \<Rightarrow> b)
      in take (nat m) old @ replicate (nat m - length old) None)"

definition reallocStr :: "DynStr \<Rightarrow> int \<Rightarrow> DynStr option" where
  "reallocStr self m =
     (if m \<le> ds_max self then Some self
      else
        let buf = grow_buf (ds_str self) m in
        do { buf' \<leftarrow> (if ds_max self = 0 then store (Some buf) 0 [Some NUL] else Some buf);
             Some (self\<lparr>ds_str := Some buf', ds_max := m\<rparr>) })"

definition new_DynStr :: "int \<Rightarrow> DynStr option" where
  "new_DynStr reserve =
     (let s = \<lparr>ds_len = 0, ds_max = 0, ds_str = None\<rparr> in
      if reserve > 0 then do { m \<leftarrow> as_int (reserve + 1); reallocStr s m } else Some s)"

definition DynStr_len :: "DynStr \<Rightarrow> int" where
  "DynStr_len self = ds_len self"

text \<open>Making room: the common guard \<open>len + n + 1 > max\<close> and the doubling.\<close>

definition make_room :: "DynStr \<Rightarrow> int \<Rightarrow> DynStr option" where
  "make_room self n =
     do { l1 \<leftarrow> as_int (ds_len self + n);
          l2 \<leftarrow> as_int (l1 + 1);
          if l2 > ds_max self
          then do { d \<leftarrow> as_int (ds_len self * 2);
                    d1 \<leftarrow> as_int (d + n);
                    m \<leftarrow> as_int (d1 + 1);
                    reallocStr self m }
          else Some self }"

definition DynStr_app :: "DynStr \<Rightarrow> cstr \<Rightarrow> DynStr option" where
  "DynStr_app self s =
     do { len \<leftarrow> as_int (int (length s));
          self1 \<leftarrow> make_room self len;
          buf \<leftarrow> store (ds_str self1) (ds_len self1) (map Some s @ [Some NUL]);
          l \<leftarrow> as_int (ds_len self1 + len);
          Some (self1\<lparr>ds_str := Some buf, ds_len := l\<rparr>) }"

text \<open>\<open>self\<close> and \<open>s\<close> are different objects.\<close>

definition DynStr_appDynStr :: "DynStr \<Rightarrow> DynStr \<Rightarrow> DynStr option" where
  "DynStr_appDynStr self s =
     do { self1 \<leftarrow> make_room self (ds_len s);
          src \<leftarrow> ds_str s;
          cells \<leftarrow> (if int (length src) < ds_len s + 1 then None
                    else Some (take (nat (ds_len s) + 1) src));
          buf \<leftarrow> store (ds_str self1) (ds_len self1) cells;
          l \<leftarrow> as_int (ds_len self1 + ds_len s);
          Some (self1\<lparr>ds_str := Some buf, ds_len := l\<rparr>) }"

definition DynStr_appLn :: "DynStr \<Rightarrow> cstr \<Rightarrow> DynStr option" where
  "DynStr_appLn self s = do { self1 \<leftarrow> DynStr_app self s; DynStr_app self1 [LF] }"

text \<open>\<open>strlen\<close> of the cells from a position on; \<open>None\<close> when the NUL is missing or a cell unwritten.\<close>

fun cell_strlen :: "char option list \<Rightarrow> nat option" where
  "cell_strlen [] = None"
| "cell_strlen (None # cs) = None"
| "cell_strlen (Some c # cs) = (if c = NUL then Some 0 else map_option Suc (cell_strlen cs))"

text \<open>\<open>strncat(str + len, s, (size_t)n)\<close> appends behind the string that starts at \<open>str + len\<close>; a
  negative \<open>n\<close> is a huge bound (\<open>ASSERT\<close> is empty in a build without \<open>DEBUG\<close>).\<close>

definition DynStr_appN :: "DynStr \<Rightarrow> cstr \<Rightarrow> int \<Rightarrow> DynStr option" where
  "DynStr_appN self s n =
     (let len = ds_len self; t = (if n < 0 then s else take (nat n) s) in
      do { self1 \<leftarrow> make_room self n;
           buf0 \<leftarrow> ds_str self1;
           e \<leftarrow> cell_strlen (drop (nat len) buf0);
           buf \<leftarrow> store (Some buf0) (len + int e) (map Some t @ [Some NUL]);
           k \<leftarrow> cell_strlen (drop (nat len) buf);
           l \<leftarrow> as_int (len + int k);
           Some (self1\<lparr>ds_str := Some buf, ds_len := l\<rparr>) })"

definition DynStr_clear :: "DynStr \<Rightarrow> DynStr option" where
  "DynStr_clear self =
     (if ds_max self > 0
      then do { buf \<leftarrow> store (ds_str self) 0 [Some NUL]; Some (self\<lparr>ds_len := 0, ds_str := Some buf\<rparr>) }
      else Some (self\<lparr>ds_len := 0\<rparr>))"

subsection \<open>The abstract value\<close>

text \<open>\<open>ds_repr d s\<close>: the dynamic string holds \<open>s\<close>.\<close>

definition ds_repr :: "DynStr \<Rightarrow> cstr \<Rightarrow> bool" where
  "ds_repr d s \<longleftrightarrow> proper s \<and> ds_len d = int (length s) \<and>
     (case ds_str d of
        None \<Rightarrow> ds_max d = 0 \<and> s = []
      | Some buf \<Rightarrow> ds_max d = int (length buf) \<and>
          (\<exists>r. buf = map Some s @ Some NUL # r))"

lemma as_int_Some [simp]: "int_ok i \<Longrightarrow> as_int i = Some i"
  by (simp add: as_int_def)

lemma int_ok_le: "0 \<le> i \<Longrightarrow> i \<le> INT_MAX \<Longrightarrow> int_ok i"
  by (simp add: int_ok_def INT_MAX_def)

lemma store_at:
  "int (length a) = at \<Longrightarrow> length cs \<le> length r \<Longrightarrow>
     store (Some (a @ r)) at cs = Some (a @ cs @ drop (length cs) r)"
  by (auto simp: store_def)

lemma cell_strlen_at [simp]: "proper s \<Longrightarrow> cell_strlen (map Some s @ Some NUL # r) = Some (length s)"
  by (induction s) auto

lemma ds_repr_Some:
  assumes "ds_repr d s" "ds_str d = Some buf"
  obtains r where "buf = map Some s @ Some NUL # r" "ds_max d = int (length s + Suc (length r))"
    "ds_len d = int (length s)" "proper s"
  using assms by (auto simp: ds_repr_def)

lemma ds_repr_None: "ds_repr d s \<Longrightarrow> ds_str d = None \<Longrightarrow> s = [] \<and> ds_max d = 0 \<and> ds_len d = 0"
  by (auto simp: ds_repr_def)

text \<open>After \<open>make_room\<close> the value is the same and there is room for \<open>n\<close> characters and a NUL.\<close>

lemma reallocStr_repr:
  assumes d: "ds_repr d s" and m: "ds_max d < m"
  shows "\<exists>d' r. reallocStr d m = Some d' \<and> ds_len d' = ds_len d \<and> ds_max d' = m
    \<and> ds_str d' = Some (map Some s @ Some NUL # r) \<and> m = int (length s + Suc (length r))"
proof (cases "ds_str d")
  case None
  with d have z: "s = []" "ds_max d = 0" by (auto dest: ds_repr_None)
  define g where "g = grow_buf None m"
  have g: "g = replicate (nat m) None" by (simp add: g_def grow_buf_def)
  from m z obtain k where k: "nat m = Suc k" by (cases "nat m") auto
  have "store (Some g) 0 [Some NUL] = Some (Some NUL # replicate k None)"
    by (simp add: g k store_def)
  with z m None k show ?thesis
    by (auto simp: reallocStr_def g_def [symmetric] Let_def intro!: exI [of _ "replicate k None"])
next
  case (Some buf)
  from ds_repr_Some [OF d this] obtain r where
    r: "buf = map Some s @ Some NUL # r" "ds_max d = int (length s + Suc (length r))" by blast
  have "grow_buf (Some buf) m = buf @ replicate (nat m - length buf) None"
    using m r by (simp add: grow_buf_def Let_def)
  with r m Some show ?thesis
    by (auto simp: reallocStr_def Let_def)
qed

lemma make_room_repr:
  assumes d: "ds_repr d s" and n: "0 \<le> n" "2 * int (length s) + n + 1 \<le> INT_MAX"
  shows "\<exists>d' r. make_room d n = Some d' \<and> ds_len d' = int (length s)
    \<and> ds_str d' = Some (map Some s @ Some NUL # r) \<and> ds_max d' = int (length s + Suc (length r))
    \<and> n \<le> int (length r)"
proof -
  have len: "ds_len d = int (length s)" using d by (simp add: ds_repr_def)
  have ok: "int_ok (int (length s) + n)" "int_ok (int (length s) + n + 1)"
    "int_ok (int (length s) * 2)" "int_ok (int (length s) * 2 + n)"
    "int_ok (int (length s) * 2 + n + 1)"
    using n by (auto intro!: int_ok_le)
  show ?thesis
  proof (cases "int (length s) + n + 1 > ds_max d")
    case True
    then have "ds_max d < int (length s) * 2 + n + 1" by linarith
    from reallocStr_repr [OF d this] obtain d' r where
      r: "reallocStr d (int (length s) * 2 + n + 1) = Some d'" "ds_len d' = ds_len d"
        "ds_str d' = Some (map Some s @ Some NUL # r)"
        "ds_max d' = int (length s) * 2 + n + 1"
        "int (length s) * 2 + n + 1 = int (length s + Suc (length r))" by blast
    from r(5) have "n \<le> int (length r)" by simp
    moreover have "make_room d n = Some d'" using True len ok r(1) by (simp add: make_room_def)
    ultimately show ?thesis using r len by metis
  next
    case False
    then have "make_room d n = Some d" using len ok by (simp add: make_room_def)
    moreover from False n d obtain buf where buf: "ds_str d = Some buf"
      by (cases "ds_str d") (auto dest: ds_repr_None)
    moreover from ds_repr_Some [OF d buf] obtain r where
      "buf = map Some s @ Some NUL # r" "ds_max d = int (length s + Suc (length r))" by blast
    ultimately show ?thesis using False len by force
  qed
qed

lemma store_end:
  "length cs \<le> Suc (length r) \<Longrightarrow>
     store (Some (map Some s @ Some NUL # r)) (int (length s)) cs
       = Some (map Some s @ cs @ drop (length cs) (Some NUL # r))"
  by (rule store_at) auto

text \<open>What every append of \<open>t\<close> comes to.\<close>

lemma append_repr:
  assumes "ds_len d = int (length s)" "ds_str d = Some (map Some s @ Some NUL # r)"
    "ds_max d = int (length s + Suc (length r))" "length t \<le> length r" "proper s" "proper t"
  shows "ds_repr (d\<lparr>ds_str := Some (map Some s @ (map Some t @ [Some NUL]) @ drop (Suc (length t)) (Some NUL # r)),
      ds_len := int (length s) + int (length t)\<rparr>) (s @ t)"
  using assms by (auto simp: ds_repr_def)

lemma DynStr_app_repr:
  assumes d: "ds_repr d s" and t: "proper t" "2 * int (length s) + int (length t) + 1 \<le> INT_MAX"
  shows "\<exists>d'. DynStr_app d t = Some d' \<and> ds_repr d' (s @ t)"
proof -
  from make_room_repr [OF d _ t(2)] obtain d' r where
    m: "make_room d (int (length t)) = Some d'" "ds_len d' = int (length s)"
      "ds_str d' = Some (map Some s @ Some NUL # r)" "ds_max d' = int (length s + Suc (length r))"
      "length t \<le> length r" by auto
  have ps: "proper s" using d by (simp add: ds_repr_def)
  have ok: "int_ok (int (length t))" "int_ok (int (length s) + int (length t))"
    using t by (auto intro!: int_ok_le)
  from store_end [of "map Some t @ [Some NUL]" r s] m(5)
  have "store (ds_str d') (ds_len d') (map Some t @ [Some NUL])
      = Some (map Some s @ (map Some t @ [Some NUL]) @ drop (Suc (length t)) (Some NUL # r))"
    by (simp add: m(2,3))
  with m ok append_repr [OF m(2-5) ps t(1)] show ?thesis by (simp add: DynStr_app_def)
qed

lemma DynStr_appN_repr:
  assumes d: "ds_repr d s" and t: "proper t" and n: "0 \<le> n" "2 * int (length s) + n + 1 \<le> INT_MAX"
  shows "\<exists>d'. DynStr_appN d t n = Some d' \<and> ds_repr d' (s @ take (nat n) t)"
proof -
  let ?t = "take (nat n) t"
  from make_room_repr [OF d n] obtain d' r where
    m: "make_room d n = Some d'" "ds_len d' = int (length s)"
      "ds_str d' = Some (map Some s @ Some NUL # r)" "ds_max d' = int (length s + Suc (length r))"
      "n \<le> int (length r)" by auto
  have ps: "proper s" and len: "ds_len d = int (length s)" using d by (simp_all add: ds_repr_def)
  have lt: "length ?t \<le> length r" "int (length ?t) \<le> n" using m(5) n by auto
  have ok: "int_ok (int (length s) + int (length ?t))"
    using n lt(2) by (intro int_ok_le) linarith+
  let ?buf = "map Some s @ (map Some ?t @ [Some NUL]) @ drop (Suc (length ?t)) (Some NUL # r)"
  have st: "store (Some (map Some s @ Some NUL # r)) (int (length s) + int 0) (map Some ?t @ [Some NUL])
      = Some ?buf"
    using store_end [of "map Some ?t @ [Some NUL]" r s] lt(1) by simp
  have c0: "cell_strlen (drop (nat (ds_len d)) (map Some s @ Some NUL # r)) = Some 0"
    by (simp add: len)
  have c1: "cell_strlen (drop (nat (ds_len d)) ?buf) = Some (length ?t)"
    using cell_strlen_at [of ?t "drop (Suc (length ?t)) (Some NUL # r)"] t by (simp add: len)
  have pt: "proper ?t" using t by simp
  from n(1) have "DynStr_appN d t n = Some (d'\<lparr>ds_str := Some ?buf, ds_len := int (length s) + int (length ?t)\<rparr>)"
    unfolding DynStr_appN_def Let_def m(1) bind.bind_lunit m(3) c0 st len st
    using c0 c1 ok st by (simp add: len del: drop_append drop_map length_take)
  with append_repr [OF m(2,3,4) lt(1) ps pt] show ?thesis by simp
qed

lemma DynStr_appDynStr_repr:
  assumes d: "ds_repr d s" and e: "ds_repr e t" "ds_str e = Some b"
    and n: "2 * int (length s) + int (length t) + 1 \<le> INT_MAX"
  shows "\<exists>d'. DynStr_appDynStr d e = Some d' \<and> ds_repr d' (s @ t)"
proof -
  from make_room_repr [OF d _ n] obtain d' r where
    m: "make_room d (int (length t)) = Some d'" "ds_len d' = int (length s)"
      "ds_str d' = Some (map Some s @ Some NUL # r)" "ds_max d' = int (length s + Suc (length r))"
      "length t \<le> length r" by auto
  have p: "proper s" "proper t" using d e(1) by (simp_all add: ds_repr_def)
  from ds_repr_Some [OF e] obtain q where q: "b = map Some t @ Some NUL # q" "ds_len e = int (length t)"
    by blast
  have ok: "int_ok (int (length s) + int (length t))" using n by (auto intro!: int_ok_le)
  have cells: "take (nat (ds_len e) + 1) b = map Some t @ [Some NUL]" by (simp add: q)
  from store_end [of "map Some t @ [Some NUL]" r s] m(5)
  have "store (ds_str d') (ds_len d') (map Some t @ [Some NUL])
      = Some (map Some s @ (map Some t @ [Some NUL]) @ drop (Suc (length t)) (Some NUL # r))"
    by (simp add: m(2,3))
  with m ok e(2) cells append_repr [OF m(2-5) p] show ?thesis
    by (simp add: DynStr_appDynStr_def q(2)) (simp add: q(1))
qed

text \<open>Appending a dynamic string that never was allocated copies from a null pointer.\<close>

lemma DynStr_appDynStr_null: "ds_str e = None \<Longrightarrow> DynStr_appDynStr d e = None"
  by (cases "make_room d (ds_len e)") (simp_all add: DynStr_appDynStr_def)

lemma DynStr_clear_repr:
  assumes d: "ds_repr d s"
  shows "\<exists>d'. DynStr_clear d = Some d' \<and> ds_repr d' []"
proof (cases "ds_str d")
  case None
  with d show ?thesis by (auto simp: DynStr_clear_def ds_repr_def)
next
  case (Some buf)
  from ds_repr_Some [OF d this] obtain r where
    r: "buf = map Some s @ Some NUL # r" "ds_max d = int (length s + Suc (length r))" by blast
  then have "buf \<noteq> []" by simp
  then obtain c cs where c: "buf = c # cs" by (meson list.exhaust)
  have "store (Some buf) 0 [Some NUL] = Some (Some NUL # cs)" by (simp add: c store_def)
  moreover have "length buf = length s + Suc (length r)" by (simp add: r(1))
  then have "ds_max d = int (length (c # cs))" unfolding r(2) c by simp
  ultimately show ?thesis using Some r(2) by (simp add: DynStr_clear_def ds_repr_def)
qed

lemma new_DynStr_repr: "reserve < INT_MAX \<Longrightarrow> \<exists>d. new_DynStr reserve = Some d \<and> ds_repr d []"
proof -
  assume r: "reserve < INT_MAX"
  let ?s = "\<lparr>ds_len = 0, ds_max = 0, ds_str = None\<rparr>"
  have z: "ds_repr ?s []" by (simp add: ds_repr_def)
  show ?thesis
  proof (cases "reserve > 0")
    case True
    with r have "int_ok (reserve + 1)" by (intro int_ok_le) auto
    moreover have "ds_max ?s < reserve + 1" using True by simp
    from reallocStr_repr [OF z this] obtain d' r where
      "reallocStr ?s (reserve + 1) = Some d'" "ds_len d' = ds_len ?s" "ds_max d' = reserve + 1"
      "ds_str d' = Some (map Some [] @ Some NUL # r)"
      "reserve + 1 = int (length ([] :: cstr) + Suc (length r))" by blast
    moreover from this have "ds_repr d' []" by (simp add: ds_repr_def)
    ultimately show ?thesis using True by (simp add: new_DynStr_def add.commute)
  qed (use z in \<open>simp add: new_DynStr_def\<close>)
qed

text \<open>A text built line by line, as the readers of articles and of newsgroup lists do it.\<close>

fun app_lines :: "DynStr \<Rightarrow> cstr list \<Rightarrow> DynStr option" where
  "app_lines d [] = Some d"
| "app_lines d (l # ls) = do { d' \<leftarrow> DynStr_appLn d l; app_lines d' ls }"

lemma DynStr_appLn_repr:
  assumes "ds_repr d s" "proper t" "2 * int (length s) + 2 * int (length t) + 2 \<le> INT_MAX"
  shows "\<exists>d'. DynStr_appLn d t = Some d' \<and> ds_repr d' (s @ t @ [LF])"
proof -
  from DynStr_app_repr [OF assms(1,2)] assms(3) obtain d1 where
    d1: "DynStr_app d t = Some d1" "ds_repr d1 (s @ t)" by auto
  from DynStr_app_repr [OF d1(2), of "[LF]"] assms(3) obtain d2 where
    "DynStr_app d1 [LF] = Some d2" "ds_repr d2 (s @ t @ [LF])" by auto
  with d1 show ?thesis by (simp add: DynStr_appLn_def)
qed

lemma app_lines_repr:
  "ds_repr d s \<Longrightarrow> list_all proper ls \<Longrightarrow>
     2 * int (length s) + 2 * int (length (concat (map (\<lambda>l. l @ [LF]) ls))) \<le> INT_MAX \<Longrightarrow>
     \<exists>d'. app_lines d ls = Some d' \<and> ds_repr d' (s @ concat (map (\<lambda>l. l @ [LF]) ls))"
proof (induction ls arbitrary: d s)
  case (Cons l ls)
  then obtain d1 where d1: "DynStr_appLn d l = Some d1" "ds_repr d1 (s @ l @ [LF])"
    using DynStr_appLn_repr [of d s l] by auto
  with Cons.IH [OF d1(2)] Cons.prems(2,3) show ?case by simp
qed simp

text \<open>The operations on dynamic strings refine those on strings: on a buffer that holds \<open>s\<close>,
  appending \<open>t\<close>, appending at most \<open>n\<close> characters of \<open>t\<close> and clearing never leave the buffer, and it
  holds \<open>s @ t\<close>, \<open>s @ take n t\<close> and the empty string afterwards, as long as twice the old length plus
  the new characters fits an \<open>int\<close>.\<close>

theorem DynStr_refines_append:
  "ds_repr d s \<Longrightarrow> proper t \<Longrightarrow> 0 \<le> n \<Longrightarrow>
     2 * int (length s) + max n (int (length t)) + 1 \<le> INT_MAX \<Longrightarrow>
     (\<exists>d'. DynStr_app d t = Some d' \<and> ds_repr d' (s @ t))
     \<and> (\<exists>d'. DynStr_appN d t n = Some d' \<and> ds_repr d' (s @ take (nat n) t))
     \<and> (\<exists>d'. DynStr_clear d = Some d' \<and> ds_repr d' [])"
  using DynStr_app_repr [of d s t] DynStr_appN_repr [of d s t n] DynStr_clear_repr [of d s] by auto

theorem DynStr_refines_append_witness:
  "\<exists>d d'. new_DynStr 2 = Some d \<and> DynStr_app d ''Hallo'' = Some d' \<and> ds_repr d' ''Hallo''"
proof -
  from new_DynStr_repr [of 2] obtain d where d: "new_DynStr 2 = Some d" "ds_repr d []"
    by (auto simp: INT_MAX_def)
  from DynStr_refines_append [OF d(2), of "''Hallo''" 7] d show ?thesis by (auto simp: INT_MAX_def)
qed

end
