(* ===== verification/Util.thy ===== *)
theory Util
  imports Interfaces "HOL-Library.Signed_Division"
begin

text \<open>
  The string utilities, \<^verbatim>\<open>noffle-1.0.1/src/util.c\<close>: reading a text line by line and header by header,
  going back a line, stripping, bounded copies into a \<open>Str\<close>, time stamps, and the date of a message.

  A position in a text is the suffix that starts there, except for \<open>Utl_ungetLn\<close>, which moves
  backwards and uses an index, and for \<open>Utl_stripWhiteSpace\<close>, which may run to the left of the line
  and takes the bytes before it as an argument.  \<open>None\<close> is a store or a read outside an object.
  Time is passed in as what \<open>time\<close>, \<open>localtime\<close> and \<open>gmtime\<close> returned.
\<close>

subsection \<open>Words of a line\<close>

definition nextWhiteSpace :: "cstr \<Rightarrow> cstr" where
  "nextWhiteSpace p = dropWhile (\<lambda>c. \<not> cisspace c) p"

definition nextNonWhiteSpace :: "cstr \<Rightarrow> cstr" where
  "nextNonWhiteSpace p = dropWhile cisspace p"

definition Utl_restOfLn :: "cstr \<Rightarrow> nat \<Rightarrow> cstr" where
  "Utl_restOfLn line token =
     nextNonWhiteSpace (((\<lambda>p. nextWhiteSpace (nextNonWhiteSpace p)) ^^ token) line)"

subsection \<open>Lines\<close>

text \<open>\<open>Past_end l\<close>: the line buffer was full and the returned pointer is behind the final NUL.\<close>

datatype getln = No_line | Got_line cstr cstr | Past_end cstr

fun getLn_loop :: "nat \<Rightarrow> cstr \<Rightarrow> cstr \<Rightarrow> getln" where
  "getLn_loop len result [] = No_line"
| "getLn_loop len result (c # p) =
     (if c = LF then Got_line result p
      else if Suc len \<ge> MAXCHAR - 1
      then (case p of [] \<Rightarrow> Past_end (result @ [c]) | _ # p' \<Rightarrow> Got_line (result @ [c]) p')
      else getLn_loop (Suc len) (result @ [c]) p)"

definition Utl_getLn :: "cstr \<Rightarrow> getln" where
  "Utl_getLn pos = getLn_loop 0 [] pos"

datatype unget = Unget_null | Unget_at nat

fun unget_loop :: "cstr \<Rightarrow> nat \<Rightarrow> unget option" where
  "unget_loop str 0 = Some (Unget_at 0)"
| "unget_loop str (Suc p) =
     (if str ! Suc p = LF then Some (Unget_at (Suc p + 1)) else unget_loop str p)"

definition Utl_ungetLn :: "cstr \<Rightarrow> nat \<Rightarrow> unget option" where
  "Utl_ungetLn str p =
     (if p = 0 then Some Unget_null
      else if str ! (p - 1) \<noteq> LF then Some Unget_null
      else if p = 1 then None
      else unget_loop str (p - 2))"

subsection \<open>Strings\<close>

definition Utl_toLower :: "cstr \<Rightarrow> cstr" where
  "Utl_toLower line = map ctolower line"

definition Utl_stripComment :: "cstr \<Rightarrow> cstr" where
  "Utl_stripComment line = takeWhile (\<lambda>c. c \<noteq> CHR ''#'') line"

text \<open>The loop that walks left from the last character and stores NULs; the argument is the
  memory up to that character, reversed.  It ends at a character that is no white space.\<close>

fun strip_left :: "cstr \<Rightarrow> cstr option" where
  "strip_left [] = None"
| "strip_left (c # m) = (if cisspace c then map_option ((#) NUL) (strip_left m) else Some (c # m))"

text \<open>\<open>pre\<close> is the memory before the line; the results are that memory afterwards and the string
  at the returned pointer.\<close>

definition Utl_stripWhiteSpace :: "cstr \<Rightarrow> cstr \<Rightarrow> (cstr \<times> cstr) option" where
  "Utl_stripWhiteSpace pre line =
     (let line' = dropWhile cisspace line; mem = pre @ line in
      do { m \<leftarrow> strip_left (rev mem);
           let mem' = rev m;
           Some (take (length pre) mem',
                 takeWhile (\<lambda>c. c \<noteq> NUL) (drop (length mem - length line') mem')) })"

definition strncat :: "cstr \<Rightarrow> cstr \<Rightarrow> nat \<Rightarrow> cstr option" where
  "strncat dst src n =
     (let res = dst @ take n src in if Suc (length res) > MAXCHAR then None else Some res)"

text \<open>A negative length becomes a huge \<open>size_t\<close>.\<close>

definition as_size :: "int \<Rightarrow> cstr \<Rightarrow> nat" where
  "as_size n src = (if n < 0 then length src else nat n)"

definition Utl_cpyStr :: "cstr \<Rightarrow> cstr option" where
  "Utl_cpyStr src = strncat [] src MAXCHAR"

definition Utl_cpyStrN :: "cstr \<Rightarrow> int \<Rightarrow> cstr option" where
  "Utl_cpyStrN src n =
     (let n' = (if n > int MAXCHAR then int MAXCHAR else n) in strncat [] src (as_size n' src))"

definition Utl_catStr :: "cstr \<Rightarrow> cstr \<Rightarrow> cstr option" where
  "Utl_catStr dst src = strncat dst src (MAXCHAR - length dst)"

definition Utl_catStrN :: "cstr \<Rightarrow> cstr \<Rightarrow> nat \<Rightarrow> cstr option" where
  "Utl_catStrN dst src n =
     (let un = (if n > MAXCHAR - length dst then MAXCHAR - length dst else n) in strncat dst src un)"

definition Utl_allocAndCpy :: "cstr \<Rightarrow> cstr" where
  "Utl_allocAndCpy src = src"

lemma getLn_loop_shorter:
  "getLn_loop len res p = Got_line l r \<Longrightarrow> length r < length p"
  by (induction len res p rule: getLn_loop.induct) (auto split: if_splits list.splits)

subsection \<open>Header lines\<close>

text \<open>The loop over continuation lines.  The results are the header and the position behind it;
  the position is \<open>None\<close> where the source has a null pointer.\<close>

function header_loop :: "cstr \<Rightarrow> cstr \<Rightarrow> (cstr \<times> cstr option) option" where
  "header_loop result res =
     (if res \<noteq> [] \<and> hd res \<noteq> LF \<and> cisspace (hd res) then
        (case Utl_getLn res of
           No_line \<Rightarrow> None
         | Past_end nextLine \<Rightarrow> None
         | Got_line nextLine res' \<Rightarrow>
             do { (_, nxt) \<leftarrow> Utl_stripWhiteSpace [] nextLine;
                  if nxt \<noteq> []
                  then do { r1 \<leftarrow> Utl_catStr result '' ''; r2 \<leftarrow> Utl_catStr r1 nxt; header_loop r2 res' }
                  else Some (result, Some res) })
      else Some (result, Some res))"
  by pat_completeness auto

termination
  by (relation "measure (\<lambda>(result, res). length res)")
    (auto simp: Utl_getLn_def dest: getLn_loop_shorter)

declare header_loop.simps [simp del]

definition Utl_getHeaderLn :: "cstr \<Rightarrow> (cstr \<times> cstr option) option" where
  "Utl_getHeaderLn p =
     (case Utl_getLn p of
        No_line \<Rightarrow> Some ([], None)
      | Past_end result \<Rightarrow> None
      | Got_line result res \<Rightarrow>
          if result \<noteq> [] \<and> \<not> cisspace (hd result) then header_loop result res
          else Some (result, Some res))"

subsection \<open>Time stamps and dates\<close>

text \<open>\<open>unsigned long\<close> has 32 bits; \<open>%lu\<close> of \<open>fscanf\<close> reads like \<open>strtoul\<close>.\<close>

definition Utl_stamp :: "nat \<Rightarrow> cstr" where
  "Utl_stamp t = dec_nat t @ [LF]"

definition Utl_getStamp :: "cstr option \<Rightarrow> nat option" where
  "Utl_getStamp file =
     (case file of
        None \<Rightarrow> None
      | Some s \<Rightarrow>
          map_option (\<lambda>(i, _). if \<bar>i\<bar> < 2 ^ 32 then nat (i mod 2 ^ 32) else 2 ^ 32 - 1) (scan_d s))"

record tm =
  tm_sec :: int
  tm_min :: int
  tm_hour :: int
  tm_mday :: int
  tm_mon :: nat
  tm_year :: int
  tm_wday :: nat
  tm_yday :: int

definition DOTW :: "cstr list" where
  "DOTW = [''Sun'', ''Mon'', ''Tue'', ''Wed'', ''Thu'', ''Fri'', ''Sat'']"

definition MON :: "cstr list" where
  "MON = [''Jan'', ''Feb'', ''Mar'', ''Apr'', ''May'', ''Jun'', ''Jul'',
          ''Aug'', ''Sep'', ''Oct'', ''Nov'', ''Dec'']"

text \<open>The static variables \<open>nextCalc\<close> and \<open>res\<close>.\<close>

record tz_state =
  nextCalc :: int
  tz_res :: int

definition tz_calc :: "tm \<Rightarrow> tm \<Rightarrow> int" where
  "tz_calc local gmt =
     (let d = tm_yday gmt - tm_yday local;
          d1 = (if d < -1 then -1 else if d > 1 then 1 else d)
      in (d1 * 24 + (tm_hour gmt - tm_hour local)) * 60 + (tm_min gmt - tm_min local))"

definition tzDiff :: "tz_state \<Rightarrow> int \<Rightarrow> tm option \<Rightarrow> tm option \<Rightarrow> int \<times> tz_state" where
  "tzDiff st now local gmt =
     (if now < nextCalc st then (tz_res st, st)
      else case local of
        None \<Rightarrow> (0, st)
      | Some l \<Rightarrow>
          (case gmt of
             None \<Rightarrow> (0, st)
           | Some g \<Rightarrow>
               (tz_calc l g,
                \<lparr>nextCalc = now + (60 - tm_sec l) + 60 * (59 - tm_min l), tz_res = tz_calc l g\<rparr>)))"

text \<open>\<open>%02d\<close>, \<open>%4d\<close> and \<open>%+03ld\<close> of \<open>sprintf\<close>.\<close>

definition pad :: "nat \<Rightarrow> char \<Rightarrow> cstr \<Rightarrow> cstr" where
  "pad w c s = replicate (w - length s) c @ s"

definition fmt_02 :: "int \<Rightarrow> cstr" where
  "fmt_02 i = (if i < 0 then CHR ''-'' # pad 1 (CHR ''0'') (dec_nat (nat (- i)))
               else pad 2 (CHR ''0'') (dec_nat (nat i)))"

definition fmt_4 :: "int \<Rightarrow> cstr" where
  "fmt_4 i = pad 4 (CHR '' '') (dec_int i)"

definition fmt_plus_03 :: "int \<Rightarrow> cstr" where
  "fmt_plus_03 i = (if i < 0 then CHR ''-'' else CHR ''+'') # pad 2 (CHR ''0'') (dec_nat (nat \<bar>i\<bar>))"

definition zone :: "int \<Rightarrow> cstr" where
  "zone tzdiff =
     (let hoffset = tzdiff sdiv 60; moffset = tzdiff smod 60;
          moffset' = (if moffset < 0 then - moffset else moffset)
      in fmt_plus_03 hoffset @ fmt_02 moffset')"

definition Utl_rfc822Date :: "int \<Rightarrow> tm option \<Rightarrow> cstr option" where
  "Utl_rfc822Date tzd local =
     (let tzdiff = - tzd in
      case local of
        None \<Rightarrow> Utl_cpyStr ''** localtime failure **''
      | Some l \<Rightarrow>
          if tm_wday l \<ge> length DOTW \<or> tm_mon l \<ge> length MON then None
          else Some (DOTW ! tm_wday l @ '', '' @ dec_int (tm_mday l) @ '' '' @ MON ! tm_mon l @ '' ''
             @ fmt_4 (tm_year l + 1900) @ '' '' @ fmt_02 (tm_hour l) @ '':'' @ fmt_02 (tm_min l)
             @ '':'' @ fmt_02 (tm_sec l) @ '' '' @ zone tzdiff))"

subsection \<open>Reading a text\<close>

definition text_of :: "cstr list \<Rightarrow> cstr" where
  "text_of ls = concat (map (\<lambda>l. l @ [LF]) ls)"

lemma text_of_simps [simp]:
  "text_of [] = []"
  "text_of (l # ls) = l @ LF # text_of ls"
  "text_of (ls @ ms) = text_of ls @ text_of ms"
  by (simp_all add: text_of_def)

lemma proper_text_of [simp]: "proper (text_of ls) \<longleftrightarrow> list_all proper ls"
  by (induction ls) auto

text \<open>The complete lines of a text; what follows the last newline is not one.\<close>

fun text_lines :: "cstr \<Rightarrow> cstr \<Rightarrow> cstr list" where
  "text_lines acc [] = []"
| "text_lines acc (c # p) = (if c = LF then acc # text_lines [] p else text_lines (acc @ [c]) p)"

text \<open>No line of the text is longer than \<open>n\<close>; the counter \<open>k\<close> is for the line that has begun.\<close>

fun short_lines :: "nat \<Rightarrow> cstr \<Rightarrow> bool" where
  "short_lines k [] = (k < MAXCHAR - 1)"
| "short_lines k (c # p) = (if c = LF then short_lines 0 p else Suc k < MAXCHAR \<and> short_lines (Suc k) p)"

lemma getLn_loop_line:
  "LF \<notin> set l \<Longrightarrow> len + length l < MAXCHAR \<Longrightarrow> getLn_loop len res (l @ LF # r) = Got_line (res @ l) r"
proof (induction l arbitrary: len res)
  case (Cons c l)
  then show ?case by (cases l) (auto simp: MAXCHAR_def)
qed simp

lemma Utl_getLn_line [simp]:
  "LF \<notin> set l \<Longrightarrow> length l < MAXCHAR \<Longrightarrow> Utl_getLn (l @ LF # r) = Got_line l r"
  using getLn_loop_line [of l 0 "[]" r] by (simp add: Utl_getLn_def)

lemma Utl_getLn_Nil [simp]: "Utl_getLn [] = No_line"
  by (simp add: Utl_getLn_def)

lemma Utl_getLn_LF [simp]: "Utl_getLn (LF # r) = Got_line [] r"
  by (simp add: Utl_getLn_def)

lemma getLn_loop_short:
  "short_lines len p \<Longrightarrow> len = length res \<Longrightarrow> len < MAXCHAR - 1 \<Longrightarrow>
     (getLn_loop len res p = No_line \<and> text_lines res p = [])
     \<or> (\<exists>l r. getLn_loop len res p = Got_line l r \<and> short_lines 0 r
          \<and> text_lines res p = l # text_lines [] r)"
proof (induction p arbitrary: len res)
  case (Cons c p)
  show ?case
  proof (cases "c = LF \<or> Suc len < MAXCHAR - 1")
    case True
    then show ?thesis using Cons.IH [of "Suc len" "res @ [c]"] Cons.prems by auto
  next
    case False
    with Cons.prems obtain p' where "p = LF # p'"
      by (cases p) (auto split: if_splits)
    with False Cons.prems show ?thesis by simp
  qed
qed simp

definition getln_step :: "cstr \<Rightarrow> (cstr \<times> cstr) option" where
  "getln_step p = (case Utl_getLn p of Got_line l r \<Rightarrow> Some (l, r) | _ \<Rightarrow> None)"

lemma getln_step_short:
  "short_lines 0 p \<Longrightarrow>
     (getln_step p = None \<and> text_lines [] p = [])
     \<or> (\<exists>l r. getln_step p = Some (l, r) \<and> short_lines 0 r \<and> text_lines [] p = l # text_lines [] r)"
  using getLn_loop_short [of 0 p "[]"] by (auto simp: getln_step_def Utl_getLn_def MAXCHAR_def)

interpretation lines: cursor getln_step "text_lines []" "short_lines 0"
  by unfold_locales (use getln_step_short in fastforce)+

lemma text_lines_run: "LF \<notin> set l \<Longrightarrow> text_lines acc (l @ LF # p) = (acc @ l) # text_lines [] p"
  by (induction l arbitrary: acc) auto

lemma text_lines_text_of: "\<forall>l \<in> set ls. LF \<notin> set l \<Longrightarrow> text_lines [] (text_of ls) = ls"
  by (induction ls) (auto simp: text_lines_run)

lemma short_lines_run:
  "LF \<notin> set l \<Longrightarrow> k + length l < MAXCHAR \<Longrightarrow> short_lines 0 p \<Longrightarrow> short_lines k (l @ LF # p)"
  by (induction l arbitrary: k) auto

lemma short_lines_text_of:
  "\<forall>l \<in> set ls. LF \<notin> set l \<and> length l < MAXCHAR \<Longrightarrow> short_lines 0 (text_of ls)"
  by (induction ls) (auto intro: short_lines_run simp: MAXCHAR_def)

lemma drain_text_of:
  "\<forall>l \<in> set ls. LF \<notin> set l \<and> length l < MAXCHAR \<Longrightarrow>
     drain getln_step (length ls) (text_of ls) = ls"
  using lines.drain_rest [OF short_lines_text_of, of ls "length ls"] text_lines_text_of [of ls] by simp

text \<open>A line of 2048 or more characters loses the character behind the first 2047; where that is
  the final NUL, the returned pointer is behind the text.\<close>

lemma getLn_loop_long:
  "LF \<notin> set l \<Longrightarrow> len + length l = MAXCHAR - 1 \<Longrightarrow> l \<noteq> [] \<Longrightarrow>
     getLn_loop len res (l @ p) =
       (case p of [] \<Rightarrow> Past_end (res @ l) | _ # p' \<Rightarrow> Got_line (res @ l) p')"
proof (induction l arbitrary: len res)
  case (Cons c l)
  then show ?case
    by (cases l) (auto simp: MAXCHAR_def split: list.splits)
qed simp

lemma Utl_getLn_long:
  "LF \<notin> set l \<Longrightarrow> length l = 2047 \<Longrightarrow>
     Utl_getLn (l @ p) = (case p of [] \<Rightarrow> Past_end l | _ # p' \<Rightarrow> Got_line l p')"
proof -
  assume "LF \<notin> set l" "length l = 2047"
  moreover from this have "l \<noteq> []" by auto
  ultimately show ?thesis
    using getLn_loop_long [of l 0 "[]" p] by (cases p) (simp_all add: Utl_getLn_def MAXCHAR_def)
qed

subsection \<open>Going back a line\<close>

lemma unget_loop_run:
  "LF \<notin> set l \<Longrightarrow> a \<noteq> [] \<Longrightarrow> a \<noteq> [LF] \<Longrightarrow> last a = LF \<Longrightarrow>
     unget_loop (a @ l @ r) (length a + length l - 1) = Some (Unget_at (length a))"
proof (induction l arbitrary: r rule: rev_induct)
  case Nil
  then obtain n where n: "length a = Suc (Suc n)"
    by (cases a; cases "tl a") (auto split: if_splits)
  then have "(a @ r) ! Suc n = LF" using Nil.prems(2,4) by (simp add: nth_append last_conv_nth)
  with n show ?case by simp
next
  case (snoc c l)
  from snoc.prems obtain n where n: "length a = Suc (Suc n)"
    by (cases a; cases "tl a") (auto split: if_splits)
  have "(a @ l @ c # r) ! (length a + length l) = c" by (simp add: nth_append)
  moreover from snoc.prems(1) have "c \<noteq> LF" by auto
  ultimately show ?case using n snoc.IH [of "c # r"] snoc.prems by simp
qed

lemma unget_loop_first: "LF \<notin> set l \<Longrightarrow> n < length l \<Longrightarrow> unget_loop (l @ r) n = Some (Unget_at 0)"
proof (induction n)
  case (Suc n)
  then have "(l @ r) ! Suc n \<noteq> LF" by (metis nth_append nth_mem)
  with Suc show ?case by simp
qed simp

lemma Utl_ungetLn_back:
  assumes "LF \<notin> set l" "a = [] \<and> l \<noteq> [] \<or> a \<noteq> [] \<and> a \<noteq> [LF] \<and> last a = LF"
  shows "Utl_ungetLn (a @ l @ LF # r) (length a + length l + 1) = Some (Unget_at (length a))"
proof -
  have n: "(a @ l @ LF # r) ! (length a + length l) = LF" by (simp add: nth_append)
  show ?thesis
  proof (cases "a = []")
    case True
    with assms have "l \<noteq> []" "unget_loop (l @ LF # r) (length l - 1) = Some (Unget_at 0)"
      by (auto intro: unget_loop_first)
    with True n show ?thesis by (simp add: Utl_ungetLn_def)
  next
    case False
    with assms n unget_loop_run [of l a "LF # r"] show ?thesis by (simp add: Utl_ungetLn_def)
  qed
qed

lemma text_of_last: "ls \<noteq> [] \<Longrightarrow> text_of ls \<noteq> [] \<and> last (text_of ls) = LF"
proof (induction ls)
  case (Cons l ls)
  then show ?case by (cases "ls = []") auto
qed simp

text \<open>When the first line is empty, going back from behind it reads before the text, and going
  back to the second line ends at the first.\<close>

lemma Utl_ungetLn_empty_first:
  "Utl_ungetLn (LF # r) 1 = None"
  "Utl_ungetLn (LF # ''ab'' @ LF # r) 4 = Some (Unget_at 0)"
  by (simp_all add: Utl_ungetLn_def numeral_eq_Suc)

text \<open>On a text made of lines of at most 2047 characters, a loop over \<open>Utl_getLn\<close> returns exactly
  the lines; and from the end of any prefix of its lines \<open>Utl_ungetLn\<close> goes back to the start of the
  last of them, if the first line of the text is not empty.\<close>

theorem getLn_ungetLn_text:
  "\<forall>l \<in> set (ls @ m # ms). LF \<notin> set l \<and> length l < MAXCHAR \<Longrightarrow> hd (ls @ [m]) \<noteq> [] \<Longrightarrow>
     drain getln_step (length (ls @ m # ms)) (text_of (ls @ m # ms)) = ls @ m # ms
     \<and> Utl_getLn (drop (length (text_of ls)) (text_of (ls @ m # ms))) = Got_line m (text_of ms)
     \<and> Utl_ungetLn (text_of (ls @ m # ms)) (length (text_of ls) + length m + 1)
         = Some (Unget_at (length (text_of ls)))"
proof -
  assume a: "\<forall>l \<in> set (ls @ m # ms). LF \<notin> set l \<and> length l < MAXCHAR"
    and ne: "hd (ls @ [m]) \<noteq> []"
  have "text_of ls \<noteq> [LF]" using ne by (cases ls) (auto simp: append_eq_Cons_conv)
  then have "text_of ls = [] \<and> m \<noteq> [] \<or> text_of ls \<noteq> [] \<and> text_of ls \<noteq> [LF] \<and> last (text_of ls) = LF"
    using ne text_of_last [of ls] by (cases "ls = []") auto
  with a Utl_ungetLn_back [of m "text_of ls" "text_of ms"] drain_text_of [OF a] show ?thesis
    by simp
qed

theorem getLn_ungetLn_text_witness:
  "drain getln_step 2 (''ab'' @ LF # ''c'' @ [LF]) = [''ab'', ''c'']
   \<and> Utl_ungetLn (''ab'' @ LF # ''c'' @ [LF]) 5 = Some (Unget_at 3)"
  using getLn_ungetLn_text [of "[''ab'']" "''c''" "[]"]
  by (simp add: MAXCHAR_def numeral_eq_Suc del: drain.simps)

subsection \<open>Stripping and unfolding\<close>

definition strip :: "cstr \<Rightarrow> cstr" where
  "strip s = rev (dropWhile cisspace (rev (dropWhile cisspace s)))"

definition blank :: "cstr \<Rightarrow> bool" where
  "blank s \<longleftrightarrow> list_all cisspace s"

lemma strip_left_run:
  "list_all cisspace b \<Longrightarrow> \<not> cisspace c \<Longrightarrow>
     strip_left (b @ c # m) = Some (replicate (length b) NUL @ c # m)"
  by (induction b) auto

lemma strip_left_blank: "list_all cisspace m \<Longrightarrow> strip_left m = None"
  by (induction m) auto

lemma dropWhile_spaces: "list_all cisspace a \<Longrightarrow> w \<noteq> [] \<Longrightarrow> \<not> cisspace (hd w) \<Longrightarrow>
    dropWhile cisspace (a @ w) = w"
  by (induction a) (auto simp: neq_Nil_conv)

lemma strip_parts:
  assumes "\<not> blank s"
  obtains a b where "s = a @ strip s @ b" "list_all cisspace a" "list_all cisspace b"
    "strip s \<noteq> []" "\<not> cisspace (hd (strip s))" "\<not> cisspace (last (strip s))"
proof -
  define r where "r = dropWhile cisspace s"
  define a where "a = takeWhile cisspace s"
  define b where "b = rev (takeWhile cisspace (rev r))"
  have s: "s = a @ r" by (simp add: a_def r_def)
  have a: "list_all cisspace a" by (auto simp: a_def list_all_iff dest: set_takeWhileD)
  have "r \<noteq> []" using assms by (auto simp: r_def blank_def list_all_iff)
  then have hr: "\<not> cisspace (hd r)" unfolding r_def by (rule hd_dropWhile)
  define q where "q = dropWhile cisspace (rev r)"
  have st: "strip s = rev q" by (simp add: strip_def r_def q_def)
  have r: "r = strip s @ b" unfolding st b_def q_def by (metis rev_append rev_rev_ident takeWhile_dropWhile_id)
  have b: "list_all cisspace b" by (auto simp: b_def list_all_iff dest: set_takeWhileD)
  have ne: "strip s \<noteq> []" using hr \<open>r \<noteq> []\<close> st by (auto simp: hd_in_set q_def)
  then have "q \<noteq> []" by (simp add: st)
  then have "\<not> cisspace (hd q)" unfolding q_def by (rule hd_dropWhile)
  then have "\<not> cisspace (last (strip s))" using \<open>q \<noteq> []\<close> by (simp add: st last_rev)
  moreover have "hd (strip s @ b) = hd (strip s)" using ne by simp
  with hr r have "\<not> cisspace (hd (strip s))" by argo
  moreover have "s = a @ strip s @ b" using s r by argo
  ultimately show thesis using that a b ne by blast
qed

lemma Utl_stripWhiteSpace_strip:
  assumes "\<not> blank line" "proper line"
  shows "Utl_stripWhiteSpace pre line = Some (pre, strip line)"
proof -
  obtain a b where p: "line = a @ strip line @ b" "list_all cisspace a" "list_all cisspace b"
    "strip line \<noteq> []" "\<not> cisspace (hd (strip line))" "\<not> cisspace (last (strip line))"
    by (rule strip_parts [OF assms(1)])
  define w where "w = strip line"
  from p(4,6) obtain v c where w: "w = v @ [c]" "\<not> cisspace c"
    unfolding w_def [symmetric] by (metis append_butlast_last_id)
  have line: "line = a @ w @ b" using p(1) by (simp add: w_def)
  have pw: "proper w" using assms(2) by (simp add: line)
  have d: "dropWhile cisspace line = w @ b"
    unfolding line using p(2,4,5) by (intro dropWhile_spaces) (auto simp: w_def)
  have m: "strip_left (rev (pre @ line)) = Some (replicate (length b) NUL @ rev w @ rev a @ rev pre)"
    using strip_left_run [of "rev b" c "rev v @ rev a @ rev pre"] p(3) w
    by (simp add: line list_all_iff)
  have tw: "takeWhile (\<lambda>c. c \<noteq> NUL) (w @ replicate (length b) NUL) = w"
  proof (rule takeWhile_run)
    show "\<forall>c \<in> set w. c \<noteq> NUL" using pw by (auto simp: proper_def)
    show "replicate (length b) NUL = [] \<or> \<not> hd (replicate (length b) NUL) \<noteq> NUL"
      by (cases b) simp_all
  qed
  have len: "length line = length a + (length w + length b)" by (simp add: line)
  show ?thesis
    unfolding Utl_stripWhiteSpace_def Let_def m bind.bind_lunit d w_def [symmetric]
    using tw by (simp add: len)
qed

text \<open>On a blank line the loop does not stop at the start of the line: it goes on through the
  memory before it, and erases the white space that stands there.\<close>

lemma Utl_stripWhiteSpace_blank:
  "blank line \<Longrightarrow> Utl_stripWhiteSpace [] line = None"
  by (simp add: Utl_stripWhiteSpace_def blank_def strip_left_blank list_all_iff)

lemma Utl_stripWhiteSpace_before:
  "Utl_stripWhiteSpace ''ab '' ''  '' = Some (''ab'' @ [NUL], [])"
  by (simp add: Utl_stripWhiteSpace_def Let_def cisspace_def)

lemma Utl_catStr_eq: "length a + length b < MAXCHAR \<Longrightarrow> Utl_catStr a b = Some (a @ b)"
  by (simp add: Utl_catStr_def strncat_def)

lemma Utl_cpyStr_eq: "length a < MAXCHAR \<Longrightarrow> Utl_cpyStr a = Some a"
  by (simp add: Utl_cpyStr_def strncat_def)

text \<open>A source of \<open>MAXCHAR\<close> or more characters is cut to \<open>MAXCHAR\<close> and its NUL is stored behind the
  \<open>Str\<close>: the bound leaves no room for it.\<close>

lemma Utl_cpyStr_overflow: "MAXCHAR \<le> length a \<Longrightarrow> Utl_cpyStr a = None"
  by (simp add: Utl_cpyStr_def strncat_def)

lemma Utl_catStr_overflow:
  "length a \<le> MAXCHAR \<Longrightarrow> MAXCHAR \<le> length a + length b \<Longrightarrow> Utl_catStr a b = None"
  by (simp add: Utl_catStr_def strncat_def)

definition continuation :: "cstr \<Rightarrow> bool" where
  "continuation c \<longleftrightarrow> c \<noteq> [] \<and> cisspace (hd c) \<and> \<not> blank c \<and> LF \<notin> set c \<and> proper c
     \<and> length c < MAXCHAR"

definition unfolded :: "cstr \<Rightarrow> cstr list \<Rightarrow> cstr" where
  "unfolded l cs = l @ concat (map (\<lambda>c. CHR '' '' # strip c) cs)"

lemma header_loop_text:
  "list_all continuation cs \<Longrightarrow> r = [] \<or> hd r = LF \<or> \<not> cisspace (hd r) \<Longrightarrow>
     length (unfolded l cs) < MAXCHAR \<Longrightarrow>
     header_loop l (text_of cs @ r) = Some (unfolded l cs, Some r)"
proof (induction cs arbitrary: l)
  case Nil
  then show ?case by (auto simp: header_loop.simps [of l r] unfolded_def)
next
  case (Cons c cs)
  then have c: "c \<noteq> []" "cisspace (hd c)" "\<not> blank c" "LF \<notin> set c" "proper c" "length c < MAXCHAR"
    by (simp_all add: continuation_def)
  have ne: "strip c \<noteq> []" using strip_parts [OF c(3)] by metis
  have hd: "hd c \<noteq> LF" using c(1,4) by (cases c) auto
  have cat: "Utl_catStr l '' '' = Some (l @ '' '')"
    "Utl_catStr (l @ '' '') (strip c) = Some (l @ '' '' @ strip c)"
    using Cons.prems(3) by (simp_all add: Utl_catStr_eq unfolded_def)
  have "header_loop l (text_of (c # cs) @ r) = header_loop (l @ '' '' @ strip c) (text_of cs @ r)"
    using c hd ne cat by (simp add: header_loop.simps [of l] Utl_stripWhiteSpace_strip)
  also have "\<dots> = Some (unfolded (l @ '' '' @ strip c) cs, Some r)"
    by (rule Cons.IH) (use Cons.prems in \<open>auto simp: unfolded_def\<close>)
  finally show ?case by (simp add: unfolded_def)
qed

text \<open>Reading a folded header gives its first line and the stripped continuation lines joined by
  single spaces, and stops at the first line that is empty or does not start with white space,
  as long as the result and each line fit a \<open>Str\<close>.\<close>

theorem getHeaderLn_unfolds:
  "LF \<notin> set l \<Longrightarrow> l \<noteq> [] \<Longrightarrow> \<not> cisspace (hd l) \<Longrightarrow> list_all continuation cs \<Longrightarrow>
     r = [] \<or> hd r = LF \<or> \<not> cisspace (hd r) \<Longrightarrow> length (unfolded l cs) < MAXCHAR \<Longrightarrow>
     Utl_getHeaderLn (text_of (l # cs) @ r) = Some (unfolded l cs, Some r)"
  using header_loop_text [of cs r l] by (simp add: Utl_getHeaderLn_def unfolded_def)

theorem getHeaderLn_unfolds_witness:
  "Utl_getHeaderLn (text_of [''References: <a@b>'', TAB # ''<c@d> ''] @ ''Lines: 3'')
     = Some (''References: <a@b> <c@d>'', Some ''Lines: 3'')"
  using getHeaderLn_unfolds [of "''References: <a@b>''" "[TAB # ''<c@d> '']" "''Lines: 3''"]
  by (simp add: continuation_def unfolded_def strip_def blank_def cisspace_def MAXCHAR_def)

subsection \<open>Dates\<close>

lemma scan_d_dec_nat: "t = [] \<or> \<not> cisdigit (hd t) \<Longrightarrow> scan_d (dec_nat n @ t) = Some (int n, t)"
  using scan_d_dec_int [of t "int n"] by (simp add: dec_int_def)

text \<open>A time stamp that was written is read back.\<close>

theorem getStamp_stamp:
  "t < 2 ^ 32 \<Longrightarrow> Utl_getStamp (Some (Utl_stamp t)) = Some t"
  using scan_d_dec_nat [of "[LF]" t]
  by (simp add: Utl_getStamp_def Utl_stamp_def cisdigit_def)

theorem getStamp_stamp_witness: "Utl_getStamp (Some (Utl_stamp 1017337285)) = Some 1017337285"
  using getStamp_stamp [of 1017337285] by simp

text \<open>The minutes from the start of the year.\<close>

definition year_minute :: "tm \<Rightarrow> int" where
  "year_minute t = tm_yday t * 1440 + tm_hour t * 60 + tm_min t"

lemma tz_calc_same_year:
  "\<bar>tm_yday g - tm_yday l\<bar> \<le> 1 \<Longrightarrow> tz_calc l g = year_minute g - year_minute l"
  by (auto simp: tz_calc_def year_minute_def Let_def)

text \<open>Over the turn of the year the day is corrected the wrong way: when GMT is already in the new
  year, its day number is smaller, and the result is two days too small.\<close>

lemma tz_calc_new_year:
  "tm_yday g - tm_yday l < -1 \<Longrightarrow>
     tz_calc l g = 1440 + (tm_hour g - tm_hour l) * 60 + (tm_min g - tm_min l) - 2880"
  by (auto simp: tz_calc_def Let_def)

text \<open>The minutes that a zone of the form \<open>+hhmm\<close> stands for.\<close>

definition zone_value :: "cstr \<Rightarrow> int" where
  "zone_value z =
     (if hd z = CHR ''-'' then -1 else 1)
       * (60 * int (dec_val (take 2 (drop 1 z))) + int (dec_val (drop 3 z)))"

lemma pad2: "n < 100 \<Longrightarrow> length (pad 2 (CHR ''0'') (dec_nat n)) = 2
    \<and> dec_val (pad 2 (CHR ''0'') (dec_nat n)) = n"
proof (cases "n < 10")
  case True
  then have "dec_nat n = [char_of (48 + n)]" by (simp add: dec_nat.simps [of n])
  with True show ?thesis by (simp add: pad_def dec_val_def of_char_mod_256)
next
  case False
  assume "n < 100"
  with False have "dec_nat n = [char_of (48 + n div 10), char_of (48 + n mod 10)]"
    by (simp add: dec_nat.simps [of n] dec_nat.simps [of "n div 10"])
  moreover have "dec_val (dec_nat n) = n" by simp
  ultimately show ?thesis by (simp add: pad_def)
qed

lemma zone_value_parts:
  assumes "h < 100" "m < 100"
  shows "zone_value (c # pad 2 (CHR ''0'') (dec_nat h) @ pad 2 (CHR ''0'') (dec_nat m))
    = (if c = CHR ''-'' then -1 else 1) * (60 * int h + int m)"
  using pad2 [OF assms(1)] pad2 [OF assms(2)] by (simp add: zone_value_def)

lemma sdiv_smod_60:
  "0 \<le> d \<Longrightarrow> d sdiv 60 = d div 60 \<and> d smod 60 = d mod 60"
  "d < 0 \<Longrightarrow> d sdiv 60 = - ((- d) div 60) \<and> d smod 60 = - ((- d) mod 60)" for d :: int
  by (simp_all add: signed_divide_int_def signed_modulo_int_def sgn_if)

lemma zone_eq:
  assumes "\<bar>d\<bar> < 1440"
  shows "zone d = (if d \<le> -60 then CHR ''-'' else CHR ''+'')
      # pad 2 (CHR ''0'') (dec_nat (nat (\<bar>d\<bar> div 60))) @ pad 2 (CHR ''0'') (dec_nat (nat (\<bar>d\<bar> mod 60)))"
proof (cases "0 \<le> d")
  case True
  then show ?thesis
    by (auto simp: zone_def Let_def sdiv_smod_60(1) fmt_plus_03_def fmt_02_def)
next
  case False
  then have d: "d < 0" by simp
  have m: "(- d) mod 60 \<ge> 0" by simp
  have h: "(- d) div 60 = 0 \<longleftrightarrow> - 60 < d" using d by (auto simp: zdiv_eq_0_iff)
  have h0: "(- d) div 60 \<ge> 0" using d by (simp add: pos_imp_zdiv_nonneg_iff)
  show ?thesis using d m h h0
    by (auto simp: zone_def Let_def sdiv_smod_60(2) fmt_plus_03_def fmt_02_def)
qed

text \<open>The zone of a date stands for the difference between local time and GMT, which
  \<open>tzDiff\<close> computes from the two broken-down times of one year, except that the sign of a
  difference of less than an hour west of Greenwich is lost.\<close>

theorem rfc822Date_zone:
  "now \<ge> nextCalc st \<Longrightarrow> \<bar>tm_yday g - tm_yday l\<bar> \<le> 1 \<Longrightarrow>
   \<bar>year_minute l - year_minute g\<bar> < 1440 \<Longrightarrow>
   tm_wday t < length DOTW \<Longrightarrow> tm_mon t < length MON \<Longrightarrow>
     \<exists>date. Utl_rfc822Date (fst (tzDiff st now (Some l) (Some g))) (Some t) = Some (date @ '' '' @
          zone (year_minute l - year_minute g))
       \<and> zone_value (zone (year_minute l - year_minute g))
          = (if - 60 < year_minute l - year_minute g \<and> year_minute l < year_minute g
             then year_minute g - year_minute l else year_minute l - year_minute g)"
proof -
  assume a: "now \<ge> nextCalc st" "\<bar>tm_yday g - tm_yday l\<bar> \<le> 1"
    "\<bar>year_minute l - year_minute g\<bar> < 1440"
    and t: "tm_wday t < length DOTW" "tm_mon t < length MON"
  let ?d = "year_minute l - year_minute g"
  have "fst (tzDiff st now (Some l) (Some g)) = - ?d"
    using a tz_calc_same_year [of g l] by (simp add: tzDiff_def)
  moreover have "\<exists>date. Utl_rfc822Date (- ?d) (Some t) = Some (date @ '' '' @ zone ?d)"
    using t unfolding Utl_rfc822Date_def Let_def by auto
  moreover have "zone_value (zone ?d) = (if ?d \<le> -60 then -1 else 1) * \<bar>?d\<bar>"
    unfolding zone_eq [OF a(3)] using a(3)
    by (subst zone_value_parts) (auto simp: nat_less_iff minus_mult_div_eq_mod [symmetric])
  ultimately show ?thesis by auto
qed

definition cet :: tm where
  "cet = \<lparr>tm_sec = 25, tm_min = 41, tm_hour = 18, tm_mday = 28, tm_mon = 2, tm_year = 102,
     tm_wday = 4, tm_yday = 86\<rparr>"

theorem rfc822Date_zone_witness:
  "\<exists>date. Utl_rfc822Date (fst (tzDiff \<lparr>nextCalc = 0, tz_res = 0\<rparr> 1017337285 (Some cet)
       (Some (cet\<lparr>tm_hour := 17\<rparr>)))) (Some cet) = Some (date @ '' +0100'')"
proof -
  have "zone 60 = ''+0100''"
    by code_simp
  then show ?thesis
    using rfc822Date_zone [of "\<lparr>nextCalc = 0, tz_res = 0\<rparr>" 1017337285 "cet\<lparr>tm_hour := 17\<rparr>" cet cet]
    by (simp add: year_minute_def cet_def DOTW_def MON_def)
qed

end
