(* ===== verification/Stdio.thy ===== *)
theory Stdio
  imports Util
begin

text \<open>
  The pieces of \<open>stdio\<close> that the file readers of Noffle share: \<open>fgets\<close> into a \<open>Str\<close>, the
  lines a loop over it sees, the conversion \<open>%i\<close> of \<open>sscanf\<close>, and a \<open>Str\<close> as an array of cells that
  may not have been written yet.
\<close>

subsection \<open>Reading lines\<close>

text \<open>\<open>fgets(line, MAXCHAR, f)\<close> reads up to a newline, which it keeps, or \<open>MAXCHAR - 1\<close>
  characters; the line it stores ends at its first NUL.\<close>

fun fgets_line :: "nat \<Rightarrow> cstr \<Rightarrow> cstr \<times> cstr" where
  "fgets_line room [] = ([], [])"
| "fgets_line 0 (c # s) = ([], c # s)"
| "fgets_line (Suc room) (c # s) =
     (if c = LF then ([c], s) else (let (l, r) = fgets_line room s in (c # l, r)))"

definition fgets :: "cstr \<Rightarrow> (cstr \<times> cstr) option" where
  "fgets s = (if s = [] then None
    else let (l, r) = fgets_line (MAXCHAR - 1) s in Some (takeWhile (\<lambda>c. c \<noteq> NUL) l, r))"

lemma fgets_line_length: "length (snd (fgets_line n s)) \<le> length s"
  by (induction n s rule: fgets_line.induct) (auto simp: Let_def split: prod.splits)

lemma fgets_line_shorter: "s \<noteq> [] \<Longrightarrow> length (snd (fgets_line (Suc n) s)) < length s"
  by (cases s) (auto simp: Let_def less_Suc_eq_le fgets_line_length split: prod.splits
      intro: fgets_line_length [THEN le_trans] dest: arg_cong [where f = "length \<circ> snd"]
      , metis fgets_line_length snd_conv)

lemma fgets_shorter: "fgets s = Some (l, r) \<Longrightarrow> length r < length s"
  using fgets_line_shorter [of s "MAXCHAR - 2"]
  by (auto simp: fgets_def MAXCHAR_def numeral_eq_Suc split: if_splits prod.splits)

function fgets_all :: "cstr \<Rightarrow> cstr list" where
  "fgets_all s = (case fgets s of None \<Rightarrow> [] | Some (l, r) \<Rightarrow> l # fgets_all r)"
  by pat_completeness auto

termination by (relation "measure length") (auto dest: fgets_shorter)

declare fgets_all.simps [simp del]

interpretation file_lines: cursor fgets fgets_all "\<lambda>_. True"
  by unfold_locales (simp_all add: fgets_all.simps)

lemma fgets_line_run:
  "LF \<notin> set l \<Longrightarrow> length l < n \<Longrightarrow> fgets_line n (l @ LF # s) = (l @ [LF], s)"
proof (induction l arbitrary: n)
  case Nil
  then show ?case by (cases n) auto
next
  case (Cons c l)
  then show ?case by (cases n) auto
qed

lemma fgets_run:
  "LF \<notin> set l \<Longrightarrow> proper l \<Longrightarrow> Suc (length l) < MAXCHAR \<Longrightarrow> fgets (l @ LF # s) = Some (l @ [LF], s)"
  using takeWhile_eq_all_conv [of "\<lambda>c. c \<noteq> NUL" "l @ [LF]"]
  by (auto simp: fgets_def fgets_line_run proper_def)

definition file_line :: "cstr \<Rightarrow> bool" where
  "file_line l \<longleftrightarrow> LF \<notin> set l \<and> proper l \<and> Suc (length l) < MAXCHAR"

lemma fgets_all_Nil [simp]: "fgets_all [] = []"
  by (simp add: fgets_all.simps fgets_def)

lemma fgets_all_text_of:
  "list_all file_line ls \<Longrightarrow> fgets_all (text_of ls) = map (\<lambda>l. l @ [LF]) ls"
proof (induction ls)
  case (Cons l ls)
  then have "fgets (l @ LF # text_of ls) = Some (l @ [LF], text_of ls)"
    by (intro fgets_run) (auto simp: file_line_def)
  with Cons show ?case by (simp add: fgets_all.simps [of "l @ LF # text_of ls"])
qed simp

subsection \<open>Words\<close>

lemma strip_run:
  assumes "w \<noteq> []" "\<not> cisspace (hd w)" "\<not> cisspace (last w)" "list_all cisspace b"
  shows "strip (w @ b) = w"
proof -
  have "dropWhile cisspace (w @ b) = w @ b" using assms(1,2) by (cases w) auto
  moreover have "dropWhile cisspace (rev b @ rev w) = rev w"
    by (rule dropWhile_spaces) (use assms in \<open>auto simp: hd_rev list_all_iff\<close>)
  ultimately show ?thesis by (simp add: strip_def)
qed

lemma scan_s_run:
  assumes "w \<noteq> []" "\<forall>c \<in> set w. \<not> cisspace c" "t = [] \<or> cisspace (hd t)"
  shows "scan_s (w @ t) = Some (w, t)"
proof -
  have "dropWhile cisspace (w @ t) = w @ t" using assms(1,2) by (cases w) auto
  moreover have "takeWhile (\<lambda>c. \<not> cisspace c) (w @ t) = w" by (rule takeWhile_run) (use assms in auto)
  moreover have "dropWhile (\<lambda>c. \<not> cisspace c) (w @ t) = t" by (rule dropWhile_run) (use assms in auto)
  ultimately show ?thesis using assms(1) by (simp add: scan_s_def Let_def)
qed

lemma scan_s_space [simp]: "scan_s (CHR '' '' # s) = scan_s s"
  by (simp add: scan_s_def cisspace_def)

lemma scan_d_space [simp]: "scan_d (CHR '' '' # s) = scan_d s"
  by (simp add: scan_d_def cisspace_def)

lemma scan_s_Nil [simp]: "scan_s [] = None"
  by (simp add: scan_s_def)

text \<open>The conversions of a format \<open>"%s %s ..."\<close> with \<open>n\<close> words: the words that were read.\<close>

fun scan_n :: "nat \<Rightarrow> cstr \<Rightarrow> cstr list" where
  "scan_n 0 s = []"
| "scan_n (Suc n) s = (case scan_s s of None \<Rightarrow> [] | Some (w, r) \<Rightarrow> w # scan_n n r)"

definition word :: "cstr \<Rightarrow> bool" where
  "word w \<longleftrightarrow> w \<noteq> [] \<and> (\<forall>c \<in> set w. \<not> cisspace c \<and> c \<noteq> NUL \<and> c \<noteq> CHR ''#'')"

fun unwords :: "cstr list \<Rightarrow> cstr" where
  "unwords [] = []"
| "unwords [w] = w"
| "unwords (w # ws) = w @ CHR '' '' # unwords ws"

lemma scan_s_word: "word w \<Longrightarrow> scan_s w = Some (w, [])"
  using scan_s_run [of w "[]"] by (simp add: word_def)

lemma scan_s_word_space: "word w \<Longrightarrow> scan_s (w @ CHR '' '' # t) = Some (w, CHR '' '' # t)"
  by (rule scan_s_run) (simp_all add: word_def cisspace_def)

lemma scan_n_unwords: "list_all word ws \<Longrightarrow> scan_n n (unwords ws) = take n ws"
proof (induction ws arbitrary: n rule: unwords.induct)
  case 1
  then show ?case by (cases n) auto
next
  case (2 w)
  then show ?case by (cases n; cases "n - 1") (auto simp: scan_s_word)
next
  case (3 w v ws)
  have sp: "scan_n k (CHR '' '' # t) = scan_n k t" for k t by (cases k) simp_all
  from 3 show ?case by (cases n) (auto simp: scan_s_word_space sp)
qed

lemma unwords_ok:
  assumes "list_all word ws" "ws \<noteq> []"
  shows "unwords ws \<noteq> [] \<and> \<not> cisspace (hd (unwords ws)) \<and> \<not> cisspace (last (unwords ws))
    \<and> CHR ''#'' \<notin> set (unwords ws) \<and> proper (unwords ws)"
  using assms
proof (induction ws rule: unwords.induct)
  case (2 w)
  then show ?case by (auto simp: word_def proper_def)
next
  case (3 w v ws)
  then show ?case by (auto simp: word_def proper_def)
qed simp

lemma word_dec_int: "word (dec_int i)"
  using cisdigit_dec_nat cisdigit_not
  by (auto simp: word_def dec_int_def cisspace_def) (auto simp: cisdigit_def dest!: cisdigit_dec_nat)

subsection \<open>Numbers of any base\<close>

definition hex_digit :: "char \<Rightarrow> nat option" where
  "hex_digit c =
     (let n = (of_char c :: nat) in
      if 48 \<le> n \<and> n \<le> 57 then Some (n - 48)
      else if 97 \<le> n \<and> n \<le> 102 then Some (n - 87)
      else if 65 \<le> n \<and> n \<le> 70 then Some (n - 55)
      else None)"

definition base_digit :: "nat \<Rightarrow> char \<Rightarrow> bool" where
  "base_digit b c = (case hex_digit c of None \<Rightarrow> False | Some d \<Rightarrow> d < b)"

definition base_val :: "nat \<Rightarrow> cstr \<Rightarrow> nat" where
  "base_val b ds = foldl (\<lambda>a c. b * a + the (hex_digit c)) 0 ds"

definition scan_unsigned :: "cstr \<Rightarrow> nat option" where
  "scan_unsigned s =
     (case s of
        [] \<Rightarrow> None
      | c # r \<Rightarrow>
          if c = CHR ''0'' then
            (if r \<noteq> [] \<and> (hd r = CHR ''x'' \<or> hd r = CHR ''X'')
             then (case takeWhile (base_digit 16) (tl r) of [] \<Rightarrow> None | ds \<Rightarrow> Some (base_val 16 ds))
             else Some (base_val 8 (takeWhile (base_digit 8) r)))
          else map_option fst (scan_nat s))"

text \<open>The conversion \<open>%i\<close>: decimal, octal behind a \<open>0\<close> or hexadecimal behind \<open>0x\<close>.\<close>

definition scan_i :: "cstr \<Rightarrow> int option" where
  "scan_i s =
     (case dropWhile cisspace s of
        [] \<Rightarrow> None
      | c # r \<Rightarrow>
          if c = CHR ''-'' then map_option (\<lambda>n. - int n) (scan_unsigned r)
          else if c = CHR ''+'' then map_option int (scan_unsigned r)
          else map_option int (scan_unsigned (c # r)))"

lemma dec_nat_hd_zero: "hd (dec_nat n) = CHR ''0'' \<Longrightarrow> n = 0"
proof (induction n rule: dec_nat.induct)
  case (1 n)
  show ?case
  proof (cases "n < 10")
    case True
    with 1(2) have "char_of (48 + n) = CHR ''0''" by (simp add: dec_nat.simps [of n])
    from arg_cong [OF this, of "of_char :: char \<Rightarrow> nat"] True show ?thesis
      by (simp add: of_char_mod_256)
  next
    case False
    with 1 have "n div 10 = 0" by (simp add: dec_nat.simps [of n])
    with False show ?thesis by simp
  qed
qed

lemma scan_unsigned_dec_nat: "scan_unsigned (dec_nat n) = Some n"
proof (cases "n = 0")
  case True
  have "dec_nat 0 = ''0''" by code_simp
  with True show ?thesis by (simp add: scan_unsigned_def base_val_def)
next
  case False
  obtain c r where cr: "dec_nat n = c # r" by (cases "dec_nat n") simp_all
  with dec_nat_hd_zero [of n] False have "c \<noteq> CHR ''0''" by auto
  with cr scan_nat_dec_nat [of "[]" n] show ?thesis by (simp add: scan_unsigned_def)
qed

lemma scan_i_dec_int: "scan_i (dec_int i) = Some i"
proof (cases "i < 0")
  case True
  then show ?thesis by (simp add: scan_i_def dec_int_def cisspace_def scan_unsigned_dec_nat)
next
  case False
  obtain c r where cr: "dec_nat (nat i) = c # r" by (cases "dec_nat (nat i)") simp_all
  with hd_dec_nat [of "nat i"] have "cisdigit c" by simp
  note n = cisdigit_not [OF this]
  with False cr scan_unsigned_dec_nat [of "nat i"] show ?thesis
    by (simp add: scan_i_def dec_int_def)
qed

subsection \<open>Cells of a \<open>Str\<close>\<close>

type_synonym cells = "char option list"

definition fresh :: cells where
  "fresh = replicate MAXCHAR None"

definition overlay :: "char option list \<Rightarrow> cells \<Rightarrow> cells" where
  "overlay xs buf = xs @ drop (length xs) buf"

text \<open>The string in the cells; \<open>None\<close> when an unwritten cell or the end comes before a NUL.\<close>

fun cells_str :: "cells \<Rightarrow> cstr option" where
  "cells_str [] = None"
| "cells_str (None # b) = None"
| "cells_str (Some c # b) = (if c = NUL then Some [] else map_option ((#) c) (cells_str b))"

lemma cells_str_run: "proper s \<Longrightarrow> cells_str (map Some s @ Some NUL # b) = Some s"
  by (induction s) auto

lemma cells_str_overlay: "proper s \<Longrightarrow> cells_str (overlay (map Some s @ [Some NUL]) b) = Some s"
  by (simp add: overlay_def cells_str_run)

end
