(* ===== verification/Overview.thy ===== *)
theory Overview
  imports Stdio
begin

text \<open>
  Overviews of articles, \<^verbatim>\<open>noffle-1.0.1/src/over.c\<close>: the record, and its line in an overview file.

  \<open>size_t\<close> and \<open>int\<close> have 32 bits, and the byte and line counts are printed and read with \<open>%d\<close>.
  The buffers of \<open>Ov_read\<close> are arrays of cells, because a field that ends at the end of the line is
  left without a NUL; \<open>None\<close> is the use of such an unterminated buffer or a read behind the line.
\<close>

record Over =
  ov_numb :: int
  ov_subj :: cstr
  ov_from :: cstr
  ov_date :: cstr
  ov_msgId :: cstr
  ov_ref :: cstr
  ov_bytes :: u32
  ov_lines :: u32

definition new_Over :: "cstr \<Rightarrow> cstr \<Rightarrow> cstr \<Rightarrow> cstr \<Rightarrow> cstr \<Rightarrow> u32 \<Rightarrow> u32 \<Rightarrow> Over" where
  "new_Over subj frm date msgId ref bytes lns =
     \<lparr>ov_numb = 0, ov_subj = subj, ov_from = frm, ov_date = date, ov_msgId = msgId, ov_ref = ref,
      ov_bytes = bytes, ov_lines = lns\<rparr>"

definition Ov_setNumb :: "Over \<Rightarrow> int \<Rightarrow> Over" where
  "Ov_setNumb self numb = self\<lparr>ov_numb := numb\<rparr>"

definition Ov_write :: "Over \<Rightarrow> cstr" where
  "Ov_write self =
     dec_int (ov_numb self) @ TAB # ov_subj self @ TAB # ov_from self @ TAB # ov_date self
     @ TAB # ov_msgId self @ TAB # ov_ref self @ TAB # dec_int (sint (ov_bytes self))
     @ TAB # dec_int (sint (ov_lines self)) @ [LF]"

text \<open>\<open>r\<close> is what has been copied.  The results are the cells to store over the buffer and the new
  position, \<open>None\<close> when it is behind the NUL of the line.\<close>

fun readField_loop :: "cstr \<Rightarrow> cstr \<Rightarrow> char option list \<times> cstr option" where
  "readField_loop r [] = (map Some r, Some [])"
| "readField_loop r (c # p) =
     (if c = TAB \<or> c = LF then (map Some r @ [Some NUL], Some p)
      else if Suc (length r) \<ge> MAXCHAR - 1
      then (map Some (r @ [c]) @ [Some NUL], case p of [] \<Rightarrow> None | _ # p' \<Rightarrow> Some p')
      else readField_loop (r @ [c]) p)"

definition readField :: "cells \<Rightarrow> cstr \<Rightarrow> cells \<times> cstr option" where
  "readField result p =
     (let (cs, p') = readField_loop [] p in (overlay cs (overlay [Some NUL] result), p'))"

definition as_int32 :: "int \<Rightarrow> u32 option" where
  "as_int32 i = (if int_ok i then Some (word_of_int i) else None)"

text \<open>The inner option is the null pointer that an unreadable number gives.\<close>

definition Ov_read :: "cstr \<Rightarrow> Over option option" where
  "Ov_read line =
     (let (t, p) = readField fresh line in
      do { ts \<leftarrow> cells_str t;
           case scan_i ts of
             None \<Rightarrow> Some None
           | Some numb \<Rightarrow>
               do { p1 \<leftarrow> p; (let (subj, p) = readField fresh p1 in
               do { p2 \<leftarrow> p; (let (frm, p) = readField fresh p2 in
               do { p3 \<leftarrow> p; (let (date, p) = readField fresh p3 in
               do { p4 \<leftarrow> p; (let (msgId, p) = readField fresh p4 in
               do { p5 \<leftarrow> p; (let (ref, p) = readField fresh p5 in
               do { p6 \<leftarrow> p; (let (t, p) = readField t p6 in
               do { ts \<leftarrow> cells_str t;
                    case scan_d ts of
                      None \<Rightarrow> Some None
                    | Some (b, _) \<Rightarrow>
                        do { bytes \<leftarrow> as_int32 b;
                             p7 \<leftarrow> p; (let (t, p) = readField t p7 in
                             do { ts \<leftarrow> cells_str t;
                                  case scan_d ts of
                                    None \<Rightarrow> Some None
                                  | Some (l, _) \<Rightarrow>
                                      do { lns \<leftarrow> as_int32 l;
                                           s \<leftarrow> cells_str subj; f \<leftarrow> cells_str frm;
                                           d \<leftarrow> cells_str date; m \<leftarrow> cells_str msgId;
                                           r \<leftarrow> cells_str ref;
                                           if int_ok numb
                                           then Some (Some (Ov_setNumb (new_Over s f d m r bytes lns) numb))
                                           else None } }) } }) }) }) }) }) }) } })"

subsection \<open>Written and read back\<close>

definition field_ok :: "cstr \<Rightarrow> bool" where
  "field_ok s \<longleftrightarrow> proper s \<and> TAB \<notin> set s \<and> LF \<notin> set s \<and> length s < MAXCHAR"

definition ov_ok :: "Over \<Rightarrow> bool" where
  "ov_ok ov \<longleftrightarrow> int_ok (ov_numb ov) \<and> field_ok (ov_subj ov) \<and> field_ok (ov_from ov)
     \<and> field_ok (ov_date ov) \<and> field_ok (ov_msgId ov) \<and> field_ok (ov_ref ov)"

lemma readField_loop_run:
  "field_ok (r @ s) \<Longrightarrow> c = TAB \<or> c = LF \<Longrightarrow>
     readField_loop r (s @ c # p) = (map Some (r @ s) @ [Some NUL], Some p)"
proof (induction s arbitrary: r)
  case (Cons d s)
  then have d: "d \<noteq> TAB" "d \<noteq> LF" and l: "length r + Suc (length s) < MAXCHAR"
    and ok: "field_ok ((r @ [d]) @ s)" by (auto simp: field_ok_def)
  show ?case
  proof (cases "Suc (length r) \<ge> MAXCHAR - 1")
    case True
    with l have "s = []" by (cases s) (auto simp: MAXCHAR_def)
    with True d show ?thesis by simp
  next
    case False
    with Cons.IH [OF ok Cons.prems(2)] d show ?thesis by simp
  qed
qed auto

lemma readField_run:
  "field_ok s \<Longrightarrow> c = TAB \<or> c = LF \<Longrightarrow>
     readField b (s @ c # p) = (overlay (map Some s @ [Some NUL]) (overlay [Some NUL] b), Some p)"
  using readField_loop_run [of "[]" s c p] by (simp add: readField_def)

lemma field_ok_proper: "field_ok s \<Longrightarrow> proper s"
  by (simp add: field_ok_def)

lemma dec_nat_length: "n < 10 ^ k \<Longrightarrow> 0 < k \<Longrightarrow> length (dec_nat n) \<le> k"
proof (induction k arbitrary: n)
  case (Suc k)
  show ?case
  proof (cases "n < 10")
    case True
    then show ?thesis by (simp add: dec_nat.simps [of n])
  next
    case False
    with Suc.prems have "k > 0" by (cases k) auto
    moreover from Suc.prems have "n div 10 < 10 ^ k" by (simp add: less_mult_imp_div_less mult.commute)
    ultimately show ?thesis using Suc.IH [of "n div 10"] False by (simp add: dec_nat.simps [of n])
  qed
qed simp

lemma field_ok_dec_int: "int_ok i \<Longrightarrow> field_ok (dec_int i)"
proof -
  assume "int_ok i"
  then have "nat \<bar>i\<bar> < 10 ^ 10" by (auto simp: int_ok_def INT_MAX_def nat_less_iff)
  then have "length (dec_nat (nat \<bar>i\<bar>)) \<le> 10" by (rule dec_nat_length) simp
  moreover have "length (dec_int i) \<le> Suc (length (dec_nat (nat \<bar>i\<bar>)))" by (simp add: dec_int_def)
  moreover have "c \<noteq> TAB \<and> c \<noteq> LF" if "c \<in> set (dec_int i)" for c
    using that cisdigit_dec_nat cisdigit_not by (auto simp: dec_int_def split: if_splits)
  ultimately show ?thesis by (auto simp: field_ok_def MAXCHAR_def)
qed

lemma int_ok_sint: "int_ok (sint (w :: u32))"
  using sint_ge [of w] sint_lt [of w] by (simp add: int_ok_def INT_MAX_def)

lemma as_int32_sint [simp]: "as_int32 (sint (w :: u32)) = Some w"
  using int_ok_sint [of w] by (simp add: as_int32_def)

lemma scan_d_dec_int_end [simp]: "scan_d (dec_int i) = Some (i, [])"
  using scan_d_dec_int [of "[]" i] by simp

lemma Ov_read_write:
  assumes "ov_ok ov"
  shows "Ov_read (Ov_write ov) = Some (Some ov)"
proof -
  have f: "field_ok (dec_int (ov_numb ov))" "field_ok (dec_int (sint (ov_bytes ov)))"
    "field_ok (dec_int (sint (ov_lines ov)))" "field_ok (ov_subj ov)" "field_ok (ov_from ov)"
    "field_ok (ov_date ov)" "field_ok (ov_msgId ov)" "field_ok (ov_ref ov)" "int_ok (ov_numb ov)"
    using assms by (auto simp: ov_ok_def intro: field_ok_dec_int int_ok_sint)
  note p = f(1-8) [THEN field_ok_proper]
  show ?thesis
    unfolding Ov_read_def Ov_write_def
    by (simp add: readField_run f p cells_str_overlay scan_i_dec_int Let_def
        Ov_setNumb_def new_Over_def)
qed

text \<open>C36. Reading the line that \<open>Ov_write\<close> writes gives the same overview, when no field has a tab,
  newline or NUL and each is shorter than a \<open>Str\<close>; the unsigned counts survive the signed format.\<close>

theorem Ov_read_Ov_write:
  "ov_ok ov \<Longrightarrow> Ov_read (Ov_write ov) = Some (Some ov)"
  by (rule Ov_read_write)

definition sample_over :: Over where
  "sample_over = \<lparr>ov_numb = 7, ov_subj = ''Re: eh2002'', ov_from = ''a@b'', ov_date = ''Thu, 28 Mar 2002'',
     ov_msgId = ''<x@y>'', ov_ref = '''', ov_bytes = 0xFFFFFFFF, ov_lines = 12\<rparr>"

theorem Ov_read_Ov_write_witness:
  "Ov_read (Ov_write sample_over) = Some (Some sample_over)"
  by (rule Ov_read_Ov_write)
    (simp add: ov_ok_def field_ok_def sample_over_def int_ok_def INT_MAX_def MAXCHAR_def)

text \<open>A line without its newline leaves the last count unterminated; the digits of the byte count
  that was in the same buffer before show through.\<close>

lemma Ov_read_no_newline:
  "map_option (map_option ov_lines) (Ov_read (''1'' @ TAB # ''s'' @ TAB # ''f'' @ TAB # ''d'' @ TAB # ''m''
      @ TAB # ''r'' @ TAB # ''123'' @ TAB # ''45'')) = Some (Some 453)"
  by code_simp

end
