(* ===== verification/Content.thy ===== *)
theory Content
  imports Overview
begin

text \<open>
  The overview list of the current group, \<^verbatim>\<open>noffle-1.0.1/src/content.c\<close>: a vector of overviews
  whose positions are the article numbers from \<open>vecFirst\<close> on, with a null pointer for an article
  that does not exist, read from and written to the overview file of the group.

  The static struct \<open>cont\<close> is the record \<open>cont\<close>, passed along; a file is its text, \<open>None\<close> when it
  does not exist, and \<open>Grp_last(name)\<close>, the only other module called, is an argument.  Allocation
  succeeds; a vector index outside the vector is \<open>None\<close> in the operations that index it.
\<close>

record cont =
  vecFirst :: int
  first :: int
  last_nr :: int
  max_elem :: int
  elem :: "Over option list"
  grp_name :: cstr
  grp_file :: cstr

abbreviation size_of :: "cont \<Rightarrow> int" where
  "size_of c \<equiv> int (length (elem c))"

definition cont_init :: cont where
  "cont_init = \<lparr>vecFirst = 1, first = 1, last_nr = 0, max_elem = 0, elem = [], grp_name = [],
     grp_file = []\<rparr>"

definition Cont_app :: "cont \<Rightarrow> Over option \<Rightarrow> cont" where
  "Cont_app c ov =
     (let c1 = (if max_elem c < size_of c + 1 then c\<lparr>max_elem := max_elem c + 500\<rparr> else c);
          ov' = map_option (\<lambda>o1. Ov_setNumb o1 (vecFirst c + size_of c)) ov;
          c2 = c1\<lparr>elem := elem c @ [ov']\<rparr>
      in c2\<lparr>last_nr := vecFirst c + size_of c2 - 1\<rparr>)"

text \<open>\<open>cont.elem[i]\<close>.\<close>

definition elem_at :: "cont \<Rightarrow> int \<Rightarrow> Over option option" where
  "elem_at c i = (if 0 \<le> i \<and> i < size_of c then Some (elem c ! nat i) else None)"

definition Cont_validNumb :: "cont \<Rightarrow> int \<Rightarrow> bool option" where
  "Cont_validNumb c n =
     (if n \<noteq> 0 \<and> n \<ge> first c \<and> n \<le> last_nr c
      then map_option (\<lambda>e. e \<noteq> None) (elem_at c (n - vecFirst c))
      else Some False)"

definition Cont_delete :: "cont \<Rightarrow> int \<Rightarrow> cont option" where
  "Cont_delete c n =
     do { v \<leftarrow> Cont_validNumb c n;
          if v then Some (c\<lparr>elem := (elem c)[nat (n - vecFirst c) := None]\<rparr>) else Some c }"

definition clearCont :: "cont \<Rightarrow> cont" where
  "clearCont c = c\<lparr>elem := []\<rparr>"

definition setupEmpty :: "int \<Rightarrow> cont \<Rightarrow> cont" where
  "setupEmpty grp_last c =
     (let c1 = c\<lparr>last_nr := grp_last\<rparr> in c1\<lparr>first := last_nr c1 + 1, vecFirst := last_nr c1 + 1\<rparr>)"

definition extendCont :: "int \<Rightarrow> cont \<Rightarrow> cont" where
  "extendCont cnt c =
     (if size_of c < cnt then ((\<lambda>c. Cont_app c None) ^^ nat (cnt - size_of c)) c else c)"

text \<open>The loop over the lines of the overview file.\<close>

fun read_loop :: "cstr list \<Rightarrow> cont \<Rightarrow> cont option" where
  "read_loop [] c = Some c"
| "read_loop (line # ls) c =
     (case Ov_read line of
        None \<Rightarrow> None
      | Some None \<Rightarrow> read_loop ls c
      | Some (Some ov) \<Rightarrow>
          let numb = ov_numb ov in
          if numb < first c then read_loop ls c
          else
            let c1 = (if first c = 0 then c\<lparr>first := numb, vecFirst := numb\<rparr> else c);
                c2 = c1\<lparr>last_nr := numb\<rparr>;
                c3 = extendCont (numb - first c2 + 1) c2
            in do { _ \<leftarrow> elem_at c3 (numb - first c3);
                    read_loop ls (c3\<lparr>elem := (elem c3)[nat (numb - first c3) := Some ov]\<rparr>) })"

definition Cont_read :: "cstr \<Rightarrow> cstr \<Rightarrow> cstr option \<Rightarrow> int \<Rightarrow> cont \<Rightarrow> cont option" where
  "Cont_read spool name fl grp_last c =
     do { nm \<leftarrow> Utl_cpyStr name;
          let c1 = clearCont (c\<lparr>vecFirst := 0, first := 0, last_nr := 0, grp_name := nm\<rparr>);
          let c2 = c1\<lparr>grp_file := take (MAXCHAR - 1) (spool @ ''/overview/'' @ name)\<rparr>;
          case fl of
            None \<Rightarrow> Some (setupEmpty grp_last c2)
          | Some f \<Rightarrow>
              do { c3 \<leftarrow> read_loop (fgets_all f) c2;
                   if first c3 = 0 then Some (setupEmpty grp_last c3)
                   else if last_nr c3 < grp_last
                   then Some (extendCont (grp_last - first c3 + 1) c3)
                   else Some c3 } }"

definition Pseudo_isGeneralInfo :: "cstr \<Rightarrow> bool" where
  "Pseudo_isGeneralInfo msgId = (cstrstr msgId ''NOFFLE-GENERAL-INFO'' \<noteq> None)"

definition kept :: "Over \<Rightarrow> Over option \<Rightarrow> bool" where
  "kept ov nxt \<longleftrightarrow> \<not> Pseudo_isGeneralInfo (ov_msgId ov)
     \<or> (case nxt of None \<Rightarrow> False | Some n \<Rightarrow> ov_numb n - ov_numb ov = 1)"

text \<open>\<open>wok\<close> says of each write whether it succeeds; the loop ends at the first failure.  The results
  are the text written, the new \<open>first\<close> and whether anything was written.\<close>

fun write_loop :: "int \<Rightarrow> (Over \<Rightarrow> bool) \<Rightarrow> int \<Rightarrow> Over option list \<Rightarrow> int \<times> bool \<Rightarrow> cstr \<times> int \<times> bool" where
  "write_loop vf wok i [] (fst_nr, written) = ([], fst_nr, written)"
| "write_loop vf wok i (None # es) (fst_nr, written) = write_loop vf wok (i + 1) es (fst_nr, written)"
| "write_loop vf wok i (Some ov # es) (fst_nr, written) =
     (if kept ov (case es of [] \<Rightarrow> None | e # _ \<Rightarrow> e) then
        if \<not> wok ov then ([], fst_nr, written)
        else let (t, r) = write_loop vf wok (i + 1) es ((if fst_nr < 0 then vf + i else fst_nr), True)
             in (Ov_write ov @ t, r)
      else write_loop vf wok (i + 1) es (fst_nr, written))"

text \<open>The new state, and the file afterwards.\<close>

definition Cont_write :: "bool \<Rightarrow> (Over \<Rightarrow> bool) \<Rightarrow> cont \<Rightarrow> cstr option \<Rightarrow> cont \<times> cstr option" where
  "Cont_write opened wok c fl =
     (if \<not> opened then (c, fl)
      else
        let (t, fst_nr, written) = write_loop (vecFirst c) wok 0 (elem c) (-1, False) in
        if \<not> written then (c\<lparr>first := last_nr c + 1\<rparr>, None)
        else (c\<lparr>first := fst_nr\<rparr>, Some t))"

definition Cont_get :: "cont \<Rightarrow> int \<Rightarrow> Over option option" where
  "Cont_get c numb =
     do { v \<leftarrow> Cont_validNumb c numb; if v then elem_at c (numb - vecFirst c) else Some None }"

fun find_loop :: "cstr \<Rightarrow> int \<Rightarrow> Over option list \<Rightarrow> int" where
  "find_loop msgId nr [] = -1"
| "find_loop msgId nr (e # es) =
     (case e of
        None \<Rightarrow> find_loop msgId (nr + 1) es
      | Some ov \<Rightarrow> if ov_msgId ov = msgId then nr else find_loop msgId (nr + 1) es)"

definition Cont_find :: "cont \<Rightarrow> cstr \<Rightarrow> int" where
  "Cont_find c msgId = find_loop msgId (vecFirst c) (elem c)"

text \<open>The directory of overview files as the names \<open>readdir\<close> delivers; \<open>Cont_firstGrp\<close> skips two.\<close>

definition Cont_nextGrp :: "cstr list \<Rightarrow> (cstr option \<times> cstr list) option" where
  "Cont_nextGrp dir =
     (case dir of
        [] \<Rightarrow> Some (None, [])
      | d # ds \<Rightarrow> map_option (\<lambda>r. (Some r, ds)) (Utl_cpyStr d))"

definition Cont_firstGrp :: "cstr list option \<Rightarrow> (cstr option \<times> cstr list) option" where
  "Cont_firstGrp opened =
     (case opened of
        None \<Rightarrow> Some (None, [])
      | Some dir \<Rightarrow>
          do { (_, d1) \<leftarrow> Cont_nextGrp dir; (_, d2) \<leftarrow> Cont_nextGrp d1; Cont_nextGrp d2 })"

subsection \<open>The invariant\<close>

text \<open>The vector ends at \<open>last\<close>, starts at or before \<open>first\<close>, and every overview carries the number
  of its position.\<close>

definition cont_inv :: "cont \<Rightarrow> bool" where
  "cont_inv c \<longleftrightarrow> vecFirst c > 0 \<and> first c \<ge> vecFirst c \<and> last_nr c = vecFirst c + size_of c - 1
     \<and> (\<forall>i < length (elem c). \<forall>ov. elem c ! i = Some ov \<longrightarrow> ov_numb ov = vecFirst c + int i)"

text \<open>What any state satisfies in which the operations index the vector within its bounds.\<close>

definition cont_safe :: "cont \<Rightarrow> bool" where
  "cont_safe c \<longleftrightarrow> first c \<ge> vecFirst c \<and> last_nr c < vecFirst c + size_of c"

lemma cont_inv_safe: "cont_inv c \<Longrightarrow> cont_safe c"
  by (simp add: cont_inv_def cont_safe_def)

lemma elem_at_safe: "cont_safe c \<Longrightarrow> n \<ge> first c \<Longrightarrow> n \<le> last_nr c \<Longrightarrow>
    elem_at c (n - vecFirst c) = Some (elem c ! nat (n - vecFirst c))"
  by (simp add: cont_safe_def elem_at_def)

lemma Cont_validNumb_safe: "cont_safe c \<Longrightarrow> \<exists>b. Cont_validNumb c n = Some b"
  by (auto simp: Cont_validNumb_def elem_at_safe)

lemma Cont_get_safe: "cont_safe c \<Longrightarrow> \<exists>r. Cont_get c n = Some r"
  using Cont_validNumb_safe [of c n]
  by (auto simp: Cont_get_def Cont_validNumb_def elem_at_safe split: if_splits)

lemma Cont_delete_safe: "cont_safe c \<Longrightarrow> \<exists>c'. Cont_delete c n = Some c' \<and> cont_safe c'"
  using Cont_validNumb_safe [of c n] by (auto simp: Cont_delete_def cont_safe_def)

lemma Cont_app_simps [simp]:
  "vecFirst (Cont_app c ov) = vecFirst c" "first (Cont_app c ov) = first c"
  "elem (Cont_app c ov) = elem c @ [map_option (\<lambda>o1. Ov_setNumb o1 (vecFirst c + size_of c)) ov]"
  "last_nr (Cont_app c ov) = vecFirst c + size_of c"
  "grp_name (Cont_app c ov) = grp_name c" "grp_file (Cont_app c ov) = grp_file c"
  by (simp_all add: Cont_app_def Let_def)

lemma Cont_app_inv: "cont_inv c \<Longrightarrow> cont_inv (Cont_app c ov)"
  by (auto simp: cont_inv_def nth_append Ov_setNumb_def)

lemma update_None_nth: "xs[k := None] ! i = Some v \<Longrightarrow> i < length xs \<Longrightarrow> xs ! i = Some v"
  by (cases "k = i") auto

lemma Cont_delete_inv:
  assumes c: "cont_inv c" and d: "Cont_delete c n = Some c'"
  shows "cont_inv c'"
proof -
  from d consider "c' = c" | (upd) k where "c' = c\<lparr>elem := (elem c)[k := None]\<rparr>"
    by (cases "Cont_validNumb c n") (auto simp: Cont_delete_def split: if_splits)
  then show ?thesis
  proof cases
    case upd
    have "ov_numb ov = vecFirst c + int i"
      if "i < length (elem c)" "(elem c)[k := None] ! i = Some ov" for i ov
      using c update_None_nth [OF that(2,1)] that(1) by (simp add: cont_inv_def)
    with c upd show ?thesis by (simp add: cont_inv_def)
  qed (use c in simp)
qed

lemma setupEmpty_inv: "0 \<le> g \<Longrightarrow> elem c = [] \<Longrightarrow> cont_inv (setupEmpty g c)"
  by (simp add: setupEmpty_def cont_inv_def Let_def)

lemma app_None_pow:
  "elem (((\<lambda>c. Cont_app c None) ^^ n) c) = elem c @ replicate n None
   \<and> vecFirst (((\<lambda>c. Cont_app c None) ^^ n) c) = vecFirst c
   \<and> first (((\<lambda>c. Cont_app c None) ^^ n) c) = first c
   \<and> last_nr (((\<lambda>c. Cont_app c None) ^^ n) c)
       = (if n = 0 then last_nr c else vecFirst c + size_of c + int n - 1)"
  by (induction n) (auto simp: replicate_append_same)

lemma extendCont_simps [simp]:
  "elem (extendCont k c) = elem c @ replicate (nat (k - size_of c)) None"
  "vecFirst (extendCont k c) = vecFirst c" "first (extendCont k c) = first c"
  "last_nr (extendCont k c) = (if size_of c < k then vecFirst c + k - 1 else last_nr c)"
  using app_None_pow [of "nat (k - size_of c)" c] by (auto simp: extendCont_def)

lemma cont_init_inv: "cont_inv cont_init"
  by (simp add: cont_init_def cont_inv_def)

subsection \<open>Reading any file\<close>

text \<open>Between two lines: nothing read yet, or a vector that starts at \<open>first\<close>.\<close>

definition reading :: "cont \<Rightarrow> bool" where
  "reading c \<longleftrightarrow> first c \<ge> 0 \<and> vecFirst c = first c \<and> last_nr c \<ge> first c - 1
     \<and> (first c = 0 \<or> last_nr c < vecFirst c + size_of c) \<and> (first c = 0 \<longrightarrow> size_of c \<le> 1 \<and> last_nr c = 0)"

lemma read_loop_reading:
  "reading c \<Longrightarrow> (\<And>l. l \<in> set ls \<Longrightarrow> Ov_read l \<noteq> None) \<Longrightarrow>
     \<exists>c'. read_loop ls c = Some c' \<and> reading c'"
proof (induction ls arbitrary: c)
  case (Cons line ls)
  from Cons.prems(2) [of line] obtain r where r: "Ov_read line = Some r" by auto
  show ?case
  proof (cases r)
    case None
    with r Cons show ?thesis by simp
  next
    case (Some ov)
    show ?thesis
    proof (cases "ov_numb ov < first c")
      case True
      with r Some Cons show ?thesis by (simp add: Let_def)
    next
      case False
      define c1 where "c1 = (if first c = 0 then c\<lparr>first := ov_numb ov, vecFirst := ov_numb ov\<rparr> else c)"
      define c2 where "c2 = c1\<lparr>last_nr := ov_numb ov\<rparr>"
      define c3 where "c3 = extendCont (ov_numb ov - first c2 + 1) c2"
      define c4 where "c4 = c3\<lparr>elem := (elem c3)[nat (ov_numb ov - first c3) := Some ov]\<rparr>"
      have f: "first c1 \<le> ov_numb ov" "0 \<le> first c1" "vecFirst c1 = first c1" "elem c1 = elem c"
        using False Cons.prems(1) by (auto simp: c1_def reading_def)
      have z: "first c1 = 0 \<Longrightarrow> size_of c \<le> 1 \<and> ov_numb ov = 0"
        using Cons.prems(1) by (auto simp: c1_def reading_def split: if_splits)
      have ix: "elem_at c3 (ov_numb ov - first c3) \<noteq> None"
        using f by (auto simp: c3_def c2_def elem_at_def)
      have "reading c4"
        using f z by (auto simp: reading_def c4_def c3_def c2_def)
      from Cons.IH [OF this] Cons.prems(2) obtain c' where "read_loop ls c4 = Some c'" "reading c'"
        by auto
      moreover have "read_loop (line # ls) c = read_loop ls c4"
        using r Some False ix unfolding c4_def c3_def c2_def c1_def
        by (auto simp: Let_def)
      ultimately show ?thesis by simp
    qed
  qed
qed simp

text \<open>The last part of \<open>Cont_read\<close> leaves a state in which no operation indexes outside the vector.\<close>

lemma Cont_read_safe:
  assumes "length name < MAXCHAR" "0 \<le> g"
    "\<And>f l. fl = Some f \<Longrightarrow> l \<in> set (fgets_all f) \<Longrightarrow> Ov_read l \<noteq> None"
  shows "\<exists>c'. Cont_read spool name fl g c = Some c' \<and> cont_safe c'"
proof -
  define c2 where "c2 = (clearCont (c\<lparr>vecFirst := 0, first := 0, last_nr := 0, grp_name := name\<rparr>))
      \<lparr>grp_file := take (MAXCHAR - 1) (spool @ ''/overview/'' @ name)\<rparr>"
  have c2: "reading c2" "elem c2 = []" by (simp_all add: c2_def clearCont_def reading_def)
  have rd: "Cont_read spool name fl g c =
      (case fl of None \<Rightarrow> Some (setupEmpty g c2)
       | Some f \<Rightarrow> read_loop (fgets_all f) c2 \<bind> (\<lambda>c3.
           if first c3 = 0 then Some (setupEmpty g c3)
           else if last_nr c3 < g then Some (extendCont (g - first c3 + 1) c3) else Some c3))"
    using assms(1) by (simp add: Cont_read_def Utl_cpyStr_eq c2_def Let_def cong: option.case_cong)
  have empty: "cont_safe (setupEmpty g c3)" for c3
    by (simp add: setupEmpty_def cont_safe_def Let_def)
  show ?thesis
  proof (cases fl)
    case None
    with rd empty show ?thesis by simp
  next
    case (Some f)
    from read_loop_reading [OF c2(1), of "fgets_all f"] assms(3) [OF Some] obtain c3 where
      c3: "read_loop (fgets_all f) c2 = Some c3" "reading c3" by blast
    have "Cont_read spool name fl g c =
        (if first c3 = 0 then Some (setupEmpty g c3)
         else if last_nr c3 < g then Some (extendCont (g - first c3 + 1) c3) else Some c3)"
      unfolding rd by (simp add: Some c3(1))
    moreover have "first c3 \<noteq> 0 \<Longrightarrow> cont_safe c3 \<and> cont_safe (extendCont (g - first c3 + 1) c3)"
      using c3(2) by (auto simp: reading_def cont_safe_def)
    ultimately show ?thesis using empty by auto
  qed
qed

subsection \<open>Written and read back\<close>

definition ov_line :: "Over \<Rightarrow> cstr" where
  "ov_line ov = butlast (Ov_write ov)"

definition ov_fits :: "Over \<Rightarrow> bool" where
  "ov_fits ov \<longleftrightarrow> ov_ok ov \<and> length (Ov_write ov) < MAXCHAR"

lemma Ov_write_line: "Ov_write ov = ov_line ov @ [LF]"
  by (simp add: ov_line_def Ov_write_def butlast_append)

lemma ov_line_file_line: "ov_fits ov \<Longrightarrow> file_line (ov_line ov)"
proof -
  assume a: "ov_fits ov"
  have d: "LF \<notin> set (dec_int i)" for i
    using cisdigit_dec_nat cisdigit_not by (auto simp: dec_int_def)
  have "ov_line ov = dec_int (ov_numb ov) @ TAB # ov_subj ov @ TAB # ov_from ov @ TAB # ov_date ov
     @ TAB # ov_msgId ov @ TAB # ov_ref ov @ TAB # dec_int (sint (ov_bytes ov))
     @ TAB # dec_int (sint (ov_lines ov))"
    by (simp add: ov_line_def Ov_write_def butlast_append)
  then have "LF \<notin> set (ov_line ov)" "proper (ov_line ov)"
    using a d by (auto simp: ov_fits_def ov_ok_def field_ok_def)
  moreover have "Suc (length (ov_line ov)) < MAXCHAR"
    using a by (simp add: ov_fits_def Ov_write_line)
  ultimately show ?thesis by (simp add: file_line_def)
qed

lemma fgets_all_overviews:
  "list_all ov_fits ovs \<Longrightarrow> fgets_all (concat (map Ov_write ovs)) = map Ov_write ovs"
proof -
  assume a: "list_all ov_fits ovs"
  have "concat (map Ov_write ovs) = text_of (map ov_line ovs)"
    by (simp add: text_of_def comp_def flip: Ov_write_line)
  moreover have "list_all file_line (map ov_line ovs)"
    using a ov_line_file_line by (auto simp: list_all_iff)
  ultimately show ?thesis using fgets_all_text_of [of "map ov_line ovs"]
    by (simp add: comp_def flip: Ov_write_line)
qed

text \<open>The overview with a number.\<close>

definition look :: "cont \<Rightarrow> int \<Rightarrow> Over option" where
  "look c n = (case elem_at c (n - vecFirst c) of None \<Rightarrow> None | Some e \<Rightarrow> e)"

lemma Cont_get_look: "cont_inv c \<Longrightarrow> Cont_get c n = Some (if first c \<le> n \<and> n \<le> last_nr c then look c n else None)"
  by (auto simp: Cont_get_def Cont_validNumb_def look_def elem_at_def cont_inv_def split: option.splits)

lemma look_numb: "cont_inv c \<Longrightarrow> look c n = Some ov \<Longrightarrow> ov_numb ov = n \<and> vecFirst c \<le> n \<and> n \<le> last_nr c"
proof -
  assume c: "cont_inv c" and l: "look c n = Some ov"
  from l have n: "vecFirst c \<le> n" "n - vecFirst c < size_of c" "elem c ! nat (n - vecFirst c) = Some ov"
    by (auto simp: look_def elem_at_def split: if_splits)
  have "\<And>i ov. i < length (elem c) \<Longrightarrow> elem c ! i = Some ov \<Longrightarrow> ov_numb ov = vecFirst c + int i"
    using c by (simp add: cont_inv_def)
  from this [OF _ n(3)] n(1,2) have "ov_numb ov = vecFirst c + int (nat (n - vecFirst c))" by simp
  with n c show ?thesis by (simp add: cont_inv_def)
qed

text \<open>One more overview with a higher number.\<close>

lemma read_loop_next:
  assumes "cont_inv c" "first c = vecFirst c" "last_nr c < ov_numb ov" "ov_ok ov"
  shows "\<exists>c'. read_loop (Ov_write ov # ls) c = read_loop ls c' \<and> cont_inv c' \<and> first c' = first c
    \<and> vecFirst c' = vecFirst c \<and> last_nr c' = ov_numb ov \<and> look c' = (look c)(ov_numb ov := Some ov)"
proof -
  let ?n = "ov_numb ov"
  define c2 where "c2 = c\<lparr>last_nr := ?n\<rparr>"
  define c3 where "c3 = extendCont (?n - first c2 + 1) c2"
  define c4 where "c4 = c3\<lparr>elem := (elem c3)[nat (?n - first c3) := Some ov]\<rparr>"
  have v: "vecFirst c > 0" "last_nr c = vecFirst c + size_of c - 1"
    using assms(1) by (simp_all add: cont_inv_def)
  have len: "size_of c3 = ?n - vecFirst c + 1" "size_of c4 = ?n - vecFirst c + 1"
    using assms v by (simp_all add: c4_def c3_def c2_def)
  have e3: "elem c3 = elem c @ replicate (nat (?n - vecFirst c + 1 - size_of c)) None"
    by (simp add: c3_def c2_def assms(2))
  have s: "first c4 = first c" "vecFirst c4 = vecFirst c" "last_nr c4 = ?n"
    "first c3 = vecFirst c" "elem c4 = (elem c3)[nat (?n - vecFirst c) := Some ov]"
    using assms v by (simp_all add: c4_def c3_def c2_def)
  have "read_loop (Ov_write ov # ls) c = read_loop ls c4"
    using assms v Ov_read_write [OF assms(4)] len(1) unfolding c4_def c3_def c2_def
    by (auto simp: Let_def elem_at_def)
  moreover have "cont_inv c4"
    unfolding cont_inv_def s using assms v len e3
    by (auto simp: nth_list_update nth_append cont_inv_def split: if_splits)
  moreover have "look c4 n = ((look c)(?n := Some ov)) n" for n
    using assms(3) v len e3
    by (auto simp: look_def elem_at_def s nth_list_update nth_append split: if_splits)
  ultimately show ?thesis using s by (intro exI [of _ c4]) auto
qed

lemma read_loop_sorted:
  "cont_inv c \<Longrightarrow> first c = vecFirst c \<Longrightarrow> list_all ov_ok ovs \<Longrightarrow>
     sorted_wrt (<) (last_nr c # map ov_numb ovs) \<Longrightarrow>
     \<exists>c'. read_loop (map Ov_write ovs) c = Some c' \<and> cont_inv c' \<and> first c' = first c
       \<and> vecFirst c' = vecFirst c \<and> last_nr c' = last (last_nr c # map ov_numb ovs)
       \<and> look c' = look c ++ map_of (map (\<lambda>ov. (ov_numb ov, ov)) ovs)"
proof (induction ovs arbitrary: c)
  case (Cons ov ovs)
  then have "last_nr c < ov_numb ov" "ov_ok ov" by simp_all
  from read_loop_next [OF Cons.prems(1,2) this] obtain c1 where
    c1: "read_loop (map Ov_write (ov # ovs)) c = read_loop (map Ov_write ovs) c1" "cont_inv c1"
      "first c1 = first c" "vecFirst c1 = vecFirst c" "last_nr c1 = ov_numb ov"
      "look c1 = (look c)(ov_numb ov := Some ov)" by (metis list.simps(9))
  have "first c1 = vecFirst c1" "list_all ov_ok ovs"
    "sorted_wrt (<) (last_nr c1 # map ov_numb ovs)"
    using c1 Cons.prems by auto
  from Cons.IH [OF c1(2) this] c1(3-5) obtain c' where
    c': "read_loop (map Ov_write ovs) c1 = Some c'" "cont_inv c'" "first c' = first c"
      "vecFirst c' = vecFirst c" "last_nr c' = last (ov_numb ov # map ov_numb ovs)"
      "look c' = look c1 ++ map_of (map (\<lambda>ov. (ov_numb ov, ov)) ovs)" by metis
  have "map_of (map (\<lambda>ov. (ov_numb ov, ov)) ovs) (ov_numb ov) = None"
    using Cons.prems(4) by (auto simp: map_of_eq_None_iff)
  then have lk: "look c' = look c ++ map_of (map (\<lambda>ov. (ov_numb ov, ov)) (ov # ovs))"
    unfolding c'(6) c1(6) by (auto simp: map_add_def fun_eq_iff split: option.splits)
  have rl: "read_loop (map Ov_write (ov # ovs)) c = Some c'" using c1(1) c'(1) by argo
  have "last_nr c' = last (last_nr c # map ov_numb (ov # ovs))" using c'(5) by simp
  with rl lk c'(2,3,4) c1(3,4) show ?case by metis
qed simp

text \<open>What \<open>Cont_write\<close> keeps: every overview when there is no general information among them.\<close>

fun somes :: "Over option list \<Rightarrow> Over list" where
  "somes [] = []"
| "somes (None # es) = somes es"
| "somes (Some ov # es) = ov # somes es"

fun first_some :: "int \<Rightarrow> Over option list \<Rightarrow> int option" where
  "first_some i [] = None"
| "first_some i (None # es) = first_some (i + 1) es"
| "first_some i (Some ov # es) = Some i"

lemma somes_Nil: "somes es = [] \<longleftrightarrow> first_some i es = None"
  by (induction i es rule: first_some.induct) auto

lemma first_some_ge: "first_some i es = Some j \<Longrightarrow> i \<le> j"
  by (induction i es rule: first_some.induct) auto

lemma write_loop_all:
  "\<forall>ov \<in> set (somes es). \<not> Pseudo_isGeneralInfo (ov_msgId ov) \<Longrightarrow> 0 < vf \<Longrightarrow> 0 \<le> i \<Longrightarrow>
     write_loop vf (\<lambda>_. True) i es (f, w) =
       (concat (map Ov_write (somes es)),
        (if f < 0 then case first_some i es of None \<Rightarrow> f | Some j \<Rightarrow> vf + j else f),
        w \<or> somes es \<noteq> [])"
proof (induction es arbitrary: i f w)
  case (Cons e es)
  then show ?case by (cases e) (auto simp: kept_def)
qed simp

lemma somes_numbers:
  "\<forall>k < length es. \<forall>ov. es ! k = Some ov \<longrightarrow> ov_numb ov = a + int k \<Longrightarrow>
     sorted_wrt (<) (map ov_numb (somes es)) \<and> (\<forall>ov \<in> set (somes es). a \<le> ov_numb ov \<and> ov_numb ov < a + int (length es))
     \<and> (\<forall>j. first_some i es = Some j \<longrightarrow> ov_numb (hd (somes es)) = a + j - i)
     \<and> (\<forall>n. map_of (map (\<lambda>ov. (ov_numb ov, ov)) (somes es)) n =
          (if a \<le> n \<and> n < a + int (length es) then es ! nat (n - a) else None))"
proof (induction es arbitrary: a i)
  case (Cons e es)
  from Cons.prems have p: "\<forall>k < length es. \<forall>ov. es ! k = Some ov \<longrightarrow> ov_numb ov = (a + 1) + int k"
    by fastforce
  have e: "e = Some ov \<Longrightarrow> ov_numb ov = a" for ov using Cons.prems by (auto dest: spec [of _ 0])
  note IH = Cons.IH [OF p, of "i + 1"]
  have nt: "(e # es) ! nat (n - a) = (if n = a then e else es ! nat (n - (a + 1)))" if "a \<le> n" for n
  proof (cases "n = a")
    case False
    with that have "nat (n - a) = Suc (nat (n - (a + 1)))" by simp
    with False show ?thesis by simp
  qed simp
  show ?case
  proof (cases e)
    case None
    with IH nt show ?thesis by force
  next
    case (Some ov)
    with IH nt e show ?thesis by fastforce
  qed
qed auto

lemma look_map_of:
  assumes "cont_inv c"
  shows "look c = map_of (map (\<lambda>ov. (ov_numb ov, ov)) (somes (elem c)))"
proof
  fix n
  have "\<forall>k < length (elem c). \<forall>ov. elem c ! k = Some ov \<longrightarrow> ov_numb ov = vecFirst c + int k"
    using assms by (simp add: cont_inv_def)
  from somes_numbers [OF this, of 0] show "look c n = map_of (map (\<lambda>ov. (ov_numb ov, ov)) (somes (elem c))) n"
    by (auto simp: look_def elem_at_def)
qed

lemma extendCont_inv: "cont_inv c \<Longrightarrow> cont_inv (extendCont k c) \<and> look (extendCont k c) = look c"
  by (auto simp: cont_inv_def look_def elem_at_def nth_append fun_eq_iff split: if_splits)

lemma read_loop_first:
  assumes "first c = 0" "elem c = []" "0 < ov_numb ov" "ov_ok ov"
  shows "\<exists>c'. read_loop (Ov_write ov # ls) c = read_loop ls c' \<and> cont_inv c' \<and> first c' = ov_numb ov
    \<and> vecFirst c' = ov_numb ov \<and> last_nr c' = ov_numb ov \<and> look c' = [ov_numb ov \<mapsto> ov]"
proof -
  let ?n = "ov_numb ov"
  define c2 where "c2 = c\<lparr>first := ?n, vecFirst := ?n, last_nr := ?n\<rparr>"
  define c3 where "c3 = extendCont (?n - first c2 + 1) c2"
  define c4 where "c4 = c3\<lparr>elem := (elem c3)[nat (?n - first c3) := Some ov]\<rparr>"
  have e: "elem c3 = [None]" by (simp add: c3_def c2_def assms)
  have s: "first c4 = ?n" "vecFirst c4 = ?n" "last_nr c4 = ?n" "first c3 = ?n" "elem c4 = [Some ov]"
    using e by (simp_all add: c4_def) (simp_all add: c3_def c2_def assms)
  have "read_loop (Ov_write ov # ls) c = read_loop ls c4"
    using assms Ov_read_write [OF assms(4)] e s(4) unfolding c4_def c3_def c2_def
    by (auto simp: Let_def elem_at_def)
  moreover have "cont_inv c4" by (simp add: cont_inv_def s assms(3))
  moreover have "look c4 = [?n \<mapsto> ov]" by (auto simp: look_def elem_at_def s fun_eq_iff)
  ultimately show ?thesis using s by blast
qed

text \<open>Reading the lines of overviews with increasing positive numbers.\<close>

lemma Cont_read_sorted:
  assumes "length name < MAXCHAR" "ovs \<noteq> []" "list_all ov_fits ovs" "0 < ov_numb (hd ovs)"
    "sorted_wrt (<) (map ov_numb ovs)" "ov_numb (last ovs) \<le> g"
  shows "\<exists>c'. Cont_read spool name (Some (concat (map Ov_write ovs))) g c = Some c' \<and> cont_inv c'
    \<and> first c' = ov_numb (hd ovs) \<and> last_nr c' = g
    \<and> look c' = map_of (map (\<lambda>ov. (ov_numb ov, ov)) ovs)"
proof -
  define c2 where "c2 = (clearCont (c\<lparr>vecFirst := 0, first := 0, last_nr := 0, grp_name := name\<rparr>))
      \<lparr>grp_file := take (MAXCHAR - 1) (spool @ ''/overview/'' @ name)\<rparr>"
  have c2: "first c2 = 0" "elem c2 = []" by (simp_all add: c2_def clearCont_def)
  obtain ov os where ovs: "ovs = ov # os" using assms(2) by (cases ovs) auto
  have ok: "ov_ok ov" "list_all ov_ok os"
    using assms(3) by (auto simp: ovs ov_fits_def list_all_iff)
  from read_loop_first [OF c2, of ov "map Ov_write os"] assms(4) ok obtain d where
    d: "read_loop (map Ov_write ovs) c2 = read_loop (map Ov_write os) d" "cont_inv d"
      "first d = ov_numb ov" "vecFirst d = ov_numb ov" "last_nr d = ov_numb ov" "look d = [ov_numb ov \<mapsto> ov]"
    by (auto simp: ovs)
  have "first d = vecFirst d" "sorted_wrt (<) (last_nr d # map ov_numb os)"
    using d assms(5) by (simp_all add: ovs)
  from read_loop_sorted [OF d(2) this(1) ok(2) this(2)] obtain e where
    e: "read_loop (map Ov_write os) d = Some e" "cont_inv e" "first e = first d"
      "vecFirst e = vecFirst d" "last_nr e = last (last_nr d # map ov_numb os)"
      "look e = look d ++ map_of (map (\<lambda>ov. (ov_numb ov, ov)) os)" by blast
  have last: "last_nr e = ov_numb (last ovs)" by (simp add: e(5) d(5) ovs last_map)
  have "map_of (map (\<lambda>ov. (ov_numb ov, ov)) os) (ov_numb ov) = None"
    using assms(5) by (auto simp: ovs map_of_eq_None_iff)
  then have look: "look e = map_of (map (\<lambda>ov. (ov_numb ov, ov)) ovs)"
    unfolding e(6) d(6) by (auto simp: ovs map_add_def fun_eq_iff split: option.splits)
  have sz: "size_of e = last_nr e - first e + 1" "first e \<noteq> 0"
    using e(2-4) d(3,4) assms(4) by (auto simp: cont_inv_def ovs)
  let ?c' = "if last_nr e < g then extendCont (g - first e + 1) e else e"
  have rd: "Cont_read spool name (Some (concat (map Ov_write ovs))) g c = Some ?c'"
    unfolding Cont_read_def Let_def Utl_cpyStr_eq [OF assms(1)] bind.bind_lunit option.case
      c2_def [symmetric] fgets_all_overviews [OF assms(3)] d(1) e(1)
    using sz(2) by simp
  have "last_nr ?c' = g" using sz last assms(6) e(3,4) d(3,4) by auto
  moreover have "cont_inv ?c'" "look ?c' = map_of (map (\<lambda>ov. (ov_numb ov, ov)) ovs)"
    using extendCont_inv [OF e(2)] e(2) look by auto
  moreover have "first ?c' = ov_numb (hd ovs)" using e(3) d(3) by (simp add: ovs)
  ultimately show ?thesis using rd by blast
qed



subsection \<open>The invariant of the operations\<close>

lemma write_loop_first:
  "write_loop vf wok i es (f, w) = (t, f', w') \<Longrightarrow> 0 < vf \<Longrightarrow> 0 \<le> i \<Longrightarrow> (w \<longrightarrow> vf \<le> f) \<Longrightarrow>
     (\<not> w \<longrightarrow> f = -1) \<Longrightarrow> w' \<longrightarrow> vf \<le> f'"
proof (induction es arbitrary: i f w t)
  case (Cons e es)
  show ?case
  proof (cases e)
    case None
    with Cons.prems Cons.IH [of "i + 1" f w t] show ?thesis by simp
  next
    case (Some ov)
    with Cons.prems Cons.IH [of "i + 1" f w t]
      Cons.IH [of "i + 1" "if f < 0 then vf + i else f" True] show ?thesis
      by (auto split: if_splits prod.splits)
  qed
qed simp

lemma Cont_write_inv: "cont_inv c \<Longrightarrow> cont_inv (fst (Cont_write opened wok c fl))"
  using write_loop_first [of "vecFirst c" wok 0 "elem c" "-1" False]
  by (auto simp: Cont_write_def cont_inv_def Let_def split: prod.splits)

lemma find_loop_found:
  "0 \<le> nr \<Longrightarrow> find_loop m nr es \<noteq> -1 \<Longrightarrow>
     \<exists>i < length es. find_loop m nr es = nr + int i \<and> (\<exists>ov. es ! i = Some ov \<and> ov_msgId ov = m)"
proof (induction es arbitrary: nr)
  case (Cons e es)
  show ?case
  proof (cases "\<exists>ov. e = Some ov \<and> ov_msgId ov = m")
    case True
    then show ?thesis by (intro exI [of _ 0]) auto
  next
    case False
    then have "find_loop m nr (e # es) = find_loop m (nr + 1) es" by (auto split: option.splits)
    with Cons.IH [of "nr + 1"] Cons.prems obtain i where "i < length es"
      "find_loop m nr (e # es) = nr + 1 + int i" "\<exists>ov. es ! i = Some ov \<and> ov_msgId ov = m" by auto
    then show ?thesis by (intro exI [of _ "Suc i"]) auto
  qed
qed simp

lemma find_loop_none: "0 \<le> nr \<Longrightarrow> find_loop m nr es = -1 \<Longrightarrow> \<forall>ov \<in> set (somes es). ov_msgId ov \<noteq> m"
proof (induction es arbitrary: nr)
  case (Cons e es)
  from Cons.IH [of "nr + 1"] Cons.prems show ?case by (cases e) (auto split: if_splits)
qed simp



text \<open>A file whose numbers are not sorted lowers the last number again: the overview with the
  higher number is in the vector, but no longer valid, and its number is given away a second time.\<close>

definition over_nr :: "int \<Rightarrow> Over" where
  "over_nr n = Ov_setNumb (new_Over ''s'' ''f'' ''d'' ''m'' ''r'' 1 1) n"

lemma over_nr_ok: "0 < n \<Longrightarrow> n < 100 \<Longrightarrow> ov_ok (over_nr n)"
  by (simp add: over_nr_def ov_ok_def field_ok_def Ov_setNumb_def new_Over_def int_ok_def INT_MAX_def
      MAXCHAR_def)

lemma Cont_read_unsorted:
  "\<exists>c. read_loop (map Ov_write [over_nr 1, over_nr 3, over_nr 2])
        (cont_init\<lparr>first := 0, vecFirst := 0\<rparr>) = Some c
     \<and> last_nr c = 2 \<and> length (elem c) = 3 \<and> elem c ! 2 = Some (over_nr 3)"
proof -
  have n: "ov_numb (over_nr k) = k" for k by (simp add: over_nr_def Ov_setNumb_def)
  show ?thesis
    using Ov_read_write [OF over_nr_ok [of 1]] Ov_read_write [OF over_nr_ok [of 2]]
      Ov_read_write [OF over_nr_ok [of 3]]
    by (auto simp: n Let_def elem_at_def cont_init_def numeral_eq_Suc)
qed

end
