(* ===== verification/Gdbm.thy ===== *)
theory Gdbm
  imports Util
begin

text \<open>
  The library gdbm, which the sources only call, as a parameter of the models of group.c and
  database.c: a record of its operations on a state of any type.  What the code relies on is the
  predicate \<open>gdbm_laws\<close>, the documented behaviour of fetch, store, exists and delete.  Keys and
  values of the two data bases are C strings with their NUL.
\<close>

record 'db gdbm =
  g_fetch :: "'db \<Rightarrow> cstr \<Rightarrow> byte list option"
  g_store :: "'db \<Rightarrow> cstr \<Rightarrow> byte list \<Rightarrow> 'db \<times> bool"
  g_exists :: "'db \<Rightarrow> cstr \<Rightarrow> bool"
  g_delete :: "'db \<Rightarrow> cstr \<Rightarrow> 'db"
  g_firstkey :: "'db \<Rightarrow> cstr option"
  g_nextkey :: "'db \<Rightarrow> cstr \<Rightarrow> cstr option"

definition gdbm_laws :: "'db gdbm \<Rightarrow> bool" where
  "gdbm_laws lib \<longleftrightarrow>
     (\<forall>d k v d'. g_store lib d k v = (d', True) \<longrightarrow> g_fetch lib d' = (g_fetch lib d)(k := Some v))
     \<and> (\<forall>d k. g_exists lib d k \<longleftrightarrow> g_fetch lib d k \<noteq> None)
     \<and> (\<forall>d k. g_fetch lib (g_delete lib d k) = (g_fetch lib d)(k := None))"

definition key_of :: "cstr \<Rightarrow> cstr" where
  "key_of name = name @ [NUL]"

text \<open>A C string at the start of some bytes and the bytes behind its NUL.\<close>

definition bytes_of :: "cstr \<Rightarrow> byte list" where
  "bytes_of s = map byte_of s"

definition take_str :: "byte list \<Rightarrow> (cstr \<times> byte list) option" where
  "take_str b =
     (case dropWhile (\<lambda>x. x \<noteq> 0) b of
        [] \<Rightarrow> None
      | _ # r \<Rightarrow> Some (map char_of_byte (takeWhile (\<lambda>x. x \<noteq> 0) b), r))"

subsection \<open>Facts about keys and values\<close>

definition stores_succeed :: "'db gdbm \<Rightarrow> bool" where
  "stores_succeed lib \<longleftrightarrow> (\<forall>d k v. snd (g_store lib d k v))"

lemma g_store_succeeds:
  assumes "gdbm_laws lib" "stores_succeed lib"
  obtains d' where "g_store lib d k v = (d', True)" "g_fetch lib d' = (g_fetch lib d)(k \<mapsto> v)"
proof -
  from assms(2) have "g_store lib d k v = (fst (g_store lib d k v), True)"
    by (simp add: stores_succeed_def prod_eq_iff)
  with assms(1) that show ?thesis unfolding gdbm_laws_def by blast
qed

lemma key_of_inject [simp]: "key_of n = key_of m \<longleftrightarrow> n = m"
  by (simp add: key_of_def)

lemma Utl_cpyStr_Some: "Utl_cpyStr s = Some t \<Longrightarrow> t = s \<and> length s < MAXCHAR"
  by (auto simp: Utl_cpyStr_def strncat_def Let_def split: if_splits)

lemma byte_of_NUL [simp]: "byte_of c = 0 \<longleftrightarrow> c = NUL"
proof -
  have "byte_of NUL = 0" by (simp add: byte_of_def)
  then show ?thesis by (metis byte_of_inject)
qed

lemma take_str_bytes:
  assumes "proper s"
  shows "take_str (bytes_of s @ 0 # r) = Some (s, r)"
proof -
  have n: "\<forall>x \<in> set (bytes_of s). x \<noteq> 0" using assms by (auto simp: bytes_of_def proper_def)
  have "takeWhile (\<lambda>x. x \<noteq> 0) (bytes_of s @ 0 # r) = bytes_of s" by (rule takeWhile_run [OF n]) simp
  moreover have "dropWhile (\<lambda>x. x \<noteq> 0) (bytes_of s @ 0 # r) = 0 # r" by (rule dropWhile_run [OF n]) simp
  ultimately show ?thesis by (simp add: take_str_def bytes_of_def comp_def)
qed

lemma take_str_proper: "take_str b = Some (s, r) \<Longrightarrow> proper s"
proof -
  assume "take_str b = Some (s, r)"
  then have s: "s = map char_of_byte (takeWhile (\<lambda>x. x \<noteq> 0) b)"
    by (auto simp: take_str_def split: list.splits)
  have nz: "x \<noteq> 0 \<Longrightarrow> char_of_byte x \<noteq> NUL" for x
    by (metis byte_of_NUL byte_of_char_of_byte)
  show ?thesis unfolding proper_def
  proof
    assume "NUL \<in> set s"
    then obtain x where x: "x \<in> set (takeWhile (\<lambda>x. x \<noteq> 0) b)" "char_of_byte x = NUL"
      unfolding s by auto
    from set_takeWhileD [OF x(1)] have "x \<noteq> 0" by simp
    with nz x(2) show False by blast
  qed
qed

text \<open>A library in memory.\<close>

definition mem_gdbm :: "(cstr \<Rightarrow> byte list option) gdbm" where
  "mem_gdbm = \<lparr>g_fetch = (\<lambda>d k. d k), g_store = (\<lambda>d k v. (d(k := Some v), True)),
     g_exists = (\<lambda>d k. d k \<noteq> None), g_delete = (\<lambda>d k. d(k := None)), g_firstkey = (\<lambda>d. None),
     g_nextkey = (\<lambda>d k. None)\<rparr>"

lemma mem_gdbm_laws: "gdbm_laws mem_gdbm" "stores_succeed mem_gdbm"
  by (auto simp: gdbm_laws_def stores_succeed_def mem_gdbm_def)

end
