(* ===== verification/Packs.thy ===== *)
theory Packs
  imports Interfaces
begin

text \<open>
  Integers and times as bytes, ucspi-tcp-0.88: \<^verbatim>\<open>uint16_pack.c\<close>, \<^verbatim>\<open>uint16_unpack.c\<close>,
  \<^verbatim>\<open>uint32_pack.c\<close>, \<^verbatim>\<open>uint32_unpack.c\<close> and the TAI times of \<^verbatim>\<open>tai*.c\<close>, \<^verbatim>\<open>taia*.c\<close>.

  \<open>uint16\<close>, \<open>uint32\<close> (an \<open>unsigned long\<close> of 32 bits) and \<open>uint64\<close> are words; a packed value is the
  list of the bytes stored.  Every pair of a pack and an unpack is an instance of the locale
  \<open>codec\<close>; a normalised \<open>taia\<close> is a number of attoseconds, and the operations on times are
  addition, subtraction and comparison of these numbers.
\<close>

subsection \<open>Integers\<close>

definition uint16_pack :: "u16 \<Rightarrow> byte list" where
  "uint16_pack u = [ucast (u AND 255), ucast (drop_bit 8 u)]"

definition uint16_pack_big :: "u16 \<Rightarrow> byte list" where
  "uint16_pack_big u = [ucast (drop_bit 8 u), ucast (u AND 255)]"

text \<open>\<open>result <<= 8; result += (unsigned char) b\<close>.\<close>

definition shift_in :: "'a::len word \<Rightarrow> byte \<Rightarrow> 'a word" where
  "shift_in result b = push_bit 8 result + ucast b"

definition uint16_unpack :: "byte list \<Rightarrow> u16" where
  "uint16_unpack s = shift_in (ucast (s ! 1)) (s ! 0)"

definition uint16_unpack_big :: "byte list \<Rightarrow> u16" where
  "uint16_unpack_big s = shift_in (ucast (s ! 0)) (s ! 1)"

definition uint32_pack :: "u32 \<Rightarrow> byte list" where
  "uint32_pack u =
     (let u1 = drop_bit 8 u; u2 = drop_bit 8 u1
      in [ucast (u AND 255), ucast (u1 AND 255), ucast (u2 AND 255), ucast (drop_bit 8 u2)])"

definition uint32_pack_big :: "u32 \<Rightarrow> byte list" where
  "uint32_pack_big u =
     (let u1 = drop_bit 8 u; u2 = drop_bit 8 u1
      in [ucast (drop_bit 8 u2), ucast (u2 AND 255), ucast (u1 AND 255), ucast (u AND 255)])"

definition uint32_unpack :: "byte list \<Rightarrow> u32" where
  "uint32_unpack s = shift_in (shift_in (shift_in (ucast (s ! 3)) (s ! 2)) (s ! 1)) (s ! 0)"

definition uint32_unpack_big :: "byte list \<Rightarrow> u32" where
  "uint32_unpack_big s = shift_in (shift_in (shift_in (ucast (s ! 0)) (s ! 1)) (s ! 2)) (s ! 3)"

lemma bit_byte: "bit (b :: byte) n \<Longrightarrow> n < 8"
  by (auto dest: bit_imp_le_length)

lemma shift_in_or: "shift_in r b = push_bit 8 r OR ucast b"
  unfolding shift_in_def
  by (rule disjunctive_add_eq_or)
    (auto intro!: bit_eqI simp: bit_simps, metis bit_byte linorder_not_less)

lemma bit_shift_in:
  "bit (shift_in r b :: 'a::len word) n \<longleftrightarrow> n < LENGTH('a) \<and> (if n < 8 then bit b n else bit r (n - 8))"
  by (auto simp: shift_in_or bit_simps dest: bit_byte)

lemma low_byte [simp]: "(ucast (u AND 255) :: byte) = ucast (u :: 'a::len word)"
proof -
  have m: "(255 :: 'a word) = mask 8" by (simp add: mask_eq_exp_minus_1)
  show ?thesis unfolding m by (rule bit_word_eqI) (auto simp: bit_simps dest: bit_imp_le_length)
qed

lemmas pack_bits = bit_simps bit_shift_in

lemma less_8_cases: "n < 8 \<or> (8 \<le> n \<and> n < 16) \<or> (16 \<le> n \<and> n < 24) \<or> 24 \<le> (n::nat)"
  by linarith

lemma length2E: "length bs = 2 \<Longrightarrow> (\<And>a b. bs = [a, b] \<Longrightarrow> P) \<Longrightarrow> P"
  by (cases bs; cases "tl bs") (auto simp: numeral_eq_Suc)

lemma length4E: "length bs = 4 \<Longrightarrow> (\<And>a b c d. bs = [a, b, c, d] \<Longrightarrow> P) \<Longrightarrow> P"
  by (auto simp: numeral_eq_Suc length_Suc_conv)

text \<open>The four bytes of a \<open>uint32\<close>, the low one first.\<close>

definition bytes4 :: "u32 \<Rightarrow> byte \<times> byte \<times> byte \<times> byte" where
  "bytes4 u = (ucast u, ucast (drop_bit 8 u), ucast (drop_bit 16 u), ucast (drop_bit 24 u))"

lemma shift_in_bytes4:
  "shift_in (shift_in (shift_in (ucast (ucast (drop_bit 24 u) :: byte)) (ucast (drop_bit 16 u)))
     (ucast (drop_bit 8 u))) (ucast u) = (u :: u32)"
  by (rule bit_word_eqI) (auto simp: pack_bits)

lemma bytes4_shift_in:
  "bytes4 (shift_in (shift_in (shift_in (ucast d) c) b) a) = (a, b, c, d)"
  unfolding bytes4_def by (auto intro!: bit_word_eqI simp: pack_bits dest: bit_byte)

lemma uint32_pack_bytes4:
  "uint32_pack u = (let (a, b, c, d) = bytes4 u in [a, b, c, d])"
  "uint32_pack_big u = (let (a, b, c, d) = bytes4 u in [d, c, b, a])"
  by (simp_all add: uint32_pack_def uint32_pack_big_def bytes4_def Let_def)

lemma unpack_pack_16: "uint16_unpack (uint16_pack u) = u" "uint16_unpack_big (uint16_pack_big u) = u"
proof -
  have "shift_in (ucast (ucast (drop_bit 8 u) :: byte)) (ucast u) = u"
    by (rule bit_word_eqI) (auto simp: pack_bits)
  then show "uint16_unpack (uint16_pack u) = u" "uint16_unpack_big (uint16_pack_big u) = u"
    by (simp_all add: uint16_unpack_def uint16_pack_def uint16_unpack_big_def uint16_pack_big_def)
qed

lemma pack_unpack_16:
  assumes "length bs = 2"
  shows "uint16_pack (uint16_unpack bs) = bs" "uint16_pack_big (uint16_unpack_big bs) = bs"
proof -
  obtain a b where bs: "bs = [a, b]" by (rule length2E [OF assms])
  have "ucast (shift_in (ucast d :: u16) c) = c \<and> ucast (drop_bit 8 (shift_in (ucast d :: u16) c)) = d"
    for c d :: byte
    by (auto intro!: bit_word_eqI simp: pack_bits dest: bit_byte)
  then show "uint16_pack (uint16_unpack bs) = bs" "uint16_pack_big (uint16_unpack_big bs) = bs"
    by (simp_all add: bs uint16_unpack_def uint16_pack_def uint16_unpack_big_def uint16_pack_big_def)
qed

lemma unpack_pack_32: "uint32_unpack (uint32_pack u) = u" "uint32_unpack_big (uint32_pack_big u) = u"
  using shift_in_bytes4 [of u]
  by (simp_all add: uint32_unpack_def uint32_unpack_big_def uint32_pack_bytes4 bytes4_def)

lemma pack_unpack_32:
  assumes "length bs = 4"
  shows "uint32_pack (uint32_unpack bs) = bs" "uint32_pack_big (uint32_unpack_big bs) = bs"
proof -
  obtain a b c d where bs: "bs = [a, b, c, d]" by (rule length4E [OF assms])
  show "uint32_pack (uint32_unpack bs) = bs" "uint32_pack_big (uint32_unpack_big bs) = bs"
    by (simp_all add: bs uint32_unpack_def uint32_unpack_big_def uint32_pack_bytes4 bytes4_shift_in)
qed

interpretation le16: codec uint16_pack uint16_unpack 2
  by unfold_locales (simp_all add: unpack_pack_16 pack_unpack_16, simp add: uint16_pack_def)

interpretation be16: codec uint16_pack_big uint16_unpack_big 2
  by unfold_locales (simp_all add: unpack_pack_16 pack_unpack_16, simp add: uint16_pack_big_def)

interpretation le32: codec uint32_pack uint32_unpack 4
  by unfold_locales (simp_all add: unpack_pack_32 pack_unpack_32, simp add: uint32_pack_def Let_def)

interpretation be32: codec uint32_pack_big uint32_unpack_big 4
  by unfold_locales (simp_all add: unpack_pack_32 pack_unpack_32, simp add: uint32_pack_big_def Let_def)

text \<open>Unpacking a packed integer gives the integer back, for both widths and both byte orders,
  wherever the bytes stand in a packet, and two integers have the same bytes only if they are equal.\<close>

theorem uint_unpack_pack:
  "uint16_unpack (take 2 (drop (length xs) (xs @ uint16_pack u @ ys))) = u
   \<and> uint16_unpack_big (take 2 (drop (length xs) (xs @ uint16_pack_big u @ ys))) = u
   \<and> uint32_unpack (take 4 (drop (length xs) (xs @ uint32_pack v @ ys))) = v
   \<and> uint32_unpack_big (take 4 (drop (length xs) (xs @ uint32_pack_big v @ ys))) = v
   \<and> (uint32_pack v = uint32_pack w \<longleftrightarrow> v = w)"
  using le16.field_at be16.field_at le32.field_at be32.field_at le32.pack_inject by blast

subsection \<open>Times\<close>

record tai =
  tai_x :: "64 word"

record taia =
  sec :: tai
  nano :: u32
  atto :: u32

definition tai_less :: "tai \<Rightarrow> tai \<Rightarrow> bool" where
  "tai_less t u \<longleftrightarrow> tai_x t < tai_x u"

definition tai_pack :: "tai \<Rightarrow> byte list" where
  "tai_pack t =
     (let x = tai_x t; x6 = drop_bit 8 x; x5 = drop_bit 8 x6; x4 = drop_bit 8 x5;
          x3 = drop_bit 8 x4; x2 = drop_bit 8 x3; x1 = drop_bit 8 x2; x0 = drop_bit 8 x1
      in [ucast x0, ucast (x1 AND 255), ucast (x2 AND 255), ucast (x3 AND 255), ucast (x4 AND 255),
          ucast (x5 AND 255), ucast (x6 AND 255), ucast (x AND 255)])"

definition taia_pack :: "taia \<Rightarrow> byte list" where
  "taia_pack t =
     tai_pack (sec t)
     @ (let x = nano t; x2 = drop_bit 8 x; x1 = drop_bit 8 x2; x0 = drop_bit 8 x1
        in [ucast x0, ucast (x1 AND 255), ucast (x2 AND 255), ucast (x AND 255)])
     @ (let x = atto t; x2 = drop_bit 8 x; x1 = drop_bit 8 x2; x0 = drop_bit 8 x1
        in [ucast x0, ucast (x1 AND 255), ucast (x2 AND 255), ucast (x AND 255)])"

definition taia_add :: "taia \<Rightarrow> taia \<Rightarrow> taia" where
  "taia_add u v =
     (let s = tai_x (sec u) + tai_x (sec v); n = nano u + nano v; a = atto u + atto v;
          (a1, n1) = (if a > 999999999 then (a - 1000000000, n + 1) else (a, n));
          (n2, s2) = (if n1 > 999999999 then (n1 - 1000000000, s + 1) else (n1, s))
      in \<lparr>sec = \<lparr>tai_x = s2\<rparr>, nano = n2, atto = a1\<rparr>)"

definition taia_sub :: "taia \<Rightarrow> taia \<Rightarrow> taia" where
  "taia_sub u v =
     (let unano = nano u; uatto = atto u; s = tai_x (sec u) - tai_x (sec v);
          n = unano - nano v; a = uatto - atto v;
          (a1, n1) = (if a > uatto then (a + 1000000000, n - 1) else (a, n));
          (n2, s2) = (if n1 > unano then (n1 + 1000000000, s - 1) else (n1, s))
      in \<lparr>sec = \<lparr>tai_x = s2\<rparr>, nano = n2, atto = a1\<rparr>)"

definition taia_less :: "taia \<Rightarrow> taia \<Rightarrow> bool" where
  "taia_less t u =
     (if tai_x (sec t) < tai_x (sec u) then True
      else if tai_x (sec t) > tai_x (sec u) then False
      else if nano t < nano u then True
      else if nano t > nano u then False
      else atto t < atto u)"

definition taia_uint :: "u32 \<Rightarrow> taia" where
  "taia_uint s = \<lparr>sec = \<lparr>tai_x = ucast s\<rparr>, nano = 0, atto = 0\<rparr>"

text \<open>The time as a number of attoseconds.\<close>

definition normal :: "taia \<Rightarrow> bool" where
  "normal t \<longleftrightarrow> unat (nano t) < 10 ^ 9 \<and> unat (atto t) < 10 ^ 9"

definition attos :: "taia \<Rightarrow> nat" where
  "attos t = (unat (tai_x (sec t)) * 10 ^ 9 + unat (nano t)) * 10 ^ 9 + unat (atto t)"

lemma taia_add_attos:
  assumes n: "normal u" "normal v"
    and s: "unat (tai_x (sec u)) + unat (tai_x (sec v)) + 1 < 2 ^ 64"
  shows "normal (taia_add u v) \<and> attos (taia_add u v) = attos u + attos v"
proof -
  define nu nv au av su sv where d: "nu = unat (nano u)" "nv = unat (nano v)" "au = unat (atto u)"
    "av = unat (atto v)" "su = unat (tai_x (sec u))" "sv = unat (tai_x (sec v))"
  have b: "nu < 10 ^ 9" "nv < 10 ^ 9" "au < 10 ^ 9" "av < 10 ^ 9" "su + sv + 1 < 2 ^ 64"
    using n s by (simp_all add: normal_def d)
  have a: "unat (atto u + atto v) = au + av" "unat (nano u + nano v) = nu + nv"
    "unat (nano u + nano v + 1) = nu + nv + 1" "unat (tai_x (sec u) + tai_x (sec v)) = su + sv"
    "unat (tai_x (sec u) + tai_x (sec v) + 1) = su + sv + 1"
    using b by (simp_all add: unat_word_ariths d)
  have lt: "atto u + atto v > 999999999 \<longleftrightarrow> 10 ^ 9 \<le> au + av"
    "nano u + nano v > 999999999 \<longleftrightarrow> 10 ^ 9 \<le> nu + nv"
    "nano u + nano v + 1 > 999999999 \<longleftrightarrow> 10 ^ 9 \<le> nu + nv + 1"
    by (auto simp: word_less_nat_alt a)
  have sub: "unat (x - 1000000000) = unat x - 10 ^ 9" if "10 ^ 9 \<le> unat x" for x :: u32
    using that by (simp add: unat_sub word_le_nat_alt)
  have r: "unat (atto u + atto v - 1000000000) = au + av - 10 ^ 9" if "10 ^ 9 \<le> au + av"
    using sub [of "atto u + atto v"] that a by simp
  have r1: "unat (nano u + nano v - 1000000000) = nu + nv - 10 ^ 9" if "10 ^ 9 \<le> nu + nv"
    using sub [of "nano u + nano v"] that a by simp
  have r2: "unat (nano u + nano v + 1 - 1000000000) = nu + nv + 1 - 10 ^ 9" if "10 ^ 9 \<le> nu + nv + 1"
    using sub [of "nano u + nano v + 1"] that a by simp
  show ?thesis
  proof (cases "10 ^ 9 \<le> au + av")
    case True
    show ?thesis
    proof (cases "10 ^ 9 \<le> nu + nv + 1")
      case nn: True
      then show ?thesis using True lt r [OF True] r2 [OF nn] a b
        by (simp add: taia_add_def Let_def normal_def attos_def d [symmetric]) linarith
    next
      case False
      then show ?thesis using True lt r [OF True] a b
        by (simp add: taia_add_def Let_def normal_def attos_def d [symmetric])
    qed
  next
    case False
    show ?thesis
    proof (cases "10 ^ 9 \<le> nu + nv")
      case nn: True
      then show ?thesis using False lt r1 [OF nn] a b
        by (simp add: taia_add_def Let_def normal_def attos_def d [symmetric])
    next
      case nn: False
      then show ?thesis using False lt a b
        by (simp add: taia_add_def Let_def normal_def attos_def d [symmetric])
    qed
  qed
qed

lemma lex_less:
  "n < B \<Longrightarrow> m < B \<Longrightarrow> s * B + n < r * B + m \<longleftrightarrow> s < r \<or> s = r \<and> n < (m :: nat)"
proof -
  assume b: "n < B" "m < B"
  show ?thesis
  proof (cases s r rule: linorder_cases)
    case less
    then have "Suc s * B \<le> r * B" by (intro mult_right_mono) auto
    then have "s * B + n < r * B + m" using b by simp
    with less show ?thesis by simp
  next
    case greater
    then have "Suc r * B \<le> s * B" by (intro mult_right_mono) auto
    then have "\<not> s * B + n < r * B + m" using b by simp
    with greater show ?thesis by simp
  qed simp
qed

lemma lex3_less:
  fixes n m a b s r :: nat
  assumes "n < B" "m < B" "a < B" "b < B"
  shows "(s * B + n) * B + a < (r * B + m) * B + b \<longleftrightarrow> s < r \<or> s = r \<and> (n < m \<or> n = m \<and> a < b)"
  using lex_less [OF assms(3,4), of "s * B + n" "r * B + m"] lex_less [OF assms(1,2), of s r]
    lex_less [OF assms(2,1), of r s] by auto

lemma attos_less:
  assumes "normal t" "normal u"
  shows "attos t < attos u \<longleftrightarrow> unat (tai_x (sec t)) < unat (tai_x (sec u))
    \<or> unat (tai_x (sec t)) = unat (tai_x (sec u)) \<and> (unat (nano t) < unat (nano u)
      \<or> unat (nano t) = unat (nano u) \<and> unat (atto t) < unat (atto u))"
  unfolding attos_def by (rule lex3_less) (use assms in \<open>simp_all add: normal_def\<close>)

lemma taia_less_attos: "normal t \<Longrightarrow> normal u \<Longrightarrow> taia_less t u \<longleftrightarrow> attos t < attos u"
  by (auto simp: attos_less taia_less_def word_less_nat_alt)

lemma attos_inject: "normal t \<Longrightarrow> normal u \<Longrightarrow> attos t = attos u \<Longrightarrow> t = u"
proof -
  assume n: "normal t" "normal u" and e: "attos t = attos u"
  with attos_less [OF n] attos_less [OF n(2,1)] have
    "unat (tai_x (sec t)) = unat (tai_x (sec u))" "unat (nano t) = unat (nano u)"
    "unat (atto t) = unat (atto u)" by auto
  then show ?thesis by (simp add: word_unat_eq_iff)
qed

lemma unat_sub_borrow:
  fixes x y :: u32
  shows "unat (x - y) = (if unat y \<le> unat x then unat x - unat y else unat x + 2 ^ 32 - unat y)"
  using unsigned_less [of x, where ?'a = nat] unsigned_less [of y, where ?'a = nat]
  by (simp add: unat_sub_if_size word_size)

text \<open>One digit of the subtraction: the test for a borrow compares the wrapped difference with the
  minuend.\<close>

lemma sub_digit:
  fixes x y :: u32
  assumes "unat x < 10 ^ 9" "unat y \<le> 10 ^ 9"
  shows "x - y > x \<longleftrightarrow> unat x < unat y"
    and "unat x < unat y \<Longrightarrow> unat (x - y + 1000000000) = unat x + 10 ^ 9 - unat y"
    and "unat y \<le> unat x \<Longrightarrow> unat (x - y) = unat x - unat y"
proof -
  show "x - y > x \<longleftrightarrow> unat x < unat y" "unat y \<le> unat x \<Longrightarrow> unat (x - y) = unat x - unat y"
    using assms by (auto simp: word_less_nat_alt unat_sub_borrow)
  assume b: "unat x < unat y"
  then have "unat (x - y) + 10 ^ 9 = 2 ^ 32 + (unat x + 10 ^ 9 - unat y)"
    using assms by (simp add: unat_sub_borrow)
  moreover have "unat x + 10 ^ 9 - unat y < 2 ^ 32" using assms by simp
  ultimately show "unat (x - y + 1000000000) = unat x + 10 ^ 9 - unat y"
    by (simp add: unat_word_ariths(1) del: unat_sub_borrow)
qed

lemma sub_attos_arith:
  fixes su sv nu nv au av c e :: nat
  assumes "(sv * 10 ^ 9 + nv) * 10 ^ 9 + av \<le> (su * 10 ^ 9 + nu) * 10 ^ 9 + au"
    "nu < 10 ^ 9" "nv < 10 ^ 9" "au < 10 ^ 9" "av < 10 ^ 9"
    "c = (if au < av then 1 else 0)" "e = (if nu < nv + c then 1 else 0)"
  shows "sv + e \<le> su
    \<and> ((su - (sv + e)) * 10 ^ 9 + (nu + e * 10 ^ 9 - (nv + c))) * 10 ^ 9 + (au + c * 10 ^ 9 - av)
        = ((su * 10 ^ 9 + nu) * 10 ^ 9 + au) - ((sv * 10 ^ 9 + nv) * 10 ^ 9 + av)"
proof -
  have "sv + e \<le> su" using assms by (auto split: if_splits)
  then obtain k where k: "su = sv + e + k" using le_Suc_ex by blast
  show ?thesis using assms unfolding k by (auto split: if_splits)
qed

lemma taia_sub_attos:
  assumes n: "normal u" "normal v" and le: "attos v \<le> attos u"
  shows "normal (taia_sub u v) \<and> attos (taia_sub u v) = attos u - attos v"
proof -
  define nu nv au av su sv where d: "nu = unat (nano u)" "nv = unat (nano v)" "au = unat (atto u)"
    "av = unat (atto v)" "su = unat (tai_x (sec u))" "sv = unat (tai_x (sec v))"
  have b: "nu < 10 ^ 9" "nv < 10 ^ 9" "au < 10 ^ 9" "av < 10 ^ 9"
    using n by (simp_all add: normal_def d)
  define c where "c = (if au < av then 1 else 0 :: nat)"
  define y where "y = (if au < av then nano v + 1 else nano v)"
  define e where "e = (if nu < nv + c then 1 else 0 :: nat)"
  define z where "z = (if nu < nv + c then tai_x (sec v) + 1 else tai_x (sec v))"
  have y: "unat y = nv + c" using b by (simp add: y_def c_def d unat_word_ariths)
  have le': "(sv * 10 ^ 9 + nv) * 10 ^ 9 + av \<le> (su * 10 ^ 9 + nu) * 10 ^ 9 + au"
    using le by (simp add: attos_def d)
  note ar = sub_attos_arith [OF le' b c_def e_def]
  have svlt: "su < 2 ^ 64" using unsigned_less [of "tai_x (sec u)", where ?'a = nat] by (simp add: d)
  have z: "unat z = sv + e" using ar svlt by (auto simp: z_def e_def d unat_word_ariths)
  note da = sub_digit [of "atto u" "atto v"]
  note dn = sub_digit [of "nano u" y]
  have sub: "taia_sub u v = \<lparr>sec = \<lparr>tai_x = tai_x (sec u) - z\<rparr>,
      nano = (if nu < nv + c then nano u - y + 1000000000 else nano u - y),
      atto = (if au < av then atto u - atto v + 1000000000 else atto u - atto v)\<rparr>"
    using da(1) dn(1) b y
    by (auto simp: taia_sub_def Let_def d [symmetric] y_def z_def c_def algebra_simps split: if_splits)
  have "unat (tai_x (sec u) - z) = su - (sv + e)"
    using ar by (simp add: unat_sub word_le_nat_alt z d)
  moreover have "unat (if nu < nv + c then nano u - y + 1000000000 else nano u - y)
      = nu + e * 10 ^ 9 - (nv + c)"
    using dn(2,3) b y by (auto simp: d [symmetric] e_def c_def split: if_splits)
  moreover have "unat (if au < av then atto u - atto v + 1000000000 else atto u - atto v)
      = au + c * 10 ^ 9 - av"
    using da(2,3) b by (auto simp: d [symmetric] c_def)
  moreover have "nu + e * 10 ^ 9 - (nv + c) < 10 ^ 9" "au + c * 10 ^ 9 - av < 10 ^ 9"
    using b by (auto simp: e_def c_def)
  ultimately show ?thesis
    using ar unfolding sub normal_def attos_def d [symmetric] by simp
qed

text \<open>On normalised times \<open>taia_add\<close>, \<open>taia_sub\<close> and \<open>taia_less\<close> are addition, subtraction and
  comparison of the numbers of attoseconds, and the results are normalised, as long as the seconds
  do not overflow 64 bits.\<close>

theorem taia_arithmetic:
  "normal u \<Longrightarrow> normal v \<Longrightarrow> unat (tai_x (sec u)) + unat (tai_x (sec v)) + 1 < 2 ^ 64 \<Longrightarrow>
     normal (taia_add u v) \<and> attos (taia_add u v) = attos u + attos v
     \<and> taia_sub (taia_add u v) v = u
     \<and> (taia_less u v \<longleftrightarrow> attos u < attos v)"
proof -
  assume n: "normal u" "normal v" and s: "unat (tai_x (sec u)) + unat (tai_x (sec v)) + 1 < 2 ^ 64"
  note a = taia_add_attos [OF n s]
  then have "attos v \<le> attos (taia_add u v)" by simp
  from taia_sub_attos [OF conjunct1 [OF a] n(2) this] a
  have "normal (taia_sub (taia_add u v) v)" "attos (taia_sub (taia_add u v) v) = attos u" by simp_all
  from attos_inject [OF this(1) n(1) this(2)] a taia_less_attos [OF n] show ?thesis by simp
qed

theorem taia_arithmetic_witness:
  "attos (taia_add (taia_uint 3600) (taia_uint 5)) = attos (taia_uint 3600) + attos (taia_uint 5)"
  using taia_arithmetic [of "taia_uint 3600" "taia_uint 5"] by (simp add: normal_def taia_uint_def)

end
