(* ===== verification/Group.thy ===== *)
theory Group
  imports Gdbm Packs
begin

text \<open>
  The group data base, \<^verbatim>\<open>noffle-1.0.1/src/group.c\<close>: a gdbm file of group records and a cache of
  one record in the static struct \<open>grp\<close>.

  The library gdbm is a parameter: a record of its operations on a state of any type.  What the code
  relies on is the predicate \<open>gdbm_laws\<close>, the documented behaviour of fetch, store, exists and delete;
  a store that fails is undefined here, because its error message has one argument too few.
  A record value is the memory image of the struct \<open>Entry\<close> of five 32-bit integers, the two strings
  with their NULs and the posting status.  The abstract data base is a map from group names to group
  informations, and the operations refine lookup and update of that map.
\<close>

subsection \<open>Records\<close>

record Entry =
  e_first :: u32
  e_last :: u32
  e_rmtNext :: u32
  e_created :: u32
  e_lastAccess :: u32

record ginfo =
  entry :: Entry
  serv :: cstr
  dsc :: cstr
  postAllow :: char

record 'db grp =
  g_name :: cstr
  cur :: ginfo
  dbf :: 'db

definition entry_image :: "Entry \<Rightarrow> byte list" where
  "entry_image e = uint32_pack (e_first e) @ uint32_pack (e_last e) @ uint32_pack (e_rmtNext e)
     @ uint32_pack (e_created e) @ uint32_pack (e_lastAccess e)"

definition image_entry :: "byte list \<Rightarrow> Entry" where
  "image_entry b = \<lparr>e_first = uint32_unpack (take 4 b), e_last = uint32_unpack (take 4 (drop 4 b)),
     e_rmtNext = uint32_unpack (take 4 (drop 8 b)), e_created = uint32_unpack (take 4 (drop 12 b)),
     e_lastAccess = uint32_unpack (take 4 (drop 16 b))\<rparr>"

definition SIZEOF_ENTRY :: nat where "SIZEOF_ENTRY = 20"

text \<open>The reading half of \<open>loadGrp\<close>; a record without the posting status is an old one.\<close>

definition parse_record :: "byte list \<Rightarrow> ginfo option" where
  "parse_record val =
     (if length val < SIZEOF_ENTRY then None
      else do { (s, r1) \<leftarrow> take_str (drop SIZEOF_ENTRY val);
                s' \<leftarrow> Utl_cpyStr s;
                (d, r2) \<leftarrow> take_str r1;
                d' \<leftarrow> Utl_cpyStr d;
                Some \<lparr>entry = image_entry val, serv = s', dsc = d',
                  postAllow = (case r2 of [] \<Rightarrow> CHR ''y'' | p # _ \<Rightarrow> char_of_byte p)\<rparr> })"

text \<open>The buffer that \<open>saveGrp\<close> builds.\<close>

definition record_image :: "ginfo \<Rightarrow> byte list" where
  "record_image g = entry_image (entry g) @ bytes_of (serv g) @ [0] @ bytes_of (dsc g) @ [0]
     @ [byte_of (postAllow g)]"

definition grp_init :: "'db \<Rightarrow> 'db grp" where
  "grp_init d = \<lparr>g_name = ''(no grp)'', cur = \<lparr>entry = \<lparr>e_first = 0, e_last = 0, e_rmtNext = 0,
     e_created = 0, e_lastAccess = 0\<rparr>, serv = [], dsc = [], postAllow = CHR '' ''\<rparr>, dbf = d\<rparr>"

subsection \<open>Operations\<close>

definition Grp_close :: "'db grp \<Rightarrow> 'db grp" where
  "Grp_close g = g\<lparr>g_name := []\<rparr>"

definition loadGrp :: "'db gdbm \<Rightarrow> cstr \<Rightarrow> 'db grp \<Rightarrow> (bool \<times> 'db grp) option" where
  "loadGrp lib name g =
     (if g_name g = name then Some (True, g)
      else case g_fetch lib (dbf g) (key_of name) of
             None \<Rightarrow> Some (False, g)
           | Some val \<Rightarrow>
               do { c \<leftarrow> parse_record val;
                    nm \<leftarrow> Utl_cpyStr name;
                    Some (True, g\<lparr>g_name := nm, cur := c\<rparr>) })"

definition saveGrp :: "'db gdbm \<Rightarrow> 'db grp \<Rightarrow> 'db grp option" where
  "saveGrp lib g =
     (let (d, ok) = g_store lib (dbf g) (key_of (g_name g)) (record_image (cur g))
      in if ok then Some (g\<lparr>dbf := d\<rparr>) else None)"

definition Grp_exists :: "'db gdbm \<Rightarrow> cstr \<Rightarrow> 'db grp \<Rightarrow> bool" where
  "Grp_exists lib name g = g_exists lib (dbf g) (key_of name)"

definition GRP_LOCAL_SERVER_NAME :: cstr where
  "GRP_LOCAL_SERVER_NAME = ''(local)''"

text \<open>A getter: \<open>loadGrp\<close>, then a field or a default.\<close>

definition getter :: "'a \<Rightarrow> (ginfo \<Rightarrow> 'a) \<Rightarrow> 'db gdbm \<Rightarrow> cstr \<Rightarrow> 'db grp \<Rightarrow> ('a \<times> 'db grp) option" where
  "getter dflt sel lib name g =
     map_option (\<lambda>(found, g'). (if found then sel (cur g') else dflt, g')) (loadGrp lib name g)"

definition Grp_local :: "'db gdbm \<Rightarrow> cstr \<Rightarrow> 'db grp \<Rightarrow> (bool \<times> 'db grp) option" where
  "Grp_local = getter False (\<lambda>i. serv i = GRP_LOCAL_SERVER_NAME)"

definition Grp_dsc :: "'db gdbm \<Rightarrow> cstr \<Rightarrow> 'db grp \<Rightarrow> (cstr option \<times> 'db grp) option" where
  "Grp_dsc = getter None (\<lambda>i. Some (dsc i))"

definition Grp_first :: "'db gdbm \<Rightarrow> cstr \<Rightarrow> 'db grp \<Rightarrow> (int \<times> 'db grp) option" where
  "Grp_first = getter 0 (\<lambda>i. sint (e_first (entry i)))"

definition Grp_last :: "'db gdbm \<Rightarrow> cstr \<Rightarrow> 'db grp \<Rightarrow> (int \<times> 'db grp) option" where
  "Grp_last = getter 0 (\<lambda>i. sint (e_last (entry i)))"

definition Grp_lastAccess :: "'db gdbm \<Rightarrow> cstr \<Rightarrow> 'db grp \<Rightarrow> (int \<times> 'db grp) option" where
  "Grp_lastAccess = getter 0 (\<lambda>i. sint (e_lastAccess (entry i)))"

definition Grp_rmtNext :: "'db gdbm \<Rightarrow> cstr \<Rightarrow> 'db grp \<Rightarrow> (int \<times> 'db grp) option" where
  "Grp_rmtNext = getter 0 (\<lambda>i. sint (e_rmtNext (entry i)))"

definition Grp_created :: "'db gdbm \<Rightarrow> cstr \<Rightarrow> 'db grp \<Rightarrow> (int \<times> 'db grp) option" where
  "Grp_created = getter 0 (\<lambda>i. sint (e_created (entry i)))"

definition Grp_postAllow :: "'db gdbm \<Rightarrow> cstr \<Rightarrow> 'db grp \<Rightarrow> (char \<times> 'db grp) option" where
  "Grp_postAllow = getter NUL postAllow"

text \<open>\<open>in_cfg\<close> is \<open>Cfg_servListContains\<close>.\<close>

definition Grp_server :: "(cstr \<Rightarrow> bool) \<Rightarrow> 'db gdbm \<Rightarrow> cstr \<Rightarrow> 'db grp \<Rightarrow> (cstr \<times> 'db grp) option" where
  "Grp_server in_cfg lib name g =
     do { (found, g1) \<leftarrow> loadGrp lib name g;
          if \<not> found then Some (''[unknown grp]'', g1)
          else do { (loc, g2) \<leftarrow> (if in_cfg (serv (cur g1)) then Some (True, g1) else Grp_local lib name g1);
                    if loc then map_option (\<lambda>s. (s, g2)) (Utl_cpyStr (serv (cur g2)))
                    else Some (take (MAXCHAR - 1) (''['' @ serv (cur g2) @ '']''), g2) } }"

text \<open>\<open>now\<close> is what \<open>time\<close> returned.\<close>

definition Grp_create :: "'db gdbm \<Rightarrow> u32 \<Rightarrow> cstr \<Rightarrow> 'db grp \<Rightarrow> 'db grp option" where
  "Grp_create lib now name g =
     do { nm \<leftarrow> Utl_cpyStr name;
          sv \<leftarrow> Utl_cpyStr ''(unknown)'';
          saveGrp lib (g\<lparr>g_name := nm,
            cur := \<lparr>entry = \<lparr>e_first = 1, e_last = 0, e_rmtNext = 0, e_created = now, e_lastAccess = 0\<rparr>,
              serv = sv, dsc = [], postAllow = CHR ''y''\<rparr>\<rparr>) }"

definition Grp_delete :: "'db gdbm \<Rightarrow> cstr \<Rightarrow> 'db grp \<Rightarrow> 'db grp" where
  "Grp_delete lib name g = g\<lparr>dbf := g_delete lib (dbf g) (key_of name)\<rparr>"

text \<open>A setter: \<open>loadGrp\<close>, then a changed field and \<open>saveGrp\<close>.\<close>

definition setter :: "(ginfo \<Rightarrow> ginfo option) \<Rightarrow> 'db gdbm \<Rightarrow> cstr \<Rightarrow> 'db grp \<Rightarrow> 'db grp option" where
  "setter upd lib name g =
     do { (found, g1) \<leftarrow> loadGrp lib name g;
          if found then do { c \<leftarrow> upd (cur g1); saveGrp lib (g1\<lparr>cur := c\<rparr>) } else Some g1 }"

definition Grp_setDsc :: "cstr \<Rightarrow> 'db gdbm \<Rightarrow> cstr \<Rightarrow> 'db grp \<Rightarrow> 'db grp option" where
  "Grp_setDsc v = setter (\<lambda>i. map_option (\<lambda>s. i\<lparr>dsc := s\<rparr>) (Utl_cpyStr v))"

definition Grp_setServ :: "cstr \<Rightarrow> 'db gdbm \<Rightarrow> cstr \<Rightarrow> 'db grp \<Rightarrow> 'db grp option" where
  "Grp_setServ v = setter (\<lambda>i. map_option (\<lambda>s. i\<lparr>serv := s\<rparr>) (Utl_cpyStr v))"

definition Grp_setLocal :: "'db gdbm \<Rightarrow> cstr \<Rightarrow> 'db grp \<Rightarrow> 'db grp option" where
  "Grp_setLocal = Grp_setServ GRP_LOCAL_SERVER_NAME"

definition Grp_setRmtNext :: "int \<Rightarrow> 'db gdbm \<Rightarrow> cstr \<Rightarrow> 'db grp \<Rightarrow> 'db grp option" where
  "Grp_setRmtNext v = setter (\<lambda>i. Some (i\<lparr>entry := (entry i)\<lparr>e_rmtNext := word_of_int v\<rparr>\<rparr>))"

definition Grp_setLastAccess :: "int \<Rightarrow> 'db gdbm \<Rightarrow> cstr \<Rightarrow> 'db grp \<Rightarrow> 'db grp option" where
  "Grp_setLastAccess v = setter (\<lambda>i. Some (i\<lparr>entry := (entry i)\<lparr>e_lastAccess := word_of_int v\<rparr>\<rparr>))"

definition Grp_setPostAllow :: "char \<Rightarrow> 'db gdbm \<Rightarrow> cstr \<Rightarrow> 'db grp \<Rightarrow> 'db grp option" where
  "Grp_setPostAllow v = setter (\<lambda>i. Some (i\<lparr>postAllow := v\<rparr>))"

definition Grp_setFirstLast :: "int \<Rightarrow> int \<Rightarrow> 'db gdbm \<Rightarrow> cstr \<Rightarrow> 'db grp \<Rightarrow> 'db grp option" where
  "Grp_setFirstLast f l = setter (\<lambda>i. Some (i\<lparr>entry := (entry i)\<lparr>e_first := word_of_int f,
     e_last := word_of_int l\<rparr>\<rparr>))"

text \<open>The enumeration; the cursor is the current key.\<close>

definition Grp_firstGrp :: "'db gdbm \<Rightarrow> 'db grp \<Rightarrow> cstr option" where
  "Grp_firstGrp lib g = g_firstkey lib (dbf g)"

definition Grp_nextGrp :: "'db gdbm \<Rightarrow> cstr option \<Rightarrow> 'db grp \<Rightarrow> cstr option" where
  "Grp_nextGrp lib curs g =
     (case curs of None \<Rightarrow> None | Some k \<Rightarrow> g_nextkey lib (dbf g) k)"

subsection \<open>The record format\<close>

definition ginfo_ok :: "ginfo \<Rightarrow> bool" where
  "ginfo_ok i \<longleftrightarrow> proper (serv i) \<and> proper (dsc i) \<and> length (serv i) < MAXCHAR \<and> length (dsc i) < MAXCHAR"

lemma length_entry_image [simp]: "length (entry_image e) = 20"
  by (simp add: entry_image_def le32.width_pack)

lemma image_entry_image: "image_entry (entry_image e @ r) = e"
  by (simp add: image_entry_def entry_image_def le32.width_pack le32.unpack_pack)

lemma parse_record_image: "ginfo_ok i \<Longrightarrow> parse_record (record_image i) = Some i"
  by (simp add: parse_record_def record_image_def SIZEOF_ENTRY_def image_entry_image take_str_bytes
      ginfo_ok_def Utl_cpyStr_eq)

text \<open>A record that a version without the posting status wrote.\<close>

lemma parse_record_old:
  "ginfo_ok i \<Longrightarrow> parse_record (butlast (record_image i)) = Some (i\<lparr>postAllow := CHR ''y''\<rparr>)"
  using take_str_bytes [of "dsc i" "[]"]
  by (simp add: parse_record_def record_image_def SIZEOF_ENTRY_def image_entry_image take_str_bytes
      ginfo_ok_def Utl_cpyStr_eq butlast_append)

subsection \<open>The data base as a map\<close>

definition info :: "'db gdbm \<Rightarrow> 'db \<Rightarrow> cstr \<Rightarrow> ginfo option" where
  "info lib d n = do { v \<leftarrow> g_fetch lib d (key_of n); parse_record v }"

definition name_ok :: "cstr \<Rightarrow> bool" where
  "name_ok n \<longleftrightarrow> n \<noteq> [] \<and> n \<noteq> ''(no grp)'' \<and> length n < MAXCHAR"

text \<open>Every record can be read, and the cache holds the record of its group, if it holds one.\<close>

definition grp_inv :: "'db gdbm \<Rightarrow> 'db grp \<Rightarrow> bool" where
  "grp_inv lib g \<longleftrightarrow>
     (\<forall>n v. g_fetch lib (dbf g) (key_of n) = Some v \<longrightarrow> parse_record v \<noteq> None)
     \<and> (name_ok (g_name g) \<longrightarrow> info lib (dbf g) (g_name g) = Some (cur g))
     \<and> length (g_name g) < MAXCHAR"

lemma parse_record_ok: "parse_record v = Some i \<Longrightarrow> ginfo_ok i"
  by (auto simp: parse_record_def ginfo_ok_def split: if_splits bind_splits
      dest!: Utl_cpyStr_Some take_str_proper)

lemma info_ok: "info lib d n = Some i \<Longrightarrow> ginfo_ok i"
  by (auto simp: info_def split: bind_splits dest: parse_record_ok)

text \<open>\<open>loadGrp\<close> finds the group that the map has and leaves the data base alone.\<close>

lemma loadGrp_refines:
  assumes inv: "grp_inv lib g" and n: "name_ok n"
  shows "\<exists>g'. loadGrp lib n g = Some (info lib (dbf g) n \<noteq> None, g') \<and> grp_inv lib g' \<and> dbf g' = dbf g
    \<and> (\<forall>i. info lib (dbf g) n = Some i \<longrightarrow> cur g' = i \<and> g_name g' = n)"
proof (cases "g_name g = n")
  case True
  with inv n show ?thesis by (auto simp: loadGrp_def grp_inv_def)
next
  case False
  show ?thesis
  proof (cases "g_fetch lib (dbf g) (key_of n)")
    case None
    with False inv show ?thesis by (simp add: loadGrp_def info_def)
  next
    case (Some v)
    with inv obtain c where c: "parse_record v = Some c" by (auto simp: grp_inv_def)
    have "loadGrp lib n g = Some (True, g\<lparr>g_name := n, cur := c\<rparr>)"
      using False Some c n by (simp add: loadGrp_def name_ok_def Utl_cpyStr_eq)
    moreover have "grp_inv lib (g\<lparr>g_name := n, cur := c\<rparr>)"
      using inv Some c n by (simp add: grp_inv_def info_def name_ok_def)
    ultimately show ?thesis using Some c by (simp add: info_def)
  qed
qed

lemma getter_refines:
  assumes "grp_inv lib g" "name_ok n"
  shows "\<exists>g'. getter dflt sel lib n g
      = Some (case info lib (dbf g) n of None \<Rightarrow> dflt | Some i \<Rightarrow> sel i, g')
    \<and> grp_inv lib g' \<and> dbf g' = dbf g"
  using loadGrp_refines [OF assms] by (fastforce simp: getter_def split: option.splits)

lemma saveGrp_refines:
  assumes laws: "gdbm_laws lib" "stores_succeed lib"
    and db: "\<forall>n v. g_fetch lib (dbf g) (key_of n) = Some v \<longrightarrow> parse_record v \<noteq> None"
    and g: "ginfo_ok (cur g)" "length (g_name g) < MAXCHAR"
  shows "\<exists>g'. saveGrp lib g = Some g' \<and> grp_inv lib g'
    \<and> info lib (dbf g') = (info lib (dbf g))(g_name g := Some (cur g))"
proof -
  obtain d where st: "g_store lib (dbf g) (key_of (g_name g)) (record_image (cur g)) = (d, True)"
    and f: "g_fetch lib d = (g_fetch lib (dbf g))(key_of (g_name g) := Some (record_image (cur g)))"
    using g_store_succeeds [OF laws] by blast
  have "info lib d = (info lib (dbf g))(g_name g := Some (cur g))"
    using parse_record_image [OF g(1)] by (auto simp: info_def f fun_eq_iff)
  moreover have "grp_inv lib (g\<lparr>dbf := d\<rparr>)"
    using db parse_record_image [OF g(1)] g(2) by (simp add: grp_inv_def info_def f)
  ultimately show ?thesis using st by (simp add: saveGrp_def)
qed

lemma setter_refines:
  assumes laws: "gdbm_laws lib" "stores_succeed lib" and inv: "grp_inv lib g" and n: "name_ok n"
    and upd: "\<And>i. ginfo_ok i \<Longrightarrow> \<exists>j. upd i = Some j \<and> ginfo_ok j"
  shows "\<exists>g'. setter upd lib n g = Some g' \<and> grp_inv lib g'
    \<and> info lib (dbf g') = (info lib (dbf g))(n := info lib (dbf g) n \<bind> upd)"
proof -
  from loadGrp_refines [OF inv n] obtain g1 where
    g1: "loadGrp lib n g = Some (info lib (dbf g) n \<noteq> None, g1)" "grp_inv lib g1" "dbf g1 = dbf g"
      "\<And>i. info lib (dbf g) n = Some i \<Longrightarrow> cur g1 = i \<and> g_name g1 = n" by blast
  show ?thesis
  proof (cases "info lib (dbf g) n")
    case None
    then have "(info lib (dbf g))(n := info lib (dbf g) n \<bind> upd) = info lib (dbf g)"
      by (auto simp: fun_eq_iff)
    with None g1 show ?thesis by (simp add: setter_def)
  next
    case (Some i)
    with upd [OF info_ok [OF Some]] obtain j where j: "upd i = Some j" "ginfo_ok j" by blast
    have "\<exists>g'. saveGrp lib (g1\<lparr>cur := j\<rparr>) = Some g' \<and> grp_inv lib g'
        \<and> info lib (dbf g') = (info lib (dbf (g1\<lparr>cur := j\<rparr>)))(g_name (g1\<lparr>cur := j\<rparr>) := Some (cur (g1\<lparr>cur := j\<rparr>)))"
      by (rule saveGrp_refines [OF laws]) (use g1(2) j(2) in \<open>auto simp: grp_inv_def\<close>)
    with Some g1 j(1) show ?thesis by (simp add: setter_def)
  qed
qed

lemma Grp_create_refines:
  assumes laws: "gdbm_laws lib" "stores_succeed lib" and inv: "grp_inv lib g" and n: "name_ok n"
  shows "\<exists>g'. Grp_create lib now n g = Some g' \<and> grp_inv lib g'
    \<and> info lib (dbf g') = (info lib (dbf g))(n := Some \<lparr>entry = \<lparr>e_first = 1, e_last = 0, e_rmtNext = 0,
        e_created = now, e_lastAccess = 0\<rparr>, serv = ''(unknown)'', dsc = [], postAllow = CHR ''y''\<rparr>)"
proof -
  let ?i = "\<lparr>entry = \<lparr>e_first = 1, e_last = 0, e_rmtNext = 0, e_created = now, e_lastAccess = 0\<rparr>,
    serv = ''(unknown)'', dsc = [], postAllow = CHR ''y''\<rparr>"
  have "\<exists>g'. saveGrp lib (g\<lparr>g_name := n, cur := ?i\<rparr>) = Some g' \<and> grp_inv lib g'
      \<and> info lib (dbf g') = (info lib (dbf (g\<lparr>g_name := n, cur := ?i\<rparr>)))
          (g_name (g\<lparr>g_name := n, cur := ?i\<rparr>) := Some (cur (g\<lparr>g_name := n, cur := ?i\<rparr>)))"
    by (rule saveGrp_refines [OF laws])
      (use inv n in \<open>auto simp: grp_inv_def ginfo_ok_def name_ok_def MAXCHAR_def\<close>)
  moreover have "length n < MAXCHAR" using n by (simp add: name_ok_def)
  ultimately show ?thesis by (simp add: Grp_create_def Utl_cpyStr_eq MAXCHAR_def)
qed

text \<open>An operation answers a value and leaves the map alone, or updates the record of one group if there is one; the cache stays
  coherent.\<close>

definition grp_answers :: "'db gdbm \<Rightarrow> 'db grp \<Rightarrow> 'a \<Rightarrow> ('a \<times> 'db grp) option \<Rightarrow> bool" where
  "grp_answers lib g v r \<longleftrightarrow> (\<exists>g'. r = Some (v, g') \<and> grp_inv lib g' \<and> dbf g' = dbf g)"

definition grp_updates :: "'db gdbm \<Rightarrow> 'db grp \<Rightarrow> cstr \<Rightarrow> (ginfo \<Rightarrow> ginfo) \<Rightarrow> 'db grp option \<Rightarrow> bool" where
  "grp_updates lib g n f r \<longleftrightarrow>
     (\<exists>g'. r = Some g' \<and> grp_inv lib g' \<and> info lib (dbf g') = (info lib (dbf g))(n := map_option f (info lib (dbf g) n)))"

lemma getter_answers:
  "grp_inv lib g \<Longrightarrow> name_ok n \<Longrightarrow> grp_answers lib g (case info lib (dbf g) n of None \<Rightarrow> dflt | Some i \<Rightarrow> sel i) (getter dflt sel lib n g)"
  unfolding grp_answers_def by (rule getter_refines)

lemma setter_updates:
  assumes "gdbm_laws lib" "stores_succeed lib" "grp_inv lib g" "name_ok n"
    and "\<And>i. ginfo_ok i \<Longrightarrow> upd i = Some (f i) \<and> ginfo_ok (f i)"
  shows "grp_updates lib g n f (setter upd lib n g)"
proof -
  have e: "info lib (dbf g) n \<bind> upd = map_option f (info lib (dbf g) n)"
    using info_ok [of lib "dbf g" n] assms(5) by (cases "info lib (dbf g) n") auto
  have "\<exists>g'. setter upd lib n g = Some g' \<and> grp_inv lib g'
      \<and> info lib (dbf g') = (info lib (dbf g))(n := info lib (dbf g) n \<bind> upd)"
    by (rule setter_refines [OF assms(1-4)]) (use assms(5) in blast)
  then show ?thesis unfolding grp_updates_def e .
qed

lemma Grp_server_answers:
  assumes "grp_inv lib g" "name_ok n"
  shows "grp_answers lib g
    (case info lib (dbf g) n of None \<Rightarrow> ''[unknown grp]''
     | Some i \<Rightarrow> if in_cfg (serv i) \<or> serv i = GRP_LOCAL_SERVER_NAME then serv i
                 else take (MAXCHAR - 1) (''['' @ serv i @ '']'')) (Grp_server in_cfg lib n g)"
proof -
  from loadGrp_refines [OF assms] obtain g1 where
    g1: "loadGrp lib n g = Some (info lib (dbf g) n \<noteq> None, g1)" "grp_inv lib g1" "dbf g1 = dbf g"
      "\<And>i. info lib (dbf g) n = Some i \<Longrightarrow> cur g1 = i \<and> g_name g1 = n" by blast
  show ?thesis
  proof (cases "info lib (dbf g) n")
    case None then show ?thesis using g1 by (simp add: Grp_server_def grp_answers_def)
  next
    case (Some i)
    then have c: "cur g1 = i" "g_name g1 = n" using g1(4) by auto
    have "ginfo_ok i" using info_ok [OF Some] .
    then have "Utl_cpyStr (serv i) = Some (serv i)" by (simp add: ginfo_ok_def Utl_cpyStr_eq)
    moreover have "Utl_cpyStr GRP_LOCAL_SERVER_NAME = Some GRP_LOCAL_SERVER_NAME"
      by (simp add: GRP_LOCAL_SERVER_NAME_def Utl_cpyStr_eq MAXCHAR_def)
    moreover have "loadGrp lib n g1 = Some (True, g1)" using c by (simp add: loadGrp_def)
    ultimately show ?thesis using g1(1-3) Some c
      by (simp add: Grp_server_def grp_answers_def Grp_local_def getter_def)
  qed
qed

lemma Grp_exists_refines: "gdbm_laws lib \<Longrightarrow> grp_inv lib g \<Longrightarrow> Grp_exists lib n g \<longleftrightarrow> info lib (dbf g) n \<noteq> None"
  by (auto simp: Grp_exists_def gdbm_laws_def grp_inv_def info_def split: bind_splits)


lemma grp_init_inv: "grp_inv mem_gdbm (grp_init (\<lambda>_. None))"
  by (simp add: grp_inv_def grp_init_def mem_gdbm_def name_ok_def MAXCHAR_def)


text \<open>\<open>Grp_delete\<close> does not touch the cache: a group that is looked up and then deleted is gone
  from the data base, but its last article number is still answered, and the next update of it
  writes it back.\<close>

theorem Grp_delete_stale:
  assumes "gdbm_laws lib" "stores_succeed lib" "grp_inv lib g" "name_ok n" "info lib (dbf g) n = Some i"
  shows "\<exists>g1 g2 g3. loadGrp lib n g = Some (True, g1) \<and> g2 = Grp_delete lib n g1
    \<and> \<not> Grp_exists lib n g2 \<and> Grp_last lib n g2 = Some (sint (e_last (entry i)), g2)
    \<and> Grp_setPostAllow p lib n g2 = Some g3 \<and> Grp_exists lib n g3"
proof -
  from loadGrp_refines [OF assms(3,4)] assms(5) obtain g1 where
    g1: "loadGrp lib n g = Some (True, g1)" "grp_inv lib g1" "cur g1 = i" "g_name g1 = n" by auto
  define g2 where "g2 = Grp_delete lib n g1"
  have gone: "\<not> Grp_exists lib n g2"
    using assms(1) by (simp add: Grp_exists_def gdbm_laws_def g2_def Grp_delete_def)
  have l2: "loadGrp lib n g2 = Some (True, g2)" using g1(4) by (simp add: loadGrp_def g2_def Grp_delete_def)
  have c2: "cur g2 = i" "g_name g2 = n" using g1 by (simp_all add: g2_def Grp_delete_def)
  obtain d where st: "g_store lib (dbf g2) (key_of n) (record_image (i\<lparr>postAllow := p\<rparr>)) = (d, True)"
    using assms(2) by (metis prod.collapse stores_succeed_def)
  have "Grp_setPostAllow p lib n g2 = Some (g2\<lparr>cur := i\<lparr>postAllow := p\<rparr>, dbf := d\<rparr>)"
    using l2 c2 st by (simp add: Grp_setPostAllow_def setter_def saveGrp_def)
  moreover have "Grp_exists lib n (g2\<lparr>cur := i\<lparr>postAllow := p\<rparr>, dbf := d\<rparr>)"
    using assms(1) st by (simp add: Grp_exists_def gdbm_laws_def)
  moreover have "Grp_last lib n g2 = Some (sint (e_last (entry i)), g2)"
    using l2 c2 by (simp add: Grp_last_def getter_def)
  ultimately show ?thesis using g1(1) gone g2_def by blast
qed

theorem Grp_delete_stale_witness:
  "\<exists>g g1 v. Grp_create mem_gdbm 7 ''a.b'' (grp_init (\<lambda>_. None)) = Some g
     \<and> loadGrp mem_gdbm ''a.b'' g = Some (True, g1)
     \<and> Grp_last mem_gdbm ''a.b'' (Grp_delete mem_gdbm ''a.b'' g1) = Some (v, Grp_delete mem_gdbm ''a.b'' g1)"
proof -
  have n: "name_ok ''a.b''" by (simp add: name_ok_def MAXCHAR_def)
  from Grp_create_refines [OF mem_gdbm_laws grp_init_inv n, of 7] obtain g i where
    "Grp_create mem_gdbm 7 ''a.b'' (grp_init (\<lambda>_. None)) = Some g" "grp_inv mem_gdbm g"
    "info mem_gdbm (dbf g) ''a.b'' = Some i" by auto
  with Grp_delete_stale [OF mem_gdbm_laws this(2) n this(3)] show ?thesis by blast
qed

end
