(* ===== verification/Fetchlist.thy ===== *)
theory Fetchlist
  imports Stdio "HOL-Library.List_Lexorder" "HOL-Library.Char_ord" "HOL-Library.Multiset"
begin

text \<open>
  The list of groups to fetch, \<^verbatim>\<open>noffle-1.0.1/src/fetchlist.c\<close>: group names with a fetch mode, kept in
  an array and in the file \<open>fetchlist\<close>.

  The static struct is the list of its elements; \<open>None\<close> is a name that does not fit its \<open>Str\<close>, or
  a blank line in the file, on which \<open>Utl_stripWhiteSpace\<close> leaves its buffer.  \<open>qsort\<close> is a stable
  sort by the unsigned order of \<open>strcmp\<close>.  The list is an instance of the locale \<open>keyset\<close>.
\<close>

datatype FetchMode = FULL | THREAD | OVER

record Elem =
  el_name :: cstr
  el_mode :: FetchMode

type_synonym fetchlist = "Elem list"

text \<open>\<open>strcpy\<close> into a \<open>Str\<close>.\<close>

definition strcpy_Str :: "cstr \<Rightarrow> cstr option" where
  "strcpy_Str s = (if length s < MAXCHAR then Some s else None)"

fun searchElem :: "cstr \<Rightarrow> fetchlist \<Rightarrow> nat option" where
  "searchElem name [] = None"
| "searchElem name (e # es) = (if name = el_name e then Some 0 else map_option Suc (searchElem name es))"

definition appGrp :: "cstr \<Rightarrow> FetchMode \<Rightarrow> fetchlist \<Rightarrow> fetchlist option" where
  "appGrp name mode fl = do { n \<leftarrow> strcpy_Str name; Some (fl @ [\<lparr>el_name = n, el_mode = mode\<rparr>]) }"

text \<open>\<open>sscanf(p, "%s %s", grp, modeStr)\<close>: the words that were read.\<close>

definition scan_words :: "cstr \<Rightarrow> cstr list" where
  "scan_words p =
     (case scan_s p of
        None \<Rightarrow> []
      | Some (w, r) \<Rightarrow> (case scan_s r of None \<Rightarrow> [w] | Some (v, _) \<Rightarrow> [w, v]))"

definition parse_mode :: "cstr \<Rightarrow> FetchMode option" where
  "parse_mode s =
     (if s = ''full'' then Some FULL else if s = ''thread'' then Some THREAD
      else if s = ''over'' then Some OVER else None)"

text \<open>The loop; \<open>mode\<close> keeps its value from line to line.\<close>

fun fl_read_loop :: "FetchMode \<Rightarrow> cstr list \<Rightarrow> fetchlist \<Rightarrow> fetchlist option" where
  "fl_read_loop mode [] fl = Some fl"
| "fl_read_loop mode (line # ls) fl =
     do { (_, p) \<leftarrow> Utl_stripWhiteSpace [] line;
          if p = [] \<or> hd p = CHR ''#'' then fl_read_loop mode ls fl
          else case scan_words p of
                 [grp] \<Rightarrow> do { fl' \<leftarrow> appGrp grp mode fl; fl_read_loop mode ls fl' }
               | [grp, modeStr] \<Rightarrow>
                   (case parse_mode modeStr of
                      None \<Rightarrow> fl_read_loop mode ls fl
                    | Some m \<Rightarrow> do { fl' \<leftarrow> appGrp grp m fl; fl_read_loop m ls fl' })
               | _ \<Rightarrow> fl_read_loop mode ls fl }"

definition Fetchlist_read :: "cstr option \<Rightarrow> fetchlist option" where
  "Fetchlist_read fil = (case fil of None \<Rightarrow> Some [] | Some t \<Rightarrow> fl_read_loop OVER (fgets_all t) [])"

fun modeStr :: "FetchMode \<Rightarrow> cstr" where
  "modeStr FULL = ''full''"
| "modeStr THREAD = ''thread''"
| "modeStr OVER = ''over''"

text \<open>The sorted list, whether it was written, and the file.\<close>

definition Fetchlist_write :: "bool \<Rightarrow> fetchlist \<Rightarrow> cstr option \<Rightarrow> fetchlist \<times> bool \<times> cstr option" where
  "Fetchlist_write opened fl fil =
     (let fl' = sort_key el_name fl in
      if \<not> opened then (fl', False, fil)
      else (fl', True, Some (concat (map (\<lambda>e. el_name e @ '' '' @ modeStr (el_mode e) @ [LF]) fl'))))"

definition Fetchlist_size :: "fetchlist \<Rightarrow> nat" where
  "Fetchlist_size fl = length fl"

definition Fetchlist_contains :: "fetchlist \<Rightarrow> cstr \<Rightarrow> bool" where
  "Fetchlist_contains fl name = (searchElem name fl \<noteq> None)"

definition Fetchlist_element :: "int \<Rightarrow> fetchlist \<Rightarrow> (cstr \<times> FetchMode) option" where
  "Fetchlist_element idx fl =
     (if idx < 0 \<or> idx \<ge> int (length fl) then None
      else Some (el_name (fl ! nat idx), el_mode (fl ! nat idx)))"

definition Fetchlist_add :: "cstr \<Rightarrow> FetchMode \<Rightarrow> fetchlist \<Rightarrow> (bool \<times> fetchlist) option" where
  "Fetchlist_add name mode fl =
     (case searchElem name fl of
        None \<Rightarrow> map_option (\<lambda>fl'. (True, fl')) (appGrp name mode fl)
      | Some i \<Rightarrow> do { n \<leftarrow> strcpy_Str name; Some (False, fl[i := \<lparr>el_name = n, el_mode = mode\<rparr>]) })"

definition Fetchlist_remove :: "cstr \<Rightarrow> fetchlist \<Rightarrow> bool \<times> fetchlist" where
  "Fetchlist_remove name fl =
     (case searchElem name fl of
        None \<Rightarrow> (False, fl)
      | Some i \<Rightarrow> (True, butlast (fl[i := last fl])))"

subsection \<open>A set of names\<close>

abbreviation names :: "fetchlist \<Rightarrow> cstr list" where
  "names fl \<equiv> map el_name fl"

lemma searchElem_None: "searchElem name fl = None \<longleftrightarrow> name \<notin> set (names fl)"
  by (induction fl) auto

lemma searchElem_Some:
  "searchElem name fl = Some i \<Longrightarrow> i < length fl \<and> el_name (fl ! i) = name \<and> (\<forall>j < i. el_name (fl ! j) \<noteq> name)"
proof (induction fl arbitrary: i)
  case (Cons e fl)
  then show ?case by (auto simp: nth_Cons split: if_splits nat.splits)
qed simp

lemma Fetchlist_contains_iff: "Fetchlist_contains fl name \<longleftrightarrow> name \<in> set (names fl)"
  by (simp add: Fetchlist_contains_def searchElem_None)

lemma swap_remove:
  assumes "distinct (names fl)" "i < length fl"
  shows "distinct (names (butlast (fl[i := last fl])))
    \<and> set (names (butlast (fl[i := last fl]))) = set (names fl) - {el_name (fl ! i)}"
proof -
  define l where "l = length fl - 1"
  from assms obtain xs x where fl: "fl = xs @ [x]" by (metis length_0_conv not_less_zero rev_exhaust)
  show ?thesis
  proof (cases "i = length xs")
    case True
    with assms show ?thesis by (auto simp: fl list_update_append nth_append)
  next
    case False
    with assms have i: "i < length xs" by (simp add: fl)
    have e: "butlast (fl[i := last fl]) = xs[i := x]" using i by (simp add: fl list_update_append butlast_append)
    have d: "distinct (names xs)" "el_name x \<notin> set (names xs)" using assms(1) by (auto simp: fl)
    have "names (xs[i := x]) = (names xs)[i := el_name x]" by (simp add: map_update)
    moreover have "set ((names xs)[i := el_name x]) = insert (el_name x) (set (names xs) - {names xs ! i})"
      using i d by (simp add: set_update_distinct)
    moreover have "distinct ((names xs)[i := el_name x])"
      using d i by (simp add: distinct_list_update)
    ultimately show ?thesis using i d nth_mem [of i "names xs"]
      unfolding e by (auto simp: fl nth_append)
  qed
qed

lemma Fetchlist_add_names:
  assumes "distinct (names fl)" "length k < MAXCHAR"
  shows "\<exists>b fl'. Fetchlist_add k m fl = Some (b, fl') \<and> distinct (names fl')
    \<and> set (names fl') = insert k (set (names fl)) \<and> (b \<longleftrightarrow> k \<notin> set (names fl))
    \<and> \<lparr>el_name = k, el_mode = m\<rparr> \<in> set fl'"
proof (cases "searchElem k fl")
  case None
  then have "k \<notin> set (names fl)" by (simp add: searchElem_None)
  with None assms show ?thesis by (auto simp: Fetchlist_add_def appGrp_def strcpy_Str_def)
next
  case (Some i)
  note s = searchElem_Some [OF Some]
  define fl' where "fl' = fl[i := \<lparr>el_name = k, el_mode = m\<rparr>]"
  have "(names fl) ! i = k" using s by simp
  then have n: "names fl' = names fl" by (simp add: fl'_def map_update list_update_same_conv s)
  have "k \<in> set (names fl)" using s nth_mem [of i "names fl"] by simp
  then have "set (names fl) = insert k (set (names fl))" "k \<in> set (names fl)" by (simp_all only: insert_absorb)
  moreover have "\<lparr>el_name = k, el_mode = m\<rparr> \<in> set fl'" using s by (simp add: fl'_def set_update_memI)
  moreover have "Fetchlist_add k m fl = Some (False, fl')"
    using Some assms by (simp add: Fetchlist_add_def strcpy_Str_def fl'_def)
  ultimately show ?thesis using assms(1) n by (intro exI [of _ False] exI [of _ fl']) argo
qed

lemma Fetchlist_remove_names:
  assumes "distinct (names fl)"
  shows "distinct (names (snd (Fetchlist_remove k fl)))
    \<and> set (names (snd (Fetchlist_remove k fl))) = set (names fl) - {k}
    \<and> (fst (Fetchlist_remove k fl) \<longleftrightarrow> k \<in> set (names fl))"
proof (cases "searchElem k fl")
  case None
  then have "k \<notin> set (names fl)" by (simp add: searchElem_None)
  with None assms show ?thesis by (simp add: Fetchlist_remove_def)
next
  case (Some i)
  note s = searchElem_Some [OF Some]
  then have "k \<in> set (names fl)" using nth_mem [of i "names fl"] by simp
  with Some s swap_remove [OF assms, of i] show ?thesis by (simp add: Fetchlist_remove_def)
qed

interpretation fl: keyset Fetchlist_contains "\<lambda>k fl. map_option snd (Fetchlist_add k m fl)"
    "\<lambda>k fl. Some (snd (Fetchlist_remove k fl))" "\<lambda>fl. distinct (names fl)" "\<lambda>k. length k < MAXCHAR"
  for m
proof (unfold_locales, goal_cases)
  case (1 s k)
  with Fetchlist_add_names [of s k m] show ?case by (auto simp: Fetchlist_contains_iff)
next
  case (2 s k)
  with Fetchlist_remove_names [of s k] show ?case by (auto simp: Fetchlist_contains_iff)
qed

text \<open>A program of additions (with one mode) and removals as the locale runs it.\<close>

fun fl_run :: "FetchMode \<Rightarrow> (bool \<times> cstr) list \<Rightarrow> fetchlist \<Rightarrow> fetchlist option" where
  "fl_run m [] fl = Some fl"
| "fl_run m ((True, k) # ops) fl = do { (_, fl') \<leftarrow> Fetchlist_add k m fl; fl_run m ops fl' }"
| "fl_run m ((False, k) # ops) fl = fl_run m ops (snd (Fetchlist_remove k fl))"

fun fl_members :: "(bool \<times> cstr) list \<Rightarrow> cstr set \<Rightarrow> cstr set" where
  "fl_members [] K = K"
| "fl_members ((True, k) # ops) K = fl_members ops (insert k K)"
| "fl_members ((False, k) # ops) K = fl_members ops (K - {k})"

lemma fl_run_eq: "fl_run m ops fl = fl.run m ops fl"
proof (induction m ops fl rule: fl_run.induct)
  case (2 m k ops fl)
  then show ?case by (cases "Fetchlist_add k m fl") auto
qed auto

lemma fl_members_eq: "fl_members ops K = fl.members ops K"
  by (induction ops K rule: fl_members.induct) auto

text \<open>After any sequence of additions and removals of group names that fit, starting from a list
  without duplicates, the list has no duplicates and contains exactly the names that the same
  sequence leaves in a set.\<close>

theorem Fetchlist_is_set:
  "distinct (names fl) \<Longrightarrow> list_all (\<lambda>(_, k). length k < MAXCHAR) ops \<Longrightarrow>
     \<exists>fl'. fl_run m ops fl = Some fl' \<and> distinct (names fl')
       \<and> {k. Fetchlist_contains fl' k} = fl_members ops {k. Fetchlist_contains fl k}"
  unfolding fl_run_eq fl_members_eq by (rule fl.run_members)

theorem Fetchlist_is_set_witness:
  "\<exists>fl'. fl_run FULL [(True, ''a''), (True, ''b''), (True, ''a''), (False, ''b'')] [] = Some fl'
     \<and> {k. Fetchlist_contains fl' k} = {''a''}"
proof -
  let ?ops = "[(True, ''a''), (True, ''b''), (True, ''a''), (False, ''b'')]"
  have e: "{k. Fetchlist_contains [] k} = {}" by (simp add: Fetchlist_contains_def)
  have d: "distinct (names [])" and k: "list_all (\<lambda>(_, k). length k < MAXCHAR) ?ops"
    by (simp_all add: MAXCHAR_def)
  from Fetchlist_is_set [OF d k, of FULL] obtain fl' where
    r: "fl_run FULL ?ops [] = Some fl'" "{k. Fetchlist_contains fl' k} = fl_members ?ops {}"
    unfolding e by blast
  have "fl_members ?ops {} = {''a''}" by auto
  with r show ?thesis by metis
qed

subsection \<open>Written and read back\<close>

definition elem_ok :: "Elem \<Rightarrow> bool" where
  "elem_ok e \<longleftrightarrow> el_name e \<noteq> [] \<and> (\<forall>c \<in> set (el_name e). \<not> cisspace c) \<and> proper (el_name e)
     \<and> hd (el_name e) \<noteq> CHR ''#'' \<and> length (el_name e) + 9 < MAXCHAR"

lemma modeStr_ok: "modeStr m \<noteq> [] \<and> (\<forall>c \<in> set (modeStr m). \<not> cisspace c) \<and> proper (modeStr m)
    \<and> length (modeStr m) \<le> 6 \<and> parse_mode (modeStr m) = Some m"
  by (cases m) (auto simp: parse_mode_def cisspace_def)

abbreviation el_line :: "Elem \<Rightarrow> cstr" where
  "el_line e \<equiv> el_name e @ '' '' @ modeStr (el_mode e)"

lemma scan_words_line: "elem_ok e \<Longrightarrow> scan_words (el_line e) = [el_name e, modeStr (el_mode e)]"
proof -
  assume e: "elem_ok e"
  have "scan_s (el_line e) = Some (el_name e, '' '' @ modeStr (el_mode e))"
    by (rule scan_s_run) (use e in \<open>auto simp: elem_ok_def cisspace_def\<close>)
  moreover have "scan_s ('' '' @ modeStr (el_mode e)) = Some (modeStr (el_mode e), [])"
    using scan_s_run [of "modeStr (el_mode e)" "[]"] modeStr_ok [of "el_mode e"]
    by (simp add: scan_s_def cisspace_def)
  ultimately show ?thesis by (simp add: scan_words_def)
qed

lemma fl_read_line:
  assumes "elem_ok e"
  shows "fl_read_loop mode ((el_line e @ [LF]) # ls) fl = fl_read_loop (el_mode e) ls (fl @ [e])"
proof -
  have m: "modeStr (el_mode e) \<noteq> []" "\<not> cisspace (last (modeStr (el_mode e)))"
    using modeStr_ok [of "el_mode e"] by auto
  have h: "\<not> cisspace (hd (el_name e))" "el_name e \<noteq> []" "hd (el_name e) \<noteq> CHR ''#''"
    using assms by (auto simp: elem_ok_def)
  have s: "strip (el_line e @ [LF]) = el_line e"
    by (rule strip_run) (use m h in \<open>auto simp: cisspace_def\<close>)
  have "\<not> blank (el_line e @ [LF])" using h by (auto simp: blank_def list_all_iff dest: hd_in_set)
  moreover have "proper (el_line e @ [LF])"
    using assms modeStr_ok [of "el_mode e"] by (simp add: elem_ok_def)
  ultimately have "Utl_stripWhiteSpace [] (el_line e @ [LF]) = Some ([], el_line e)"
    using Utl_stripWhiteSpace_strip [of "el_line e @ [LF]" "[]"] s by simp
  moreover have "appGrp (el_name e) (el_mode e) fl = Some (fl @ [e])"
    using assms by (cases e) (simp add: appGrp_def strcpy_Str_def elem_ok_def)
  ultimately show ?thesis
    using h scan_words_line [OF assms] modeStr_ok [of "el_mode e"] assms by simp
qed

lemma fl_read_lines:
  "list_all elem_ok es \<Longrightarrow> fl_read_loop mode (map (\<lambda>e. el_line e @ [LF]) es) fl = Some (fl @ es)"
  by (induction es arbitrary: mode fl) (simp_all add: fl_read_line [simplified])

text \<open>Reading the file that \<open>Fetchlist_write\<close> writes gives the same groups and modes, sorted by
  name, when every name is a word that does not start with a hash sign.\<close>

theorem Fetchlist_write_read:
  "list_all elem_ok fl \<Longrightarrow> Fetchlist_write True fl old = (fl', b, fil) \<Longrightarrow>
     Fetchlist_read fil = Some fl' \<and> b \<and> sorted (names fl') \<and> mset fl' = mset fl"
proof -
  assume ok: "list_all elem_ok fl" and w: "Fetchlist_write True fl old = (fl', b, fil)"
  from w have fl': "fl' = sort_key el_name fl" "b" and
    f: "fil = Some (concat (map (\<lambda>e. el_line e @ [LF]) fl'))"
    by (auto simp: Fetchlist_write_def Let_def)
  have ok': "list_all elem_ok fl'" using ok by (simp add: fl' list_all_iff)
  have "file_line (el_line e)" if "elem_ok e" for e
    using that modeStr_ok [of "el_mode e"] by (auto simp: file_line_def elem_ok_def cisspace_def)
  with ok' have "list_all file_line (map el_line fl')" by (auto simp: list_all_iff)
  from fgets_all_text_of [OF this] have
    "fgets_all (concat (map (\<lambda>e. el_line e @ [LF]) fl')) = map (\<lambda>e. el_line e @ [LF]) fl'"
    by (simp add: text_of_def comp_def)
  with fl_read_lines [OF ok', of OVER "[]"] show ?thesis
    by (simp add: Fetchlist_read_def f fl')
qed

theorem Fetchlist_write_read_witness:
  "\<exists>fil. Fetchlist_write True [\<lparr>el_name = ''b'', el_mode = THREAD\<rparr>, \<lparr>el_name = ''a'', el_mode = FULL\<rparr>] None
       = ([\<lparr>el_name = ''a'', el_mode = FULL\<rparr>, \<lparr>el_name = ''b'', el_mode = THREAD\<rparr>], True, fil)
     \<and> Fetchlist_read fil = Some [\<lparr>el_name = ''a'', el_mode = FULL\<rparr>, \<lparr>el_name = ''b'', el_mode = THREAD\<rparr>]"
proof -
  let ?fl = "[\<lparr>el_name = ''b'', el_mode = THREAD\<rparr>, \<lparr>el_name = ''a'', el_mode = FULL\<rparr>]"
  have ok: "list_all elem_ok ?fl" by (simp add: elem_ok_def cisspace_def MAXCHAR_def)
  have s: "sort_key el_name ?fl = [\<lparr>el_name = ''a'', el_mode = FULL\<rparr>, \<lparr>el_name = ''b'', el_mode = THREAD\<rparr>]"
    by (simp add: less_char_def less_eq_char_def)
  obtain fil where w: "Fetchlist_write True ?fl None = (sort_key el_name ?fl, True, fil)"
    by (simp add: Fetchlist_write_def)
  from Fetchlist_write_read [OF ok w] w show ?thesis unfolding s by blast
qed

text \<open>A group without a mode gets the mode of the line before it, not the default.\<close>

lemma Fetchlist_read_mode_kept:
  "Fetchlist_read (Some (''a full'' @ LF # ''b'' @ [LF])) =
     Some [\<lparr>el_name = ''a'', el_mode = FULL\<rparr>, \<lparr>el_name = ''b'', el_mode = FULL\<rparr>]"
proof -
  have "fgets_all (text_of [''a full'', ''b'']) = map (\<lambda>l. l @ [LF]) [''a full'', ''b'']"
    by (rule fgets_all_text_of) (simp add: file_line_def MAXCHAR_def)
  then show ?thesis
    by (simp add: Fetchlist_read_def Utl_stripWhiteSpace_def Let_def cisspace_def scan_words_def
        scan_s_def parse_mode_def appGrp_def strcpy_Str_def MAXCHAR_def)
qed

end
