(* ===== verification/Request.thy ===== *)
theory Request
  imports Stdio
begin

text \<open>
  The request lists, \<^verbatim>\<open>noffle-1.0.1/src/request.c\<close>: per server, the message IDs to fetch, cached in a
  linked list of \<open>Reqserv\<close> and kept in one file per server.

  The list \<open>reqserv\<close> is a list of records, its head first; a removed message is a hole (\<open>None\<close>) in
  \<open>reql\<close>.  The iterator of \<open>Req_first\<close> is the server and the index it points at, and \<open>it_valid\<close> is false
  once the array it points into has been moved or freed.  The files are a map from servers to texts
  with a modification time; what \<open>stat\<close> leaves for a missing file is the field \<open>no_mtime\<close>.  \<open>None\<close> is
  the use of freed memory or a position outside a buffer.  The assertions that the lists are open and that no iterator is
  active are compiled only with \<open>DEBUG\<close> and are left out.
\<close>

record Reqserv =
  rs_serv :: cstr
  reql :: "cstr option list"
  reql_capacity :: nat
  dirty :: bool
  mtime :: int

record reqfile =
  f_text :: cstr
  f_mtime :: int

record req =
  reqserv :: "Reqserv list"
  is_open :: bool
  itr :: "(cstr \<times> int \<times> int) option"
  it_valid :: bool
  files :: "cstr \<Rightarrow> reqfile option"
  no_mtime :: int

definition get_mtime :: "req \<Rightarrow> cstr \<Rightarrow> int" where
  "get_mtime st serv = (case files st serv of None \<Rightarrow> no_mtime st | Some f \<Rightarrow> f_mtime f)"

definition newReqserv :: "cstr \<Rightarrow> Reqserv" where
  "newReqserv serv = \<lparr>rs_serv = serv, reql = [], reql_capacity = 0, dirty = False, mtime = 0\<rparr>"

fun find_serv :: "cstr \<Rightarrow> Reqserv list \<Rightarrow> Reqserv option" where
  "find_serv serv [] = None"
| "find_serv serv (rs # rss) = (if serv = rs_serv rs then Some rs else find_serv serv rss)"

fun set_serv :: "Reqserv \<Rightarrow> Reqserv list \<Rightarrow> Reqserv list" where
  "set_serv r [] = []"
| "set_serv r (rs # rss) = (if rs_serv r = rs_serv rs then r # rss else rs # set_serv r rss)"

text \<open>The index of a message; \<open>reql\<close> is a null pointer as long as nothing was stored.\<close>

fun searchMsgId :: "cstr option list \<Rightarrow> cstr \<Rightarrow> nat option" where
  "searchMsgId [] msgId = None"
| "searchMsgId (e # es) msgId =
     (if e = Some msgId then Some 0 else map_option Suc (searchMsgId es msgId))"

text \<open>The flag says whether the array was moved by \<open>realloc\<close>.\<close>

definition storeMsgId :: "Reqserv \<Rightarrow> cstr \<Rightarrow> Reqserv \<times> bool" where
  "storeMsgId rs msgId =
     (if searchMsgId (reql rs) msgId \<noteq> None then (rs, False)
      else
        let grow = (length (reql rs) \<ge> reql_capacity rs);
            cap = (if grow then reql_capacity rs * 2 + 10 else reql_capacity rs)
        in (rs\<lparr>reql := reql rs @ [Some msgId], reql_capacity := cap, dirty := True\<rparr>, grow))"

text \<open>\<open>readLn\<close> on one result of \<open>fgets\<close>.\<close>

definition readLn :: "cstr \<Rightarrow> cstr option" where
  "readLn line = (if line = [] then None else Some (if last line = LF then butlast line else line))"

fun read_requests :: "cstr list \<Rightarrow> Reqserv \<Rightarrow> Reqserv option" where
  "read_requests [] rs = Some rs"
| "read_requests (l # ls) rs =
     do { line \<leftarrow> readLn l;
          (_, line1) \<leftarrow> Utl_stripWhiteSpace [] line;
          read_requests ls (if line1 \<noteq> [] then fst (storeMsgId rs line1) else rs) }"

text \<open>The new head of the list.  Opening a file that exists succeeds.\<close>

definition readRequestfile :: "cstr \<Rightarrow> req \<Rightarrow> Reqserv option" where
  "readRequestfile serv st =
     (case files st serv of
        None \<Rightarrow> Some ((newReqserv serv)\<lparr>mtime := get_mtime st serv\<rparr>)
      | Some f \<Rightarrow>
          do { rs \<leftarrow> read_requests (fgets_all (f_text f)) (newReqserv serv);
               Some (rs\<lparr>dirty := False\<rparr>) })"

definition getReqserv :: "cstr \<Rightarrow> req \<Rightarrow> (Reqserv \<times> req) option" where
  "getReqserv serv st =
     (case find_serv serv (reqserv st) of
        Some rs \<Rightarrow> Some (rs, st)
      | None \<Rightarrow> do { rs \<leftarrow> readRequestfile serv st; Some (rs, st\<lparr>reqserv := rs # reqserv st\<rparr>) })"

text \<open>The loop of \<open>cleanupReqserv\<close>.  \<open>kept\<close> are the entries that stay in front of \<open>rs\<close>; \<open>prev_freed\<close>
  says whether \<open>prev\<close> points at an entry that was freed.\<close>

fun cleanup_loop :: "(Reqserv \<Rightarrow> bool) \<Rightarrow> Reqserv list \<Rightarrow> bool \<Rightarrow> Reqserv list \<Rightarrow> Reqserv list option" where
  "cleanup_loop stale kept prev_freed [] = Some kept"
| "cleanup_loop stale kept prev_freed (rs # rss) =
     (if stale rs
      then if prev_freed then None else cleanup_loop stale kept True rss
      else cleanup_loop stale (kept @ [rs]) False rss)"

definition cleanupReqserv :: "req \<Rightarrow> req option" where
  "cleanupReqserv st =
     do { rss \<leftarrow> cleanup_loop (\<lambda>rs. get_mtime st (rs_serv rs) \<noteq> mtime rs) [] False (reqserv st);
          Some (st\<lparr>reqserv := rss,
                   it_valid := it_valid st \<and> (case itr st of None \<Rightarrow> True
                     | Some (s, _) \<Rightarrow> find_serv s rss \<noteq> None)\<rparr>) }"

definition Req_open :: "req \<Rightarrow> req option" where
  "Req_open st = do { st' \<leftarrow> cleanupReqserv st; Some (st'\<lparr>is_open := True\<rparr>) }"

definition Req_contains :: "cstr \<Rightarrow> cstr \<Rightarrow> req \<Rightarrow> (bool \<times> req) option" where
  "Req_contains serv msgId st =
     do { (rs, st') \<leftarrow> getReqserv serv st; Some (searchMsgId (reql rs) msgId \<noteq> None, st') }"

definition Req_add :: "cstr \<Rightarrow> cstr \<Rightarrow> req \<Rightarrow> (bool \<times> req) option" where
  "Req_add serv msgId st =
     do { (rs, st') \<leftarrow> getReqserv serv st;
          let (rs', moved) = storeMsgId rs msgId;
          Some (True, st'\<lparr>reqserv := set_serv rs' (reqserv st'),
            it_valid := it_valid st' \<and> \<not> (moved \<and> (case itr st' of None \<Rightarrow> False | Some (s, _) \<Rightarrow> s = serv))\<rparr>) }"

definition Req_remove :: "cstr \<Rightarrow> cstr \<Rightarrow> req \<Rightarrow> req option" where
  "Req_remove serv msgId st =
     do { (rs, st') \<leftarrow> getReqserv serv st;
          case searchMsgId (reql rs) msgId of
            None \<Rightarrow> Some st'
          | Some i \<Rightarrow> Some (st'\<lparr>reqserv := set_serv (rs\<lparr>reql := (reql rs)[i := None], dirty := True\<rparr>)
              (reqserv st')\<rparr>) }"

text \<open>What \<open>writeRequestfile\<close> puts into the file, and the new state; \<open>opened\<close> is whether \<open>fopen\<close>
  succeeded and \<open>now\<close> the modification time the file gets.\<close>

definition request_text :: "cstr option list \<Rightarrow> cstr" where
  "request_text es = concat (map (\<lambda>e. case e of None \<Rightarrow> [] | Some m \<Rightarrow> m @ [LF]) es)"

definition writeRequestfile :: "bool \<Rightarrow> int \<Rightarrow> Reqserv \<Rightarrow> req \<Rightarrow> bool \<times> Reqserv \<times> req" where
  "writeRequestfile opened now rs st =
     (if \<not> opened then (False, rs, st)
      else let st' = st\<lparr>files := (files st)(rs_serv rs := Some \<lparr>f_text = request_text (reql rs), f_mtime = now\<rparr>)\<rparr>
           in (True, rs\<lparr>dirty := False, mtime := get_mtime st' (rs_serv rs)\<rparr>, st'))"

fun close_loop :: "(cstr \<Rightarrow> bool) \<Rightarrow> int \<Rightarrow> Reqserv list \<Rightarrow> req \<Rightarrow> Reqserv list \<times> req" where
  "close_loop opened now [] st = ([], st)"
| "close_loop opened now (rs # rss) st =
     (if dirty rs
      then let (_, rs', st') = writeRequestfile (opened (rs_serv rs)) now rs st;
               (rss', st'') = close_loop opened now rss st' in (rs' # rss', st'')
      else let (rss', st'') = close_loop opened now rss st in (rs # rss', st''))"

definition Req_close :: "(cstr \<Rightarrow> bool) \<Rightarrow> int \<Rightarrow> req \<Rightarrow> req" where
  "Req_close opened now st =
     (let (rss, st') = close_loop opened now (reqserv st) st in st'\<lparr>reqserv := rss, is_open := False\<rparr>)"

subsection \<open>Iteration\<close>

text \<open>The loop of \<open>Req_next\<close> over the entries from index \<open>i\<close> on.\<close>

fun skip_holes :: "int \<Rightarrow> cstr option list \<Rightarrow> (int \<times> cstr) option" where
  "skip_holes i [] = None"
| "skip_holes i (None # es) = skip_holes (i + 1) es"
| "skip_holes i (Some m # es) = Some (i, m)"

definition Req_next :: "req \<Rightarrow> (cstr option \<times> req) option" where
  "Req_next st =
     (case itr st of
        None \<Rightarrow> Some (None, st)
      | Some (serv, i, e) \<Rightarrow>
          if i \<ge> e then Some (None, st)
          else if \<not> it_valid st then None
          else case find_serv serv (reqserv st) of
                 None \<Rightarrow> None
               | Some rs \<Rightarrow>
                   (case skip_holes (i + 1) (drop (nat (i + 1)) (take (nat e) (reql rs))) of
                      None \<Rightarrow> Some (None, st\<lparr>itr := None\<rparr>)
                    | Some (j, m) \<Rightarrow>
                        do { m' \<leftarrow> Utl_cpyStr m; Some (Some m', st\<lparr>itr := Some (serv, j, e)\<rparr>) }))"

definition Req_first :: "cstr \<Rightarrow> req \<Rightarrow> (cstr option \<times> req) option" where
  "Req_first serv st =
     do { (rs, st') \<leftarrow> getReqserv serv st;
          if reql_capacity rs = 0 then Some (None, st')
          else Req_next (st'\<lparr>itr := Some (serv, -1, int (length (reql rs))), it_valid := True\<rparr>) }"

subsection \<open>The set of requests of a server\<close>

text \<open>The messages of a list, without its holes.\<close>

fun live :: "cstr option list \<Rightarrow> cstr list" where
  "live [] = []"
| "live (None # es) = live es"
| "live (Some m # es) = m # live es"

definition req_set :: "cstr \<Rightarrow> req \<Rightarrow> cstr set" where
  "req_set serv st =
     (case getReqserv serv st of None \<Rightarrow> {} | Some (rs, _) \<Rightarrow> set (live (reql rs)))"

text \<open>The server is cached, or its request file can be read, and no message is listed twice.\<close>

definition req_inv :: "cstr \<Rightarrow> req \<Rightarrow> bool" where
  "req_inv serv st \<longleftrightarrow>
     (case getReqserv serv st of None \<Rightarrow> False | Some (rs, _) \<Rightarrow> distinct (live (reql rs)))"

lemma live_append [simp]: "live (es @ fs) = live es @ live fs"
  by (induction es rule: live.induct) auto

lemma set_live: "m \<in> set (live es) \<longleftrightarrow> Some m \<in> set es"
  by (induction es rule: live.induct) auto

lemma searchMsgId_None: "searchMsgId es m = None \<longleftrightarrow> m \<notin> set (live es)"
  by (induction es rule: live.induct) auto

lemma searchMsgId_Some: "searchMsgId es m = Some i \<Longrightarrow> i < length es \<and> es ! i = Some m"
proof (induction es arbitrary: i)
  case (Cons e es)
  then show ?case by (auto split: if_splits)
qed simp

lemma live_remove: "i < length es \<Longrightarrow> es ! i = Some m \<Longrightarrow> distinct (live es) \<Longrightarrow>
    set (live (es[i := None])) = set (live es) - {m} \<and> distinct (live (es[i := None]))"
proof (induction es arbitrary: i)
  case (Cons e es)
  show ?case
  proof (cases i)
    case 0
    with Cons.prems show ?thesis by auto
  next
    case (Suc j)
    with Cons.IH [of j] Cons.prems show ?thesis
      using nth_mem [of j es] set_live [of m es] by (cases e) auto
  qed
qed simp

lemma storeMsgId_live:
  "live (reql (fst (storeMsgId rs m))) = (if m \<in> set (live (reql rs)) then live (reql rs) else live (reql rs) @ [m])
   \<and> rs_serv (fst (storeMsgId rs m)) = rs_serv rs"
  by (auto simp: storeMsgId_def searchMsgId_None Let_def)

lemma find_serv_name: "find_serv s rss = Some rs \<Longrightarrow> rs_serv rs = s"
  by (induction rss) (auto split: if_splits)

lemma find_serv_in: "find_serv s rss = Some rs \<Longrightarrow> rs \<in> set rss"
  by (induction rss) (auto split: if_splits)

lemma find_serv_None: "find_serv s rss = None \<longleftrightarrow> s \<notin> rs_serv ` set rss"
  by (induction rss) auto

lemma find_set_serv: "find_serv s rss \<noteq> None \<Longrightarrow> rs_serv r = s \<Longrightarrow> find_serv s (set_serv r rss) = Some r"
  by (induction rss) (auto split: if_splits)

lemma find_set_serv_other: "rs_serv r \<noteq> s \<Longrightarrow> find_serv s (set_serv r rss) = find_serv s rss"
  by (induction rss) auto

lemma read_requests_keeps:
  "read_requests ls r = Some r' \<Longrightarrow> rs_serv r' = rs_serv r \<and> (distinct (live (reql r)) \<longrightarrow> distinct (live (reql r')))"
proof (induction ls arbitrary: r)
  case (Cons l ls)
  then obtain line l1 q where h: "readLn l = Some line" "Utl_stripWhiteSpace [] line = Some (q, l1)"
    and r: "read_requests ls (if l1 \<noteq> [] then fst (storeMsgId r l1) else r) = Some r'"
    by (auto split: bind_splits)
  from Cons.IH [OF r] storeMsgId_live [of r l1] show ?case by (auto split: if_splits)
qed simp

lemma readRequestfile_keeps:
  "readRequestfile s st = Some rs \<Longrightarrow> rs_serv rs = s \<and> distinct (live (reql rs)) \<and> \<not> dirty rs"
  by (auto simp: readRequestfile_def newReqserv_def dest!: read_requests_keeps
      split: option.splits bind_splits)

lemma getReqserv_find:
  "getReqserv s st = Some (rs, st') \<Longrightarrow> find_serv s (reqserv st') = Some rs \<and> rs_serv rs = s \<and> files st' = files st"
  by (auto simp: getReqserv_def dest: find_serv_name readRequestfile_keeps
      split: option.splits bind_splits)

lemma getReqserv_cached: "find_serv s (reqserv st) = Some rs \<Longrightarrow> getReqserv s st = Some (rs, st)"
  by (simp add: getReqserv_def)

lemma req_inv_get:
  assumes "req_inv serv st"
  obtains rs st' where "getReqserv serv st = Some (rs, st')" "distinct (live (reql rs))"
    "find_serv serv (reqserv st') = Some rs" "rs_serv rs = serv" "req_set serv st = set (live (reql rs))"
  using assms getReqserv_find unfolding req_inv_def req_set_def by (auto split: option.splits)

lemma Req_add_set:
  assumes "req_inv serv st"
  shows "\<exists>st'. Req_add serv m st = Some (True, st') \<and> req_inv serv st'
    \<and> req_set serv st' = insert m (req_set serv st)"
proof -
  obtain rs st1 where g: "getReqserv serv st = Some (rs, st1)" "distinct (live (reql rs))"
    "find_serv serv (reqserv st1) = Some rs" "rs_serv rs = serv" "req_set serv st = set (live (reql rs))"
    by (rule req_inv_get [OF assms])
  obtain rs' moved where s: "storeMsgId rs m = (rs', moved)" by fastforce
  with storeMsgId_live [of rs m] g(4) have l: "live (reql rs') = (if m \<in> set (live (reql rs))
      then live (reql rs) else live (reql rs) @ [m])" "rs_serv rs' = serv" by simp_all
  from find_set_serv [of serv "reqserv st1" rs'] g(3) l(2)
  have f: "find_serv serv (set_serv rs' (reqserv st1)) = Some rs'" by simp
  obtain st2 where st2: "Req_add serv m st = Some (True, st2)" "reqserv st2 = set_serv rs' (reqserv st1)"
    using g(1) s by (simp add: Req_add_def)
  from getReqserv_cached [of serv st2 rs'] f st2(2) have "getReqserv serv st2 = Some (rs', st2)" by simp
  with st2(1) l(1) g(2,5) show ?thesis by (auto simp: req_inv_def req_set_def)
qed

lemma Req_remove_set:
  assumes "req_inv serv st"
  shows "\<exists>st'. Req_remove serv m st = Some st' \<and> req_inv serv st'
    \<and> req_set serv st' = req_set serv st - {m}"
proof -
  obtain rs st1 where g: "getReqserv serv st = Some (rs, st1)" "distinct (live (reql rs))"
    "find_serv serv (reqserv st1) = Some rs" "rs_serv rs = serv" "req_set serv st = set (live (reql rs))"
    by (rule req_inv_get [OF assms])
  show ?thesis
  proof (cases "searchMsgId (reql rs) m")
    case None
    then have "m \<notin> set (live (reql rs))" by (simp add: searchMsgId_None)
    moreover from getReqserv_cached [OF g(3)] have "getReqserv serv st1 = Some (rs, st1)" .
    ultimately show ?thesis using None g by (auto simp: Req_remove_def req_inv_def req_set_def)
  next
    case (Some i)
    let ?r = "rs\<lparr>reql := (reql rs)[i := None], dirty := True\<rparr>"
    note lr = live_remove [of i "reql rs" m] searchMsgId_Some [OF Some]
    from find_set_serv [of serv "reqserv st1" ?r] g(3,4)
    have f: "find_serv serv (set_serv ?r (reqserv st1)) = Some ?r" by simp
    obtain st2 where st2: "Req_remove serv m st = Some st2" "reqserv st2 = set_serv ?r (reqserv st1)"
      using g(1) Some by (simp add: Req_remove_def)
    from getReqserv_cached [of serv st2 ?r] f st2(2) have "getReqserv serv st2 = Some (?r, st2)" by simp
    with st2(1) lr g(2,5) show ?thesis by (auto simp: req_inv_def req_set_def)
  qed
qed

interpretation requests: keyset "\<lambda>st j. j \<in> req_set serv st" "\<lambda>k st. map_option snd (Req_add serv k st)"
    "Req_remove serv" "req_inv serv" "\<lambda>_. True" for serv
proof (unfold_locales, goal_cases)
  case (1 st k)
  with Req_add_set [of serv st k] show ?case by auto
next
  case (2 st k)
  with Req_remove_set [of serv st k] show ?case by auto
qed

lemma Req_contains_set:
  assumes "req_inv serv st"
  shows "map_option fst (Req_contains serv m st) = Some (m \<in> req_set serv st)"
proof -
  obtain rs st1 where g: "getReqserv serv st = Some (rs, st1)" "req_set serv st = set (live (reql rs))"
    by (rule req_inv_get [OF assms])
  then show ?thesis using searchMsgId_None [of "reql rs" m] by (cases "searchMsgId (reql rs) m") (auto simp: Req_contains_def)
qed

fun req_run :: "cstr \<Rightarrow> (bool \<times> cstr) list \<Rightarrow> req \<Rightarrow> req option" where
  "req_run serv [] st = Some st"
| "req_run serv ((True, m) # ops) st = do { (_, st') \<leftarrow> Req_add serv m st; req_run serv ops st' }"
| "req_run serv ((False, m) # ops) st = do { st' \<leftarrow> Req_remove serv m st; req_run serv ops st' }"

fun req_members :: "(bool \<times> cstr) list \<Rightarrow> cstr set \<Rightarrow> cstr set" where
  "req_members [] M = M"
| "req_members ((b, m) # ops) M = req_members ops (if b then insert m M else M - {m})"

lemma req_run_eq: "req_run serv ops st = requests.run serv ops st"
  by (induction serv ops st rule: req_run.induct) (auto split: bind_splits)

lemma req_members_eq: "req_members ops M = requests.members ops M"
  by (induction ops M rule: requests.members.induct) auto

text \<open>C37. After any sequence of \<open>Req_add\<close> and \<open>Req_remove\<close> for a server whose list can be read,
  \<open>Req_contains\<close> answers for exactly the messages that the sequence leaves in the set of requests.\<close>

theorem Req_is_set:
  "req_inv serv st \<Longrightarrow>
     \<exists>st'. req_run serv ops st = Some st' \<and> req_inv serv st'
       \<and> (\<forall>m. map_option fst (Req_contains serv m st') = Some (m \<in> req_members ops (req_set serv st)))"
proof -
  assume i: "req_inv serv st"
  have "list_all (\<lambda>(_, k). True) ops" by (auto simp: list_all_iff)
  from requests.run_members [OF i this] obtain st' where
    "requests.run serv ops st = Some st'" "req_inv serv st'"
    "{j. j \<in> req_set serv st'} = requests.members ops {j. j \<in> req_set serv st}" by blast
  with Req_contains_set [of serv st'] show ?thesis unfolding req_run_eq req_members_eq by simp
qed

definition no_requests :: req where
  "no_requests = \<lparr>reqserv = [], is_open = True, itr = None, it_valid = False, files = (\<lambda>_. None), no_mtime = 0\<rparr>"

theorem Req_is_set_witness:
  "\<exists>st'. req_run ''news'' [(True, ''<a@b>''), (True, ''<c@d>''), (False, ''<a@b>'')] no_requests = Some st'
     \<and> map_option fst (Req_contains ''news'' ''<a@b>'' st') = Some False
     \<and> map_option fst (Req_contains ''news'' ''<c@d>'' st') = Some True"
proof -
  have i: "req_inv ''news'' no_requests" and e: "req_set ''news'' no_requests = {}"
    by (simp_all add: req_inv_def req_set_def getReqserv_def readRequestfile_def no_requests_def newReqserv_def)
  let ?ops = "[(True, ''<a@b>''), (True, ''<c@d>''), (False, ''<a@b>'')]"
  have m: "req_members ?ops {} = {''<c@d>''}" by auto
  from Req_is_set [OF i, of ?ops] obtain st' where r: "req_run ''news'' ?ops no_requests = Some st'"
    and c: "\<forall>m. map_option fst (Req_contains ''news'' m st') = Some (m \<in> {''<c@d>''})"
    unfolding e m by blast
  from c [rule_format, of "''<a@b>''"] c [rule_format, of "''<c@d>''"] r show ?thesis
    by (intro exI [of _ st'] conjI) simp_all
qed

subsection \<open>The loop over the requests\<close>

definition req_step :: "req \<Rightarrow> (cstr \<times> req) option" where
  "req_step st = (case Req_next st of Some (Some m, st') \<Rightarrow> Some (m, st') | _ \<Rightarrow> None)"

text \<open>The messages that the iterator still has to return.\<close>

definition req_rest :: "req \<Rightarrow> cstr list" where
  "req_rest st =
     (case itr st of
        None \<Rightarrow> []
      | Some (serv, i, e) \<Rightarrow>
          (case find_serv serv (reqserv st) of
             None \<Rightarrow> []
           | Some rs \<Rightarrow> live (drop (nat (i + 1)) (take (nat e) (reql rs)))))"

definition itr_ok :: "req \<Rightarrow> bool" where
  "itr_ok st =
     (case itr st of
        None \<Rightarrow> True
      | Some (serv, i, e) \<Rightarrow> -1 \<le> i \<and> i < e \<and> it_valid st
          \<and> (case find_serv serv (reqserv st) of
               None \<Rightarrow> False
             | Some rs \<Rightarrow> e \<le> int (length (reql rs)) \<and> list_all (\<lambda>m. length m < MAXCHAR) (live (reql rs))))"

lemma skip_holes_None: "skip_holes i es = None \<longleftrightarrow> live es = []"
  by (induction i es rule: skip_holes.induct) auto

lemma skip_holes_Some:
  "skip_holes i es = Some (j, m) \<Longrightarrow>
     i \<le> j \<and> j < i + int (length es) \<and> live es = m # live (drop (nat (j + 1 - i)) es)"
proof (induction i es rule: skip_holes.induct)
  case (2 i es)
  then have h: "i + 1 \<le> j" "j < i + 1 + int (length es)" "live es = m # live (drop (nat (j + 1 - (i + 1))) es)"
    by auto
  then have "nat (j + 1 - i) = Suc (nat (j + 1 - (i + 1)))" by simp
  with h show ?case by simp
qed auto

lemma req_step_item:
  assumes "itr_ok st" "req_step st = Some (m, st')"
  shows "req_rest st = m # req_rest st' \<and> itr_ok st'"
proof -
  from assms(2) obtain serv i e where it: "itr st = Some (serv, i, e)"
    by (auto simp: req_step_def Req_next_def split: option.splits)
  with assms(1) obtain rs where f: "find_serv serv (reqserv st) = Some rs" and ie: "-1 \<le> i" "i < e" "it_valid st"
    "e \<le> int (length (reql rs))" "list_all (\<lambda>m. length m < MAXCHAR) (live (reql rs))"
    by (auto simp: itr_ok_def split: option.splits)
  let ?es = "drop (nat (i + 1)) (take (nat e) (reql rs))"
  from assms(2) it f ie obtain j where sk: "skip_holes (i + 1) ?es = Some (j, m)"
    and st': "st' = st\<lparr>itr := Some (serv, j, e)\<rparr>"
    by (auto simp: req_step_def Req_next_def Utl_cpyStr_def split: option.splits bind_splits dest: arg_cong [where f = Some])
       (auto simp: strncat_def split: if_splits dest: skip_holes_Some)
  from skip_holes_Some [OF sk] have j: "i + 1 \<le> j" "j < e" and
    l: "live ?es = m # live (drop (nat (j + 1 - (i + 1))) ?es)" using ie by auto
  have "nat (j + 1 - (i + 1)) + nat (i + 1) = nat (j + 1)" using ie j by simp
  with l have "live ?es = m # live (drop (nat (j + 1)) (take (nat e) (reql rs)))" by simp
  with it f st' ie j show ?thesis by (simp add: req_rest_def itr_ok_def)
qed

lemma req_step_end:
  assumes "itr_ok st" "req_step st = None"
  shows "req_rest st = []"
proof (cases "itr st")
  case (Some t)
  then obtain serv i e where it: "itr st = Some (serv, i, e)" by (cases t) auto
  with assms(1) obtain rs where f: "find_serv serv (reqserv st) = Some rs" and ie: "-1 \<le> i" "i < e" "it_valid st"
    "e \<le> int (length (reql rs))" "list_all (\<lambda>m. length m < MAXCHAR) (live (reql rs))"
    by (auto simp: itr_ok_def split: option.splits)
  let ?es = "drop (nat (i + 1)) (take (nat e) (reql rs))"
  have sub: "set (live ?es) \<subseteq> set (live (reql rs))"
    by (rule subsetI) (simp only: set_live, blast dest: in_set_dropD in_set_takeD)
  show ?thesis
  proof (cases "skip_holes (i + 1) ?es")
    case None
    then show ?thesis using it f by (simp add: req_rest_def skip_holes_None)
  next
    case (Some p)
    then obtain j m where sk: "skip_holes (i + 1) ?es = Some (j, m)" by (cases p) auto
    from skip_holes_Some [OF sk] have "m \<in> set (live ?es)" by simp
    with sub ie(5) have "length m < MAXCHAR" by (auto simp: list_all_iff)
    with assms(2) it f ie sk show ?thesis by (simp add: req_step_def Req_next_def Utl_cpyStr_eq)
  qed
qed (simp add: req_rest_def)

interpretation request_list: cursor req_step req_rest itr_ok
  by unfold_locales (blast dest: req_step_end req_step_item)+

text \<open>The messages that the loop \<open>for (b = Req_first(serv, m); b; b = Req_next(m))\<close> sees.\<close>

definition req_loop :: "cstr \<Rightarrow> nat \<Rightarrow> req \<Rightarrow> cstr list option" where
  "req_loop serv n st =
     (case Req_first serv st of
        None \<Rightarrow> None
      | Some (None, _) \<Rightarrow> Some []
      | Some (Some m, st') \<Rightarrow> Some (m # drain req_step n st'))"

text \<open>C38. A loop over \<open>Req_first\<close> and \<open>Req_next\<close> sees exactly the requests of the server, each once
  and in the order in which they were added; holes left by \<open>Req_remove\<close> are skipped.\<close>

theorem Req_first_next_enumerate:
  assumes "find_serv serv (reqserv st) = Some rs" "length (reql rs) \<le> reql_capacity rs"
    "list_all (\<lambda>m. length m < MAXCHAR) (live (reql rs))" "length (live (reql rs)) \<le> n"
  shows "req_loop serv n st = Some (live (reql rs))"
proof (cases "reql_capacity rs = 0 \<or> reql rs = []")
  case True
  with assms getReqserv_cached [OF assms(1)] show ?thesis
    by (auto simp: req_loop_def Req_first_def Req_next_def)
next
  case False
  let ?st = "st\<lparr>itr := Some (serv, -1, int (length (reql rs))), it_valid := True\<rparr>"
  have ok: "itr_ok ?st" and rest: "req_rest ?st = live (reql rs)"
    using assms False by (auto simp: itr_ok_def req_rest_def)
  have F: "Req_first serv st = Req_next ?st"
    using False getReqserv_cached [OF assms(1)] by (simp add: Req_first_def)
  have d: "drain req_step (Suc n) ?st = live (reql rs)"
    using request_list.drain_rest [OF ok, of "Suc n"] assms(4) rest by simp
  show ?thesis
  proof (cases "live (reql rs)")
    case Nil
    then show ?thesis using F assms(1) False
      by (simp add: req_loop_def Req_next_def skip_holes_None [THEN iffD2])
  next
    case (Cons m ms)
    then have "req_step ?st \<noteq> None" using request_list.nxt_None_iff [OF ok] rest by simp
    then obtain x st' where st': "req_step ?st = Some (x, st')" by auto
    then have "Req_next ?st = Some (Some x, st')" by (auto simp: req_step_def split: option.splits)
    with F d st' show ?thesis by (simp add: req_loop_def)
  qed
qed

theorem Req_first_next_enumerate_witness:
  "req_loop ''news'' 5 (no_requests\<lparr>reqserv := [\<lparr>rs_serv = ''news'',
      reql = [Some ''<a@b>'', None, Some ''<c@d>''], reql_capacity = 10, dirty = True, mtime = 0\<rparr>]\<rparr>)
     = Some [''<a@b>'', ''<c@d>'']"
proof -
  let ?rs = "\<lparr>rs_serv = ''news'', reql = [Some ''<a@b>'', None, Some ''<c@d>''],
    reql_capacity = 10, dirty = True, mtime = 0\<rparr>"
  have "find_serv ''news'' (reqserv (no_requests\<lparr>reqserv := [?rs]\<rparr>)) = Some ?rs" by simp
  from Req_first_next_enumerate [OF this, of 5] show ?thesis by (simp add: MAXCHAR_def)
qed

subsection \<open>Written and read back\<close>

definition msg_ok :: "cstr \<Rightarrow> bool" where
  "msg_ok m \<longleftrightarrow> file_line m \<and> m \<noteq> [] \<and> \<not> cisspace (hd m) \<and> \<not> cisspace (last m)"

lemma strip_msg: "msg_ok m \<Longrightarrow> Utl_stripWhiteSpace [] m = Some ([], m)"
proof -
  assume m: "msg_ok m"
  then have ne: "m \<noteq> []" "\<not> cisspace (hd m)" "\<not> cisspace (last m)" by (auto simp: msg_ok_def)
  have "dropWhile cisspace m = m" using ne dropWhile_spaces [of "[]" m] by simp
  moreover have "dropWhile cisspace (rev m) = rev m" using ne dropWhile_spaces [of "[]" "rev m"] by (simp add: hd_rev)
  ultimately have "strip m = m" by (simp add: strip_def)
  moreover have "\<not> blank m" using ne by (cases m) (auto simp: blank_def)
  ultimately show ?thesis using Utl_stripWhiteSpace_strip [of m "[]"] m by (simp add: msg_ok_def file_line_def)
qed

lemma request_text_of: "request_text es = text_of (live es)"
  by (induction es rule: live.induct) (auto simp: request_text_def)

lemma read_requests_lines:
  "list_all msg_ok ms \<Longrightarrow> distinct (live (reql r) @ ms) \<Longrightarrow>
     \<exists>r'. read_requests (map (\<lambda>l. l @ [LF]) ms) r = Some r' \<and> live (reql r') = live (reql r) @ ms"
proof (induction ms arbitrary: r)
  case (Cons m ms)
  then have m: "msg_ok m" "m \<notin> set (live (reql r))" by auto
  let ?r = "fst (storeMsgId r m)"
  have l: "live (reql ?r) = live (reql r) @ [m]" using storeMsgId_live [of r m] m(2) by simp
  from Cons.IH [of ?r] Cons.prems l obtain r' where
    "read_requests (map (\<lambda>l. l @ [LF]) ms) ?r = Some r'" "live (reql r') = live (reql r) @ m # ms" by auto
  moreover have "readLn (m @ [LF]) = Some m" by (simp add: readLn_def)
  moreover have "m \<noteq> []" using m(1) by (simp add: msg_ok_def)
  ultimately show ?case using strip_msg [OF m(1)] by simp
qed simp

lemma close_loop_files:
  "distinct (map rs_serv rss) \<Longrightarrow> close_loop opened now rss st = (rss', st') \<Longrightarrow>
     files st' s = (case find_serv s rss of
         None \<Rightarrow> files st s
       | Some rs \<Rightarrow> if dirty rs \<and> opened s
                    then Some \<lparr>f_text = request_text (reql rs), f_mtime = now\<rparr> else files st s)"
proof (induction rss arbitrary: st rss' st')
  case (Cons rs rss)
  define w where "w \<longleftrightarrow> dirty rs \<and> opened (rs_serv rs)"
  define st0 where "st0 = (if w then st\<lparr>files := (files st)(rs_serv rs :=
      Some \<lparr>f_text = request_text (reql rs), f_mtime = now\<rparr>)\<rparr> else st)"
  from Cons.prems(2) obtain rss'' where "close_loop opened now rss st0 = (rss'', st')"
    by (auto simp: writeRequestfile_def Let_def st0_def w_def split: prod.splits if_splits)
  with Cons.IH [of st0 rss''] Cons.prems(1) have
    IH: "files st' s = (case find_serv s rss of None \<Rightarrow> files st0 s
       | Some rs \<Rightarrow> if dirty rs \<and> opened s
                    then Some \<lparr>f_text = request_text (reql rs), f_mtime = now\<rparr> else files st0 s)"
    by simp
  show ?case
  proof (cases "s = rs_serv rs")
    case True
    with Cons.prems(1) have "find_serv s rss = None" by (simp add: find_serv_None)
    with IH True show ?thesis by (simp add: st0_def w_def)
  next
    case False
    then have "files st0 s = files st s" by (simp add: st0_def)
    with IH False show ?thesis by (cases "find_serv s rss") simp_all
  qed
qed simp

text \<open>C39. What \<open>Req_close\<close> writes for a changed list is what a new process reads: the same messages
  in the same order, when they fit on a line and have no white space at their ends.\<close>

theorem Req_close_read:
  assumes "distinct (map rs_serv (reqserv st))" "find_serv serv (reqserv st) = Some rs" "dirty rs"
    "opened serv" "distinct (live (reql rs))" "list_all msg_ok (live (reql rs))"
  shows "\<exists>rs'. readRequestfile serv ((Req_close opened now st)\<lparr>reqserv := []\<rparr>) = Some rs'
    \<and> live (reql rs') = live (reql rs) \<and> \<not> dirty rs'"
proof -
  obtain rss st' where c: "close_loop opened now (reqserv st) st = (rss, st')" by fastforce
  from close_loop_files [OF assms(1) c, of serv] assms(2-4) have
    f: "files st' serv = Some \<lparr>f_text = request_text (reql rs), f_mtime = now\<rparr>" by simp
  have "list_all file_line (live (reql rs))" using assms(6) by (auto simp: list_all_iff msg_ok_def)
  from fgets_all_text_of [OF this] have
    g: "fgets_all (request_text (reql rs)) = map (\<lambda>l. l @ [LF]) (live (reql rs))"
    by (simp add: request_text_of)
  from read_requests_lines [OF assms(6), of "newReqserv serv"] assms(5) obtain r' where
    "read_requests (map (\<lambda>l. l @ [LF]) (live (reql rs))) (newReqserv serv) = Some r'"
    "live (reql r') = live (reql rs)" by (auto simp: newReqserv_def)
  with f g c show ?thesis by (simp add: readRequestfile_def Req_close_def)
qed

theorem Req_close_read_witness:
  "\<exists>rs'. readRequestfile ''news'' ((Req_close (\<lambda>_. True) 7 (no_requests\<lparr>reqserv := [\<lparr>rs_serv = ''news'',
      reql = [Some ''<a@b>'', None, Some ''<c@d>''], reql_capacity = 10, dirty = True, mtime = 0\<rparr>]\<rparr>))\<lparr>reqserv := []\<rparr>)
     = Some rs' \<and> live (reql rs') = [''<a@b>'', ''<c@d>'']"
proof -
  let ?rs = "\<lparr>rs_serv = ''news'', reql = [Some ''<a@b>'', None, Some ''<c@d>''],
    reql_capacity = 10, dirty = True, mtime = 0\<rparr>"
  let ?st = "no_requests\<lparr>reqserv := [?rs]\<rparr>"
  have h: "distinct (map rs_serv (reqserv ?st))" "find_serv ''news'' (reqserv ?st) = Some ?rs" "dirty ?rs"
    "(\<lambda>_. True) ''news''" "distinct (live (reql ?rs))" by simp_all
  have "list_all msg_ok (live (reql ?rs))" by (simp add: msg_ok_def file_line_def cisspace_def MAXCHAR_def)
  from Req_close_read [OF h this, of 7] show ?thesis by auto
qed

subsection \<open>Outdated lists\<close>

fun adjacent :: "('a \<Rightarrow> bool) \<Rightarrow> 'a list \<Rightarrow> bool" where
  "adjacent P (x # y # xs) \<longleftrightarrow> (P x \<and> P y) \<or> adjacent P (y # xs)"
| "adjacent P _ \<longleftrightarrow> False"

lemma cleanup_loop_result:
  "cleanup_loop stale kept pf rss =
     (if (pf \<and> rss \<noteq> [] \<and> stale (hd rss)) \<or> adjacent stale rss then None
      else Some (kept @ [rs \<leftarrow> rss. \<not> stale rs]))"
proof (induction rss arbitrary: kept pf)
  case (Cons rs rss)
  then show ?case by (cases rss) auto
qed simp

text \<open>\<open>Req_open\<close> drops exactly the lists whose files have changed and keeps the others in order,
  unless two such lists are neighbours: then it stores through a pointer to freed memory.\<close>

theorem Req_open_drops_outdated:
  "map_option reqserv (Req_open st) =
     (if adjacent (\<lambda>rs. get_mtime st (rs_serv rs) \<noteq> mtime rs) (reqserv st) then None
      else Some [rs \<leftarrow> reqserv st. get_mtime st (rs_serv rs) = mtime rs])"
  by (simp add: Req_open_def cleanupReqserv_def cleanup_loop_result)

text \<open>A list read from a file has the time 0, so two such lists next to each other are enough.\<close>

lemma readRequestfile_mtime:
  "files st s = Some f \<Longrightarrow> readRequestfile s st = Some rs \<Longrightarrow> mtime rs = 0"
proof -
  have "mtime r' = mtime r" if "read_requests ls r = Some r'" for ls r r'
    using that
  proof (induction ls arbitrary: r)
    case (Cons l ls)
    then show ?case
      by (auto simp: storeMsgId_def Let_def split: bind_splits if_splits)
  qed simp
  then show "files st s = Some f \<Longrightarrow> readRequestfile s st = Some rs \<Longrightarrow> mtime rs = 0"
    by (auto simp: readRequestfile_def newReqserv_def split: bind_splits)
qed

lemma Req_open_read_twice:
  assumes "reqserv st = []" "files st a = Some fa" "files st b = Some fb" "f_mtime fa \<noteq> 0" "f_mtime fb \<noteq> 0"
    "a \<noteq> b" "getReqserv a st = Some (ra, st1)" "getReqserv b st1 = Some (rb, st2)"
  shows "Req_open st2 = None"
proof -
  from assms(1,7) have a: "readRequestfile a st = Some ra" "st1 = st\<lparr>reqserv := [ra]\<rparr>"
    by (auto simp: getReqserv_def split: bind_splits)
  from a readRequestfile_keeps [OF a(1)] assms(6,8) have
    b: "readRequestfile b st1 = Some rb" "st2 = st1\<lparr>reqserv := [rb, ra]\<rparr>"
    by (auto simp: getReqserv_def split: bind_splits)
  note n = readRequestfile_keeps [OF a(1)] readRequestfile_keeps [OF b(1)]
  from readRequestfile_mtime [of st a fa ra] readRequestfile_mtime [of st1 b fb rb] a b assms(2,3)
  have "mtime ra = 0" "mtime rb = 0" by simp_all
  with n a b assms(2-5) show ?thesis
    by (simp add: Req_open_def cleanupReqserv_def cleanup_loop_result get_mtime_def)
qed

end
