(* ===== verification/Configfile.thy ===== *)
theory Configfile
  imports Overview
begin

text \<open>
  The configuration, \<^verbatim>\<open>noffle-1.0.1/src/configfile.c\<close>: the options with their defaults, the reader of
  the configuration file, the list of servers with its order of preference and the list of expiry
  patterns, both with the cursor of their enumeration.

  A \<open>Bool\<close> is an \<open>int\<close>; the two lists are HOL lists beside the capacity of their arrays.  Messages to
  the log are dropped, so an erroneous line is one that leaves the options alone.  \<open>None\<close> is an
  integer that does not fit its type, an unwritten string, or the memory before the line buffer,
  which \<open>Utl_stripWhiteSpace\<close> reads on a blank line; \<open>pre\<close> is what stands there.
\<close>

record ServEntry =
  sv_name :: cstr
  sv_user :: cstr
  sv_pass :: cstr

record ExpireEntry =
  ex_pattern :: cstr
  ex_days :: int

record config =
  spoolDir :: cstr
  version :: cstr
  maxFetch :: int
  autoUnsubscribeDays :: int
  threadFollowTime :: int
  connectTimeout :: int
  autoSubscribe :: int
  autoUnsubscribe :: int
  infoAlways :: int
  removeMsgId :: int
  replaceMsgId :: int
  autoSubscribeMode :: cstr
  mailTo :: cstr
  defaultExpire :: int
  maxServ :: nat
  serv :: "ServEntry list"
  servIdx :: nat
  maxExpire :: nat
  expire :: "ExpireEntry list"
  expireIdx :: nat

definition config_init :: "cstr \<Rightarrow> cstr \<Rightarrow> config" where
  "config_init sd ver = \<lparr>spoolDir = sd, version = ver, maxFetch = 300, autoUnsubscribeDays = 30,
     threadFollowTime = 7, connectTimeout = 30, autoSubscribe = 0, autoUnsubscribe = 0, infoAlways = 1,
     removeMsgId = 0, replaceMsgId = 1, autoSubscribeMode = ''over'', mailTo = [], defaultExpire = 14,
     maxServ = 0, serv = [], servIdx = 0, maxExpire = 0, expire = [], expireIdx = 0\<rparr>"

subsection \<open>Servers and expiry patterns\<close>

definition Cfg_beginServEnum :: "config \<Rightarrow> config" where
  "Cfg_beginServEnum c = c\<lparr>servIdx := 0\<rparr>"

definition Cfg_nextServ :: "config \<Rightarrow> (cstr \<times> config) option" where
  "Cfg_nextServ c =
     (if servIdx c \<ge> length (serv c) then None
      else Some (sv_name (serv c ! servIdx c), c\<lparr>servIdx := servIdx c + 1\<rparr>))"

fun search_loop :: "cstr \<Rightarrow> ServEntry list \<Rightarrow> nat option" where
  "search_loop name [] = None"
| "search_loop name (e # es) = (if name = sv_name e then Some 0 else map_option Suc (search_loop name es))"

definition searchServ :: "config \<Rightarrow> cstr \<Rightarrow> nat option" where
  "searchServ c name = search_loop name (serv c)"

definition Cfg_servListContains :: "config \<Rightarrow> cstr \<Rightarrow> bool" where
  "Cfg_servListContains c name = (searchServ c name \<noteq> None)"

definition Cfg_servIsPreferential :: "config \<Rightarrow> cstr \<Rightarrow> cstr \<Rightarrow> bool" where
  "Cfg_servIsPreferential c name1 name2 =
     (case searchServ c name1 of
        Some idx1 \<Rightarrow> (case searchServ c name2 of Some idx2 \<Rightarrow> idx1 < idx2 | None \<Rightarrow> True)
      | None \<Rightarrow> False)"

definition Cfg_authInfo :: "config \<Rightarrow> cstr \<Rightarrow> cstr \<times> cstr" where
  "Cfg_authInfo c name =
     (case searchServ c name of
        Some idx \<Rightarrow> (sv_user (serv c ! idx), sv_pass (serv c ! idx))
      | None \<Rightarrow> ([], []))"

definition Cfg_beginExpireEnum :: "config \<Rightarrow> config" where
  "Cfg_beginExpireEnum c = c\<lparr>expireIdx := 0\<rparr>"

text \<open>The days, and the pattern when one was stored.\<close>

definition Cfg_nextExpire :: "config \<Rightarrow> int \<times> (cstr option \<times> config)" where
  "Cfg_nextExpire c =
     (if expireIdx c \<ge> length (expire c) then (-1, (None, c))
      else (ex_days (expire c ! expireIdx c),
            (Some (ex_pattern (expire c ! expireIdx c)), c\<lparr>expireIdx := expireIdx c + 1\<rparr>)))"

subsection \<open>Reading the file\<close>

definition getBool :: "cstr \<Rightarrow> int \<Rightarrow> int" where
  "getBool line variable =
     (case scan_n 2 (Utl_toLower line) of
        [name, val] \<Rightarrow> if val = ''yes'' then 1 else if val = ''no'' then 0 else variable
      | _ \<Rightarrow> variable)"

definition getInt :: "int \<Rightarrow> int \<Rightarrow> cstr \<Rightarrow> int \<Rightarrow> int option" where
  "getInt mn mx line variable =
     (case scan_s line of
        None \<Rightarrow> Some variable
      | Some (name, r) \<Rightarrow>
          (case scan_d r of
             None \<Rightarrow> Some variable
           | Some (val, _) \<Rightarrow> do { _ \<leftarrow> as_int32 val; Some (if val < mn \<or> val > mx then variable else val) }))"

definition getStr :: "cstr \<Rightarrow> cstr option \<Rightarrow> cstr option" where
  "getStr line variable = (case scan_n 2 line of [dummy, v] \<Rightarrow> Some v | _ \<Rightarrow> variable)"

definition nth_word :: "cstr list \<Rightarrow> nat \<Rightarrow> cstr" where
  "nth_word ws i = (if i < length ws then ws ! i else [])"

definition getServ :: "cstr \<Rightarrow> config \<Rightarrow> config" where
  "getServ line c =
     (let ws = scan_n 4 line in
      if length ws < 2 then c
      else
        let n0 = ws ! 1; len = length n0;
            n1 = (if len > 4 \<and> drop (len - 4) n0 = '':119'' then take (len - 4) n0 else n0);
            entry = \<lparr>sv_name = Utl_toLower n1, sv_user = nth_word ws 2, sv_pass = nth_word ws 3\<rparr>
        in c\<lparr>maxServ := (if maxServ c < length (serv c) + 1 then maxServ c + 5 else maxServ c),
             serv := serv c @ [entry]\<rparr>)"

definition getExpire :: "cstr \<Rightarrow> config \<Rightarrow> config option" where
  "getExpire line c =
     (case scan_s line of
        None \<Rightarrow> Some c
      | Some (dummy, r) \<Rightarrow>
          (case scan_s r of
             None \<Rightarrow> Some c
           | Some (pat, r') \<Rightarrow>
               (case scan_d r' of
                  None \<Rightarrow> Some c
                | Some (days, _) \<Rightarrow>
                    do { _ \<leftarrow> as_int32 days;
                         Some (if days < 0 then c
                           else c\<lparr>maxExpire := (if maxExpire c < length (expire c) + 1 then maxExpire c + 5
                                               else maxExpire c),
                                  expire := expire c @ [\<lparr>ex_pattern = Utl_toLower pat, ex_days = days\<rparr>]\<rparr>) })))"

text \<open>One option.  The result is the local string \<open>s\<close> with the new options, or the options with which
  \<open>Cfg_read\<close> returns in the middle of the file.\<close>

definition cfg_option :: "cstr \<Rightarrow> cstr \<Rightarrow> cstr \<Rightarrow> cstr option \<Rightarrow> config \<Rightarrow> ((cstr option \<times> config) + config) option" where
  "cfg_option name p line s c =
     (if name = ''max-fetch'' then
        do { v \<leftarrow> getInt 0 INT_MAX p (maxFetch c); Some (Inl (s, c\<lparr>maxFetch := v\<rparr>)) }
      else if name = ''auto-unsubscribe-days'' then
        do { v \<leftarrow> getInt (-1) INT_MAX p (autoUnsubscribe c); Some (Inl (s, c\<lparr>autoUnsubscribe := v\<rparr>)) }
      else if name = ''thread-follow-time'' then
        do { v \<leftarrow> getInt 0 INT_MAX p (threadFollowTime c); Some (Inl (s, c\<lparr>threadFollowTime := v\<rparr>)) }
      else if name = ''connect-timeout'' then
        do { v \<leftarrow> getInt 0 INT_MAX p (connectTimeout c); Some (Inl (s, c\<lparr>connectTimeout := v\<rparr>)) }
      else if name = ''default-expire'' then
        do { v \<leftarrow> getInt 0 INT_MAX p (defaultExpire c); Some (Inl (s, c\<lparr>defaultExpire := v\<rparr>)) }
      else if name = ''auto-subscribe'' then Some (Inl (s, c\<lparr>autoSubscribe := getBool p (autoSubscribe c)\<rparr>))
      else if name = ''auto-unsubscribe'' then Some (Inl (s, c\<lparr>autoUnsubscribe := getBool p (autoUnsubscribe c)\<rparr>))
      else if name = ''info-always-unread'' then Some (Inl (s, c\<lparr>infoAlways := getBool p (infoAlways c)\<rparr>))
      else if name = ''remove-messageid'' then Some (Inl (s, c\<lparr>removeMsgId := getBool p (removeMsgId c)\<rparr>))
      else if name = ''replace-messageid'' then Some (Inl (s, c\<lparr>replaceMsgId := getBool p (replaceMsgId c)\<rparr>))
      else if name = ''auto-subscribe-mode'' then
        do { s1 \<leftarrow> getStr p s;
             let s2 = Utl_toLower s1;
             Some (if s2 \<noteq> ''full'' \<and> s2 \<noteq> ''thread'' \<and> s2 \<noteq> ''over'' \<and> s2 \<noteq> ''off'' then Inr c
                   else Inl (Some s2, c\<lparr>autoSubscribeMode := s2\<rparr>)) }
      else if name = ''server'' then Some (Inl (s, getServ line c))
      else if name = ''mail-to'' then
        do { v \<leftarrow> getStr p (Some (mailTo c)); Some (Inl (s, c\<lparr>mailTo := v\<rparr>)) }
      else if name = ''expire'' then do { c' \<leftarrow> getExpire p c; Some (Inl (s, c')) }
      else Some (Inl (s, c)))"

text \<open>The loop over the lines; the flag says whether it reached the end of the file.\<close>

fun cfg_loop :: "cstr \<Rightarrow> cstr option \<Rightarrow> cstr list \<Rightarrow> config \<Rightarrow> (bool \<times> config) option" where
  "cfg_loop pre s [] c = Some (True, c)"
| "cfg_loop pre s (line # ls) c =
     do { (pre', p0) \<leftarrow> Utl_stripWhiteSpace pre line;
          let p = Utl_stripComment p0;
          lowerLine \<leftarrow> Utl_cpyStr p;
          if p = [] then cfg_loop pre' s ls c
          else case scan_s p of
                 None \<Rightarrow> cfg_loop pre' s ls c
               | Some (name, _) \<Rightarrow>
                   do { r \<leftarrow> cfg_option name p (takeWhile cisspace line @ p) s c;
                        case r of
                          Inr c' \<Rightarrow> Some (False, c')
                        | Inl (s', c') \<Rightarrow> cfg_loop pre' s' ls c' } }"

datatype cfg_result = Cfg_done config | Cfg_exit

definition Cfg_read :: "cstr \<Rightarrow> cstr option \<Rightarrow> config \<Rightarrow> cfg_result option" where
  "Cfg_read pre fil c =
     (case fil of
        None \<Rightarrow> Some (Cfg_done c)
      | Some t \<Rightarrow>
          do { (ended, c') \<leftarrow> cfg_loop pre None (fgets_all t) c;
               Some (if ended \<and> serv c' = [] then Cfg_exit else Cfg_done c') })"

subsection \<open>The order of the servers\<close>

abbreviation servers :: "config \<Rightarrow> cstr list" where
  "servers c \<equiv> map sv_name (serv c)"

interpretation servers: cursor Cfg_nextServ "\<lambda>c. map sv_name (drop (servIdx c) (serv c))" "\<lambda>_. True"
  by unfold_locales (auto simp: Cfg_nextServ_def Cons_nth_drop_Suc [symmetric] split: if_splits)

definition expire_step :: "config \<Rightarrow> ((cstr \<times> int) \<times> config) option" where
  "expire_step c =
     (case Cfg_nextExpire c of
        (days, (pat, c')) \<Rightarrow> if days = -1 then None else map_option (\<lambda>p. ((p, days), c')) pat)"

interpretation expiries: cursor expire_step
    "\<lambda>c. map (\<lambda>e. (ex_pattern e, ex_days e)) (drop (expireIdx c) (expire c))"
    "\<lambda>c. \<forall>e \<in> set (expire c). 0 \<le> ex_days e"
proof (unfold_locales, goal_cases)
  case (1 c)
  then show ?case by (auto simp: expire_step_def Cfg_nextExpire_def split: if_splits)
      (metis in_set_conv_nth linorder_not_less neg_0_le_iff_le not_one_le_zero)
next
  case (2 c x c')
  then show ?case
    by (auto simp: expire_step_def Cfg_nextExpire_def Cons_nth_drop_Suc [symmetric] split: if_splits)
qed

lemma search_loop_Some:
  "search_loop a es = Some i \<longleftrightarrow> i < length es \<and> sv_name (es ! i) = a \<and> (\<forall>j < i. sv_name (es ! j) \<noteq> a)"
proof (induction es arbitrary: i)
  case (Cons e es)
  then show ?case by (cases i) (auto simp: nth_Cons split: nat.splits)
qed simp

lemma search_loop_None: "search_loop a es = None \<longleftrightarrow> a \<notin> sv_name ` set es"
  by (induction es) auto

lemma search_loop_split:
  "(case search_loop a es of
      Some i \<Rightarrow> (case search_loop b es of Some j \<Rightarrow> i < j | None \<Rightarrow> True) | None \<Rightarrow> False)
   \<longleftrightarrow> (\<exists>us v vs. es = us @ v # vs \<and> sv_name v = a \<and> a \<notin> sv_name ` set us \<and> b \<notin> sv_name ` set (us @ [v]))"
  (is "?L es \<longleftrightarrow> ?R es")
proof (induction es)
  case (Cons e es)
  show ?case
  proof (cases "sv_name e = a")
    case True
    have "?R (e # es) \<longleftrightarrow> b \<noteq> a"
    proof
      assume "?R (e # es)"
      then obtain us v vs where "e # es = us @ v # vs" "sv_name v = a" "a \<notin> sv_name ` set us"
        "b \<notin> sv_name ` set (us @ [v])" by blast
      then show "b \<noteq> a" by auto
    next
      assume "b \<noteq> a"
      with True show "?R (e # es)" by (intro exI [of _ "[]"]) auto
    qed
    with True show ?thesis by (cases "b = a"; cases "search_loop b es") auto
  next
    case False
    have "?R (e # es) \<longleftrightarrow> sv_name e \<noteq> b \<and> ?R es"
    proof
      assume "?R (e # es)"
      then obtain us v vs where h: "e # es = us @ v # vs" "sv_name v = a" "a \<notin> sv_name ` set us"
        "b \<notin> sv_name ` set (us @ [v])" by blast
      with False obtain us' where us: "us = e # us'" by (cases us) auto
      with h show "sv_name e \<noteq> b \<and> ?R es" by (intro conjI exI [of _ us']) auto
    next
      assume r: "sv_name e \<noteq> b \<and> ?R es"
      then obtain us v vs where "es = us @ v # vs" "sv_name v = a" "a \<notin> sv_name ` set us"
        "b \<notin> sv_name ` set (us @ [v])" by blast
      with r False show "?R (e # es)" by (intro exI [of _ "e # us"]) auto
    qed
    with False Cons show ?thesis by (cases "search_loop a es"; cases "search_loop b es") auto
  qed
qed simp

text \<open>The loop over \<open>Cfg_nextServ\<close> sees the servers in the order of the file; a server is preferred
  to another name exactly when it comes up in that loop before any entry of the other name; and
  \<open>Cfg_authInfo\<close> answers from the first entry of the server.\<close>

theorem Cfg_servers_in_order:
  "drain Cfg_nextServ (length (serv c)) (Cfg_beginServEnum c) = servers c
   \<and> (Cfg_servIsPreferential c a b \<longleftrightarrow>
        (\<exists>us v vs. serv c = us @ v # vs \<and> sv_name v = a \<and> a \<notin> sv_name ` set us \<and> b \<notin> sv_name ` set (us @ [v])))
   \<and> Cfg_authInfo c a = (case find (\<lambda>e. sv_name e = a) (serv c) of None \<Rightarrow> ([], []) | Some e \<Rightarrow> (sv_user e, sv_pass e))"
proof (intro conjI)
  show "drain Cfg_nextServ (length (serv c)) (Cfg_beginServEnum c) = servers c"
    using servers.drain_rest [of "Cfg_beginServEnum c" "length (serv c)"] by (simp add: Cfg_beginServEnum_def)
  show "Cfg_servIsPreferential c a b \<longleftrightarrow>
     (\<exists>us v vs. serv c = us @ v # vs \<and> sv_name v = a \<and> a \<notin> sv_name ` set us \<and> b \<notin> sv_name ` set (us @ [v]))"
    unfolding search_loop_split [symmetric] Cfg_servIsPreferential_def searchServ_def ..
  have "(case search_loop a es of Some i \<Rightarrow> (sv_user (es ! i), sv_pass (es ! i)) | None \<Rightarrow> ([], []))
      = (case find (\<lambda>e. sv_name e = a) es of None \<Rightarrow> ([], []) | Some e \<Rightarrow> (sv_user e, sv_pass e))" for es
    by (induction es) (auto split: option.splits)
  then show "Cfg_authInfo c a = (case find (\<lambda>e. sv_name e = a) (serv c) of
      None \<Rightarrow> ([], []) | Some e \<Rightarrow> (sv_user e, sv_pass e))"
    by (simp add: Cfg_authInfo_def searchServ_def)
qed

subsection \<open>Whatever the file says\<close>

definition modes :: "cstr set" where
  "modes = {''full'', ''thread'', ''over'', ''off''}"

text \<open>The documented ranges of all options but the switch \<open>autoUnsubscribe\<close>.\<close>

definition cfg_inv :: "config \<Rightarrow> bool" where
  "cfg_inv c \<longleftrightarrow>
     (\<forall>v \<in> {maxFetch c, threadFollowTime c, connectTimeout c, defaultExpire c}. 0 \<le> v \<and> v \<le> INT_MAX)
     \<and> -1 \<le> autoUnsubscribeDays c \<and> autoUnsubscribeDays c \<le> INT_MAX
     \<and> {autoSubscribe c, infoAlways c, removeMsgId c, replaceMsgId c} \<subseteq> {0, 1}
     \<and> autoSubscribeMode c \<in> modes
     \<and> (\<forall>e \<in> set (expire c). 0 \<le> ex_days e \<and> Utl_toLower (ex_pattern e) = ex_pattern e)
     \<and> (\<forall>e \<in> set (serv c). Utl_toLower (sv_name e) = sv_name e)
     \<and> length (serv c) \<le> maxServ c \<and> length (expire c) \<le> maxExpire c"

lemma ctolower_idem [simp]: "ctolower (ctolower c) = ctolower c"
  by (auto simp: ctolower_def of_char_mod_256)

lemma Utl_toLower_idem [simp]: "Utl_toLower (Utl_toLower s) = Utl_toLower s"
  by (simp add: Utl_toLower_def)

lemma cfg_inv_updates:
  assumes "cfg_inv c"
  shows "0 \<le> v \<Longrightarrow> v \<le> INT_MAX \<Longrightarrow> cfg_inv (c\<lparr>maxFetch := v\<rparr>)"
    and "0 \<le> v \<Longrightarrow> v \<le> INT_MAX \<Longrightarrow> cfg_inv (c\<lparr>threadFollowTime := v\<rparr>)"
    and "0 \<le> v \<Longrightarrow> v \<le> INT_MAX \<Longrightarrow> cfg_inv (c\<lparr>connectTimeout := v\<rparr>)"
    and "0 \<le> v \<Longrightarrow> v \<le> INT_MAX \<Longrightarrow> cfg_inv (c\<lparr>defaultExpire := v\<rparr>)"
    and "cfg_inv (c\<lparr>autoUnsubscribe := w\<rparr>)"
    and "v \<in> {0, 1} \<Longrightarrow> cfg_inv (c\<lparr>autoSubscribe := v\<rparr>)"
    and "v \<in> {0, 1} \<Longrightarrow> cfg_inv (c\<lparr>infoAlways := v\<rparr>)"
    and "v \<in> {0, 1} \<Longrightarrow> cfg_inv (c\<lparr>removeMsgId := v\<rparr>)"
    and "v \<in> {0, 1} \<Longrightarrow> cfg_inv (c\<lparr>replaceMsgId := v\<rparr>)"
    and "m \<in> modes \<Longrightarrow> cfg_inv (c\<lparr>autoSubscribeMode := m\<rparr>)"
    and "cfg_inv (c\<lparr>mailTo := m\<rparr>)"
    and "Utl_toLower (sv_name e) = sv_name e \<Longrightarrow> length (serv c) < k \<Longrightarrow>
           cfg_inv (c\<lparr>maxServ := k, serv := serv c @ [e]\<rparr>)"
    and "Utl_toLower (ex_pattern x) = ex_pattern x \<Longrightarrow> 0 \<le> ex_days x \<Longrightarrow> length (expire c) < k \<Longrightarrow>
           cfg_inv (c\<lparr>maxExpire := k, expire := expire c @ [x]\<rparr>)"
    and "Utl_toLower (sv_name e) = sv_name e \<Longrightarrow> length (serv c) < maxServ c \<Longrightarrow>
           cfg_inv (c\<lparr>serv := serv c @ [e]\<rparr>)"
    and "Utl_toLower (ex_pattern x) = ex_pattern x \<Longrightarrow> 0 \<le> ex_days x \<Longrightarrow> length (expire c) < maxExpire c \<Longrightarrow>
           cfg_inv (c\<lparr>expire := expire c @ [x]\<rparr>)"
  using assms by (simp_all add: cfg_inv_def ball_Un Un_iff)

lemma cfg_inv_values:
  assumes "cfg_inv c"
  shows "0 \<le> maxFetch c \<and> maxFetch c \<le> INT_MAX" "0 \<le> threadFollowTime c \<and> threadFollowTime c \<le> INT_MAX"
    "0 \<le> connectTimeout c \<and> connectTimeout c \<le> INT_MAX" "0 \<le> defaultExpire c \<and> defaultExpire c \<le> INT_MAX"
    "-1 \<le> autoUnsubscribeDays c \<and> autoUnsubscribeDays c \<le> INT_MAX"
    "autoSubscribe c \<in> {0, 1}" "infoAlways c \<in> {0, 1}" "removeMsgId c \<in> {0, 1}" "replaceMsgId c \<in> {0, 1}"
    "length (serv c) \<le> maxServ c" "length (expire c) \<le> maxExpire c"
  using assms by (simp_all add: cfg_inv_def)

lemma getInt_range: "getInt mn mx l v = Some w \<Longrightarrow> mn \<le> v \<and> v \<le> mx \<Longrightarrow> mn \<le> w \<and> w \<le> mx"
  unfolding getInt_def by (auto simp: bind_eq_Some_conv split: option.split_asm if_split_asm)

lemma getBool_range: "v \<in> {0, 1} \<Longrightarrow> getBool l v \<in> {0, 1}"
  by (auto simp: getBool_def split: list.split)

lemma getServ_inv: "cfg_inv c \<Longrightarrow> cfg_inv (getServ l c)"
  using cfg_inv_values(10) [of c] unfolding getServ_def Let_def
  by (auto intro!: cfg_inv_updates(12,14))

lemma getExpire_inv: "cfg_inv c \<Longrightarrow> getExpire l c = Some c' \<Longrightarrow> cfg_inv c'"
  using cfg_inv_values(11) [of c] unfolding getExpire_def
  by (auto simp: bind_eq_Some_conv split: option.split_asm intro!: cfg_inv_updates(13,15))

lemma cfg_option_inv:
  assumes c: "cfg_inv c" and o: "cfg_option name p line s c = Some r"
  shows "case r of Inl (s', c') \<Rightarrow> cfg_inv c' | Inr c' \<Rightarrow> cfg_inv c'"
proof -
  note u = cfg_inv_updates [OF c] and v = cfg_inv_values [OF c]
  show ?thesis
    using o c unfolding cfg_option_def
    by (auto simp: bind_eq_Some_conv Let_def modes_def split: if_split_asm
        intro!: u(1-11) getServ_inv [OF c] getBool_range v dest: getExpire_inv [OF c]
          v(1) [THEN getInt_range [rotated]] v(2) [THEN getInt_range [rotated]] v(3) [THEN getInt_range [rotated]]
          v(4) [THEN getInt_range [rotated]])
qed

text \<open>What \<open>auto-unsubscribe-days\<close> does: the switch can get any number from -1, and the number of days stays.\<close>

definition unsub_inv :: "int \<Rightarrow> config \<Rightarrow> bool" where
  "unsub_inv days c \<longleftrightarrow> autoUnsubscribeDays c = days \<and> -1 \<le> autoUnsubscribe c \<and> autoUnsubscribe c \<le> INT_MAX"

lemma unsub_inv_option:
  assumes c: "unsub_inv d c" and o: "cfg_option name p line s c = Some r"
  shows "case r of Inl (s', c') \<Rightarrow> unsub_inv d c' | Inr c' \<Rightarrow> unsub_inv d c'"
proof -
  have v: "-1 \<le> autoUnsubscribe c \<and> autoUnsubscribe c \<le> INT_MAX" using c by (simp add: unsub_inv_def)
  have "-1 \<le> getBool p (autoUnsubscribe c) \<and> getBool p (autoUnsubscribe c) \<le> INT_MAX"
    using v by (auto simp: getBool_def INT_MAX_def split: list.split)
  then show ?thesis
    using o c unfolding cfg_option_def
    by (auto simp: unsub_inv_def bind_eq_Some_conv Let_def getServ_def getExpire_def split: if_split_asm option.split_asm
        dest: v [THEN getInt_range [rotated]])
qed

lemma config_init_inv: "cfg_inv (config_init sd ver)"
  by (simp add: cfg_inv_def config_init_def INT_MAX_def modes_def)

text \<open>What every option keeps, the loop keeps.\<close>

lemma cfg_loop_keeps:
  assumes step: "\<And>name p line s c r. P c \<Longrightarrow> cfg_option name p line s c = Some r \<Longrightarrow>
      (case r of Inl (s', c') \<Rightarrow> P c' | Inr c' \<Rightarrow> P c')"
  shows "P c \<Longrightarrow> cfg_loop pre s ls c = Some (b, c') \<Longrightarrow> P c'"
proof (induction ls arbitrary: pre s c)
  case (Cons line ls)
  from Cons.prems(2) obtain pre' p0 low where
    st: "Utl_stripWhiteSpace pre line = Some (pre', p0)" "Utl_cpyStr (Utl_stripComment p0) = Some low"
    by (auto simp: bind_eq_Some_conv Let_def)
  let ?p = "Utl_stripComment p0"
  show ?case
  proof (cases "?p = [] \<or> scan_s ?p = None")
    case True
    with Cons.prems(2) st have "cfg_loop pre' s ls c = Some (b, c')" by (auto simp: Let_def split: if_split_asm)
    with Cons show ?thesis by blast
  next
    case False
    then obtain name t where sc: "scan_s ?p = Some (name, t)" "?p \<noteq> []" by auto
    with Cons.prems(2) st obtain r where
      r: "cfg_option name ?p (takeWhile cisspace line @ ?p) s c = Some r" and
      rest: "(case r of Inr c' \<Rightarrow> Some (False, c') | Inl (s', c') \<Rightarrow> cfg_loop pre' s' ls c') = Some (b, c')"
      by (auto simp: Let_def bind_eq_Some_conv)
    from step [OF Cons.prems(1) r] rest show ?thesis
      by (cases r) (auto intro: Cons.IH)
  qed
qed simp


definition sample_file :: cstr where
  "sample_file = ''server News.Org'' @ [LF] @ ''max-fetch -5'' @ [LF] @ ''auto-subscribe maybe'' @ [LF]
     @ ''auto-unsubscribe-days 9'' @ [LF] @ ''default-expire 20'' @ [LF]"


subsection \<open>A written file\<close>

datatype int_opt = Max_fetch | Auto_unsubscribe_days | Thread_follow_time | Connect_timeout | Default_expire
datatype bool_opt = Auto_subscribe | Auto_unsubscribe | Info_always | Remove_msgid | Replace_msgid

datatype directive =
    D_int int_opt nat
  | D_bool bool_opt bool
  | D_mode cstr
  | D_server cstr "cstr list"
  | D_mail cstr
  | D_expire cstr nat

fun int_name :: "int_opt \<Rightarrow> cstr" where
  "int_name Max_fetch = ''max-fetch''"
| "int_name Auto_unsubscribe_days = ''auto-unsubscribe-days''"
| "int_name Thread_follow_time = ''thread-follow-time''"
| "int_name Connect_timeout = ''connect-timeout''"
| "int_name Default_expire = ''default-expire''"

fun bool_name :: "bool_opt \<Rightarrow> cstr" where
  "bool_name Auto_subscribe = ''auto-subscribe''"
| "bool_name Auto_unsubscribe = ''auto-unsubscribe''"
| "bool_name Info_always = ''info-always-unread''"
| "bool_name Remove_msgid = ''remove-messageid''"
| "bool_name Replace_msgid = ''replace-messageid''"

fun dir_words :: "directive \<Rightarrow> cstr list" where
  "dir_words (D_int k n) = [int_name k, dec_int (int n)]"
| "dir_words (D_bool k b) = [bool_name k, if b then ''yes'' else ''no'']"
| "dir_words (D_mode m) = [''auto-subscribe-mode'', m]"
| "dir_words (D_server n auth) = ''server'' # n # auth"
| "dir_words (D_mail m) = [''mail-to'', m]"
| "dir_words (D_expire q n) = [''expire'', q, dec_int (int n)]"

text \<open>What a directive means by the manual page \<^verbatim>\<open>noffle.conf.5\<close>.\<close>

fun apply_dir :: "directive \<Rightarrow> config \<Rightarrow> config" where
  "apply_dir (D_int Max_fetch n) c = c\<lparr>maxFetch := int n\<rparr>"
| "apply_dir (D_int Auto_unsubscribe_days n) c = c\<lparr>autoUnsubscribeDays := int n\<rparr>"
| "apply_dir (D_int Thread_follow_time n) c = c\<lparr>threadFollowTime := int n\<rparr>"
| "apply_dir (D_int Connect_timeout n) c = c\<lparr>connectTimeout := int n\<rparr>"
| "apply_dir (D_int Default_expire n) c = c\<lparr>defaultExpire := int n\<rparr>"
| "apply_dir (D_bool Auto_subscribe b) c = c\<lparr>autoSubscribe := of_bool b\<rparr>"
| "apply_dir (D_bool Auto_unsubscribe b) c = c\<lparr>autoUnsubscribe := of_bool b\<rparr>"
| "apply_dir (D_bool Info_always b) c = c\<lparr>infoAlways := of_bool b\<rparr>"
| "apply_dir (D_bool Remove_msgid b) c = c\<lparr>removeMsgId := of_bool b\<rparr>"
| "apply_dir (D_bool Replace_msgid b) c = c\<lparr>replaceMsgId := of_bool b\<rparr>"
| "apply_dir (D_mode m) c = c\<lparr>autoSubscribeMode := m\<rparr>"
| "apply_dir (D_server n auth) c = c\<lparr>maxServ := (if maxServ c < length (serv c) + 1 then maxServ c + 5 else maxServ c),
     serv := serv c @ [\<lparr>sv_name = n, sv_user = nth_word auth 0, sv_pass = nth_word auth 1\<rparr>]\<rparr>"
| "apply_dir (D_mail m) c = c\<lparr>mailTo := m\<rparr>"
| "apply_dir (D_expire q n) c = c\<lparr>maxExpire := (if maxExpire c < length (expire c) + 1 then maxExpire c + 5 else maxExpire c),
     expire := expire c @ [\<lparr>ex_pattern = q, ex_days = int n\<rparr>]\<rparr>"

text \<open>What the program makes of it: the number of \<open>auto-unsubscribe-days\<close> goes to the switch \<open>autoUnsubscribe\<close>.\<close>

definition code_dir :: "directive \<Rightarrow> config \<Rightarrow> config" where
  "code_dir d c = (case d of D_int Auto_unsubscribe_days n \<Rightarrow> c\<lparr>autoUnsubscribe := int n\<rparr> | _ \<Rightarrow> apply_dir d c)"

definition standard_port :: "cstr \<Rightarrow> bool" where
  "standard_port n \<longleftrightarrow> length n > 4 \<and> drop (length n - 4) n = '':119''"

fun dir_ok :: "directive \<Rightarrow> bool" where
  "dir_ok (D_int k n) \<longleftrightarrow> int n \<le> INT_MAX"
| "dir_ok (D_bool k b) \<longleftrightarrow> True"
| "dir_ok (D_mode m) \<longleftrightarrow> m \<in> modes"
| "dir_ok (D_server n auth) \<longleftrightarrow> Utl_toLower n = n \<and> \<not> standard_port n \<and> length auth \<le> 2"
| "dir_ok (D_mail m) \<longleftrightarrow> True"
| "dir_ok (D_expire q n) \<longleftrightarrow> Utl_toLower q = q \<and> int n \<le> INT_MAX"

definition dir_line :: "directive \<Rightarrow> cstr" where
  "dir_line d = unwords (dir_words d)"

definition dir_fits :: "directive \<Rightarrow> bool" where
  "dir_fits d \<longleftrightarrow> dir_ok d \<and> list_all word (dir_words d) \<and> Suc (length (dir_line d)) < MAXCHAR"

lemma dir_words_ne: "dir_words d \<noteq> []"
  by (cases d) auto

lemma scan_s_unwords: "list_all word (w # ws) \<Longrightarrow>
    scan_s (unwords (w # ws)) = Some (w, if ws = [] then [] else CHR '' '' # unwords ws)"
  by (cases ws) (auto simp: scan_s_word scan_s_word_space)

lemma scan_d_nat: "scan_d (dec_int (int n)) = Some (int n, [])"
  using scan_d_dec_int [of "[]" "int n"] by simp

lemma getInt_line:
  assumes "list_all word [k, dec_int (int n)]" "int n \<le> INT_MAX" "mn \<le> 0"
  shows "getInt mn INT_MAX (unwords [k, dec_int (int n)]) v = Some (int n)"
  using assms scan_s_unwords [OF assms(1)]
  by (simp add: getInt_def scan_d_nat as_int32_def int_ok_def INT_MAX_def)

lemma toLower_unwords: "Utl_toLower (unwords ws) = unwords (map Utl_toLower ws)"
proof (induction ws rule: unwords.induct)
  case (3 w v ws)
  have "ctolower (CHR '' '') = CHR '' ''" by (simp add: ctolower_def)
  with 3 show ?case by (simp add: Utl_toLower_def)
qed (simp_all add: Utl_toLower_def)

lemma getBool_line:
  assumes "k \<in> range bool_name" "list_all word [k, if b then ''yes'' else ''no'']"
  shows "getBool (unwords [k, if b then ''yes'' else ''no'']) v = of_bool b"
proof -
  have l: "Utl_toLower k = k" using assms(1) by (auto, case_tac x) (simp_all add: Utl_toLower_def ctolower_def)
  have y: "Utl_toLower ''yes'' = ''yes''" "Utl_toLower ''no'' = ''no''" by (simp_all add: Utl_toLower_def ctolower_def)
  show ?thesis
    using scan_n_unwords [OF assms(2), of 2] l y
    by (cases b) (simp_all add: getBool_def toLower_unwords del: unwords.simps)
qed

lemma getExpire_line:
  assumes "list_all word [k, q, dec_int (int n)]" "int n \<le> INT_MAX" "Utl_toLower q = q"
  shows "getExpire (unwords [k, q, dec_int (int n)]) c =
     Some (c\<lparr>maxExpire := (if maxExpire c < length (expire c) + 1 then maxExpire c + 5 else maxExpire c),
       expire := expire c @ [\<lparr>ex_pattern = q, ex_days = int n\<rparr>]\<rparr>)"
  using assms scan_s_unwords [of k "[q, dec_int (int n)]"] scan_s_unwords [of q "[dec_int (int n)]"]
  by (simp add: getExpire_def scan_d_nat as_int32_def int_ok_def INT_MAX_def)

lemma getServ_line:
  assumes "list_all word (k # n # auth)" "Utl_toLower n = n" "\<not> standard_port n" "length auth \<le> 2"
  shows "getServ (unwords (k # n # auth)) c = apply_dir (D_server n auth) c"
proof -
  have "scan_n 4 (unwords (k # n # auth)) = k # n # auth"
    using scan_n_unwords [OF assms(1), of 4] assms(4) by simp
  moreover have "nth_word (k # n # auth) 2 = nth_word auth 0" "nth_word (k # n # auth) 3 = nth_word auth 1"
    by (simp_all add: nth_word_def numeral_2_eq_2 numeral_3_eq_3)
  ultimately show ?thesis using assms(2,3)
    unfolding getServ_def Let_def standard_port_def by (auto simp del: unwords.simps)
qed

lemma getStr_line: "list_all word [k, v] \<Longrightarrow> getStr (unwords [k, v]) x = Some v"
  using scan_n_unwords [of "[k, v]" 2] by (simp add: getStr_def del: unwords.simps scan_n.simps)

lemma modes_lower: "m \<in> modes \<Longrightarrow> Utl_toLower m = m"
  by (auto simp: modes_def Utl_toLower_def ctolower_def)

lemma directive_cases:
  obtains n where "d = D_int Max_fetch n" | n where "d = D_int Auto_unsubscribe_days n" | n where "d = D_int Thread_follow_time n"
    | n where "d = D_int Connect_timeout n" | n where "d = D_int Default_expire n"
    | b where "d = D_bool Auto_subscribe b" | b where "d = D_bool Auto_unsubscribe b" | b where "d = D_bool Info_always b"
    | b where "d = D_bool Remove_msgid b" | b where "d = D_bool Replace_msgid b"
    | m where "d = D_mode m" | n auth where "d = D_server n auth" | m where "d = D_mail m" | q n where "d = D_expire q n"
proof (cases d)
  case (D_int k n) then show thesis using that by (cases k) auto
next
  case (D_bool k b) then show thesis using that by (cases k) auto
qed (use that in auto)

lemma cfg_option_line:
  assumes "dir_ok d" "list_all word (dir_words d)"
  shows "\<exists>s'. cfg_option (hd (dir_words d)) (dir_line d) (dir_line d) s c = Some (Inl (s', code_dir d c))"
proof (cases d)
  case (D_int k n)
  with assms getInt_line [of "int_name k" n 0] getInt_line [of "int_name k" n "-1"] show ?thesis
    by (cases k) (simp_all add: cfg_option_def dir_line_def code_dir_def del: unwords.simps)
next
  case (D_bool k b)
  with assms have "getBool (dir_line d) v = of_bool b" for v
    using getBool_line [of "bool_name k" b v] by (simp add: dir_line_def del: unwords.simps)
  with D_bool show ?thesis
    by (cases k) (simp_all add: cfg_option_def code_dir_def)
next
  case (D_mode m)
  with assms getStr_line [of "''auto-subscribe-mode''" m s] modes_lower [of m] show ?thesis
    by (simp add: cfg_option_def dir_line_def code_dir_def del: unwords.simps) (auto simp: modes_def)
next
  case (D_server n auth)
  with assms getServ_line [of "''server''" n auth c] show ?thesis
    by (simp add: cfg_option_def dir_line_def code_dir_def del: unwords.simps apply_dir.simps)
next
  case (D_mail m)
  with assms getStr_line [of "''mail-to''" m] show ?thesis
    by (simp add: cfg_option_def dir_line_def code_dir_def del: unwords.simps)
next
  case (D_expire q n)
  with assms getExpire_line [of "''expire''" q n c] show ?thesis
    by (simp add: cfg_option_def dir_line_def code_dir_def del: unwords.simps)
qed

lemma cfg_loop_line:
  assumes "dir_fits d"
  shows "\<exists>s'. cfg_loop pre s ((dir_line d @ [LF]) # ls) c = cfg_loop pre s' ls (code_dir d c)"
proof -
  from assms have ok: "dir_ok d" and w: "list_all word (dir_words d)" and len: "Suc (length (dir_line d)) < MAXCHAR"
    by (simp_all add: dir_fits_def)
  note l = unwords_ok [OF w dir_words_ne, folded dir_line_def]
  have st: "Utl_stripWhiteSpace pre (dir_line d @ [LF]) = Some (pre, dir_line d)"
  proof -
    have "strip (dir_line d @ [LF]) = dir_line d"
      by (rule strip_run) (use l in \<open>simp_all add: cisspace_def\<close>)
    moreover have "\<not> blank (dir_line d @ [LF])" using l by (cases "dir_line d") (auto simp: blank_def)
    ultimately show ?thesis using Utl_stripWhiteSpace_strip [of "dir_line d @ [LF]" pre] l by simp
  qed
  have sc: "Utl_stripComment (dir_line d) = dir_line d"
    using l by (auto simp: Utl_stripComment_def takeWhile_eq_all_conv)
  have tw: "takeWhile cisspace (dir_line d @ [LF]) = []" using l by (cases "dir_line d") auto
  obtain w0 ws where ws: "dir_words d = w0 # ws" using dir_words_ne [of d] by (cases "dir_words d") auto
  with w scan_s_unwords [of w0 ws] obtain t where sn: "scan_s (dir_line d) = Some (w0, t)"
    by (auto simp: dir_line_def)
  obtain s' where o: "cfg_option w0 (dir_line d) (dir_line d) s c = Some (Inl (s', code_dir d c))"
    using cfg_option_line [OF ok w, of s c] ws by auto
  have "Utl_cpyStr (dir_line d) = Some (dir_line d)" using len by (simp add: Utl_cpyStr_eq)
  then have "cfg_loop pre s ((dir_line d @ [LF]) # ls) c = cfg_loop pre s' ls (code_dir d c)"
    using l sn o by (simp add: st sc tw)
  then show ?thesis ..
qed

lemma cfg_loop_lines:
  "list_all dir_fits ds \<Longrightarrow>
     cfg_loop pre s (map (\<lambda>l. l @ [LF]) (map dir_line ds)) c = Some (True, fold code_dir ds c)"
proof (induction ds arbitrary: s c)
  case (Cons d ds)
  then obtain s' where "cfg_loop pre s ((dir_line d @ [LF]) # map (\<lambda>l. l @ [LF]) (map dir_line ds)) c
      = cfg_loop pre s' (map (\<lambda>l. l @ [LF]) (map dir_line ds)) (code_dir d c)"
    using cfg_loop_line [of d pre s _ c] by (metis list.pred_inject(2))
  with Cons show ?case by (simp del: cfg_loop.simps(2))
qed simp

text \<open>Both agree on all but the switch and the number of days.\<close>

lemma fold_code_dir:
  "fold code_dir ds c = (fold apply_dir ds c)
     \<lparr>autoUnsubscribe := autoUnsubscribe (fold code_dir ds c), autoUnsubscribeDays := autoUnsubscribeDays c\<rparr>"
proof -
  have step: "code_dir d (x\<lparr>autoUnsubscribe := u, autoUnsubscribeDays := v\<rparr>)
      = (apply_dir d x)\<lparr>autoUnsubscribe := autoUnsubscribe (code_dir d (x\<lparr>autoUnsubscribe := u, autoUnsubscribeDays := v\<rparr>)),
                         autoUnsubscribeDays := v\<rparr>" for d x u v
    by (cases d rule: directive_cases; cases x) (simp_all add: code_dir_def)
  have "\<exists>w. fold code_dir ds (x\<lparr>autoUnsubscribe := u, autoUnsubscribeDays := v\<rparr>)
      = (fold apply_dir ds x)\<lparr>autoUnsubscribe := w, autoUnsubscribeDays := v\<rparr>" for x u v
  proof (induction ds arbitrary: x u)
    case (Cons d ds)
    show ?case using step [where d = d and x = x and u = u and v = v] Cons.IH by (metis fold_simps(2))
  qed auto
  from this [where x = c and u = "autoUnsubscribe c" and v = "autoUnsubscribeDays c"] obtain w where
    "fold code_dir ds c = (fold apply_dir ds c)\<lparr>autoUnsubscribe := w, autoUnsubscribeDays := autoUnsubscribeDays c\<rparr>" by auto
  then show ?thesis by simp
qed

lemma fold_documented: "(\<forall>n. D_int Auto_unsubscribe_days n \<notin> set ds) \<Longrightarrow> fold code_dir ds c = fold apply_dir ds c"
proof (induction ds arbitrary: c)
  case (Cons d ds)
  then have "code_dir d c = apply_dir d c" by (cases d rule: directive_cases) (auto simp: code_dir_def)
  with Cons show ?case by simp
qed simp

text \<open>The switch after the lines: the number or the truth value of the last line that is stored there.\<close>

fun last_switch :: "directive list \<Rightarrow> int \<Rightarrow> int" where
  "last_switch [] v = v"
| "last_switch (D_int Auto_unsubscribe_days n # ds) v = last_switch ds (int n)"
| "last_switch (D_bool Auto_unsubscribe b # ds) v = last_switch ds (of_bool b)"
| "last_switch (_ # ds) v = last_switch ds v"

lemma last_switch_code: "autoUnsubscribe (fold code_dir ds c) = last_switch ds (autoUnsubscribe c)"
proof (induction ds arbitrary: c)
  case (Cons d ds)
  then show ?case by (cases d rule: directive_cases) (simp_all add: code_dir_def)
qed simp

text \<open>C25. A configuration file of well-formed lines without \<open>auto-unsubscribe-days\<close> sets exactly the options that its lines
  name, each to the value on the line, in order, and adds the servers and the expiry patterns in order, as the manual
  page says; it is accepted when there is a server.  With \<open>auto-unsubscribe-days\<close> in it, all other options are
  set as documented, the number of days is not changed at all, and the numbers are taken for the switch
  \<open>autoUnsubscribe\<close>, of which the last line that names either decides: a defect of the program.\<close>

theorem Cfg_read_directives:
  "list_all dir_fits ds \<Longrightarrow>
     \<exists>c'. Cfg_read pre (Some (text_of (map dir_line ds))) c = Some (if serv c' = [] then Cfg_exit else Cfg_done c')
       \<and> (if \<forall>n. D_int Auto_unsubscribe_days n \<notin> set ds then c' = fold apply_dir ds c
          else c' = (fold apply_dir ds c)
                 \<lparr>autoUnsubscribe := last_switch ds (autoUnsubscribe c), autoUnsubscribeDays := autoUnsubscribeDays c\<rparr>)"
proof -
  assume ds: "list_all dir_fits ds"
  have e: "fold code_dir ds c = (fold apply_dir ds c)
      \<lparr>autoUnsubscribe := last_switch ds (autoUnsubscribe c), autoUnsubscribeDays := autoUnsubscribeDays c\<rparr>"
    by (subst fold_code_dir) (simp add: last_switch_code)
  have "list_all file_line (map dir_line ds)"
  proof -
    have "file_line (dir_line d)" if "dir_fits d" for d
    proof -
      have w: "list_all word (dir_words d)" using that by (simp add: dir_fits_def)
      have "LF \<notin> set (unwords ws)" if "list_all word ws" for ws
        using that by (induction ws rule: unwords.induct) (auto simp: word_def cisspace_def)
      with w unwords_ok [OF w dir_words_ne] that show ?thesis
        by (simp add: file_line_def dir_line_def dir_fits_def)
    qed
    with ds show ?thesis by (auto simp: list_all_iff)
  qed
  from fgets_all_text_of [OF this] cfg_loop_lines [OF ds, of pre None c]
  have "Cfg_read pre (Some (text_of (map dir_line ds))) c =
      Some (let c' = fold code_dir ds c in if serv c' = [] then Cfg_exit else Cfg_done c')"
    by (simp add: Cfg_read_def Let_def del: map_map)
  then show ?thesis using e fold_documented [of ds c]
    by (intro exI [of _ "fold code_dir ds c"]) (simp add: Let_def)
qed

theorem Cfg_read_directives_witness:
  "\<exists>c'. Cfg_read [] (Some (text_of (map dir_line [D_server ''news.org'' [], D_int Auto_unsubscribe_days 9])))
        (config_init ''/var'' ''1.0'') = Some (Cfg_done c')
     \<and> servers c' = [''news.org''] \<and> autoUnsubscribeDays c' = 30 \<and> autoUnsubscribe c' = 9"
proof -
  let ?ds = "[D_server ''news.org'' [], D_int Auto_unsubscribe_days 9]"
  have "list_all dir_fits ?ds"
    by (simp add: dir_fits_def standard_port_def word_def cisspace_def INT_MAX_def dir_line_def MAXCHAR_def
        Utl_toLower_def ctolower_def dec_int_def dec_nat.simps [of 9] char_of_def)
  from Cfg_read_directives [OF this, of "[]" "config_init ''/var'' ''1.0''"] show ?thesis
    by (auto simp: config_init_def)
qed

text \<open>The short form of \<open>expire\<close> that the comment in the source describes is a syntax error.\<close>

lemma getExpire_short: "getExpire ''expire 30'' c = Some c"
  by (simp add: getExpire_def scan_s_def scan_d_def cisspace_def)

end
