(* ===== verification/Protocol.thy ===== *)
theory Protocol
  imports Stdio
begin

text \<open>
  The parts of NNTP that client and server share, \<^verbatim>\<open>noffle-1.0.1/src/protocol.c\<close>: lines ended by CR
  and LF, texts ended by a line with a dot, header fields of an article, and message IDs.

  An input stream is the text that is still to come; an output stream is the text written so far
  and the room that is left, a shorter write being an error.  A read that the alarm interrupts is a
  stream that ends.  \<open>None\<close> is an access outside an object; \<open>pre\<close> is the memory before the local
  buffers, which \<open>Utl_stripWhiteSpace\<close> reads on a blank string.
\<close>

record ofile =
  written :: cstr
  room :: nat

text \<open>\<open>fprintf\<close>, and whether it returned the whole length.\<close>

definition fprint :: "cstr \<Rightarrow> ofile \<Rightarrow> bool \<times> ofile" where
  "fprint s f = (length s \<le> room f, f\<lparr>written := written f @ take (room f) s, room := room f - length s\<rparr>)"

subsection \<open>Status codes\<close>

definition STAT_HELP_FOLLOWS :: nat where "STAT_HELP_FOLLOWS = 100"
definition STAT_READY_POST_ALLOW :: nat where "STAT_READY_POST_ALLOW = 200"
definition STAT_CMD_OK :: nat where "STAT_CMD_OK = 202"
definition STAT_GOODBYE :: nat where "STAT_GOODBYE = 205"
definition STAT_GRP_SELECTED :: nat where "STAT_GRP_SELECTED = 211"
definition STAT_GRPS_FOLLOW :: nat where "STAT_GRPS_FOLLOW = 215"
definition STAT_ART_FOLLOWS :: nat where "STAT_ART_FOLLOWS = 220"
definition STAT_HEAD_FOLLOWS :: nat where "STAT_HEAD_FOLLOWS = 221"
definition STAT_BODY_FOLLOWS :: nat where "STAT_BODY_FOLLOWS = 222"
definition STAT_ART_RETRIEVED :: nat where "STAT_ART_RETRIEVED = 223"
definition STAT_OVERS_FOLLOW :: nat where "STAT_OVERS_FOLLOW = 224"
definition STAT_NEW_GRP_FOLLOW :: nat where "STAT_NEW_GRP_FOLLOW = 231"
definition STAT_POST_OK :: nat where "STAT_POST_OK = 240"
definition STAT_SEND_ART :: nat where "STAT_SEND_ART = 340"
definition STAT_NO_SUCH_GRP :: nat where "STAT_NO_SUCH_GRP = 411"
definition STAT_NO_GRP_SELECTED :: nat where "STAT_NO_GRP_SELECTED = 412"
definition STAT_NO_ART_SELECTED :: nat where "STAT_NO_ART_SELECTED = 420"
definition STAT_NO_NEXT_ART :: nat where "STAT_NO_NEXT_ART = 421"
definition STAT_NO_PREV_ART :: nat where "STAT_NO_PREV_ART = 422"
definition STAT_NO_SUCH_NUMB :: nat where "STAT_NO_SUCH_NUMB = 423"
definition STAT_NO_SUCH_ID :: nat where "STAT_NO_SUCH_ID = 430"
definition STAT_ART_REJECTED :: nat where "STAT_ART_REJECTED = 437"
definition STAT_POST_FAILED :: nat where "STAT_POST_FAILED = 441"
definition STAT_NO_SUCH_CMD :: nat where "STAT_NO_SUCH_CMD = 500"
definition STAT_SYNTAX_ERR :: nat where "STAT_SYNTAX_ERR = 501"
definition STAT_NO_PERMISSION :: nat where "STAT_NO_PERMISSION = 502"
definition STAT_PROGRAM_FAULT :: nat where "STAT_PROGRAM_FAULT = 503"
definition STAT_READY_NO_POST_ALLOW :: nat where "STAT_READY_NO_POST_ALLOW = 201"
definition STAT_AUTH_ACCEPTED :: nat where "STAT_AUTH_ACCEPTED = 281"
definition STAT_MORE_AUTH_REQUIRED :: nat where "STAT_MORE_AUTH_REQUIRED = 381"
definition STAT_AUTH_REQUIRED :: nat where "STAT_AUTH_REQUIRED = 480"

lemmas stat_codes = STAT_HELP_FOLLOWS_def STAT_READY_POST_ALLOW_def STAT_CMD_OK_def STAT_GOODBYE_def
  STAT_GRP_SELECTED_def STAT_GRPS_FOLLOW_def STAT_ART_FOLLOWS_def STAT_HEAD_FOLLOWS_def
  STAT_BODY_FOLLOWS_def STAT_ART_RETRIEVED_def STAT_OVERS_FOLLOW_def STAT_NEW_GRP_FOLLOW_def
  STAT_POST_OK_def STAT_SEND_ART_def STAT_NO_SUCH_GRP_def STAT_NO_GRP_SELECTED_def
  STAT_NO_ART_SELECTED_def STAT_NO_NEXT_ART_def STAT_NO_PREV_ART_def STAT_NO_SUCH_NUMB_def
  STAT_NO_SUCH_ID_def STAT_ART_REJECTED_def STAT_POST_FAILED_def STAT_NO_SUCH_CMD_def
  STAT_READY_NO_POST_ALLOW_def STAT_AUTH_ACCEPTED_def
  STAT_MORE_AUTH_REQUIRED_def STAT_AUTH_REQUIRED_def STAT_SYNTAX_ERR_def STAT_NO_PERMISSION_def STAT_PROGRAM_FAULT_def

text \<open>\<open>vsnprintf\<close> into a \<open>Str\<close>.\<close>

definition str_of :: "cstr \<Rightarrow> cstr" where
  "str_of s = take (MAXCHAR - 1) s"

subsection \<open>Lines\<close>

definition chomp :: "cstr \<Rightarrow> cstr" where
  "chomp line =
     (let len = length line in
      if len > 0 \<and> last line = LF
      then (if len > 1 \<and> line ! (len - 2) = CR then take (len - 2) line else butlast line)
      else line)"

text \<open>\<open>sig_ok\<close> is whether the signal handler could be installed.\<close>

definition Prt_getLn :: "bool \<Rightarrow> int \<Rightarrow> cstr \<Rightarrow> cstr option \<times> cstr" where
  "Prt_getLn sig_ok timeoutSeconds f =
     (if timeoutSeconds \<ge> 0 \<and> \<not> sig_ok then (None, f)
      else case fgets f of None \<Rightarrow> (None, f) | Some (line, f') \<Rightarrow> (Some (chomp line), f'))"

datatype txt_ln = Txt_line cstr | Txt_end | Txt_err

definition Prt_getTxtLn :: "bool \<Rightarrow> int \<Rightarrow> cstr \<Rightarrow> txt_ln \<times> cstr" where
  "Prt_getTxtLn sig_ok timeoutSeconds f =
     (case Prt_getLn sig_ok timeoutSeconds f of
        (None, f') \<Rightarrow> (Txt_err, f')
      | (Some buf, f') \<Rightarrow>
          if buf \<noteq> [] \<and> hd buf = CHR ''.''
          then (if tl buf = [] then Txt_end else Txt_line (tl buf), f')
          else (Txt_line buf, f'))"

definition Prt_putTxtLn :: "cstr \<Rightarrow> ofile \<Rightarrow> bool \<times> ofile" where
  "Prt_putTxtLn line f =
     (if line \<noteq> [] \<and> hd line = CHR ''.'' then fprint (CHR ''.'' # line @ [CR, LF]) f
      else fprint (line @ [CR, LF]) f)"

definition Prt_putEndOfTxt :: "ofile \<Rightarrow> bool \<times> ofile" where
  "Prt_putEndOfTxt f = fprint (''.'' @ [CR, LF]) f"

text \<open>The loop of \<open>Prt_putTxtBuf\<close>: the buffer from \<open>pBuf\<close> on and the line up to \<open>pLn\<close>.\<close>

function put_loop :: "cstr \<Rightarrow> cstr \<Rightarrow> ofile \<Rightarrow> bool \<times> ofile" where
  "put_loop [] line f = (True, f)"
| "put_loop (c # pBuf) line f =
     (if c = LF then
        (let (b, f') = Prt_putTxtLn line f in if b then put_loop pBuf [] f' else (False, f'))
      else if length line \<ge> MAXCHAR - 1 then
        (let (b, f') = fprint line f in if b then put_loop (c # pBuf) [] f' else (False, f'))
      else put_loop pBuf (line @ [c]) f)"
  by pat_completeness auto

termination by (relation "measures [\<lambda>(b, l, f). length b, \<lambda>(b, l, f). length l]") (auto simp: MAXCHAR_def)

declare put_loop.simps(2) [simp del]

definition Prt_putTxtBuf :: "cstr \<Rightarrow> ofile \<Rightarrow> bool \<times> ofile" where
  "Prt_putTxtBuf buf f = put_loop buf [] f"

subsection \<open>Header fields\<close>

text \<open>\<open>Utl_stripWhiteSpace\<close> on a local buffer with \<open>pre\<close> before it, which it must not change.\<close>

definition strip_at :: "cstr \<Rightarrow> cstr \<Rightarrow> cstr option" where
  "strip_at pre line =
     (case Utl_stripWhiteSpace pre line of
        Some (pre', p) \<Rightarrow> if pre' = pre then Some p else None
      | None \<Rightarrow> None)"

text \<open>Whether there is a value, the field, and the value.\<close>

definition Prt_getField :: "cstr \<Rightarrow> cstr \<Rightarrow> (bool \<times> cstr \<times> cstr option) option" where
  "Prt_getField pre line =
     do { l \<leftarrow> Utl_cpyStr line;
          let lineLower = Utl_toLower l;
          p \<leftarrow> strip_at pre lineLower;
          let off = length (takeWhile cisspace lineLower);
          let field = takeWhile (\<lambda>c. \<not> cisspace c \<and> c \<noteq> CHR '':'') p;
          let q = dropWhile cisspace (drop (length field) p);
          if q \<noteq> [] \<and> hd q = CHR '':''
          then do { let t = drop (off + (length p - length q) + 1) line;
                    v \<leftarrow> strip_at pre t;
                    Some (True, field, Some v) }
          else Some (False, field, None) }"

text \<open>One line of \<open>Prt_searchHeader\<close>: \<open>None\<close> inside is the end of the text, the result the line and
  the rest of the text.\<close>

fun header_line :: "nat \<Rightarrow> cstr \<Rightarrow> cstr \<Rightarrow> (cstr \<times> cstr) option" where
  "header_line len dst src =
     (if src \<noteq> [] \<and> hd src = LF then Some (dst, tl src)
      else if len \<ge> MAXCHAR then Some (dst, src)
      else case src of [] \<Rightarrow> None | c # src' \<Rightarrow> header_line (len + 1) (dst @ [c]) src')"

declare header_line.simps [simp del]

lemma header_line_shorter: "header_line len dst src = Some (l, r) \<Longrightarrow> len < MAXCHAR \<Longrightarrow> length r < length src"
proof (induction len dst src rule: header_line.induct)
  case (1 len dst src)
  show ?case
  proof (cases "src \<noteq> [] \<and> hd src = LF")
    case True
    with 1(2) show ?thesis by (subst (asm) header_line.simps) (cases src; auto)
  next
    case False
    with 1(2,3) obtain c src' where s: "src = c # src'" and
      h: "header_line (len + 1) (dst @ [c]) src' = Some (l, r)"
      by (subst (asm) header_line.simps) (auto split: list.splits)
    show ?thesis
    proof (cases "len + 1 < MAXCHAR")
      case True
      with 1(1) [OF False _ s h] 1(3) s show ?thesis by simp
    next
      case f: False
      with h 1(3) s show ?thesis
        by (subst (asm) header_line.simps) (auto split: if_splits)
    qed
  qed
qed

text \<open>The result buffer keeps the value of the last field that had one.\<close>

function search_header :: "cstr \<Rightarrow> cstr \<Rightarrow> cstr \<Rightarrow> cstr \<Rightarrow> (bool \<times> cstr) option" where
  "search_header pre whichLower src result =
     (case header_line 0 [] src of
        None \<Rightarrow> Some (False, result)
      | Some (line, src') \<Rightarrow>
          if Suc (length line) > MAXCHAR then None
          else do { p \<leftarrow> strip_at pre line;
                    if p = [] then Some (False, result)
                    else let line' = takeWhile cisspace line @ p in
                         do { (found, field, val) \<leftarrow> Prt_getField pre line';
                              let result' = (case val of Some v \<Rightarrow> v | None \<Rightarrow> result);
                              if found \<and> field = whichLower then Some (True, result')
                              else search_header pre whichLower src' result' } })"
  by pat_completeness auto

termination by (relation "measure (\<lambda>(pre, w, src, r). length src)")
    (auto dest: header_line_shorter simp: MAXCHAR_def)

declare search_header.simps [simp del]

definition Prt_searchHeader :: "cstr \<Rightarrow> cstr \<Rightarrow> cstr \<Rightarrow> cstr \<Rightarrow> (bool \<times> cstr) option" where
  "Prt_searchHeader pre artTxt which result =
     do { w \<leftarrow> Utl_cpyStr which; search_header pre (Utl_toLower w) artTxt result }"

subsection \<open>Message IDs\<close>

definition getDomain :: "cstr option \<Rightarrow> cstr \<Rightarrow> cstr option" where
  "getDomain fqdn frm =
     do { (myDomain, domainStart) \<leftarrow>
            (case fqdn of
               Some h \<Rightarrow>
                 do { d \<leftarrow> Utl_cpyStr h;
                      Some (d, case cstrstr d ''.'' of Some p \<Rightarrow> tl p | None \<Rightarrow> d) }
             | None \<Rightarrow>
                 do { d \<leftarrow> (case cstrstr frm ''@'' of
                             None \<Rightarrow> Some []
                           | Some p1 \<Rightarrow>
                               (case cstrstr p1 ''>'' of
                                  None \<Rightarrow> Some []
                                | Some p2 \<Rightarrow> Utl_cpyStrN (tl p1) (int (length p1) - int (length p2) - 1)));
                      d' \<leftarrow> (if d = [] then Utl_cpyStr ''unknown'' else Some d);
                      Some (d', d') });
          let addTopLevel = (if cstrstr domainStart ''.'' = None then ''.local'' else '''');
          Some (take (MAXCHAR - 1) (myDomain @ addTopLevel)) }"

definition Prt_isValidMsgId :: "cstr \<Rightarrow> bool option" where
  "Prt_isValidMsgId msgId =
     (let p = cstrstr msgId ''@'' in
      if msgId = [] \<or> hd msgId \<noteq> CHR ''<'' \<or> last msgId \<noteq> CHR ''>'' \<or> p = None then Some False
      else if length (tl (the p)) \<ge> MAXCHAR then None
      else let domain = butlast (tl (the p));
               headLen = int (length msgId) - int (length (the p)) - 1
           in do { head \<leftarrow> Utl_cpyStrN (tl msgId) headLen;
                   Some (cstrstr domain ''.'' \<noteq> None) })"

text \<open>\<open>%X\<close> of \<open>printf\<close>.\<close>

definition hex_upper :: "nat \<Rightarrow> char" where
  "hex_upper d = (if d < 10 then char_of (48 + d) else char_of (55 + d))"

fun hex_nat :: "nat \<Rightarrow> cstr" where
  "hex_nat n = (if n < 16 then [hex_upper n] else hex_nat (n div 16) @ [hex_upper (n mod 16)])"

declare hex_nat.simps [simp del]

text \<open>\<open>date\<close> is what \<open>strftime\<close> leaves and \<open>rnd\<close> the result of \<open>rand\<close>.\<close>

definition Prt_genMsgId :: "cstr option \<Rightarrow> cstr \<Rightarrow> nat \<Rightarrow> cstr \<Rightarrow> cstr \<Rightarrow> cstr option" where
  "Prt_genMsgId fqdn date rnd frm suffix =
     do { domain \<leftarrow> getDomain fqdn frm;
          Some (take (MAXCHAR - 1)
            (''<'' @ date @ ''.'' @ hex_nat rnd @ ''.'' @ suffix @ ''@'' @ domain @ ''>'')) }"

subsection \<open>A text over the wire\<close>

text \<open>What \<open>Prt_putTxtLn\<close> sends for a line.\<close>

definition stuffed :: "cstr \<Rightarrow> cstr" where
  "stuffed line = (if line \<noteq> [] \<and> hd line = CHR ''.'' then CHR ''.'' # line else line)"

definition wire :: "cstr list \<Rightarrow> cstr" where
  "wire ls = concat (map (\<lambda>l. stuffed l @ [CR, LF]) ls)"

definition sendable :: "cstr \<Rightarrow> bool" where
  "sendable l \<longleftrightarrow> LF \<notin> set l \<and> proper l \<and> length l + 4 \<le> MAXCHAR"

lemma fprint_room: "length s \<le> room f \<Longrightarrow>
    fprint s f = (True, f\<lparr>written := written f @ s, room := room f - length s\<rparr>)"
  by (simp add: fprint_def)

lemma putTxtLn_stuffed: "Prt_putTxtLn line f = fprint (stuffed line @ [CR, LF]) f"
  by (simp add: Prt_putTxtLn_def stuffed_def)

lemma put_loop_run:
  "LF \<notin> set l \<Longrightarrow> length acc + length l < MAXCHAR \<Longrightarrow> put_loop (l @ s) acc f = put_loop s (acc @ l) f"
proof (induction l arbitrary: acc)
  case (Cons c l)
  from Cons.prems have "\<not> MAXCHAR - 1 \<le> length acc" by (simp add: MAXCHAR_def)
  with Cons.prems Cons.IH [of "acc @ [c]"] show ?case by (auto simp: put_loop.simps(2))
qed simp

lemma put_loop_lines:
  "list_all sendable ls \<Longrightarrow> length (wire ls) \<le> room f \<Longrightarrow>
     put_loop (text_of ls) [] f = (True, f\<lparr>written := written f @ wire ls, room := room f - length (wire ls)\<rparr>)"
proof (induction ls arbitrary: f)
  case Nil
  then show ?case by (simp add: wire_def)
next
  case (Cons l ls)
  let ?s = "stuffed l @ [CR, LF]"
  let ?f = "f\<lparr>written := written f @ ?s, room := room f - length ?s\<rparr>"
  have w: "wire (l # ls) = ?s @ wire ls" by (simp add: wire_def)
  have l: "LF \<notin> set l" "length [] + length l < MAXCHAR" using Cons.prems by (auto simp: sendable_def)
  have "put_loop (text_of (l # ls)) [] f = put_loop (LF # text_of ls) l f"
    using put_loop_run [OF l, of "LF # text_of ls" f] by simp
  also have "\<dots> = put_loop (text_of ls) [] ?f"
    using Cons.prems w by (simp add: put_loop.simps(2) putTxtLn_stuffed fprint_room)
  also have "\<dots> = (True, f\<lparr>written := written f @ wire (l # ls), room := room f - length (wire (l # ls))\<rparr>)"
    using Cons.IH [of ?f] Cons.prems w by simp
  finally show ?case .
qed

lemma chomp_CRLF: "chomp (l @ [CR, LF]) = l"
  by (simp add: chomp_def nth_append)

lemma getLn_CRLF:
  assumes "LF \<notin> set l" "proper l" "length l + 2 < MAXCHAR" "t < 0 \<or> sig_ok"
  shows "Prt_getLn sig_ok t (l @ [CR, LF] @ r) = (Some l, r)"
proof -
  have "fgets ((l @ [CR]) @ LF # r) = Some ((l @ [CR]) @ [LF], r)"
    by (rule fgets_run) (use assms in auto)
  with assms(4) chomp_CRLF [of l] show ?thesis by (auto simp: Prt_getLn_def)
qed

lemma getTxtLn_stuffed:
  assumes "sendable l" "t < 0 \<or> sig_ok"
  shows "Prt_getTxtLn sig_ok t (stuffed l @ [CR, LF] @ r) = (Txt_line l, r)"
proof -
  have "Prt_getLn sig_ok t (stuffed l @ [CR, LF] @ r) = (Some (stuffed l), r)"
    by (rule getLn_CRLF) (use assms in \<open>auto simp: sendable_def stuffed_def\<close>)
  then show ?thesis by (auto simp: Prt_getTxtLn_def stuffed_def)
qed

text \<open>The loop that reads a text: the lines, how it ended, and what follows.\<close>

function recv_text :: "bool \<Rightarrow> int \<Rightarrow> cstr \<Rightarrow> cstr list \<times> txt_ln \<times> cstr" where
  "recv_text sig_ok t f =
     (case Prt_getTxtLn sig_ok t f of
        (Txt_line l, f') \<Rightarrow> (let (ls, e, r) = recv_text sig_ok t f' in (l # ls, e, r))
      | (e, f') \<Rightarrow> ([], e, f'))"
  by pat_completeness auto

termination
  by (relation "measure (\<lambda>(_, _, f). length f)")
     (auto simp: Prt_getTxtLn_def Prt_getLn_def dest: fgets_shorter split: if_splits option.splits)

declare recv_text.simps [simp del]

lemma recv_wire:
  "list_all sendable ls \<Longrightarrow> t < 0 \<or> sig_ok \<Longrightarrow>
     recv_text sig_ok t (wire ls @ ''.'' @ [CR, LF] @ r) = (ls, Txt_end, r)"
proof (induction ls)
  case Nil
  have "Prt_getLn sig_ok t (''.'' @ [CR, LF] @ r) = (Some ''.'', r)"
    by (rule getLn_CRLF) (use Nil in \<open>auto simp: MAXCHAR_def\<close>)
  then have "Prt_getTxtLn sig_ok t (''.'' @ [CR, LF] @ r) = (Txt_end, r)" by (simp add: Prt_getTxtLn_def)
  then show ?case by (subst recv_text.simps) (simp add: wire_def)
next
  case (Cons l ls)
  have "Prt_getTxtLn sig_ok t (stuffed l @ [CR, LF] @ wire ls @ ''.'' @ [CR, LF] @ r)
      = (Txt_line l, wire ls @ ''.'' @ [CR, LF] @ r)"
    by (rule getTxtLn_stuffed) (use Cons in auto)
  with Cons show ?case by (subst recv_text.simps) (simp add: wire_def)
qed

text \<open>C19. A text of lines that fit their buffers, sent by \<open>Prt_putTxtBuf\<close> and \<open>Prt_putEndOfTxt\<close>, is
  read back line by line by \<open>Prt_getTxtLn\<close>, lines with dots in front included, and the reader stops
  exactly behind its end; both senders report success when there is room for it.\<close>

theorem Prt_text_roundtrip:
  assumes "list_all sendable ls" "length (wire ls) + 3 \<le> room f" "t < 0 \<or> sig_ok"
  shows "\<exists>f1 f2 w. Prt_putTxtBuf (text_of ls) f = (True, f1) \<and> Prt_putEndOfTxt f1 = (True, f2)
    \<and> written f2 = written f @ w \<and> recv_text sig_ok t (w @ r) = (ls, Txt_end, r)"
proof -
  let ?f = "f\<lparr>written := written f @ wire ls, room := room f - length (wire ls)\<rparr>"
  have "Prt_putTxtBuf (text_of ls) f = (True, ?f)"
    using put_loop_lines [OF assms(1), of f] assms(2) by (simp add: Prt_putTxtBuf_def)
  moreover have "Prt_putEndOfTxt ?f = (True, ?f\<lparr>written := written ?f @ ''.'' @ [CR, LF], room := room ?f - 3\<rparr>)"
    using assms(2) by (simp add: Prt_putEndOfTxt_def fprint_room)
  moreover have "recv_text sig_ok t ((wire ls @ ''.'' @ [CR, LF]) @ r) = (ls, Txt_end, r)"
    using recv_wire [OF assms(1,3)] by simp
  ultimately show ?thesis by fastforce
qed

theorem Prt_text_roundtrip_witness:
  "\<exists>f1 f2 w. Prt_putTxtBuf (text_of [''.a'', '''', ''b'']) \<lparr>written = [], room = 100\<rparr> = (True, f1)
     \<and> Prt_putEndOfTxt f1 = (True, f2) \<and> written f2 = w
     \<and> recv_text True 30 (w @ ''next'') = ([''.a'', '''', ''b''], Txt_end, ''next'')"
proof -
  have s: "list_all sendable [''.a'', '''', ''b'']" by (simp add: sendable_def MAXCHAR_def)
  have r: "length (wire [''.a'', '''', ''b'']) + 3 \<le> room \<lparr>written = [], room = 100\<rparr>"
    by (simp add: wire_def stuffed_def)
  from Prt_text_roundtrip [OF s r, of 30 True "''next''"] show ?thesis by simp
qed

text \<open>A line of more than 2047 characters is cut, and its pieces are treated as lines of their own: the
  first is not stuffed, and a piece that begins with a dot is.\<close>

lemma put_long_line:
  assumes "length a = MAXCHAR - 1" "LF \<notin> set a" "length a + 5 \<le> room f"
  shows "put_loop (a @ ''.x'' @ [LF]) [] f =
    (True, f\<lparr>written := written f @ a @ ''..x'' @ [CR, LF], room := room f - (length a + 5)\<rparr>)"
proof -
  have "put_loop (a @ ''.x'' @ [LF]) [] f = put_loop (''.x'' @ [LF]) a f"
    using put_loop_run [of a "[]" "''.x'' @ [LF]" f] assms(1,2) by (simp add: MAXCHAR_def)
  with assms show ?thesis
    by (simp add: put_loop.simps(2) fprint_room putTxtLn_stuffed stuffed_def MAXCHAR_def)
qed

subsection \<open>Valid message IDs\<close>

lemma cstrstr_single: "cstrstr s [c] = (if c \<in> set s then Some (dropWhile (\<lambda>d. d \<noteq> c) s) else None)"
proof (induction s)
  case (Cons d s)
  then show ?case by (subst cstrstr.simps) auto
qed (simp add: cstrstr.simps)

lemma split_first: "h @ c # q = h' @ c # q' \<Longrightarrow> c \<notin> set h \<Longrightarrow> c \<notin> set h' \<Longrightarrow> h = h' \<and> q = q'"
proof (induction h arbitrary: h')
  case Nil
  then show ?case by (cases h') auto
next
  case (Cons d h)
  then show ?case by (cases h') auto
qed

lemma cpyStrN_prefix: "0 \<le> n \<Longrightarrow> length s < MAXCHAR \<Longrightarrow> Utl_cpyStrN s n = Some (take (nat n) s)"
  by (auto simp: Utl_cpyStrN_def strncat_def as_size_def MAXCHAR_def Let_def)

lemma valid_msgId:
  assumes "length m < MAXCHAR"
  shows "Prt_isValidMsgId m = Some (\<exists>h d. m = ''<'' @ h @ ''@'' @ d @ ''>'' \<and> CHR ''@'' \<notin> set h \<and> CHR ''.'' \<in> set d)"
    (is "_ = Some ?R")
proof (cases "m = [] \<or> hd m \<noteq> CHR ''<'' \<or> last m \<noteq> CHR ''>'' \<or> CHR ''@'' \<notin> set m")
  case True
  then have "\<not> ?R" by auto
  with True show ?thesis by (auto simp: Prt_isValidMsgId_def cstrstr_single Let_def)
next
  case False
  then obtain t where t: "m = CHR ''<'' # t" by (cases m) auto
  define h where "h = takeWhile (\<lambda>c. c \<noteq> CHR ''@'') t"
  define q where "q = tl (dropWhile (\<lambda>c. c \<noteq> CHR ''@'') t)"
  from False t have "CHR ''@'' \<in> set t" by auto
  then have "dropWhile (\<lambda>c. c \<noteq> CHR ''@'') t \<noteq> []" by (auto simp: dropWhile_eq_Nil_conv)
  then have dw: "dropWhile (\<lambda>c. c \<noteq> CHR ''@'') t = CHR ''@'' # q"
    unfolding q_def using hd_dropWhile [of "\<lambda>c. c \<noteq> CHR ''@''" t] by (cases "dropWhile (\<lambda>c. c \<noteq> CHR ''@'') t") auto
  then have m: "m = CHR ''<'' # h @ CHR ''@'' # q" unfolding t h_def by (metis takeWhile_dropWhile_id)
  have hh: "CHR ''@'' \<notin> set h" by (auto simp: h_def dest: set_takeWhileD)
  from False m obtain d where q: "q = d @ ''>''"
    by (cases q rule: rev_cases) (auto split: if_splits)
  have "?R \<longleftrightarrow> CHR ''.'' \<in> set d"
  proof
    assume ?R
    then obtain h' d' where e: "m = ''<'' @ h' @ ''@'' @ d' @ ''>''" "CHR ''@'' \<notin> set h'" "CHR ''.'' \<in> set d'" by blast
    then have "h @ CHR ''@'' # q = h' @ CHR ''@'' # d' @ ''>''" by (simp add: m)
    with hh e(2) have "q = d' @ ''>''" by (blast dest: split_first)
    with q e(3) show "CHR ''.'' \<in> set d" by simp
  next
    assume "CHR ''.'' \<in> set d"
    with m q hh show ?R by (intro exI [of _ h] exI [of _ d]) simp
  qed
  moreover have "Prt_isValidMsgId m = Some (CHR ''.'' \<in> set d)"
  proof -
    have p: "cstrstr m ''@'' = Some (CHR ''@'' # q)" using False t dw by (auto simp: cstrstr_single)
    have len: "length (CHR ''@'' # q) + length h + 1 = length m" by (simp add: m)
    have "Utl_cpyStrN (tl m) (int (length m) - int (length (CHR ''@'' # q)) - 1) \<noteq> None"
      using cpyStrN_prefix [of "int (length m) - int (length (CHR ''@'' # q)) - 1" "tl m"] len assms by simp
    moreover have "length q < MAXCHAR" using len assms by simp
    ultimately show ?thesis using False p q
      by (auto simp: Prt_isValidMsgId_def Let_def cstrstr_single butlast_append)
  qed
  ultimately show ?thesis by simp
qed

text \<open>C21. On every string that fits a \<open>Str\<close>, \<open>Prt_isValidMsgId\<close> accepts exactly the strings
  \<open><head@domain>\<close> with no at sign in the head and a dot in the domain, and stays in its buffers.\<close>

theorem Prt_isValidMsgId_iff:
  "length m < MAXCHAR \<Longrightarrow> Prt_isValidMsgId m =
     Some (\<exists>h d. m = ''<'' @ h @ ''@'' @ d @ ''>'' \<and> CHR ''@'' \<notin> set h \<and> CHR ''.'' \<in> set d)"
  by (rule valid_msgId)

theorem Prt_isValidMsgId_iff_witness:
  "Prt_isValidMsgId ''<a@b.c>'' = Some True"
proof -
  have len: "length ''<a@b.c>'' < MAXCHAR" by (simp add: MAXCHAR_def)
  have ex: "\<exists>h d. ''<a@b.c>'' = ''<'' @ h @ ''@'' @ d @ ''>'' \<and> CHR ''@'' \<notin> set h \<and> CHR ''.'' \<in> set d"
    by (intro exI [of _ "''a''"] exI [of _ "''b.c''"]) simp
  show ?thesis by (rule trans [OF Prt_isValidMsgId_iff [OF len]]) (simp only: ex)
qed

lemma hex_nat_chars: "c \<in> set (hex_nat n) \<Longrightarrow> c \<noteq> CHR ''@''"
proof (induction n rule: hex_nat.induct)
  case (1 n)
  have d: "hex_upper k \<noteq> CHR ''@''" if "k < 16" for k
  proof -
    have "k \<in> set [0..<16]" using that by simp
    moreover have "list_all (\<lambda>k. hex_upper k \<noteq> CHR ''@'') [0..<16]" by code_simp
    ultimately show ?thesis by (auto simp: list_all_iff)
  qed
  from 1 d [of n] d [of "n mod 16"] show ?case
    by (subst (asm) (2) hex_nat.simps) (auto split: if_splits)
qed

lemma set_tl_dropWhile: "set (tl (dropWhile P s)) \<subseteq> set s"
  by (induction s) auto

lemma getDomain_dot:
  assumes "case fqdn of Some h \<Rightarrow> length h + 6 < MAXCHAR | None \<Rightarrow> length frm + 13 < MAXCHAR"
  shows "\<exists>d. getDomain fqdn frm = Some d \<and> CHR ''.'' \<in> set d
    \<and> length d \<le> (case fqdn of Some h \<Rightarrow> length h | None \<Rightarrow> length frm + 7) + 6"
proof -
  have main: "\<exists>d. getDomain fqdn frm = Some d \<and> CHR ''.'' \<in> set d \<and> length d \<le> length my + 6"
    if "getDomain fqdn frm = Some (take (MAXCHAR - 1) (my @ (if cstrstr st ''.'' = None then ''.local'' else '''')))"
      "set st \<subseteq> set my" "length my + 6 < MAXCHAR" for my st
    using that by (auto simp: cstrstr_single)
  show ?thesis
  proof (cases fqdn)
    case (Some h)
    let ?st = "case cstrstr h ''.'' of Some p \<Rightarrow> tl p | None \<Rightarrow> h"
    have "set ?st \<subseteq> set h" using set_tl_dropWhile [of _ h] by (auto simp: cstrstr_single)
    with main [of h ?st] assms Some show ?thesis by (simp add: getDomain_def Utl_cpyStr_eq Let_def)
  next
    case None
    obtain d where d: "(case cstrstr frm ''@'' of None \<Rightarrow> Some [] | Some p1 \<Rightarrow> (case cstrstr p1 ''>'' of None \<Rightarrow> Some []
        | Some p2 \<Rightarrow> Utl_cpyStrN (tl p1) (int (length p1) - int (length p2) - 1))) = Some d" "length d \<le> length frm"
    proof (cases "cstrstr frm ''@''")
      case n: None
      with that [of "[]"] show ?thesis by simp
    next
      case p1: (Some p1)
      from cstrstr_Some [OF p1] obtain u0 v0 where "frm = u0 @ p1" "p1 = ''@'' @ v0" by blast
      then have l1: "length p1 \<le> length frm" "p1 \<noteq> []" "hd p1 = CHR ''@''" by auto
      show ?thesis
      proof (cases "cstrstr p1 ''>''")
        case n: None
        with p1 that [of "[]"] show ?thesis by simp
      next
        case p2: (Some p2)
        from cstrstr_Some [OF p2] obtain u v where "p1 = u @ p2" "p2 = ''>'' @ v" by blast
        with l1 have "length p2 < length p1" by (cases u) auto
        then have "Utl_cpyStrN (tl p1) (int (length p1) - int (length p2) - 1)
            = Some (take (nat (int (length p1) - int (length p2) - 1)) (tl p1))"
          using l1(1) assms None by (intro cpyStrN_prefix) auto
        with p1 p2 that l1(1) show ?thesis by simp
      qed
    qed
    let ?my = "if d = [] then ''unknown'' else d"
    have "Utl_cpyStr ''unknown'' = Some ''unknown''" by (rule Utl_cpyStr_eq) (simp add: MAXCHAR_def)
    with d(1) None have "getDomain fqdn frm =
        Some (take (MAXCHAR - 1) (?my @ (if cstrstr ?my ''.'' = None then ''.local'' else '''')))"
      by (simp add: getDomain_def Let_def)
    with main [of ?my ?my] d(2) assms None show ?thesis by (auto split: if_splits)
  qed
qed

text \<open>C23. The message ID that \<open>Prt_genMsgId\<close> makes is one that \<open>Prt_isValidMsgId\<close> accepts, whatever the
  host name or the From line, as long as the date and the suffix have no at sign and the parts fit.\<close>

theorem Prt_genMsgId_valid:
  assumes "CHR ''@'' \<notin> set date" "CHR ''@'' \<notin> set suffix"
    "length date + length (hex_nat rnd) + length suffix
       + (case fqdn of Some h \<Rightarrow> length h | None \<Rightarrow> length frm) + 20 < MAXCHAR"
  shows "\<exists>m. Prt_genMsgId fqdn date rnd frm suffix = Some m \<and> Prt_isValidMsgId m = Some True"
proof -
  obtain d where d: "getDomain fqdn frm = Some d" "CHR ''.'' \<in> set d"
    "length d \<le> (case fqdn of Some h \<Rightarrow> length h | None \<Rightarrow> length frm + 7) + 6"
    using getDomain_dot [where fqdn = fqdn and frm = frm] assms(3) by (auto split: option.splits)
  let ?h = "date @ ''.'' @ hex_nat rnd @ ''.'' @ suffix"
  let ?m = "''<'' @ ?h @ ''@'' @ d @ ''>''"
  have len: "length ?m < MAXCHAR" using d(3) assms(3) by (auto split: option.splits)
  then have "Prt_genMsgId fqdn date rnd frm suffix = Some ?m" using d(1) by (simp add: Prt_genMsgId_def)
  moreover have "CHR ''@'' \<notin> set ?h" using assms(1,2) hex_nat_chars by auto
  with d(2) have "\<exists>h d. ?m = ''<'' @ h @ ''@'' @ d @ ''>'' \<and> CHR ''@'' \<notin> set h \<and> CHR ''.'' \<in> set d" by blast
  with valid_msgId [OF len] have "Prt_isValidMsgId ?m = Some True" by simp
  ultimately show ?thesis by blast
qed

theorem Prt_genMsgId_valid_witness:
  "\<exists>m. Prt_genMsgId (Some ''host.org'') ''19700101000000'' 255 '''' ''1'' = Some m \<and> Prt_isValidMsgId m = Some True"
proof -
  have "length (hex_nat 255) = 2" by code_simp
  then show ?thesis
    by (intro Prt_genMsgId_valid) (simp_all add: MAXCHAR_def)
qed

text \<open>Only the part behind the first dot is looked at when \<open>.local\<close> is appended, so a host name with
  a single dot gets it too.\<close>

lemma getDomain_local: "getDomain (Some ''host.org'') frm = Some ''host.org.local''"
  by (simp add: getDomain_def Utl_cpyStr_def strncat_def MAXCHAR_def cstrstr_single Let_def)

subsection \<open>Searching a header\<close>

definition hdr_line :: "cstr \<times> cstr \<Rightarrow> cstr" where
  "hdr_line nv = fst nv @ '':'' @ snd nv"

definition hdr_ok :: "cstr \<times> cstr \<Rightarrow> bool" where
  "hdr_ok nv \<longleftrightarrow> fst nv \<noteq> [] \<and> (\<forall>c \<in> set (fst nv). \<not> cisspace c \<and> c \<noteq> CHR '':'')
     \<and> snd nv \<noteq> [] \<and> \<not> cisspace (last (snd nv)) \<and> proper (hdr_line nv) \<and> LF \<notin> set (hdr_line nv)
     \<and> length (hdr_line nv) < MAXCHAR"

lemma ctolower_simps [simp]:
  "cisspace (ctolower c) = cisspace c" "ctolower c = CHR '':'' \<longleftrightarrow> c = CHR '':''"
  "ctolower c = NUL \<longleftrightarrow> c = NUL"
  by (auto simp: ctolower_def cisspace_def dest!: arg_cong [where f = "of_char :: char \<Rightarrow> nat"]
      simp: of_char_mod_256)

lemma strip_at_word:
  "s \<noteq> [] \<Longrightarrow> \<not> cisspace (hd s) \<Longrightarrow> \<not> cisspace (last s) \<Longrightarrow> proper s \<Longrightarrow> strip_at pre s = Some s"
proof -
  assume s: "s \<noteq> []" "\<not> cisspace (hd s)" "\<not> cisspace (last s)" "proper s"
  then have "strip s = s" using strip_run [of s "[]"] by simp
  moreover have "\<not> blank s" using s by (cases s) (auto simp: blank_def)
  ultimately show ?thesis using Utl_stripWhiteSpace_strip [of s pre] s by (simp add: strip_at_def)
qed

lemma strip_at_strip: "\<not> blank s \<Longrightarrow> proper s \<Longrightarrow> strip_at pre s = Some (strip s)"
  by (simp add: strip_at_def Utl_stripWhiteSpace_strip)

lemma strip_at_empty: "pre \<noteq> [] \<Longrightarrow> \<not> cisspace (last pre) \<Longrightarrow> strip_at pre [] = Some []"
  by (cases pre rule: rev_cases) (auto simp: strip_at_def Utl_stripWhiteSpace_def)

lemma proper_toLower [simp]: "proper (Utl_toLower s) = proper s"
  by (induction s) (simp_all add: Utl_toLower_def)

lemma getField_line:
  assumes "hdr_ok nv"
  shows "Prt_getField pre (hdr_line nv) = Some (True, Utl_toLower (fst nv), Some (strip (snd nv)))"
proof -
  obtain n v where nv: "nv = (n, v)" by (cases nv)
  from assms have n: "n \<noteq> []" "\<forall>c \<in> set n. \<not> cisspace c \<and> c \<noteq> CHR '':''" and
    v: "v \<noteq> []" "\<not> cisspace (last v)" "proper n" "proper v" and len: "length (n @ '':'' @ v) < MAXCHAR"
    by (auto simp: hdr_ok_def hdr_line_def nv)
  let ?l = "Utl_toLower n" and ?r = "CHR '':'' # Utl_toLower v"
  have low: "Utl_toLower (n @ '':'' @ v) = ?l @ ?r" by (simp add: Utl_toLower_def)
  have l: "?l \<noteq> []" "\<forall>c \<in> set ?l. \<not> cisspace c \<and> c \<noteq> CHR '':''"
    using n by (auto simp: Utl_toLower_def)
  have "proper (?l @ ?r)" using v(3,4) by simp
  then have st: "strip_at pre (?l @ ?r) = Some (?l @ ?r)"
    using l v(1,2) by (intro strip_at_word) (simp_all add: Utl_toLower_def last_map hd_map)
  have tw: "takeWhile (\<lambda>c. \<not> cisspace c \<and> c \<noteq> CHR '':'') (?l @ ?r) = ?l"
    by (rule takeWhile_run) (use l in auto)
  have off: "takeWhile cisspace (?l @ ?r) = []" using l by (cases ?l) auto
  have q: "dropWhile cisspace ?r = ?r" by (simp add: cisspace_def)
  have "\<not> blank v" using v(1,2) by (auto simp: blank_def list_all_iff)
  then have sv: "strip_at pre v = Some (strip v)" by (rule strip_at_strip [OF _ v(4)])
  have k: "length ?l = length n" "length (Utl_toLower v) = length v" by (simp_all add: Utl_toLower_def)
  show ?thesis
    unfolding Prt_getField_def nv hdr_line_def fst_conv snd_conv Utl_cpyStr_eq [OF len] low bind.bind_lunit Let_def
      st tw off
    using q sv k by (simp add: Utl_toLower_def)
qed

lemma header_line_run:
  "LF \<notin> set l \<Longrightarrow> len + length l < MAXCHAR \<Longrightarrow> header_line len dst (l @ LF # s) = Some (dst @ l, s)"
proof (induction l arbitrary: len dst)
  case Nil
  then show ?case by (simp add: header_line.simps)
next
  case (Cons c l)
  then show ?case by (subst header_line.simps) auto
qed

lemma search_header_lines:
  assumes "pre \<noteq> []" "\<not> cisspace (last pre)"
  shows "list_all hdr_ok hs \<Longrightarrow>
    \<exists>res. search_header pre w (text_of (map hdr_line hs) @ LF # body) result =
      Some (case find (\<lambda>nv. Utl_toLower (fst nv) = w) hs of None \<Rightarrow> (False, res) | Some nv \<Rightarrow> (True, strip (snd nv)))"
proof (induction hs arbitrary: result)
  case Nil
  then show ?case using strip_at_empty [OF assms]
    by (subst search_header.simps) (simp add: header_line.simps MAXCHAR_def)
next
  case (Cons nv hs)
  then have ok: "hdr_ok nv" by simp
  let ?l = "hdr_line nv"
  from ok have h: "LF \<notin> set ?l" "0 + length ?l < MAXCHAR" by (simp_all add: hdr_ok_def)
  have w: "?l \<noteq> []" "\<not> cisspace (hd ?l)" "\<not> cisspace (last ?l)" "proper ?l"
    using ok by (auto simp: hdr_ok_def hdr_line_def)
  have tw: "takeWhile cisspace ?l = []" using w by (cases ?l) auto
  note line = header_line_run [OF h, of "[]" "text_of (map hdr_line hs) @ LF # body"]
  have step: "search_header pre w (text_of (map hdr_line (nv # hs)) @ LF # body) result =
      (if Utl_toLower (fst nv) = w then Some (True, strip (snd nv))
       else search_header pre w (text_of (map hdr_line hs) @ LF # body) (strip (snd nv)))"
    using h line w(1) strip_at_word [OF w] getField_line [OF ok, of pre]
    by (subst search_header.simps) (simp add: tw)
  from Cons.IH [of "strip (snd nv)"] Cons.prems step show ?case by auto
qed

text \<open>C20. \<open>Prt_searchHeader\<close> finds the first field of the header whose name is the wanted one up to
  case, and returns its value without the white space around it; it stops at the empty line behind
  the header and never looks at the body.\<close>

theorem Prt_searchHeader_first:
  "pre \<noteq> [] \<Longrightarrow> \<not> cisspace (last pre) \<Longrightarrow> list_all hdr_ok hs \<Longrightarrow> length which < MAXCHAR \<Longrightarrow>
     \<exists>res. Prt_searchHeader pre (text_of (map hdr_line hs) @ LF # body) which result =
       Some (case find (\<lambda>nv. Utl_toLower (fst nv) = Utl_toLower which) hs of
               None \<Rightarrow> (False, res) | Some nv \<Rightarrow> (True, strip (snd nv)))"
  by (simp add: Prt_searchHeader_def Utl_cpyStr_eq search_header_lines)

theorem Prt_searchHeader_first_witness:
  "Prt_searchHeader ''x'' (text_of [''From: me'', ''Subject: Hi there''] @ LF # ''Lines: 3'') ''SUBJECT'' ''''
     = Some (True, ''Hi there'')"
proof -
  let ?hs = "[(''From'', '' me''), (''Subject'', '' Hi there'')]"
  have h: "list_all hdr_ok ?hs" by (simp add: hdr_ok_def hdr_line_def cisspace_def MAXCHAR_def)
  have l: "Utl_toLower ''SUBJECT'' = ''subject''" "Utl_toLower ''From'' = ''from''" "Utl_toLower ''Subject'' = ''subject''"
    by code_simp+
  have s: "strip '' Hi there'' = ''Hi there''" by code_simp
  have m: "map hdr_line ?hs = [''From: me'', ''Subject: Hi there'']" by (simp add: hdr_line_def)
  have p: "''x'' \<noteq> []" "\<not> cisspace (last ''x'')" "length ''SUBJECT'' < MAXCHAR"
    by (simp_all add: cisspace_def MAXCHAR_def)
  from Prt_searchHeader_first [OF p(1,2) h p(3), of "''Lines: 3''" "''''"] show ?thesis
    unfolding m by (simp add: l s del: text_of_simps)
qed

text \<open>A field with an empty value makes \<open>Utl_stripWhiteSpace\<close> look before its buffer.\<close>

lemma getField_empty: "Prt_getField [] ''X:'' = None"
  by (simp add: Prt_getField_def strip_at_def Utl_stripWhiteSpace_def Utl_cpyStr_def strncat_def MAXCHAR_def
      Utl_toLower_def ctolower_def cisspace_def Let_def char_of_def)

end
