(* ===== verification/Database.thy ===== *)
theory Database
  imports Gdbm Overview Protocol
begin

text \<open>
  The article data base, \<^verbatim>\<open>noffle-1.0.1/src/database.c\<close>: a gdbm file of articles and a cache of one
  article in the static struct \<open>db\<close>.

  The library gdbm is the parameter of the theory Gdbm; a store that fails is undefined, because its
  error message has one argument too few.  The text of the loaded article, a \<open>DynStr\<close>, is the
  string it stands for (theory Dynstr).  \<open>time_t\<close> and \<open>size_t\<close> have 32 bits.  The abstract data
  base is a map from message IDs to articles, and the operations refine lookup and update of it.
  \<open>None\<close> is an access outside an object, or a string that is left without its NUL.
\<close>

definition DB_INTERESTING :: u32 where "DB_INTERESTING = 1"
definition DB_NOT_DOWNLOADED :: u32 where "DB_NOT_DOWNLOADED = 2"
definition DB_RETRIEVING_FAILED :: u32 where "DB_RETRIEVING_FAILED = 4"

record art =
  a_status :: u32
  a_lastAccess :: u32
  a_subj :: cstr
  a_from :: cstr
  a_date :: cstr
  a_ref :: cstr
  a_xref :: cstr
  a_bytes :: u32
  a_lines :: u32
  a_txt :: cstr

record 'db database =
  db_msgId :: cstr
  db_art :: art
  db_dbf :: 'db

definition no_art :: art where
  "no_art = \<lparr>a_status = 0, a_lastAccess = 0, a_subj = [], a_from = [], a_date = [], a_ref = [],
     a_xref = [], a_bytes = 0, a_lines = 0, a_txt = []\<rparr>"

subsection \<open>Numbers of a record\<close>

text \<open>\<open>%u\<close> and \<open>%lu\<close>, which read like \<open>strtoul\<close>.\<close>

definition as_ulong :: "int \<Rightarrow> u32" where
  "as_ulong i = (if \<bar>i\<bar> < 2 ^ 32 then word_of_int i else - 1)"

definition scan_u :: "cstr \<Rightarrow> u32 option" where
  "scan_u s = map_option (\<lambda>(i, _). as_ulong i) (scan_d s)"

definition scan_hex :: "cstr \<Rightarrow> nat option" where
  "scan_hex s =
     (let ds = (if take 2 s = ''0x'' \<or> take 2 s = ''0X'' then drop 2 s else s) in
      case takeWhile (base_digit 16) ds of [] \<Rightarrow> None | hs \<Rightarrow> Some (base_val 16 hs))"

text \<open>\<open>%x\<close>.\<close>

definition scan_x :: "cstr \<Rightarrow> u32 option" where
  "scan_x s =
     (case dropWhile cisspace s of
        [] \<Rightarrow> None
      | c # r \<Rightarrow>
          if c = CHR ''-'' then map_option (\<lambda>n. as_ulong (- int n)) (scan_hex r)
          else if c = CHR ''+'' then map_option (\<lambda>n. as_ulong (int n)) (scan_hex r)
          else map_option (\<lambda>n. as_ulong (int n)) (scan_hex (c # r)))"

definition hex_lower :: "nat \<Rightarrow> char" where
  "hex_lower d = (if d < 10 then char_of (48 + d) else char_of (87 + d))"

fun fmt_x :: "nat \<Rightarrow> cstr" where
  "fmt_x n = (if n < 16 then [hex_lower n] else fmt_x (n div 16) @ [hex_lower (n mod 16)])"

declare fmt_x.simps [simp del]

definition fmt_u :: "u32 \<Rightarrow> cstr" where
  "fmt_u w = dec_nat (unat w)"

text \<open>\<open>%lu\<close> of an \<open>int\<close>.\<close>

definition fmt_lu :: "int \<Rightarrow> cstr" where
  "fmt_lu i = fmt_u (word_of_int i)"

subsection \<open>Loading and saving\<close>

text \<open>\<open>Utl_getLn\<close> on a pointer that may be null, into the scratch buffer \<open>t\<close>.\<close>

definition next_ln :: "cstr option \<Rightarrow> (cstr \<times> cstr option) option" where
  "next_ln p =
     (case p of
        None \<Rightarrow> Some ([], None)
      | Some q \<Rightarrow>
          (case Utl_getLn q of
             No_line \<Rightarrow> Some ([], None)
           | Past_end l \<Rightarrow> None
           | Got_line l r \<Rightarrow> Some (l, Some r)))"

text \<open>\<open>Utl_getLn\<close> into a field: a line without its newline overwrites the start of the old value.\<close>

definition field_ln :: "cstr \<Rightarrow> cstr option \<Rightarrow> (cstr \<times> cstr option) option" where
  "field_ln old p =
     (case p of
        None \<Rightarrow> Some (old, None)
      | Some q \<Rightarrow>
          (case Utl_getLn q of
             No_line \<Rightarrow> if length q \<le> length old then Some (q @ drop (length q) old, None) else None
           | Past_end l \<Rightarrow> None
           | Got_line l r \<Rightarrow> Some (l, Some r)))"

text \<open>A line with a number: the inner option is the failure of the conversion.\<close>

definition num_ln :: "(cstr \<Rightarrow> u32 option) \<Rightarrow> cstr option \<Rightarrow> (u32 \<times> cstr) option option" where
  "num_ln conv p =
     do { (t, q) \<leftarrow> next_ln p;
          Some (case q of None \<Rightarrow> None | Some r \<Rightarrow> map_option (\<lambda>n. (n, r)) (conv t)) }"

text \<open>The part of \<open>loadArt\<close> that reads the entry; on a corrupt entry the fields read so far stay.\<close>

definition load_art :: "cstr \<Rightarrow> art \<Rightarrow> (bool \<times> art) option" where
  "load_art dptr a0 =
     do { r1 \<leftarrow> num_ln scan_x (Some dptr);
     case r1 of None \<Rightarrow> Some (False, a0) | Some (st, p) \<Rightarrow> do {
     let a1 = a0\<lparr>a_status := st\<rparr>;
     r2 \<leftarrow> num_ln scan_u (Some p);
     case r2 of None \<Rightarrow> Some (False, a1) | Some (la, p) \<Rightarrow> do {
     let a2 = a1\<lparr>a_lastAccess := la\<rparr>;
     (subj, p) \<leftarrow> field_ln (a_subj a2) (Some p);
     (frm, p) \<leftarrow> field_ln (a_from a2) p;
     (date, p) \<leftarrow> field_ln (a_date a2) p;
     (ref, p) \<leftarrow> field_ln (a_ref a2) p;
     (xref, p) \<leftarrow> field_ln (a_xref a2) p;
     let a3 = a2\<lparr>a_subj := subj, a_from := frm, a_date := date, a_ref := ref, a_xref := xref\<rparr>;
     case p of None \<Rightarrow> Some (False, a3) | Some p \<Rightarrow> do {
     r4 \<leftarrow> num_ln scan_u (Some p);
     case r4 of None \<Rightarrow> Some (False, a3) | Some (b, p) \<Rightarrow> do {
     let a4 = a3\<lparr>a_bytes := b\<rparr>;
     r5 \<leftarrow> num_ln scan_u (Some p);
     case r5 of None \<Rightarrow> Some (False, a4) | Some (l, p) \<Rightarrow>
       Some (True, a4\<lparr>a_lines := l, a_txt := p\<rparr>) } } } } }"

definition loadArt :: "'db gdbm \<Rightarrow> cstr \<Rightarrow> 'db database \<Rightarrow> (bool \<times> 'db database) option" where
  "loadArt lib msgId db =
     (if msgId = db_msgId db then Some (True, db)
      else case g_fetch lib (db_dbf db) (key_of msgId) of
             None \<Rightarrow> Some (False, db)
           | Some val \<Rightarrow>
               do { m \<leftarrow> Utl_cpyStr msgId;
                    (dptr, _) \<leftarrow> take_str val;
                    (b, a) \<leftarrow> load_art dptr (db_art db);
                    Some (b, db\<lparr>db_msgId := m, db_art := a\<rparr>) })"

definition art_text :: "art \<Rightarrow> cstr" where
  "art_text a =
     text_of [fmt_x (unat (a_status a)), fmt_u (a_lastAccess a), a_subj a, a_from a, a_date a, a_ref a,
              a_xref a, fmt_u (a_bytes a), fmt_u (a_lines a)] @ a_txt a"

definition saveArt :: "'db gdbm \<Rightarrow> 'db database \<Rightarrow> (bool \<times> 'db database) option" where
  "saveArt lib db =
     (if db_msgId db = [] then Some (False, db)
      else let (d, ok) = g_store lib (db_dbf db) (key_of (db_msgId db)) (bytes_of (art_text (db_art db)) @ [0])
           in if ok then Some (True, db\<lparr>db_dbf := d\<rparr>) else None)"

definition Db_close :: "'db database \<Rightarrow> 'db database" where
  "Db_close db = db\<lparr>db_msgId := []\<rparr>"

text \<open>\<open>opened\<close> is what \<open>gdbm_open\<close> gives; with the data base comes the start of the Xref lines.\<close>

definition Db_open :: "cstr \<Rightarrow> 'db option \<Rightarrow> 'db database \<Rightarrow> cstr option \<times> 'db database" where
  "Db_open host opened db =
     (case opened of
        None \<Rightarrow> (None, db)
      | Some d \<Rightarrow> (Some (take (MAXCHAR - 1) (''Xref: '' @ host)), db\<lparr>db_dbf := d, db_art := (db_art db)\<lparr>a_txt := []\<rparr>\<rparr>))"

text \<open>The cursor is the key last returned.\<close>

definition Db_first :: "'db gdbm \<Rightarrow> 'db database \<Rightarrow> cstr option" where
  "Db_first lib db = g_firstkey lib (db_dbf db)"

definition Db_next :: "'db gdbm \<Rightarrow> cstr option \<Rightarrow> 'db database \<Rightarrow> cstr option" where
  "Db_next lib key db = (case key of None \<Rightarrow> None | Some k \<Rightarrow> g_nextkey lib (db_dbf db) k)"

definition Db_contains :: "'db gdbm \<Rightarrow> cstr \<Rightarrow> 'db database \<Rightarrow> bool" where
  "Db_contains lib msgId db =
     (if msgId = db_msgId db then True else g_exists lib (db_dbf db) (key_of msgId))"

definition Db_delete :: "'db gdbm \<Rightarrow> cstr \<Rightarrow> 'db database \<Rightarrow> 'db database" where
  "Db_delete lib msgId db =
     (let db1 = (if msgId = db_msgId db then db\<lparr>db_msgId := []\<rparr> else db)
      in db1\<lparr>db_dbf := g_delete lib (db_dbf db1) (key_of msgId)\<rparr>)"

text \<open>A getter: \<open>loadArt\<close>, then a field or a default.\<close>

definition art_getter :: "'a \<Rightarrow> (art \<Rightarrow> 'a) \<Rightarrow> 'db gdbm \<Rightarrow> cstr \<Rightarrow> 'db database \<Rightarrow> ('a \<times> 'db database) option" where
  "art_getter dflt get lib msgId db =
     do { (b, db') \<leftarrow> loadArt lib msgId db; Some (if b then get (db_art db') else dflt, db') }"

definition Db_status :: "'db gdbm \<Rightarrow> cstr \<Rightarrow> 'db database \<Rightarrow> (u32 \<times> 'db database) option" where
  "Db_status = art_getter 0 a_status"

definition Db_lastAccess :: "'db gdbm \<Rightarrow> cstr \<Rightarrow> 'db database \<Rightarrow> (u32 \<times> 'db database) option" where
  "Db_lastAccess = art_getter (- 1) a_lastAccess"

definition Db_ref :: "'db gdbm \<Rightarrow> cstr \<Rightarrow> 'db database \<Rightarrow> (cstr \<times> 'db database) option" where
  "Db_ref = art_getter [] a_ref"

definition Db_xref :: "'db gdbm \<Rightarrow> cstr \<Rightarrow> 'db database \<Rightarrow> (cstr \<times> 'db database) option" where
  "Db_xref = art_getter [] a_xref"

definition Db_from :: "'db gdbm \<Rightarrow> cstr \<Rightarrow> 'db database \<Rightarrow> (cstr \<times> 'db database) option" where
  "Db_from = art_getter [] a_from"

definition Db_date :: "'db gdbm \<Rightarrow> cstr \<Rightarrow> 'db database \<Rightarrow> (cstr \<times> 'db database) option" where
  "Db_date = art_getter [] a_date"

definition Db_over :: "'db gdbm \<Rightarrow> cstr \<Rightarrow> 'db database \<Rightarrow> (Over option \<times> 'db database) option" where
  "Db_over lib msgId =
     art_getter None (\<lambda>a. Some (new_Over (a_subj a) (a_from a) (a_date a) msgId (a_ref a) (a_bytes a) (a_lines a)))
       lib msgId"

definition Db_body :: "'db gdbm \<Rightarrow> cstr \<Rightarrow> 'db database \<Rightarrow> (cstr \<times> 'db database) option" where
  "Db_body = art_getter [] (\<lambda>a. case cstrstr (a_txt a) [LF, LF] of None \<Rightarrow> [] | Some p \<Rightarrow> drop 2 p)"

text \<open>A setter: \<open>loadArt\<close>, then a changed field and \<open>saveArt\<close>.\<close>

definition art_setter :: "(art \<Rightarrow> art option) \<Rightarrow> 'db gdbm \<Rightarrow> cstr \<Rightarrow> 'db database \<Rightarrow> 'db database option" where
  "art_setter f lib msgId db =
     do { (b, db') \<leftarrow> loadArt lib msgId db;
          if b then do { a \<leftarrow> f (db_art db'); (_, db'') \<leftarrow> saveArt lib (db'\<lparr>db_art := a\<rparr>); Some db'' }
          else Some db' }"

definition Db_setStatus :: "u32 \<Rightarrow> 'db gdbm \<Rightarrow> cstr \<Rightarrow> 'db database \<Rightarrow> 'db database option" where
  "Db_setStatus status = art_setter (\<lambda>a. Some (a\<lparr>a_status := status\<rparr>))"

definition Db_updateLastAccess :: "u32 \<Rightarrow> 'db gdbm \<Rightarrow> cstr \<Rightarrow> 'db database \<Rightarrow> 'db database option" where
  "Db_updateLastAccess now = art_setter (\<lambda>a. Some (a\<lparr>a_lastAccess := now\<rparr>))"

definition Db_setXref :: "cstr \<Rightarrow> 'db gdbm \<Rightarrow> cstr \<Rightarrow> 'db database \<Rightarrow> 'db database option" where
  "Db_setXref xref = art_setter (\<lambda>a. do { x \<leftarrow> Utl_cpyStr xref; Some (a\<lparr>a_xref := x\<rparr>) })"

definition Db_prepareEntry :: "Over \<Rightarrow> cstr \<Rightarrow> int \<Rightarrow> u32 \<Rightarrow> 'db gdbm \<Rightarrow> 'db database \<Rightarrow> (bool \<times> 'db database) option" where
  "Db_prepareEntry ov grp numb now lib db =
     do { m \<leftarrow> Utl_cpyStr (ov_msgId ov); s \<leftarrow> Utl_cpyStr (ov_subj ov); f \<leftarrow> Utl_cpyStr (ov_from ov);
          d \<leftarrow> Utl_cpyStr (ov_date ov); r \<leftarrow> Utl_cpyStr (ov_ref ov);
          saveArt lib (db\<lparr>db_msgId := m,
            db_art := \<lparr>a_status = DB_NOT_DOWNLOADED, a_lastAccess = now, a_subj = s, a_from = f, a_date = d,
              a_ref = r, a_xref = take (MAXCHAR - 1) (grp @ '':'' @ dec_int numb), a_bytes = ov_bytes ov,
              a_lines = ov_lines ov, a_txt = []\<rparr>\<rparr>) }"

subsection \<open>Numbers are read back\<close>

lemma hex_digit_lower: "d < 16 \<Longrightarrow> hex_digit (hex_lower d) = Some d"
  by (auto simp: hex_digit_def hex_lower_def Let_def of_char_mod_256)

lemma fmt_x_digits: "c \<in> set (fmt_x n) \<Longrightarrow> base_digit 16 c"
proof (induction n rule: fmt_x.induct)
  case (1 n)
  have d: "base_digit 16 (hex_lower k)" if "k < 16" for k
    using hex_digit_lower [OF that] that by (simp add: base_digit_def)
  from 1 d [of n] d [of "n mod 16"] show ?case
    by (subst (asm) (2) fmt_x.simps) (auto split: if_splits)
qed

lemma fmt_x_ne [simp]: "fmt_x n \<noteq> []"
  by (subst fmt_x.simps) simp

lemma base_val_snoc: "base_val b (ds @ [c]) = b * base_val b ds + the (hex_digit c)"
  by (simp add: base_val_def)

lemma base_val_fmt_x [simp]: "base_val 16 (fmt_x n) = n"
proof (induction n rule: fmt_x.induct)
  case (1 n)
  show ?case
  proof (cases "n < 16")
    case True
    then show ?thesis by (simp add: fmt_x.simps [of n] base_val_def hex_digit_lower)
  next
    case False
    with 1 show ?thesis by (simp add: fmt_x.simps [of n] base_val_snoc hex_digit_lower)
  qed
qed

lemma base_digit_plain: "base_digit 16 c \<Longrightarrow> \<not> cisspace c \<and> c \<noteq> CHR ''-'' \<and> c \<noteq> CHR ''+''
    \<and> c \<noteq> CHR ''x'' \<and> c \<noteq> CHR ''X'' \<and> c \<noteq> NUL \<and> c \<noteq> LF"
  by (auto simp: base_digit_def hex_digit_def cisspace_def)

lemma scan_x_fmt: "scan_x (fmt_x (unat (w :: u32))) = Some w"
proof -
  let ?s = "fmt_x (unat w)"
  obtain c r where cr: "?s = c # r" by (cases ?s) simp_all
  have d: "\<forall>c \<in> set ?s. base_digit 16 c" using fmt_x_digits by blast
  then have c: "base_digit 16 c" using cr by simp
  have t: "take 2 (c # r) \<noteq> ''0x''" "take 2 (c # r) \<noteq> ''0X''"
    using d base_digit_plain unfolding cr by (cases r; fastforce)+
  have tw: "takeWhile (base_digit 16) (c # r) = c # r"
    using d unfolding cr by (simp add: takeWhile_eq_all_conv)
  have v: "base_val 16 (c # r) = unat w" using base_val_fmt_x [of "unat w"] by (simp add: cr)
  have h: "scan_hex (c # r) = Some (unat w)"
    unfolding scan_hex_def Let_def using t by (simp only: simp_thms if_False tw list.case v)
  have "unat w < 2 ^ 32" using unsigned_less [of w, where ?'a = nat] by simp
  with base_digit_plain [OF c] h show ?thesis unfolding cr by (simp add: scan_x_def as_ulong_def)
qed

lemma scan_u_fmt: "scan_u (fmt_u w) = Some w"
proof -
  have "\<bar>int (unat w)\<bar> < 2 ^ 32" using unsigned_less [of w, where ?'a = int] by simp
  then show ?thesis using scan_d_dec_nat [of "[]" "unat w"]
    by (simp add: scan_u_def fmt_u_def as_ulong_def)
qed

lemma fmt_x_length: "n < 16 ^ Suc k \<Longrightarrow> length (fmt_x n) \<le> Suc k"
proof (induction k arbitrary: n)
  case 0
  then show ?case by (simp add: fmt_x.simps)
next
  case (Suc k)
  then have "n div 16 < 16 ^ Suc k" by (simp add: div_less_iff_less_mult mult.commute)
  with Suc.IH show ?case by (subst fmt_x.simps) simp
qed

lemma num_ln_line: "LF \<notin> set l \<Longrightarrow> length l < MAXCHAR \<Longrightarrow> conv l = Some n \<Longrightarrow>
    num_ln conv (Some (l @ LF # r)) = Some (Some (n, r))"
  by (simp add: num_ln_def next_ln_def)

lemma field_ln_line: "LF \<notin> set l \<Longrightarrow> length l < MAXCHAR \<Longrightarrow> field_ln old (Some (l @ LF # r)) = Some (l, Some r)"
  by (simp add: field_ln_def)

definition field_fits :: "cstr \<Rightarrow> bool" where
  "field_fits s \<longleftrightarrow> LF \<notin> set s \<and> proper s \<and> length s < MAXCHAR"

definition art_ok :: "art \<Rightarrow> bool" where
  "art_ok a \<longleftrightarrow> list_all field_fits [a_subj a, a_from a, a_date a, a_ref a, a_xref a] \<and> proper (a_txt a)"

lemma fmt_u_fits: "LF \<notin> set (fmt_u w) \<and> proper (fmt_u w) \<and> length (fmt_u w) < MAXCHAR"
proof -
  have "unat w < 10 ^ 10" using unsigned_less [of w, where ?'a = nat] by simp
  from dec_nat_length [OF this] show ?thesis
    using cisdigit_dec_nat cisdigit_not unfolding fmt_u_def proper_def MAXCHAR_def by fastforce
qed

lemma fmt_x_fits: "LF \<notin> set (fmt_x (unat (w :: u32))) \<and> proper (fmt_x (unat w)) \<and> length (fmt_x (unat w)) < MAXCHAR"
proof -
  have "unat w < 16 ^ Suc 7" using unsigned_less [of w, where ?'a = nat] by simp
  from fmt_x_length [OF this] show ?thesis
    using fmt_x_digits base_digit_plain unfolding proper_def MAXCHAR_def by fastforce
qed

lemma num_ln_x: "num_ln scan_x (Some (fmt_x (unat w) @ LF # r)) = Some (Some (w, r))"
  using fmt_x_fits [of w] by (intro num_ln_line scan_x_fmt) simp_all

lemma num_ln_u: "num_ln scan_u (Some (fmt_u w @ LF # r)) = Some (Some (w, r))"
  using fmt_u_fits [of w] by (intro num_ln_line scan_u_fmt) simp_all

lemma load_art_text: "art_ok a \<Longrightarrow> load_art (art_text a) a0 = Some (True, a)"
  by (cases a) (simp add: load_art_def art_text_def art_ok_def field_fits_def num_ln_x num_ln_u field_ln_line)

lemma proper_art_text: "art_ok a \<Longrightarrow> proper (art_text a)"
  using fmt_x_fits [of "a_status a"] fmt_u_fits [of "a_lastAccess a"] fmt_u_fits [of "a_bytes a"]
    fmt_u_fits [of "a_lines a"]
  by (simp add: art_text_def art_ok_def field_fits_def)

subsection \<open>The data base as a map\<close>

definition arts :: "'db gdbm \<Rightarrow> 'db \<Rightarrow> cstr \<Rightarrow> art option" where
  "arts lib d m =
     do { v \<leftarrow> g_fetch lib d (key_of m);
          (t, _) \<leftarrow> take_str v;
          (b, a) \<leftarrow> load_art t no_art;
          if b then Some a else None }"

definition art_image :: "art \<Rightarrow> byte list" where
  "art_image a = bytes_of (art_text a) @ [0]"

definition db_inv :: "'db gdbm \<Rightarrow> 'db database \<Rightarrow> bool" where
  "db_inv lib db \<longleftrightarrow>
     (\<forall>m v. g_fetch lib (db_dbf db) (key_of m) = Some v \<longrightarrow> (\<exists>a. art_ok a \<and> v = art_image a))
     \<and> (db_msgId db \<noteq> [] \<longrightarrow> length (db_msgId db) < MAXCHAR \<and> art_ok (db_art db)
          \<and> g_fetch lib (db_dbf db) (key_of (db_msgId db)) = Some (art_image (db_art db)))"

lemma take_art_image: "art_ok a \<Longrightarrow> take_str (art_image a) = Some (art_text a, [])"
  by (simp add: art_image_def take_str_bytes proper_art_text)

lemma arts_image: "g_fetch lib d (key_of m) = Some (art_image a) \<Longrightarrow> art_ok a \<Longrightarrow> arts lib d m = Some a"
  by (simp add: arts_def take_art_image load_art_text)

lemma arts_None: "g_fetch lib d (key_of m) = None \<Longrightarrow> arts lib d m = None"
  by (simp add: arts_def)

lemma loadArt_refines:
  assumes "db_inv lib db" "m \<noteq> []" "length m < MAXCHAR"
  shows "\<exists>db'. loadArt lib m db = Some (arts lib (db_dbf db) m \<noteq> None, db') \<and> db_inv lib db'
    \<and> db_dbf db' = db_dbf db
    \<and> (case arts lib (db_dbf db) m of None \<Rightarrow> db' = db | Some a \<Rightarrow> db_msgId db' = m \<and> db_art db' = a)"
proof (cases "m = db_msgId db")
  case True
  with assms arts_image [of lib "db_dbf db" m "db_art db"] show ?thesis
    by (auto simp: loadArt_def db_inv_def)
next
  case False
  show ?thesis
  proof (cases "g_fetch lib (db_dbf db) (key_of m)")
    case None
    with False assms(1) show ?thesis by (simp add: loadArt_def arts_None)
  next
    case (Some v)
    with assms(1) obtain a where a: "art_ok a" "v = art_image a" by (auto simp: db_inv_def)
    with Some False assms(3) have "loadArt lib m db = Some (True, db\<lparr>db_msgId := m, db_art := a\<rparr>)"
      by (simp add: loadArt_def Utl_cpyStr_eq take_art_image load_art_text)
    moreover have "db_inv lib (db\<lparr>db_msgId := m, db_art := a\<rparr>)" using assms Some a by (auto simp: db_inv_def)
    ultimately show ?thesis using arts_image [of lib "db_dbf db" m a] Some a by auto
  qed
qed

lemma saveArt_refines:
  assumes "gdbm_laws lib" "stores_succeed lib" "m \<noteq> []" "length m < MAXCHAR" "art_ok a" "db_inv lib db"
  shows "\<exists>db'. saveArt lib (db\<lparr>db_msgId := m, db_art := a\<rparr>) = Some (True, db') \<and> db_inv lib db'
    \<and> arts lib (db_dbf db') = (arts lib (db_dbf db))(m := Some a)"
proof -
  obtain d where st: "g_store lib (db_dbf db) (key_of m) (art_image a) = (d, True)"
    and f: "g_fetch lib d = (g_fetch lib (db_dbf db))(key_of m := Some (art_image a))"
    using g_store_succeeds [OF assms(1,2)] by blast
  let ?db = "db\<lparr>db_msgId := m, db_art := a, db_dbf := d\<rparr>"
  have "saveArt lib (db\<lparr>db_msgId := m, db_art := a\<rparr>) = Some (True, ?db)"
    using st assms(3) by (simp add: saveArt_def art_image_def)
  moreover have "db_inv lib ?db" using assms(3-6) f by (auto simp: db_inv_def)
  moreover have "arts lib d = (arts lib (db_dbf db))(m := Some a)"
  proof
    fix n
    show "arts lib d n = ((arts lib (db_dbf db))(m := Some a)) n"
      using arts_image [of lib d m a] f assms(5) by (cases "n = m") (auto simp: arts_def)
  qed
  ultimately show ?thesis by auto
qed

lemma art_setter_refines:
  assumes "gdbm_laws lib" "stores_succeed lib" "m \<noteq> []" "length m < MAXCHAR" "db_inv lib db"
    and f: "\<And>a. art_ok a \<Longrightarrow> f a = Some (h a) \<and> art_ok (h a)"
  shows "\<exists>db'. art_setter f lib m db = Some db' \<and> db_inv lib db'
    \<and> arts lib (db_dbf db') = (arts lib (db_dbf db))(m := map_option h (arts lib (db_dbf db) m))"
proof -
  obtain db1 where l: "loadArt lib m db = Some (arts lib (db_dbf db) m \<noteq> None, db1)" "db_inv lib db1"
    "db_dbf db1 = db_dbf db"
    "case arts lib (db_dbf db) m of None \<Rightarrow> db1 = db | Some a \<Rightarrow> db_msgId db1 = m \<and> db_art db1 = a"
    using loadArt_refines [OF assms(5,3,4)] by blast
  show ?thesis
  proof (cases "arts lib (db_dbf db) m")
    case None
    with l show ?thesis by (auto simp: art_setter_def fun_eq_iff)
  next
    case (Some a)
    with l have c: "db_msgId db1 = m" "db_art db1 = a" by simp_all
    with l(2) assms(3) have a: "art_ok a" by (auto simp: db_inv_def)
    have e: "db1\<lparr>db_art := h a\<rparr> = db1\<lparr>db_msgId := m, db_art := h a\<rparr>" using c by (cases db1) simp
    from saveArt_refines [OF assms(1-4) conjunct2 [OF f [OF a]] l(2)] obtain db' where
      "saveArt lib (db1\<lparr>db_msgId := m, db_art := h a\<rparr>) = Some (True, db')" "db_inv lib db'"
      "arts lib (db_dbf db') = (arts lib (db_dbf db1))(m := Some (h a))" by blast
    with l(1,3) c Some f [OF a] e show ?thesis by (auto simp: art_setter_def)
  qed
qed

lemma art_getter_refines:
  assumes "db_inv lib db" "m \<noteq> []" "length m < MAXCHAR"
  shows "\<exists>db'. art_getter dflt get lib m db
      = Some (case arts lib (db_dbf db) m of None \<Rightarrow> dflt | Some a \<Rightarrow> get a, db')
    \<and> db_inv lib db' \<and> db_dbf db' = db_dbf db"
  using loadArt_refines [OF assms] by (auto simp: art_getter_def split: option.splits)

definition over_fits :: "Over \<Rightarrow> bool" where
  "over_fits ov \<longleftrightarrow> ov_msgId ov \<noteq> []
     \<and> list_all field_fits [ov_msgId ov, ov_subj ov, ov_from ov, ov_date ov, ov_ref ov]"

text \<open>The article that \<open>Db_prepareEntry\<close> makes of an overview.\<close>

definition prepared :: "Over \<Rightarrow> cstr \<Rightarrow> int \<Rightarrow> u32 \<Rightarrow> art" where
  "prepared ov grp numb now =
     \<lparr>a_status = DB_NOT_DOWNLOADED, a_lastAccess = now, a_subj = ov_subj ov, a_from = ov_from ov,
      a_date = ov_date ov, a_ref = ov_ref ov, a_xref = take (MAXCHAR - 1) (grp @ '':'' @ dec_int numb),
      a_bytes = ov_bytes ov, a_lines = ov_lines ov, a_txt = []\<rparr>"

lemma LF_dec_int: "LF \<notin> set (dec_int i)"
  using cisdigit_dec_nat cisdigit_not by (auto simp: dec_int_def)

lemma prepared_ok: "over_fits ov \<Longrightarrow> LF \<notin> set grp \<Longrightarrow> proper grp \<Longrightarrow> art_ok (prepared ov grp numb now)"
  using LF_dec_int [of numb] proper_dec_int [of numb]
  by (auto simp: over_fits_def art_ok_def prepared_def field_fits_def MAXCHAR_def proper_def
      dest!: in_set_takeD)

lemma prepareEntry_refines:
  assumes "gdbm_laws lib" "stores_succeed lib" "db_inv lib db" "over_fits ov" "LF \<notin> set grp" "proper grp"
  shows "\<exists>db'. Db_prepareEntry ov grp numb now lib db = Some (True, db') \<and> db_inv lib db'
    \<and> arts lib (db_dbf db') = (arts lib (db_dbf db))(ov_msgId ov := Some (prepared ov grp numb now))"
proof -
  have ov: "ov_msgId ov \<noteq> []" "length (ov_msgId ov) < MAXCHAR" "length (ov_subj ov) < MAXCHAR"
    "length (ov_from ov) < MAXCHAR" "length (ov_date ov) < MAXCHAR" "length (ov_ref ov) < MAXCHAR"
    using assms(4) by (simp_all add: over_fits_def field_fits_def)
  have "Db_prepareEntry ov grp numb now lib db
      = saveArt lib (db\<lparr>db_msgId := ov_msgId ov, db_art := prepared ov grp numb now\<rparr>)"
    by (simp add: Db_prepareEntry_def Utl_cpyStr_eq ov(2-) prepared_def)
  with saveArt_refines [OF assms(1,2) ov(1,2) prepared_ok [OF assms(4-6)] assms(3)] show ?thesis by simp
qed

lemma Db_delete_refines:
  assumes "gdbm_laws lib" "db_inv lib db" "m \<noteq> []"
  shows "db_inv lib (Db_delete lib m db)
    \<and> arts lib (db_dbf (Db_delete lib m db)) = (arts lib (db_dbf db))(m := None)"
proof -
  have f: "g_fetch lib (g_delete lib (db_dbf db) (key_of m)) = (g_fetch lib (db_dbf db))(key_of m := None)"
    using assms(1) by (simp add: gdbm_laws_def)
  have "db_inv lib (Db_delete lib m db)" using assms(2,3) f
    by (auto simp: db_inv_def Db_delete_def Let_def split: if_splits)
  moreover have "arts lib (db_dbf (Db_delete lib m db)) = (arts lib (db_dbf db))(m := None)"
    using f by (auto simp: Db_delete_def Let_def arts_def fun_eq_iff)
  ultimately show ?thesis ..
qed

lemma Db_contains_refines:
  assumes "gdbm_laws lib" "db_inv lib db" "m \<noteq> []"
  shows "Db_contains lib m db \<longleftrightarrow> arts lib (db_dbf db) m \<noteq> None"
proof -
  have "g_fetch lib (db_dbf db) (key_of m) \<noteq> None \<longleftrightarrow> arts lib (db_dbf db) m \<noteq> None"
    using assms(2) arts_image [of lib "db_dbf db" m] arts_None [of lib "db_dbf db" m]
    by (fastforce simp: db_inv_def)
  then show ?thesis using assms by (auto simp: Db_contains_def gdbm_laws_def db_inv_def)
qed

text \<open>An operation answers a value and leaves the map alone, or updates one article if it is there; the cache stays coherent.\<close>

definition db_answers :: "'db gdbm \<Rightarrow> 'db database \<Rightarrow> 'a \<Rightarrow> ('a \<times> 'db database) option \<Rightarrow> bool" where
  "db_answers lib db v r \<longleftrightarrow> (\<exists>db'. r = Some (v, db') \<and> db_inv lib db' \<and> db_dbf db' = db_dbf db)"

definition db_updates :: "'db gdbm \<Rightarrow> 'db database \<Rightarrow> cstr \<Rightarrow> (art \<Rightarrow> art) \<Rightarrow> 'db database option \<Rightarrow> bool" where
  "db_updates lib db m f r \<longleftrightarrow>
     (\<exists>db'. r = Some db' \<and> db_inv lib db'
        \<and> arts lib (db_dbf db') = (arts lib (db_dbf db))(m := map_option f (arts lib (db_dbf db) m)))"

lemma db_getter_answers:
  "db_inv lib db \<Longrightarrow> m \<noteq> [] \<Longrightarrow> length m < MAXCHAR \<Longrightarrow>
     db_answers lib db (case arts lib (db_dbf db) m of None \<Rightarrow> dflt | Some a \<Rightarrow> get a) (art_getter dflt get lib m db)"
  unfolding db_answers_def by (rule art_getter_refines)

lemma db_setter_updates:
  "gdbm_laws lib \<Longrightarrow> stores_succeed lib \<Longrightarrow> m \<noteq> [] \<Longrightarrow> length m < MAXCHAR \<Longrightarrow> db_inv lib db \<Longrightarrow>
     (\<And>a. art_ok a \<Longrightarrow> f a = Some (h a) \<and> art_ok (h a)) \<Longrightarrow> db_updates lib db m h (art_setter f lib m db)"
  unfolding db_updates_def by (rule art_setter_refines)

text \<open>C27. On a coherent cache the operations of the article data base refine those of a map from
  message IDs to articles: every getter answers its field from the map, the overview and the body are made of it, every
  setter changes one field of the article it names, if there is one, \<open>Db_prepareEntry\<close> adds the article of its overview
  and \<open>Db_delete\<close> removes one; and the cache stays coherent.\<close>

theorem Db_refines_map:
  assumes "gdbm_laws lib" "stores_succeed lib" "db_inv lib db" "m \<noteq> []" "length m < MAXCHAR" "field_fits x"
  defines "M \<equiv> arts lib (db_dbf db)"
  shows "(Db_contains lib m db \<longleftrightarrow> M m \<noteq> None)
    \<and> db_answers lib db (case M m of None \<Rightarrow> 0 | Some a \<Rightarrow> a_status a) (Db_status lib m db)
    \<and> db_answers lib db (case M m of None \<Rightarrow> - 1 | Some a \<Rightarrow> a_lastAccess a) (Db_lastAccess lib m db)
    \<and> db_answers lib db (case M m of None \<Rightarrow> [] | Some a \<Rightarrow> a_ref a) (Db_ref lib m db)
    \<and> db_answers lib db (case M m of None \<Rightarrow> [] | Some a \<Rightarrow> a_xref a) (Db_xref lib m db)
    \<and> db_answers lib db (case M m of None \<Rightarrow> [] | Some a \<Rightarrow> a_from a) (Db_from lib m db)
    \<and> db_answers lib db (case M m of None \<Rightarrow> [] | Some a \<Rightarrow> a_date a) (Db_date lib m db)
    \<and> db_answers lib db
        (case M m of None \<Rightarrow> None
         | Some a \<Rightarrow> Some \<lparr>ov_numb = 0, ov_subj = a_subj a, ov_from = a_from a, ov_date = a_date a, ov_msgId = m,
                          ov_ref = a_ref a, ov_bytes = a_bytes a, ov_lines = a_lines a\<rparr>) (Db_over lib m db)
    \<and> db_answers lib db
        (case M m of None \<Rightarrow> []
         | Some a \<Rightarrow> (case cstrstr (a_txt a) [LF, LF] of None \<Rightarrow> [] | Some p \<Rightarrow> drop 2 p)) (Db_body lib m db)
    \<and> db_updates lib db m (\<lambda>a. a\<lparr>a_xref := x\<rparr>) (Db_setXref x lib m db)
    \<and> db_updates lib db m (\<lambda>a. a\<lparr>a_status := s\<rparr>) (Db_setStatus s lib m db)
    \<and> db_updates lib db m (\<lambda>a. a\<lparr>a_lastAccess := now\<rparr>) (Db_updateLastAccess now lib m db)
    \<and> (over_fits ov \<and> LF \<notin> set grp \<and> proper grp \<longrightarrow>
         (\<exists>db'. Db_prepareEntry ov grp numb now lib db = Some (True, db') \<and> db_inv lib db'
            \<and> arts lib (db_dbf db') = M(ov_msgId ov \<mapsto> prepared ov grp numb now)))
    \<and> db_inv lib (Db_delete lib m db) \<and> arts lib (db_dbf (Db_delete lib m db)) = M(m := None)"
proof -
  note get = db_getter_answers [OF assms(3-5), folded M_def]
  have "Db_contains lib m db \<longleftrightarrow> M m \<noteq> None" unfolding M_def by (rule Db_contains_refines [OF assms(1,3,4)])
  moreover have "db_updates lib db m (\<lambda>a. a\<lparr>a_xref := x\<rparr>) (Db_setXref x lib m db)"
    unfolding Db_setXref_def
    by (rule db_setter_updates [OF assms(1,2,4,5,3)]) (use assms(6) in \<open>auto simp: field_fits_def Utl_cpyStr_eq art_ok_def\<close>)
  moreover have "db_updates lib db m (\<lambda>a. a\<lparr>a_status := s\<rparr>) (Db_setStatus s lib m db)"
    "db_updates lib db m (\<lambda>a. a\<lparr>a_lastAccess := now\<rparr>) (Db_updateLastAccess now lib m db)"
    unfolding Db_setStatus_def Db_updateLastAccess_def
    by (rule db_setter_updates [OF assms(1,2,4,5,3)], simp add: art_ok_def)+
  moreover have "over_fits ov \<and> LF \<notin> set grp \<and> proper grp \<longrightarrow>
         (\<exists>db'. Db_prepareEntry ov grp numb now lib db = Some (True, db') \<and> db_inv lib db'
            \<and> arts lib (db_dbf db') = M(ov_msgId ov \<mapsto> prepared ov grp numb now))"
    unfolding M_def using prepareEntry_refines [OF assms(1-3)] by blast
  moreover have "db_inv lib (Db_delete lib m db)" "arts lib (db_dbf (Db_delete lib m db)) = M(m := None)"
    unfolding M_def using Db_delete_refines [OF assms(1,3,4)] by blast+
  ultimately show ?thesis
    unfolding Db_status_def Db_lastAccess_def Db_ref_def Db_xref_def Db_from_def Db_date_def Db_over_def new_Over_def Db_body_def
    by (intro conjI get) assumption+
qed

definition db_init :: "'db \<Rightarrow> 'db database" where
  "db_init d = \<lparr>db_msgId = [], db_art = no_art, db_dbf = d\<rparr>"

lemma db_init_inv: "db_inv mem_gdbm (db_init (\<lambda>_. None))"
  by (simp add: db_inv_def db_init_def mem_gdbm_def)

theorem Db_refines_map_witness:
  "\<exists>db db'. Db_prepareEntry sample_over ''news.test'' 3 7 mem_gdbm (db_init (\<lambda>_. None)) = Some (True, db)
     \<and> Db_setStatus 1 mem_gdbm (ov_msgId sample_over) db = Some db'
     \<and> arts mem_gdbm (db_dbf db') (ov_msgId sample_over)
         = Some ((prepared sample_over ''news.test'' 3 7)\<lparr>a_status := 1\<rparr>)"
proof -
  have x: "field_fits ''x''" and m: "''m'' \<noteq> []" "length ''m'' < MAXCHAR" and
    o1: "over_fits sample_over" "LF \<notin> set ''news.test''" "proper ''news.test''"
    by (simp_all add: field_fits_def MAXCHAR_def over_fits_def sample_over_def Ov_setNumb_def new_Over_def)
  from Db_refines_map [OF mem_gdbm_laws db_init_inv m x, of 0 7 sample_over "''news.test''" 3] o1 obtain db
    where db: "Db_prepareEntry sample_over ''news.test'' 3 7 mem_gdbm (db_init (\<lambda>_. None)) = Some (True, db)"
      "db_inv mem_gdbm db"
      "arts mem_gdbm (db_dbf db) (ov_msgId sample_over) = Some (prepared sample_over ''news.test'' 3 7)"
    by auto
  have n: "ov_msgId sample_over \<noteq> []" "length (ov_msgId sample_over) < MAXCHAR"
    using o1(1) by (simp_all add: over_fits_def field_fits_def)
  note R = Db_refines_map [OF mem_gdbm_laws db(2) n x, of 1 0 sample_over "[]" 0]
  from R have "db_updates mem_gdbm db (ov_msgId sample_over) (\<lambda>a. a\<lparr>a_status := 1\<rparr>)
      (Db_setStatus 1 mem_gdbm (ov_msgId sample_over) db)" by blast
  with db show ?thesis by (auto simp: db_updates_def)
qed

end
