(* ===== verification/Article.thy ===== *)
theory Article
  imports Database
begin

text \<open>
  Articles in the data base, the second half of \<^verbatim>\<open>noffle-1.0.1/src/database.c\<close>: storing a retrieved
  article, which drops the header fields that the overview has already, and printing the header
  with its long lines broken.

  A pointer into a string is the suffix it points at.  \<open>pre\<close> is the memory before the local buffers
  of \<open>Prt_getField\<close>.
\<close>

subsection \<open>Storing an article\<close>

definition overview_fields :: "cstr list" where
  "overview_fields = [''message-id'', ''xref'', ''references'', ''subject'', ''from'', ''date'', ''bytes'',
     ''lines'', ''x-noffle-lastaccess'']"

lemma header_loop_rest: "header_loop l res = Some (l', r) \<Longrightarrow> \<exists>res'. r = Some res' \<and> length res' \<le> length res"
proof (induction l res arbitrary: l' r rule: header_loop.induct)
  case (1 l res)
  show ?case
  proof (cases "res \<noteq> [] \<and> hd res \<noteq> LF \<and> cisspace (hd res)")
    case True
    with 1(2) obtain nl res1 where g: "Utl_getLn res = Got_line nl res1"
      by (subst (asm) header_loop.simps) (auto split: getln.splits)
    have "length res1 < length res" using g by (auto simp: Utl_getLn_def dest: getLn_loop_shorter)
    consider "r = Some res" | pre' n r1 r2 where "Utl_stripWhiteSpace [] nl = Some (pre', n)" "n \<noteq> []"
        "Utl_catStr l '' '' = Some r1" "Utl_catStr r1 n = Some r2" "header_loop r2 res1 = Some (l', r)"
      using 1(2) True g by (auto simp: header_loop.simps [of l res] bind_eq_Some_conv split: if_splits)
    then show ?thesis
    proof cases
      case 2
      from 1(1) [OF True g this(1) refl this(2-5)] \<open>length res1 < length res\<close> show ?thesis by auto
    qed simp
  next
    case False
    with 1(2) show ?thesis by (subst (asm) header_loop.simps) auto
  qed
qed

lemma getHeaderLn_shorter: "Utl_getHeaderLn p = Some (l, Some r) \<Longrightarrow> length r < length p"
  by (auto simp: Utl_getHeaderLn_def Utl_getLn_def split: getln.splits if_splits
      dest!: header_loop_rest dest: getLn_loop_shorter le_less_trans)

text \<open>The loop over the header: the status and the text, and the position of the body, \<open>None\<close> when
  the text ends before it.\<close>

function store_header :: "cstr \<Rightarrow> cstr \<Rightarrow> u32 \<Rightarrow> cstr \<Rightarrow> (u32 \<times> cstr \<times> cstr option) option" where
  "store_header pre artTxt status t =
     (case Utl_getHeaderLn artTxt of
        None \<Rightarrow> None
      | Some (lineEx, None) \<Rightarrow> Some (status, t, None)
      | Some (lineEx, Some artTxt') \<Rightarrow>
          if lineEx = [] then Some (status, t @ lineEx @ [LF], Some artTxt')
          else do { (b, field, val) \<leftarrow> Prt_getField pre lineEx;
                    let v = (case val of Some v \<Rightarrow> v | None \<Rightarrow> []);
                    if b then
                      (if field = ''x-noffle-status''
                       then store_header pre artTxt'
                              (if cstrstr v ''NOT_DOWNLOADED'' \<noteq> None then status OR DB_NOT_DOWNLOADED else status) t
                       else if field \<notin> set overview_fields
                       then store_header pre artTxt' status (t @ lineEx @ [LF])
                       else store_header pre artTxt' status t)
                    else store_header pre artTxt' status t })"
  by pat_completeness auto

termination by (relation "measure (\<lambda>(pre, a, s, t). length a)") (auto dest: getHeaderLn_shorter)

declare store_header.simps [simp del]

text \<open>The loop over the body; a line without a newline at the end of the text is dropped.\<close>

function store_body :: "cstr \<Rightarrow> u32 \<Rightarrow> cstr \<Rightarrow> cstr option" where
  "store_body artTxt status t =
     (case Utl_getLn artTxt of
        No_line \<Rightarrow> Some t
      | Past_end l \<Rightarrow> None
      | Got_line line artTxt' \<Rightarrow>
          store_body artTxt' status (if status AND DB_NOT_DOWNLOADED = 0 then t @ line @ [LF] else t))"
  by pat_completeness auto

termination
  by (relation "measure (\<lambda>(a, s, t). length a)") (auto simp: Utl_getLn_def dest: getLn_loop_shorter)

declare store_body.simps [simp del]

definition Db_storeArt :: "cstr \<Rightarrow> u32 \<Rightarrow> 'db gdbm \<Rightarrow> cstr \<Rightarrow> cstr \<Rightarrow> 'db database \<Rightarrow> (bool \<times> 'db database) option" where
  "Db_storeArt pre now lib msgId artTxt db =
     do { (b, db1) \<leftarrow> loadArt lib msgId db;
          if \<not> b then Some (False, db1)
          else if a_status (db_art db1) AND DB_NOT_DOWNLOADED = 0 then Some (False, db1)
          else do {
            let st = a_status (db_art db1) AND NOT DB_NOT_DOWNLOADED AND NOT DB_RETRIEVING_FAILED;
            (st', t, body) \<leftarrow> store_header pre artTxt st [];
            let db2 = db1\<lparr>db_art := (db_art db1)\<lparr>a_status := st', a_lastAccess := now, a_txt := t\<rparr>\<rparr>;
            case body of
              None \<Rightarrow> Some (False, db2)
            | Some p \<Rightarrow>
                do { t' \<leftarrow> store_body p st' t;
                     saveArt lib (db2\<lparr>db_art := (db_art db2)\<lparr>a_txt := t'\<rparr>\<rparr>) } } }"

subsection \<open>Printing a header\<close>

text \<open>The loop of \<open>searchBreakPos\<close>; the result is the suffix at the best position.\<close>

fun break_loop :: "int \<Rightarrow> cstr option \<Rightarrow> bool \<Rightarrow> int \<Rightarrow> cstr \<Rightarrow> cstr" where
  "break_loop wanted lastSpace lastWasSpace len [] =
     (case lastSpace of Some p \<Rightarrow> if len > wanted then p else [] | None \<Rightarrow> [])"
| "break_loop wanted lastSpace lastWasSpace len (c # line) =
     (if cisspace c then
        (if len > wanted \<and> lastSpace \<noteq> None then the lastSpace
         else break_loop wanted (if lastWasSpace then lastSpace else Some (c # line)) True (len + 1) line)
      else break_loop wanted lastSpace False (len + 1) line)"

definition searchBreakPos :: "cstr \<Rightarrow> int \<Rightarrow> cstr" where
  "searchBreakPos line wantedLength = break_loop wantedLength None False 0 line"

lemma break_loop_suffix:
  "(\<forall>p. ls = Some p \<longrightarrow> length p \<le> n) \<Longrightarrow> length line \<le> n \<Longrightarrow> length (break_loop w ls b len line) \<le> n"
proof (induction w ls b len line arbitrary: n rule: break_loop.induct)
  case (1 w ls b len)
  then show ?case by (cases ls) auto
next
  case (2 w ls b len c line)
  show ?case using 2(1) [of n] 2(2) [of n] 2(3,4) by auto
qed

lemma searchBreakPos_shorter:
  "searchBreakPos (dropWhile cisspace s) w \<noteq> [] \<Longrightarrow> length (searchBreakPos (dropWhile cisspace s) w) < length s"
proof -
  assume ne: "searchBreakPos (dropWhile cisspace s) w \<noteq> []"
  obtain c t where ct: "dropWhile cisspace s = c # t"
    using ne by (cases "dropWhile cisspace s") (auto simp: searchBreakPos_def)
  then have "\<not> cisspace c" using hd_dropWhile [of cisspace s] by auto
  then have "length (searchBreakPos (c # t) w) \<le> length t"
    by (simp add: searchBreakPos_def break_loop_suffix)
  moreover have "length (dropWhile cisspace s) \<le> length s" by (rule length_dropWhile_le)
  ultimately show ?thesis using ct by simp
qed

text \<open>The loop of \<open>appendLongHeader\<close> over the continuation lines.\<close>

function long_loop :: "int \<Rightarrow> cstr \<Rightarrow> cstr" where
  "long_loop w breakPos =
     (let old = dropWhile cisspace breakPos;
          bp = searchBreakPos old (w - 1);
          piece = take (length old - length bp) old
      in if bp = [] then piece @ [LF]
         else piece @ LF # CHR '' '' # long_loop w bp)"
  by pat_completeness auto

termination by (relation "measure (\<lambda>(w, s). length s)") (auto intro: searchBreakPos_shorter)

declare long_loop.simps [simp del]

definition wantedLength :: int where "wantedLength = 78"

definition appendLongHeader :: "cstr \<Rightarrow> cstr \<Rightarrow> cstr" where
  "appendLongHeader field val =
     (let old = dropWhile cisspace val;
          bp = searchBreakPos old (wantedLength - int (length field) - 1);
          start = field @ '' '' @ take (length old - length bp) old
      in if bp = [] then start @ [LF] else start @ LF # CHR '' '' # long_loop wantedLength bp)"

text \<open>\<open>date\<close> is what \<open>strftime\<close> leaves; \<open>xrefHost\<close> is set by \<open>Db_open\<close>.\<close>

definition Db_header :: "cstr \<Rightarrow> (u32 \<Rightarrow> cstr) \<Rightarrow> 'db gdbm \<Rightarrow> cstr \<Rightarrow> 'db database \<Rightarrow> (cstr option \<times> 'db database) option" where
  "Db_header xrefHost date lib msgId db =
     do { (b, db1) \<leftarrow> loadArt lib msgId db;
          if \<not> b then Some (None, db1)
          else let a = db_art db1; status = a_status a;
                   t = take (MAXCHAR - 1) (''Message-ID: '' @ msgId @ [LF] @ ''X-NOFFLE-Status:''
                     @ (if status AND DB_INTERESTING \<noteq> 0 then '' INTERESTING'' else [])
                     @ (if status AND DB_NOT_DOWNLOADED \<noteq> 0 then '' NOT_DOWNLOADED'' else [])
                     @ (if status AND DB_RETRIEVING_FAILED \<noteq> 0 then '' RETRIEVING_FAILED'' else [])
                     @ [LF] @ ''X-NOFFLE-LastAccess: '' @ date (a_lastAccess a) @ [LF])
               in Some (Some (t @ appendLongHeader ''Subject:'' (a_subj a) @ appendLongHeader ''From:'' (a_from a)
                    @ appendLongHeader ''Date:'' (a_date a) @ appendLongHeader ''References:'' (a_ref a)
                    @ ''Bytes: '' @ fmt_u (a_bytes a) @ [LF] @ ''Lines: '' @ fmt_u (a_lines a) @ [LF]
                    @ appendLongHeader xrefHost (a_xref a)
                    @ (case cstrstr (a_txt a) [LF, LF] of
                         None \<Rightarrow> a_txt a
                       | Some p \<Rightarrow> take (length (a_txt a) - length p + 1) (a_txt a))), db1) }"

subsection \<open>Broken lines\<close>

definition no_space :: "cstr \<Rightarrow> bool" where
  "no_space s \<longleftrightarrow> (\<forall>c \<in> set s. \<not> cisspace c)"

text \<open>A position in a line where it may be broken: white space, with what is before it short or one
  word.\<close>

definition good_break :: "int \<Rightarrow> cstr \<Rightarrow> cstr \<Rightarrow> bool" where
  "good_break w whole p \<longleftrightarrow>
     (\<exists>a. whole = a @ p \<and> (int (length a) \<le> w \<or> no_space a)) \<and> (p \<noteq> [] \<longrightarrow> cisspace (hd p))"

lemma break_loop_good:
  assumes "case ls of None \<Rightarrow> no_space a | Some p \<Rightarrow> good_break w (a @ line) p" "len = int (length a)" "b \<longrightarrow> ls \<noteq> None"
  shows "good_break w (a @ line) (break_loop w ls b len line)"
  using assms
proof (induction w ls b len line arbitrary: a rule: break_loop.induct)
  case (1 w ls b len)
  show ?case
  proof (cases "len > w")
    case True
    with 1 show ?thesis by (cases ls) (auto simp: good_break_def)
  next
    case False
    with 1(2) show ?thesis by (cases ls) (auto simp: good_break_def)
  qed
next
  case (2 w ls b len c line)
  have e: "a @ c # line = (a @ [c]) @ line" "len + 1 = int (length (a @ [c]))" using 2(4) by simp_all
  show ?case
  proof (cases "cisspace c")
    case sp: True
    show ?thesis
    proof (cases "len > w \<and> ls \<noteq> None")
      case True
      with 2(3) sp show ?thesis by auto
    next
      case False
      then have "good_break w (a @ c # line) (c # line)"
      proof (cases ls)
        case None
        with 2(3) sp show ?thesis unfolding good_break_def by (intro conjI exI [of _ a]) auto
      next
        case (Some p)
        with False 2(4) sp show ?thesis unfolding good_break_def by (intro conjI exI [of _ a]) auto
      qed
      then have g: "good_break w ((a @ [c]) @ line) (c # line)" by simp
      have "case (if b then ls else Some (c # line)) of None \<Rightarrow> no_space (a @ [c])
          | Some p \<Rightarrow> good_break w ((a @ [c]) @ line) p"
        using g 2(3,5) by (cases b; cases ls) simp_all
      from 2(1) [OF sp False this e(2)] have "good_break w ((a @ [c]) @ line)
          (break_loop w (if b then ls else Some (c # line)) True (len + 1) line)"
        using 2(5) by auto
      with sp False show ?thesis by auto
    qed
  next
    case False
    have "good_break w ((a @ [c]) @ line) (break_loop w ls False (len + 1) line)"
      by (rule 2(2) [OF False _ e(2)]) (use 2(3,5) False in \<open>auto simp: no_space_def split: option.splits\<close>)
    with False show ?thesis by simp
  qed
qed

lemma searchBreakPos_good: "good_break w line (searchBreakPos line w)"
  using break_loop_good [where ls = None and a = "[]" and w = w and line = line and b = False] by (simp add: searchBreakPos_def no_space_def)

function long_pieces :: "int \<Rightarrow> cstr \<Rightarrow> cstr list" where
  "long_pieces w breakPos =
     (let old = dropWhile cisspace breakPos;
          bp = searchBreakPos old (w - 1);
          piece = take (length old - length bp) old
      in if bp = [] then [piece] else piece # long_pieces w bp)"
  by pat_completeness auto

termination by (relation "measure (\<lambda>(w, s). length s)") (auto intro: searchBreakPos_shorter)

declare long_pieces.simps [simp del]

lemma long_loop_pieces: "CHR '' '' # long_loop w s = text_of (map ((#) (CHR '' '')) (long_pieces w s))"
proof (induction w s rule: long_pieces.induct)
  case (1 w s)
  let ?bp = "searchBreakPos (dropWhile cisspace s) (w - 1)"
  show ?case
  proof (cases "?bp = []")
    case True
    then show ?thesis by (simp add: long_loop.simps [of w s] long_pieces.simps [of w s] Let_def)
  next
    case False
    from 1 [OF refl refl refl False] show ?thesis using False
      by (simp add: long_loop.simps [of w s] long_pieces.simps [of w s] Let_def)
  qed
qed

lemma words_of_append: "v = [] \<or> sep (hd v) \<Longrightarrow> runs sep acc (u @ v) = runs sep acc u @ words_of sep v"
proof (induction u arbitrary: acc)
  case Nil
  then show ?case by (cases v) auto
qed auto

lemma break_piece:
  fixes s w
  defines "old \<equiv> dropWhile cisspace s"
  defines "bp \<equiv> searchBreakPos old w"
  defines "piece \<equiv> take (length old - length bp) old"
  shows "words_of cisspace s = words_of cisspace piece @ words_of cisspace bp"
    and "int (length piece) \<le> w \<or> no_space piece"
proof -
  from searchBreakPos_good [of w old] obtain a where
    a: "old = a @ bp" "int (length a) \<le> w \<or> no_space a" "bp \<noteq> [] \<longrightarrow> cisspace (hd bp)"
    unfolding good_break_def bp_def by blast
  then have p: "piece = a" by (simp add: piece_def)
  have "words_of cisspace s = words_of cisspace old" by (simp add: old_def words_of_skip)
  also have "\<dots> = words_of cisspace a @ words_of cisspace bp"
    unfolding a(1) by (rule words_of_append) (use a(3) in auto)
  finally show "words_of cisspace s = words_of cisspace piece @ words_of cisspace bp" by (simp add: p)
  show "int (length piece) \<le> w \<or> no_space piece" using a(2) p by simp
qed

lemma long_pieces_words:
  "words_of cisspace s = concat (map (words_of cisspace) (long_pieces w s))
   \<and> list_all (\<lambda>p. int (length p) \<le> w - 1 \<or> no_space p) (long_pieces w s)"
proof (induction w s rule: long_pieces.induct)
  case (1 w s)
  let ?bp = "searchBreakPos (dropWhile cisspace s) (w - 1)"
  note b = break_piece [of s "w - 1"]
  show ?case
  proof (cases "?bp = []")
    case True
    then show ?thesis using b by (simp add: long_pieces.simps [of w s] Let_def)
  next
    case False
    from 1 [OF refl refl refl False] b False show ?thesis
      by (simp add: long_pieces.simps [of w s] Let_def)
  qed
qed

text \<open>A header field is printed as a line and continuation lines that start with a space: together
  they hold the words of the value, in order, and every line has at most 78 characters unless it is
  a single word that is too long.\<close>

theorem appendLongHeader_lines:
  "\<exists>p ps. appendLongHeader f v = text_of ((f @ '' '' @ p) # map ((#) (CHR '' '')) ps)
     \<and> words_of cisspace v = concat (map (words_of cisspace) (p # ps))
     \<and> (length (f @ '' '' @ p) \<le> 78 \<or> no_space p)
     \<and> list_all (\<lambda>q. length (CHR '' '' # q) \<le> 78 \<or> no_space q) ps"
proof -
  let ?w = "wantedLength - int (length f) - 1"
  let ?old = "dropWhile cisspace v"
  let ?bp = "searchBreakPos ?old ?w"
  let ?p = "take (length ?old - length ?bp) ?old"
  let ?ps = "if ?bp = [] then [] else long_pieces wantedLength ?bp"
  have e: "appendLongHeader f v = text_of ((f @ '' '' @ ?p) # map ((#) (CHR '' '')) ?ps)"
    using long_loop_pieces [of wantedLength ?bp] by (auto simp: appendLongHeader_def Let_def)
  note b = break_piece [of v ?w]
  have w: "words_of cisspace v = concat (map (words_of cisspace) (?p # ?ps))"
    using b(1) long_pieces_words [of ?bp wantedLength] by auto
  have l: "length (f @ '' '' @ ?p) \<le> 78 \<or> no_space ?p" using b(2) by (auto simp: wantedLength_def)
  have "list_all (\<lambda>q. length (CHR '' '' # q) \<le> 78 \<or> no_space q) ?ps"
    using long_pieces_words [of ?bp wantedLength] by (auto simp: list_all_iff wantedLength_def)
  with e w l show ?thesis by blast
qed

subsection \<open>What is stored\<close>

definition field_kept :: "cstr \<times> cstr \<Rightarrow> bool" where
  "field_kept nv \<longleftrightarrow> Utl_toLower (fst nv) \<notin> set overview_fields \<and> Utl_toLower (fst nv) \<noteq> ''x-noffle-status''"

definition not_downloaded :: "cstr \<times> cstr \<Rightarrow> bool" where
  "not_downloaded nv \<longleftrightarrow> Utl_toLower (fst nv) = ''x-noffle-status'' \<and> cstrstr (strip (snd nv)) ''NOT_DOWNLOADED'' \<noteq> None"

definition header_status :: "(cstr \<times> cstr) list \<Rightarrow> u32 \<Rightarrow> u32" where
  "header_status hs st = (if list_ex not_downloaded hs then st OR DB_NOT_DOWNLOADED else st)"

definition header_end :: "cstr \<Rightarrow> bool" where
  "header_end r \<longleftrightarrow> r = [] \<or> hd r = LF \<or> \<not> cisspace (hd r)"

lemma getHeaderLn_hdr:
  assumes "hdr_ok nv" "header_end r"
  shows "Utl_getHeaderLn (hdr_line nv @ LF # r) = Some (hdr_line nv, Some r)"
proof -
  have h: "LF \<notin> set (hdr_line nv)" "length (hdr_line nv) < MAXCHAR" "hdr_line nv \<noteq> []"
    "\<not> cisspace (hd (hdr_line nv))"
    using assms(1) by (auto simp: hdr_ok_def hdr_line_def)
  from header_loop_text [of "[]" r "hdr_line nv"] h(2) assms(2) show ?thesis
    using h by (simp add: Utl_getHeaderLn_def unfolded_def header_end_def)
qed

lemma header_end_lines: "list_all hdr_ok hs \<Longrightarrow> header_end (text_of (map hdr_line hs) @ LF # s)"
  by (cases hs) (auto simp: header_end_def hdr_ok_def hdr_line_def cisspace_def)

lemma store_header_lines:
  "list_all hdr_ok hs \<Longrightarrow>
     store_header pre (text_of (map hdr_line hs) @ LF # s) st t =
       Some (header_status hs st, t @ text_of (map hdr_line (filter field_kept hs)) @ [LF], Some s)"
proof (induction hs arbitrary: st t)
  case Nil
  then show ?case by (subst store_header.simps) (simp add: Utl_getHeaderLn_def header_status_def)
next
  case (Cons nv hs)
  then have ok: "hdr_ok nv" "list_all hdr_ok hs" by simp_all
  have ne: "hdr_line nv \<noteq> []" by (simp add: hdr_line_def)
  let ?r = "text_of (map hdr_line hs) @ LF # s"
  have g: "Utl_getHeaderLn (hdr_line nv @ LF # ?r) = Some (hdr_line nv, Some ?r)"
    by (rule getHeaderLn_hdr [OF ok(1) header_end_lines [OF ok(2)]])
  have idem: "(st OR DB_NOT_DOWNLOADED) OR DB_NOT_DOWNLOADED = st OR DB_NOT_DOWNLOADED" by (simp add: or.assoc)
  have x: "''x-noffle-status'' \<notin> set overview_fields" by (simp add: overview_fields_def)
  show ?case
    using ne g getField_line [OF ok(1), of pre] Cons.IH [OF ok(2)] idem x
    by (subst store_header.simps)
       (auto simp: field_kept_def [of nv] not_downloaded_def [of nv] header_status_def)
qed

lemma store_body_lines:
  "list_all (\<lambda>l. LF \<notin> set l \<and> length l < MAXCHAR) ls \<Longrightarrow>
     store_body (text_of ls) st t = Some (t @ (if st AND DB_NOT_DOWNLOADED = 0 then text_of ls else []))"
proof (induction ls arbitrary: t)
  case Nil
  then show ?case by (subst store_body.simps) simp
next
  case (Cons l ls)
  then show ?case by (subst store_body.simps) simp
qed

text \<open>The article that storing makes of an entry.\<close>

definition stored :: "u32 \<Rightarrow> (cstr \<times> cstr) list \<Rightarrow> cstr list \<Rightarrow> art \<Rightarrow> art" where
  "stored now hs ls a =
     (let st = header_status hs (a_status a AND NOT DB_NOT_DOWNLOADED AND NOT DB_RETRIEVING_FAILED)
      in a\<lparr>a_status := st, a_lastAccess := now,
           a_txt := text_of (map hdr_line (filter field_kept hs)) @ LF #
             (if st AND DB_NOT_DOWNLOADED = 0 then text_of ls else [])\<rparr>)"

lemma storeArt_refines:
  assumes "gdbm_laws lib" "stores_succeed lib" "db_inv lib db" "m \<noteq> []" "length m < MAXCHAR"
    "arts lib (db_dbf db) m = Some a" "a_status a AND DB_NOT_DOWNLOADED \<noteq> 0"
    "list_all hdr_ok hs" "list_all field_fits ls"
  shows "\<exists>db'. Db_storeArt pre now lib m (text_of (map hdr_line hs) @ LF # text_of ls) db = Some (True, db')
    \<and> db_inv lib db' \<and> arts lib (db_dbf db') = (arts lib (db_dbf db))(m \<mapsto> stored now hs ls a)"
proof -
  obtain db1 where l: "loadArt lib m db = Some (True, db1)" "db_inv lib db1" "db_dbf db1 = db_dbf db"
    "db_msgId db1 = m" "db_art db1 = a"
    using loadArt_refines [OF assms(3-5)] assms(6) by auto
  with assms(4) have a: "art_ok a" by (auto simp: db_inv_def)
  have body: "list_all (\<lambda>l. LF \<notin> set l \<and> length l < MAXCHAR) ls"
    using assms(9) by (auto simp: list_all_iff field_fits_def)
  have "list_all proper (map hdr_line (filter field_kept hs))" "list_all proper ls"
    using assms(8,9) by (auto simp: list_all_iff hdr_ok_def field_fits_def)
  then have ok: "art_ok (stored now hs ls a)" using a by (simp add: stored_def Let_def art_ok_def)
  have "Db_storeArt pre now lib m (text_of (map hdr_line hs) @ LF # text_of ls) db
      = saveArt lib (db1\<lparr>db_art := stored now hs ls a\<rparr>)"
    using assms(7) l store_header_lines [OF assms(8)] store_body_lines [OF body]
    by (simp add: Db_storeArt_def stored_def Let_def)
  moreover have "db1\<lparr>db_art := stored now hs ls a\<rparr> = db1\<lparr>db_msgId := m, db_art := stored now hs ls a\<rparr>"
    using l(4) by (cases db1) simp
  ultimately show ?thesis using saveArt_refines [OF assms(1,2,4,5) ok l(2)] l(3) by simp
qed

text \<open>An entry that is prepared from an overview and stored at once.\<close>

lemma prepare_store:
  assumes "gdbm_laws lib" "stores_succeed lib" "db_inv lib db" "over_fits ov" "LF \<notin> set g" "proper g"
    "list_all hdr_ok hs" "list_all field_fits ls"
  obtains db1 db2 where "Db_prepareEntry ov g n now lib db = Some (True, db1)"
    "Db_storeArt pre now' lib (ov_msgId ov) (text_of (map hdr_line hs) @ LF # text_of ls) db1 = Some (True, db2)"
    "db_inv lib db2"
    "arts lib (db_dbf db2) = (arts lib (db_dbf db))(ov_msgId ov \<mapsto> stored now' hs ls (prepared ov g n now))"
proof -
  have m: "ov_msgId ov \<noteq> []" "length (ov_msgId ov) < MAXCHAR" using assms(4) by (simp_all add: over_fits_def field_fits_def)
  from prepareEntry_refines [OF assms(1-6), of n now] obtain db1 where
    db1: "Db_prepareEntry ov g n now lib db = Some (True, db1)" "db_inv lib db1"
      "arts lib (db_dbf db1) = (arts lib (db_dbf db))(ov_msgId ov \<mapsto> prepared ov g n now)" by blast
  have pr: "arts lib (db_dbf db1) (ov_msgId ov) = Some (prepared ov g n now)"
    "a_status (prepared ov g n now) AND DB_NOT_DOWNLOADED \<noteq> 0"
    using db1(3) by (simp_all add: prepared_def DB_NOT_DOWNLOADED_def)
  from storeArt_refines [OF assms(1,2) db1(2) m pr assms(7,8), of pre now'] db1 that show ?thesis by auto
qed

text \<open>C28. A retrieved article with a header, an empty line and a body is stored under its entry: of its
  header only the fields that the overview does not have already are kept, the body is kept line by
  line, and the entry counts as downloaded and not failed, unless another NOFFLE has said that it
  had not the article either; no other entry changes.\<close>

theorem Db_storeArt_stores:
  assumes "gdbm_laws lib" "stores_succeed lib" "db_inv lib db" "m \<noteq> []" "length m < MAXCHAR"
    "arts lib (db_dbf db) m = Some a" "a_status a AND DB_NOT_DOWNLOADED \<noteq> 0"
    "list_all hdr_ok hs" "list_all field_fits ls"
  shows "\<exists>db'. Db_storeArt pre now lib m (text_of (map hdr_line hs) @ LF # text_of ls) db = Some (True, db')
    \<and> db_inv lib db' \<and> arts lib (db_dbf db') = (arts lib (db_dbf db))(m \<mapsto> stored now hs ls a)"
  by (rule storeArt_refines [OF assms])

theorem Db_storeArt_stores_witness:
  "\<exists>db db'. Db_prepareEntry sample_over ''news.test'' 3 7 mem_gdbm (db_init (\<lambda>_. None)) = Some (True, db)
     \<and> Db_storeArt ''x'' 9 mem_gdbm (ov_msgId sample_over)
          (text_of [''Subject: s'', ''Path: a''] @ LF # text_of [''text'']) db = Some (True, db')"
proof -
  have o1: "over_fits sample_over" "LF \<notin> set ''news.test''" "proper ''news.test''"
    by (simp_all add: field_fits_def MAXCHAR_def over_fits_def sample_over_def Ov_setNumb_def new_Over_def)
  from prepareEntry_refines [OF mem_gdbm_laws db_init_inv o1, of 3 7] obtain db where
    db: "Db_prepareEntry sample_over ''news.test'' 3 7 mem_gdbm (db_init (\<lambda>_. None)) = Some (True, db)"
      "db_inv mem_gdbm db"
      "arts mem_gdbm (db_dbf db) (ov_msgId sample_over) = Some (prepared sample_over ''news.test'' 3 7)"
    by auto
  have n: "ov_msgId sample_over \<noteq> []" "length (ov_msgId sample_over) < MAXCHAR"
    using o1(1) by (simp_all add: over_fits_def field_fits_def)
  have s: "a_status (prepared sample_over ''news.test'' 3 7) AND DB_NOT_DOWNLOADED \<noteq> 0"
    by (simp add: prepared_def DB_NOT_DOWNLOADED_def)
  let ?hs = "[(''Subject'', '' s''), (''Path'', '' a'')]"
  have h: "list_all hdr_ok ?hs" "list_all field_fits [''text'']"
    by (simp_all add: hdr_ok_def hdr_line_def cisspace_def MAXCHAR_def field_fits_def)
  have e: "map hdr_line ?hs = [''Subject: s'', ''Path: a'']" by (simp add: hdr_line_def)
  from Db_storeArt_stores [OF mem_gdbm_laws db(2) n db(3) s h, of "''x''" 9] db(1) show ?thesis
    unfolding e by blast
qed

text \<open>An article without a body is refused, but the cached entry has lost its flag: it now counts as
  downloaded, and the next change of the entry stores it so.\<close>

lemma Db_storeArt_no_body:
  assumes "db_inv lib db" "m \<noteq> []" "length m < MAXCHAR" "arts lib (db_dbf db) m = Some a"
    "a_status a AND DB_NOT_DOWNLOADED \<noteq> 0"
  shows "\<exists>db'. Db_storeArt pre now lib m [] db = Some (False, db') \<and> arts lib (db_dbf db') m = Some a
    \<and> Db_status lib m db' = Some (a_status a AND NOT DB_NOT_DOWNLOADED AND NOT DB_RETRIEVING_FAILED, db')"
proof -
  obtain db1 where l: "loadArt lib m db = Some (True, db1)" "db_dbf db1 = db_dbf db"
    "db_msgId db1 = m" "db_art db1 = a"
    using loadArt_refines [OF assms(1-3)] assms(4) by auto
  have "store_header pre [] s [] = Some (s, [], None)" for s
    by (subst store_header.simps) (simp add: Utl_getHeaderLn_def)
  with l assms(4,5) show ?thesis
    by (simp add: Db_storeArt_def Db_status_def art_getter_def loadArt_def Let_def)
qed

text \<open>An entry that cannot be parsed is refused once; after that its message ID is cached, and the
  fields of the article before it are answered.\<close>

lemma loadArt_corrupt:
  assumes "g_fetch lib (db_dbf db) (key_of ''m'') = Some (bytes_of (''?'' @ [LF]) @ [0])" "db_msgId db = ''n''"
  shows "\<exists>db'. loadArt lib ''m'' db = Some (False, db') \<and> loadArt lib ''m'' db' = Some (True, db')
    \<and> db_art db' = db_art db"
proof -
  have t: "take_str (bytes_of (''?'' @ [LF]) @ [0]) = Some (''?'' @ [LF], [])"
    by (rule take_str_bytes) simp
  have "Utl_getLn (''?'' @ LF # []) = Got_line ''?'' []" by (rule Utl_getLn_line) (simp_all add: MAXCHAR_def)
  then have "num_ln scan_x (Some (''?'' @ [LF])) = Some None"
    by (simp add: num_ln_def next_ln_def scan_x_def scan_hex_def cisspace_def base_digit_def hex_digit_def)
  then have "load_art (''?'' @ [LF]) a = Some (False, a)" for a by (simp add: load_art_def)
  then show ?thesis using assms t by (simp add: loadArt_def Utl_cpyStr_eq MAXCHAR_def)
qed

end
