(* ===== verification/Expire.thy ===== *)
theory Expire
  imports Article Configfile Itemlist Wildmat
begin

text \<open>
  Expiry, the last part of \<^verbatim>\<open>noffle-1.0.1/src/database.c\<close>: the number of days an article is kept,
  from the groups of its Xref field and the patterns of the configuration, and the copy of the
  articles that are kept into a new data base.

  This is where the data base, the configuration, the item lists and the wildcard patterns meet.
  The loops over items and keys have fuel, and \<open>None\<close> is also its end; the properties show how much
  is enough.
\<close>

subsection \<open>Days\<close>

text \<open>The loop over the patterns for one group.\<close>

function days_loop :: "cstr \<Rightarrow> int \<Rightarrow> config \<Rightarrow> (int \<times> config) option" where
  "days_loop ref res c =
     (case Cfg_nextExpire c of
        (days, (pat, c')) \<Rightarrow>
          if days = -1 then Some (res, c')
          else case pat of
                 None \<Rightarrow> None
               | Some pattern \<Rightarrow>
                   do { m \<leftarrow> Wld_match ref pattern;
                        if m \<and> ((days > res \<and> res \<noteq> 0) \<or> days = 0) then Some (days, c')
                        else days_loop ref res c' })"
  by pat_completeness auto

termination
  by (relation "measure (\<lambda>(ref, res, c). length (expire c) - expireIdx c)")
     (auto simp: Cfg_nextExpire_def split: if_splits)

declare days_loop.simps [simp del]

fun ref_loop :: "nat \<Rightarrow> cstr option \<Rightarrow> ItemList \<Rightarrow> int \<Rightarrow> config \<Rightarrow> (int \<times> config) option" where
  "ref_loop n None refs res c = Some (res, c)"
| "ref_loop 0 (Some ref) refs res c = None"
| "ref_loop (Suc n) (Some ref) refs res c =
     do { (res', c') \<leftarrow> days_loop ref res (Cfg_beginExpireEnum c);
          (_, refs1) \<leftarrow> Itl_next refs;
          (ref', refs2) \<leftarrow> Itl_next refs1;
          ref_loop n ref' refs2 res' c' }"

definition calcExpireDays :: "'db gdbm \<Rightarrow> cstr \<Rightarrow> 'db database \<Rightarrow> config \<Rightarrow> (int \<times> 'db database \<times> config) option" where
  "calcExpireDays lib msgId db c =
     do { (xref, db1) \<leftarrow> Db_xref lib msgId db;
          if xref = [] then Some (-1, db1, c)
          else let refs = new_Itl xref '' :'' in
               do { (ref, refs1) \<leftarrow> Itl_first refs;
                    (res, c1) \<leftarrow> ref_loop (Itl_count refs) ref refs1 (-1) c;
                    Some (if res = -1 then defaultExpire c1 else res, db1, c1) } }"

subsection \<open>The copy\<close>

text \<open>One article: whether it goes to the new data base.  \<open>difftime\<close> of 32-bit times is exact.\<close>

definition keep_art :: "'db gdbm \<Rightarrow> u32 \<Rightarrow> cstr \<Rightarrow> 'db database \<Rightarrow> config \<Rightarrow> (bool \<times> 'db database \<times> config) option" where
  "keep_art lib now msgId db c =
     do { (expDays, db1, c1) \<leftarrow> calcExpireDays lib msgId db c;
          (lastAccess, db2) \<leftarrow> Db_lastAccess lib msgId db1;
          Some (\<not> (expDays = -1 \<or> lastAccess = - 1
                    \<or> (expDays > 0 \<and> sint now - sint lastAccess > expDays * 24 * 3600)), db2, c1) }"

definition key_str :: "cstr \<Rightarrow> cstr" where
  "key_str key = takeWhile (\<lambda>c. c \<noteq> NUL) key"

fun expire_loop :: "nat \<Rightarrow> 'db gdbm \<Rightarrow> u32 \<Rightarrow> cstr option \<Rightarrow> 'db database \<Rightarrow> config \<Rightarrow> 'db \<Rightarrow> ('db \<times> 'db database \<times> config) option" where
  "expire_loop n lib now None db c tmp = Some (tmp, db, c)"
| "expire_loop 0 lib now (Some key) db c tmp = None"
| "expire_loop (Suc n) lib now (Some key) db c tmp =
     do { (keep, db1, c1) \<leftarrow> keep_art lib now (key_str key) db c;
          tmp1 \<leftarrow> (if keep then
                     (case g_fetch lib (db_dbf db1) (key_of (key_str key)) of
                        None \<Rightarrow> Some tmp
                      | Some val \<Rightarrow> (let (d, ok) = g_store lib tmp (key_of (key_str key)) val
                                    in if ok then Some d else None))
                   else Some tmp);
          expire_loop n lib now (Db_next lib (Some key) db1) db1 c1 tmp1 }"

text \<open>\<open>tmp\<close> is the new data base, empty, or \<open>None\<close> when it or, before it, the old one could not be opened: both leave the
  data base closed.  The result is the data base under the old name afterwards; the renaming of the file within its
  directory is taken to succeed.\<close>

definition Db_expire :: "nat \<Rightarrow> 'db gdbm \<Rightarrow> u32 \<Rightarrow> 'db database \<Rightarrow> config \<Rightarrow> 'db option \<Rightarrow> (bool \<times> 'db database \<times> config) option" where
  "Db_expire n lib now db c tmp =
     (case tmp of
        None \<Rightarrow> Some (False, Db_close db, c)
      | Some d0 \<Rightarrow>
          do { (d, db1, c1) \<leftarrow> expire_loop n lib now (Db_first lib db) db c d0;
               Some (True, (Db_close db1)\<lparr>db_dbf := d\<rparr>, c1) })"

subsection \<open>How long an article is kept\<close>

definition pat_matches :: "cstr \<Rightarrow> ExpireEntry \<Rightarrow> bool" where
  "pat_matches g e \<longleftrightarrow> Wld_match g (ex_pattern e) = Some True"

definition pick :: "ExpireEntry list \<Rightarrow> cstr \<Rightarrow> int \<Rightarrow> int" where
  "pick es g res =
     (case find (\<lambda>e. pat_matches g e \<and> ((ex_days e > res \<and> res \<noteq> 0) \<or> ex_days e = 0)) es of
        None \<Rightarrow> res | Some e \<Rightarrow> ex_days e)"

fun evens :: "'a list \<Rightarrow> 'a list" where
  "evens (x # y # xs) = x # evens xs"
| "evens xs = xs"

text \<open>The groups of an Xref field \<open>grp:nr grp:nr ...\<close>.\<close>

definition xref_groups :: "cstr \<Rightarrow> cstr list" where
  "xref_groups x = evens (words_of (is_sep '' :'') x)"

definition expire_days :: "config \<Rightarrow> cstr \<Rightarrow> int" where
  "expire_days c x =
     (if x = [] then -1
      else let r = fold (pick (expire c)) (xref_groups x) (-1) in if r = -1 then defaultExpire c else r)"

text \<open>No pattern of the configuration runs over its end on a group of the article.\<close>

definition pats_defined :: "config \<Rightarrow> cstr \<Rightarrow> bool" where
  "pats_defined c x \<longleftrightarrow> (\<forall>g \<in> set (xref_groups x). \<forall>e \<in> set (expire c). Wld_match g (ex_pattern e) \<noteq> None)"

lemma days_loop_pick:
  assumes "\<forall>e \<in> set (expire c). 0 \<le> ex_days e \<and> Wld_match g (ex_pattern e) \<noteq> None"
  shows "\<exists>k. days_loop g res c = Some (pick (drop (expireIdx c) (expire c)) g res, c\<lparr>expireIdx := k\<rparr>)"
  using assms
proof (induction g res c rule: days_loop.induct)
  case (1 g res c)
  show ?case
  proof (cases "expireIdx c \<ge> length (expire c)")
    case True
    then show ?thesis by (subst days_loop.simps) (auto simp: Cfg_nextExpire_def pick_def intro: exI [of _ "expireIdx c"])
  next
    case False
    let ?e = "expire c ! expireIdx c" and ?c = "c\<lparr>expireIdx := expireIdx c + 1\<rparr>"
    have d: "drop (expireIdx c) (expire c) = ?e # drop (expireIdx c + 1) (expire c)"
      using False by (simp add: Cons_nth_drop_Suc)
    have e: "?e \<in> set (expire c)" using False by simp
    with 1(2) obtain m where m: "Wld_match g (ex_pattern ?e) = Some m" "0 \<le> ex_days ?e" by auto
    have n: "Cfg_nextExpire c = (ex_days ?e, (Some (ex_pattern ?e), ?c))" using False by (simp add: Cfg_nextExpire_def)
    show ?thesis
    proof (cases "m \<and> ((ex_days ?e > res \<and> res \<noteq> 0) \<or> ex_days ?e = 0)")
      case True
      then show ?thesis using n m by (subst days_loop.simps) (auto simp: pick_def d pat_matches_def)
    next
      case False
      have "days_loop g res c = days_loop g res ?c"
        using n m False by (subst days_loop.simps) auto
      moreover obtain k where "days_loop g res ?c = Some (pick (drop (expireIdx ?c) (expire ?c)) g res, ?c\<lparr>expireIdx := k\<rparr>)"
        using 1(1) [OF n [symmetric] refl _ refl m(1) False] 1(2) m(2) by auto
      moreover have "pick (drop (expireIdx c) (expire c)) g res = pick (drop (expireIdx ?c) (expire ?c)) g res"
        using False m(1) by (auto simp: pick_def d pat_matches_def)
      ultimately show ?thesis by auto
    qed
  qed
qed

lemma ref_loop_fold:
  assumes "\<forall>e \<in> set (expire c). 0 \<le> ex_days e" "itl_buf (il_next it)" "length (g # itl_rest it) \<le> n"
    "\<forall>h \<in> set (evens (g # itl_rest it)). \<forall>e \<in> set (expire c). Wld_match h (ex_pattern e) \<noteq> None"
  shows "\<exists>k. ref_loop n (Some g) it res c =
    Some (fold (pick (expire c)) (evens (g # itl_rest it)) res, c\<lparr>expireIdx := k\<rparr>)"
  using assms
proof (induction "length (itl_rest it)" arbitrary: it g res c n rule: less_induct)
  case less
  then obtain n' where n: "n = Suc n'" by (cases n) auto
  let ?c0 = "Cfg_beginExpireEnum c"
  have "g \<in> set (evens (g # itl_rest it))" by (cases "itl_rest it") auto
  with less.prems(1,4) have "\<forall>e \<in> set (expire ?c0). 0 \<le> ex_days e \<and> Wld_match g (ex_pattern e) \<noteq> None"
    by (auto simp: Cfg_beginExpireEnum_def)
  from days_loop_pick [OF this, of res] obtain k where
    d: "days_loop g res ?c0 = Some (pick (expire c) g res, c\<lparr>expireIdx := k\<rparr>)"
    by (auto simp: Cfg_beginExpireEnum_def)
  note nx = Itl_next_rest
  show ?case
  proof (cases "itl_rest it")
    case Nil
    from nx(1) [OF less.prems(2) Nil] obtain it1 where
      1: "Itl_next it = Some (None, it1)" "itl_buf (il_next it1)" "itl_rest it1 = []" by blast
    from nx(1) [OF 1(2,3)] obtain it2 where "Itl_next it1 = Some (None, it2)" by blast
    with d 1 Nil show ?thesis by (auto simp: n)
  next
    case (Cons w ws)
    from nx(2) [OF less.prems(2) Cons] obtain it1 where
      1: "Itl_next it = Some (Some w, it1)" "itl_buf (il_next it1)" "itl_rest it1 = ws" by blast
    show ?thesis
    proof (cases ws)
      case Nil
      from nx(1) [OF 1(2)] 1(3) Nil obtain it2 where "Itl_next it1 = Some (None, it2)" by blast
      with d 1 Cons Nil show ?thesis by (auto simp: n)
    next
      case (Cons g' ws')
      from nx(2) [OF 1(2)] 1(3) Cons obtain it2 where
        2: "Itl_next it1 = Some (Some g', it2)" "itl_buf (il_next it2)" "itl_rest it2 = ws'" by blast
      let ?c1 = "c\<lparr>expireIdx := k\<rparr>"
      have ev: "evens (g # itl_rest it) = g # evens (g' # ws')"
        using \<open>itl_rest it = w # ws\<close> Cons by simp
      have "\<exists>k. ref_loop n' (Some g') it2 (pick (expire c) g res) ?c1 =
          Some (fold (pick (expire ?c1)) (evens (g' # itl_rest it2)) (pick (expire c) g res), ?c1\<lparr>expireIdx := k\<rparr>)"
        by (rule less.hyps)
           (use less.prems 2 \<open>itl_rest it = w # ws\<close> Cons ev n in auto)
      with d 1 2 ev show ?thesis by (auto simp: n)
    qed
  qed
qed

lemma calcExpireDays_days:
  assumes "db_inv lib db" "m \<noteq> []" "length m < MAXCHAR" "arts lib (db_dbf db) m = Some a"
    "\<forall>e \<in> set (expire c). 0 \<le> ex_days e" "pats_defined c (a_xref a)" "list_ok '' :'' (a_xref a)"
  shows "\<exists>db' k. calcExpireDays lib m db c = Some (expire_days c (a_xref a), db', c\<lparr>expireIdx := k\<rparr>)
    \<and> db_inv lib db' \<and> db_dbf db' = db_dbf db"
proof -
  obtain db1 where x: "Db_xref lib m db = Some (a_xref a, db1)" "db_inv lib db1" "db_dbf db1 = db_dbf db"
    using art_getter_refines [OF assms(1-3), of "[]" a_xref] assms(4) by (auto simp: Db_xref_def)
  show ?thesis
  proof (cases "a_xref a = []")
    case True
    from True x have "calcExpireDays lib m db c = Some (expire_days c (a_xref a), db1, c\<lparr>expireIdx := expireIdx c\<rparr>)"
      by (simp add: calcExpireDays_def expire_days_def)
    with x show ?thesis by blast
  next
    case False
    let ?it = "new_Itl (a_xref a) '' :''"
    note buf = new_Itl_buf [OF assms(7)] and rest = itl_rest_new [OF assms(7)]
    have first: "Itl_first ?it = Itl_next ?it" and cnt: "Itl_count ?it = length (words_of (is_sep '' :'') (a_xref a))"
      using separate_words [OF assms(7)]
      by (auto simp: Itl_first_def new_Itl_def Itl_count_def Let_def split: prod.splits)
    show ?thesis
    proof (cases "words_of (is_sep '' :'') (a_xref a)")
      case Nil
      from Itl_next_rest(1) [OF buf] rest Nil obtain it1 where "Itl_next ?it = Some (None, it1)" by auto
      with x False first Nil have "calcExpireDays lib m db c = Some (expire_days c (a_xref a), db1, c\<lparr>expireIdx := expireIdx c\<rparr>)"
        by (simp add: calcExpireDays_def expire_days_def xref_groups_def Let_def)
      with x show ?thesis by blast
    next
      case (Cons g ws)
      from Itl_next_rest(2) [OF buf] rest Cons obtain it1 where
        1: "Itl_next ?it = Some (Some g, it1)" "itl_buf (il_next it1)" "itl_rest it1 = ws" by auto
      have p: "\<forall>h \<in> set (evens (g # itl_rest it1)). \<forall>e \<in> set (expire c). Wld_match h (ex_pattern e) \<noteq> None"
        using assms(6) by (simp add: pats_defined_def xref_groups_def Cons 1(3))
      from ref_loop_fold [OF assms(5) 1(2) _ p, of "Itl_count ?it" "-1"] obtain k where
        "ref_loop (Itl_count ?it) (Some g) it1 (-1) c
          = Some (fold (pick (expire c)) (xref_groups (a_xref a)) (-1), c\<lparr>expireIdx := k\<rparr>)"
        using cnt Cons 1(3) by (auto simp: xref_groups_def)
      with x False first 1 show ?thesis
        by (simp add: calcExpireDays_def expire_days_def Let_def) blast
    qed
  qed
qed

lemma pick_range: "pick es g r = r \<or> (\<exists>e \<in> set es. pat_matches g e \<and> pick es g r = ex_days e)"
  by (auto simp: pick_def find_Some_iff split: option.splits)

lemma find_same: "(\<And>x. x \<in> set xs \<Longrightarrow> P x = Q x) \<Longrightarrow> find P xs = find Q xs"
  by (induction xs) auto

lemma fold_pick_range:
  "fold (pick es) gs r = r \<or> (\<exists>g \<in> set gs. \<exists>e \<in> set es. pat_matches g e \<and> fold (pick es) gs r = ex_days e)"
proof (induction gs arbitrary: r)
  case (Cons g gs)
  from Cons [of "pick es g r"] pick_range [of es g r] show ?case by auto
qed simp

text \<open>The number of days an article is kept, as \<open>calcExpireDays\<close> computes it through the item list,
  the enumeration of the patterns and the matcher, is a function of its Xref field and the
  configuration: it is -1 without an Xref, otherwise the days of a pattern that matches one of the
  groups, or the default if there is none; and with a single group it is the first pattern that
  matches, or the default.\<close>

theorem calcExpireDays_result:
  assumes "db_inv lib db" "m \<noteq> []" "length m < MAXCHAR" "arts lib (db_dbf db) m = Some a"
    "\<forall>e \<in> set (expire c). 0 \<le> ex_days e" "pats_defined c (a_xref a)" "list_ok '' :'' (a_xref a)"
  shows "\<exists>d db' k. calcExpireDays lib m db c = Some (d, db', c\<lparr>expireIdx := k\<rparr>)
    \<and> db_inv lib db' \<and> db_dbf db' = db_dbf db
    \<and> (if a_xref a = [] then d = -1
       else d = defaultExpire c
         \<or> (\<exists>g \<in> set (xref_groups (a_xref a)). \<exists>e \<in> set (expire c). pat_matches g e \<and> d = ex_days e))
    \<and> (\<forall>g. a_xref a \<noteq> [] \<and> xref_groups (a_xref a) = [g] \<longrightarrow>
         d = (case find (pat_matches g) (expire c) of None \<Rightarrow> defaultExpire c | Some e \<Rightarrow> ex_days e))"
proof -
  let ?d = "expire_days c (a_xref a)"
  have r: "?d = defaultExpire c
      \<or> (\<exists>g \<in> set (xref_groups (a_xref a)). \<exists>e \<in> set (expire c). pat_matches g e \<and> ?d = ex_days e)"
    if "a_xref a \<noteq> []"
    using fold_pick_range [of "expire c" "xref_groups (a_xref a)" "-1"] that
    by (auto simp: expire_days_def Let_def)
  have f: "find (\<lambda>e. pat_matches g e \<and> (ex_days e > -1 \<and> (-1 :: int) \<noteq> 0 \<or> ex_days e = 0)) (expire c)
      = find (pat_matches g) (expire c)" for g
  proof (rule find_same)
    fix e assume "e \<in> set (expire c)"
    with assms(5) have "-1 < ex_days e" by force
    then show "(pat_matches g e \<and> (ex_days e > -1 \<and> (-1 :: int) \<noteq> 0 \<or> ex_days e = 0)) = pat_matches g e" by simp
  qed
  have one: "?d = (case find (pat_matches g) (expire c) of None \<Rightarrow> defaultExpire c | Some e \<Rightarrow> ex_days e)"
    if "a_xref a \<noteq> []" "xref_groups (a_xref a) = [g]" for g
  proof (cases "find (pat_matches g) (expire c)")
    case None
    with that f [of g] show ?thesis by (simp add: expire_days_def pick_def)
  next
    case (Some e)
    then have "e \<in> set (expire c)" by (auto simp: find_Some_iff)
    with assms(5) have "0 \<le> ex_days e" by blast
    with Some that f [of g] show ?thesis by (simp add: expire_days_def pick_def)
  qed
  obtain db' k where c: "calcExpireDays lib m db c = Some (?d, db', c\<lparr>expireIdx := k\<rparr>)" "db_inv lib db'"
    "db_dbf db' = db_dbf db" using calcExpireDays_days [OF assms] by blast
  have x: "if a_xref a = [] then ?d = -1 else ?d = defaultExpire c
      \<or> (\<exists>g \<in> set (xref_groups (a_xref a)). \<exists>e \<in> set (expire c). pat_matches g e \<and> ?d = ex_days e)"
    using r by (cases "a_xref a = []") (simp add: expire_days_def, simp)
  have o: "\<forall>g. a_xref a \<noteq> [] \<and> xref_groups (a_xref a) = [g] \<longrightarrow>
      ?d = (case find (pat_matches g) (expire c) of None \<Rightarrow> defaultExpire c | Some e \<Rightarrow> ex_days e)"
    using one by blast
  show ?thesis by (rule exI [of _ ?d], rule exI [of _ db'], rule exI [of _ k], intro conjI; fact c x o)
qed

definition day_config :: config where
  "day_config = (config_init [] [])\<lparr>expire := [\<lparr>ex_pattern = ''a*'', ex_days = 5\<rparr>]\<rparr>"

definition sample_art :: art where
  "sample_art = prepared sample_over ''ab'' 3 1000"

definition sample_db :: "(cstr \<Rightarrow> byte list option) database" where
  "sample_db = db_init ((\<lambda>_. None)(key_of ''m'' \<mapsto> art_image sample_art))"

lemma sample_art_ok: "art_ok sample_art"
  unfolding sample_art_def
  by (rule prepared_ok) (simp_all add: over_fits_def sample_over_def field_fits_def MAXCHAR_def)

lemma sample_xref: "a_xref sample_art = ''ab:3''"
proof -
  have "dec_int 3 = ''3''" by code_simp
  then show ?thesis by (simp add: sample_art_def prepared_def MAXCHAR_def)
qed

lemma sample_groups: "xref_groups ''ab:3'' = [''ab'']"
  by (simp add: xref_groups_def is_sep_def)

lemma sample_pat: "Wld_match ''ab'' ''a*'' = Some True"
  by (simp add: Wld_match_def)

lemma sample_db_inv: "db_inv mem_gdbm sample_db" "arts mem_gdbm (db_dbf sample_db) ''m'' = Some sample_art"
  using arts_image [of mem_gdbm "db_dbf sample_db" "''m''" sample_art] sample_art_ok
  by (auto simp: db_inv_def sample_db_def db_init_def mem_gdbm_def split: if_splits)

theorem calcExpireDays_result_witness:
  "\<exists>db k. calcExpireDays mem_gdbm ''m'' sample_db day_config = Some (5, db, day_config\<lparr>expireIdx := k\<rparr>)"
proof -
  have m: "''m'' \<noteq> []" "length ''m'' < MAXCHAR" by (simp_all add: MAXCHAR_def)
  have c: "\<forall>e \<in> set (expire day_config). 0 \<le> ex_days e" by (simp add: day_config_def)
  have p: "pats_defined day_config (a_xref sample_art)"
    by (simp add: pats_defined_def sample_xref sample_groups day_config_def sample_pat)
  have l: "list_ok '' :'' (a_xref sample_art)" by (simp add: sample_xref list_ok_def SEP_CHAR_def)
  obtain d db k where r: "calcExpireDays mem_gdbm ''m'' sample_db day_config = Some (d, db, day_config\<lparr>expireIdx := k\<rparr>)"
    "\<forall>g. a_xref sample_art \<noteq> [] \<and> xref_groups (a_xref sample_art) = [g] \<longrightarrow>
       d = (case find (pat_matches g) (expire day_config) of None \<Rightarrow> defaultExpire day_config | Some e \<Rightarrow> ex_days e)"
    using calcExpireDays_result [OF sample_db_inv(1) m sample_db_inv(2) c p l] by blast
  from r(2) have "d = 5"
    by (simp add: sample_xref sample_groups day_config_def pat_matches_def sample_pat)
  with r(1) show ?thesis by blast
qed

subsection \<open>What survives\<close>

text \<open>The keys that \<open>gdbm_firstkey\<close> and \<open>gdbm_nextkey\<close> enumerate.\<close>

fun key_walk :: "nat \<Rightarrow> 'db gdbm \<Rightarrow> 'db \<Rightarrow> cstr option \<Rightarrow> cstr list option" where
  "key_walk n lib d None = Some []"
| "key_walk 0 lib d (Some k) = None"
| "key_walk (Suc n) lib d (Some k) = map_option ((#) k) (key_walk n lib d (g_nextkey lib d k))"

definition survives :: "config \<Rightarrow> u32 \<Rightarrow> art \<Rightarrow> bool" where
  "survives c now a \<longleftrightarrow>
     (let days = expire_days c (a_xref a) in
      days \<noteq> -1 \<and> a_lastAccess a \<noteq> - 1
      \<and> \<not> (days > 0 \<and> sint now - sint (a_lastAccess a) > days * 24 * 3600))"

definition entry_ok :: "'db gdbm \<Rightarrow> 'db \<Rightarrow> config \<Rightarrow> cstr \<Rightarrow> bool" where
  "entry_ok lib d c m \<longleftrightarrow> m \<noteq> [] \<and> proper m \<and> length m < MAXCHAR
     \<and> (\<exists>a. arts lib d m = Some a \<and> pats_defined c (a_xref a) \<and> list_ok '' :'' (a_xref a))"

definition surviving :: "'db gdbm \<Rightarrow> 'db \<Rightarrow> config \<Rightarrow> u32 \<Rightarrow> cstr \<Rightarrow> bool" where
  "surviving lib d c now m \<longleftrightarrow> (case arts lib d m of None \<Rightarrow> False | Some a \<Rightarrow> survives c now a)"

lemma key_str_of: "proper m \<Longrightarrow> key_str (key_of m) = m"
  by (simp add: key_str_def key_of_def proper_def takeWhile_eq_all_conv takeWhile_append)

lemma keep_art_survives:
  assumes "db_inv lib db" "entry_ok lib (db_dbf db) c m" "\<forall>e \<in> set (expire c). 0 \<le> ex_days e"
  shows "\<exists>db' k. keep_art lib now m db c = Some (surviving lib (db_dbf db) c now m, db', c\<lparr>expireIdx := k\<rparr>)
    \<and> db_inv lib db' \<and> db_dbf db' = db_dbf db"
proof -
  from assms(2) obtain a where m: "m \<noteq> []" "length m < MAXCHAR" and
    a: "arts lib (db_dbf db) m = Some a" "pats_defined c (a_xref a)" "list_ok '' :'' (a_xref a)"
    by (auto simp: entry_ok_def)
  obtain db1 k where d: "calcExpireDays lib m db c = Some (expire_days c (a_xref a), db1, c\<lparr>expireIdx := k\<rparr>)"
    "db_inv lib db1" "db_dbf db1 = db_dbf db"
    using calcExpireDays_days [OF assms(1) m a(1) assms(3) a(2,3)] by blast
  obtain db2 where l: "Db_lastAccess lib m db1 = Some (a_lastAccess a, db2)" "db_inv lib db2" "db_dbf db2 = db_dbf db1"
    using art_getter_refines [OF d(2) m, of "- 1" a_lastAccess] a(1) d(3) by (auto simp: Db_lastAccess_def)
  have "keep_art lib now m db c = Some (survives c now a, db2, c\<lparr>expireIdx := k\<rparr>)"
    using d l by (simp add: keep_art_def survives_def Let_def)
  with a(1) d l show ?thesis by (auto simp: surviving_def)
qed

lemma surviving_idx [simp]: "surviving lib d (c\<lparr>expireIdx := k\<rparr>) now m = surviving lib d c now m"
  by (simp add: surviving_def survives_def expire_days_def Let_def split: option.splits)

lemma entry_ok_idx [simp]: "entry_ok lib d (c\<lparr>expireIdx := k\<rparr>) m = entry_ok lib d c m"
  by (simp add: entry_ok_def pats_defined_def)

lemma expire_loop_copies:
  assumes "gdbm_laws lib" "stores_succeed lib"
  shows "db_inv lib db \<Longrightarrow> key_walk n lib (db_dbf db) key = Some (map key_of ms) \<Longrightarrow>
    \<forall>e \<in> set (expire c). 0 \<le> ex_days e \<Longrightarrow> \<forall>m \<in> set ms. entry_ok lib (db_dbf db) c m \<Longrightarrow>
    \<exists>tmp' db' k. expire_loop n lib now key db c tmp = Some (tmp', db', c\<lparr>expireIdx := k\<rparr>)
      \<and> g_fetch lib tmp' = (\<lambda>x. if \<exists>m \<in> set ms. x = key_of m \<and> surviving lib (db_dbf db) c now m
                               then g_fetch lib (db_dbf db) x else g_fetch lib tmp x)"
proof (induction n arbitrary: db key ms c tmp)
  case 0
  then have "key = None \<and> ms = []" by (cases key) auto
  then show ?case by (auto intro: exI [of _ "expireIdx c"])
next
  case (Suc n)
  show ?case
  proof (cases key)
    case None
    with Suc.prems(2) show ?thesis by (auto intro: exI [of _ "expireIdx c"])
  next
    case (Some k0)
    with Suc.prems(2) obtain m ms' where ms: "ms = m # ms'" "k0 = key_of m" and
      walk: "key_walk n lib (db_dbf db) (g_nextkey lib (db_dbf db) (key_of m)) = Some (map key_of ms')"
      by (cases ms) auto
    have ok: "entry_ok lib (db_dbf db) c m" using Suc.prems(4) ms by simp
    then have str: "key_str (key_of m) = m" by (simp add: entry_ok_def key_str_of)
    obtain db1 k1 where kp: "keep_art lib now m db c = Some (surviving lib (db_dbf db) c now m, db1, c\<lparr>expireIdx := k1\<rparr>)"
      "db_inv lib db1" "db_dbf db1 = db_dbf db"
      using keep_art_survives [OF Suc.prems(1) ok Suc.prems(3)] by blast
    from ok obtain v where v: "g_fetch lib (db_dbf db) (key_of m) = Some v"
      by (auto simp: entry_ok_def arts_def bind_eq_Some_conv)
    obtain d1 where st: "g_store lib tmp (key_of m) v = (d1, True)"
      "g_fetch lib d1 = (g_fetch lib tmp)(key_of m \<mapsto> v)"
      using g_store_succeeds [OF assms] by blast
    let ?tmp = "if surviving lib (db_dbf db) c now m then d1 else tmp"
    let ?c = "c\<lparr>expireIdx := k1\<rparr>"
    have step: "expire_loop (Suc n) lib now key db c tmp
        = expire_loop n lib now (g_nextkey lib (db_dbf db) (key_of m)) db1 ?c ?tmp"
      using kp v st by (simp add: Some ms str Db_next_def)
    have "\<exists>tmp' db' k. expire_loop n lib now (g_nextkey lib (db_dbf db) (key_of m)) db1 ?c ?tmp
        = Some (tmp', db', ?c\<lparr>expireIdx := k\<rparr>)
      \<and> g_fetch lib tmp' = (\<lambda>x. if \<exists>m \<in> set ms'. x = key_of m \<and> surviving lib (db_dbf db1) ?c now m
                               then g_fetch lib (db_dbf db1) x else g_fetch lib ?tmp x)"
      by (rule Suc.IH) (use kp walk Suc.prems ms in auto)
    then obtain tmp' db' k where r: "expire_loop (Suc n) lib now key db c tmp = Some (tmp', db', c\<lparr>expireIdx := k\<rparr>)"
      and f: "g_fetch lib tmp' = (\<lambda>x. if \<exists>m \<in> set ms'. x = key_of m \<and> surviving lib (db_dbf db) c now m
                               then g_fetch lib (db_dbf db) x else g_fetch lib ?tmp x)"
      unfolding step using kp(3) by (simp only: surviving_idx) auto
    have "g_fetch lib tmp' = (\<lambda>x. if \<exists>m \<in> set ms. x = key_of m \<and> surviving lib (db_dbf db) c now m
                               then g_fetch lib (db_dbf db) x else g_fetch lib tmp x)"
    proof
      fix x
      have "(\<exists>h \<in> set ms. x = key_of h \<and> surviving lib (db_dbf db) c now h)
        \<longleftrightarrow> x = key_of m \<and> surviving lib (db_dbf db) c now m
          \<or> (\<exists>h \<in> set ms'. x = key_of h \<and> surviving lib (db_dbf db) c now h)"
        by (auto simp: ms)
      moreover have "g_fetch lib ?tmp x = (if x = key_of m \<and> surviving lib (db_dbf db) c now m
          then g_fetch lib (db_dbf db) x else g_fetch lib tmp x)"
        using st(2) v by simp
      ultimately show "g_fetch lib tmp' x = (if \<exists>m \<in> set ms. x = key_of m \<and> surviving lib (db_dbf db) c now m
                               then g_fetch lib (db_dbf db) x else g_fetch lib tmp x)"
        unfolding f by presburger
    qed
    with r show ?thesis by blast
  qed
qed

lemma Db_expire_arts:
  assumes "gdbm_laws lib" "stores_succeed lib" "db_inv lib db" "g_fetch lib d0 = (\<lambda>_. None)"
    "key_walk n lib (db_dbf db) (g_firstkey lib (db_dbf db)) = Some (map key_of ms)"
    "\<forall>m. arts lib (db_dbf db) m \<noteq> None \<longrightarrow> m \<in> set ms"
    "\<forall>m \<in> set ms. entry_ok lib (db_dbf db) c m" "\<forall>e \<in> set (expire c). 0 \<le> ex_days e"
  shows "\<exists>db' k. Db_expire n lib now db c (Some d0) = Some (True, db', c\<lparr>expireIdx := k\<rparr>) \<and> db_inv lib db'
      \<and> arts lib (db_dbf db') = (\<lambda>m. case arts lib (db_dbf db) m of None \<Rightarrow> None
            | Some a \<Rightarrow> if survives c now a then Some a else None)"
proof -
  obtain tmp' db1 k where r: "expire_loop n lib now (g_firstkey lib (db_dbf db)) db c d0 = Some (tmp', db1, c\<lparr>expireIdx := k\<rparr>)"
    and f: "g_fetch lib tmp' = (\<lambda>x. if \<exists>m \<in> set ms. x = key_of m \<and> surviving lib (db_dbf db) c now m
                               then g_fetch lib (db_dbf db) x else g_fetch lib d0 x)"
    using expire_loop_copies [OF assms(1,2,3,5,8,7)] by blast
  have g: "g_fetch lib tmp' (key_of m) = (if m \<in> set ms \<and> surviving lib (db_dbf db) c now m
      then g_fetch lib (db_dbf db) (key_of m) else None)" for m
    unfolding f assms(4) by auto
  let ?db = "(Db_close db1)\<lparr>db_dbf := tmp'\<rparr>"
  have "Db_expire n lib now db c (Some d0) = Some (True, ?db, c\<lparr>expireIdx := k\<rparr>)"
    using r by (simp add: Db_expire_def Db_first_def)
  moreover have "db_inv lib ?db" using assms(3) g by (auto simp: db_inv_def Db_close_def split: if_splits)
  moreover have "arts lib tmp' m = (case arts lib (db_dbf db) m of None \<Rightarrow> None
      | Some a \<Rightarrow> if survives c now a then Some a else None)" for m
  proof (cases "arts lib (db_dbf db) m")
    case None
    with assms(7) have "m \<notin> set ms" by (auto simp: entry_ok_def)
    with g [of m] None show ?thesis by (simp add: arts_def)
  next
    case (Some a)
    with assms(6) have "m \<in> set ms" by auto
    with g [of m] Some show ?thesis by (auto simp: arts_def surviving_def)
  qed
  ultimately show ?thesis by auto
qed

text \<open>After \<open>Db_expire\<close>, when gdbm enumerates every entry, the data base holds exactly the articles
  that survive, each unchanged: those whose last access is not more than their days ago; articles
  whose days are 0 are kept whatever their age.  When the new data base cannot be opened nothing
  changes.\<close>

theorem Db_expire_keeps:
  assumes "gdbm_laws lib" "stores_succeed lib" "db_inv lib db" "g_fetch lib d0 = (\<lambda>_. None)"
    "key_walk n lib (db_dbf db) (g_firstkey lib (db_dbf db)) = Some (map key_of ms)"
    "\<forall>m. arts lib (db_dbf db) m \<noteq> None \<longrightarrow> m \<in> set ms"
    "\<forall>m \<in> set ms. entry_ok lib (db_dbf db) c m" "\<forall>e \<in> set (expire c). 0 \<le> ex_days e"
  shows "(\<exists>db' c'. Db_expire n lib now db c (Some d0) = Some (True, db', c') \<and> db_inv lib db'
      \<and> arts lib (db_dbf db') = (\<lambda>m. case arts lib (db_dbf db) m of None \<Rightarrow> None
            | Some a \<Rightarrow> if survives c now a then Some a else None))
    \<and> (\<exists>db'. Db_expire n lib now db c None = Some (False, db', c) \<and> db_dbf db' = db_dbf db)"
  using Db_expire_arts [OF assms, of now] by (fastforce simp: Db_expire_def Db_close_def)

definition walk_gdbm :: "(cstr \<Rightarrow> byte list option) gdbm" where
  "walk_gdbm = mem_gdbm\<lparr>g_firstkey := (\<lambda>d. if d (key_of ''m'') = None then None else Some (key_of ''m''))\<rparr>"

lemma walk_gdbm_same:
  "gdbm_laws walk_gdbm" "stores_succeed walk_gdbm" "db_inv walk_gdbm = db_inv mem_gdbm" "arts walk_gdbm = arts mem_gdbm"
  using mem_gdbm_laws
  by (auto simp: gdbm_laws_def stores_succeed_def walk_gdbm_def mem_gdbm_def db_inv_def arts_def fun_eq_iff)

theorem Db_expire_keeps_witness:
  "\<exists>db' c'. Db_expire 1 walk_gdbm 1000000 sample_db day_config (Some (\<lambda>_. None)) = Some (True, db', c')
     \<and> arts walk_gdbm (db_dbf db') ''m'' = None"
proof -
  have d: "db_dbf sample_db = (\<lambda>_. None)(key_of ''m'' \<mapsto> art_image sample_art)"
    by (simp add: sample_db_def db_init_def)
  have inv: "db_inv walk_gdbm sample_db" using sample_db_inv by (simp add: walk_gdbm_same)
  have e: "g_fetch walk_gdbm (\<lambda>_. None) = (\<lambda>_. None)" by (simp add: walk_gdbm_def mem_gdbm_def)
  have w: "key_walk 1 walk_gdbm (db_dbf sample_db) (g_firstkey walk_gdbm (db_dbf sample_db)) = Some (map key_of [''m''])"
    by (simp add: walk_gdbm_def mem_gdbm_def d)
  have all: "\<forall>m. arts walk_gdbm (db_dbf sample_db) m \<noteq> None \<longrightarrow> m \<in> set [''m'']"
    by (auto simp: arts_def walk_gdbm_def mem_gdbm_def d split: if_splits)
  have ok: "\<forall>m \<in> set [''m'']. entry_ok walk_gdbm (db_dbf sample_db) day_config m"
    using sample_db_inv(2)
    by (auto intro!: exI [of _ sample_art] simp: entry_ok_def walk_gdbm_same pats_defined_def sample_xref sample_groups day_config_def sample_pat
        list_ok_def SEP_CHAR_def MAXCHAR_def)
  have c: "\<forall>e \<in> set (expire day_config). 0 \<le> ex_days e" by (simp add: day_config_def)
  have s: "\<not> survives day_config 1000000 sample_art"
    by (simp add: survives_def expire_days_def sample_xref sample_groups pick_def day_config_def pat_matches_def
        sample_pat, simp add: sample_art_def prepared_def)
  from Db_expire_keeps [OF walk_gdbm_same(1,2) inv e w all ok c, of 1000000] s sample_db_inv(2) show ?thesis
    by (auto simp: walk_gdbm_same)
qed

end
