(* ===== verification/Spool.thy ===== *)
theory Spool
  imports Article Content Group
begin

text \<open>
  The state that the operations on articles share: the overview list of \<^verbatim>\<open>content.c\<close>, the group data
  base of \<^verbatim>\<open>group.c\<close>, the article data base of \<^verbatim>\<open>database.c\<close> and the files of the spool directory.
  The calls that reach from one of these modules into another are put together here: \<open>Cont_read\<close>
  asks the group data base for the last article number.

  What does not change during an operation is the environment: the two gdbm libraries, the spool
  directory, which files can be opened for writing, which overview lines can be written, the clock
  and the memory before local buffers.
\<close>

record ('g, 'd) spool =
  sp_cont :: cont
  sp_grp :: "'g grp"
  sp_db :: "'d database"
  sp_file :: "cstr \<Rightarrow> cstr option"

record ('g, 'd) env =
  gdbm_g :: "'g gdbm"
  gdbm_d :: "'d gdbm"
  spool_dir :: cstr
  can_write :: "cstr \<Rightarrow> bool"
  line_ok :: "Over \<Rightarrow> bool"
  clock :: u32
  before :: cstr

definition ov_path :: "('g, 'd) env \<Rightarrow> cstr \<Rightarrow> cstr" where
  "ov_path E name = take (MAXCHAR - 1) (spool_dir E @ ''/overview/'' @ name)"

definition sp_Cont_read :: "('g, 'd) env \<Rightarrow> cstr \<Rightarrow> ('g, 'd) spool \<Rightarrow> ('g, 'd) spool option" where
  "sp_Cont_read E name s =
     do { (l, g) \<leftarrow> Grp_last (gdbm_g E) name (sp_grp s);
          c \<leftarrow> Cont_read (spool_dir E) name (sp_file s (ov_path E name)) l (sp_cont s);
          Some (s\<lparr>sp_cont := c, sp_grp := g\<rparr>) }"

definition sp_Cont_write :: "('g, 'd) env \<Rightarrow> ('g, 'd) spool \<Rightarrow> ('g, 'd) spool" where
  "sp_Cont_write E s =
     (let p = grp_file (sp_cont s);
          (c, f) = Cont_write (can_write E p) (line_ok E) (sp_cont s) (sp_file s p)
      in s\<lparr>sp_cont := c, sp_file := (sp_file s)(p := f)\<rparr>)"

text \<open>\<open>Grp_setFirstLast( Cont_grp(), Cont_first(), Cont_last() )\<close>.\<close>

definition sp_setFirstLast :: "('g, 'd) env \<Rightarrow> ('g, 'd) spool \<Rightarrow> ('g, 'd) spool option" where
  "sp_setFirstLast E s =
     do { g \<leftarrow> Grp_setFirstLast (first (sp_cont s)) (last_nr (sp_cont s)) (gdbm_g E) (grp_name (sp_cont s)) (sp_grp s);
          Some (s\<lparr>sp_grp := g\<rparr>) }"

subsection \<open>What a group has\<close>

definition env_ok :: "('g, 'd) env \<Rightarrow> bool" where
  "env_ok E \<longleftrightarrow> gdbm_laws (gdbm_g E) \<and> stores_succeed (gdbm_g E) \<and> gdbm_laws (gdbm_d E) \<and> stores_succeed (gdbm_d E)
     \<and> line_ok E = (\<lambda>_. True) \<and> can_write E = (\<lambda>_. True)"

definition spool_inv :: "('g, 'd) env \<Rightarrow> ('g, 'd) spool \<Rightarrow> bool" where
  "spool_inv E s \<longleftrightarrow> grp_inv (gdbm_g E) (sp_grp s) \<and> db_inv (gdbm_d E) (sp_db s)"

definition plain_ov :: "Over \<Rightarrow> bool" where
  "plain_ov ov \<longleftrightarrow> ov_fits ov \<and> \<not> Pseudo_isGeneralInfo (ov_msgId ov)"

definition group_name :: "('g, 'd) env \<Rightarrow> cstr \<Rightarrow> bool" where
  "group_name E n \<longleftrightarrow> name_ok n \<and> length (spool_dir E @ ''/overview/'' @ n) < MAXCHAR"

text \<open>The overviews of a group and its last article number, as the files and the data base have them.\<close>

definition group_has :: "('g, 'd) env \<Rightarrow> ('g, 'd) spool \<Rightarrow> cstr \<Rightarrow> Over list \<Rightarrow> int \<Rightarrow> bool" where
  "group_has E s n ovs l \<longleftrightarrow>
     sp_file s (ov_path E n) = (if ovs = [] then None else Some (concat (map Ov_write ovs)))
     \<and> list_all plain_ov ovs \<and> sorted_wrt (<) (map ov_numb ovs)
     \<and> list_all (\<lambda>ov. 0 < ov_numb ov \<and> ov_numb ov \<le> l) ovs \<and> 0 \<le> l \<and> l < INT_MAX
     \<and> (\<exists>i. info (gdbm_g E) (dbf (sp_grp s)) n = Some i \<and> sint (e_last (entry i)) = l)"

lemma ov_path_whole: "group_name E n \<Longrightarrow> ov_path E n = spool_dir E @ ''/overview/'' @ n"
  unfolding group_name_def ov_path_def by (intro take_all) linarith

lemma ov_path_inject: "group_name E n \<Longrightarrow> group_name E m \<Longrightarrow> ov_path E n = ov_path E m \<longleftrightarrow> n = m"
  by (simp add: ov_path_whole)

lemma extendCont_names [simp]: "grp_name (extendCont k c) = grp_name c" "grp_file (extendCont k c) = grp_file c"
proof -
  have "grp_name (((\<lambda>c. Cont_app c None) ^^ n) c) = grp_name c \<and> grp_file (((\<lambda>c. Cont_app c None) ^^ n) c) = grp_file c" for n
    by (induction n) auto
  then show "grp_name (extendCont k c) = grp_name c" "grp_file (extendCont k c) = grp_file c"
    by (simp_all add: extendCont_def)
qed

lemma read_loop_names: "read_loop ls c = Some c' \<Longrightarrow> grp_name c' = grp_name c \<and> grp_file c' = grp_file c"
proof (induction ls arbitrary: c)
  case (Cons line ls)
  then show ?case
    by (auto simp: Let_def bind_eq_Some_conv split: option.splits if_splits)
qed simp

lemma setupEmpty_names [simp]: "grp_name (setupEmpty g c) = grp_name c" "grp_file (setupEmpty g c) = grp_file c"
  by (simp_all add: setupEmpty_def Let_def)

lemma Cont_read_names:
  assumes "Cont_read spool name fl g c = Some c'"
  shows "grp_name c' = name \<and> grp_file c' = take (MAXCHAR - 1) (spool @ ''/overview/'' @ name)"
proof -
  define c2 where "c2 = (clearCont (c\<lparr>vecFirst := 0, first := 0, last_nr := 0, grp_name := name\<rparr>))
      \<lparr>grp_file := take (MAXCHAR - 1) (spool @ ''/overview/'' @ name)\<rparr>"
  have c2: "grp_name c2 = name" "grp_file c2 = take (MAXCHAR - 1) (spool @ ''/overview/'' @ name)"
    by (simp_all add: c2_def clearCont_def)
  from assms have n: "Utl_cpyStr name = Some name"
    by (auto simp: Cont_read_def bind_eq_Some_conv dest: Utl_cpyStr_Some)
  show ?thesis
  proof (cases fl)
    case None
    with assms n have "c' = setupEmpty g c2" by (simp add: Cont_read_def c2_def Let_def)
    with c2 show ?thesis by simp
  next
    case (Some f)
    with assms n obtain c3 where c3: "read_loop (fgets_all f) c2 = Some c3"
      "c' = setupEmpty g c3 \<or> c' = c3 \<or> c' = extendCont (g - first c3 + 1) c3"
      unfolding Cont_read_def c2_def by (auto simp: Let_def bind_eq_Some_conv split: if_splits)
    from read_loop_names [OF c3(1)] c2 c3(2) show ?thesis by auto
  qed
qed

lemma sorted_numbers_same:
  assumes "sorted_wrt (<) (map ov_numb xs)" "sorted_wrt (<) (map ov_numb ys)"
    "map_of (map (\<lambda>ov. (ov_numb ov, ov)) xs) = map_of (map (\<lambda>ov. (ov_numb ov, ov)) ys)"
  shows "xs = ys"
proof -
  have d: "distinct (map fst (map (\<lambda>ov. (ov_numb ov, ov)) zs))" if "sorted_wrt (<) (map ov_numb zs)" for zs
    using that by (simp add: comp_def strict_sorted_iff)
  have "set (map (\<lambda>ov. (ov_numb ov, ov)) xs) = set (map (\<lambda>ov. (ov_numb ov, ov)) ys)"
    using map_of_inject_set [OF d [OF assms(1)] d [OF assms(2)]] assms(3) by blast
  then have "snd ` set (map (\<lambda>ov. (ov_numb ov, ov)) xs) = snd ` set (map (\<lambda>ov. (ov_numb ov, ov)) ys)" by simp
  then have s: "set xs = set ys" by (simp add: image_image)
  have n: "map ov_numb xs = map ov_numb ys"
    using assms(1,2) s by (intro strict_sorted_equal) simp_all
  have "inj_on ov_numb (set xs \<union> set ys)"
    using assms(1) s by (simp add: strict_sorted_iff distinct_map)
  with n show ?thesis by (rule map_inj_on)
qed

lemma sint_of_int_ok: "int_ok x \<Longrightarrow> sint (word_of_int x :: u32) = x"
  by (simp add: signed_of_int signed_take_bit_int_eq_self int_ok_def INT_MAX_def)

text \<open>Reading a group gives its overviews.\<close>

lemma Cont_read_group:
  assumes "length n < MAXCHAR" "list_all plain_ov ovs" "sorted_wrt (<) (map ov_numb ovs)"
    "list_all (\<lambda>ov. 0 < ov_numb ov \<and> ov_numb ov \<le> l) ovs" "0 \<le> l"
  shows "\<exists>c'. Cont_read spool n (if ovs = [] then None else Some (concat (map Ov_write ovs))) l c = Some c'
    \<and> cont_inv c' \<and> last_nr c' = l \<and> somes (elem c') = ovs"
proof (cases "ovs = []")
  case True
  define c2 where "c2 = (clearCont (c\<lparr>vecFirst := 0, first := 0, last_nr := 0, grp_name := n\<rparr>))
      \<lparr>grp_file := take (MAXCHAR - 1) (spool @ ''/overview/'' @ n)\<rparr>"
  have e: "elem c2 = []" by (simp add: c2_def clearCont_def)
  have "Cont_read spool n None l c = Some (setupEmpty l c2)"
    using assms(1) by (simp add: Cont_read_def Utl_cpyStr_eq c2_def Let_def)
  moreover have "cont_inv (setupEmpty l c2)" by (rule setupEmpty_inv [OF assms(5) e])
  moreover have "last_nr (setupEmpty l c2) = l" "elem (setupEmpty l c2) = []"
    by (simp_all add: setupEmpty_def Let_def e)
  ultimately show ?thesis using True by auto
next
  case False
  have f: "list_all ov_fits ovs" using assms(2) by (auto simp: list_all_iff plain_ov_def)
  have h: "0 < ov_numb (hd ovs)" "ov_numb (last ovs) \<le> l"
    using assms(4) False by (auto simp: list_all_iff)
  from Cont_read_sorted [OF assms(1) False f h(1) assms(3) h(2)] obtain c' where
    c': "Cont_read spool n (Some (concat (map Ov_write ovs))) l c = Some c'" "cont_inv c'" "last_nr c' = l"
      "look c' = map_of (map (\<lambda>ov. (ov_numb ov, ov)) ovs)" by blast
  have "\<forall>k < length (elem c'). \<forall>ov. elem c' ! k = Some ov \<longrightarrow> ov_numb ov = vecFirst c' + int k"
    using c'(2) by (simp add: cont_inv_def)
  from somes_numbers [OF this, of 0] have "sorted_wrt (<) (map ov_numb (somes (elem c')))" by simp
  from sorted_numbers_same [OF this assms(3)] look_map_of [OF c'(2)] c'(4)
  have "somes (elem c') = ovs" by simp
  with c' False show ?thesis by auto
qed

lemma sp_Cont_read_group:
  assumes "env_ok E" "spool_inv E s" "group_name E n" "group_has E s n ovs l"
  shows "\<exists>s'. sp_Cont_read E n s = Some s' \<and> spool_inv E s' \<and> sp_file s' = sp_file s
    \<and> dbf (sp_grp s') = dbf (sp_grp s) \<and> sp_db s' = sp_db s \<and> cont_inv (sp_cont s')
    \<and> last_nr (sp_cont s') = l \<and> somes (elem (sp_cont s')) = ovs
    \<and> grp_name (sp_cont s') = n \<and> grp_file (sp_cont s') = ov_path E n"
proof -
  have n: "name_ok n" "length n < MAXCHAR" using assms(3) by (auto simp: group_name_def name_ok_def)
  from assms(4) obtain i where i: "info (gdbm_g E) (dbf (sp_grp s)) n = Some i" "sint (e_last (entry i)) = l"
    by (auto simp: group_has_def)
  from getter_refines [OF _ n(1), of "gdbm_g E" "sp_grp s" 0 "\<lambda>i. sint (e_last (entry i))"] assms(2) i
  obtain g where g: "Grp_last (gdbm_g E) n (sp_grp s) = Some (l, g)" "grp_inv (gdbm_g E) g" "dbf g = dbf (sp_grp s)"
    by (auto simp: Grp_last_def spool_inv_def)
  from Cont_read_group [OF n(2), of ovs l "spool_dir E" "sp_cont s"] assms(4) obtain c where
    c: "Cont_read (spool_dir E) n (sp_file s (ov_path E n)) l (sp_cont s) = Some c" "cont_inv c" "last_nr c = l"
      "somes (elem c) = ovs" by (auto simp: group_has_def)
  from Cont_read_names [OF c(1)] c g assms(2) show ?thesis
    by (auto simp: sp_Cont_read_def spool_inv_def ov_path_def)
qed

lemma somes_app: "somes (xs @ [Some ov]) = somes xs @ [ov]"
proof (induction xs)
  case (Cons e xs)
  then show ?case by (cases e) auto
qed simp

text \<open>Writing a list of plain overviews leaves exactly their lines.\<close>

lemma Cont_write_plain:
  assumes "cont_inv c" "list_all plain_ov (somes (elem c))" "somes (elem c) \<noteq> []"
  shows "\<exists>c'. Cont_write True (\<lambda>_. True) c old = (c', Some (concat (map Ov_write (somes (elem c)))))
    \<and> first c' = ov_numb (hd (somes (elem c))) \<and> last_nr c' = last_nr c
    \<and> grp_name c' = grp_name c \<and> grp_file c' = grp_file c"
proof -
  have vf: "0 < vecFirst c" using assms(1) by (simp add: cont_inv_def)
  obtain j where j: "first_some 0 (elem c) = Some j" using assms(3) somes_Nil by (metis not_None_eq)
  have "\<forall>k < length (elem c). \<forall>ov. elem c ! k = Some ov \<longrightarrow> ov_numb ov = vecFirst c + int k"
    using assms(1) by (simp add: cont_inv_def)
  from somes_numbers [OF this, of 0] j have hd: "ov_numb (hd (somes (elem c))) = vecFirst c + j" by simp
  have "write_loop (vecFirst c) (\<lambda>_. True) 0 (elem c) (-1, False) =
      (concat (map Ov_write (somes (elem c))), vecFirst c + j, True)"
    using write_loop_all [of "elem c" "vecFirst c" 0 "-1" False] assms(2,3) vf j
    by (auto simp: list_all_iff plain_ov_def)
  with hd show ?thesis by (simp add: Cont_write_def)
qed

text \<open>A group with one more article: the overview list that was read, with \<open>ov\<close> behind it, is written,
  and the group data base gets the new numbers.\<close>

lemma sp_append:
  assumes "env_ok E" "spool_inv E s" "group_name E n" "group_has E s n ovs l"
    "cont_inv c" "last_nr c = l" "somes (elem c) = ovs" "grp_name c = n" "grp_file c = ov_path E n"
    "plain_ov (Ov_setNumb ov (l + 1))" "l + 1 < INT_MAX"
  shows "\<exists>s'. sp_setFirstLast E (sp_Cont_write E (s\<lparr>sp_cont := Cont_app c (Some ov)\<rparr>)) = Some s'
    \<and> spool_inv E s' \<and> sp_db s' = sp_db s
    \<and> group_has E s' n (ovs @ [Ov_setNumb ov (l + 1)]) (l + 1)
    \<and> (\<forall>m os k. m \<noteq> n \<and> group_name E m \<and> group_has E s m os k \<longrightarrow> group_has E s' m os k)
    \<and> dom (info (gdbm_g E) (dbf (sp_grp s'))) = dom (info (gdbm_g E) (dbf (sp_grp s)))"
proof -
  let ?c = "Cont_app c (Some ov)" and ?ov = "Ov_setNumb ov (l + 1)"
  have vf: "vecFirst c + size_of c = l + 1" using assms(5,6) by (simp add: cont_inv_def)
  have so: "somes (elem ?c) = ovs @ [?ov]" using assms(7) by (simp add: somes_app vf)
  have g: "list_all plain_ov ovs" "sorted_wrt (<) (map ov_numb ovs)"
    "list_all (\<lambda>ov. 0 < ov_numb ov \<and> ov_numb ov \<le> l) ovs" "0 \<le> l" "l < INT_MAX"
    using assms(4) by (auto simp: group_has_def)
  obtain i where i: "info (gdbm_g E) (dbf (sp_grp s)) n = Some i" using assms(4) by (auto simp: group_has_def)
  have "cont_inv ?c" by (rule Cont_app_inv [OF assms(5)])
  from Cont_write_plain [OF this, of "sp_file s (ov_path E n)"] so g(1) assms(10) obtain c' where
    c': "Cont_write True (\<lambda>_. True) ?c (sp_file s (ov_path E n)) = (c', Some (concat (map Ov_write (ovs @ [?ov]))))"
      "last_nr c' = l + 1" "grp_name c' = n" "grp_file c' = ov_path E n"
    using vf assms(8,9) by auto
  have wr: "sp_Cont_write E (s\<lparr>sp_cont := ?c\<rparr>)
      = s\<lparr>sp_cont := c', sp_file := (sp_file s)(ov_path E n \<mapsto> concat (map Ov_write (ovs @ [?ov])))\<rparr>"
    using assms(1,9) c'(1) by (simp add: sp_Cont_write_def env_ok_def)
  have laws: "gdbm_laws (gdbm_g E)" "stores_succeed (gdbm_g E)" "grp_inv (gdbm_g E) (sp_grp s)" "name_ok n"
    using assms(1,2,3) by (auto simp: env_ok_def spool_inv_def group_name_def)
  let ?upd = "\<lambda>i. Some (i\<lparr>entry := (entry i)\<lparr>e_first := word_of_int (first c'), e_last := word_of_int (l + 1)\<rparr>\<rparr>)"
  obtain g' where g': "Grp_setFirstLast (first c') (l + 1) (gdbm_g E) n (sp_grp s) = Some g'"
    "grp_inv (gdbm_g E) g'"
    "info (gdbm_g E) (dbf g') = (info (gdbm_g E) (dbf (sp_grp s)))(n := info (gdbm_g E) (dbf (sp_grp s)) n \<bind> ?upd)"
    using setter_refines [OF laws, of ?upd] by (auto simp: Grp_setFirstLast_def ginfo_ok_def)
  let ?s = "s\<lparr>sp_cont := c', sp_file := (sp_file s)(ov_path E n \<mapsto> concat (map Ov_write (ovs @ [?ov]))), sp_grp := g'\<rparr>"
  have "sp_setFirstLast E (sp_Cont_write E (s\<lparr>sp_cont := ?c\<rparr>)) = Some ?s"
    unfolding wr sp_setFirstLast_def using c' g' by simp
  moreover have "spool_inv E ?s" using assms(2) g' by (simp add: spool_inv_def)
  moreover have "group_has E ?s n (ovs @ [?ov]) (l + 1)"
  proof -
    have "sint (word_of_int (l + 1) :: u32) = l + 1"
      by (rule sint_of_int_ok) (use g(4) assms(11) in \<open>simp add: int_ok_def\<close>)
    moreover have "sorted_wrt (<) (map ov_numb (ovs @ [?ov]))"
      using g(2,3) by (auto simp: sorted_wrt_append list_all_iff Ov_setNumb_def)
    ultimately show ?thesis using g assms(10,11) i g'(3)
      by (auto simp: group_has_def Ov_setNumb_def list_all_iff)
  qed
  moreover have "group_has E ?s m os k" if "m \<noteq> n" "group_name E m" "group_has E s m os k" for m os k
    using that ov_path_inject [OF that(2) assms(3)] g'(3) by (simp add: group_has_def)
  moreover have "dom (info (gdbm_g E) (dbf g')) = dom (info (gdbm_g E) (dbf (sp_grp s)))"
    using g'(3) i by auto
  ultimately show ?thesis by auto
qed

text \<open>What a group needs: a name, its overviews, and room for one more number.\<close>

definition postable :: "('g, 'd) env \<Rightarrow> ('g, 'd) spool \<Rightarrow> Over \<Rightarrow> (cstr \<Rightarrow> Over list) \<Rightarrow> (cstr \<Rightarrow> int) \<Rightarrow> cstr \<Rightarrow> bool" where
  "postable E s ov ovs l g \<longleftrightarrow> group_name E g \<and> group_has E s g (ovs g) (l g) \<and> l g + 1 < INT_MAX
     \<and> field_fits g \<and> plain_ov (Ov_setNumb ov (l g + 1))"

lemma plain_over_fits: "plain_ov (Ov_setNumb ov k) \<Longrightarrow> ov_msgId ov \<noteq> [] \<Longrightarrow> over_fits (Ov_setNumb ov k)"
  by (auto simp: plain_ov_def ov_fits_def ov_ok_def over_fits_def field_fits_def field_ok_def Ov_setNumb_def)

text \<open>The pattern of every posting: the group is read, \<open>ov\<close> is appended, the data base changes to any \<open>db\<close>
  with the invariant, and the group is written.\<close>

lemma sp_post:
  assumes "env_ok E" "spool_inv E s" "postable E s ov ovs l g"
  obtains s1 where "sp_Cont_read E g s = Some s1" "sp_db s1 = sp_db s" "grp_name (sp_cont s1) = g"
    "vecFirst (sp_cont s1) + size_of (sp_cont s1) = l g + 1"
    "\<And>db. db_inv (gdbm_d E) db \<Longrightarrow>
       \<exists>s'. sp_setFirstLast E (sp_Cont_write E (s1\<lparr>sp_cont := Cont_app (sp_cont s1) (Some ov), sp_db := db\<rparr>)) = Some s'
         \<and> spool_inv E s' \<and> sp_db s' = db \<and> group_has E s' g (ovs g @ [Ov_setNumb ov (l g + 1)]) (l g + 1)
         \<and> (\<forall>m os k. m \<noteq> g \<and> group_name E m \<and> group_has E s m os k \<longrightarrow> group_has E s' m os k)"
proof -
  have p: "group_name E g" "group_has E s g (ovs g) (l g)" "l g + 1 < INT_MAX" "field_fits g"
    "plain_ov (Ov_setNumb ov (l g + 1))" using assms(3) by (simp_all add: postable_def)
  from sp_Cont_read_group [OF assms(1,2) p(1,2)] obtain s1 where
    s1: "sp_Cont_read E g s = Some s1" "spool_inv E s1" "sp_file s1 = sp_file s"
      "dbf (sp_grp s1) = dbf (sp_grp s)" "sp_db s1 = sp_db s" "cont_inv (sp_cont s1)"
      "last_nr (sp_cont s1) = l g" "somes (elem (sp_cont s1)) = ovs g"
      "grp_name (sp_cont s1) = g" "grp_file (sp_cont s1) = ov_path E g" by blast
  have vf: "vecFirst (sp_cont s1) + size_of (sp_cont s1) = l g + 1" using s1(6,7) by (simp add: cont_inv_def)
  have gh: "group_has E (s1\<lparr>sp_db := db\<rparr>) n os k \<longleftrightarrow> group_has E s n os k" for n os k db
    using s1(3,4) by (simp add: group_has_def)
  have "\<exists>s'. sp_setFirstLast E (sp_Cont_write E (s1\<lparr>sp_cont := Cont_app (sp_cont s1) (Some ov), sp_db := db\<rparr>)) = Some s'
         \<and> spool_inv E s' \<and> sp_db s' = db \<and> group_has E s' g (ovs g @ [Ov_setNumb ov (l g + 1)]) (l g + 1)
         \<and> (\<forall>m os k. m \<noteq> g \<and> group_name E m \<and> group_has E s m os k \<longrightarrow> group_has E s' m os k)"
    if "db_inv (gdbm_d E) db" for db
  proof -
    have i: "spool_inv E (s1\<lparr>sp_db := db\<rparr>)" using s1(2) that by (simp add: spool_inv_def)
    have sw: "s1\<lparr>sp_cont := c, sp_db := db\<rparr> = s1\<lparr>sp_db := db\<rparr>\<lparr>sp_cont := c\<rparr>" for c by (cases s1) simp
    have "group_has E (s1\<lparr>sp_db := db\<rparr>) g (ovs g) (l g)" using gh p(2) by blast
    from sp_append [OF assms(1) i p(1) this s1(6-10) p(5,3)] gh show ?thesis
      unfolding sw by fastforce
  qed
  with that s1(1,5,9) vf show ?thesis by blast
qed

end
