(* ===== verification/Post.thy ===== *)
theory Post
  imports Spool
begin

text \<open>
  Posting to local groups, \<^verbatim>\<open>noffle-1.0.1/src/post.c\<close>: one article is opened, added to each of its
  groups and closed.  The first group gets the entry of the article in the data base, every further
  one an item of its Xref field.

  The static struct \<open>article\<close> is the record \<open>article\<close>.  \<open>None\<close> is an access outside an object: an
  article whose header does not end with an empty line, or that has nothing behind it, is read
  behind its end.
\<close>

record OverInfo =
  o_subject :: cstr
  o_from :: cstr
  o_date :: cstr
  o_msgId :: cstr
  o_ref :: cstr
  o_bytes :: u32
  o_lines :: u32

record article =
  p_text :: "cstr option"
  p_posted :: bool
  p_over :: OverInfo

definition no_info :: OverInfo where
  "no_info = \<lparr>o_subject = [], o_from = [], o_date = [], o_msgId = [], o_ref = [], o_bytes = 0, o_lines = 0\<rparr>"

definition article_init :: article where
  "article_init = \<lparr>p_text = None, p_posted = False, p_over = no_info\<rparr>"

text \<open>The header fields that are stashed.\<close>

definition stash :: "cstr \<Rightarrow> cstr \<Rightarrow> OverInfo \<Rightarrow> OverInfo option" where
  "stash field val ov =
     do { v \<leftarrow> Utl_cpyStr val;
          Some (if field = ''subject'' then ov\<lparr>o_subject := v\<rparr>
                else if field = ''from'' then ov\<lparr>o_from := v\<rparr>
                else if field = ''date'' then ov\<lparr>o_date := v\<rparr>
                else if field = ''references'' then ov\<lparr>o_ref := v\<rparr>
                else if field = ''message-id'' then ov\<lparr>o_msgId := v\<rparr>
                else ov) }"

text \<open>The loop over the header; a text that ends in it gives a null pointer, which is read.\<close>

function over_loop :: "cstr \<Rightarrow> cstr \<Rightarrow> OverInfo \<Rightarrow> (OverInfo \<times> cstr) option" where
  "over_loop pre p ov =
     (case Utl_getHeaderLn p of
        None \<Rightarrow> None
      | Some (line, None) \<Rightarrow> None
      | Some (line, Some p') \<Rightarrow>
          if line = [] then Some (ov, p')
          else do { (b, field, val) \<leftarrow> Prt_getField pre line;
                    ov' \<leftarrow> (if b then stash field (case val of Some v \<Rightarrow> v | None \<Rightarrow> []) ov else Some ov);
                    over_loop pre p' ov' })"
  by pat_completeness auto

termination by (relation "measure (\<lambda>(pre, p, ov). length p)") (auto dest: getHeaderLn_shorter)

declare over_loop.simps [simp del]

text \<open>The last loop starts one character behind the empty line.\<close>

definition getOverInfo :: "cstr \<Rightarrow> cstr \<Rightarrow> OverInfo \<Rightarrow> OverInfo option" where
  "getOverInfo pre p ov =
     do { (ov', q) \<leftarrow> over_loop pre p (ov\<lparr>o_bytes := word_of_nat (length p)\<rparr>);
          case q of
            [] \<Rightarrow> None
          | _ # body \<Rightarrow> Some (ov'\<lparr>o_lines := word_of_nat (length (filter (\<lambda>c. c = LF) body))\<rparr>) }"

definition Post_close :: "article \<Rightarrow> article" where
  "Post_close a = a\<lparr>p_text := None, p_posted := False\<rparr>"

definition Post_open :: "cstr \<Rightarrow> 'd gdbm \<Rightarrow> cstr \<Rightarrow> 'd database \<Rightarrow> article \<Rightarrow> (bool \<times> article) option" where
  "Post_open pre lib tx db a =
     (if p_text a \<noteq> None then Some (False, a)
      else do { ov \<leftarrow> getOverInfo pre tx no_info;
                let a1 = a\<lparr>p_text := Some tx, p_over := ov\<rparr>;
                Some (if Db_contains lib (o_msgId ov) db then (False, Post_close a1) else (True, a1)) })"

definition info_over :: "OverInfo \<Rightarrow> Over" where
  "info_over i = new_Over (o_subject i) (o_from i) (o_date i) (o_msgId i) (o_ref i) (o_bytes i) (o_lines i)"

text \<open>\<open>over\<close> gets its number in \<open>Cont_app\<close>, which keeps the pointer.\<close>

definition Post_add :: "('g, 'd) env \<Rightarrow> cstr \<Rightarrow> article \<times> ('g, 'd) spool \<Rightarrow> (bool \<times> article \<times> ('g, 'd) spool) option" where
  "Post_add E grp = (\<lambda>(a, s).
     let over0 = info_over (p_over a); msgId = o_msgId (p_over a) in
     do { s1 \<leftarrow> sp_Cont_read E grp s;
          let over = Ov_setNumb over0 (vecFirst (sp_cont s1) + size_of (sp_cont s1));
          let s2 = s1\<lparr>sp_cont := Cont_app (sp_cont s1) (Some over0)\<rparr>;
          (ok, a', db) \<leftarrow>
            (if \<not> p_posted a then
               do { (b, db1) \<leftarrow> Db_prepareEntry over (grp_name (sp_cont s2)) (last_nr (sp_cont s2)) (clock E)
                                (gdbm_d E) (sp_db s2);
                    if \<not> b then Some (False, a, db1)
                    else do { tx \<leftarrow> p_text a;
                              (b2, db2) \<leftarrow> Db_storeArt (before E) (clock E) (gdbm_d E) msgId tx db1;
                              if \<not> b2 then Some (False, a, db2) else Some (True, a\<lparr>p_posted := True\<rparr>, db2) } }
             else
               do { (xref, db1) \<leftarrow> Db_xref (gdbm_d E) msgId (sp_db s2);
                    let t = take (MAXCHAR - 1) (xref @ '' '' @ grp @ '':'' @ dec_int (ov_numb over));
                    db2 \<leftarrow> Db_setXref t (gdbm_d E) msgId db1;
                    Some (True, a, db2) });
          if ok
          then do { s4 \<leftarrow> sp_setFirstLast E (sp_Cont_write E (s2\<lparr>sp_db := db\<rparr>)); Some (True, a', s4) }
          else Some (False, a', s2\<lparr>sp_db := db\<rparr>) })"

subsection \<open>What an article says about itself\<close>

definition stashed :: "OverInfo \<Rightarrow> cstr \<times> cstr \<Rightarrow> OverInfo" where
  "stashed ov nv = the (stash (Utl_toLower (fst nv)) (strip (snd nv)) ov)"

definition over_info :: "(cstr \<times> cstr) list \<Rightarrow> cstr list \<Rightarrow> OverInfo" where
  "over_info hs ls =
     (foldl stashed (no_info\<lparr>o_bytes := word_of_nat (length (text_of (map hdr_line hs) @ LF # text_of ls))\<rparr>) hs)
       \<lparr>o_lines := word_of_nat (length (filter (\<lambda>c. c = LF) (tl (text_of ls))))\<rparr>"

lemma strip_short: "hdr_ok nv \<Longrightarrow> length (strip (snd nv)) < MAXCHAR"
proof -
  assume "hdr_ok nv"
  then have "length (snd nv) < MAXCHAR" by (auto simp: hdr_ok_def hdr_line_def)
  moreover have "length (strip (snd nv)) \<le> length (snd nv)"
    by (metis strip_def length_dropWhile_le length_rev order_trans)
  ultimately show ?thesis by simp
qed

lemma over_loop_lines:
  "list_all hdr_ok hs \<Longrightarrow> over_loop pre (text_of (map hdr_line hs) @ LF # s) ov = Some (foldl stashed ov hs, s)"
proof (induction hs arbitrary: ov)
  case Nil
  then show ?case by (subst over_loop.simps) (simp add: Utl_getHeaderLn_def)
next
  case (Cons nv hs)
  then have ok: "hdr_ok nv" "list_all hdr_ok hs" by simp_all
  have ne: "hdr_line nv \<noteq> []" by (simp add: hdr_line_def)
  have g: "Utl_getHeaderLn (hdr_line nv @ LF # text_of (map hdr_line hs) @ LF # s)
      = Some (hdr_line nv, Some (text_of (map hdr_line hs) @ LF # s))"
    by (rule getHeaderLn_hdr [OF ok(1) header_end_lines [OF ok(2)]])
  have "stash (Utl_toLower (fst nv)) (strip (snd nv)) ov = Some (stashed ov nv)"
    using strip_short [OF ok(1)] by (simp add: stashed_def stash_def Utl_cpyStr_eq)
  with ne g getField_line [OF ok(1), of pre] Cons.IH [OF ok(2)] show ?case
    by (subst over_loop.simps) simp
qed

lemma getOverInfo_lines:
  "list_all hdr_ok hs \<Longrightarrow> ls \<noteq> [] \<Longrightarrow>
     getOverInfo pre (text_of (map hdr_line hs) @ LF # text_of ls) no_info = Some (over_info hs ls)"
proof -
  assume h: "list_all hdr_ok hs" and l: "ls \<noteq> []"
  have "text_of ls \<noteq> []" using l by (cases ls) auto
  then obtain c r where "text_of ls = c # r" by (cases "text_of ls") auto
  with h show ?thesis by (simp add: getOverInfo_def over_loop_lines over_info_def Let_def)
qed

subsection \<open>Adding to groups\<close>

definition xref_item :: "(cstr \<Rightarrow> int) \<Rightarrow> cstr \<Rightarrow> cstr" where
  "xref_item l g = g @ '':'' @ dec_int (l g + 1)"

lemma field_fits_dec: "0 \<le> l \<Longrightarrow> l + 1 < INT_MAX \<Longrightarrow> LF \<notin> set (dec_int (l + 1)) \<and> proper (dec_int (l + 1))"
  using field_ok_dec_int [of "l + 1"] by (auto simp: int_ok_def field_ok_def)

text \<open>The first group: the data base gets the entry and the text.\<close>

lemma Post_add_first:
  assumes "env_ok E" "spool_inv E s" "postable E s (info_over (p_over a)) ovs l g"
    "\<not> p_posted a" "p_text a = Some (text_of (map hdr_line hs) @ LF # text_of ls)"
    "list_all hdr_ok hs" "list_all field_fits ls" "o_msgId (p_over a) \<noteq> []"
  defines "ov \<equiv> Ov_setNumb (info_over (p_over a)) (l g + 1)"
  shows "\<exists>s'. Post_add E g (a, s) = Some (True, a\<lparr>p_posted := True\<rparr>, s') \<and> spool_inv E s'
    \<and> group_has E s' g (ovs g @ [ov]) (l g + 1)
    \<and> (\<forall>m os k. m \<noteq> g \<and> group_name E m \<and> group_has E s m os k \<longrightarrow> group_has E s' m os k)
    \<and> arts (gdbm_d E) (db_dbf (sp_db s')) = (arts (gdbm_d E) (db_dbf (sp_db s)))
        (ov_msgId ov \<mapsto> stored (clock E) hs ls (prepared ov g (l g + 1) (clock E)))"
proof -
  have p: "group_has E s g (ovs g) (l g)" "l g + 1 < INT_MAX" "field_fits g"
    "plain_ov (Ov_setNumb (info_over (p_over a)) (l g + 1))" using assms(3) by (simp_all add: postable_def)
  obtain s1 where
    s1: "sp_Cont_read E g s = Some s1" "sp_db s1 = sp_db s" "grp_name (sp_cont s1) = g"
      "vecFirst (sp_cont s1) + size_of (sp_cont s1) = l g + 1" and
    fin: "\<And>db. db_inv (gdbm_d E) db \<Longrightarrow>
       \<exists>s'. sp_setFirstLast E (sp_Cont_write E (s1\<lparr>sp_cont := Cont_app (sp_cont s1) (Some (info_over (p_over a))),
           sp_db := db\<rparr>)) = Some s'
         \<and> spool_inv E s' \<and> sp_db s' = db \<and> group_has E s' g (ovs g @ [ov]) (l g + 1)
         \<and> (\<forall>m os k. m \<noteq> g \<and> group_name E m \<and> group_has E s m os k \<longrightarrow> group_has E s' m os k)"
    using sp_post [OF assms(1-3)] unfolding ov_def by blast
  have laws: "gdbm_laws (gdbm_d E)" "stores_succeed (gdbm_d E)" "db_inv (gdbm_d E) (sp_db s)"
    using assms(1,2) by (simp_all add: env_ok_def spool_inv_def)
  have m: "ov_msgId ov = o_msgId (p_over a)" by (simp add: ov_def info_over_def new_Over_def Ov_setNumb_def)
  have fits: "over_fits ov"
    using plain_over_fits [OF p(4)] assms(8) by (simp add: ov_def info_over_def new_Over_def)
  have g: "LF \<notin> set g" "proper g" using p(3) by (simp_all add: field_fits_def)
  obtain db1 db2 where
    db1: "Db_prepareEntry ov g (l g + 1) (clock E) (gdbm_d E) (sp_db s) = Some (True, db1)" and
    db2: "Db_storeArt (before E) (clock E) (gdbm_d E) (ov_msgId ov) (text_of (map hdr_line hs) @ LF # text_of ls) db1
        = Some (True, db2)" "db_inv (gdbm_d E) db2"
      "arts (gdbm_d E) (db_dbf db2) = (arts (gdbm_d E) (db_dbf (sp_db s)))
         (ov_msgId ov \<mapsto> stored (clock E) hs ls (prepared ov g (l g + 1) (clock E)))"
    using prepare_store [OF laws fits g assms(6,7)] by blast
  from fin [OF db2(2)] obtain s' where
    s': "sp_setFirstLast E (sp_Cont_write E (s1\<lparr>sp_cont := Cont_app (sp_cont s1) (Some (info_over (p_over a))),
           sp_db := db2\<rparr>)) = Some s'"
      "spool_inv E s'" "sp_db s' = db2" "group_has E s' g (ovs g @ [ov]) (l g + 1)"
      "\<forall>m os k. m \<noteq> g \<and> group_name E m \<and> group_has E s m os k \<longrightarrow> group_has E s' m os k" by blast
  have "Post_add E g (a, s) = Some (True, a\<lparr>p_posted := True\<rparr>, s')"
    using s1 db1 db2(1) s'(1) assms(4,5) m
    by (simp add: Post_add_def Let_def ov_def)
  with s' db2(3) show ?thesis by (intro exI [of _ s']) simp
qed

text \<open>A further group: the Xref field gets one more item.\<close>

lemma Post_add_more:
  assumes "env_ok E" "spool_inv E s" "postable E s (info_over (p_over a)) ovs l g"
    "p_posted a" "o_msgId (p_over a) \<noteq> []" "length (o_msgId (p_over a)) < MAXCHAR"
    "arts (gdbm_d E) (db_dbf (sp_db s)) (o_msgId (p_over a)) = Some r"
    "field_fits (a_xref r)" "length (a_xref r @ '' '' @ xref_item l g) < MAXCHAR"
  defines "ov \<equiv> Ov_setNumb (info_over (p_over a)) (l g + 1)" and "x \<equiv> a_xref r @ '' '' @ xref_item l g"
  shows "\<exists>s'. Post_add E g (a, s) = Some (True, a, s') \<and> spool_inv E s'
    \<and> group_has E s' g (ovs g @ [ov]) (l g + 1)
    \<and> (\<forall>m os k. m \<noteq> g \<and> group_name E m \<and> group_has E s m os k \<longrightarrow> group_has E s' m os k)
    \<and> arts (gdbm_d E) (db_dbf (sp_db s')) = (arts (gdbm_d E) (db_dbf (sp_db s)))
        (o_msgId (p_over a) \<mapsto> r\<lparr>a_xref := x\<rparr>)
    \<and> field_fits x"
proof -
  have p: "group_has E s g (ovs g) (l g)" "l g + 1 < INT_MAX" "field_fits g"
    "plain_ov (Ov_setNumb (info_over (p_over a)) (l g + 1))" using assms(3) by (simp_all add: postable_def)
  obtain s1 where
    s1: "sp_Cont_read E g s = Some s1" "sp_db s1 = sp_db s" "grp_name (sp_cont s1) = g"
      "vecFirst (sp_cont s1) + size_of (sp_cont s1) = l g + 1" and
    fin: "\<And>db. db_inv (gdbm_d E) db \<Longrightarrow>
       \<exists>s'. sp_setFirstLast E (sp_Cont_write E (s1\<lparr>sp_cont := Cont_app (sp_cont s1) (Some (info_over (p_over a))),
           sp_db := db\<rparr>)) = Some s'
         \<and> spool_inv E s' \<and> sp_db s' = db \<and> group_has E s' g (ovs g @ [ov]) (l g + 1)
         \<and> (\<forall>m os k. m \<noteq> g \<and> group_name E m \<and> group_has E s m os k \<longrightarrow> group_has E s' m os k)"
    using sp_post [OF assms(1-3)] unfolding ov_def by blast
  have laws: "gdbm_laws (gdbm_d E)" "stores_succeed (gdbm_d E)" "db_inv (gdbm_d E) (sp_db s)"
    using assms(1,2) by (simp_all add: env_ok_def spool_inv_def)
  have l0: "0 \<le> l g" using p(1) by (simp add: group_has_def)
  have x: "field_fits x"
    using assms(8,9) p(3) field_fits_dec [OF l0 p(2)] by (simp add: x_def field_fits_def xref_item_def)
  from art_getter_refines [OF laws(3) assms(5,6), of "[]" a_xref] assms(7) obtain db1 where
    db1: "Db_xref (gdbm_d E) (o_msgId (p_over a)) (sp_db s) = Some (a_xref r, db1)" "db_inv (gdbm_d E) db1"
      "db_dbf db1 = db_dbf (sp_db s)" by (auto simp: Db_xref_def)
  have f: "\<And>b. art_ok b \<Longrightarrow> (do { y \<leftarrow> Utl_cpyStr x; Some (b\<lparr>a_xref := y\<rparr>) }) = Some (b\<lparr>a_xref := x\<rparr>)
      \<and> art_ok (b\<lparr>a_xref := x\<rparr>)"
    using x by (simp add: Utl_cpyStr_eq field_fits_def art_ok_def)
  from art_setter_refines [where h = "\<lambda>b. b\<lparr>a_xref := x\<rparr>", OF laws(1,2) assms(5,6) db1(2) f] assms(7) db1(3) obtain db2 where
    db2: "Db_setXref x (gdbm_d E) (o_msgId (p_over a)) db1 = Some db2" "db_inv (gdbm_d E) db2"
      "arts (gdbm_d E) (db_dbf db2) = (arts (gdbm_d E) (db_dbf (sp_db s)))(o_msgId (p_over a) \<mapsto> r\<lparr>a_xref := x\<rparr>)"
    by (auto simp: Db_setXref_def)
  from fin [OF db2(2)] obtain s' where
    s': "sp_setFirstLast E (sp_Cont_write E (s1\<lparr>sp_cont := Cont_app (sp_cont s1) (Some (info_over (p_over a))),
           sp_db := db2\<rparr>)) = Some s'"
      "spool_inv E s'" "sp_db s' = db2" "group_has E s' g (ovs g @ [ov]) (l g + 1)"
      "\<forall>m os k. m \<noteq> g \<and> group_name E m \<and> group_has E s m os k \<longrightarrow> group_has E s' m os k" by blast
  have t: "take (MAXCHAR - 1) (a_xref r @ '' '' @ g @ '':'' @ dec_int (l g + 1)) = x"
  proof -
    have "a_xref r @ '' '' @ g @ '':'' @ dec_int (l g + 1) = x" by (simp add: x_def xref_item_def)
    moreover have "length x \<le> MAXCHAR - 1" using assms(9) unfolding x_def by linarith
    ultimately show ?thesis by simp
  qed
  have "Post_add E g (a, s) = Some (True, a, s')"
    using s1 db1(1) db2(1) s'(1) assms(4) t
    by (simp add: Post_add_def Let_def Ov_setNumb_def)
  with s' db2(3) x show ?thesis by (intro exI [of _ s']) simp
qed

text \<open>All groups of an article, as long as it works.\<close>

fun post_groups :: "('g, 'd) env \<Rightarrow> cstr list \<Rightarrow> article \<times> ('g, 'd) spool \<Rightarrow> (bool \<times> article \<times> ('g, 'd) spool) option" where
  "post_groups E [] st = Some (True, st)"
| "post_groups E (g # gs) st = do { (b, st') \<leftarrow> Post_add E g st; if b then post_groups E gs st' else Some (False, st') }"

definition xref_more :: "(cstr \<Rightarrow> int) \<Rightarrow> cstr \<Rightarrow> cstr list \<Rightarrow> cstr" where
  "xref_more l x gs = foldl (\<lambda>x g. x @ '' '' @ xref_item l g) x gs"

lemma xref_more_simps [simp]:
  "xref_more l x [] = x" "xref_more l x (g # gs) = xref_more l (x @ '' '' @ xref_item l g) gs"
  by (simp_all add: xref_more_def)

lemma xref_more_longer: "length x \<le> length (xref_more l x gs)"
proof (induction gs arbitrary: x)
  case (Cons g gs)
  from Cons [of "x @ '' '' @ xref_item l g"] show ?case by simp
qed simp

lemma post_groups_more:
  "spool_inv E s \<Longrightarrow> distinct gs \<Longrightarrow> \<forall>h \<in> set gs. postable E s (info_over (p_over a)) ovs l h \<Longrightarrow>
     arts (gdbm_d E) (db_dbf (sp_db s)) (o_msgId (p_over a)) = Some r \<Longrightarrow> field_fits (a_xref r) \<Longrightarrow>
     length (xref_more l (a_xref r) gs) < MAXCHAR \<Longrightarrow>
     env_ok E \<Longrightarrow> p_posted a \<Longrightarrow> o_msgId (p_over a) \<noteq> [] \<Longrightarrow> length (o_msgId (p_over a)) < MAXCHAR \<Longrightarrow>
     \<exists>s'. post_groups E gs (a, s) = Some (True, a, s') \<and> spool_inv E s'
       \<and> (\<forall>h \<in> set gs. group_has E s' h (ovs h @ [Ov_setNumb (info_over (p_over a)) (l h + 1)]) (l h + 1))
       \<and> (\<forall>m os k. m \<notin> set gs \<and> group_name E m \<and> group_has E s m os k \<longrightarrow> group_has E s' m os k)
       \<and> arts (gdbm_d E) (db_dbf (sp_db s')) = (arts (gdbm_d E) (db_dbf (sp_db s)))
           (o_msgId (p_over a) \<mapsto> r\<lparr>a_xref := xref_more l (a_xref r) gs\<rparr>)"
proof (induction gs arbitrary: s r)
  case Nil
  then show ?case by (auto simp: fun_eq_iff)
next
  case (Cons g gs)
  let ?x = "a_xref r @ '' '' @ xref_item l g"
  have len: "length ?x < MAXCHAR"
    using Cons.prems(6) xref_more_longer [of ?x l gs] by simp
  from Cons.prems(3) have pg: "postable E s (info_over (p_over a)) ovs l g" by simp
  from Post_add_more [OF Cons.prems(7,1) pg Cons.prems(8,9,10,4,5) len] obtain s1 where
    s1: "Post_add E g (a, s) = Some (True, a, s1)" "spool_inv E s1"
      "group_has E s1 g (ovs g @ [Ov_setNumb (info_over (p_over a)) (l g + 1)]) (l g + 1)"
      "\<And>m os k. m \<noteq> g \<Longrightarrow> group_name E m \<Longrightarrow> group_has E s m os k \<Longrightarrow> group_has E s1 m os k"
      "arts (gdbm_d E) (db_dbf (sp_db s1)) = (arts (gdbm_d E) (db_dbf (sp_db s)))(o_msgId (p_over a) \<mapsto> r\<lparr>a_xref := ?x\<rparr>)"
      "field_fits ?x" by blast
  have "\<forall>h \<in> set gs. postable E s1 (info_over (p_over a)) ovs l h"
  proof
    fix h assume "h \<in> set gs"
    with Cons.prems(2,3) have "h \<noteq> g" "postable E s (info_over (p_over a)) ovs l h" by auto
    with s1(4) [of h "ovs h" "l h"] show "postable E s1 (info_over (p_over a)) ovs l h" by (simp add: postable_def)
  qed
  note post = this
  let ?r1 = "r\<lparr>a_xref := ?x\<rparr>"
  have d: "distinct gs" using Cons.prems(2) by simp
  have r1: "arts (gdbm_d E) (db_dbf (sp_db s1)) (o_msgId (p_over a)) = Some ?r1"
    "field_fits (a_xref ?r1)" "length (xref_more l (a_xref ?r1) gs) < MAXCHAR"
    using s1(5,6) Cons.prems(6) by simp_all
  from Cons.IH [OF s1(2) d post r1 Cons.prems(7-10)] obtain s' where
    s': "post_groups E gs (a, s1) = Some (True, a, s')" "spool_inv E s'"
      "\<forall>h \<in> set gs. group_has E s' h (ovs h @ [Ov_setNumb (info_over (p_over a)) (l h + 1)]) (l h + 1)"
      "\<And>m os k. m \<notin> set gs \<Longrightarrow> group_name E m \<Longrightarrow> group_has E s1 m os k \<Longrightarrow> group_has E s' m os k"
      "arts (gdbm_d E) (db_dbf (sp_db s')) = (arts (gdbm_d E) (db_dbf (sp_db s1)))
           (o_msgId (p_over a) \<mapsto> ?r1\<lparr>a_xref := xref_more l (a_xref ?r1) gs\<rparr>)"
    by blast
  have gn: "group_name E g" using pg by (simp add: postable_def)
  have "g \<notin> set gs" using Cons.prems(2) by simp
  from s'(4) [OF this gn s1(3)] s'(3) have
    all: "\<forall>h \<in> set (g # gs). group_has E s' h (ovs h @ [Ov_setNumb (info_over (p_over a)) (l h + 1)]) (l h + 1)" by simp
  have frame: "\<forall>m os k. m \<notin> set (g # gs) \<and> group_name E m \<and> group_has E s m os k \<longrightarrow> group_has E s' m os k"
    using s'(4) s1(4) by simp
  have up: "arts (gdbm_d E) (db_dbf (sp_db s')) = (arts (gdbm_d E) (db_dbf (sp_db s)))
           (o_msgId (p_over a) \<mapsto> r\<lparr>a_xref := xref_more l (a_xref r) (g # gs)\<rparr>)"
    unfolding s'(5) s1(5) by simp
  have run: "post_groups E (g # gs) (a, s) = Some (True, a, s')" using s1(1) s'(1) by simp
  show ?case using run s'(2) all frame up by blast
qed

text \<open>C8. An article that is posted to several local groups gets the next number in each of them: its
  overview is appended to the overview file of every group and to no other, the group data base
  has the new last number, and the data base has one entry for the article, with its header and
  body and with an Xref field that lists every group with its number.\<close>

theorem Post_crossposts:
  fixes hs ls
  defines "i \<equiv> over_info hs ls" and "tx \<equiv> text_of (map hdr_line hs) @ LF # text_of ls"
  assumes "env_ok E" "spool_inv E s" "distinct (g # gs)" "\<forall>h \<in> set (g # gs). postable E s (info_over i) ovs l h"
    "list_all hdr_ok hs" "ls \<noteq> []" "list_all field_fits ls" "o_msgId i \<noteq> []"
    "arts (gdbm_d E) (db_dbf (sp_db s)) (o_msgId i) = None"
    "length (xref_more l (xref_item l g) gs) < MAXCHAR"
  shows "\<exists>a a' s'. Post_open (before E) (gdbm_d E) tx (sp_db s) article_init = Some (True, a)
    \<and> post_groups E (g # gs) (a, s) = Some (True, a', s') \<and> spool_inv E s'
    \<and> (\<forall>h \<in> set (g # gs). group_has E s' h (ovs h @ [Ov_setNumb (info_over i) (l h + 1)]) (l h + 1))
    \<and> (\<forall>m os k. m \<notin> set (g # gs) \<and> group_name E m \<and> group_has E s m os k \<longrightarrow> group_has E s' m os k)
    \<and> arts (gdbm_d E) (db_dbf (sp_db s')) = (arts (gdbm_d E) (db_dbf (sp_db s)))
        (o_msgId i \<mapsto> (stored (clock E) hs ls (prepared (info_over i) g (l g + 1) (clock E)))
           \<lparr>a_xref := xref_more l (xref_item l g) gs\<rparr>)"
proof -
  let ?a = "\<lparr>p_text = Some tx, p_posted = False, p_over = i\<rparr>" and ?ov = "Ov_setNumb (info_over i) (l g + 1)"
  let ?r = "stored (clock E) hs ls (prepared ?ov g (l g + 1) (clock E))"
  have m: "ov_msgId ?ov = o_msgId i" by (simp add: info_over_def new_Over_def Ov_setNumb_def)
  have pg: "postable E s (info_over i) ovs l g" using assms(6) by simp
  have "over_fits ?ov" using plain_over_fits [of "info_over i" "l g + 1"] pg assms(10)
    by (simp add: postable_def info_over_def new_Over_def)
  then have ml: "length (o_msgId i) < MAXCHAR" using m by (auto simp: over_fits_def field_fits_def)
  have "\<not> Db_contains (gdbm_d E) (o_msgId i) (sp_db s)"
    using Db_contains_refines [of "gdbm_d E" "sp_db s" "o_msgId i"] assms(3,4,10,11)
    by (simp add: env_ok_def spool_inv_def)
  then have open1: "Post_open (before E) (gdbm_d E) tx (sp_db s) article_init = Some (True, ?a)"
    using getOverInfo_lines [OF assms(7,8), of "before E"]
    by (simp add: Post_open_def article_init_def tx_def i_def)
  have a: "\<not> p_posted ?a" "p_text ?a = Some (text_of (map hdr_line hs) @ LF # text_of ls)" "o_msgId (p_over ?a) \<noteq> []"
    "postable E s (info_over (p_over ?a)) ovs l g"
    using assms(10) pg by (simp_all add: tx_def)
  from Post_add_first [OF assms(3,4) a(4,1,2) assms(7,9) a(3)] obtain s1 where
    s1: "Post_add E g (?a, s) = Some (True, ?a\<lparr>p_posted := True\<rparr>, s1)" "spool_inv E s1"
      "group_has E s1 g (ovs g @ [?ov]) (l g + 1)"
      "\<And>m os k. m \<noteq> g \<Longrightarrow> group_name E m \<Longrightarrow> group_has E s m os k \<Longrightarrow> group_has E s1 m os k"
      "arts (gdbm_d E) (db_dbf (sp_db s1)) = (arts (gdbm_d E) (db_dbf (sp_db s)))(o_msgId i \<mapsto> ?r)"
    using m by auto
  let ?b = "?a\<lparr>p_posted := True\<rparr>"
  have post: "\<forall>h \<in> set gs. postable E s1 (info_over (p_over ?b)) ovs l h"
  proof
    fix h assume "h \<in> set gs"
    with assms(5,6) have "h \<noteq> g" "postable E s (info_over i) ovs l h" by auto
    with s1(4) [of h "ovs h" "l h"] show "postable E s1 (info_over (p_over ?b)) ovs l h" by (simp add: postable_def)
  qed
  have l0: "0 \<le> l g" "l g + 1 < INT_MAX" "field_fits g" using pg by (simp_all add: postable_def group_has_def)
  have xl: "length (xref_item l g) < MAXCHAR" using assms(12) xref_more_longer [of "xref_item l g" l gs] by linarith
  have x: "a_xref ?r = xref_item l g"
  proof -
    have "length (xref_item l g) \<le> MAXCHAR - 1" using xl by linarith
    then show ?thesis by (simp add: stored_def Let_def prepared_def xref_item_def)
  qed
  have xf: "field_fits (xref_item l g)"
    using l0(3) field_fits_dec [OF l0(1,2)] xl by (simp add: xref_item_def field_fits_def)
  have d: "distinct gs" "g \<notin> set gs" using assms(5) by simp_all
  have r: "arts (gdbm_d E) (db_dbf (sp_db s1)) (o_msgId (p_over ?b)) = Some ?r" using s1(5) by simp
  from post_groups_more [OF s1(2) d(1) post r] x xf assms(3,10,12) ml obtain s' where
    s': "post_groups E gs (?b, s1) = Some (True, ?b, s')" "spool_inv E s'"
      "\<forall>h \<in> set gs. group_has E s' h (ovs h @ [Ov_setNumb (info_over i) (l h + 1)]) (l h + 1)"
      "\<And>m os k. m \<notin> set gs \<Longrightarrow> group_name E m \<Longrightarrow> group_has E s1 m os k \<Longrightarrow> group_has E s' m os k"
      "arts (gdbm_d E) (db_dbf (sp_db s')) = (arts (gdbm_d E) (db_dbf (sp_db s1)))
           (o_msgId i \<mapsto> ?r\<lparr>a_xref := xref_more l (xref_item l g) gs\<rparr>)"
    by auto
  have gn: "group_name E g" using pg by (simp add: postable_def)
  from s'(4) [OF d(2) gn s1(3)] s'(3) have
    all: "\<forall>h \<in> set (g # gs). group_has E s' h (ovs h @ [Ov_setNumb (info_over i) (l h + 1)]) (l h + 1)" by simp
  have frame: "\<forall>m os k. m \<notin> set (g # gs) \<and> group_name E m \<and> group_has E s m os k \<longrightarrow> group_has E s' m os k"
    using s'(4) s1(4) by simp
  have "prepared ?ov = prepared (info_over i)" by (intro ext) (simp add: prepared_def Ov_setNumb_def)
  then have up: "arts (gdbm_d E) (db_dbf (sp_db s')) = (arts (gdbm_d E) (db_dbf (sp_db s)))
        (o_msgId i \<mapsto> (stored (clock E) hs ls (prepared (info_over i) g (l g + 1) (clock E)))
           \<lparr>a_xref := xref_more l (xref_item l g) gs\<rparr>)"
    unfolding s'(5) s1(5) by simp
  have run: "post_groups E (g # gs) (?a, s) = Some (True, ?b, s')" using s1(1) s'(1) by simp
  show ?thesis using open1 run s'(2) all frame up by blast
qed

definition post_env :: "(cstr \<Rightarrow> byte list option, cstr \<Rightarrow> byte list option) env" where
  "post_env = \<lparr>gdbm_g = mem_gdbm, gdbm_d = mem_gdbm, spool_dir = ''/var'', can_write = (\<lambda>_. True),
     line_ok = (\<lambda>_. True), clock = 7, before = ''x''\<rparr>"

definition post_ginfo :: ginfo where
  "post_ginfo = \<lparr>entry = \<lparr>e_first = 1, e_last = 0, e_rmtNext = 0, e_created = 0, e_lastAccess = 0\<rparr>,
     serv = GRP_LOCAL_SERVER_NAME, dsc = [], postAllow = CHR ''y''\<rparr>"

definition post_spool :: "(cstr \<Rightarrow> byte list option, cstr \<Rightarrow> byte list option) spool" where
  "post_spool = \<lparr>sp_cont = cont_init, sp_grp = grp_init ((\<lambda>_. None)(key_of ''ab'' \<mapsto> record_image post_ginfo,
       key_of ''cd'' \<mapsto> record_image post_ginfo)),
     sp_db = db_init (\<lambda>_. None), sp_file = (\<lambda>_. None)\<rparr>"

definition post_hs :: "(cstr \<times> cstr) list" where
  "post_hs = [(''From'', '' a''), (''Message-ID'', '' <m@x>'')]"

lemma post_ginfo_ok: "ginfo_ok post_ginfo"
  by (simp add: ginfo_ok_def post_ginfo_def GRP_LOCAL_SERVER_NAME_def MAXCHAR_def)

lemma post_spool_inv: "env_ok post_env" "spool_inv post_env post_spool"
  using mem_gdbm_laws db_init_inv parse_record_image [OF post_ginfo_ok]
  by (auto simp: env_ok_def post_env_def spool_inv_def post_spool_def grp_inv_def grp_init_def mem_gdbm_def
      name_ok_def MAXCHAR_def)

lemma post_over:
  "info_over (over_info post_hs [''t'']) = \<lparr>ov_numb = 0, ov_subj = [], ov_from = ''a'', ov_date = [], ov_msgId = ''<m@x>'',
     ov_ref = [], ov_bytes = 29, ov_lines = 1\<rparr>"
  "o_msgId (over_info post_hs [''t'']) = ''<m@x>''"
proof -
  have l: "Utl_toLower ''From'' = ''from''" "Utl_toLower ''Message-ID'' = ''message-id''" by code_simp+
  show "info_over (over_info post_hs [''t'']) = \<lparr>ov_numb = 0, ov_subj = [], ov_from = ''a'', ov_date = [],
     ov_msgId = ''<m@x>'', ov_ref = [], ov_bytes = 29, ov_lines = 1\<rparr>"
    "o_msgId (over_info post_hs [''t'']) = ''<m@x>''"
    by (simp_all add: over_info_def post_hs_def info_over_def new_Over_def stashed_def stash_def Utl_cpyStr_eq MAXCHAR_def
        no_info_def l strip_def cisspace_def hdr_line_def)
qed

lemma post_plain: "plain_ov (Ov_setNumb (info_over (over_info post_hs [''t''])) 1)"
  unfolding post_over Ov_setNumb_def by code_simp

lemma post_postable: "h \<in> {''ab'', ''cd''} \<Longrightarrow>
    postable post_env post_spool (info_over (over_info post_hs [''t''])) (\<lambda>_. []) (\<lambda>_. 0) h"
  using post_plain parse_record_image [OF post_ginfo_ok]
  by (auto simp: postable_def group_name_def name_ok_def group_has_def post_env_def post_spool_def grp_init_def
      mem_gdbm_def info_def MAXCHAR_def INT_MAX_def field_fits_def post_ginfo_def)

theorem Post_crossposts_witness:
  "\<exists>a a' s'. post_groups post_env [''ab'', ''cd''] (a, post_spool) = Some (True, a', s')
     \<and> map_option a_xref (arts mem_gdbm (db_dbf (sp_db s')) ''<m@x>'') = Some ''ab:1 cd:1''"
proof -
  have d: "distinct [''ab'', ''cd'']" by simp
  have p: "\<forall>h \<in> set [''ab'', ''cd'']. postable post_env post_spool (info_over (over_info post_hs [''t''])) (\<lambda>_. []) (\<lambda>_. 0) h"
    using post_postable by simp
  have h: "list_all hdr_ok post_hs" "[''t''] \<noteq> []" "list_all field_fits [''t'']"
    by (simp_all add: post_hs_def hdr_ok_def hdr_line_def cisspace_def MAXCHAR_def field_fits_def)
  have x: "xref_more (\<lambda>_. 0) (xref_item (\<lambda>_. 0) ''ab'') [''cd''] = ''ab:1 cd:1''"
    unfolding xref_more_def xref_item_def by code_simp
  have l: "length (xref_more (\<lambda>_. 0) (xref_item (\<lambda>_. 0) ''ab'') [''cd'']) < MAXCHAR"
    by (subst x) (simp add: MAXCHAR_def)
  have m: "o_msgId (over_info post_hs [''t'']) \<noteq> []"
    "arts (gdbm_d post_env) (db_dbf (sp_db post_spool)) (o_msgId (over_info post_hs [''t''])) = None"
    by (simp_all add: post_over post_env_def post_spool_def db_init_def arts_def mem_gdbm_def)
  have g: "gdbm_d post_env = mem_gdbm" by (simp add: post_env_def)
  from Post_crossposts [OF post_spool_inv d p h m l] show ?thesis
    unfolding x g post_over(2) by fastforce
qed

end
