(* ===== verification/Pseudo.thy ===== *)
theory Pseudo
  imports Post
begin

text \<open>
  Pseudo articles, \<^verbatim>\<open>noffle-1.0.1/src/pseudo.c\<close>: the general information of a group, the bodies that
  stand for articles that are not there yet, and the articles by which the server tells its users
  what happened to a group.

  The message ID is made by \<open>Prt_genMsgId\<close>; the host name, the time stamp, the random number and the
  printed date it and \<open>genOv\<close> use are the record \<open>gen\<close>.  The dynamic strings are the strings they
  stand for.
\<close>

record gen =
  gen_fqdn :: "cstr option"
  gen_stamp :: cstr
  gen_rnd :: nat
  gen_date :: cstr

definition genOv :: "gen \<Rightarrow> cstr \<Rightarrow> cstr \<Rightarrow> cstr \<Rightarrow> Over option" where
  "genOv G rawSubj rawBody suffix =
     do { msgId \<leftarrow> Prt_genMsgId (gen_fqdn G) (gen_stamp G) (gen_rnd G) [] suffix;
          Some (new_Over (take (MAXCHAR - 1) (''[ '' @ rawSubj @ '' ]'')) ''news (\"[ NOFFLE ]\")'' (gen_date G) msgId []
                  (word_of_nat (length rawBody)) (word_of_nat (length (filter (\<lambda>c. c = LF) rawBody)))) }"

subsection \<open>Fixed texts\<close>

definition Pseudo_generalInfoBody :: "bool \<Rightarrow> cstr" where
  "Pseudo_generalInfoBody autoSubscribe =
     (if autoSubscribe then
      text_of [[],
       TAB # ''[ NOFFLE INFO: General information ]'',
       [],
       TAB # ''[ This server is running NOFFLE, which is a NNTP server ]'',
       TAB # ''[ optimized for low speed dial-up Internet connections. ]'',
       [],
       TAB # ''[ By reading this or any other article of this group, ]'',
       TAB # ''[ NOFFLE has put it on its fetch list and will retrieve ]'',
       TAB # ''[ articles next time it is online. ]'',
       [],
       TAB # ''[ If you have more questions about NOFFLE please talk ]'',
       TAB # ''[ to your newsmaster or read the manual page for ]'',
       TAB # ''[ \"noffle\". ]'']
     else
      text_of [[],
       TAB # ''[ NOFFLE INFO: General information ]'',
       [],
       TAB # ''[ This server is running NOFFLE, which is a NNTP server ]'',
       TAB # ''[ optimized for low speed dial-up Internet connections. ]'',
       [],
       TAB # ''[ This group is presently not on the fetch list. You can ]'',
       TAB # ''[ put groups on the fetch list by running the \"noffle\" ]'',
       TAB # ''[ command on the computer where this server is running. ]'',
       [],
       TAB # ''[ If you have more questions about NOFFLE please talk ]'',
       TAB # ''[ to your newsmaster or read the manual page for ]'',
       TAB # ''[ \"noffle\". ]''])"

definition Pseudo_markedBody :: cstr where
  "Pseudo_markedBody =
     text_of [[],
       TAB # ''[ NOFFLE INFO: Marked for download ]'',
       [],
       TAB # ''[ The body of this article has been marked for download. ]'']"

definition Pseudo_alreadyMarkedBody :: cstr where
  "Pseudo_alreadyMarkedBody =
     text_of [[],
       TAB # ''[ NOFFLE INFO: Already marked for download ]'',
       [],
       TAB # ''[ The body of this article has already been marked ]'',
       TAB # ''[ for download. ]'']"

definition Pseudo_markingFailedBody :: cstr where
  "Pseudo_markingFailedBody =
     text_of [[],
       TAB # ''[ NOFFLE ERROR: Marking for download failed ]'',
       [],
       TAB # ''[ Sorry, I could not mark this article for download. ]'',
       TAB # ''[ Either the database is corrupted, or I was unable to ]'',
       TAB # ''[ get write access to the request directory. ]'',
       TAB # ''[ Please contact your newsmaster to remove this problem. ]'']"

definition Pseudo_appGeneralInfo :: "gen \<Rightarrow> bool \<Rightarrow> cont \<Rightarrow> cont option" where
  "Pseudo_appGeneralInfo G autoSubscribe c =
     do { ov \<leftarrow> genOv G ''General info'' (Pseudo_generalInfoBody autoSubscribe) ''NOFFLE-GENERAL-INFO'';
          Some (Cont_app c (Some ov)) }"

definition Pseudo_generalInfoHead :: "gen \<Rightarrow> bool \<Rightarrow> cstr option" where
  "Pseudo_generalInfoHead G autoSubscribe =
     do { ov \<leftarrow> genOv G ''General info'' (Pseudo_generalInfoBody autoSubscribe) ''NOFFLE-GENERAL-INFO'';
          Some (take (MAXCHAR - 1) (text_of
            [''Message-ID: '' @ ov_msgId ov, ''Subject: '' @ ov_subj ov, ''From: '' @ ov_from ov,
             ''Date: '' @ ov_date ov, ''Bytes: '' @ fmt_u (ov_bytes ov), ''Lines: '' @ fmt_u (ov_lines ov)])) }"

subsection \<open>Articles\<close>

text \<open>The loop that puts every line into brackets; an empty line is passed over.\<close>

fun box_loop :: "cstr \<Rightarrow> cstr" where
  "box_loop [] = []"
| "box_loop (c # rawBody) =
     (if c = LF then
        '' ]'' @ [LF] @
        (case rawBody of
           [] \<Rightarrow> box_loop rawBody
         | d # rawBody' \<Rightarrow>
             if d = LF then [LF] @ TAB # ''[ '' @ box_loop rawBody' else TAB # ''[ '' @ box_loop rawBody)
      else c # box_loop rawBody)"

definition pseudo_text :: "cstr \<Rightarrow> cstr \<Rightarrow> cstr \<times> cstr" where
  "pseudo_text rawSubj rawBody =
     (let body = [LF] @ TAB # ''[ NOFFLE INFO: '' @ rawSubj @ '' ]'' @ [LF, LF] @ TAB # ''[ '' @ box_loop rawBody @ [LF]
      in (body, ''Comments: Pseudo article generated by news server NOFFLE'' @ [LF] @ [LF] @ body))"

definition genPseudo :: "('g, 'd) env \<Rightarrow> gen \<Rightarrow> cstr \<Rightarrow> cstr \<Rightarrow> ('g, 'd) spool \<Rightarrow> ('g, 'd) spool option" where
  "genPseudo E G rawSubj rawBody s =
     (let (body, artTxt) = pseudo_text rawSubj rawBody in
      do { ov \<leftarrow> genOv G rawSubj body ''PSEUDO'';
           let over = Ov_setNumb ov (vecFirst (sp_cont s) + size_of (sp_cont s));
           let s1 = s\<lparr>sp_cont := Cont_app (sp_cont s) (Some ov)\<rparr>;
           (b, db1) \<leftarrow> Db_prepareEntry over (grp_name (sp_cont s1)) (last_nr (sp_cont s1)) (clock E) (gdbm_d E) (sp_db s1);
           (_, db2) \<leftarrow> (if b then Db_storeArt (before E) (clock E) (gdbm_d E) (ov_msgId over) artTxt db1
                         else Some (False, db1));
           sp_setFirstLast E (sp_Cont_write E (s1\<lparr>sp_db := db2\<rparr>)) })"

definition failed_text :: "cstr \<Rightarrow> cstr" where
  "failed_text reason =
     ''Comments: Pseudo body generated by news server NOFFLE'' @ [LF] @ [LF] @
     text_of [[],
       TAB # ''[ NOFFLE ERROR: Retrieving failed ]'',
       [],
       TAB # ''[ This article could not be retrieved. Maybe ]'',
       TAB # ''[ it has already expired at the remote server ]'',
       TAB # ''[ or it has been cancelled by its sender. See ]'',
       TAB # ''[ the appended status line of the remote ]'',
       TAB # ''[ server for more information. ]'',
       [],
       TAB # ''[ This message will disappear the next time ]'',
       TAB # ''[ someone tries to read this article, so that ]'',
       TAB # ''[ it can be marked for download again. ]''] @
     [LF] @ TAB # ''[ Remote server status: '' @ reason @ '' ]'' @ [LF]"

text \<open>For an article without an entry the error message has one argument too few.\<close>

definition Pseudo_retrievingFailed :: "('g, 'd) env \<Rightarrow> cstr \<Rightarrow> cstr \<Rightarrow> 'd database \<Rightarrow> 'd database option" where
  "Pseudo_retrievingFailed E msgId reason db =
     (if \<not> Db_contains (gdbm_d E) msgId db then None
      else map_option snd (Db_storeArt (before E) (clock E) (gdbm_d E) msgId (failed_text reason) db))"

definition Pseudo_cntInconsistent :: "('g, 'd) env \<Rightarrow> gen \<Rightarrow> cstr \<Rightarrow> int \<Rightarrow> int \<Rightarrow> int \<Rightarrow> ('g, 'd) spool \<Rightarrow> ('g, 'd) spool option" where
  "Pseudo_cntInconsistent E G grp first_nr last_no next_nr =
     genPseudo E G ''Article counter inconsistent'' (text_of [''This group's article counter is not '',
       ''consistent Probably the remote news server'',
       ''was changed or has reset its article counter'',
       ''for this group. As a consequence there could'',
       ''be some articles be duplicated in this group''] @ text_of
      [take (MAXCHAR - 1) (''Group: '' @ grp), ''Remote first article number: '' @ dec_int first_nr,
       ''Remote last article number: '' @ dec_int last_no, ''Remote next article number: '' @ dec_int next_nr])"

definition Pseudo_missArts :: "('g, 'd) env \<Rightarrow> gen \<Rightarrow> cstr \<Rightarrow> int \<Rightarrow> int \<Rightarrow> ('g, 'd) spool \<Rightarrow> ('g, 'd) spool option" where
  "Pseudo_missArts E G grp first_nr next_nr =
     genPseudo E G ''Missing articles'' (text_of [''Some articles could not be retrieved from'',
       ''the remote server, because it had already'',
       ''deleted them.'',
       ''If this group is on the fetch list, then'',
       ''contact your newsmaster to ensure that'',
       ''\"noffle\" is fetching news more frequently.''] @ text_of
      [take (MAXCHAR - 1) (''Group: '' @ grp), ''Remote next article number: '' @ dec_int next_nr,
       ''Remote first article number: '' @ dec_int first_nr])"

definition Pseudo_autoUnsubscribed :: "('g, 'd) env \<Rightarrow> gen \<Rightarrow> cstr \<Rightarrow> int \<Rightarrow> ('g, 'd) spool \<Rightarrow> ('g, 'd) spool option" where
  "Pseudo_autoUnsubscribed E G grp days =
     genPseudo E G ''Auto unsubscribed'' (text_of [''NOFFLE has automatically unsubscribed this'',
       ''group since it has not been accessed for'',
       ''some time.'',
       ''Re-subscribing is done either automatically'',
       ''by NOFFLE (if configured) or by manually'',
       ''running the 'noffle --subscribe' command''] @ text_of
      [take (MAXCHAR - 1) (''Group: '' @ grp), ''Days without access: '' @ dec_int days])"

definition Pseudo_autoSubscribed :: "('g, 'd) env \<Rightarrow> gen \<Rightarrow> ('g, 'd) spool \<Rightarrow> ('g, 'd) spool option" where
  "Pseudo_autoSubscribed E G = genPseudo E G ''Auto subscribed'' (text_of [''NOFFLE has now automatically subscribed to'',
       ''this group. It will fetch articles next time'',
       ''it is online.''])"

subsection \<open>The text of a pseudo article\<close>

definition boxed :: "cstr \<Rightarrow> cstr" where
  "boxed l = TAB # ''[ '' @ l @ '' ]''"

lemma box_loop_run: "LF \<notin> set l \<Longrightarrow> box_loop (l @ s) = l @ box_loop s"
  by (induction l) auto

text \<open>A text of non-empty lines becomes one of boxed lines.\<close>

lemma box_loop_lines:
  "list_all (\<lambda>l. l \<noteq> [] \<and> LF \<notin> set l) (l # ls) \<Longrightarrow>
     TAB # ''[ '' @ box_loop (text_of (l # ls)) = text_of (map boxed (l # ls))"
proof (induction ls arbitrary: l)
  case Nil
  then show ?case using box_loop_run [of l "[LF]"] by (simp add: boxed_def)
next
  case (Cons m ls)
  then obtain c m' where m: "m = c # m'" "c \<noteq> LF" by (cases m) auto
  have "box_loop (text_of (l # m # ls)) = l @ box_loop (LF # text_of (m # ls))"
    using Cons.prems box_loop_run [of l "LF # text_of (m # ls)"] by simp
  also have "\<dots> = l @ '' ]'' @ [LF] @ TAB # ''[ '' @ box_loop (text_of (m # ls))" using m by simp
  finally show ?case using Cons.IH [of m] Cons.prems by (simp add: boxed_def)
qed

definition pseudo_lines :: "cstr \<Rightarrow> cstr list \<Rightarrow> cstr list" where
  "pseudo_lines subj ls = [[], TAB # ''[ NOFFLE INFO: '' @ subj @ '' ]'', []] @ map boxed ls @ [[]]"

lemma pseudo_text_lines:
  assumes "list_all (\<lambda>l. l \<noteq> [] \<and> LF \<notin> set l) ls" "ls \<noteq> []"
  shows "pseudo_text subj (text_of ls) = (text_of (pseudo_lines subj ls),
    text_of (map hdr_line [(''Comments'', '' Pseudo article generated by news server NOFFLE'')]) @ LF # text_of (pseudo_lines subj ls))"
proof -
  obtain l r where ls: "ls = l # r" using assms(2) by (cases ls) auto
  from box_loop_lines [of l r] assms(1) show ?thesis
    by (simp add: ls pseudo_text_def pseudo_lines_def Let_def hdr_line_def)
qed

text \<open>C29. When the overview list of a group has been read, a pseudo article with its text in boxed lines
  becomes the next article of the group: the overview file, the last number of the group and the
  data base have it, with an Xref to the group, and no other group changes.\<close>

theorem genPseudo_posts:
  assumes "env_ok E" "spool_inv E s" "postable E s ov (\<lambda>_. ovs) (\<lambda>_. l) n"
    "cont_inv (sp_cont s)" "last_nr (sp_cont s) = l" "somes (elem (sp_cont s)) = ovs"
    "grp_name (sp_cont s) = n" "grp_file (sp_cont s) = ov_path E n"
    "list_all (\<lambda>k. k \<noteq> [] \<and> LF \<notin> set k) ls" "ls \<noteq> []" "list_all field_fits (pseudo_lines subj ls)"
    "genOv G subj (text_of (pseudo_lines subj ls)) ''PSEUDO'' = Some ov" "ov_msgId ov \<noteq> []"
  defines "hs \<equiv> [(''Comments'', '' Pseudo article generated by news server NOFFLE'')]"
  shows "\<exists>s'. genPseudo E G subj (text_of ls) s = Some s' \<and> spool_inv E s'
    \<and> group_has E s' n (ovs @ [Ov_setNumb ov (l + 1)]) (l + 1)
    \<and> (\<forall>m os k. m \<noteq> n \<and> group_name E m \<and> group_has E s m os k \<longrightarrow> group_has E s' m os k)
    \<and> arts (gdbm_d E) (db_dbf (sp_db s')) = (arts (gdbm_d E) (db_dbf (sp_db s)))
        (ov_msgId ov \<mapsto> stored (clock E) hs (pseudo_lines subj ls) (prepared ov n (l + 1) (clock E)))"
proof -
  have p: "group_name E n" "group_has E s n ovs l" "l + 1 < INT_MAX" "field_fits n"
    "plain_ov (Ov_setNumb ov (l + 1))" using assms(3) by (simp_all add: postable_def)
  have vf: "vecFirst (sp_cont s) + size_of (sp_cont s) = l + 1" using assms(4,5) by (simp add: cont_inv_def)
  have laws: "gdbm_laws (gdbm_d E)" "stores_succeed (gdbm_d E)" "db_inv (gdbm_d E) (sp_db s)"
    using assms(1,2) by (simp_all add: env_ok_def spool_inv_def)
  have fits: "over_fits (Ov_setNumb ov (l + 1))" by (rule plain_over_fits [OF p(5) assms(13)])
  have n: "LF \<notin> set n" "proper n" using p(4) by (simp_all add: field_fits_def)
  have h: "list_all hdr_ok hs" by (simp add: hs_def hdr_ok_def hdr_line_def cisspace_def MAXCHAR_def)
  have o: "ov_msgId (Ov_setNumb ov (l + 1)) = ov_msgId ov" "prepared (Ov_setNumb ov (l + 1)) = prepared ov"
    by (simp_all add: Ov_setNumb_def prepared_def fun_eq_iff)
  obtain db1 db2 where
    db1: "Db_prepareEntry (Ov_setNumb ov (l + 1)) n (l + 1) (clock E) (gdbm_d E) (sp_db s) = Some (True, db1)" and
    db2: "Db_storeArt (before E) (clock E) (gdbm_d E) (ov_msgId ov)
        (text_of (map hdr_line hs) @ LF # text_of (pseudo_lines subj ls)) db1 = Some (True, db2)" "db_inv (gdbm_d E) db2"
      "arts (gdbm_d E) (db_dbf db2) = (arts (gdbm_d E) (db_dbf (sp_db s)))
         (ov_msgId ov \<mapsto> stored (clock E) hs (pseudo_lines subj ls) (prepared ov n (l + 1) (clock E)))"
    using prepare_store [OF laws fits n h assms(11)] unfolding o by blast
  let ?s = "s\<lparr>sp_db := db2\<rparr>"
  have i: "spool_inv E ?s" using assms(2) db2(2) by (simp add: spool_inv_def)
  have gh: "group_has E ?s m os k \<longleftrightarrow> group_has E s m os k" for m os k by (simp add: group_has_def)
  have sw: "?s\<lparr>sp_cont := c\<rparr> = s\<lparr>sp_cont := c, sp_db := db2\<rparr>" for c by (cases s) simp
  from gh p(2) have "group_has E ?s n ovs l" by blast
  from sp_append [OF assms(1) i p(1) this assms(4-8) p(5,3)] obtain s' where
    s': "sp_setFirstLast E (sp_Cont_write E (s\<lparr>sp_cont := Cont_app (sp_cont s) (Some ov), sp_db := db2\<rparr>)) = Some s'"
      "spool_inv E s'" "sp_db s' = db2" "group_has E s' n (ovs @ [Ov_setNumb ov (l + 1)]) (l + 1)"
      "\<forall>m os k. m \<noteq> n \<and> group_name E m \<and> group_has E s m os k \<longrightarrow> group_has E s' m os k"
    unfolding gh sw by auto
  have "genPseudo E G subj (text_of ls) s = Some s'"
    using pseudo_text_lines [OF assms(9,10), of subj] assms(7,12) vf db1 db2(1) s'(1) o(1)
    by (simp add: genPseudo_def hs_def)
  with s' db2(3) show ?thesis by (intro exI [of _ s']) simp
qed

definition sample_gen :: gen where
  "sample_gen = \<lparr>gen_fqdn = Some ''h.org'', gen_stamp = ''1'', gen_rnd = 5, gen_date = ''now''\<rparr>"

lemma sample_genOv:
  "genOv sample_gen ''s'' (text_of (pseudo_lines ''s'' [''hello''])) ''PSEUDO'' =
     Some \<lparr>ov_numb = 0, ov_subj = ''[ s ]'', ov_from = ''news (\"[ NOFFLE ]\")'', ov_date = ''now'',
       ov_msgId = ''<1.5.PSEUDO@h.org.local>'', ov_ref = [], ov_bytes = 34, ov_lines = 5\<rparr>"
  by code_simp

lemma sample_gen_plain: "\<forall>ov. genOv sample_gen ''s'' (text_of (pseudo_lines ''s'' [''hello''])) ''PSEUDO'' = Some ov \<longrightarrow>
    plain_ov (Ov_setNumb ov 1) \<and> ov_msgId ov = ''<1.5.PSEUDO@h.org.local>''"
  unfolding sample_genOv option.inject all_simps Ov_setNumb_def
  by (intro allI impI, elim subst) code_simp

theorem genPseudo_posts_witness:
  "\<exists>s1 s2. sp_Cont_read post_env ''ab'' post_spool = Some s1 \<and> genPseudo post_env sample_gen ''s'' (text_of [''hello'']) s1 = Some s2
     \<and> arts mem_gdbm (db_dbf (sp_db s2)) ''<1.5.PSEUDO@h.org.local>'' \<noteq> None"
proof -
  obtain ov where ov: "genOv sample_gen ''s'' (text_of (pseudo_lines ''s'' [''hello''])) ''PSEUDO'' = Some ov"
    "ov_msgId ov = ''<1.5.PSEUDO@h.org.local>''" "plain_ov (Ov_setNumb ov 1)"
    using sample_genOv sample_gen_plain by blast
  have g: "group_name post_env ''ab''" "group_has post_env post_spool ''ab'' [] 0"
    using post_postable [of "''ab''"] by (simp_all add: postable_def)
  from sp_Cont_read_group [OF post_spool_inv g] obtain s1 where
    s1: "sp_Cont_read post_env ''ab'' post_spool = Some s1" "spool_inv post_env s1" "sp_file s1 = sp_file post_spool"
      "dbf (sp_grp s1) = dbf (sp_grp post_spool)" "cont_inv (sp_cont s1)" "last_nr (sp_cont s1) = 0"
      "somes (elem (sp_cont s1)) = []" "grp_name (sp_cont s1) = ''ab''" "grp_file (sp_cont s1) = ov_path post_env ''ab''"
    by blast
  have gh: "group_has post_env s1 ''ab'' [] 0" using g(2) s1(3,4) by (simp add: group_has_def)
  have p: "postable post_env s1 ov (\<lambda>_. []) (\<lambda>_. 0) ''ab''"
    using g(1) gh ov(3) by (simp add: postable_def INT_MAX_def field_fits_def MAXCHAR_def)
  have l: "list_all (\<lambda>k. k \<noteq> [] \<and> LF \<notin> set k) [''hello'']" "[''hello''] \<noteq> []"
    "list_all field_fits (pseudo_lines ''s'' [''hello''])"
    by (simp_all add: pseudo_lines_def boxed_def field_fits_def MAXCHAR_def)
  have m: "ov_msgId ov \<noteq> []" by (simp add: ov(2))
  have d: "gdbm_d post_env = mem_gdbm" by (simp add: post_env_def)
  from genPseudo_posts [OF post_spool_inv(1) s1(2) p s1(5-9) l ov(1) m] obtain s2 where
    "genPseudo post_env sample_gen ''s'' (text_of [''hello'']) s1 = Some s2"
    "arts mem_gdbm (db_dbf (sp_db s2)) (ov_msgId ov) \<noteq> None" unfolding d by auto
  with s1(1) ov(2) show ?thesis by auto
qed

end
