(* ===== verification/Client.thy ===== *)
theory Client
  imports Pseudo Request Configfile Wildmat
begin

text \<open>
  The NNTP client, first part of \<^verbatim>\<open>noffle-1.0.1/src/client.c\<close>: the connection, commands and
  their status with the authentication, and the lists of groups.

  The static struct \<open>client\<close>, the text that the remote server will still send, what was written to it, and the
  data bases are the record \<open>client\<close>.  \<open>cenv\<close> is what does not change: the environment of the spool, the
  configuration, what the pseudo articles need, whether a signal handler can be installed, and what
  becomes of the addresses of a host and port.  A text from a peer is any text, so what is shown holds whatever the
  server answers.  \<open>None\<close> is an access outside an object or the use of an unset variable.
\<close>

datatype peer = No_socket | No_connection | No_stream | Peer cstr nat

record ('g, 'd) client =
  cl_in :: cstr
  cl_out :: ofile
  lastCmd :: cstr
  lastStat :: cstr
  cl_grp :: cstr
  rmtFirst :: int
  rmtLast :: int
  cl_auth :: bool
  connected :: bool
  cl_serv :: cstr
  cl_sp :: "('g, 'd) spool"
  cl_req :: req

record ('g, 'd) cenv =
  ce_env :: "('g, 'd) env"
  ce_cfg :: config
  ce_gen :: gen
  ce_sig :: bool
  ce_hosts :: "cstr \<Rightarrow> 16 word \<Rightarrow> peer list option"

abbreviation cglib :: "('g, 'd) cenv \<Rightarrow> 'g gdbm" where "cglib C \<equiv> gdbm_g (ce_env C)"
abbreviation cdlib :: "('g, 'd) cenv \<Rightarrow> 'd gdbm" where "cdlib C \<equiv> gdbm_d (ce_env C)"

definition client_init :: "('g, 'd) spool \<Rightarrow> req \<Rightarrow> ('g, 'd) client" where
  "client_init sp rq = \<lparr>cl_in = [], cl_out = \<lparr>written = [], room = 0\<rparr>, lastCmd = [], lastStat = [], cl_grp = [],
     rmtFirst = 1, rmtLast = 0, cl_auth = False, connected = False, cl_serv = [], cl_sp = sp, cl_req = rq\<rparr>"

subsection \<open>Lines\<close>

definition breakDown :: "('g, 'd) client \<Rightarrow> ('g, 'd) client" where
  "breakDown c = c\<lparr>connected := False\<rparr>"

definition cl_getLn :: "('g, 'd) cenv \<Rightarrow> ('g, 'd) client \<Rightarrow> cstr option \<times> ('g, 'd) client" where
  "cl_getLn C c =
     (if \<not> connected c then (None, c)
      else case Prt_getLn (ce_sig C) (connectTimeout (ce_cfg C)) (cl_in c) of
             (None, f) \<Rightarrow> (None, breakDown (c\<lparr>cl_in := f\<rparr>))
           | (Some line, f) \<Rightarrow> (Some line, c\<lparr>cl_in := f\<rparr>))"

text \<open>Without a connection \<open>*err\<close> stays as it was; the loops below read it then.\<close>

definition cl_getTxtLn :: "('g, 'd) cenv \<Rightarrow> ('g, 'd) client \<Rightarrow> (txt_ln \<times> ('g, 'd) client) option" where
  "cl_getTxtLn C c =
     (if \<not> connected c then None
      else case Prt_getTxtLn (ce_sig C) (connectTimeout (ce_cfg C)) (cl_in c) of
             (t, f) \<Rightarrow> Some (t, if t = Txt_err then breakDown (c\<lparr>cl_in := f\<rparr>) else c\<lparr>cl_in := f\<rparr>))"

definition cl_putTxtBuf :: "cstr \<Rightarrow> ('g, 'd) client \<Rightarrow> ('g, 'd) client" where
  "cl_putTxtBuf buf c = c\<lparr>cl_out := snd (Prt_putTxtBuf buf (cl_out c))\<rparr>"

definition cl_putEndOfTxt :: "('g, 'd) client \<Rightarrow> ('g, 'd) client" where
  "cl_putEndOfTxt c = c\<lparr>cl_out := snd (Prt_putEndOfTxt (cl_out c))\<rparr>"

definition putCmdLn :: "cstr \<Rightarrow> ('g, 'd) client \<Rightarrow> bool \<times> ('g, 'd) client" where
  "putCmdLn line c =
     (if \<not> connected c then (False, c)
      else let (ok, f) = fprint (line @ [CR, LF]) (cl_out c);
               c1 = c\<lparr>lastCmd := line, lastStat := ''[no status available]'', cl_out := f\<rparr>
           in (ok, if \<not> ok then breakDown c1 else c1))"

text \<open>\<open>putCmd\<close> and \<open>putCmdNoFlush\<close> with the text that \<open>vsnprintf\<close> makes.\<close>

definition putCmd :: "cstr \<Rightarrow> ('g, 'd) client \<Rightarrow> bool \<times> ('g, 'd) client" where
  "putCmd text c = putCmdLn (str_of text) c"

definition putCmdNoFlush :: "cstr \<Rightarrow> ('g, 'd) client \<Rightarrow> bool \<times> ('g, 'd) client" where
  "putCmdNoFlush text c = putCmdLn (str_of text) c"

text \<open>A text that is a format itself: the arguments of a conversion would be missing.\<close>

fun as_format :: "cstr \<Rightarrow> cstr option" where
  "as_format [] = Some []"
| "as_format [c] = (if c = CHR ''%'' then None else Some [c])"
| "as_format (c # d # s) =
     (if c \<noteq> CHR ''%'' then map_option ((#) c) (as_format (d # s))
      else if d = CHR ''%'' then map_option ((#) d) (as_format s) else None)"

subsection \<open>Status\<close>

text \<open>\<open>getStat\<close> up to the test for the authentication.\<close>

definition read_stat :: "('g, 'd) cenv \<Rightarrow> ('g, 'd) client \<Rightarrow> int \<times> ('g, 'd) client" where
  "read_stat C c =
     (case cl_getLn C c of
        (None, c1) \<Rightarrow> (int STAT_PROGRAM_FAULT, c1)
      | (Some line, c1) \<Rightarrow>
          (case scan_d line of
             None \<Rightarrow> (int STAT_PROGRAM_FAULT, c1\<lparr>lastStat := line\<rparr>)
           | Some (r, _) \<Rightarrow> (r, c1\<lparr>lastStat := line\<rparr>)))"

text \<open>\<open>performAuth\<close> and \<open>getStat\<close> call each other, but with \<open>auth\<close> set \<open>getStat\<close> is \<open>read_stat\<close>.\<close>

definition performAuth :: "('g, 'd) cenv \<Rightarrow> ('g, 'd) client \<Rightarrow> bool \<times> ('g, 'd) client" where
  "performAuth C c =
     (let (user, pass) = Cfg_authInfo (ce_cfg C) (cl_serv c) in
      if user = [] then (False, c)
      else let (_, c1) = putCmd (''AUTHINFO USER '' @ user) c; (st, c2) = read_stat C c1 in
        if st = int STAT_AUTH_ACCEPTED then (True, c2)
        else if st \<noteq> int STAT_MORE_AUTH_REQUIRED then (False, c2)
        else if pass = [] then (False, c2)
        else let (_, c3) = putCmd (''AUTHINFO PASS '' @ pass) c2; (st, c4) = read_stat C c3
             in (st = int STAT_AUTH_ACCEPTED, c4))"

definition getStat :: "('g, 'd) cenv \<Rightarrow> ('g, 'd) client \<Rightarrow> (int \<times> ('g, 'd) client) option" where
  "getStat C c =
     (let (result, c1) = read_stat C c in
      if result = int STAT_AUTH_REQUIRED \<and> \<not> cl_auth c1 then
        let cmd = lastCmd c1; (ok, c2) = performAuth C (c1\<lparr>cl_auth := True\<rparr>) in
        if ok then do { line \<leftarrow> as_format cmd; Some (read_stat C (snd (putCmd line c2))) }
        else Some (result, c2)
      else Some (result, c1))"
subsection \<open>Connecting\<close>

text \<open>\<open>%hi\<close> into an \<open>unsigned short\<close>: \<open>strtol\<close> keeps to the range of a \<open>long\<close>, and the rest is cut off.\<close>

definition scan_hi :: "cstr \<Rightarrow> 16 word option" where
  "scan_hi s = map_option (\<lambda>i. word_of_int (max (- (2 ^ 31)) (min (2 ^ 31 - 1) i))) (scan_i s)"

text \<open>The host and the port of a server name; \<open>Some None\<close> is a syntax error or the port 0.\<close>

definition host_port :: "('g, 'd) cenv \<Rightarrow> cstr \<Rightarrow> (cstr \<times> 16 word) option option" where
  "host_port C srv =
     do { s \<leftarrow> Utl_cpyStr srv;
          (_, pStart) \<leftarrow> Utl_stripWhiteSpace (before (ce_env C)) s;
          case cstrstr pStart '':'' of
            None \<Rightarrow> Some (Some (pStart, 119))
          | Some pColon \<Rightarrow>
              (case scan_hi (tl pColon) of
                 None \<Rightarrow> Some None
               | Some port \<Rightarrow>
                   Some (if port = 0 then None else Some (take (length pStart - length pColon) pStart, port))) }"

fun connect_loop :: "('g, 'd) cenv \<Rightarrow> cstr \<Rightarrow> peer list \<Rightarrow> ('g, 'd) client \<Rightarrow> (bool \<times> ('g, 'd) client) option" where
  "connect_loop C srv [] c = Some (False, c\<lparr>connected := False\<rparr>)"
| "connect_loop C srv (Peer tx n # as) c =
     do { name \<leftarrow> Utl_cpyStr srv;
          (st, c1) \<leftarrow> getStat C (c\<lparr>cl_in := tx, cl_out := \<lparr>written = [], room = n\<rparr>, cl_serv := name, connected := True\<rparr>);
          (st, c2) \<leftarrow> (if st = int STAT_READY_POST_ALLOW \<or> st = int STAT_READY_NO_POST_ALLOW
                       then getStat C (snd (putCmd ''MODE READER'' c1)) else Some (st, c1));
          if st = int STAT_READY_POST_ALLOW \<or> st = int STAT_READY_NO_POST_ALLOW then Some (True, c2)
          else connect_loop C srv as c2 }"
| "connect_loop C srv (a # as) c = Some (False, c\<lparr>connected := False\<rparr>)"

definition Client_connect :: "('g, 'd) cenv \<Rightarrow> cstr \<Rightarrow> ('g, 'd) client \<Rightarrow> (bool \<times> ('g, 'd) client) option" where
  "Client_connect C srv c =
     (let c0 = c\<lparr>connected := False, cl_auth := False\<rparr> in
      do { hp \<leftarrow> host_port C srv;
           case hp of
             None \<Rightarrow> Some (False, c0)
           | Some (host, port) \<Rightarrow>
               (case ce_hosts C host port of
                  None \<Rightarrow> Some (False, c0\<lparr>connected := False\<rparr>)
                | Some as \<Rightarrow> connect_loop C srv as c0) })"

definition Client_disconnect :: "('g, 'd) cenv \<Rightarrow> ('g, 'd) client \<Rightarrow> ('g, 'd) client option" where
  "Client_disconnect C c =
     (let (ok, c1) = putCmd ''QUIT'' c in
      do { c2 \<leftarrow> (if ok then map_option snd (getStat C c1) else Some c1); Some (c2\<lparr>cl_in := [], connected := False\<rparr>) })"

subsection \<open>Lists of groups\<close>

definition forbiddenGroupNames :: "(cstr \<times> bool) list" where
  "forbiddenGroupNames =
     [(''*.*'', False), (''control.*'', True), (''to.*'', True), (''*.all'', True), (''*.all.*'', True), (''all.*'', True),
      (''*.ctl'', True), (''*.ctl.*'', True), (''ctl.*'', True)]"

text \<open>\<open>match != ( ! Wld_match( name, pattern ) )\<close>.\<close>

fun forbidden_loop :: "cstr \<Rightarrow> (cstr \<times> bool) list \<Rightarrow> bool option" where
  "forbidden_loop name [] = Some False"
| "forbidden_loop name ((pattern, mtch) # ps) =
     do { m \<leftarrow> Wld_match name pattern; if mtch \<noteq> (\<not> m) then Some True else forbidden_loop name ps }"

definition isForbiddenGroupName :: "cstr \<Rightarrow> bool option" where
  "isForbiddenGroupName name = forbidden_loop name forbiddenGroupNames"

text \<open>\<open>sscanf( line, "%s %d %d %c", ... )\<close> with four results.\<close>

definition scan_group :: "cstr \<Rightarrow> (cstr \<times> int \<times> int \<times> char) option" where
  "scan_group line =
     do { (grp, r1) \<leftarrow> scan_s line; (lst, r2) \<leftarrow> scan_d r1; (fst_nr, r3) \<leftarrow> scan_d r2;
          case dropWhile cisspace r3 of [] \<Rightarrow> None | p # _ \<Rightarrow> Some (grp, lst, fst_nr, p) }"

definition on_grp :: "('g grp \<Rightarrow> 'g grp option) \<Rightarrow> ('g, 'd) client \<Rightarrow> ('g, 'd) client option" where
  "on_grp f c = do { g \<leftarrow> f (sp_grp (cl_sp c)); Some (c\<lparr>cl_sp := (cl_sp c)\<lparr>sp_grp := g\<rparr>\<rparr>) }"

definition cl_Grp_server :: "('g, 'd) cenv \<Rightarrow> cstr \<Rightarrow> ('g, 'd) client \<Rightarrow> (cstr \<times> ('g, 'd) client) option" where
  "cl_Grp_server C name c =
     do { (s, g) \<leftarrow> Grp_server (Cfg_servListContains (ce_cfg C)) (cglib C) name (sp_grp (cl_sp c));
          Some (s, c\<lparr>cl_sp := (cl_sp c)\<lparr>sp_grp := g\<rparr>\<rparr>) }"

text \<open>The body of the loop of \<open>processGrps\<close>: whether the group information changed.\<close>

definition process_grp :: "('g, 'd) cenv \<Rightarrow> cstr \<Rightarrow> ('g, 'd) client \<Rightarrow> (bool \<times> ('g, 'd) client) option" where
  "process_grp C line c =
     (case scan_group line of
        None \<Rightarrow> Some (False, c)
      | Some (grp, lst, fst_nr, post) \<Rightarrow>
          do { forbidden \<leftarrow> isForbiddenGroupName grp;
               if forbidden then Some (False, c)
               else if \<not> Grp_exists (cglib C) grp (sp_grp (cl_sp c)) then
                 do { c1 \<leftarrow> on_grp (Grp_create (cglib C) (clock (ce_env C)) grp) c;
                      c2 \<leftarrow> on_grp (if fst_nr \<noteq> 0 then Grp_setFirstLast fst_nr (fst_nr - 1) (cglib C) grp
                                    else Grp_setFirstLast 1 0 (cglib C) grp) c1;
                      c3 \<leftarrow> on_grp (Grp_setRmtNext fst_nr (cglib C) grp) c2;
                      c4 \<leftarrow> on_grp (Grp_setServ (cl_serv c) (cglib C) grp) c3;
                      c5 \<leftarrow> on_grp (Grp_setPostAllow post (cglib C) grp) c4;
                      Some (True, c5) }
               else
                 do { (srv, c1) \<leftarrow> cl_Grp_server C grp c;
                      if Cfg_servIsPreferential (ce_cfg C) (cl_serv c) srv then
                        do { c2 \<leftarrow> on_grp (Grp_setServ (cl_serv c) (cglib C) grp) c1;
                             c3 \<leftarrow> on_grp (Grp_setRmtNext fst_nr (cglib C) grp) c2;
                             c4 \<leftarrow> on_grp (Grp_setPostAllow post (cglib C) grp) c3;
                             Some (True, c4) }
                      else Some (False, c1) } })"

lemma cl_getTxtLn_shorter:
  "cl_getTxtLn C c = Some (Txt_line line, c1) \<Longrightarrow> length (cl_in c1) < length (cl_in c)"
  by (auto simp: cl_getTxtLn_def Prt_getTxtLn_def Prt_getLn_def breakDown_def split: if_splits option.splits)
    (erule fgets_shorter)+

lemma on_grp_in: "on_grp f c = Some c' \<Longrightarrow> cl_in c' = cl_in c"
  by (auto simp: on_grp_def split: bind_splits)

lemma cl_Grp_server_in: "cl_Grp_server C name c = Some (s, c') \<Longrightarrow> cl_in c' = cl_in c"
  by (auto simp: cl_Grp_server_def split: bind_splits)

lemma process_grp_in: "process_grp C line c = Some (u, c') \<Longrightarrow> cl_in c' = cl_in c"
  by (auto simp: process_grp_def split: option.split_asm bind_splits if_split_asm
      dest!: on_grp_in cl_Grp_server_in)

text \<open>The loop: whether it ended with an error, and whether the group information changed.\<close>

function grps_loop :: "('g, 'd) cenv \<Rightarrow> bool \<Rightarrow> ('g, 'd) client \<Rightarrow> (bool \<times> bool \<times> ('g, 'd) client) option" where
  "grps_loop C upd c =
     do { (t, c1) \<leftarrow> cl_getTxtLn C c;
          case t of
            Txt_end \<Rightarrow> Some (False, upd, c1)
          | Txt_err \<Rightarrow> Some (True, upd, c1)
          | Txt_line line \<Rightarrow> do { (u, c2) \<leftarrow> process_grp C line c1; grps_loop C (upd \<or> u) c2 } }"
  by pat_completeness auto

termination
  by (relation "measure (\<lambda>(_, _, c). length (cl_in c))")
    (auto dest!: cl_getTxtLn_shorter process_grp_in)

declare grps_loop.simps [simp del]

definition put_file :: "cstr \<Rightarrow> cstr \<Rightarrow> ('g, 'd) cenv \<Rightarrow> ('g, 'd) client \<Rightarrow> ('g, 'd) client" where
  "put_file path tx C c =
     (if can_write (ce_env C) path then c\<lparr>cl_sp := (cl_sp c)\<lparr>sp_file := (sp_file (cl_sp c))(path \<mapsto> tx)\<rparr>\<rparr> else c)"

definition lastupdate :: "('g, 'd) cenv \<Rightarrow> cstr \<Rightarrow> cstr" where
  "lastupdate C srv = str_of (spool_dir (ce_env C) @ ''/lastupdate.'' @ srv)"

definition groupinfo :: "('g, 'd) cenv \<Rightarrow> cstr" where
  "groupinfo C = str_of (spool_dir (ce_env C) @ ''/groupinfo.lastupdate'')"

definition processGrps :: "('g, 'd) cenv \<Rightarrow> ('g, 'd) client \<Rightarrow> ('g, 'd) client option" where
  "processGrps C c =
     do { (err, upd, c1) \<leftarrow> grps_loop C False c;
          let tx = Utl_stamp (unat (clock (ce_env C)));
          Some (if err then c1
                else let c2 = put_file (lastupdate C (cl_serv c1)) tx C c1
                     in if upd then put_file (groupinfo C) tx C c2 else c2) }"

definition Client_getGrps :: "('g, 'd) cenv \<Rightarrow> ('g, 'd) client \<Rightarrow> (bool \<times> ('g, 'd) client) option" where
  "Client_getGrps C c =
     (if \<not> connected c then Some (False, c)
      else let (ok, c1) = putCmd ''LIST'' c in
        if \<not> ok then Some (False, c1)
        else do { (st, c2) \<leftarrow> getStat C c1;
                  if st \<noteq> int STAT_GRPS_FOLLOW then Some (False, c2)
                  else map_option (Pair True) (processGrps C c2) })"

text \<open>The descriptions; \<open>restOfLn\<close> has less than \<open>MAXCHAR\<close> characters as the line has.\<close>

definition put_dsc :: "('g, 'd) cenv \<Rightarrow> cstr \<Rightarrow> ('g, 'd) client \<Rightarrow> ('g, 'd) client option" where
  "put_dsc C line c =
     (case scan_s line of
        None \<Rightarrow> Some c
      | Some (name, _) \<Rightarrow>
          if Grp_exists (cglib C) name (sp_grp (cl_sp c))
          then on_grp (Grp_setDsc (Utl_restOfLn line 1) (cglib C) name) c else Some c)"

lemma put_dsc_in: "put_dsc C line c = Some c' \<Longrightarrow> cl_in c' = cl_in c"
  by (auto simp: put_dsc_def split: option.split_asm if_split_asm dest: on_grp_in)

function dsc_loop :: "('g, 'd) cenv \<Rightarrow> ('g, 'd) client \<Rightarrow> ('g, 'd) client option" where
  "dsc_loop C c =
     do { (t, c1) \<leftarrow> cl_getTxtLn C c;
          case t of
            Txt_line line \<Rightarrow> do { c2 \<leftarrow> put_dsc C line c1; dsc_loop C c2 }
          | _ \<Rightarrow> Some c1 }"
  by pat_completeness auto

termination
  by (relation "measure (\<lambda>(_, c). length (cl_in c))") (auto dest!: cl_getTxtLn_shorter put_dsc_in)

declare dsc_loop.simps [simp del]

definition Client_getDsc :: "('g, 'd) cenv \<Rightarrow> ('g, 'd) client \<Rightarrow> (bool \<times> ('g, 'd) client) option" where
  "Client_getDsc C c =
     (if \<not> connected c then Some (False, c)
      else let (ok, c1) = putCmd ''LIST NEWSGROUPS'' c in
        if \<not> ok then Some (False, c1)
        else do { (st, c2) \<leftarrow> getStat C c1;
                  if st \<noteq> int STAT_GRPS_FOLLOW then Some (False, c2)
                  else map_option (Pair True) (dsc_loop C c2) })"

text \<open>\<open>s\<close> is what \<open>strftime\<close> wrote for the last time; the century is cut off.\<close>

definition Client_getNewgrps :: "('g, 'd) cenv \<Rightarrow> cstr \<Rightarrow> ('g, 'd) client \<Rightarrow> (bool \<times> ('g, 'd) client) option" where
  "Client_getNewgrps C s c =
     (if \<not> connected c then Some (False, c)
      else let (ok, c1) = putCmd (''NEWGROUPS '' @ drop 2 s @ '' GMT'') c in
        if \<not> ok then Some (False, c1)
        else do { (st, c2) \<leftarrow> getStat C c1;
                  if st \<noteq> int STAT_NEW_GRP_FOLLOW then Some (False, c2)
                  else map_option (Pair True) (processGrps C c2) })"


subsection \<open>Which names are forbidden\<close>

lemma wmatch_Lits: "wmatch (map Lit s @ ts) tx \<longleftrightarrow> (\<exists>r. tx = s @ r \<and> wmatch ts r)"
proof (induction s arbitrary: tx)
  case (Cons c s)
  then show ?case by (cases tx) auto
qed simp

lemma wmatch_Star_split: "wmatch (Star # ts) tx \<longleftrightarrow> (\<exists>a b. tx = a @ b \<and> wmatch ts b)"
proof (induction tx)
  case (Cons c tx)
  have "(\<exists>a b. c # tx = a @ b \<and> wmatch ts b) \<longleftrightarrow> wmatch ts (c # tx) \<or> (\<exists>a b. tx = a @ b \<and> wmatch ts b)"
    by (auto simp: Cons_eq_append_conv)
  with Cons show ?case by simp
qed auto

lemma tl_dropWhile_shorter: "x \<in> set s \<Longrightarrow> length (tl (dropWhile (\<lambda>c. c \<noteq> x) s)) < length s"
  using length_dropWhile_le [of "\<lambda>c. c \<noteq> x" s] by (cases s) (auto simp: le_less_trans less_Suc_eq_le)

text \<open>The components of a name.\<close>

function comps :: "cstr \<Rightarrow> cstr list" where
  "comps s = (if CHR ''.'' \<in> set s
     then takeWhile (\<lambda>c. c \<noteq> CHR ''.'') s # comps (tl (dropWhile (\<lambda>c. c \<noteq> CHR ''.'') s)) else [s])"
  by pat_completeness auto

termination
  by (relation "measure length") (simp_all add: tl_dropWhile_shorter del: length_tl)

declare comps.simps [simp del]

lemma comps_one: "CHR ''.'' \<notin> set s \<Longrightarrow> comps s = [s]"
  by (simp add: comps.simps)

lemma comps_cons: "CHR ''.'' \<notin> set w \<Longrightarrow> comps (w @ CHR ''.'' # s) = w # comps s"
  by (subst comps.simps) (simp add: takeWhile_append dropWhile_append)

lemma comps_append: "comps (a @ CHR ''.'' # b) = comps a @ comps b"
proof (induction a rule: comps.induct)
  case (1 a)
  show ?case
  proof (cases "CHR ''.'' \<in> set a")
    case True
    then obtain w r where a: "a = w @ CHR ''.'' # r" "CHR ''.'' \<notin> set w" by (meson split_list_first)
    have "tl (dropWhile (\<lambda>c. c \<noteq> CHR ''.'') a) = r" using a by (simp add: dropWhile_append)
    with 1 [OF True] have "comps (r @ CHR ''.'' # b) = comps r @ comps b" by simp
    then show ?thesis using a comps_cons [OF a(2), of r] comps_cons [OF a(2), of "r @ CHR ''.'' # b"] by simp
  next
    case False
    then show ?thesis by (simp add: comps_one comps_cons)
  qed
qed

lemma in_comps:
  assumes "CHR ''.'' \<notin> set x"
  shows "x \<in> set (comps s) \<longleftrightarrow> s = x \<or> (\<exists>b. s = x @ CHR ''.'' # b) \<or> (\<exists>a. s = a @ CHR ''.'' # x)
    \<or> (\<exists>a b. s = a @ CHR ''.'' # x @ CHR ''.'' # b)" (is "?l \<longleftrightarrow> ?r s")
proof
  show "x \<in> set (comps s) \<Longrightarrow> ?r s"
  proof (induction s rule: comps.induct)
    case (1 s)
    show ?case
    proof (cases "CHR ''.'' \<in> set s")
      case True
      then obtain w r where s: "s = w @ CHR ''.'' # r" "CHR ''.'' \<notin> set w" by (meson split_list_first)
      have t: "tl (dropWhile (\<lambda>c. c \<noteq> CHR ''.'') s) = r" using s by (simp add: dropWhile_append)
      from 1(2) s have "x = w \<or> x \<in> set (comps r)" by (simp add: comps_cons)
      then show ?thesis
      proof
        assume "x \<in> set (comps r)"
        with 1(1) [OF True] t have "?r r" by simp
        then show ?thesis unfolding s(1) by (metis append.assoc append_Cons)
      qed (use s in blast)
    next
      case False
      with 1(2) show ?thesis by (simp add: comps_one)
    qed
  qed
  show "?r s \<Longrightarrow> x \<in> set (comps s)" using comps_one [OF assms] by (auto simp: comps_append)
qed

lemma match_patterns:
  "parse p = Some (map Lit s @ [Star]) \<Longrightarrow> Wld_match tx p = Some (\<exists>r. tx = s @ r)"
  "parse p = Some (Star # map Lit s) \<Longrightarrow> Wld_match tx p = Some (\<exists>a. tx = a @ s)"
  "parse p = Some (Star # map Lit s @ [Star]) \<Longrightarrow> Wld_match tx p = Some (\<exists>a r. tx = a @ s @ r)"
  using wmatch_Lits [of s "[]"] by (auto simp: Wld_match_parse wmatch_Lits wmatch_Star_split)

lemma forbidden_patterns:
  "Wld_match tx ''*.*'' = Some (\<exists>a r. tx = a @ ''.'' @ r)"
  "Wld_match tx ''control.*'' = Some (\<exists>r. tx = ''control.'' @ r)"
  "Wld_match tx ''to.*'' = Some (\<exists>r. tx = ''to.'' @ r)"
  "Wld_match tx ''*.all'' = Some (\<exists>a. tx = a @ ''.all'')"
  "Wld_match tx ''*.all.*'' = Some (\<exists>a r. tx = a @ ''.all.'' @ r)"
  "Wld_match tx ''all.*'' = Some (\<exists>r. tx = ''all.'' @ r)"
  "Wld_match tx ''*.ctl'' = Some (\<exists>a. tx = a @ ''.ctl'')"
  "Wld_match tx ''*.ctl.*'' = Some (\<exists>a r. tx = a @ ''.ctl.'' @ r)"
  "Wld_match tx ''ctl.*'' = Some (\<exists>r. tx = ''ctl.'' @ r)"
  by (rule match_patterns; simp)+

lemma comps_not_Nil: "comps s \<noteq> []"
  by (simp add: comps.simps [of s])

lemma comps_single: "length (comps s) = 1 \<longleftrightarrow> CHR ''.'' \<notin> set s"
  using comps_not_Nil by (simp add: comps.simps [of s])

lemma hd_comps:
  assumes "CHR ''.'' \<notin> set x" "CHR ''.'' \<in> set s"
  shows "hd (comps s) = x \<longleftrightarrow> (\<exists>r. s = x @ CHR ''.'' # r)"
proof -
  obtain w r where s: "s = w @ CHR ''.'' # r" "CHR ''.'' \<notin> set w" using assms(2) by (meson split_list_first)
  have "hd (comps s) = w" by (simp add: s comps_cons)
  then show ?thesis using s assms(1)
    by (auto simp: append_eq_append_conv2 Cons_eq_append_conv append_eq_Cons_conv)
qed

text \<open>C9. A group is forbidden exactly when its name is a single component, or its first component is \<open>control\<close>, \<open>to\<close>,
  \<open>all\<close> or \<open>ctl\<close>, or any component is \<open>all\<close> or \<open>ctl\<close>: what the comments in the table of patterns say.\<close>

theorem isForbiddenGroupName_components:
  "isForbiddenGroupName name =
     Some (length (comps name) = 1 \<or> hd (comps name) \<in> {''control'', ''to'', ''all'', ''ctl''}
           \<or> ''all'' \<in> set (comps name) \<or> ''ctl'' \<in> set (comps name))"
proof (cases "CHR ''.'' \<in> set name")
  case False
  then have "\<not> (\<exists>a r. name = a @ ''.'' @ r)" by auto
  then show ?thesis using False unfolding comps_single
    by (simp add: isForbiddenGroupName_def forbiddenGroupNames_def forbidden_patterns)
next
  case True
  then have "\<exists>a r. name = a @ ''.'' @ r" by (auto dest: split_list)
  moreover have "name \<noteq> ''all''" "name \<noteq> ''ctl''" using True by auto
  ultimately have "isForbiddenGroupName name = Some
    ((\<exists>r. name = ''control.'' @ r) \<or> (\<exists>r. name = ''to.'' @ r) \<or> (\<exists>a. name = a @ ''.all'') \<or> (\<exists>a r. name = a @ ''.all.'' @ r)
      \<or> (\<exists>r. name = ''all.'' @ r) \<or> (\<exists>a. name = a @ ''.ctl'') \<or> (\<exists>a r. name = a @ ''.ctl.'' @ r) \<or> (\<exists>r. name = ''ctl.'' @ r))"
    unfolding isForbiddenGroupName_def forbiddenGroupNames_def by (simp only: forbidden_loop.simps forbidden_patterns) auto
  then show ?thesis using True \<open>name \<noteq> ''all''\<close> \<open>name \<noteq> ''ctl''\<close>
    unfolding comps_single by (simp add: hd_comps in_comps del: Cons_eq_append_conv) blast
qed


subsection \<open>Authentication\<close>

definition send_ln :: "cstr \<Rightarrow> ofile \<Rightarrow> ofile" where
  "send_ln line f = snd (fprint (line @ [CR, LF]) f)"

definition sent :: "('g, 'd) client \<Rightarrow> ('g, 'd) client \<Rightarrow> cstr list \<Rightarrow> bool" where
  "sent c c' ls \<longleftrightarrow> cl_out c' = fold send_ln ls (cl_out c)"

lemma sent_Nil [simp]: "sent c c' [] \<longleftrightarrow> cl_out c' = cl_out c"
  by (simp add: sent_def)

text \<open>\<open>read_stat\<close> only reads; a status other than the fault has come over a connection.\<close>

lemma read_stat_reads:
  assumes "read_stat C c = (st, c1)"
  shows "cl_out c1 = cl_out c" "lastCmd c1 = lastCmd c" "cl_auth c1 = cl_auth c" "cl_serv c1 = cl_serv c" "cl_grp c1 = cl_grp c"
    "cl_sp c1 = cl_sp c" "cl_req c1 = cl_req c" "st \<noteq> int STAT_PROGRAM_FAULT \<Longrightarrow> connected c1 \<and> connected c"
  using assms by (auto simp: read_stat_def cl_getLn_def breakDown_def split: option.splits if_splits prod.splits)

lemma putCmd_sends:
  assumes "connected c"
  shows "cl_out (snd (putCmd t c)) = send_ln (str_of t) (cl_out c)" "cl_auth (snd (putCmd t c)) = cl_auth c"
    "cl_serv (snd (putCmd t c)) = cl_serv c" "cl_grp (snd (putCmd t c)) = cl_grp c" "cl_sp (snd (putCmd t c)) = cl_sp c"
    "cl_req (snd (putCmd t c)) = cl_req c" "lastCmd (snd (putCmd t c)) = str_of t" "cl_in (snd (putCmd t c)) = cl_in c"
  using assms by (auto simp: putCmd_def putCmdLn_def send_ln_def breakDown_def Let_def split: prod.splits)

text \<open>The two lines of an authentication.\<close>

definition user_line :: "('g, 'd) cenv \<Rightarrow> cstr \<Rightarrow> cstr" where
  "user_line C srv = str_of (''AUTHINFO USER '' @ fst (Cfg_authInfo (ce_cfg C) srv))"

definition pass_line :: "('g, 'd) cenv \<Rightarrow> cstr \<Rightarrow> cstr" where
  "pass_line C srv = str_of (''AUTHINFO PASS '' @ snd (Cfg_authInfo (ce_cfg C) srv))"

text \<open>The status that the server gives to the user name, and the one it gives to the password after that.\<close>

definition user_status :: "('g, 'd) cenv \<Rightarrow> ('g, 'd) client \<Rightarrow> int" where
  "user_status C c = fst (read_stat C (snd (putCmd (user_line C (cl_serv c)) c)))"

definition pass_status :: "('g, 'd) cenv \<Rightarrow> ('g, 'd) client \<Rightarrow> int" where
  "pass_status C c =
     (let c2 = snd (read_stat C (snd (putCmd (user_line C (cl_serv c)) c)))
      in fst (read_stat C (snd (putCmd (pass_line C (cl_serv c)) c2))))"

text \<open>The server asks for the password, and there is one to send.\<close>

definition pass_asked :: "('g, 'd) cenv \<Rightarrow> ('g, 'd) client \<Rightarrow> bool" where
  "pass_asked C c \<longleftrightarrow> user_status C c = int STAT_MORE_AUTH_REQUIRED \<and> snd (Cfg_authInfo (ce_cfg C) (cl_serv c)) \<noteq> []"

text \<open>The server has answered with 281: to the user name, or to the password it asked for.\<close>

definition auth_accepted :: "('g, 'd) cenv \<Rightarrow> ('g, 'd) client \<Rightarrow> bool" where
  "auth_accepted C c \<longleftrightarrow> user_status C c = int STAT_AUTH_ACCEPTED \<or> pass_asked C c \<and> pass_status C c = int STAT_AUTH_ACCEPTED"

lemma str_of_str_of [simp]: "str_of (str_of s) = str_of s"
  by (simp add: str_of_def)

lemma performAuth_sends:
  assumes "performAuth C c = (ok, c')" "connected c"
  shows "cl_auth c' = cl_auth c \<and> cl_serv c' = cl_serv c \<and> (ok \<longrightarrow> connected c')
    \<and> cl_sp c' = cl_sp c \<and> cl_req c' = cl_req c \<and> cl_grp c' = cl_grp c
    \<and> (if fst (Cfg_authInfo (ce_cfg C) (cl_serv c)) = [] then sent c c' [] \<and> \<not> ok
       else (ok \<longleftrightarrow> auth_accepted C c)
         \<and> sent c c' (user_line C (cl_serv c) # (if pass_asked C c then [pass_line C (cl_serv c)] else [])))"
proof -
  obtain user pass where up: "Cfg_authInfo (ce_cfg C) (cl_serv c) = (user, pass)" by fastforce
  show ?thesis
  proof (cases "user = []")
    case True
    with assms(1) up show ?thesis by (auto simp: performAuth_def)
  next
    case False
    define c1 where "c1 = snd (putCmd (''AUTHINFO USER '' @ user) c)"
    note p1 = putCmd_sends [OF assms(2), of "''AUTHINFO USER '' @ user", folded c1_def]
    obtain st c2 where r1: "read_stat C c1 = (st, c2)" by fastforce
    note q1 = read_stat_reads [OF r1]
    have c1: "snd (putCmd (user_line C (cl_serv c)) c) = c1" by (simp add: user_line_def up c1_def putCmd_def)
    have us: "user_status C c = st" using r1 c1 by (simp add: user_status_def)
    have asked: "pass_asked C c \<longleftrightarrow> st = int STAT_MORE_AUTH_REQUIRED \<and> pass \<noteq> []" by (simp add: pass_asked_def us up)
    have eq1: "performAuth C c =
      (if st = int STAT_AUTH_ACCEPTED then (True, c2)
       else if st \<noteq> int STAT_MORE_AUTH_REQUIRED then (False, c2) else if pass = [] then (False, c2)
       else let (_, c3) = putCmd (''AUTHINFO PASS '' @ pass) c2; (st, c4) = read_stat C c3 in (st = int STAT_AUTH_ACCEPTED, c4))"
      using False up r1 by (simp add: performAuth_def c1_def split_beta)
    show ?thesis
    proof (cases "pass_asked C c")
      case True
      then have t: "st = int STAT_MORE_AUTH_REQUIRED" "pass \<noteq> []" using asked by auto
      then have cn: "connected c2" using q1(8) by (simp add: stat_codes)
      define c3 where "c3 = snd (putCmd (''AUTHINFO PASS '' @ pass) c2)"
      note p2 = putCmd_sends [OF cn, of "''AUTHINFO PASS '' @ pass", folded c3_def]
      obtain st2 c4 where r2: "read_stat C c3 = (st2, c4)" by fastforce
      note q2 = read_stat_reads [OF r2]
      have ps: "pass_status C c = st2"
        using r1 r2 c1 by (simp add: pass_status_def pass_line_def up c3_def putCmd_def)
      from eq1 t r2 assms(1) have e: "c' = c4" "ok = (st2 = int STAT_AUTH_ACCEPTED)"
        by (auto simp: c3_def stat_codes split_beta)
      have "auth_accepted C c \<longleftrightarrow> st2 = int STAT_AUTH_ACCEPTED" using True t(1) by (simp add: auth_accepted_def us ps stat_codes)
      then show ?thesis using False True p1 q1 p2 q2 e by (auto simp: sent_def user_line_def pass_line_def up stat_codes)
    next
      case np: False
      with eq1 assms(1) have e: "c' = c2" "ok \<longleftrightarrow> st = int STAT_AUTH_ACCEPTED" by (auto simp: asked stat_codes split: if_splits)
      have "auth_accepted C c \<longleftrightarrow> st = int STAT_AUTH_ACCEPTED" using np by (simp add: auth_accepted_def us)
      then show ?thesis using False np p1 q1 e by (auto simp: sent_def user_line_def up stat_codes)
    qed
  qed
qed


lemma sent_more: "sent c c1 ls \<Longrightarrow> sent c1 c2 ms \<Longrightarrow> sent c c2 (ls @ ms)"
  by (simp add: sent_def)

text \<open>C11. Reading a status sends nothing unless the server answers 480 on a connection that has not tried to
  authenticate and a user name is configured.  Then it sends the name of the user; the password exactly when the server answers
  the name with 381 and one is configured; and the command again exactly when the server has answered 281 to the name or to
  the password.  Otherwise the 480 is the result.  No further status on the connection can start this anew, and the data
  bases and the requests are left alone.\<close>

theorem getStat_authenticates:
  assumes "getStat C c = Some (r, c')"
  defines "a \<equiv> snd (read_stat C c)\<lparr>cl_auth := True\<rparr>"
  shows "(if fst (read_stat C c) = int STAT_AUTH_REQUIRED \<and> \<not> cl_auth c then
       cl_auth c' \<and>
       (if fst (Cfg_authInfo (ce_cfg C) (cl_serv c)) = [] then sent c c' [] \<and> r = int STAT_AUTH_REQUIRED
        else \<exists>cmd. (auth_accepted C a \<longrightarrow> as_format (lastCmd c) = Some cmd)
          \<and> (\<not> auth_accepted C a \<longrightarrow> r = int STAT_AUTH_REQUIRED)
          \<and> sent c c' ([user_line C (cl_serv c)] @ (if pass_asked C a then [pass_line C (cl_serv c)] else [])
                      @ (if auth_accepted C a then [str_of cmd] else [])))
     else sent c c' [] \<and> r = fst (read_stat C c) \<and> cl_auth c' = cl_auth c)
    \<and> cl_sp c' = cl_sp c \<and> cl_req c' = cl_req c \<and> cl_serv c' = cl_serv c"
proof -
  obtain st c1 where r1: "read_stat C c = (st, c1)" by fastforce
  note q1 = read_stat_reads [OF r1]
  have a: "a = c1\<lparr>cl_auth := True\<rparr>" by (simp add: a_def r1)
  show ?thesis
  proof (cases "st = int STAT_AUTH_REQUIRED \<and> \<not> cl_auth c")
    case False
    with assms(1) r1 q1 have "c' = c1" "r = st" by (auto simp: getStat_def)
    with False q1 r1 show ?thesis by auto
  next
    case True
    have cn: "connected a" using True q1(8) by (simp add: a stat_codes)
    obtain ok c2 where pa: "performAuth C a = (ok, c2)" by fastforce
    note ls = performAuth_sends [OF pa cn]
    have k: "cl_serv a = cl_serv c" "cl_sp a = cl_sp c" "cl_req a = cl_req c" "cl_out a = cl_out c" "cl_auth a"
      using q1 by (simp_all add: a)
    from assms(1) r1 True q1(2,3) have e: "if ok then as_format (lastCmd c) \<noteq> None
        \<and> read_stat C (snd (putCmd (the (as_format (lastCmd c))) c2)) = (r, c') else c' = c2 \<and> r = int STAT_AUTH_REQUIRED"
      using pa by (auto simp: a getStat_def Let_def split: if_splits bind_splits)
    show ?thesis
    proof (cases ok)
      case False
      with e ls k True r1 show ?thesis by (auto simp: sent_def)
    next
      case o: True
      then obtain cmd where cmd: "as_format (lastCmd c) = Some cmd" "read_stat C (snd (putCmd cmd c2)) = (r, c')"
        using e by auto
      have c2: "connected c2" using ls o by simp
      note p2 = putCmd_sends [OF c2, of cmd] and q2 = read_stat_reads [OF cmd(2)]
      from p2 q2 ls k o True r1 cmd(1) show ?thesis by (auto simp: sent_def split: if_splits)
    qed
  qed
qed

text \<open>A command with a percent sign, for example for a message ID, is repeated as a format: the arguments
  of its conversions are missing.\<close>

lemma getStat_percent:
  assumes "read_stat C c = (int STAT_AUTH_REQUIRED, c1)" "\<not> cl_auth c" "performAuth C (c1\<lparr>cl_auth := True\<rparr>) = (True, c2)"
    "as_format (lastCmd c) = None"
  shows "getStat C c = None"
  using assms read_stat_reads(2,3) [OF assms(1)] by (simp add: getStat_def Let_def)


definition client_env :: "(cstr \<Rightarrow> byte list option, cstr \<Rightarrow> byte list option) cenv" where
  "client_env = \<lparr>ce_env = post_env,
     ce_cfg = (config_init ''/var'' ''1'')\<lparr>serv := [\<lparr>sv_name = ''news'', sv_user = ''me'', sv_pass = ''secret''\<rparr>]\<rparr>,
     ce_gen = sample_gen, ce_sig = True, ce_hosts = (\<lambda>_ _. None)\<rparr>"

definition client_at :: "cstr \<Rightarrow> cstr \<Rightarrow> (cstr \<Rightarrow> byte list option, cstr \<Rightarrow> byte list option) client" where
  "client_at cmd tx = (client_init post_spool no_requests)\<lparr>cl_in := tx, cl_out := \<lparr>written = [], room = 1000\<rparr>,
     lastCmd := cmd, connected := True, cl_serv := ''news'', cl_grp := ''ab''\<rparr>"

definition auth_replies :: cstr where
  "auth_replies = ''480 who'' @ [CR, LF] @ ''381 and'' @ [CR, LF] @ ''281 ok'' @ [CR, LF] @ ''211 0 0 0 ab'' @ [CR, LF]"

lemma auth_run:
  "map_option (\<lambda>(r, c). (r, written (cl_out c))) (getStat client_env (client_at ''GROUP ab'' auth_replies))
     = Some (211, ''AUTHINFO USER me'' @ [CR, LF] @ ''AUTHINFO PASS secret'' @ [CR, LF] @ ''GROUP ab'' @ [CR, LF])"
  by code_simp

theorem getStat_authenticates_witness:
  "\<exists>c'. getStat client_env (client_at ''GROUP ab'' auth_replies) = Some (211, c') \<and> cl_auth c'
     \<and> sent (client_at ''GROUP ab'' auth_replies) c' [''AUTHINFO USER me'', ''AUTHINFO PASS secret'', ''GROUP ab'']"
proof -
  let ?c = "client_at ''GROUP ab'' auth_replies"
  let ?a = "snd (read_stat client_env ?c)\<lparr>cl_auth := True\<rparr>"
  from auth_run obtain c' where g: "getStat client_env ?c = Some (211, c')" by (auto split: option.splits)
  have v: "fst (read_stat client_env ?c) = 480 \<and> \<not> cl_auth ?c \<and> cl_serv ?c = ''news'' \<and> pass_asked client_env ?a
      \<and> auth_accepted client_env ?a \<and> as_format (lastCmd ?c) = Some ''GROUP ab''
      \<and> user_line client_env ''news'' = ''AUTHINFO USER me'' \<and> pass_line client_env ''news'' = ''AUTHINFO PASS secret''
      \<and> fst (Cfg_authInfo (ce_cfg client_env) ''news'') = ''me'' \<and> str_of ''GROUP ab'' = ''GROUP ab''"
    by code_simp
  from getStat_authenticates [OF g] v show ?thesis using g by (auto simp: stat_codes)
qed

end
