(* ===== verification/ClientArt.thy ===== *)
theory ClientArt
  imports Client Fetchlist Itemlist Dynstr
begin

text \<open>
  The NNTP client, second part of \<^verbatim>\<open>noffle-1.0.1/src/client.c\<close>: reading overviews, articles, the
  selected group and posting.

  The buffers of \<open>Client_getOver\<close> are cells: a field that ends with its line is not
  terminated, so that what was in the buffer before follows it.
\<close>

subsection \<open>Overview lines\<close>

record ovbuf =
  b_subj :: cells
  b_from :: cells
  b_date :: cells
  b_msgId :: cells
  b_ref :: cells

definition fresh_bufs :: ovbuf where
  "fresh_bufs = \<lparr>b_subj = fresh, b_from = fresh, b_date = fresh, b_msgId = fresh, b_ref = fresh\<rparr>"

definition cl_readField :: "cells \<Rightarrow> cstr option \<Rightarrow> (cells \<times> cstr option) option" where
  "cl_readField result p =
     do { s \<leftarrow> p; let (cs, p') = readField_loop [] s; Some (overlay cs (overlay [Some NUL] result), p') }"

text \<open>The inner option is the result \<open>FALSE\<close>; otherwise the number, the bytes and the lines.\<close>

definition parseOvLn :: "cstr \<Rightarrow> ovbuf \<Rightarrow> (ovbuf \<times> (int \<times> u32 \<times> u32) option) option" where
  "parseOvLn line b =
     do { (t, p) \<leftarrow> cl_readField fresh (Some line);
          ts \<leftarrow> cells_str t;
          case scan_d ts of
            None \<Rightarrow> Some (b, None)
          | Some (n, _) \<Rightarrow>
              do { numb \<leftarrow> as_int n;
                   (subj, p) \<leftarrow> cl_readField (b_subj b) p;
                   (frm, p) \<leftarrow> cl_readField (b_from b) p;
                   (date, p) \<leftarrow> cl_readField (b_date b) p;
                   (msgId, p) \<leftarrow> cl_readField (b_msgId b) p;
                   (ref, p) \<leftarrow> cl_readField (b_ref b) p;
                   (t, p) \<leftarrow> cl_readField t p;
                   ts \<leftarrow> cells_str t;
                   let b' = \<lparr>b_subj = subj, b_from = frm, b_date = date, b_msgId = msgId, b_ref = ref\<rparr>;
                   case scan_d ts of
                     None \<Rightarrow> Some (b', Some (numb, 0, 0))
                   | Some (bt, _) \<Rightarrow>
                       do { bytes \<leftarrow> as_int32 bt;
                            (t, p) \<leftarrow> cl_readField t p;
                            ts \<leftarrow> cells_str t;
                            case scan_d ts of
                              None \<Rightarrow> Some (b', Some (numb, bytes, 0))
                            | Some (l, _) \<Rightarrow> do { lns \<leftarrow> as_int32 l; Some (b', Some (numb, bytes, lns)) } } } }"

text \<open>The next group and number of an Xref and where it goes on.\<close>

definition nextXref :: "cstr \<Rightarrow> (cstr \<times> int \<times> cstr) option option" where
  "nextXref pXref =
     (let src = dropWhile cisspace pXref; s = takeWhile (\<lambda>c. \<not> cisspace c) src; rest = dropWhile (\<lambda>c. \<not> cisspace c) src in
      if length s \<ge> MAXCHAR then None
      else if s = [] then Some None
      else (case cstrstr s '':'' of
              None \<Rightarrow> Some None
            | Some pColon \<Rightarrow>
                (case scan_d (tl pColon) of
                   None \<Rightarrow> Some None
                 | Some (numb, _) \<Rightarrow>
                     do { grp \<leftarrow> Utl_cpyStrN s (int (length s - length pColon)); Some (Some (grp, numb, rest)) })))"

subsection \<open>Marking and preparing\<close>

definition on_db :: "('d database \<Rightarrow> ('a \<times> 'd database) option) \<Rightarrow> ('g, 'd) client \<Rightarrow> ('a \<times> ('g, 'd) client) option" where
  "on_db f c = do { (r, d) \<leftarrow> f (sp_db (cl_sp c)); Some (r, c\<lparr>cl_sp := (cl_sp c)\<lparr>sp_db := d\<rparr>\<rparr>) }"

definition set_db :: "('d database \<Rightarrow> 'd database option) \<Rightarrow> ('g, 'd) client \<Rightarrow> ('g, 'd) client option" where
  "set_db f c = do { d \<leftarrow> f (sp_db (cl_sp c)); Some (c\<lparr>cl_sp := (cl_sp c)\<lparr>sp_db := d\<rparr>\<rparr>) }"

definition cl_contains :: "('g, 'd) cenv \<Rightarrow> cstr \<Rightarrow> ('g, 'd) client \<Rightarrow> bool" where
  "cl_contains C msgId c = Db_contains (cdlib C) msgId (sp_db (cl_sp c))"

text \<open>Is the entry interesting and was it read in the last days?  The double is exact.\<close>

definition follows :: "('g, 'd) cenv \<Rightarrow> cstr \<Rightarrow> ('g, 'd) client \<Rightarrow> (bool \<times> ('g, 'd) client) option" where
  "follows C msgId c =
     do { (status, c1) \<leftarrow> on_db (Db_status (cdlib C) msgId) c;
          (lastAccess, c2) \<leftarrow> on_db (Db_lastAccess (cdlib C) msgId) c1;
          Some (status AND DB_INTERESTING \<noteq> 0
                \<and> sint (clock (ce_env C)) - sint lastAccess \<le> threadFollowTime (ce_cfg C) * 86400, c2) }"

text \<open>The loop over the references, in at most as many turns as there are characters.\<close>

fun mark_loop :: "nat \<Rightarrow> ('g, 'd) cenv \<Rightarrow> cstr option \<Rightarrow> ItemList \<Rightarrow> ('g, 'd) client \<Rightarrow> (bool \<times> ('g, 'd) client) option" where
  "mark_loop n C None itl c = Some (False, c)"
| "mark_loop 0 C (Some msgId) itl c = None"
| "mark_loop (Suc n) C (Some msgId) itl c =
     do { (r, c1) \<leftarrow> (if cl_contains C msgId c then follows C msgId c else Some (False, c));
          if r then Some (True, c1)
          else do { (msgId', itl') \<leftarrow> Itl_next itl; mark_loop n C msgId' itl' c1 } }"

definition needsMark :: "('g, 'd) cenv \<Rightarrow> cstr \<Rightarrow> ('g, 'd) client \<Rightarrow> (bool \<times> ('g, 'd) client) option" where
  "needsMark C ref c =
     do { (msgId, itl) \<leftarrow> Itl_first (new_Itl ref ('' '' @ [TAB])); mark_loop (length ref) C msgId itl c }"

definition prepareEntry :: "('g, 'd) cenv \<Rightarrow> Over \<Rightarrow> ('g, 'd) client \<Rightarrow> ('g, 'd) client option" where
  "prepareEntry C ov c =
     (let msgId = ov_msgId ov; here = cl_grp c @ '':'' @ dec_int (ov_numb ov) in
      if Pseudo_isGeneralInfo msgId then Some c
      else if cl_contains C msgId c then
        do { (xref, c1) \<leftarrow> on_db (Db_xref (cdlib C) msgId) c;
             x \<leftarrow> nextXref xref;
             case x of
               None \<Rightarrow> Some c1
             | Some (g, _, _) \<Rightarrow>
                 do { (srv, c2) \<leftarrow> cl_Grp_server C g c1;
                      if Cfg_servIsPreferential (ce_cfg C) (cl_serv c2) srv
                      then set_db (Db_setXref (str_of (here @ '' '' @ xref)) (cdlib C) msgId) c2
                      else set_db (Db_setXref (str_of (xref @ '' '' @ here)) (cdlib C) msgId) c2 } }
      else map_option snd (on_db (Db_prepareEntry ov (cl_grp c) (ov_numb ov) (clock (ce_env C)) (cdlib C)) c))"

text \<open>\<open>Cont_app\<close> numbers the overview.\<close>

definition cl_Cont_app :: "Over \<Rightarrow> ('g, 'd) client \<Rightarrow> Over \<times> ('g, 'd) client" where
  "cl_Cont_app ov c =
     (let k = sp_cont (cl_sp c)
      in (Ov_setNumb ov (vecFirst k + size_of k), c\<lparr>cl_sp := (cl_sp c)\<lparr>sp_cont := Cont_app k (Some ov)\<rparr>\<rparr>))"

definition cl_Req_add :: "cstr \<Rightarrow> ('g, 'd) client \<Rightarrow> ('g, 'd) client option" where
  "cl_Req_add msgId c = do { (_, r) \<leftarrow> Req_add (cl_serv c) msgId (cl_req c); Some (c\<lparr>cl_req := r\<rparr>) }"

text \<open>The body of the loop of \<open>Client_getOver\<close>; \<open>rmtNumb\<close> is not set before the first good line.\<close>

definition over_turn :: "('g, 'd) cenv \<Rightarrow> FetchMode \<Rightarrow> cstr \<Rightarrow> int option \<Rightarrow> ovbuf \<Rightarrow> ('g, 'd) client \<Rightarrow> (int option \<times> ovbuf \<times> ('g, 'd) client) option" where
  "over_turn C mode line rmtNumb b c =
     do { (b1, r) \<leftarrow> parseOvLn line b;
          (rmtNumb1, c1) \<leftarrow>
            (case r of
               None \<Rightarrow> Some (rmtNumb, c)
             | Some (numb, bytes, lns) \<Rightarrow>
                 do { subj \<leftarrow> cells_str (b_subj b1); frm \<leftarrow> cells_str (b_from b1); date \<leftarrow> cells_str (b_date b1);
                      msgId \<leftarrow> cells_str (b_msgId b1); ref \<leftarrow> cells_str (b_ref b1);
                      let (ov, c1) = cl_Cont_app (new_Over subj frm date msgId ref bytes lns) c;
                      c2 \<leftarrow> prepareEntry C ov c1;
                      (m, c3) \<leftarrow> (if mode = FULL then Some (True, c2)
                                   else if mode = THREAD then needsMark C ref c2 else Some (False, c2));
                      c4 \<leftarrow> (if m then cl_Req_add msgId c3 else Some c3);
                      Some (Some numb, c4) });
          n \<leftarrow> rmtNumb1;
          nxt \<leftarrow> as_int (n + 1);
          c2 \<leftarrow> on_grp (Grp_setRmtNext nxt (cglib C) (cl_grp c1)) c1;
          Some (rmtNumb1, b1, c2) }"
text \<open>What these operations leave alone: the connection and its texts.\<close>

definition same_link :: "('g, 'd) client \<Rightarrow> ('g, 'd) client \<Rightarrow> bool" where
  "same_link c c' \<longleftrightarrow> cl_in c' = cl_in c \<and> cl_out c' = cl_out c \<and> connected c' = connected c \<and> cl_auth c' = cl_auth c
     \<and> cl_serv c' = cl_serv c \<and> cl_grp c' = cl_grp c \<and> lastCmd c' = lastCmd c \<and> lastStat c' = lastStat c"

lemma same_link_refl [simp]: "same_link c c"
  by (simp add: same_link_def)

lemma same_link_trans: "same_link a b \<Longrightarrow> same_link b c \<Longrightarrow> same_link a c"
  by (simp add: same_link_def)

lemma link_on_grp: "on_grp f c = Some c' \<Longrightarrow> same_link c c'"
  by (auto simp: on_grp_def same_link_def split: bind_splits)

lemma link_Grp_server: "cl_Grp_server C n c = Some (s, c') \<Longrightarrow> same_link c c'"
  by (auto simp: cl_Grp_server_def same_link_def split: bind_splits)

lemma link_on_db: "on_db f c = Some (r, c') \<Longrightarrow> same_link c c'"
  by (auto simp: on_db_def same_link_def split: bind_splits)

lemma link_set_db: "set_db f c = Some c' \<Longrightarrow> same_link c c'"
  by (auto simp: set_db_def same_link_def split: bind_splits)

lemma link_Req_add: "cl_Req_add m c = Some c' \<Longrightarrow> same_link c c'"
  by (auto simp: cl_Req_add_def same_link_def split: bind_splits)

lemma link_Cont_app: "same_link c (snd (cl_Cont_app ov c))"
  by (simp add: cl_Cont_app_def same_link_def Let_def)

lemma link_follows: "follows C m c = Some (r, c') \<Longrightarrow> same_link c c'"
  by (auto simp: follows_def split: bind_splits dest!: link_on_db intro: same_link_trans)

lemma link_mark_loop: "mark_loop n C m itl c = Some (r, c') \<Longrightarrow> same_link c c'"
proof (induction n C m itl c rule: mark_loop.induct)
  case (3 n C m itl c)
  from 3(2) obtain r1 c1 where c1: "(if cl_contains C m c then follows C m c else Some (False, c)) = Some (r1, c1)"
    "(if r1 then Some (True, c1) else do { (m', itl') \<leftarrow> Itl_next itl; mark_loop n C m' itl' c1 }) = Some (r, c')"
    by (auto split: bind_splits)
  have l: "same_link c c1" using c1(1) by (auto dest: link_follows split: if_splits)
  show ?case
  proof (cases r1)
    case False
    with c1(2) obtain m' itl' where m: "Itl_next itl = Some (m', itl')" "mark_loop n C m' itl' c1 = Some (r, c')"
      by (auto split: bind_splits)
    from 3(1) [OF c1(1) refl False m(1) refl m(2)] l show ?thesis by (blast intro: same_link_trans)
  qed (use c1(2) l in simp)
qed simp_all

lemma link_needsMark: "needsMark C ref c = Some (r, c') \<Longrightarrow> same_link c c'"
  by (auto simp: needsMark_def split: bind_splits dest: link_mark_loop)

lemma link_prepareEntry: "prepareEntry C ov c = Some c' \<Longrightarrow> same_link c c'"
  by (auto simp: prepareEntry_def Let_def split: bind_splits if_split_asm option.split_asm
      dest!: link_on_db link_set_db link_Grp_server simp: same_link_def)

lemma link_over_turn: "over_turn C mode line r b c = Some (r', b', c') \<Longrightarrow> same_link c c'"
proof -
  assume a: "over_turn C mode line r b c = Some (r', b', c')"
  have l: "same_link c c1" if "cl_Cont_app ov c = (ov', c1)" for ov ov' c1 using link_Cont_app [of c ov] that by simp
  from a show ?thesis
    unfolding over_turn_def
    by (auto split: bind_splits if_split_asm option.split_asm prod.split_asm
      dest!: link_prepareEntry link_needsMark link_Req_add link_on_grp l simp: same_link_def)
qed

function getOver_loop :: "('g, 'd) cenv \<Rightarrow> FetchMode \<Rightarrow> int option \<Rightarrow> ovbuf \<Rightarrow> ('g, 'd) client \<Rightarrow> (bool \<times> ('g, 'd) client) option" where
  "getOver_loop C mode rmtNumb b c =
     do { (t, c1) \<leftarrow> cl_getTxtLn C c;
          case t of
            Txt_end \<Rightarrow> Some (False, c1)
          | Txt_err \<Rightarrow> Some (True, c1)
          | Txt_line line \<Rightarrow> do { (r, b1, c2) \<leftarrow> over_turn C mode line rmtNumb b c1; getOver_loop C mode r b1 c2 } }"
  by pat_completeness auto

termination
  by (relation "measure (\<lambda>(_, _, _, _, c). length (cl_in c))")
    (auto dest!: cl_getTxtLn_shorter link_over_turn simp: same_link_def)

declare getOver_loop.simps [simp del]

text \<open>The result is whether an error ended the loop, unlike the results of the other functions.\<close>

definition Client_getOver :: "('g, 'd) cenv \<Rightarrow> int \<Rightarrow> int \<Rightarrow> FetchMode \<Rightarrow> ('g, 'd) client \<Rightarrow> (bool \<times> ('g, 'd) client) option" where
  "Client_getOver C rmt_first rmt_last mode c =
     (if cl_grp c = [] then None
      else if \<not> connected c then Some (False, c)
      else let (ok, c1) = putCmd (''XOVER '' @ fmt_lu rmt_first @ ''-'' @ fmt_lu rmt_last) c in
        if \<not> ok then Some (False, c1)
        else do { (st, c2) \<leftarrow> getStat C c1;
                  if st \<noteq> int STAT_OVERS_FOLLOW then Some (False, c2)
                  else getOver_loop C mode None fresh_bufs c2 })"

subsection \<open>Articles\<close>

definition retrievingFailed :: "('g, 'd) cenv \<Rightarrow> cstr \<Rightarrow> cstr \<Rightarrow> ('g, 'd) client \<Rightarrow> ('g, 'd) client option" where
  "retrievingFailed C msgId reason c =
     do { (status, c1) \<leftarrow> on_db (Db_status (cdlib C) msgId) c;
          c2 \<leftarrow> set_db (Pseudo_retrievingFailed (ce_env C) msgId reason) c1;
          set_db (Db_setStatus (status OR DB_RETRIEVING_FAILED) (cdlib C) msgId) c2 }"

text \<open>The text of an article: whether an error ended it, and the lines with newlines.\<close>

function art_loop :: "('g, 'd) cenv \<Rightarrow> cstr \<Rightarrow> ('g, 'd) client \<Rightarrow> (bool \<times> cstr \<times> ('g, 'd) client) option" where
  "art_loop C s c =
     do { (t, c1) \<leftarrow> cl_getTxtLn C c;
          case t of
            Txt_end \<Rightarrow> Some (False, s, c1)
          | Txt_err \<Rightarrow> Some (True, s, c1)
          | Txt_line line \<Rightarrow> art_loop C (s @ line @ [LF]) c1 }"
  by pat_completeness auto

termination
  by (relation "measure (\<lambda>(_, _, c). length (cl_in c))") (auto dest!: cl_getTxtLn_shorter)

declare art_loop.simps [simp del]

definition retrieveAndStoreArt :: "('g, 'd) cenv \<Rightarrow> cstr \<Rightarrow> ('g, 'd) client \<Rightarrow> (bool \<times> ('g, 'd) client) option" where
  "retrieveAndStoreArt C msgId c =
     do { (err, s, c1) \<leftarrow> art_loop C [] c;
          c2 \<leftarrow> (if \<not> err
                 then map_option snd (on_db (Db_storeArt (before (ce_env C)) (clock (ce_env C)) (cdlib C) msgId s) c1)
                 else retrievingFailed C msgId ''Connection broke down'' c1);
          Some (\<not> err, c2) }"

definition Client_retrieveArt :: "('g, 'd) cenv \<Rightarrow> cstr \<Rightarrow> ('g, 'd) client \<Rightarrow> ('g, 'd) client option" where
  "Client_retrieveArt C msgId c =
     (if \<not> connected c then Some c
      else if \<not> cl_contains C msgId c then Some c
      else do { (status, c1) \<leftarrow> on_db (Db_status (cdlib C) msgId) c;
                if status AND DB_NOT_DOWNLOADED = 0 then Some c1
                else let (ok, c2) = putCmd (''ARTICLE '' @ msgId) c1 in
                  if \<not> ok then retrievingFailed C msgId ''Connection broke down'' c2
                  else do { (st, c3) \<leftarrow> getStat C c2;
                            if st \<noteq> int STAT_ART_FOLLOWS then retrievingFailed C msgId (lastStat c3) c3
                            else map_option snd (retrieveAndStoreArt C msgId c3) } })"


text \<open>The first loop of \<open>Client_retrieveArtList\<close>: the articles whose command was sent; the flag is the early return.\<close>

function ask_loop :: "('g, 'd) cenv \<Rightarrow> cstr \<Rightarrow> cstr \<Rightarrow> ('g, 'd) client \<Rightarrow> (bool \<times> cstr \<times> ('g, 'd) client) option" where
  "ask_loop C p s c =
     (case Utl_getLn p of
        No_line \<Rightarrow> Some (True, s, c)
      | Past_end msgId \<Rightarrow> None
      | Got_line msgId p' \<Rightarrow>
          if \<not> cl_contains C msgId c then ask_loop C p' s c
          else do { (status, c1) \<leftarrow> on_db (Db_status (cdlib C) msgId) c;
                    if status AND DB_NOT_DOWNLOADED = 0 then ask_loop C p' s c1
                    else let (ok, c2) = putCmdNoFlush (''ARTICLE '' @ msgId) c1 in
                      if \<not> ok then map_option (\<lambda>c3. (False, s, c3)) (retrievingFailed C msgId ''Connection broke down'' c2)
                      else ask_loop C p' (s @ msgId @ [LF]) c2 })"
  by pat_completeness auto

termination
  by (relation "measure (\<lambda>(_, p, _). length p)") (auto simp: Utl_getLn_def dest: getLn_loop_shorter)

declare ask_loop.simps [simp del]

function receive_loop :: "('g, 'd) cenv \<Rightarrow> cstr \<Rightarrow> ('g, 'd) client \<Rightarrow> ('g, 'd) client option" where
  "receive_loop C p c =
     (case Utl_getLn p of
        No_line \<Rightarrow> Some c
      | Past_end msgId \<Rightarrow> None
      | Got_line msgId p' \<Rightarrow>
          do { (st, c1) \<leftarrow> getStat C c;
               if st \<noteq> int STAT_ART_FOLLOWS
               then do { c2 \<leftarrow> retrievingFailed C msgId (lastStat c1) c1; receive_loop C p' c2 }
               else do { (ok, c2) \<leftarrow> retrieveAndStoreArt C msgId c1;
                         if \<not> ok then Some c2 else receive_loop C p' c2 } })"
  by pat_completeness auto

termination
  by (relation "measure (\<lambda>(_, p, _). length p)") (auto simp: Utl_getLn_def dest: getLn_loop_shorter)

declare receive_loop.simps [simp del]

definition Client_retrieveArtList :: "('g, 'd) cenv \<Rightarrow> cstr \<Rightarrow> ('g, 'd) client \<Rightarrow> ('g, 'd) client option" where
  "Client_retrieveArtList C lst c =
     (if \<not> connected c then Some c
      else do { (ok, s, c1) \<leftarrow> ask_loop C lst [] c; if ok then receive_loop C s c1 else Some c1 })"

subsection \<open>Groups and posting\<close>

definition Client_changeToGrp :: "('g, 'd) cenv \<Rightarrow> cstr \<Rightarrow> ('g, 'd) client \<Rightarrow> (bool \<times> ('g, 'd) client) option" where
  "Client_changeToGrp C name c =
     (if \<not> connected c then Some (False, c)
      else if \<not> Grp_exists (cglib C) name (sp_grp (cl_sp c)) then Some (False, c)
      else let (ok, c1) = putCmd (''GROUP '' @ name) c in
        if \<not> ok then Some (False, c1)
        else do { (st, c2) \<leftarrow> getStat C c1;
                  if st \<noteq> int STAT_GRP_SELECTED then Some (False, c2)
                  else (case do { (_, r) \<leftarrow> scan_d (lastStat c2); (_, r) \<leftarrow> scan_d r; (f, r) \<leftarrow> scan_d r; (l, _) \<leftarrow> scan_d r; Some (f, l) } of
                          None \<Rightarrow> Some (False, c2)
                        | Some (f, l) \<Rightarrow>
                            do { n \<leftarrow> Utl_cpyStr name; f' \<leftarrow> as_int f; l' \<leftarrow> as_int l;
                                 Some (True, c2\<lparr>cl_grp := n, rmtFirst := f', rmtLast := l'\<rparr>) }) })"

definition Client_rmtFirstLast :: "('g, 'd) client \<Rightarrow> int \<times> int" where
  "Client_rmtFirstLast c = (rmtFirst c, rmtLast c)"

definition Client_postArt :: "('g, 'd) cenv \<Rightarrow> cstr \<Rightarrow> ('g, 'd) client \<Rightarrow> (bool \<times> ('g, 'd) client) option" where
  "Client_postArt C artTxt c =
     (if \<not> connected c then Some (False, c)
      else let (ok, c1) = putCmd ''POST'' c in
        if \<not> ok then Some (False, c1)
        else do { (st, c2) \<leftarrow> getStat C c1;
                  if st \<noteq> int STAT_SEND_ART then Some (False, c2)
                  else do { (st, c3) \<leftarrow> getStat C (cl_putEndOfTxt (cl_putTxtBuf artTxt c2));
                            Some (st = int STAT_POST_OK, c3) } })"

end
