(* ===== verification/Outgoing.thy ===== *)
theory Outgoing
  imports Stdio
begin

text \<open>
  The queue of articles to be posted, \<^verbatim>\<open>noffle-1.0.1/src/outgoing.c\<close>: a directory for every server with
  a file for every article, named by its message ID.

  The files are a map from paths to texts.  What \<open>opendir\<close> and \<open>readdir\<close> deliver is an argument, with
  the two entries for the directory and its parent in front; so is whether a file can be opened for
  writing, at first and after the directory has been made.  Article texts are the strings that the
  dynamic strings stand for.
\<close>

record outgoing =
  o_dir :: "cstr list option"
  o_serv :: cstr

definition outgoing_init :: outgoing where
  "outgoing_init = \<lparr>o_dir = None, o_serv = []\<rparr>"

definition fileOutgoing :: "cstr \<Rightarrow> cstr \<Rightarrow> cstr \<Rightarrow> cstr" where
  "fileOutgoing dir srv msgId = take (MAXCHAR - 1) (dir @ ''/outgoing/'' @ srv @ ''/'' @ msgId)"

definition Out_add :: "cstr \<Rightarrow> bool \<Rightarrow> bool \<Rightarrow> cstr \<Rightarrow> cstr \<Rightarrow> cstr \<Rightarrow> (cstr \<Rightarrow> cstr option) \<Rightarrow> bool \<times> (cstr \<Rightarrow> cstr option)" where
  "Out_add dir opened1 opened2 srv msgId tx files =
     (if opened1 \<or> opened2 then (True, files(fileOutgoing dir srv msgId \<mapsto> tx)) else (False, files))"

text \<open>\<open>Out_next( NULL, NULL )\<close> passes over an entry.  The assertion is that a directory is open.\<close>

definition Out_skip :: "outgoing \<Rightarrow> (bool \<times> outgoing) option" where
  "Out_skip self =
     (case o_dir self of
        None \<Rightarrow> None
      | Some [] \<Rightarrow> Some (False, self\<lparr>o_dir := None\<rparr>)
      | Some (d # ds) \<Rightarrow> Some (True, self\<lparr>o_dir := Some ds\<rparr>))"

text \<open>The message ID and the text of the next article.\<close>

definition Out_next :: "cstr \<Rightarrow> (cstr \<Rightarrow> cstr option) \<Rightarrow> outgoing \<Rightarrow> ((cstr \<times> cstr) option \<times> outgoing) option" where
  "Out_next dir files self =
     (case o_dir self of
        None \<Rightarrow> None
      | Some [] \<Rightarrow> Some (None, self\<lparr>o_dir := None\<rparr>)
      | Some (d # ds) \<Rightarrow>
          (case files (fileOutgoing dir (o_serv self) d) of
             None \<Rightarrow> Some (None, self\<lparr>o_dir := Some ds\<rparr>)
           | Some f \<Rightarrow>
               do { m \<leftarrow> Utl_cpyStr d;
                    Some (Some (m, concat (fgets_all f)), self\<lparr>o_dir := Some ds\<rparr>) }))"

definition Out_first :: "cstr \<Rightarrow> cstr list option \<Rightarrow> (cstr \<Rightarrow> cstr option) \<Rightarrow> cstr \<Rightarrow> outgoing \<Rightarrow> ((cstr \<times> cstr) option \<times> outgoing) option" where
  "Out_first dir listing files srv self =
     (case listing of
        None \<Rightarrow> Some (None, self\<lparr>o_dir := None\<rparr>)
      | Some ds \<Rightarrow>
          do { s \<leftarrow> Utl_cpyStr srv;
               (_, o1) \<leftarrow> Out_skip (self\<lparr>o_dir := Some ds, o_serv := s\<rparr>);
               (_, o2) \<leftarrow> Out_skip o1;
               Out_next dir files o2 })"

definition Out_remove :: "cstr \<Rightarrow> cstr \<Rightarrow> cstr \<Rightarrow> (cstr \<Rightarrow> cstr option) \<Rightarrow> (cstr \<Rightarrow> cstr option)" where
  "Out_remove dir srv msgId files = files(fileOutgoing dir srv msgId := None)"

fun find_server :: "cstr \<Rightarrow> (cstr \<Rightarrow> cstr option) \<Rightarrow> cstr \<Rightarrow> cstr list \<Rightarrow> cstr option option" where
  "find_server dir files msgId [] = Some None"
| "find_server dir files msgId (d # ds) =
     (if files (fileOutgoing dir d msgId) \<noteq> None then map_option Some (Utl_cpyStr d)
      else find_server dir files msgId ds)"

text \<open>\<open>servs\<close> is the directory of servers, \<open>None\<close> when it cannot be opened.\<close>

definition Out_find :: "cstr \<Rightarrow> cstr list option \<Rightarrow> (cstr \<Rightarrow> cstr option) \<Rightarrow> cstr \<Rightarrow> cstr option option" where
  "Out_find dir servs files msgId =
     (case servs of None \<Rightarrow> Some None | Some ds \<Rightarrow> find_server dir files msgId (drop 2 ds))"

subsection \<open>The queue\<close>

text \<open>The articles that a loop over \<open>Out_first\<close> and \<open>Out_next\<close> sees.\<close>

function out_rest :: "cstr \<Rightarrow> (cstr \<Rightarrow> cstr option) \<Rightarrow> outgoing \<Rightarrow> (cstr \<times> cstr) list option" where
  "out_rest dir files self =
     (case Out_next dir files self of
        None \<Rightarrow> None
      | Some (None, _) \<Rightarrow> Some []
      | Some (Some mt, self') \<Rightarrow> map_option ((#) mt) (out_rest dir files self'))"
  by pat_completeness auto

termination
  by (relation "measure (\<lambda>(dir, files, self). case o_dir self of None \<Rightarrow> 0 | Some ds \<Rightarrow> length ds)")
    (auto simp: Out_next_def bind_eq_Some_conv split: option.splits list.splits)

declare out_rest.simps [simp del]

definition out_loop :: "cstr \<Rightarrow> cstr list option \<Rightarrow> (cstr \<Rightarrow> cstr option) \<Rightarrow> cstr \<Rightarrow> outgoing \<Rightarrow> (cstr \<times> cstr) list option" where
  "out_loop dir listing files srv self =
     (case Out_first dir listing files srv self of
        None \<Rightarrow> None
      | Some (None, _) \<Rightarrow> Some []
      | Some (Some mt, self') \<Rightarrow> map_option ((#) mt) (out_rest dir files self'))"

lemma fgets_line_split: "fgets_line n s = (l, r) \<Longrightarrow> s = l @ r"
  by (induction n s arbitrary: l r rule: fgets_line.induct) (auto simp: Let_def split: prod.splits if_splits)

lemma concat_fgets_all: "proper s \<Longrightarrow> concat (fgets_all s) = s"
proof (induction s rule: fgets_all.induct)
  case (1 s)
  show ?case
  proof (cases "fgets s")
    case None
    then show ?thesis by (auto simp: fgets_all.simps [of s] fgets_def Let_def split: prod.splits if_splits)
  next
    case (Some p)
    obtain l r where p: "p = (l, r)" by (cases p)
    with Some obtain l0 where g: "fgets_line (MAXCHAR - 1) s = (l0, r)" "l = takeWhile (\<lambda>c. c \<noteq> NUL) l0"
      by (auto simp: fgets_def Let_def split: prod.splits if_splits)
    note sp = fgets_line_split [OF g(1)]
    with 1(2) have c: "proper l0" "proper r" by (auto simp: proper_def)
    then have "\<forall>c \<in> set l0. c \<noteq> NUL" unfolding proper_def by blast
    then have "l = l0" unfolding g(2) by (simp add: takeWhile_eq_all_conv)
    with sp have "s = l @ r" by blast
    have "concat (fgets_all s) = l @ concat (fgets_all r)" using Some p by (simp add: fgets_all.simps [of s])
    also have "\<dots> = l @ r" using 1(1) [OF Some p [symmetric] c(2)] by simp
    finally show ?thesis using \<open>s = l @ r\<close> by (rule trans [OF _ sym])
  qed
qed

definition queued :: "cstr \<Rightarrow> (cstr \<Rightarrow> cstr option) \<Rightarrow> cstr \<Rightarrow> cstr \<Rightarrow> cstr \<Rightarrow> bool" where
  "queued dir files srv m tx \<longleftrightarrow> files (fileOutgoing dir srv m) = Some tx \<and> proper tx \<and> length m < MAXCHAR"

lemma out_rest_queued:
  "o_dir self = Some ms \<Longrightarrow> \<forall>m \<in> set ms. queued dir files (o_serv self) m (tx m) \<Longrightarrow>
     out_rest dir files self = Some (map (\<lambda>m. (m, tx m)) ms)"
proof (induction ms arbitrary: self)
  case Nil
  then show ?case by (simp add: out_rest.simps Out_next_def)
next
  case (Cons m ms)
  then have q: "queued dir files (o_serv self) m (tx m)" by simp
  with Cons.prems(1) have "Out_next dir files self = Some (Some (m, tx m), self\<lparr>o_dir := Some ms\<rparr>)"
    by (simp add: Out_next_def queued_def Utl_cpyStr_eq concat_fgets_all)
  moreover have "out_rest dir files (self\<lparr>o_dir := Some ms\<rparr>) = Some (map (\<lambda>m. (m, tx m)) ms)"
    using Cons.prems(2) by (intro Cons.IH) simp_all
  ultimately show ?case by (simp add: out_rest.simps [of dir files self])
qed

text \<open>C30. An article that was added is found under its server, the loop over the queue of a server
  delivers every article of its directory in order with the text that was added, and a removed
  article is no longer found there.\<close>

theorem Out_delivers:
  assumes "o_dir self = None" "length srv < MAXCHAR" "proper tx" "length m < MAXCHAR"
    "\<forall>k \<in> set ms. k \<noteq> m \<longrightarrow> queued dir files srv k (txs k)" "m \<in> set ms"
    "\<forall>k \<in> set ms. length (dir @ ''/outgoing/'' @ srv @ ''/'' @ k) < MAXCHAR"
  shows "\<exists>files'. Out_add dir True o2 srv m tx files = (True, files')
    \<and> out_loop dir (Some (''.'' # ''..'' # ms)) files' srv self
        = Some (map (\<lambda>k. (k, if k = m then tx else txs k)) ms)
    \<and> Out_find dir (Some [''.'', ''..'', srv]) files' m = Some (Some srv)
    \<and> Out_find dir (Some [''.'', ''..'', srv]) (Out_remove dir srv m files') m = Some None"
proof -
  let ?files = "files(fileOutgoing dir srv m \<mapsto> tx)"
  have p: "fileOutgoing dir srv k = dir @ ''/outgoing/'' @ srv @ ''/'' @ k" if "k \<in> set ms" for k
  proof -
    have "length (dir @ ''/outgoing/'' @ srv @ ''/'' @ k) < MAXCHAR" using assms(7) that by blast
    then have "length (dir @ ''/outgoing/'' @ srv @ ''/'' @ k) \<le> MAXCHAR - 1" by linarith
    then show ?thesis unfolding fileOutgoing_def by (rule take_all)
  qed
  have q: "\<forall>k \<in> set ms. queued dir ?files srv k (if k = m then tx else txs k)"
    using assms(3-6) p by (auto simp: queued_def)
  let ?o = "self\<lparr>o_dir := Some ms, o_serv := srv\<rparr>"
  have "Out_first dir (Some (''.'' # ''..'' # ms)) ?files srv self = Out_next dir ?files ?o"
    using assms(2) by (cases self) (simp add: Out_first_def Out_skip_def Utl_cpyStr_eq)
  then have "out_loop dir (Some (''.'' # ''..'' # ms)) ?files srv self = out_rest dir ?files ?o"
    by (simp add: out_loop_def out_rest.simps [of dir ?files ?o])
  moreover have "out_rest dir ?files ?o = Some (map (\<lambda>k. (k, if k = m then tx else txs k)) ms)"
    using q by (intro out_rest_queued) simp_all
  ultimately show ?thesis
    using assms(2) by (simp add: Out_add_def Out_find_def Out_remove_def Utl_cpyStr_eq)
qed

theorem Out_delivers_witness:
  "\<exists>files'. Out_add ''/var'' True True ''news'' ''<b@c>'' ''text'' (\<lambda>_. None) = (True, files')
     \<and> out_loop ''/var'' (Some [''.'', ''..'', ''<b@c>'']) files' ''news'' outgoing_init = Some [(''<b@c>'', ''text'')]"
  using Out_delivers [of outgoing_init "''news''" "''text''" "''<b@c>''" "[''<b@c>'']" "''/var''" "\<lambda>_. None" "\<lambda>_. []" True]
  by (auto simp: outgoing_init_def MAXCHAR_def)

text \<open>A file that cannot be opened ends the loop: the articles behind it stay in the queue.\<close>

lemma out_rest_stops:
  "o_dir self = Some (m # ms) \<Longrightarrow> files (fileOutgoing dir (o_serv self) m) = None \<Longrightarrow> out_rest dir files self = Some []"
  by (simp add: out_rest.simps Out_next_def)

end
