(* ===== verification/Lock.thy ===== *)
theory Lock
  imports Stdio
begin

text \<open>
  The global lock and the online flag, \<^verbatim>\<open>noffle-1.0.1/src/lock.c\<close> and \<^verbatim>\<open>online.c\<close>.

  The state is the descriptor of the lock file, which data bases are open and which descriptors the
  process has; \<open>attempt\<close> says what the system calls and the three open functions answer.  \<open>None\<close> is a
  failed assertion.
\<close>

record locks =
  lockFd :: int
  db_open :: bool
  grp_open :: bool
  req_open :: bool
  fds :: "int list"

record attempt =
  at_fd :: int
  at_lock :: bool
  at_db :: bool
  at_grp :: bool
  at_req :: bool

definition locks_init :: "int list \<Rightarrow> locks" where
  "locks_init ds = \<lparr>lockFd = -1, db_open = False, grp_open = False, req_open = False, fds = ds\<rparr>"

definition testLock :: "locks \<Rightarrow> bool" where
  "testLock s \<longleftrightarrow> lockFd s \<noteq> -1"

definition waitLock :: "attempt \<Rightarrow> locks \<Rightarrow> (bool \<times> locks) option" where
  "waitLock a s =
     (if testLock s then None
      else if at_fd a < 0 then Some (False, s)
      else let s1 = s\<lparr>fds := at_fd a # fds s\<rparr> in
           if \<not> at_lock a then Some (False, s1) else Some (True, s1\<lparr>lockFd := at_fd a\<rparr>))"

definition releaseLock :: "locks \<Rightarrow> locks option" where
  "releaseLock s = (if \<not> testLock s then None else Some (s\<lparr>fds := remove1 (lockFd s) (fds s), lockFd := -1\<rparr>))"

definition Lock_openDatabases :: "attempt \<Rightarrow> locks \<Rightarrow> (bool \<times> locks) option" where
  "Lock_openDatabases a s =
     do { (b, s1) \<leftarrow> waitLock a s;
          if \<not> b then Some (False, s1)
          else if \<not> at_db a then map_option (Pair False) (releaseLock s1)
          else let s2 = s1\<lparr>db_open := True\<rparr> in
          if \<not> at_grp a then map_option (Pair False) (releaseLock (s2\<lparr>db_open := False\<rparr>))
          else let s3 = s2\<lparr>grp_open := True\<rparr> in
          if \<not> at_req a then map_option (Pair False) (releaseLock (s3\<lparr>grp_open := False, db_open := False\<rparr>))
          else Some (True, s3\<lparr>req_open := True\<rparr>) }"

definition Lock_closeDatabases :: "locks \<Rightarrow> locks option" where
  "Lock_closeDatabases s = releaseLock (s\<lparr>grp_open := False, db_open := False, req_open := False\<rparr>)"

text \<open>Opening and closing by turns, as the server does between two commands; a failed attempt is
  followed by the next one.\<close>

fun sessions :: "attempt list \<Rightarrow> locks \<Rightarrow> locks option" where
  "sessions [] s = Some s"
| "sessions (a # as) s =
     do { (b, s1) \<leftarrow> Lock_openDatabases a s;
          s2 \<leftarrow> (if b then Lock_closeDatabases s1 else Some s1);
          sessions as s2 }"

definition all_open :: "locks \<Rightarrow> bool" where
  "all_open s \<longleftrightarrow> testLock s \<and> db_open s \<and> grp_open s \<and> req_open s"

definition all_closed :: "locks \<Rightarrow> bool" where
  "all_closed s \<longleftrightarrow> \<not> testLock s \<and> \<not> db_open s \<and> \<not> grp_open s \<and> \<not> req_open s"

definition leaks :: "attempt \<Rightarrow> bool" where
  "leaks a \<longleftrightarrow> at_fd a \<ge> 0 \<and> \<not> at_lock a"

lemma locks_eqI: "lockFd s = lockFd t \<Longrightarrow> db_open s = db_open t \<Longrightarrow> grp_open s = grp_open t \<Longrightarrow>
    req_open s = req_open t \<Longrightarrow> fds s = fds t \<Longrightarrow> s = (t :: locks)"
  by simp

lemma openDatabases_closed:
  assumes "all_closed s"
  shows "\<exists>s'. Lock_openDatabases a s = Some (at_fd a \<ge> 0 \<and> at_lock a \<and> at_db a \<and> at_grp a \<and> at_req a, s')
    \<and> (if at_fd a \<ge> 0 \<and> at_lock a \<and> at_db a \<and> at_grp a \<and> at_req a
       then all_open s' \<and> lockFd s' = at_fd a \<and> fds s' = at_fd a # fds s
         \<and> Lock_closeDatabases s' = Some s
       else all_closed s' \<and> fds s' = (if leaks a then at_fd a # fds s else fds s))"
proof -
  have "lockFd s = -1" "\<not> db_open s" "\<not> grp_open s" "\<not> req_open s"
    using assms by (simp_all add: all_closed_def testLock_def)
  then show ?thesis
    by (auto simp: Lock_openDatabases_def waitLock_def releaseLock_def testLock_def all_open_def all_closed_def
        leaks_def Lock_closeDatabases_def Let_def intro!: locks_eqI)
qed

text \<open>Opening is all or nothing: it succeeds exactly when every step does, and then the lock is held
  with all data bases open, and closing them gives back the state from before; otherwise nothing is
  open and the lock is not held.  Over any sequence of attempts the descriptors that are left open are
  those of the attempts whose lock call failed.\<close>

theorem Lock_all_or_nothing:
  "(\<forall>a. \<exists>b s'. Lock_openDatabases a (locks_init ds) = Some (b, s')
       \<and> b = (at_fd a \<ge> 0 \<and> at_lock a \<and> at_db a \<and> at_grp a \<and> at_req a)
       \<and> (if b then all_open s' \<and> Lock_closeDatabases s' = Some (locks_init ds) else all_closed s'))
   \<and> sessions as (locks_init ds) = Some (locks_init (rev (map at_fd (filter leaks as)) @ ds))"
proof
  have c: "all_closed (locks_init ds)" for ds by (simp add: locks_init_def all_closed_def testLock_def)
  show "\<forall>a. \<exists>b s'. Lock_openDatabases a (locks_init ds) = Some (b, s')
       \<and> b = (at_fd a \<ge> 0 \<and> at_lock a \<and> at_db a \<and> at_grp a \<and> at_req a)
       \<and> (if b then all_open s' \<and> Lock_closeDatabases s' = Some (locks_init ds) else all_closed s')"
  proof
    fix a
    from openDatabases_closed [OF c, of a ds] show "\<exists>b s'. Lock_openDatabases a (locks_init ds) = Some (b, s')
       \<and> b = (at_fd a \<ge> 0 \<and> at_lock a \<and> at_db a \<and> at_grp a \<and> at_req a)
       \<and> (if b then all_open s' \<and> Lock_closeDatabases s' = Some (locks_init ds) else all_closed s')"
      by (auto split: if_splits)
  qed
  show "sessions as (locks_init ds) = Some (locks_init (rev (map at_fd (filter leaks as)) @ ds))"
  proof (induction as arbitrary: ds)
    case (Cons a as)
    from openDatabases_closed [OF c, of a ds] obtain s' where
      s': "Lock_openDatabases a (locks_init ds) = Some (at_fd a \<ge> 0 \<and> at_lock a \<and> at_db a \<and> at_grp a \<and> at_req a, s')"
      "if at_fd a \<ge> 0 \<and> at_lock a \<and> at_db a \<and> at_grp a \<and> at_req a
       then Lock_closeDatabases s' = Some (locks_init ds)
       else all_closed s' \<and> fds s' = (if leaks a then at_fd a # ds else ds)"
      by (auto simp: locks_init_def split: if_splits)
    show ?case
    proof (cases "at_fd a \<ge> 0 \<and> at_lock a \<and> at_db a \<and> at_grp a \<and> at_req a")
      case True
      with s' Cons show ?thesis by (simp add: leaks_def)
    next
      case False
      with s'(2) have "s' = locks_init (if leaks a then at_fd a # ds else ds)"
        by (intro locks_eqI) (auto simp: all_closed_def testLock_def locks_init_def)
      with s'(1) False Cons show ?thesis by simp
    qed
  qed (simp)
qed

subsection \<open>The online flag\<close>

definition fileOnline :: "cstr \<Rightarrow> cstr" where
  "fileOnline dir = take (MAXCHAR - 1) (dir @ ''/lock/online'')"

definition Online_true :: "cstr \<Rightarrow> (cstr \<Rightarrow> cstr option) \<Rightarrow> bool" where
  "Online_true dir files \<longleftrightarrow> files (fileOnline dir) \<noteq> None"

text \<open>\<open>ok\<close> says whether the file can be opened for appending, or removed if it is there.\<close>

definition Online_set :: "cstr \<Rightarrow> bool \<Rightarrow> bool \<Rightarrow> (cstr \<Rightarrow> cstr option) \<Rightarrow> (cstr \<Rightarrow> cstr option)" where
  "Online_set dir ok val files =
     (let file = fileOnline dir in
      if val then (if \<not> ok then files else files(file := Some (case files file of None \<Rightarrow> [] | Some t \<Rightarrow> t)))
      else (if \<not> ok \<or> files file = None then files else files(file := None)))"

lemma Online_set_true: "Online_true dir (Online_set dir True v files) = v"
  by (auto simp: Online_true_def Online_set_def Let_def)

end
