(* ===== verification/Server.thy ===== *)
theory Server
  imports Pseudo Outgoing Expire Fetchlist Request Lock
begin

text \<open>
  The NNTP server, first part of \<^verbatim>\<open>noffle-1.0.1/src/server.c\<close>: the state of a session, the replies, the
  selected group and the article pointer, ranges of article numbers, and the commands GROUP,
  LISTGROUP, LAST, NEXT, STAT, XOVER, XHDR and XPAT with the commands of one line.

  The static struct \<open>server\<close>, the data bases it works on, what the client will still send and what was
  written to it are the record \<open>server\<close>; \<open>senv\<close> is what a session does not change: the environment of the spool, the
  configuration, the host name, \<open>strftime\<close> and \<open>mktime\<close>, the command \<open>sort\<close> with the room of the pipe
  to it, a bound on the number of groups, the directory of the outgoing queues, which request files
  can be written and the functions of the network client, which run only when the server is online.
  A handler takes its argument and the state and gives back whether the session goes on; \<open>None\<close> is an
  access outside an object.
\<close>

record ('g, 'd) server =
  running :: bool
  artPtr :: int
  srv_grp :: cstr
  srv_sp :: "('g, 'd) spool"
  srv_fl :: fetchlist
  srv_req :: req
  srv_in :: cstr
  srv_out :: ofile

record ('g, 'd) senv =
  se_env :: "('g, 'd) env"
  se_cfg :: config
  se_gen :: gen
  se_host :: cstr
  se_date :: "u32 \<Rightarrow> cstr"
  se_mktime :: "int \<Rightarrow> int \<Rightarrow> int \<Rightarrow> int \<Rightarrow> int \<Rightarrow> int \<Rightarrow> int"
  se_sort :: "(cstr \<Rightarrow> cstr) option"
  se_pipe :: nat
  se_groups :: nat
  se_servs :: "cstr list option"
  se_reqs :: "cstr \<Rightarrow> bool"
  net_getNewArts :: "cstr \<Rightarrow> cstr \<Rightarrow> ('g, 'd) server \<Rightarrow> ('g, 'd) server option"
  net_retrieveArt :: "cstr \<Rightarrow> cstr \<Rightarrow> ('g, 'd) server \<Rightarrow> (bool \<times> ('g, 'd) server) option"
  net_postArts :: "('g, 'd) server \<Rightarrow> ('g, 'd) server option"

abbreviation srv_cont :: "('g, 'd) server \<Rightarrow> cont" where
  "srv_cont s \<equiv> sp_cont (srv_sp s)"

abbreviation glib :: "('g, 'd) senv \<Rightarrow> 'g gdbm" where "glib S \<equiv> gdbm_g (se_env S)"
abbreviation dlib :: "('g, 'd) senv \<Rightarrow> 'd gdbm" where "dlib S \<equiv> gdbm_d (se_env S)"

definition online :: "('g, 'd) senv \<Rightarrow> ('g, 'd) server \<Rightarrow> bool" where
  "online S s = Online_true (spool_dir (se_env S)) (sp_file (srv_sp s))"

subsection \<open>Replies\<close>

definition emit :: "cstr \<Rightarrow> ('g, 'd) server \<Rightarrow> ('g, 'd) server" where
  "emit t s = s\<lparr>srv_out := snd (fprint t (srv_out s))\<rparr>"

definition stat_line :: "nat \<Rightarrow> cstr \<Rightarrow> cstr" where
  "stat_line st t = str_of (dec_nat st @ '' '' @ str_of t) @ [CR, LF]"

definition putStat :: "nat \<Rightarrow> cstr \<Rightarrow> ('g, 'd) server \<Rightarrow> ('g, 'd) server" where
  "putStat st t s = emit (stat_line st t) s"

definition putTxtLn :: "cstr \<Rightarrow> ('g, 'd) server \<Rightarrow> ('g, 'd) server" where
  "putTxtLn t s = s\<lparr>srv_out := snd (Prt_putTxtLn (str_of t) (srv_out s))\<rparr>"

definition putTxtBuf :: "cstr option \<Rightarrow> ('g, 'd) server \<Rightarrow> ('g, 'd) server" where
  "putTxtBuf buf s = (case buf of None \<Rightarrow> s | Some b \<Rightarrow> s\<lparr>srv_out := snd (Prt_putTxtBuf b (srv_out s))\<rparr>)"

definition putEndOfTxt :: "('g, 'd) server \<Rightarrow> ('g, 'd) server" where
  "putEndOfTxt s = s\<lparr>srv_out := snd (Prt_putEndOfTxt (srv_out s))\<rparr>"

definition putSyntax :: "cstr \<Rightarrow> ('g, 'd) server \<Rightarrow> ('g, 'd) server" where
  "putSyntax syntax = putStat STAT_SYNTAX_ERR (''Syntax error. Usage: '' @ syntax)"

subsection \<open>The selected group\<close>

definition grp_server :: "('g, 'd) senv \<Rightarrow> cstr \<Rightarrow> ('g, 'd) server \<Rightarrow> (cstr \<times> ('g, 'd) server) option" where
  "grp_server S grp s =
     do { (r, g) \<leftarrow> Grp_server (Cfg_servListContains (se_cfg S)) (glib S) grp (sp_grp (srv_sp s));
          Some (r, s\<lparr>srv_sp := (srv_sp s)\<lparr>sp_grp := g\<rparr>\<rparr>) }"

definition grp_local :: "('g, 'd) senv \<Rightarrow> cstr \<Rightarrow> ('g, 'd) server \<Rightarrow> (bool \<times> ('g, 'd) server) option" where
  "grp_local S grp s =
     do { (r, g) \<leftarrow> Grp_local (glib S) grp (sp_grp (srv_sp s)); Some (r, s\<lparr>srv_sp := (srv_sp s)\<lparr>sp_grp := g\<rparr>\<rparr>) }"

definition checkNewArts :: "('g, 'd) senv \<Rightarrow> cstr \<Rightarrow> ('g, 'd) server \<Rightarrow> ('g, 'd) server option" where
  "checkNewArts S grp s =
     (if \<not> online S s \<or> grp = srv_grp s then Some s
      else do { (loc, s1) \<leftarrow> grp_local S grp s;
                if loc then Some s1
                else do { (a, g) \<leftarrow> Grp_lastAccess (glib S) (srv_grp s1) (sp_grp (srv_sp s1));
                          let s2 = s1\<lparr>srv_sp := (srv_sp s1)\<lparr>sp_grp := g\<rparr>\<rparr>;
                          if sint (clock (se_env S)) - a < 1800 then Some s2
                          else do { (srv, s3) \<leftarrow> grp_server S grp s2; net_getNewArts S srv grp s3 } } })"

definition needsPseudoGenInfo :: "('g, 'd) senv \<Rightarrow> cstr \<Rightarrow> ('g, 'd) server \<Rightarrow> (bool \<times> ('g, 'd) server) option" where
  "needsPseudoGenInfo S grp s =
     do { (loc, s1) \<leftarrow> grp_local S grp s;
          Some (\<not> (loc \<or> Fetchlist_contains (srv_fl s1) grp \<or> online S s1), s1) }"

definition fetchlist_path :: "('g, 'd) senv \<Rightarrow> cstr" where
  "fetchlist_path S = str_of (spool_dir (se_env S) @ ''/fetchlist'')"

definition srv_Fetchlist_read :: "('g, 'd) senv \<Rightarrow> ('g, 'd) server \<Rightarrow> ('g, 'd) server option" where
  "srv_Fetchlist_read S s =
     do { fl \<leftarrow> Fetchlist_read (sp_file (srv_sp s) (fetchlist_path S)); Some (s\<lparr>srv_fl := fl\<rparr>) }"

definition readCont :: "('g, 'd) senv \<Rightarrow> cstr \<Rightarrow> ('g, 'd) server \<Rightarrow> ('g, 'd) server option" where
  "readCont S name s =
     do { s1 \<leftarrow> srv_Fetchlist_read S s;
          sp \<leftarrow> sp_Cont_read (se_env S) name (srv_sp s1);
          (b, s2) \<leftarrow> needsPseudoGenInfo S name (s1\<lparr>srv_sp := sp\<rparr>);
          if b then do { c \<leftarrow> Pseudo_appGeneralInfo (se_gen S) (autoSubscribe (se_cfg S) \<noteq> 0) (srv_cont s2);
                         Some (s2\<lparr>srv_sp := (srv_sp s2)\<lparr>sp_cont := c\<rparr>\<rparr>) }
          else Some s2 }"

definition changeToGrp :: "('g, 'd) senv \<Rightarrow> cstr \<Rightarrow> ('g, 'd) server \<Rightarrow> ('g, 'd) server option" where
  "changeToGrp S grp s =
     do { s1 \<leftarrow> checkNewArts S grp s;
          g \<leftarrow> Utl_cpyStr grp;
          s2 \<leftarrow> readCont S grp (s1\<lparr>srv_grp := g\<rparr>);
          Some (s2\<lparr>artPtr := first (srv_cont s2)\<rparr>) }"

definition doGrp :: "('g, 'd) senv \<Rightarrow> cstr \<Rightarrow> cstr \<Rightarrow> ('g, 'd) server \<Rightarrow> (bool \<times> ('g, 'd) server) option" where
  "doGrp S syntax arg s =
     (if arg = [] then Some (True, putSyntax syntax s)
      else if \<not> Grp_exists (glib S) arg (sp_grp (srv_sp s)) then Some (True, putStat STAT_NO_SUCH_GRP ''No such group'' s)
      else do { s1 \<leftarrow> changeToGrp S arg s;
                let f = first (srv_cont s1);
                let l = last_nr (srv_cont s1);
                let (numb, f', l') = (if (f = 0 \<and> l = 0) \<or> f > l then (0, 0, 0) else (l - f + 1, f, l));
                Some (True, putStat STAT_GRP_SELECTED
                  (fmt_lu numb @ '' '' @ fmt_lu f' @ '' '' @ fmt_lu l' @ '' '' @ arg @ '' selected'') s1) })"

text \<open>The loop over article numbers that prints a line for every article.\<close>

fun put_arts :: "(Over \<Rightarrow> ('g, 'd) server \<Rightarrow> ('g, 'd) server option) \<Rightarrow> int list \<Rightarrow> ('g, 'd) server \<Rightarrow> ('g, 'd) server option" where
  "put_arts put [] s = Some s"
| "put_arts put (i # is) s =
     do { e \<leftarrow> Cont_get (srv_cont s) i;
          s1 \<leftarrow> (case e of None \<Rightarrow> Some s | Some ov \<Rightarrow> put ov s);
          put_arts put is s1 }"

fun list_numbs :: "int list \<Rightarrow> ('g, 'd) server \<Rightarrow> ('g, 'd) server option" where
  "list_numbs [] s = Some s"
| "list_numbs (i # is) s =
     do { e \<leftarrow> Cont_get (srv_cont s) i;
          list_numbs is (case e of None \<Rightarrow> s | Some ov \<Rightarrow> putTxtLn (fmt_lu i) s) }"

definition doListgrp :: "('g, 'd) senv \<Rightarrow> cstr \<Rightarrow> ('g, 'd) server \<Rightarrow> (bool \<times> ('g, 'd) server) option" where
  "doListgrp S arg s =
     (if \<not> Grp_exists (glib S) arg (sp_grp (srv_sp s)) then Some (True, putStat STAT_NO_SUCH_GRP ''No such group'' s)
      else do { s1 \<leftarrow> changeToGrp S arg s;
                let s2 = putStat STAT_GRP_SELECTED ''Article list'' s1;
                s3 \<leftarrow> list_numbs [first (srv_cont s1)..last_nr (srv_cont s1)] s2;
                Some (True, putEndOfTxt s3) })"

definition testGrpSelected :: "('g, 'd) server \<Rightarrow> bool \<times> ('g, 'd) server" where
  "testGrpSelected s =
     (if srv_grp s = [] then (False, putStat STAT_NO_GRP_SELECTED ''No group selected'' s) else (True, s))"

definition checkNumb :: "int \<Rightarrow> ('g, 'd) server \<Rightarrow> (bool \<times> ('g, 'd) server) option" where
  "checkNumb numb s =
     (let (b, s1) = testGrpSelected s in
      if \<not> b then Some (False, s1)
      else do { v \<leftarrow> Cont_validNumb (srv_cont s1) numb;
                Some (if v then (True, s1) else (False, putStat STAT_NO_SUCH_NUMB ''No such article'' s1)) })"

subsection \<open>The article pointer\<close>

text \<open>\<open>while ( ! Cont_validNumb( --n ) && n >= Cont_first() )\<close> and the loop of NEXT.\<close>

function last_loop :: "cont \<Rightarrow> int \<Rightarrow> int option" where
  "last_loop c n =
     do { v \<leftarrow> Cont_validNumb c (n - 1);
          if \<not> v \<and> n - 1 \<ge> first c then last_loop c (n - 1) else Some (n - 1) }"
  by pat_completeness auto

termination by (relation "measure (\<lambda>(c, n). nat (n - first c + 1))") auto

function next_loop :: "cont \<Rightarrow> int \<Rightarrow> int option" where
  "next_loop c n =
     do { v \<leftarrow> Cont_validNumb c (n + 1);
          if \<not> v \<and> n + 1 \<le> last_nr c then next_loop c (n + 1) else Some (n + 1) }"
  by pat_completeness auto

termination by (relation "measure (\<lambda>(c, n). nat (last_nr c - n + 1))") auto

declare last_loop.simps [simp del] next_loop.simps [simp del]

definition selected :: "int \<Rightarrow> ('g, 'd) server \<Rightarrow> ('g, 'd) server option" where
  "selected n s =
     do { e \<leftarrow> Cont_get (srv_cont s) n;
          ov \<leftarrow> e;
          Some ((putStat STAT_ART_RETRIEVED (dec_int n @ '' '' @ ov_msgId ov @ '' selected'') s)\<lparr>artPtr := n\<rparr>) }"

definition move :: "(cont \<Rightarrow> int \<Rightarrow> int option) \<Rightarrow> nat \<Rightarrow> cstr \<Rightarrow> ('g, 'd) server \<Rightarrow> (bool \<times> ('g, 'd) server) option" where
  "move loop stat none s =
     (let (b, s1) = testGrpSelected s in
      if \<not> b then Some (True, s1)
      else do { v \<leftarrow> Cont_validNumb (srv_cont s1) (artPtr s1);
                if \<not> v then Some (True, putStat STAT_NO_ART_SELECTED ''No article selected'' s1)
                else do { n \<leftarrow> loop (srv_cont s1) (artPtr s1);
                          w \<leftarrow> Cont_validNumb (srv_cont s1) n;
                          if \<not> w then Some (True, putStat stat none s1)
                          else map_option (Pair True) (selected n s1) } })"

definition doLast :: "('g, 'd) server \<Rightarrow> (bool \<times> ('g, 'd) server) option" where
  "doLast = move last_loop STAT_NO_PREV_ART ''No previous article''"

definition doNext :: "('g, 'd) server \<Rightarrow> (bool \<times> ('g, 'd) server) option" where
  "doNext = move next_loop STAT_NO_NEXT_ART ''No next article''"

text \<open>The argument of ARTICLE, BODY, HEAD and STAT: the message ID and the number, 0 if unknown, and
  whether the argument is a message ID.\<close>

definition argArt :: "cstr \<Rightarrow> ('g, 'd) server \<Rightarrow> ((cstr \<times> int) option \<times> bool \<times> ('g, 'd) server) option" where
  "argArt arg s =
     (case scan_d arg of
        Some (n, _) \<Rightarrow>
          do { _ \<leftarrow> as_int32 n;
               (b, s1) \<leftarrow> checkNumb n s;
               if \<not> b then Some (None, False, s1)
               else do { e \<leftarrow> Cont_get (srv_cont s1) n; ov \<leftarrow> e;
                         Some (Some (ov_msgId ov, n), False, s1\<lparr>artPtr := n\<rparr>) } }
      | None \<Rightarrow>
          if arg = [] then
            do { (b, s1) \<leftarrow> checkNumb (artPtr s) s;
                 if \<not> b then Some (None, False, s1)
                 else do { e \<leftarrow> Cont_get (srv_cont s1) (artPtr s1); ov \<leftarrow> e;
                           Some (Some (ov_msgId ov, artPtr s1), False, s1) } }
          else Some (Some (arg, 0), True, s))"

definition whichId :: "('g, 'd) senv \<Rightarrow> cstr \<Rightarrow> ('g, 'd) server \<Rightarrow> ((cstr \<times> int) option \<times> ('g, 'd) server) option" where
  "whichId S arg s =
     do { (r, byMsgId, s1) \<leftarrow> argArt arg s;
          case r of
            None \<Rightarrow> Some (None, s1)
          | Some (msgId, numb) \<Rightarrow>
              if \<not> Pseudo_isGeneralInfo msgId \<and> \<not> Db_contains (dlib S) msgId (sp_db (srv_sp s1))
              then Some (None, putStat (if byMsgId then STAT_NO_SUCH_ID else STAT_NO_SUCH_NUMB) ''No such article'' s1)
              else Some (Some (msgId, numb), s1) }"

definition doStat :: "('g, 'd) senv \<Rightarrow> cstr \<Rightarrow> ('g, 'd) server \<Rightarrow> (bool \<times> ('g, 'd) server) option" where
  "doStat S arg s =
     do { (r, s1) \<leftarrow> whichId S arg s;
          case r of
            None \<Rightarrow> Some (True, s1)
          | Some (msgId, numb) \<Rightarrow>
              Some (True, putStat STAT_ART_RETRIEVED
                ((if numb > 0 then dec_int numb @ '' '' @ msgId else ''0 '' @ msgId) @ '' selected'') s1) }"

subsection \<open>Ranges\<close>

text \<open>\<open>sscanf( p, "%d-%d", first, last )\<close>: the conversions.\<close>

definition scan_range :: "cstr \<Rightarrow> int list option" where
  "scan_range p =
     (case scan_d p of
        None \<Rightarrow> Some []
      | Some (f, r) \<Rightarrow>
          do { _ \<leftarrow> as_int32 f;
               if r \<noteq> [] \<and> hd r = CHR ''-'' then
                 (case scan_d (tl r) of
                    None \<Rightarrow> Some [f]
                  | Some (l, _) \<Rightarrow> do { _ \<leftarrow> as_int32 l; Some [f, l] })
               else Some [f] })"

fun count_valid :: "cont \<Rightarrow> int list \<Rightarrow> int option" where
  "count_valid c [] = Some 0"
| "count_valid c (i # is) =
     do { v \<leftarrow> Cont_validNumb c i; n \<leftarrow> count_valid c is; Some (if v then n + 1 else n) }"

text \<open>The first and the last number of the range and how many articles there are in it.\<close>

definition parseRange :: "cstr \<Rightarrow> cstr \<Rightarrow> ('g, 'd) server \<Rightarrow> (int \<times> int \<times> int) option" where
  "parseRange pre t s =
     (let c = srv_cont s in
      do { t' \<leftarrow> Utl_cpyStr t;
           p \<leftarrow> strip_at pre t';
           r \<leftarrow> scan_range p;
           let (f0, l0) = (case r of
              [] \<Rightarrow> (artPtr s, artPtr s)
            | [f] \<Rightarrow> (f, if last p = CHR ''-'' then last_nr c else f)
            | f # l # _ \<Rightarrow> (f, l));
           let f1 = (if f0 < first c then first c else f0);
           let l1 = (if l0 > last_nr c then last_nr c else l0);
           let l2 = (if f1 > last_nr c \<or> l1 < first c then f1 - 1 else l1);
           n \<leftarrow> count_valid c [f1..l2];
           Some (f1, l2, n) })"

definition over_line :: "Over \<Rightarrow> cstr" where
  "over_line ov = fmt_lu (ov_numb ov) @ TAB # ov_subj ov @ TAB # ov_from ov @ TAB # ov_date ov @ TAB # ov_msgId ov
     @ TAB # ov_ref ov @ TAB # dec_int (sint (ov_bytes ov)) @ TAB # dec_int (sint (ov_lines ov)) @ [TAB]"

definition doXOver :: "('g, 'd) senv \<Rightarrow> cstr \<Rightarrow> ('g, 'd) server \<Rightarrow> (bool \<times> ('g, 'd) server) option" where
  "doXOver S arg s =
     (let (b, s1) = testGrpSelected s in
      if \<not> b then Some (True, s1)
      else do { (f0, l0, n) \<leftarrow> parseRange (before (se_env S)) arg s1;
                let (f, l) = (if n = 0 then (artPtr s1, artPtr s1) else (f0, l0));
                let s2 = putStat STAT_OVERS_FOLLOW (''Overview '' @ dec_int f @ ''-'' @ dec_int l) s1;
                s3 \<leftarrow> put_arts (\<lambda>ov s. Some (putTxtLn (over_line ov) s)) [f..l] s2;
                Some (True, putEndOfTxt s3) })"

subsection \<open>Header fields of the overview\<close>

datatype XhdrType = SUBJ | FROM | DATE | MSG_ID | REF | BYTES | LINES | XREF | UNKNOWN

definition whatXhdrField :: "cstr \<Rightarrow> XhdrType option" where
  "whatXhdrField fieldname =
     do { n \<leftarrow> Utl_cpyStr fieldname;
          let name = Utl_toLower n;
          Some (if name = ''subject'' then SUBJ else if name = ''from'' then FROM
            else if name = ''date'' then DATE else if name = ''message-id'' then MSG_ID
            else if name = ''references'' then REF else if name = ''bytes'' then BYTES
            else if name = ''lines'' then LINES else if name = ''xref'' then XREF else UNKNOWN) }"

definition getXhdrField :: "('g, 'd) senv \<Rightarrow> XhdrType \<Rightarrow> Over \<Rightarrow> ('g, 'd) server \<Rightarrow> (cstr \<times> ('g, 'd) server) option" where
  "getXhdrField S what ov s =
     (case what of
        SUBJ \<Rightarrow> do { r \<leftarrow> Utl_cpyStr (ov_subj ov); Some (r, s) }
      | FROM \<Rightarrow> do { r \<leftarrow> Utl_cpyStr (ov_from ov); Some (r, s) }
      | DATE \<Rightarrow> do { r \<leftarrow> Utl_cpyStr (ov_date ov); Some (r, s) }
      | MSG_ID \<Rightarrow> do { r \<leftarrow> Utl_cpyStr (ov_msgId ov); Some (r, s) }
      | REF \<Rightarrow> do { r \<leftarrow> Utl_cpyStr (ov_ref ov); Some (r, s) }
      | BYTES \<Rightarrow> Some (dec_int (sint (ov_bytes ov)), s)
      | LINES \<Rightarrow> Some (dec_int (sint (ov_lines ov)), s)
      | XREF \<Rightarrow>
          if Pseudo_isGeneralInfo (ov_msgId ov) then Some (''none'', s)
          else do { (x, db) \<leftarrow> Db_xref (dlib S) (ov_msgId ov) (sp_db (srv_sp s));
                    Some (str_of (se_host S @ '' '' @ x), s\<lparr>srv_sp := (srv_sp s)\<lparr>sp_db := db\<rparr>\<rparr>) }
      | UNKNOWN \<Rightarrow> None)"

text \<open>What XHDR and XPAT share: \<open>arts\<close> is the message ID or the range, \<open>shown\<close> says which values are printed.\<close>

definition put_field :: "('g, 'd) senv \<Rightarrow> XhdrType \<Rightarrow> (cstr \<Rightarrow> bool option) \<Rightarrow> cstr \<Rightarrow> Over \<Rightarrow> ('g, 'd) server \<Rightarrow> ('g, 'd) server option" where
  "put_field S what shown label ov s =
     do { (field, s1) \<leftarrow> getXhdrField S what ov s;
          b \<leftarrow> shown field;
          Some (if b then putTxtLn (label @ '' '' @ field) s1 else s1) }"

definition xhdr_arts :: "('g, 'd) senv \<Rightarrow> XhdrType \<Rightarrow> cstr \<Rightarrow> (cstr \<Rightarrow> bool option) \<Rightarrow> cstr \<Rightarrow> ('g, 'd) server \<Rightarrow> (bool \<times> ('g, 'd) server) option" where
  "xhdr_arts S what whatStr shown p s =
     (if p \<noteq> [] \<and> hd p = CHR ''<'' then
        do { (r, db) \<leftarrow> Db_over (dlib S) p (sp_db (srv_sp s));
             let s1 = s\<lparr>srv_sp := (srv_sp s)\<lparr>sp_db := db\<rparr>\<rparr>;
             case r of
               None \<Rightarrow> Some (True, putStat STAT_NO_SUCH_ID ''No such article'' s1)
             | Some ov \<Rightarrow>
                 do { s2 \<leftarrow> put_field S what shown p ov (putStat STAT_HEAD_FOLLOWS (whatStr @ '' header '' @ p) s1);
                      Some (True, putEndOfTxt s2) } }
      else
        let (b, s1) = testGrpSelected s in
        if \<not> b then Some (True, s1)
        else do { (f, l, n) \<leftarrow> parseRange (before (se_env S)) p s1;
                  if n = 0 then Some (True, putStat STAT_NO_ART_SELECTED ''No articles selected'' s1)
                  else do { s2 \<leftarrow> put_arts (\<lambda>ov. put_field S what shown (fmt_lu (ov_numb ov)) ov) [f..l]
                                  (putStat STAT_HEAD_FOLLOWS (whatStr @ '' header '' @ fmt_lu f @ ''-'' @ fmt_lu l) s1);
                            Some (True, putEndOfTxt s2) } })"

definition unknown_header :: "('g, 'd) server \<Rightarrow> ('g, 'd) server" where
  "unknown_header s = putEndOfTxt (putStat STAT_HEAD_FOLLOWS ''Unknown header (empty list follows)'' s)"

definition doXhdr :: "('g, 'd) senv \<Rightarrow> cstr \<Rightarrow> cstr \<Rightarrow> ('g, 'd) server \<Rightarrow> (bool \<times> ('g, 'd) server) option" where
  "doXhdr S syntax arg s =
     (case scan_s arg of
        None \<Rightarrow> Some (True, putSyntax syntax s)
      | Some (whatStr, _) \<Rightarrow>
          do { what \<leftarrow> whatXhdrField whatStr;
               if what = UNKNOWN then Some (True, unknown_header s)
               else xhdr_arts S what whatStr (\<lambda>_. Some True) (Utl_restOfLn arg 1) s })"

definition scan_3 :: "cstr \<Rightarrow> (cstr \<times> cstr \<times> cstr) option" where
  "scan_3 arg = do { (a, r) \<leftarrow> scan_s arg; (b, r1) \<leftarrow> scan_s r; (c, _) \<leftarrow> scan_s r1; Some (a, b, c) }"

definition doXpat :: "('g, 'd) senv \<Rightarrow> cstr \<Rightarrow> cstr \<Rightarrow> ('g, 'd) server \<Rightarrow> (bool \<times> ('g, 'd) server) option" where
  "doXpat S syntax arg s =
     (case scan_3 arg of
        None \<Rightarrow> Some (True, putSyntax syntax s)
      | Some (whatStr, articles, pat) \<Rightarrow>
          do { what \<leftarrow> whatXhdrField whatStr;
               if what = UNKNOWN then Some (True, unknown_header s)
               else xhdr_arts S what whatStr (\<lambda>field. Wld_match field pat) articles s })"

end
