(* ===== verification/Fetch.thy ===== *)
theory Fetch
  imports ClientArt Outgoing Server
begin

text \<open>
  Fetching from a remote server and posting to it, \<^verbatim>\<open>noffle-1.0.1/src/fetch.c\<close>, and the use that \<open>server.c\<close>
  makes of it and of the client when it is online.

  The static struct \<open>fetch\<close> and the state of the client are the record \<open>fetch\<close>.  \<open>None\<close> is a failed assertion or an
  access outside an object.
\<close>

record ('g, 'd) fetch =
  f_ready :: bool
  f_serv :: cstr
  f_cl :: "('g, 'd) client"

abbreviation f_sp :: "('g, 'd) fetch \<Rightarrow> ('g, 'd) spool" where
  "f_sp f \<equiv> cl_sp (f_cl f)"

definition fetch_start :: "('g, 'd) spool \<Rightarrow> req \<Rightarrow> ('g, 'd) fetch" where
  "fetch_start sp rq = \<lparr>f_ready = False, f_serv = [], f_cl = client_init sp rq\<rparr>"

definition put_cl :: "('g, 'd) fetch \<Rightarrow> ('g, 'd) client \<Rightarrow> ('g, 'd) fetch" where
  "put_cl f c = f\<lparr>f_cl := c\<rparr>"

definition put_sp :: "('g, 'd) fetch \<Rightarrow> ('g, 'd) spool \<Rightarrow> ('g, 'd) fetch" where
  "put_sp f sp = f\<lparr>f_cl := (f_cl f)\<lparr>cl_sp := sp\<rparr>\<rparr>"

definition Fetch_init :: "('g, 'd) cenv \<Rightarrow> cstr \<Rightarrow> ('g, 'd) fetch \<Rightarrow> (bool \<times> ('g, 'd) fetch) option" where
  "Fetch_init C srv f =
     do { (ok, c) \<leftarrow> Client_connect C srv (f_cl f);
          if \<not> ok then Some (False, put_cl f c)
          else do { n \<leftarrow> Utl_cpyStr srv; Some (True, (put_cl f c)\<lparr>f_serv := n, f_ready := True\<rparr>) } }"

definition Fetch_close :: "('g, 'd) cenv \<Rightarrow> ('g, 'd) fetch \<Rightarrow> ('g, 'd) fetch option" where
  "Fetch_close C f = do { c \<leftarrow> Client_disconnect C (f_cl f); Some ((put_cl f c)\<lparr>f_ready := False\<rparr>) }"

subsection \<open>New groups and articles\<close>

text \<open>\<open>ymd\<close> is \<open>strftime\<close> of \<open>gmtime\<close>; the assertion of \<open>Client_getNewgrps\<close> is that the time is positive.\<close>

definition Fetch_getNewGrps :: "('g, 'd) cenv \<Rightarrow> (nat \<Rightarrow> cstr) \<Rightarrow> ('g, 'd) fetch \<Rightarrow> ('g, 'd) fetch option" where
  "Fetch_getNewGrps C ymd f =
     (if \<not> f_ready f then None
      else case Utl_getStamp (sp_file (f_sp f) (lastupdate C (f_serv f))) of
             None \<Rightarrow> Some f
           | Some t \<Rightarrow>
               if sint (word_of_nat t :: u32) \<le> 0 then None
               else map_option (\<lambda>(_, c). put_cl f c) (Client_getNewgrps C (ymd t) (f_cl f)))"

text \<open>\<open>Cont_write\<close> and \<open>Grp_setFirstLast( name, Cont_first(), Cont_last() )\<close>.\<close>

definition finish_group :: "('g, 'd) cenv \<Rightarrow> cstr \<Rightarrow> ('g, 'd) fetch \<Rightarrow> ('g, 'd) fetch option" where
  "finish_group C name f =
     (let sp = sp_Cont_write (ce_env C) (f_sp f) in
      do { g \<leftarrow> Grp_setFirstLast (first (sp_cont sp)) (last_nr (sp_cont sp)) (cglib C) name (sp_grp sp);
           Some (put_sp f (sp\<lparr>sp_grp := g\<rparr>)) })"

text \<open>From which number on articles are asked for, and what is noted about the numbers.\<close>

datatype numbers = Up_to_date | Empty_group | Inconsistent | Missing | In_order

definition numbers_of :: "int \<Rightarrow> int \<Rightarrow> int \<Rightarrow> numbers" where
  "numbers_of nxt f l =
     (if nxt = l + 1 then Up_to_date else if f = 0 \<and> l = 0 then Empty_group
      else if nxt > l + 1 then Inconsistent else if nxt < f then Missing else In_order)"

definition cut_first :: "('g, 'd) cenv \<Rightarrow> int \<Rightarrow> int \<Rightarrow> int option" where
  "cut_first C f l =
     do { d \<leftarrow> as_int (l - f); if d > maxFetch (ce_cfg C) then as_int (l - maxFetch (ce_cfg C) + 1) else Some f }"

definition Fetch_getNewArts :: "('g, 'd) cenv \<Rightarrow> cstr \<Rightarrow> FetchMode \<Rightarrow> ('g, 'd) fetch \<Rightarrow> ('g, 'd) fetch option" where
  "Fetch_getNewArts C name mode f0 =
     do { (ok, c) \<leftarrow> Client_changeToGrp C name (f_cl f0);
          if \<not> ok then Some (put_cl f0 c)
          else do {
            sp \<leftarrow> sp_Cont_read (ce_env C) name (cl_sp c);
            let (fst_nr, lst) = Client_rmtFirstLast c;
            (nxt, g) \<leftarrow> Grp_rmtNext (cglib C) name (sp_grp sp);
            let f = put_sp (put_cl f0 c) (sp\<lparr>sp_grp := g\<rparr>);
            _ \<leftarrow> as_int (lst + 1);
            let k = numbers_of nxt fst_nr lst;
            if k = Up_to_date \<or> k = Empty_group then finish_group C name f
            else do {
              sp1 \<leftarrow> (if k = Inconsistent then Pseudo_cntInconsistent (ce_env C) (ce_gen C) name fst_nr lst nxt (f_sp f)
                       else if k = Missing then Pseudo_missArts (ce_env C) (ce_gen C) name fst_nr nxt (f_sp f)
                       else Some (f_sp f));
              from_nr \<leftarrow> cut_first C (if k = In_order then nxt else fst_nr) lst;
              (_, c1) \<leftarrow> Client_getOver C from_nr lst mode (f_cl (put_sp f sp1));
              finish_group C name (put_cl f c1) } } }"

fun update_loop :: "('g, 'd) cenv \<Rightarrow> fetchlist \<Rightarrow> ('g, 'd) fetch \<Rightarrow> ('g, 'd) fetch option" where
  "update_loop C [] f = Some f"
| "update_loop C (e # es) f =
     do { (srv, c) \<leftarrow> cl_Grp_server C (el_name e) (f_cl f);
          f1 \<leftarrow> (if srv = f_serv f then Fetch_getNewArts C (el_name e) (el_mode e) (put_cl f c) else Some (put_cl f c));
          update_loop C es f1 }"

definition Fetch_updateGrps :: "('g, 'd) cenv \<Rightarrow> ('g, 'd) fetch \<Rightarrow> ('g, 'd) fetch option" where
  "Fetch_updateGrps C f =
     (if \<not> f_ready f then None
      else do { fl \<leftarrow> Fetchlist_read (sp_file (f_sp f) (str_of (spool_dir (ce_env C) @ ''/fetchlist'')));
                update_loop C fl f })"

subsection \<open>Requests\<close>

fun remove_reqs :: "cstr \<Rightarrow> cstr list \<Rightarrow> req \<Rightarrow> req option" where
  "remove_reqs srv [] rq = Some rq"
| "remove_reqs srv (m # ms) rq = do { rq1 \<leftarrow> Req_remove srv m rq; remove_reqs srv ms rq1 }"

text \<open>The lines that \<open>Utl_getLn\<close> reads.\<close>

function list_lines :: "cstr \<Rightarrow> cstr list option" where
  "list_lines p =
     (case Utl_getLn p of
        No_line \<Rightarrow> Some []
      | Past_end l \<Rightarrow> None
      | Got_line l p' \<Rightarrow> map_option ((#) l) (list_lines p'))"
  by pat_completeness auto

termination
  by (relation "measure length") (auto simp: Utl_getLn_def dest: getLn_loop_shorter)

declare list_lines.simps [simp del]

definition flush_reqs :: "('g, 'd) cenv \<Rightarrow> cstr \<Rightarrow> ('g, 'd) fetch \<Rightarrow> ('g, 'd) fetch option" where
  "flush_reqs C lst f =
     do { c \<leftarrow> Client_retrieveArtList C lst (f_cl f);
          ms \<leftarrow> list_lines lst;
          rq \<leftarrow> remove_reqs (f_serv f) ms (cl_req c);
          Some (put_cl f (c\<lparr>cl_req := rq\<rparr>)) }"

text \<open>The loop; \<open>n\<close> bounds its turns.\<close>

fun getReq_loop :: "nat \<Rightarrow> ('g, 'd) cenv \<Rightarrow> cstr \<Rightarrow> cstr \<Rightarrow> nat \<Rightarrow> ('g, 'd) fetch \<Rightarrow> (cstr \<times> ('g, 'd) fetch) option" where
  "getReq_loop 0 C msgId lst cnt f = None"
| "getReq_loop (Suc n) C msgId lst cnt f =
     do { let lst1 = lst @ msgId @ [LF];
          (lst2, f1) \<leftarrow> (if Suc cnt mod 20 = 0 then do { f1 \<leftarrow> flush_reqs C lst1 f; Some ([], f1) } else Some (lst1, f));
          (r, rq) \<leftarrow> Req_next (cl_req (f_cl f1));
          let f2 = put_cl f1 ((f_cl f1)\<lparr>cl_req := rq\<rparr>);
          case r of None \<Rightarrow> Some (lst2, f2) | Some m \<Rightarrow> getReq_loop n C m lst2 (Suc cnt) f2 }"

definition Fetch_getReq :: "nat \<Rightarrow> ('g, 'd) cenv \<Rightarrow> ('g, 'd) fetch \<Rightarrow> ('g, 'd) fetch option" where
  "Fetch_getReq n C f =
     (if \<not> f_ready f then None
      else do { (r, rq) \<leftarrow> Req_first (f_serv f) (cl_req (f_cl f));
                let f1 = put_cl f ((f_cl f)\<lparr>cl_req := rq\<rparr>);
                (lst, f2) \<leftarrow> (case r of None \<Rightarrow> Some ([], f1) | Some m \<Rightarrow> getReq_loop n C m [] 0 f1);
                flush_reqs C lst f2 })"

subsection \<open>Posting\<close>

text \<open>Who sent an article that was not accepted; only the log depends on it.\<close>

definition sender_known :: "('g, 'd) cenv \<Rightarrow> cstr \<Rightarrow> bool option" where
  "sender_known C tx =
     do { sender \<leftarrow> Utl_cpyStr (mailTo (ce_cfg C));
          if sender \<noteq> [] then Some True
          else do { (a, s) \<leftarrow> Prt_searchHeader (before (ce_env C)) tx ''SENDER'' sender;
                    if a then Some True
                    else do { (b, s) \<leftarrow> Prt_searchHeader (before (ce_env C)) tx ''X-NOFFLE-X-SENDER'' s;
                              if b then Some True
                              else map_option fst (Prt_searchHeader (before (ce_env C)) tx ''FROM'' s) } } }"

definition on_files :: "((cstr \<Rightarrow> cstr option) \<Rightarrow> (cstr \<Rightarrow> cstr option)) \<Rightarrow> ('g, 'd) fetch \<Rightarrow> ('g, 'd) fetch" where
  "on_files g f = put_sp f ((f_sp f)\<lparr>sp_file := g (sp_file (f_sp f))\<rparr>)"

lemma Out_next_shorter:
  "Out_next dir fs ou = Some (Some mt, ou1) \<Longrightarrow>
     (case o_dir ou1 of None \<Rightarrow> 0 | Some ds \<Rightarrow> length ds) < (case o_dir ou of None \<Rightarrow> 0 | Some ds \<Rightarrow> length ds)"
  by (auto simp: Out_next_def split: option.split_asm list.split_asm bind_splits)

text \<open>\<open>ou\<close> is the directory that \<open>outgoing.c\<close> reads.\<close>

function post_loop :: "('g, 'd) cenv \<Rightarrow> cstr \<Rightarrow> cstr \<Rightarrow> outgoing \<Rightarrow> ('g, 'd) fetch \<Rightarrow> ('g, 'd) fetch option" where
  "post_loop C msgId tx ou f =
     do { let f1 = on_files (Out_remove (spool_dir (ce_env C)) (f_serv f) msgId) f;
          (ok, c) \<leftarrow> Client_postArt C tx (f_cl f1);
          _ \<leftarrow> (if \<not> ok then sender_known C tx else Some True);
          let f2 = put_cl f1 c;
          (r, ou1) \<leftarrow> Out_next (spool_dir (ce_env C)) (sp_file (f_sp f2)) ou;
          case r of None \<Rightarrow> Some f2 | Some (m, t) \<Rightarrow> post_loop C m t ou1 f2 }"
  by pat_completeness auto

termination
  by (relation "measure (\<lambda>(C, m, t, ou, f). case o_dir ou of None \<Rightarrow> 0 | Some ds \<Rightarrow> length ds)")
    (auto dest: Out_next_shorter)

declare post_loop.simps [simp del]

text \<open>\<open>listing\<close> is what \<open>readdir\<close> gives for the queue of the server.\<close>

definition Fetch_postArts :: "('g, 'd) cenv \<Rightarrow> cstr list option \<Rightarrow> ('g, 'd) fetch \<Rightarrow> ('g, 'd) fetch option" where
  "Fetch_postArts C listing f =
     do { (r, ou) \<leftarrow> Out_first (spool_dir (ce_env C)) listing (sp_file (f_sp f)) (f_serv f) outgoing_init;
          case r of None \<Rightarrow> Some f | Some (m, t) \<Rightarrow> post_loop C m t ou f }"

subsection \<open>The server online\<close>

definition hand_back :: "('g, 'd) server \<Rightarrow> ('g, 'd) client \<Rightarrow> ('g, 'd) server" where
  "hand_back s c = s\<lparr>srv_sp := cl_sp c, srv_req := cl_req c\<rparr>"

definition fetch_of :: "('g, 'd) server \<Rightarrow> ('g, 'd) fetch" where
  "fetch_of s = fetch_start (srv_sp s) (srv_req s)"

text \<open>The end of \<open>checkNewArts\<close>.\<close>

definition online_getNewArts :: "('g, 'd) cenv \<Rightarrow> cstr \<Rightarrow> cstr \<Rightarrow> ('g, 'd) server \<Rightarrow> ('g, 'd) server option" where
  "online_getNewArts C srv grp s =
     do { (ok, f) \<leftarrow> Fetch_init C srv (fetch_of s);
          if \<not> ok then Some (hand_back s (f_cl f))
          else do { f1 \<leftarrow> Fetch_getNewArts C grp OVER f; f2 \<leftarrow> Fetch_close C f1; Some (hand_back s (f_cl f2)) } }"

text \<open>The end of \<open>retrieveArt\<close>.\<close>

definition online_retrieveArt :: "('g, 'd) cenv \<Rightarrow> cstr \<Rightarrow> cstr \<Rightarrow> ('g, 'd) server \<Rightarrow> (bool \<times> ('g, 'd) server) option" where
  "online_retrieveArt C srv msgId s =
     do { (ok, c) \<leftarrow> Client_connect C srv (client_init (srv_sp s) (srv_req s));
          if \<not> ok then Some (False, hand_back s c)
          else do { c1 \<leftarrow> Client_retrieveArt C msgId c; c2 \<leftarrow> Client_disconnect C c1; Some (True, hand_back s c2) } }"

fun post_servers :: "('g, 'd) cenv \<Rightarrow> (cstr \<Rightarrow> cstr list option) \<Rightarrow> cstr list \<Rightarrow> ('g, 'd) server \<Rightarrow> ('g, 'd) server option" where
  "post_servers C listing [] s = Some s"
| "post_servers C listing (srv # srvs) s =
     do { (ok, f) \<leftarrow> Fetch_init C srv (fetch_of s);
          s1 \<leftarrow> (if \<not> ok then Some (hand_back s (f_cl f))
                 else do { f1 \<leftarrow> Fetch_postArts C (listing srv) f; f2 \<leftarrow> Fetch_close C f1; Some (hand_back s (f_cl f2)) });
          post_servers C listing srvs s1 }"

text \<open>\<open>postArts\<close>: \<open>Cfg_nextServ\<close> gives the servers in their order.\<close>

definition online_postArts :: "('g, 'd) cenv \<Rightarrow> (cstr \<Rightarrow> cstr list option) \<Rightarrow> ('g, 'd) server \<Rightarrow> ('g, 'd) server option" where
  "online_postArts C listing s = post_servers C listing (map sv_name (serv (ce_cfg C))) s"

text \<open>The environment of a server whose client is the one above.\<close>

definition go_online :: "bool \<Rightarrow> (cstr \<Rightarrow> 16 word \<Rightarrow> peer list option) \<Rightarrow> (cstr \<Rightarrow> cstr list option) \<Rightarrow> ('g, 'd) senv \<Rightarrow> ('g, 'd) senv" where
  "go_online sig hosts listing S =
     (let C = \<lparr>ce_env = se_env S, ce_cfg = se_cfg S, ce_gen = se_gen S, ce_sig = sig, ce_hosts = hosts\<rparr>
      in S\<lparr>net_getNewArts := online_getNewArts C, net_retrieveArt := online_retrieveArt C,
           net_postArts := online_postArts C listing\<rparr>)"

end
