(* ===== verification/ServerArticle.thy ===== *)
theory ServerArticle
  imports Server
begin

text \<open>
  The second part of \<^verbatim>\<open>noffle-1.0.1/src/server.c\<close>: ARTICLE, BODY and HEAD, with everything that
  reading an article changes: the times and marks of it and of the articles it refers to, the
  requests for articles that are not there yet, and the automatic subscription of its group.

  \<open>touchReferences\<close> keeps a pointer into the buffer \<open>db.ref\<close> while it loads other articles into it;
  the buffer is passed along as \<open>mem\<close>, with the position that the pointer has in it.
\<close>

abbreviation set_db :: "('g, 'd) server \<Rightarrow> 'd database \<Rightarrow> ('g, 'd) server" where
  "set_db s db \<equiv> s\<lparr>srv_sp := (srv_sp s)\<lparr>sp_db := db\<rparr>\<rparr>"

abbreviation set_grp :: "('g, 'd) server \<Rightarrow> 'g grp \<Rightarrow> ('g, 'd) server" where
  "set_grp s g \<equiv> s\<lparr>srv_sp := (srv_sp s)\<lparr>sp_grp := g\<rparr>\<rparr>"

abbreviation srv_db :: "('g, 'd) server \<Rightarrow> 'd database" where
  "srv_db s \<equiv> sp_db (srv_sp s)"

subsection \<open>Interest in a group\<close>

definition auto_mode :: "cstr \<Rightarrow> FetchMode" where
  "auto_mode m = (if m = ''full'' then FULL else if m = ''thread'' then THREAD else OVER)"

definition srv_Fetchlist_write :: "('g, 'd) senv \<Rightarrow> ('g, 'd) server \<Rightarrow> ('g, 'd) server" where
  "srv_Fetchlist_write S s =
     (let p = fetchlist_path S;
          (fl, _, f) = Fetchlist_write (can_write (se_env S) p) (srv_fl s) (sp_file (srv_sp s) p)
      in s\<lparr>srv_fl := fl, srv_sp := (srv_sp s)\<lparr>sp_file := (sp_file (srv_sp s))(p := f)\<rparr>\<rparr>)"

definition noteGroup :: "('g, 'd) senv \<Rightarrow> ('g, 'd) server \<Rightarrow> ('g, 'd) server option" where
  "noteGroup S s =
     (if Fetchlist_contains (srv_fl s) (srv_grp s) then Some s
      else if autoSubscribe (se_cfg S) \<noteq> 0 then
        do { (_, fl) \<leftarrow> Fetchlist_add (srv_grp s) (auto_mode (autoSubscribeMode (se_cfg S))) (srv_fl s);
             let s1 = srv_Fetchlist_write S (s\<lparr>srv_fl := fl\<rparr>);
             sp \<leftarrow> Pseudo_autoSubscribed (se_env S) (se_gen S) (srv_sp s1);
             Some (s1\<lparr>srv_sp := sp\<rparr>) }
      else if infoAlways (se_cfg S) \<noteq> 0 then
        do { let f = first (srv_cont s);
             let l = last_nr (srv_cont s);
             g \<leftarrow> Grp_setFirstLast (if f = l then l + 1 else f) l (glib S) (grp_name (srv_cont s)) (sp_grp (srv_sp s));
             Some (set_grp s g) }
      else Some s)"

definition noteInterest :: "('g, 'd) senv \<Rightarrow> ('g, 'd) server \<Rightarrow> ('g, 'd) server option" where
  "noteInterest S s =
     do { g \<leftarrow> Grp_setLastAccess (sint (clock (se_env S))) (glib S) (srv_grp s) (sp_grp (srv_sp s));
          (loc, s1) \<leftarrow> grp_local S (srv_grp s) (set_grp s g);
          if loc \<or> online S s1 then Some s1
          else do { s2 \<leftarrow> srv_Fetchlist_read S s1; noteGroup S s2 } }"

subsection \<open>The server of an article\<close>

definition is_blank :: "char \<Rightarrow> bool" where
  "is_blank c \<longleftrightarrow> c = CHR '' '' \<or> c = TAB"

fun find_xrefs :: "('g, 'd) senv \<Rightarrow> cstr list \<Rightarrow> cstr \<Rightarrow> ('g, 'd) server \<Rightarrow> (cstr \<times> ('g, 'd) server) option" where
  "find_xrefs S [] result s = Some (result, s)"
| "find_xrefs S (p # ps) result s =
     (case cstrstr p '':'' of
        None \<Rightarrow> find_xrefs S ps result s
      | Some pColon \<Rightarrow>
          do { grp \<leftarrow> Utl_cpyStrN p (int (length p) - int (length pColon));
               (srv, s1) \<leftarrow> grp_server S grp s;
               if Cfg_servIsPreferential (se_cfg S) srv result
               then do { r \<leftarrow> Utl_cpyStr srv; find_xrefs S ps r s1 }
               else find_xrefs S ps result s1 })"

definition findServer :: "('g, 'd) senv \<Rightarrow> cstr \<Rightarrow> ('g, 'd) server \<Rightarrow> (cstr \<times> ('g, 'd) server) option" where
  "findServer S msgId s =
     (if Db_contains (dlib S) msgId (srv_db s) then
        do { (x, db) \<leftarrow> Db_xref (dlib S) msgId (srv_db s);
             t \<leftarrow> Utl_cpyStr x;
             find_xrefs S (words_of is_blank t) ''(unknown)'' (set_db s db) }
      else Some (''(unknown)'', s))"

definition retrieveArt :: "('g, 'd) senv \<Rightarrow> cstr \<Rightarrow> ('g, 'd) server \<Rightarrow> (bool \<times> ('g, 'd) server) option" where
  "retrieveArt S msgId s =
     do { (srv, s1) \<leftarrow> findServer S msgId s;
          if srv = ''(unknown)'' \<or> srv = GRP_LOCAL_SERVER_NAME then Some (False, s1)
          else net_retrieveArt S srv msgId s1 }"

subsection \<open>Touched articles\<close>

definition touchArticle :: "('g, 'd) senv \<Rightarrow> cstr \<Rightarrow> 'd database \<Rightarrow> 'd database option" where
  "touchArticle S msgId db =
     do { (st, db1) \<leftarrow> Db_status (dlib S) msgId db;
          db2 \<leftarrow> Db_setStatus (st OR DB_INTERESTING) (dlib S) msgId db1;
          Db_updateLastAccess (clock (se_env S)) (dlib S) msgId db2 }"

text \<open>The next message ID in the buffer from a position on, and the position of its end; \<open>None\<close> inside is
  the end of the references, outside a read behind what is known of the buffer.\<close>

definition next_ref :: "cstr \<Rightarrow> nat \<Rightarrow> (cstr \<times> nat) option option" where
  "next_ref mem pos =
     (let r = drop pos mem; a = takeWhile (\<lambda>c. c \<noteq> CHR ''<'' \<and> c \<noteq> NUL) r in
      case drop (length a) r of
        [] \<Rightarrow> None
      | c # _ \<Rightarrow>
          if c = NUL then Some None
          else let q = drop (length a) r; b = takeWhile (\<lambda>c. c \<noteq> CHR ''>'' \<and> c \<noteq> NUL) q in
               if length b \<ge> MAXCHAR - 1 then Some None
               else case drop (length b) q of
                      [] \<Rightarrow> None
                    | d # _ \<Rightarrow> if d = NUL then Some None
                               else Some (Some (b @ ''>'', pos + length a + length b)))"

text \<open>Loading an article writes its references over the start of the buffer.  The position grows with
  every turn, so \<open>MAXCHAR\<close> turns are enough.\<close>

definition load_ref :: "cstr \<Rightarrow> cstr \<Rightarrow> cstr" where
  "load_ref ref mem = ref @ NUL # drop (Suc (length ref)) mem"

fun touch_loop :: "nat \<Rightarrow> ('g, 'd) senv \<Rightarrow> cstr \<Rightarrow> nat \<Rightarrow> 'd database \<Rightarrow> 'd database option" where
  "touch_loop 0 S mem pos db = None"
| "touch_loop (Suc n) S mem pos db =
     do { r \<leftarrow> next_ref mem pos;
          case r of
            None \<Rightarrow> Some db
          | Some (m, pos') \<Rightarrow>
              if Db_contains (dlib S) m db
              then do { db' \<leftarrow> touchArticle S m db; touch_loop n S (load_ref (a_ref (db_art db')) mem) pos' db' }
              else touch_loop n S mem pos' db }"

definition touchReferences :: "('g, 'd) senv \<Rightarrow> cstr \<Rightarrow> 'd database \<Rightarrow> 'd database option" where
  "touchReferences S msgId db =
     do { (ref, db1) \<leftarrow> Db_ref (dlib S) msgId db; touch_loop MAXCHAR S (ref @ [NUL]) 0 db1 }"

subsection \<open>Bodies and headers\<close>

text \<open>The status, after an attempt to retrieve the article, and what is printed for a status.\<close>

definition body_status :: "('g, 'd) senv \<Rightarrow> cstr \<Rightarrow> ('g, 'd) server \<Rightarrow> (u32 \<times> ('g, 'd) server) option" where
  "body_status S msgId s =
     do { (st, db) \<leftarrow> Db_status (dlib S) msgId (srv_db s);
          let s1 = set_db s db;
          if online S s1 \<and> st AND DB_NOT_DOWNLOADED \<noteq> 0
          then do { (_, s2) \<leftarrow> retrieveArt S msgId s1;
                    (st2, db2) \<leftarrow> Db_status (dlib S) msgId (srv_db s2);
                    Some (st2, set_db s2 db2) }
          else Some (st, s1) }"

definition put_body :: "('g, 'd) senv \<Rightarrow> cstr \<Rightarrow> 'd database \<Rightarrow> ('g, 'd) server \<Rightarrow> ('g, 'd) server option" where
  "put_body S msgId db s =
     do { (b, db1) \<leftarrow> Db_body (dlib S) msgId db; Some (putTxtBuf (Some b) (set_db s db1)) }"

definition put_mark :: "('g, 'd) senv \<Rightarrow> cstr \<Rightarrow> ('g, 'd) server \<Rightarrow> ('g, 'd) server option" where
  "put_mark S msgId s =
     do { (srv, s1) \<leftarrow> findServer S msgId s;
          (c, rq) \<leftarrow> Req_contains srv msgId (srv_req s1);
          let s2 = s1\<lparr>srv_req := rq\<rparr>;
          if c then Some (putTxtBuf (Some Pseudo_alreadyMarkedBody) s2)
          else if srv \<noteq> ''(unknown)'' \<and> srv \<noteq> GRP_LOCAL_SERVER_NAME then
            do { (ok, rq2) \<leftarrow> Req_add srv msgId (srv_req s2);
                 Some (putTxtBuf (Some (if ok then Pseudo_markedBody else Pseudo_markingFailedBody)) (s2\<lparr>srv_req := rq2\<rparr>)) }
          else Some (putTxtBuf (Some Pseudo_markingFailedBody) s2) }"

definition doBodyInDb :: "('g, 'd) senv \<Rightarrow> cstr \<Rightarrow> ('g, 'd) server \<Rightarrow> ('g, 'd) server option" where
  "doBodyInDb S msgId s =
     do { db1 \<leftarrow> touchArticle S msgId (srv_db s);
          db2 \<leftarrow> touchReferences S msgId db1;
          (st, s2) \<leftarrow> body_status S msgId (set_db s db2);
          if st AND DB_RETRIEVING_FAILED \<noteq> 0 then
            do { db4 \<leftarrow> Db_setStatus (st AND NOT DB_RETRIEVING_FAILED) (dlib S) msgId (srv_db s2);
                 put_body S msgId db4 s2 }
          else if st AND DB_NOT_DOWNLOADED \<noteq> 0 then put_mark S msgId s2
          else put_body S msgId (srv_db s2) s2 }"

definition doHeadInDb :: "('g, 'd) senv \<Rightarrow> cstr \<Rightarrow> ('g, 'd) server \<Rightarrow> ('g, 'd) server option" where
  "doHeadInDb S msgId s =
     do { (h, db) \<leftarrow> Db_header (str_of (''Xref: '' @ se_host S)) (se_date S) (dlib S) msgId (srv_db s);
          Some (putTxtBuf h (set_db s db)) }"

definition doArtInDb :: "('g, 'd) senv \<Rightarrow> cstr \<Rightarrow> ('g, 'd) server \<Rightarrow> ('g, 'd) server option" where
  "doArtInDb S msgId s = do { s1 \<leftarrow> doHeadInDb S msgId s; doBodyInDb S msgId (putTxtLn [] s1) }"

definition put_info_head :: "('g, 'd) senv \<Rightarrow> ('g, 'd) server \<Rightarrow> ('g, 'd) server option" where
  "put_info_head S s =
     do { h \<leftarrow> Pseudo_generalInfoHead (se_gen S) (autoSubscribe (se_cfg S) \<noteq> 0); Some (putTxtBuf (Some h) s) }"

definition put_info_body :: "('g, 'd) senv \<Rightarrow> ('g, 'd) server \<Rightarrow> ('g, 'd) server" where
  "put_info_body S s = putTxtBuf (Some (Pseudo_generalInfoBody (autoSubscribe (se_cfg S) \<noteq> 0))) s"

definition doBody :: "('g, 'd) senv \<Rightarrow> cstr \<Rightarrow> ('g, 'd) server \<Rightarrow> (bool \<times> ('g, 'd) server) option" where
  "doBody S arg s =
     do { (r, s1) \<leftarrow> whichId S arg s;
          case r of
            None \<Rightarrow> Some (True, s1)
          | Some (msgId, numb) \<Rightarrow>
              do { let s2 = putStat STAT_BODY_FOLLOWS (dec_int numb @ '' '' @ msgId @ '' Body'') s1;
                   s3 \<leftarrow> (if Pseudo_isGeneralInfo msgId then Some (put_info_body S s2) else doBodyInDb S msgId s2);
                   s4 \<leftarrow> noteInterest S (putEndOfTxt s3);
                   Some (True, s4) } }"

definition doHead :: "('g, 'd) senv \<Rightarrow> cstr \<Rightarrow> ('g, 'd) server \<Rightarrow> (bool \<times> ('g, 'd) server) option" where
  "doHead S arg s =
     do { (r, s1) \<leftarrow> whichId S arg s;
          case r of
            None \<Rightarrow> Some (True, s1)
          | Some (msgId, numb) \<Rightarrow>
              do { let s2 = putStat STAT_HEAD_FOLLOWS (dec_int numb @ '' '' @ msgId @ '' Head'') s1;
                   s3 \<leftarrow> (if Pseudo_isGeneralInfo msgId then put_info_head S s2 else doHeadInDb S msgId s2);
                   Some (True, putEndOfTxt s3) } }"

definition doArt :: "('g, 'd) senv \<Rightarrow> cstr \<Rightarrow> ('g, 'd) server \<Rightarrow> (bool \<times> ('g, 'd) server) option" where
  "doArt S arg s =
     do { (r, s1) \<leftarrow> whichId S arg s;
          case r of
            None \<Rightarrow> Some (True, s1)
          | Some (msgId, numb) \<Rightarrow>
              do { let s2 = putStat STAT_ART_FOLLOWS (dec_int numb @ '' '' @ msgId @ '' Article'') s1;
                   s3 \<leftarrow> (if Pseudo_isGeneralInfo msgId
                          then map_option (\<lambda>s. put_info_body S (putTxtLn [] s)) (put_info_head S s2)
                          else doArtInDb S msgId s2);
                   s4 \<leftarrow> noteInterest S (putEndOfTxt s3);
                   Some (True, s4) } }"

end
