(* ===== verification/ServerList.thy ===== *)
theory ServerList
  imports ServerArticle
begin

text \<open>
  The third part of \<^verbatim>\<open>noffle-1.0.1/src/server.c\<close>: LIST with its variants and NEWGROUPS.

  The loop over all groups has fuel, which \<open>se_groups\<close> bounds; the lines of a list with wildcards go
  through a pipe to \<open>sort\<close>.  A group name is the key of the group data base up to its NUL.
\<close>

definition containsWildcards :: "cstr \<Rightarrow> bool" where
  "containsWildcards pattern \<longleftrightarrow> (\<exists>c \<in> set pattern. c \<in> set (''?*['' @ [CHR 0x5C]))"

text \<open>A function that prints a group into a line.\<close>

type_synonym ('g, 'd) print_proc = "('g, 'd) senv \<Rightarrow> cstr \<Rightarrow> ('g, 'd) server \<Rightarrow> (cstr \<times> ('g, 'd) server) option"

text \<open>The loop over the groups; \<open>stop\<close> says that it ends at the first line that cannot be written.\<close>

fun group_loop :: "nat \<Rightarrow> bool \<Rightarrow> ('g, 'd) senv \<Rightarrow> ('g, 'd) print_proc \<Rightarrow> cstr \<Rightarrow> cstr option \<Rightarrow> ofile \<Rightarrow> ('g, 'd) server
    \<Rightarrow> (ofile \<times> ('g, 'd) server) option" where
  "group_loop n stop S pr pat None f s = Some (f, s)"
| "group_loop 0 stop S pr pat (Some key) f s = None"
| "group_loop (Suc n) stop S pr pat (Some key) f s =
     do { m \<leftarrow> Wld_match (key_str key) pat;
          (ok, f1, s1) \<leftarrow> (if m then do { (line, s1) \<leftarrow> pr S (key_str key) s;
                                         (let (b, f1) = Prt_putTxtLn line f in Some (b, f1, s1)) }
                          else Some (True, f, s));
          if \<not> ok \<and> stop then Some (f1, s1)
          else group_loop n stop S pr pat (Grp_nextGrp (glib S) (Some key) (sp_grp (srv_sp s1))) f1 s1 }"

definition printGroups :: "('g, 'd) senv \<Rightarrow> cstr \<Rightarrow> ('g, 'd) print_proc \<Rightarrow> ('g, 'd) server \<Rightarrow> ('g, 'd) server option" where
  "printGroups S pat pr s =
     (let s0 = putStat STAT_GRPS_FOLLOW ''Groups'' s in
      if containsWildcards pat then
        (let key = Grp_firstGrp (glib S) (sp_grp (srv_sp s0)) in
         case se_sort S of
           None \<Rightarrow>
             do { (f, s1) \<leftarrow> group_loop (se_groups S) False S pr pat key (srv_out s0) s0;
                  Some (putEndOfTxt (s1\<lparr>srv_out := f\<rparr>)) }
         | Some srt \<Rightarrow>
             do { (f, s1) \<leftarrow> group_loop (se_groups S) True S pr pat key \<lparr>written = [], room = se_pipe S\<rparr> s0;
                  Some (putEndOfTxt (emit (srt (written f)) s1)) })
      else if Grp_exists (glib S) pat (sp_grp (srv_sp s0)) then
        do { (line, s1) \<leftarrow> pr S pat s0;
             Some (putEndOfTxt (s1\<lparr>srv_out := snd (Prt_putTxtLn line (srv_out s1))\<rparr>)) }
      else Some (putEndOfTxt s0))"

definition printActiveTimes :: "('g, 'd) print_proc" where
  "printActiveTimes S grp s =
     do { (c, g) \<leftarrow> Grp_created (glib S) grp (sp_grp (srv_sp s)); Some (str_of (grp @ '' '' @ dec_int c), set_grp s g) }"

definition printActive :: "('g, 'd) print_proc" where
  "printActive S grp s =
     do { (l, g) \<leftarrow> Grp_last (glib S) grp (sp_grp (srv_sp s));
          (b, s1) \<leftarrow> needsPseudoGenInfo S grp (set_grp s g);
          (f, g1) \<leftarrow> Grp_first (glib S) grp (sp_grp (srv_sp s1));
          (p, g2) \<leftarrow> Grp_postAllow (glib S) grp g1;
          Some (str_of (grp @ '' '' @ dec_int (if b then l + 1 else l) @ '' '' @ dec_int f @ '' '' @ takeWhile (\<lambda>c. c \<noteq> NUL) [p]),
                set_grp s1 g2) }"

definition printNewsgrp :: "('g, 'd) print_proc" where
  "printNewsgrp S grp s =
     do { (d, g) \<leftarrow> Grp_dsc (glib S) grp (sp_grp (srv_sp s));
          dsc \<leftarrow> d;
          Some (str_of (grp @ '' '' @ dsc), set_grp s g) }"

definition doListActiveTimes :: "('g, 'd) senv \<Rightarrow> cstr \<Rightarrow> ('g, 'd) server \<Rightarrow> ('g, 'd) server option" where
  "doListActiveTimes S pat = printGroups S pat printActiveTimes"

definition doListActive :: "('g, 'd) senv \<Rightarrow> cstr \<Rightarrow> ('g, 'd) server \<Rightarrow> ('g, 'd) server option" where
  "doListActive S pat s = do { s1 \<leftarrow> srv_Fetchlist_read S s; printGroups S pat printActive s1 }"

definition doListNewsgrps :: "('g, 'd) senv \<Rightarrow> cstr \<Rightarrow> ('g, 'd) server \<Rightarrow> ('g, 'd) server option" where
  "doListNewsgrps S pat = printGroups S pat printNewsgrp"

definition doListOverFmt :: "('g, 'd) server \<Rightarrow> ('g, 'd) server" where
  "doListOverFmt s =
     putEndOfTxt (putTxtBuf (Some (text_of [''Subject:'', ''From:'', ''Date:'', ''Message-ID:'', ''References:'',
       ''Bytes:'', ''Lines:''])) (putStat STAT_GRPS_FOLLOW ''Overview format'' s))"

definition doListExtensions :: "('g, 'd) server \<Rightarrow> ('g, 'd) server" where
  "doListExtensions s =
     putEndOfTxt (putTxtBuf (Some (text_of ['' LISTGROUP'', '' XOVER''])) (putStat STAT_CMD_OK ''Extensions'' s))"

definition doList :: "('g, 'd) senv \<Rightarrow> cstr \<Rightarrow> cstr \<Rightarrow> ('g, 'd) server \<Rightarrow> (bool \<times> ('g, 'd) server) option" where
  "doList S syntax line s =
     map_option (Pair True)
       (case scan_s line of
          None \<Rightarrow> doListActive S ''*'' s
        | Some (w, _) \<Rightarrow>
            do { let t = Utl_toLower w;
                 p \<leftarrow> strip_at (before (se_env S)) (Utl_restOfLn line 1);
                 let pat = (if p = [] then ''*'' else p);
                 if t = ''active'' then doListActive S pat s
                 else if t = ''overview.fmt'' then Some (doListOverFmt s)
                 else if t = ''newsgroups'' then doListNewsgrps S pat s
                 else if t = ''active.times'' then doListActiveTimes S pat s
                 else if t = ''extensions'' then Some (doListExtensions s)
                 else Some (putSyntax syntax s) })"

subsection \<open>New groups\<close>

text \<open>\<open>%2d\<close> and \<open>%4d\<close>: at most so many characters behind the white space.\<close>

definition scan_wd :: "nat \<Rightarrow> cstr \<Rightarrow> (int \<times> cstr) option" where
  "scan_wd w s =
     (let t = dropWhile cisspace s in
      map_option (\<lambda>(i, r). (i, r @ drop w t)) (scan_d (take w t)))"

definition scan_3d :: "nat \<Rightarrow> cstr \<Rightarrow> (int \<times> int \<times> int) option" where
  "scan_3d w t = do { (a, r) \<leftarrow> scan_wd w t; (b, r1) \<leftarrow> scan_wd 2 r; (c, _) \<leftarrow> scan_wd 2 r1; Some (a, b, c) }"

text \<open>The century of a year of two digits, with fuel.\<close>

fun cent_loop :: "nat \<Rightarrow> ('g, 'd) senv \<Rightarrow> int \<Rightarrow> int \<Rightarrow> int option" where
  "cent_loop 0 S now cent = None"
| "cent_loop (Suc n) S now cent =
     (let nextCentBegin = se_mktime S (cent + 100) 1 1 0 0 0 in
      if nextCentBegin \<noteq> -1 \<and> now \<noteq> -1 \<and> now > nextCentBegin then cent_loop n S now (cent + 100) else Some cent)"

fun newgrps_loop :: "nat \<Rightarrow> ('g, 'd) senv \<Rightarrow> int \<Rightarrow> cstr option \<Rightarrow> ('g, 'd) server \<Rightarrow> ('g, 'd) server option" where
  "newgrps_loop n S t None s = Some s"
| "newgrps_loop 0 S t (Some key) s = None"
| "newgrps_loop (Suc n) S t (Some key) s =
     do { (c, g) \<leftarrow> Grp_created (glib S) (key_str key) (sp_grp (srv_sp s));
          let s1 = set_grp s g;
          s2 \<leftarrow> (if c > t then
                   do { (l, g1) \<leftarrow> Grp_last (glib S) (key_str key) (sp_grp (srv_sp s1));
                        (f, g2) \<leftarrow> Grp_first (glib S) (key_str key) g1;
                        Some (putTxtLn (key_str key @ '' '' @ fmt_lu l @ '' '' @ fmt_lu f @ '' y'') (set_grp s1 g2)) }
                 else Some s1);
          newgrps_loop n S t (Grp_nextGrp (glib S) (Some key) (sp_grp (srv_sp s2))) s2 }"

text \<open>The date: year, month and day, the inner option is a syntax error.\<close>

definition newgrps_date :: "('g, 'd) senv \<Rightarrow> cstr \<Rightarrow> (int \<times> int \<times> int) option option" where
  "newgrps_date S date =
     (if length date = 6 then
        (case scan_3d 2 date of
           None \<Rightarrow> Some None
         | Some (y, m, d) \<Rightarrow>
             do { cent \<leftarrow> cent_loop 30 S (sint (clock (se_env S))) 1900; Some (Some (y + cent, m, d)) })
      else if length date = 8 then Some (scan_3d 4 date)
      else Some None)"

definition doNewgrps :: "('g, 'd) senv \<Rightarrow> cstr \<Rightarrow> cstr \<Rightarrow> ('g, 'd) server \<Rightarrow> (bool \<times> ('g, 'd) server) option" where
  "doNewgrps S syntax arg s =
     map_option (Pair True)
       (case scan_s arg of
          None \<Rightarrow> Some (putSyntax syntax s)
        | Some (date, r) \<Rightarrow>
            (case scan_s r of
               None \<Rightarrow> Some (putSyntax syntax s)
             | Some (timeofday, _) \<Rightarrow>
                 do { ymd \<leftarrow> newgrps_date S date;
                      case (ymd, scan_3d 2 timeofday) of
                        (Some (year, mon, day), Some (hour, mnt, scd)) \<Rightarrow>
                          if year < 1970 \<or> mon < 1 \<or> mon > 12 \<or> day < 1 \<or> day > 31 \<or> hour < 0 \<or> hour > 23
                             \<or> mnt < 0 \<or> mnt > 59 \<or> scd < 0 \<or> scd > 60
                          then Some (putSyntax syntax s)
                          else
                            do { let t = se_mktime S year mon day hour mnt scd;
                                 let s1 = putStat STAT_NEW_GRP_FOLLOW (''New groups since '' @ arg) s;
                                 let stamp = Utl_getStamp (sp_file (srv_sp s1)
                                       (str_of (spool_dir (se_env S) @ ''/groupinfo.lastupdate'')));
                                 s2 \<leftarrow> (if stamp = None \<or> t = -1 \<or> t \<le> sint (word_of_nat (the stamp) :: u32)
                                        then newgrps_loop (se_groups S) S t (Grp_firstGrp (glib S) (sp_grp (srv_sp s1))) s1
                                        else Some s1);
                                 Some (putEndOfTxt s2) }
                      | _ \<Rightarrow> Some (putSyntax syntax s) }))"

end
