(* ===== verification/Control.thy ===== *)
theory Control
  imports Post Outgoing Expire
begin

text \<open>
  Cancelling an article, \<^verbatim>\<open>noffle-1.0.1/src/control.c\<close>: it is removed from the outgoing queue, from the
  overviews of its groups and from the data base.

  The loop over the Xref items has fuel, which \<open>Ctrl_cancel\<close> sets to the number of items.  \<open>servs\<close> is
  the directory of servers of the queue.
\<close>

definition CANCEL_OK :: int where "CANCEL_OK = 0"
definition CANCEL_NO_SUCH_MSG :: int where "CANCEL_NO_SUCH_MSG = 1"
definition CANCEL_NEEDS_MSG :: int where "CANCEL_NEEDS_MSG = 2"

text \<open>\<open>sscanf( ref, "%s:%d", grp, &no )\<close>: the conversions if there are both.\<close>

definition scan_ref :: "cstr \<Rightarrow> (cstr \<times> int) option" where
  "scan_ref ref =
     (case scan_s ref of
        None \<Rightarrow> None
      | Some (grp, r) \<Rightarrow>
          if r \<noteq> [] \<and> hd r = CHR '':'' then map_option (\<lambda>(n, _). (grp, n)) (scan_d (tl r)) else None)"

fun cancel_loop :: "nat \<Rightarrow> ('g, 'd) env \<Rightarrow> bool \<Rightarrow> cstr option \<Rightarrow> ItemList \<Rightarrow> int \<Rightarrow> ('g, 'd) spool \<Rightarrow> (int \<times> ('g, 'd) spool) option" where
  "cancel_loop n E seen None refs res s = Some (res, s)"
| "cancel_loop 0 E seen (Some ref) refs res s = None"
| "cancel_loop (Suc n) E seen (Some ref) refs res s =
     (case scan_ref ref of
        None \<Rightarrow> Some (res, s)
      | Some (grp, no) \<Rightarrow>
          do { (res', s') \<leftarrow>
                 (if Grp_exists (gdbm_g E) grp (sp_grp s) then
                    do { s1 \<leftarrow> sp_Cont_read E grp s;
                         c \<leftarrow> Cont_delete (sp_cont s1) no;
                         let s2 = sp_Cont_write E (s1\<lparr>sp_cont := c\<rparr>);
                         (loc, g) \<leftarrow> Grp_local (gdbm_g E) grp (sp_grp s2);
                         Some (if \<not> loc \<and> \<not> seen then CANCEL_NEEDS_MSG else res, s2\<lparr>sp_grp := g\<rparr>) }
                  else Some (res, s));
               (ref', refs') \<leftarrow> Itl_next refs;
               cancel_loop n E seen ref' refs' res' s' })"

definition Ctrl_cancel :: "('g, 'd) env \<Rightarrow> cstr list option \<Rightarrow> cstr \<Rightarrow> ('g, 'd) spool \<Rightarrow> (int \<times> ('g, 'd) spool) option" where
  "Ctrl_cancel E servs msgId s =
     do { found \<leftarrow> Out_find (spool_dir E) servs (sp_file s) msgId;
          let seen = (found \<noteq> None);
          let s1 = (case found of None \<Rightarrow> s
                    | Some server \<Rightarrow> s\<lparr>sp_file := Out_remove (spool_dir E) server msgId (sp_file s)\<rparr>);
          if \<not> Db_contains (gdbm_d E) msgId (sp_db s1)
          then Some (if seen then CANCEL_OK else CANCEL_NO_SUCH_MSG, s1)
          else do { (xref, db) \<leftarrow> Db_xref (gdbm_d E) msgId (sp_db s1);
                    let refs = new_Itl xref '' '';
                    (ref, refs1) \<leftarrow> Itl_first refs;
                    (res, s2) \<leftarrow> cancel_loop (Itl_count refs) E seen ref refs1 CANCEL_OK (s1\<lparr>sp_db := db\<rparr>);
                    Some (res, s2\<lparr>sp_db := Db_delete (gdbm_d E) msgId (sp_db s2)\<rparr>) } }"

subsection \<open>What cancelling does\<close>

text \<open>The conversion \<open>%s\<close> takes the colon and the number along, so the format never matches.\<close>

lemma scan_ref_None: "scan_ref ref = None"
proof -
  have "\<not> (r \<noteq> [] \<and> hd r = CHR '':'')" if "scan_s ref = Some (w, r)" for w r
  proof -
    from that have r: "r = dropWhile (\<lambda>c. \<not> cisspace c) (dropWhile cisspace ref)"
      by (auto simp: scan_s_def Let_def split: if_splits)
    show ?thesis
    proof
      assume a: "r \<noteq> [] \<and> hd r = CHR '':''"
      with hd_dropWhile [of "\<lambda>c. \<not> cisspace c" "dropWhile cisspace ref"] r have "cisspace (CHR '':'')" by simp
      then show False by (simp add: cisspace_def)
    qed
  qed
  then show ?thesis by (auto simp: scan_ref_def split: option.splits)
qed

text \<open>C35. Cancelling an article that the data base has deletes its entry there, and its file in the
  outgoing queue if it has one; but whatever its Xref field says, no overview and no group changes, and
  the answer is never that the cancel message must be passed on.\<close>

theorem Ctrl_cancel_leaves_groups:
  assumes "gdbm_laws (gdbm_d E)" "db_inv (gdbm_d E) (sp_db s)" "m \<noteq> []" "length m < MAXCHAR"
    "arts (gdbm_d E) (db_dbf (sp_db s)) m = Some a" "list_ok '' '' (a_xref a)"
    "Out_find (spool_dir E) servs (sp_file s) m = Some found"
  shows "\<exists>s'. Ctrl_cancel E servs m s = Some (CANCEL_OK, s')
    \<and> sp_cont s' = sp_cont s \<and> sp_grp s' = sp_grp s
    \<and> sp_file s' = (case found of None \<Rightarrow> sp_file s
        | Some srv \<Rightarrow> (sp_file s)(fileOutgoing (spool_dir E) srv m := None))
    \<and> arts (gdbm_d E) (db_dbf (sp_db s')) = (arts (gdbm_d E) (db_dbf (sp_db s)))(m := None)"
proof -
  let ?files = "case found of None \<Rightarrow> sp_file s | Some srv \<Rightarrow> Out_remove (spool_dir E) srv m (sp_file s)"
  have c: "Db_contains (gdbm_d E) m (sp_db s)" using Db_contains_refines [OF assms(1-3)] assms(5) by simp
  obtain db where x: "Db_xref (gdbm_d E) m (sp_db s) = Some (a_xref a, db)" "db_inv (gdbm_d E) db" "db_dbf db = db_dbf (sp_db s)"
    using art_getter_refines [OF assms(2-4), of "[]" a_xref] assms(5) by (auto simp: Db_xref_def)
  let ?it = "new_Itl (a_xref a) '' ''"
  let ?s = "s\<lparr>sp_file := ?files, sp_db := db\<rparr>"
  have n: "Itl_first ?it = Itl_next ?it" "Itl_count ?it = length (words_of (is_sep '' '') (a_xref a))"
    using separate_words [OF assms(6)]
    by (auto simp: Itl_first_def new_Itl_def Itl_count_def Let_def split: prod.splits)
  obtain ref refs where f: "Itl_first ?it = Some (ref, refs)" "ref \<noteq> None \<longrightarrow> Itl_count ?it \<noteq> 0"
  proof (cases "words_of (is_sep '' '') (a_xref a)")
    case Nil
    with Itl_next_rest(1) [OF new_Itl_buf [OF assms(6)]] itl_rest_new [OF assms(6)] n(1) that show ?thesis by auto
  next
    case (Cons w ws)
    with Itl_next_rest(2) [OF new_Itl_buf [OF assms(6)]] itl_rest_new [OF assms(6)] n that show ?thesis by auto
  qed
  have "cancel_loop (Itl_count ?it) E (found \<noteq> None) ref refs CANCEL_OK ?s = Some (CANCEL_OK, ?s)"
    using f(2) by (cases ref; cases "Itl_count ?it") (auto simp: scan_ref_None)
  moreover have "s\<lparr>sp_file := ?files\<rparr> = (case found of None \<Rightarrow> s
      | Some srv \<Rightarrow> s\<lparr>sp_file := Out_remove (spool_dir E) srv m (sp_file s)\<rparr>)" by (cases found) simp_all
  ultimately have "Ctrl_cancel E servs m s = Some (CANCEL_OK, ?s\<lparr>sp_db := Db_delete (gdbm_d E) m db\<rparr>)"
    using assms(7) c x f(1) by (cases found) (simp_all add: Ctrl_cancel_def Let_def)
  moreover have "arts (gdbm_d E) (db_dbf (Db_delete (gdbm_d E) m db)) = (arts (gdbm_d E) (db_dbf (sp_db s)))(m := None)"
    using assms(1) x(3) by (auto simp: gdbm_laws_def Db_delete_def Let_def arts_def fun_eq_iff)
  ultimately show ?thesis by (cases found) (auto simp: Out_remove_def)
qed

theorem Ctrl_cancel_leaves_groups_witness:
  "\<exists>s'. Ctrl_cancel post_env (Some [''.'', ''..'']) ''m'' (post_spool\<lparr>sp_db := sample_db\<rparr>) = Some (CANCEL_OK, s')
     \<and> sp_grp s' = sp_grp post_spool \<and> arts mem_gdbm (db_dbf (sp_db s')) ''m'' = None"
proof -
  let ?s = "post_spool\<lparr>sp_db := sample_db\<rparr>"
  have d: "gdbm_d post_env = mem_gdbm" by (simp add: post_env_def)
  have inv: "db_inv (gdbm_d post_env) (sp_db ?s)" "arts (gdbm_d post_env) (db_dbf (sp_db ?s)) ''m'' = Some sample_art"
    using sample_db_inv by (simp_all add: d)
  have m: "''m'' \<noteq> []" "length ''m'' < MAXCHAR" by (simp_all add: MAXCHAR_def)
  have x: "list_ok '' '' (a_xref sample_art)" by (simp add: sample_xref list_ok_def SEP_CHAR_def)
  have l: "gdbm_laws (gdbm_d post_env)" using mem_gdbm_laws by (simp add: d)
  have o: "Out_find (spool_dir post_env) (Some [''.'', ''..'']) (sp_file ?s) ''m'' = Some None"
    by (simp add: Out_find_def)
  from Ctrl_cancel_leaves_groups [OF l inv(1) m inv(2) x o] show ?thesis by (auto simp: d)
qed

end
