(* ===== verification/ServerPost.thy ===== *)
theory ServerPost
  imports ServerArticle Control
begin

text \<open>
  The fourth part of \<^verbatim>\<open>noffle-1.0.1/src/server.c\<close>: POST.  The article is read and its header changed,
  the groups are checked, and the article is posted to the local groups and queued for the servers of
  the others, or handled as a control message.

  \<open>article\<close> of \<^verbatim>\<open>post.c\<close> is closed between two commands.  The loops over item lists have fuel, the
  number of items.
\<close>

subsection \<open>Reading the article\<close>

record posting =
  ps_inHeader :: bool
  ps_replyTo :: bool
  ps_date :: bool
  ps_approved :: bool
  ps_msgId :: cstr
  ps_from :: cstr
  ps_newsgroups :: "ItemList option"
  ps_control :: "ItemList option"
  ps_text :: cstr

definition posting_init :: posting where
  "posting_init = \<lparr>ps_inHeader = True, ps_replyTo = False, ps_date = False, ps_approved = False,
     ps_msgId = [], ps_from = [], ps_newsgroups = None, ps_control = None, ps_text = []\<rparr>"

definition app_ln :: "cstr \<Rightarrow> posting \<Rightarrow> posting" where
  "app_ln l ps = ps\<lparr>ps_text := ps_text ps @ l @ [LF]\<rparr>"

text \<open>The end of the header.\<close>

definition end_header :: "('g, 'd) senv \<Rightarrow> posting \<Rightarrow> posting option" where
  "end_header S ps =
     do { m \<leftarrow> (if replaceMsgId (se_cfg S) \<noteq> 0 \<or> ps_msgId ps = []
                then Prt_genMsgId (gen_fqdn (se_gen S)) (gen_stamp (se_gen S)) (gen_rnd (se_gen S)) (ps_from ps) ''NOFFLE''
                else Some (ps_msgId ps));
          let p1 = app_ln (''Message-ID: '' @ m) (ps\<lparr>ps_inHeader := False, ps_msgId := m\<rparr>);
          let p2 = (if \<not> ps_replyTo p1 \<and> ps_from p1 \<noteq> [] then app_ln (''Reply-To: '' @ ps_from p1) p1 else p1);
          let p3 = (if \<not> ps_date p2 then app_ln (''Date: '' @ gen_date (se_gen S)) p2 else p2);
          Some (app_ln [] p3) }"

text \<open>A header field; \<open>p\<close> is its line.\<close>

definition post_field :: "cstr \<Rightarrow> cstr \<Rightarrow> cstr \<Rightarrow> posting \<Rightarrow> posting" where
  "post_field field val p ps =
     (if field = ''message-id'' then ps\<lparr>ps_msgId := val\<rparr>
      else if field = ''from'' then app_ln p (ps\<lparr>ps_from := val\<rparr>)
      else if field = ''newsgroups'' then app_ln p (ps\<lparr>ps_newsgroups := Some (new_Itl (Utl_toLower val) '' ,'')\<rparr>)
      else if field = ''control'' then app_ln p (ps\<lparr>ps_control := Some (new_Itl val '' '')\<rparr>)
      else if field = ''reply-to'' then app_ln p (ps\<lparr>ps_replyTo := True\<rparr>)
      else if field = ''approved'' then app_ln p (ps\<lparr>ps_approved := True\<rparr>)
      else if field = ''date'' then app_ln p (ps\<lparr>ps_date := True\<rparr>)
      else if field = ''x-sender'' then app_ln (''X-NOFFLE-X-Sender: '' @ val) ps
      else app_ln p ps)"

text \<open>One line; in the header \<open>line\<close> has lost the white space at its end.\<close>

definition post_line :: "('g, 'd) senv \<Rightarrow> cstr \<Rightarrow> posting \<Rightarrow> posting option" where
  "post_line S line ps =
     (if \<not> ps_inHeader ps then Some (app_ln line ps)
      else do { p \<leftarrow> strip_at (before (se_env S)) line;
                if p = [] then end_header S ps
                else do { (b, field, val) \<leftarrow> Prt_getField (before (se_env S)) p;
                          Some (if b then post_field field (case val of Some v \<Rightarrow> v | None \<Rightarrow> []) p ps
                                else app_ln (takeWhile cisspace line @ p) ps) } })"

fun post_lines :: "('g, 'd) senv \<Rightarrow> cstr list \<Rightarrow> posting \<Rightarrow> posting option" where
  "post_lines S [] ps = Some ps"
| "post_lines S (l # ls) ps = do { ps' \<leftarrow> post_line S l ps; post_lines S ls ps' }"

subsection \<open>Groups\<close>

text \<open>Whether a known group can be posted to.\<close>

definition grp_allows :: "('g, 'd) senv \<Rightarrow> bool \<Rightarrow> cstr \<Rightarrow> ('g, 'd) server \<Rightarrow> (bool \<times> ('g, 'd) server) option" where
  "grp_allows S approved grp s =
     do { (c, g) \<leftarrow> Grp_postAllow (glib S) grp (sp_grp (srv_sp s));
          let s1 = set_grp s g;
          if c = CHR ''n'' then Some (False, s1)
          else if c = CHR ''y'' then Some (True, s1)
          else do { (loc, s2) \<leftarrow> grp_local S grp s1; Some (\<not> loc \<or> (c = CHR ''m'' \<and> approved), s2) } }"

fun check_loop :: "nat \<Rightarrow> ('g, 'd) senv \<Rightarrow> bool \<Rightarrow> cstr option \<Rightarrow> ItemList \<Rightarrow> bool \<Rightarrow> bool \<Rightarrow> ('g, 'd) server
    \<Rightarrow> (bool \<times> bool \<times> ('g, 'd) server) option" where
  "check_loop n S approved None it known allowed s = Some (known, allowed, s)"
| "check_loop 0 S approved (Some grp) it known allowed s = None"
| "check_loop (Suc n) S approved (Some grp) it known allowed s =
     (if \<not> allowed then Some (known, allowed, s)
      else do { (known1, allowed1, s1) \<leftarrow>
                  (if Grp_exists (glib S) grp (sp_grp (srv_sp s))
                   then do { (a, s1) \<leftarrow> grp_allows S approved grp s; Some (True, a, s1) }
                   else Some (known, allowed, s));
                (grp', it') \<leftarrow> Itl_next it;
                check_loop n S approved grp' it' known1 allowed1 s1 })"

text \<open>The local groups: the flags are \<open>err\<close> and \<open>oneLocal\<close>.\<close>

fun local_loop :: "nat \<Rightarrow> ('g, 'd) senv \<Rightarrow> cstr \<Rightarrow> cstr option \<Rightarrow> ItemList \<Rightarrow> bool \<Rightarrow> bool \<Rightarrow> article \<times> ('g, 'd) server
    \<Rightarrow> (bool \<times> bool \<times> article \<times> ('g, 'd) server) option" where
  "local_loop n S tx None it err oneLocal st = Some (err, oneLocal, st)"
| "local_loop 0 S tx (Some grp) it err oneLocal st = None"
| "local_loop (Suc n) S tx (Some grp) it err oneLocal (a, s) =
     do { (loc, s1) \<leftarrow> grp_local S grp s;
          if loc then
            do { (ok, a1) \<leftarrow> (if oneLocal then Some (True, a)
                              else Post_open (before (se_env S)) (dlib S) tx (srv_db s1) a);
                 if \<not> ok then Some (True, oneLocal, a1, s1)
                 else do { (b, a2, sp) \<leftarrow> Post_add (se_env S) grp (a1, srv_sp s1);
                           (grp', it') \<leftarrow> Itl_next it;
                           local_loop n S tx grp' it' (err \<or> \<not> b) True (a2, s1\<lparr>srv_sp := sp\<rparr>) } }
          else do { (grp', it') \<leftarrow> Itl_next it; local_loop n S tx grp' it' err oneLocal (a, s1) } }"

definition srv_Out_add :: "('g, 'd) senv \<Rightarrow> cstr \<Rightarrow> cstr \<Rightarrow> cstr \<Rightarrow> ('g, 'd) server \<Rightarrow> bool \<times> ('g, 'd) server" where
  "srv_Out_add S srv msgId tx s =
     (let p = fileOutgoing (spool_dir (se_env S)) srv msgId; w = can_write (se_env S) p;
          (b, f) = Out_add (spool_dir (se_env S)) w w srv msgId tx (sp_file (srv_sp s))
      in (b, s\<lparr>srv_sp := (srv_sp s)\<lparr>sp_file := f\<rparr>\<rparr>))"

text \<open>The other groups; \<open>seen\<close> is the string of servers that have the article.\<close>

fun remote_loop :: "nat \<Rightarrow> ('g, 'd) senv \<Rightarrow> cstr \<Rightarrow> cstr \<Rightarrow> cstr option \<Rightarrow> ItemList \<Rightarrow> bool \<Rightarrow> cstr \<Rightarrow> ('g, 'd) server
    \<Rightarrow> (bool \<times> ('g, 'd) server) option" where
  "remote_loop n S msgId tx None it err seen s = Some (err, s)"
| "remote_loop 0 S msgId tx (Some grp) it err seen s = None"
| "remote_loop (Suc n) S msgId tx (Some grp) it err seen s =
     do { (ext, s1) \<leftarrow> (if Grp_exists (glib S) grp (sp_grp (srv_sp s))
                       then map_option (\<lambda>(loc, s1). (\<not> loc, s1)) (grp_local S grp s) else Some (False, s));
          (err', seen', s') \<leftarrow>
            (if ext then
               do { (servName, s2) \<leftarrow> grp_server S grp s1;
                    if cstrstr seen servName \<noteq> None then Some (err, seen, s2)
                    else do { let (b, s3) = srv_Out_add S servName msgId tx s2;
                              q1 \<leftarrow> Utl_catStr seen '' '';
                              q2 \<leftarrow> Utl_catStr q1 servName;
                              Some (err \<or> \<not> b, q2, s3) } }
             else Some (err, seen, s1));
          (grp', it') \<leftarrow> Itl_next it;
          remote_loop n S msgId tx grp' it' err' seen' s' }"

definition postArticle :: "('g, 'd) senv \<Rightarrow> ItemList \<Rightarrow> cstr \<Rightarrow> cstr \<Rightarrow> ('g, 'd) server \<Rightarrow> (bool \<times> ('g, 'd) server) option" where
  "postArticle S newsgroups msgId tx s =
     do { (grp, it) \<leftarrow> Itl_first newsgroups;
          (err, _, _, s1) \<leftarrow> local_loop (Itl_count newsgroups) S tx grp it False False (article_init, s);
          (grp2, it2) \<leftarrow> Itl_first it;
          remote_loop (Itl_count newsgroups) S msgId tx grp2 it2 err [] s1 }"

subsection \<open>Control messages\<close>

definition controlCancel :: "('g, 'd) senv \<Rightarrow> cstr \<Rightarrow> ('g, 'd) server \<Rightarrow> (bool \<times> ('g, 'd) server) option" where
  "controlCancel S cancelId s =
     do { (r, sp) \<leftarrow> Ctrl_cancel (se_env S) (se_servs S) cancelId (srv_sp s);
          Some (r = CANCEL_NEEDS_MSG, s\<lparr>srv_sp := sp\<rparr>) }"

text \<open>The first group that is not local gets the message; the groups that are only log a line.\<close>

fun pass_loop :: "nat \<Rightarrow> ('g, 'd) senv \<Rightarrow> cstr \<Rightarrow> cstr \<Rightarrow> cstr option \<Rightarrow> ItemList \<Rightarrow> ('g, 'd) server \<Rightarrow> (bool \<times> ('g, 'd) server) option" where
  "pass_loop n S msgId tx None it s = Some (False, s)"
| "pass_loop 0 S msgId tx (Some grp) it s = None"
| "pass_loop (Suc n) S msgId tx (Some grp) it s =
     do { (ext, s1) \<leftarrow> (if Grp_exists (glib S) grp (sp_grp (srv_sp s))
                       then map_option (\<lambda>(loc, s1). (\<not> loc, s1)) (grp_local S grp s) else Some (False, s));
          if ext then do { (servName, s2) \<leftarrow> grp_server S grp s1;
                           (let (b, s3) = srv_Out_add S servName msgId tx s2 in Some (\<not> b, s3)) }
          else do { (grp', it') \<leftarrow> Itl_next it; pass_loop n S msgId tx grp' it' s1 } }"

fun log_loop :: "nat \<Rightarrow> ('g, 'd) senv \<Rightarrow> cstr option \<Rightarrow> ItemList \<Rightarrow> ('g, 'd) server \<Rightarrow> ('g, 'd) server option" where
  "log_loop n S None it s = Some s"
| "log_loop 0 S (Some grp) it s = None"
| "log_loop (Suc n) S (Some grp) it s =
     do { s1 \<leftarrow> (if Grp_exists (glib S) grp (sp_grp (srv_sp s)) then map_option snd (grp_local S grp s) else Some s);
          (grp', it') \<leftarrow> Itl_next it;
          log_loop n S grp' it' s1 }"

definition handleControl :: "('g, 'd) senv \<Rightarrow> ItemList \<Rightarrow> ItemList \<Rightarrow> cstr \<Rightarrow> cstr \<Rightarrow> ('g, 'd) server \<Rightarrow> (bool \<times> ('g, 'd) server) option" where
  "handleControl S control newsgroups msgId tx s =
     do { (op, ctl) \<leftarrow> Itl_first control;
          case op of
            None \<Rightarrow> Some (True, s)
          | Some cmd \<Rightarrow>
              do { (localDone, more, s1) \<leftarrow>
                     (if Utl_toLower cmd = ''cancel'' then
                        do { (id, _) \<leftarrow> Itl_next ctl;
                             m \<leftarrow> id;
                             (b, s1) \<leftarrow> controlCancel S m s;
                             Some (b, b, s1) }
                      else Some (False, True, s));
                   if \<not> more then Some (False, s1)
                   else do { (grp, it) \<leftarrow> Itl_first newsgroups;
                             (err, s2) \<leftarrow> pass_loop (Itl_count newsgroups) S msgId tx grp it s1;
                             if localDone then Some (err, s2)
                             else do { (grp2, it2) \<leftarrow> Itl_first newsgroups;
                                       s3 \<leftarrow> log_loop (Itl_count newsgroups) S grp2 it2 s2;
                                       Some (err, s3) } } } }"

subsection \<open>POST\<close>

definition try_post :: "('g, 'd) senv \<Rightarrow> posting \<Rightarrow> ('g, 'd) server \<Rightarrow> (bool \<times> ('g, 'd) server) option" where
  "try_post S ps s =
     (case ps_newsgroups ps of
        None \<Rightarrow> Some (True, s)
      | Some newsgroups \<Rightarrow>
          if Itl_count newsgroups = 0 then Some (True, s)
          else do { (grp, it) \<leftarrow> Itl_first newsgroups;
                    (known, allowed, s1) \<leftarrow> check_loop (Itl_count newsgroups) S (ps_approved ps) grp it False True s;
                    if \<not> known \<or> \<not> allowed then Some (True, s1)
                    else case ps_control ps of
                           None \<Rightarrow> postArticle S newsgroups (ps_msgId ps) (ps_text ps) s1
                         | Some control \<Rightarrow> handleControl S control newsgroups (ps_msgId ps) (ps_text ps) s1 })"

definition doPost :: "('g, 'd) senv \<Rightarrow> ('g, 'd) server \<Rightarrow> (bool \<times> ('g, 'd) server) option" where
  "doPost S s =
     (let s0 = putStat STAT_SEND_ART ''Continue (end with period)'' s;
          (ls, e, r) = recv_text True (-1) (srv_in s0);
          s1 = s0\<lparr>srv_in := r\<rparr>
      in do { ps \<leftarrow> post_lines S ls posting_init;
              (err, s2) \<leftarrow> (if e \<noteq> Txt_end then Some (True, s1) else try_post S ps s1);
              if err then Some (True, putStat STAT_POST_FAILED ''Posting failed'' s2)
              else do { let s3 = putStat STAT_POST_OK ''Message posted'' s2;
                        s4 \<leftarrow> (if online S s3 then net_postArts S s3 else Some s3);
                        Some (True, s4) } })"

end
