(* ===== verification/ServerMain.thy ===== *)
theory ServerMain
  imports ServerList ServerPost
begin

text \<open>
  The last part of \<^verbatim>\<open>noffle-1.0.1/src/server.c\<close>: the table of commands, the execution of a line, and
  the loop of a session, which closes the data bases while the client is silent.

  The loop is driven by a list of events, the answers of \<open>waitCmdLn\<close>: a timeout, or input with whether
  the data bases can be opened.  When they cannot, the fatal reply is sent, but the command is
  executed all the same; a command that would use the data bases then is undefined.
\<close>

definition commands :: "(cstr \<times> cstr) list" where
  "commands =
     [(''article'', ''ARTICLE [msg-id|n]''), (''body'', ''BODY [msg-id|n]''), (''head'', ''HEAD [msg-id|n]''),
      (''group'', ''GROUP grp''), (''help'', ''HELP''), (''ihave'', ''IHAVE (ignored)''), (''last'', ''LAST''),
      (''list'', ''LIST [ACTIVE [pat]]|ACTIVE.TIMES [pat]|EXTENSIONS|NEWSGROUPS [pat]|OVERVIEW.FMT''),
      (''listgroup'', ''LISTGROUP grp''), (''mode'', ''MODE (ignored)''),
      (''newgroups'', ''NEWGROUPS [xx]yymmdd hhmmss [GMT]''), (''newnews'', ''NEWNEWS (not implemented)''),
      (''next'', ''NEXT''), (''post'', ''POST''), (''quit'', ''QUIT''), (''slave'', ''SLAVE (ignored)''),
      (''stat'', ''STAT [msg-id|n]''), (''xhdr'', ''XHDR over-field [msg-id|m[-[n]]]''),
      (''xpat'', ''XPAT over-field msg-id|m[-[n]] pat''), (''xover'', ''XOVER [m[-[n]]]'')]"

definition doHelp :: "('g, 'd) server \<Rightarrow> ('g, 'd) server" where
  "doHelp s =
     putEndOfTxt (fold (\<lambda>c. putTxtLn (snd c)) commands
       (putTxtBuf (Some ([LF] @ ''Commands:'' @ [LF, LF])) (putStat STAT_HELP_FOLLOWS ''Help'' s)))"

definition doIhave :: "('g, 'd) server \<Rightarrow> ('g, 'd) server" where
  "doIhave = putStat STAT_ART_REJECTED ''Command not used''"

definition doMode :: "('g, 'd) server \<Rightarrow> ('g, 'd) server" where
  "doMode = putStat STAT_READY_POST_ALLOW ''Ok''"

definition doSlave :: "('g, 'd) server \<Rightarrow> ('g, 'd) server" where
  "doSlave = putStat STAT_CMD_OK ''Ok''"

definition doQuit :: "('g, 'd) server \<Rightarrow> ('g, 'd) server" where
  "doQuit = putStat STAT_GOODBYE ''Goodbye''"

definition notImplemented :: "('g, 'd) server \<Rightarrow> ('g, 'd) server" where
  "notImplemented = putStat STAT_NO_PERMISSION ''Command not implemented''"

definition cmdProc :: "('g, 'd) senv \<Rightarrow> cstr \<Rightarrow> cstr \<Rightarrow> cstr \<Rightarrow> ('g, 'd) server \<Rightarrow> (bool \<times> ('g, 'd) server) option" where
  "cmdProc S name syntax arg s =
     (if name = ''article'' then doArt S arg s
      else if name = ''body'' then doBody S arg s
      else if name = ''head'' then doHead S arg s
      else if name = ''group'' then doGrp S syntax arg s
      else if name = ''help'' then Some (True, doHelp s)
      else if name = ''ihave'' then Some (True, doIhave s)
      else if name = ''last'' then doLast s
      else if name = ''list'' then doList S syntax arg s
      else if name = ''listgroup'' then doListgrp S arg s
      else if name = ''mode'' then Some (True, doMode s)
      else if name = ''newgroups'' then doNewgrps S syntax arg s
      else if name = ''newnews'' then Some (True, notImplemented s)
      else if name = ''next'' then doNext s
      else if name = ''post'' then doPost S s
      else if name = ''quit'' then Some (False, doQuit s)
      else if name = ''slave'' then Some (True, doSlave s)
      else if name = ''stat'' then doStat S arg s
      else if name = ''xhdr'' then doXhdr S syntax arg s
      else if name = ''xpat'' then doXpat S syntax arg s
      else doXOver S arg s)"

definition parseAndExecute :: "('g, 'd) senv \<Rightarrow> cstr \<Rightarrow> ('g, 'd) server \<Rightarrow> (bool \<times> ('g, 'd) server) option" where
  "parseAndExecute S line s =
     (case scan_s line of
        None \<Rightarrow> Some (True, putStat STAT_NO_SUCH_CMD ''Command not recognized'' s)
      | Some (w, _) \<Rightarrow>
          (case map_of commands (Utl_toLower w) of
             None \<Rightarrow> Some (True, putStat STAT_NO_SUCH_CMD ''Command not recognized'' s)
           | Some syntax \<Rightarrow>
               do { arg \<leftarrow> strip_at (before (se_env S)) (Utl_restOfLn line 1);
                    cmdProc S (Utl_toLower w) syntax arg s }))"

definition putWelcome :: "('g, 'd) senv \<Rightarrow> ('g, 'd) server \<Rightarrow> ('g, 'd) server" where
  "putWelcome S = putStat STAT_READY_POST_ALLOW (''NNTP server NOFFLE '' @ version (se_cfg S))"

definition putFatal :: "cstr \<Rightarrow> ('g, 'd) server \<Rightarrow> ('g, 'd) server" where
  "putFatal t = putStat STAT_PROGRAM_FAULT (str_of t)"

subsection \<open>The session\<close>

definition initServer :: "('g, 'd) senv \<Rightarrow> ('g, 'd) server \<Rightarrow> ('g, 'd) server option" where
  "initServer S s =
     do { rq \<leftarrow> Req_open (srv_req s);
          Some ((set_db s (snd (Db_open (se_host S) (Some (db_dbf (srv_db s))) (srv_db s))))\<lparr>srv_req := rq, running := True\<rparr>) }"

definition closeServer :: "('g, 'd) senv \<Rightarrow> ('g, 'd) server \<Rightarrow> ('g, 'd) server" where
  "closeServer S s =
     s\<lparr>running := False, srv_sp := (srv_sp s)\<lparr>sp_grp := Grp_close (sp_grp (srv_sp s)), sp_db := Db_close (srv_db s)\<rparr>,
       srv_req := Req_close (se_reqs S) (sint (clock (se_env S))) (srv_req s)\<rparr>"

text \<open>The commands that do without the data bases.\<close>

definition without_db :: "cstr \<Rightarrow> bool" where
  "without_db line =
     (case scan_s line of
        None \<Rightarrow> True
      | Some (w, _) \<Rightarrow> map_of commands (Utl_toLower w) = None
          \<or> Utl_toLower w \<in> {''help'', ''ihave'', ''mode'', ''newnews'', ''quit'', ''slave''})"

datatype event = Timeout | Input bool

fun run_loop :: "('g, 'd) senv \<Rightarrow> event list \<Rightarrow> ('g, 'd) server \<Rightarrow> (bool \<times> ('g, 'd) server) option" where
  "run_loop S [] s = Some (False, s)"
| "run_loop S (Timeout # es) s = run_loop S es (if running s then closeServer S s else s)"
| "run_loop S (Input can_init # es) s =
     (case Prt_getLn True (-1) (srv_in s) of
        (None, r) \<Rightarrow> Some (True, s\<lparr>srv_in := r\<rparr>)
      | (Some line, r) \<Rightarrow>
          let s0 = s\<lparr>srv_in := r\<rparr> in
          if \<not> running s0 \<and> \<not> can_init then
            if without_db line
            then do { (_, s1) \<leftarrow> parseAndExecute S line (putFatal ''Cannot init server'' s0); Some (True, s1) }
            else None
          else do { s1 \<leftarrow> (if running s0 then Some s0 else initServer S s0);
                    (more, s2) \<leftarrow> parseAndExecute S line s1;
                    if more then run_loop S es s2 else Some (True, s2) })"

text \<open>The flag says whether the session has ended.\<close>

definition Server_run :: "('g, 'd) senv \<Rightarrow> event list \<Rightarrow> ('g, 'd) server \<Rightarrow> (bool \<times> ('g, 'd) server) option" where
  "Server_run S es s =
     do { (fin, s1) \<leftarrow> run_loop S es (putWelcome S s);
          Some (fin, if fin \<and> running s1 then closeServer S s1 else s1) }"

end
