(* ===== verification/ServerReply.thy ===== *)
theory ServerReply
  imports Fetch ServerMain
begin

text \<open>
  What the server says: every operation only appends to the output, and every line that is executed
  is answered with one status line of its command, and by a text with its end where the status announces one.
\<close>

lemma bindE: "Option.bind x f = Some y \<Longrightarrow> (\<And>a. x = Some a \<Longrightarrow> f a = Some y \<Longrightarrow> P) \<Longrightarrow> P"
  by (cases x) auto

subsection \<open>Output that only grows\<close>

definition grows :: "ofile \<Rightarrow> ofile \<Rightarrow> bool" where
  "grows f f' \<longleftrightarrow> (\<exists>t. f' = snd (fprint t f))"

definition says :: "('g, 'd) server \<Rightarrow> ('g, 'd) server \<Rightarrow> bool" where
  "says s s' \<longleftrightarrow> grows (srv_out s) (srv_out s')"

lemma fprint_fprint: "snd (fprint b (snd (fprint a f))) = snd (fprint (a @ b) f)"
  by (simp add: fprint_def)

lemma grows_refl [simp]: "grows f f"
  by (auto simp: grows_def fprint_def intro!: exI [of _ "[]"])

lemma grows_trans: "grows f g \<Longrightarrow> grows g h \<Longrightarrow> grows f h"
  by (auto simp: grows_def fprint_fprint)

lemma grows_fprint [simp]: "grows f (snd (fprint t f))"
  by (auto simp: grows_def)

lemma grows_putTxtLn: "grows f (snd (Prt_putTxtLn l f))"
  by (simp add: Prt_putTxtLn_def)

lemma grows_putTxtLn_eq: "Prt_putTxtLn l f = (b, f') \<Longrightarrow> grows f f'"
  using grows_putTxtLn [of f l] by simp

lemma grows_put_loop: "grows f (snd (put_loop b l f))"
proof (induction b l f rule: put_loop.induct)
  case (1 line f)
  then show ?case by simp
next
  case (2 c b l f)
  obtain q f1 where t: "Prt_putTxtLn l f = (q, f1)" by (cases "Prt_putTxtLn l f") auto
  obtain q' f2 where p: "fprint l f = (q', f2)" by (cases "fprint l f") auto
  have g: "grows f f1" "grows f f2"
    using grows_putTxtLn_eq [OF t] grows_fprint [of f l] p by simp_all
  show ?case
    using 2 t p g by (auto simp del: put_loop.simps(1) simp add: put_loop.simps(2) intro: grows_trans)
qed

lemma grows_putTxtBuf: "grows f (snd (Prt_putTxtBuf b f))"
  by (simp add: Prt_putTxtBuf_def grows_put_loop)

lemma grows_putEndOfTxt: "grows f (snd (Prt_putEndOfTxt f))"
  by (simp add: Prt_putEndOfTxt_def)

lemma says_refl [simp]: "says s s" and says_trans: "says s t \<Longrightarrow> says t u \<Longrightarrow> says s u"
  by (auto simp: says_def intro: grows_trans)

lemma says_same: "srv_out s' = srv_out s \<Longrightarrow> says s s'"
  by (simp add: says_def)

lemma says_put [simp]:
  "says s (emit t s)" "says s (putStat st t s)" "says s (putTxtLn t s)" "says s (putTxtBuf b s)" "says s (putEndOfTxt s)"
  "says s (putSyntax t s)"
  by (auto simp: says_def emit_def putStat_def putTxtLn_def putTxtBuf_def putEndOfTxt_def putSyntax_def
      grows_putTxtLn grows_putTxtBuf grows_putEndOfTxt split: option.splits)

lemma says_puts:
  "says s t \<Longrightarrow> says s (putStat c x t)" "says s t \<Longrightarrow> says s (putTxtLn x t)" "says s t \<Longrightarrow> says s (putTxtBuf b t)"
  "says s t \<Longrightarrow> says s (putEndOfTxt t)" "says s t \<Longrightarrow> says s (emit x t)"
  by (auto intro: says_trans says_put)

text \<open>An answer: a status line with a code of \<open>A\<close> and nothing else, or one with a code of \<open>B\<close>, then a body and
  the line that ends it.\<close>

definition period :: cstr where
  "period = ''.'' @ [CR, LF]"

definition answers :: "nat set \<Rightarrow> nat set \<Rightarrow> ('g, 'd) server \<Rightarrow> ('g, 'd) server \<Rightarrow> bool" where
  "answers A B s s' \<longleftrightarrow>
     (\<exists>st t. st \<in> A \<and> srv_out s' = snd (fprint (stat_line st t) (srv_out s)))
     \<or> (\<exists>st t body. st \<in> B \<and> srv_out s' = snd (fprint (stat_line st t @ body @ period) (srv_out s)))"

lemma answers_stat: "st \<in> A \<Longrightarrow> srv_out s0 = srv_out s \<Longrightarrow> answers A B s (putStat st t s0)"
  by (auto simp: answers_def putStat_def emit_def)

lemma answers_now [simp]: "st \<in> A \<Longrightarrow> answers A B s (putStat st t s)"
  by (rule answers_stat) simp_all

lemma answers_syntax [simp]: "STAT_SYNTAX_ERR \<in> A \<Longrightarrow> answers A B s (putSyntax t s)"
  by (simp add: putSyntax_def)

lemma answers_same: "srv_out s0 = srv_out s \<Longrightarrow> answers A B s0 t \<Longrightarrow> answers A B s t"
  by (simp add: answers_def)

lemma answers_quiet: "answers A B s t \<Longrightarrow> srv_out u = srv_out t \<Longrightarrow> answers A B s u"
  by (simp add: answers_def)

lemma answers_upd [simp]:
  "answers A B (s\<lparr>srv_sp := a\<rparr>) u = answers A B s u" "answers A B (s\<lparr>srv_in := b\<rparr>) u = answers A B s u"
  "answers A B (s\<lparr>srv_req := c\<rparr>) u = answers A B s u" "answers A B s (t\<lparr>artPtr := d\<rparr>) = answers A B s t"
  by (simp_all add: answers_def)

text \<open>A text behind a status line.\<close>

lemma text_answered:
  assumes "srv_out t = srv_out s" "c \<in> B" "says (putStat c x t) u"
  shows "answers A B s (putEndOfTxt u)"
proof -
  from assms(3) obtain body where "srv_out u = snd (fprint body (srv_out (putStat c x t)))" by (auto simp: says_def grows_def)
  then have "srv_out (putEndOfTxt u) = snd (fprint (stat_line c x @ body @ period) (srv_out s))"
    using assms(1) by (simp add: putEndOfTxt_def Prt_putEndOfTxt_def period_def putStat_def emit_def fprint_fprint)
  with assms(2) show ?thesis unfolding answers_def by blast
qed

lemmas says_text = text_answered [rotated 2]

lemma text_now: "says (putStat c x s) u \<Longrightarrow> c \<in> B \<Longrightarrow> answers A B s (putEndOfTxt u)"
  by (rule text_answered [OF refl])

subsection \<open>Operations that say nothing\<close>

text \<open>The network client does not write to the client of the server.\<close>

definition quiet :: "('g, 'd) senv \<Rightarrow> bool" where
  "quiet S \<longleftrightarrow> (\<forall>a g s s'. net_getNewArts S a g s = Some s' \<longrightarrow> srv_out s' = srv_out s)
     \<and> (\<forall>a m s b s'. net_retrieveArt S a m s = Some (b, s') \<longrightarrow> srv_out s' = srv_out s)
     \<and> (\<forall>s s'. net_postArts S s = Some s' \<longrightarrow> srv_out s' = srv_out s)"

lemma grp_server_out: "grp_server S g s = Some (r, s') \<Longrightarrow> srv_out s' = srv_out s"
  by (auto simp: grp_server_def bind_eq_Some_conv)

lemma grp_local_out: "grp_local S g s = Some (r, s') \<Longrightarrow> srv_out s' = srv_out s"
  by (auto simp: grp_local_def bind_eq_Some_conv)

lemma needs_out: "needsPseudoGenInfo S g s = Some (r, s') \<Longrightarrow> srv_out s' = srv_out s"
  by (auto simp: needsPseudoGenInfo_def bind_eq_Some_conv dest: grp_local_out)

lemma flread_out: "srv_Fetchlist_read S s = Some s' \<Longrightarrow> srv_out s' = srv_out s"
  by (auto simp: srv_Fetchlist_read_def bind_eq_Some_conv)

lemma checkNewArts_out: "quiet S \<Longrightarrow> checkNewArts S g s = Some s' \<Longrightarrow> srv_out s' = srv_out s"
  by (fastforce simp: checkNewArts_def quiet_def Let_def bind_eq_Some_conv split: if_splits
      dest!: grp_local_out grp_server_out)

lemma readCont_out: "readCont S g s = Some s' \<Longrightarrow> srv_out s' = srv_out s"
  by (auto simp: readCont_def bind_eq_Some_conv split: if_splits dest!: needs_out flread_out)

lemma changeToGrp_out: "quiet S \<Longrightarrow> changeToGrp S g s = Some s' \<Longrightarrow> srv_out s' = srv_out s"
  by (auto simp: changeToGrp_def bind_eq_Some_conv dest!: checkNewArts_out readCont_out)

lemmas srv_outs = grp_server_out grp_local_out needs_out flread_out checkNewArts_out readCont_out changeToGrp_out

subsection \<open>Every command is answered\<close>

text \<open>What a command gives back: the session goes on, and there is an answer.\<close>

definition answered :: "nat set \<Rightarrow> nat set \<Rightarrow> ('g, 'd) server \<Rightarrow> (bool \<times> ('g, 'd) server) option \<Rightarrow> bool" where
  "answered A B s r \<longleftrightarrow> (\<forall>b s'. r = Some (b, s') \<longrightarrow> b \<and> answers A B s s')"

lemma answeredD: "answered A B s r \<Longrightarrow> r = Some (b, s') \<Longrightarrow> b \<and> answers A B s s'"
  by (simp add: answered_def)

lemma answeredI: "(\<And>b s'. r = Some (b, s') \<Longrightarrow> b \<and> answers A B s s') \<Longrightarrow> answered A B s r"
  unfolding answered_def by blast

lemma answered_intros [simp]: "answered A B s None" "answered A B s (Some (True, s')) \<longleftrightarrow> answers A B s s'"
  by (auto simp: answered_def)

lemma testGrp_cases:
  "testGrpSelected s = (b, s1) \<Longrightarrow> STAT_NO_GRP_SELECTED \<in> A \<Longrightarrow> (b \<and> s1 = s) \<or> (\<not> b \<and> answers A B s s1)"
  by (auto simp: testGrpSelected_def split: if_splits)

lemma put_arts_says:
  "(\<And>ov t t'. put ov t = Some t' \<Longrightarrow> says t t') \<Longrightarrow> put_arts put is s = Some s' \<Longrightarrow> says s s'"
proof (induction "is" arbitrary: s)
  case (Cons i "is")
  from Cons.prems(2) obtain e where e: "Cont_get (srv_cont s) i = Some e"
    by (auto simp: bind_eq_Some_conv)
  show ?case
  proof (cases e)
    case None
    with Cons e show ?thesis by simp
  next
    case (Some ov)
    with Cons.prems(2) e obtain s1 where "put ov s = Some s1" "put_arts put is s1 = Some s'"
      by (auto simp: bind_eq_Some_conv)
    with Cons.prems(1) Cons.IH [of s1] show ?thesis by (blast intro: says_trans)
  qed
qed simp

lemma list_numbs_says: "list_numbs is s = Some s' \<Longrightarrow> says s s'"
proof (induction "is" arbitrary: s)
  case (Cons i "is")
  from Cons.prems show ?case
    by (auto simp: bind_eq_Some_conv split: option.splits intro: Cons.IH says_trans [OF says_put(3)])
qed simp

lemma doGrp_answered:
  assumes "quiet S"
  shows "answered {STAT_GRP_SELECTED, STAT_NO_SUCH_GRP, STAT_SYNTAX_ERR} {} s (doGrp S syntax arg s)"
  by (rule answeredI) (auto simp: doGrp_def bind_eq_Some_conv Let_def split: if_splits
      dest!: changeToGrp_out [OF assms] intro!: answers_stat)

lemma doListgrp_answered:
  assumes "quiet S"
  shows "answered {STAT_NO_SUCH_GRP} {STAT_GRP_SELECTED} s (doListgrp S arg s)"
  by (rule answeredI) (auto simp: doListgrp_def bind_eq_Some_conv Let_def split: if_splits
      dest!: changeToGrp_out [OF assms] list_numbs_says intro: text_answered)

lemma selected_answers: "selected n s = Some s' \<Longrightarrow> STAT_ART_RETRIEVED \<in> A \<Longrightarrow> answers A B s s'"
  by (auto simp: selected_def bind_eq_Some_conv)

lemma move_answered: "answered {STAT_ART_RETRIEVED, STAT_NO_GRP_SELECTED, STAT_NO_ART_SELECTED, st} {} s (move loop st none s)"
  by (rule answeredI)
    (auto simp: move_def bind_eq_Some_conv testGrpSelected_def split: if_splits dest: selected_answers)

lemma doLast_answered: "answered {STAT_ART_RETRIEVED, STAT_NO_GRP_SELECTED, STAT_NO_ART_SELECTED, STAT_NO_PREV_ART} {} s (doLast s)"
  and doNext_answered: "answered {STAT_ART_RETRIEVED, STAT_NO_GRP_SELECTED, STAT_NO_ART_SELECTED, STAT_NO_NEXT_ART} {} s (doNext s)"
  by (simp_all add: doLast_def doNext_def move_answered)

text \<open>What a command says that finds no article.\<close>

definition no_article :: "nat set" where
  "no_article = {STAT_NO_GRP_SELECTED, STAT_NO_SUCH_NUMB, STAT_NO_SUCH_ID}"

lemma no_article [simp, intro]: "STAT_NO_GRP_SELECTED \<in> no_article" "STAT_NO_SUCH_NUMB \<in> no_article" "STAT_NO_SUCH_ID \<in> no_article"
  by (simp_all add: no_article_def)

lemma checkNumb_cases:
  "checkNumb n s = Some (b, s1) \<Longrightarrow> no_article \<subseteq> A \<Longrightarrow> (b \<and> s1 = s) \<or> (\<not> b \<and> answers A B s s1)"
  by (auto simp: checkNumb_def bind_eq_Some_conv testGrpSelected_def no_article_def split: if_splits)

lemma argArt_cases:
  assumes "argArt arg s = Some (r, b, s1)" "no_article \<subseteq> A"
  shows "case r of None \<Rightarrow> answers A B s s1 | Some _ \<Rightarrow> srv_out s1 = srv_out s"
  using assms(1) unfolding argArt_def
  by (auto simp: bind_eq_Some_conv split: option.split_asm if_split_asm dest!: checkNumb_cases [OF _ assms(2), where B = B])

lemma whichId_cases:
  assumes "whichId S arg s = Some (r, s1)" "no_article \<subseteq> A"
  shows "case r of None \<Rightarrow> answers A B s s1 | Some _ \<Rightarrow> srv_out s1 = srv_out s"
proof -
  from assms(1) obtain q b s0 where q: "argArt arg s = Some (q, b, s0)"
    by (auto simp: whichId_def bind_eq_Some_conv)
  have "STAT_NO_SUCH_NUMB \<in> A" "STAT_NO_SUCH_ID \<in> A" using assms(2) by auto
  with argArt_cases [OF q assms(2)] q assms(1) show ?thesis
    by (cases q) (auto simp: whichId_def split: if_split_asm intro!: answers_stat)
qed

lemma whichId_answered:
  assumes "no_article \<subseteq> A" "\<And>m n s1. srv_out s1 = srv_out s \<Longrightarrow> answered A B s (g m n s1)"
  shows "answered A B s (do { (r, s1) \<leftarrow> whichId S arg s; case r of None \<Rightarrow> Some (True, s1) | Some (m, n) \<Rightarrow> g m n s1 })"
proof (cases "whichId S arg s")
  case (Some p)
  obtain r s1 where p: "p = (r, s1)" by (cases p) auto
  from whichId_cases [of S arg s r s1 A B] Some p assms show ?thesis
    by (auto split: option.splits)
qed simp

lemma doStat_answered: "answered (insert STAT_ART_RETRIEVED no_article) {} s (doStat S arg s)"
  unfolding doStat_def by (rule whichId_answered) (auto simp: answers_stat)

lemma over_lines_says: "put_arts (\<lambda>ov s. Some (putTxtLn (over_line ov) s)) is s = Some s' \<Longrightarrow> says s s'"
  by (erule put_arts_says [rotated]) auto

lemma doXOver_answered: "answered {STAT_NO_GRP_SELECTED} {STAT_OVERS_FOLLOW} s (doXOver S arg s)"
  by (rule answeredI) (auto simp: doXOver_def bind_eq_Some_conv Let_def testGrpSelected_def simp del: put_arts.simps
      split: if_splits dest!: over_lines_says intro: text_now)

lemma getXhdr_out: "getXhdrField S what ov s = Some (r, s') \<Longrightarrow> srv_out s' = srv_out s"
  by (auto simp: getXhdrField_def bind_eq_Some_conv split: XhdrType.splits if_splits)

lemma put_field_says: "put_field S what shown label ov s = Some s' \<Longrightarrow> says s s'"
  by (auto simp: put_field_def bind_eq_Some_conv split: if_splits dest!: getXhdr_out intro: says_puts says_same)

lemma field_lines_says: "put_arts (\<lambda>ov. put_field S what shown (fmt_lu (ov_numb ov)) ov) is s = Some s' \<Longrightarrow> says s s'"
  by (erule put_arts_says [rotated]) (rule put_field_says)

definition xhdr_codes :: "nat set" where
  "xhdr_codes = {STAT_NO_SUCH_ID, STAT_NO_GRP_SELECTED, STAT_NO_ART_SELECTED, STAT_SYNTAX_ERR}"

lemma xhdr_arts_answered: "answered xhdr_codes {STAT_HEAD_FOLLOWS} s (xhdr_arts S what whatStr shown p s)"
  by (rule answeredI) (auto simp: xhdr_arts_def bind_eq_Some_conv Let_def testGrpSelected_def xhdr_codes_def simp del: put_arts.simps
      split: if_splits option.splits dest!: put_field_says field_lines_says intro!: answers_stat
      elim!: says_text)

lemma unknown_header_answers: "answers A {STAT_HEAD_FOLLOWS} s (unknown_header s)"
  unfolding unknown_header_def by (rule text_now [OF says_refl]) simp

lemma doXhdr_answered: "answered xhdr_codes {STAT_HEAD_FOLLOWS} s (doXhdr S syntax arg s)"
  and doXpat_answered: "answered xhdr_codes {STAT_HEAD_FOLLOWS} s (doXpat S syntax arg s)"
  by (auto simp: doXhdr_def doXpat_def xhdr_arts_answered unknown_header_answers xhdr_codes_def [THEN eqset_imp_iff]
      intro!: answers_syntax split: option.split Option.bind_splits)

subsection \<open>Articles\<close>

lemma flwrite_out [simp]: "srv_out (srv_Fetchlist_write S s) = srv_out s"
  by (simp add: srv_Fetchlist_write_def Let_def split: prod.splits)

lemma noteGroup_out: "noteGroup S s = Some s' \<Longrightarrow> srv_out s' = srv_out s"
  unfolding noteGroup_def Let_def by (auto elim!: bindE split: if_split_asm)

lemma note_out: "noteInterest S s = Some s' \<Longrightarrow> srv_out s' = srv_out s"
  unfolding noteInterest_def
  by (auto elim!: bindE split: if_split_asm dest!: grp_local_out flread_out noteGroup_out)

lemma find_xrefs_out: "find_xrefs S ps r s = Some (q, s') \<Longrightarrow> srv_out s' = srv_out s"
proof (induction ps arbitrary: r s)
  case (Cons p ps)
  then show ?case
    by (auto simp: bind_eq_Some_conv split: option.splits if_splits dest!: grp_server_out)
qed simp

lemma findServer_out: "findServer S m s = Some (q, s') \<Longrightarrow> srv_out s' = srv_out s"
  by (auto simp: findServer_def bind_eq_Some_conv split: if_splits dest!: find_xrefs_out)

lemma retrieve_out:
  assumes "quiet S" "retrieveArt S m s = Some (b, s')"
  shows "srv_out s' = srv_out s"
proof -
  from assms(2) obtain q s1 where q: "findServer S m s = Some (q, s1)"
    "(if q = ''(unknown)'' \<or> q = GRP_LOCAL_SERVER_NAME then Some (False, s1) else net_retrieveArt S q m s1) = Some (b, s')"
    by (auto simp: retrieveArt_def bind_eq_Some_conv)
  with assms(1) have "srv_out s' = srv_out s1"
    by (auto simp: quiet_def split: if_splits)
  with findServer_out [OF q(1)] show ?thesis by simp
qed

lemma says_outs: "srv_out t = srv_out s \<Longrightarrow> says s (putTxtBuf b t)"
  by (rule says_puts) (simp add: says_same)

lemma body_status_out:
  "quiet S \<Longrightarrow> body_status S m s = Some (st, s') \<Longrightarrow> srv_out s' = srv_out s"
  unfolding body_status_def Let_def
  by (auto simp: bind_eq_Some_conv split: if_split_asm dest: retrieve_out)

lemma put_body_says: "put_body S m db s = Some s' \<Longrightarrow> says s s'"
  by (auto simp: put_body_def bind_eq_Some_conv intro!: says_outs)

lemma put_mark_says: "put_mark S m s = Some s' \<Longrightarrow> says s s'"
  by (auto simp: put_mark_def Let_def bind_eq_Some_conv split: if_split_asm dest!: findServer_out intro!: says_outs)

lemma bodyInDb_says:
  assumes "quiet S" "doBodyInDb S m s = Some s'"
  shows "says s s'"
proof -
  from assms(2) obtain db st s2 where b: "body_status S m (set_db s db) = Some (st, s2)" "says s2 s'"
    by (auto simp: doBodyInDb_def bind_eq_Some_conv split: if_split_asm dest!: put_body_says put_mark_says)
  from body_status_out [OF assms(1) b(1)] have "says s s2" by (simp add: says_same)
  then show ?thesis using b(2) by (rule says_trans)
qed

lemma headInDb_says: "doHeadInDb S m s = Some s' \<Longrightarrow> says s s'"
  unfolding doHeadInDb_def by (auto elim!: bindE intro!: says_outs)

lemma artInDb_says:
  assumes "quiet S" "doArtInDb S m s = Some s'"
  shows "says s s'"
  using assms(2) unfolding doArtInDb_def
  by (auto elim!: bindE dest!: headInDb_says bodyInDb_says [OF assms(1)] intro: says_trans says_puts(2))

lemma info_head_says: "put_info_head S s = Some s' \<Longrightarrow> says s s'"
  unfolding put_info_head_def by (auto elim!: bindE)

lemma info_body_says: "says s t \<Longrightarrow> says s (put_info_body S t)"
  by (simp add: put_info_body_def says_puts)

lemma doHead_answered: "answered no_article {STAT_HEAD_FOLLOWS} s (doHead S arg s)"
  unfolding doHead_def
proof (rule whichId_answered [OF order_refl], rule answeredI)
  fix m n s1 b s'
  assume "srv_out s1 = srv_out s"
    and "(do { let s2 = putStat STAT_HEAD_FOLLOWS (dec_int n @ '' '' @ m @ '' Head'') s1;
               s3 \<leftarrow> (if Pseudo_isGeneralInfo m then put_info_head S s2 else doHeadInDb S m s2);
               Some (True, putEndOfTxt s3) }) = Some (b, s')"
  then show "b \<and> answers no_article {STAT_HEAD_FOLLOWS} s s'"
    by (auto simp: Let_def elim!: bindE split: if_split_asm dest!: headInDb_says info_head_says
        intro: text_answered)
qed

lemma text_noted:
  assumes "noteInterest S (putEndOfTxt u) = Some v" and "says (putStat c x t) u" "srv_out t = srv_out s" "c \<in> B"
  shows "answers A B s v"
  using text_answered [OF assms(3,4,2)] note_out [OF assms(1)] by (rule answers_quiet)

lemma doBody_answered:
  assumes "quiet S"
  shows "answered no_article {STAT_BODY_FOLLOWS} s (doBody S arg s)"
  unfolding doBody_def
proof (rule whichId_answered [OF order_refl], rule answeredI)
  fix m n s1 b s'
  assume "srv_out s1 = srv_out s"
    and "(do { let s2 = putStat STAT_BODY_FOLLOWS (dec_int n @ '' '' @ m @ '' Body'') s1;
               s3 \<leftarrow> (if Pseudo_isGeneralInfo m then Some (put_info_body S s2) else doBodyInDb S m s2);
               s4 \<leftarrow> noteInterest S (putEndOfTxt s3);
               Some (True, s4) }) = Some (b, s')"
  then show "b \<and> answers no_article {STAT_BODY_FOLLOWS} s s'"
    by (auto simp: Let_def elim!: bindE split: if_split_asm dest!: bodyInDb_says [OF assms]
        elim!: text_noted [OF _ info_body_says [OF says_refl]] text_noted)
qed

lemma doArt_answered:
  assumes "quiet S"
  shows "answered no_article {STAT_ART_FOLLOWS} s (doArt S arg s)"
  unfolding doArt_def
proof (rule whichId_answered [OF order_refl], rule answeredI)
  fix m n s1 b s'
  assume "srv_out s1 = srv_out s"
    and "(do { let s2 = putStat STAT_ART_FOLLOWS (dec_int n @ '' '' @ m @ '' Article'') s1;
               s3 \<leftarrow> (if Pseudo_isGeneralInfo m
                       then map_option (\<lambda>s. put_info_body S (putTxtLn [] s)) (put_info_head S s2)
                       else doArtInDb S m s2);
               s4 \<leftarrow> noteInterest S (putEndOfTxt s3);
               Some (True, s4) }) = Some (b, s')"
  then show "b \<and> answers no_article {STAT_ART_FOLLOWS} s s'"
    by (auto simp: Let_def elim!: bindE split: if_split_asm dest!: artInDb_says [OF assms] info_head_says
        elim!: text_noted intro: info_body_says says_puts(2))
qed

subsection \<open>Lists of groups\<close>

definition silent :: "('g, 'd) senv \<Rightarrow> ('g, 'd) print_proc \<Rightarrow> bool" where
  "silent S pr \<longleftrightarrow> (\<forall>g s r s'. pr S g s = Some (r, s') \<longrightarrow> srv_out s' = srv_out s)"

lemma silentD: "silent S pr \<Longrightarrow> pr S g s = Some (r, s') \<Longrightarrow> srv_out s' = srv_out s"
  by (simp add: silent_def)

lemma group_loop_out:
  "silent S pr \<Longrightarrow> group_loop n st S pr pat key f s = Some (f', s') \<Longrightarrow> grows f f' \<and> srv_out s' = srv_out s"
proof (induction n st S pr pat key f s rule: group_loop.induct)
  case (3 n st S pr pat key f s)
  from 3(3) obtain m ok f1 s1 where
    b: "(if m then do { (line, s1) \<leftarrow> pr S (key_str key) s; (let (b, f1) = Prt_putTxtLn line f in Some (b, f1, s1)) }
         else Some (True, f, s)) = Some (ok, f1, s1)"
    and r: "(if \<not> ok \<and> st then Some (f1, s1)
          else group_loop n st S pr pat (Grp_nextGrp (glib S) (Some key) (sp_grp (srv_sp s1))) f1 s1) = Some (f', s')"
    and m: "Wld_match (key_str key) pat = Some m"
    by (auto elim!: bindE)
  from b have g: "grows f f1 \<and> srv_out s1 = srv_out s"
    by (auto elim!: bindE split: if_split_asm prod.splits dest: silentD [OF 3(2)] grows_putTxtLn_eq)
  show ?case
  proof (cases "\<not> ok \<and> st")
    case True
    with r g show ?thesis by simp
  next
    case False
    with r have l: "group_loop n st S pr pat (Grp_nextGrp (glib S) (Some key) (sp_grp (srv_sp s1))) f1 s1 = Some (f', s')"
      by simp
    from 3(1) [OF m b refl refl] False 3(2) l g show ?thesis by (auto intro: grows_trans)
  qed
qed auto

lemma print_procs_silent: "silent S printActiveTimes" "silent S printActive" "silent S printNewsgrp"
proof -
  show "silent S printActiveTimes" "silent S printNewsgrp"
    unfolding silent_def printActiveTimes_def printNewsgrp_def by (auto elim!: bindE)
  show "silent S printActive"
    unfolding silent_def printActive_def by (auto elim!: bindE dest!: needs_out)
qed

lemma printGroups_answers:
  assumes "silent S pr" "printGroups S pat pr s = Some s'" "STAT_GRPS_FOLLOW \<in> B"
  shows "answers A B s s'"
proof -
  let ?s0 = "putStat STAT_GRPS_FOLLOW ''Groups'' s"
  have *: "answers A B s (putEndOfTxt t)" if "says ?s0 t" for t
    using that assms(3) by (rule text_now)
  consider (loop) f s1 where "group_loop (se_groups S) False S pr pat (Grp_firstGrp (glib S) (sp_grp (srv_sp ?s0))) (srv_out ?s0) ?s0 = Some (f, s1)"
      "s' = putEndOfTxt (s1\<lparr>srv_out := f\<rparr>)"
    | (sort) srt f s1 p where "group_loop (se_groups S) True S pr pat (Grp_firstGrp (glib S) (sp_grp (srv_sp ?s0))) p ?s0 = Some (f, s1)"
      "s' = putEndOfTxt (emit (srt (written f)) s1)"
    | (one) line s1 where "pr S pat ?s0 = Some (line, s1)"
      "s' = putEndOfTxt (s1\<lparr>srv_out := snd (Prt_putTxtLn line (srv_out s1))\<rparr>)"
    | (none) "s' = putEndOfTxt ?s0"
    using assms(2) unfolding printGroups_def Let_def by (auto elim!: bindE split: if_split_asm option.split_asm)
  then show ?thesis
  proof cases
    case loop
    with group_loop_out [OF assms(1) loop(1)] show ?thesis by (auto simp: says_def intro!: *)
  next
    case sort
    with group_loop_out [OF assms(1) sort(1)] show ?thesis by (auto intro!: * intro: says_trans [OF says_same says_put(1)])
  next
    case one
    with silentD [OF assms(1) one(1)] show ?thesis
      by (auto simp: says_def intro!: * grows_putTxtLn)
  next
    case none
    then show ?thesis by (simp add: *)
  qed
qed

definition list_texts :: "nat set" where
  "list_texts = {STAT_GRPS_FOLLOW, STAT_CMD_OK}"

lemma doList_answered: "answered {STAT_SYNTAX_ERR} list_texts s (doList S syntax line s)"
proof (rule answeredI)
  fix b s'
  assume a: "doList S syntax line s = Some (b, s')"
  have g: "STAT_GRPS_FOLLOW \<in> list_texts" "STAT_CMD_OK \<in> list_texts" by (simp_all add: list_texts_def)
  have t: "answers A list_texts s (putEndOfTxt (putTxtBuf x (putStat c y s)))" if "c \<in> list_texts" for A x c y
    using that by (intro text_now [of c y s]) simp_all
  have f: "answers A list_texts s u" if "srv_Fetchlist_read S s = Some v" "printGroups S p printActive v = Some u" for A u v p
    using printGroups_answers [OF print_procs_silent(2) that(2) g(1)] flread_out [OF that(1)] by (simp add: answers_def)
  from a show "b \<and> answers {STAT_SYNTAX_ERR} list_texts s s'"
    unfolding doList_def doListActive_def doListNewsgrps_def doListActiveTimes_def Let_def
    by (auto elim!: bindE split: option.split_asm if_split_asm
        dest: f printGroups_answers [OF print_procs_silent(1) _ g(1)] printGroups_answers [OF print_procs_silent(3) _ g(1)]
        simp: doListOverFmt_def doListExtensions_def t g)
qed

lemma newgrps_says: "newgrps_loop n S t key s = Some s' \<Longrightarrow> says s s'"
proof (induction n S t key s rule: newgrps_loop.induct)
  case (3 n S t key s)
  from 3(2) obtain c g s2 where g: "Grp_created (glib S) (key_str key) (sp_grp (srv_sp s)) = Some (c, g)"
    and b: "(if c > t then
                   do { (l, g1) \<leftarrow> Grp_last (glib S) (key_str key) (sp_grp (srv_sp (set_grp s g)));
                        (f, g2) \<leftarrow> Grp_first (glib S) (key_str key) g1;
                        Some (putTxtLn (key_str key @ '' '' @ fmt_lu l @ '' '' @ fmt_lu f @ '' y'') (set_grp (set_grp s g) g2)) }
                 else Some (set_grp s g)) = Some s2"
    and r: "newgrps_loop n S t (Grp_nextGrp (glib S) (Some key) (sp_grp (srv_sp s2))) s2 = Some s'"
    unfolding newgrps_loop.simps Let_def by (elim bindE) (auto simp: Let_def elim!: bindE)
  have "says s s2"
    using b by (auto elim!: bindE split: if_split_asm simp: says_same intro: says_trans [OF says_same says_put(3)])
  moreover have "says s2 s'"
    using 3(1) [OF g refl refl b r] .
  ultimately show ?case by (rule says_trans)
qed auto

lemma doNewgrps_answered: "answered {STAT_SYNTAX_ERR} {STAT_NEW_GRP_FOLLOW} s (doNewgrps S syntax arg s)"
proof (rule answeredI)
  fix b s'
  assume a: "doNewgrps S syntax arg s = Some (b, s')"
  have l: "answers A {STAT_NEW_GRP_FOLLOW} s (putEndOfTxt u)" if "newgrps_loop n S t k (putStat STAT_NEW_GRP_FOLLOW x s) = Some u" for A n t k x u
    using newgrps_says [OF that] by (rule text_now) simp
  have e: "answers A {STAT_NEW_GRP_FOLLOW} s (putEndOfTxt (putStat STAT_NEW_GRP_FOLLOW x s))" for A x
    by (rule text_now [OF says_refl]) simp
  from a show "b \<and> answers {STAT_SYNTAX_ERR} {STAT_NEW_GRP_FOLLOW} s s'"
    unfolding doNewgrps_def Let_def
    by (auto elim!: bindE split: option.split_asm if_split_asm dest!: l simp: e)
qed

subsection \<open>Posting\<close>

lemma allows_out: "grp_allows S a grp s = Some (r, s') \<Longrightarrow> srv_out s' = srv_out s"
  unfolding grp_allows_def Let_def by (auto elim!: bindE split: if_split_asm dest!: grp_local_out)

lemma check_loop_out: "check_loop n S ap grp it k al s = Some (k', al', s') \<Longrightarrow> srv_out s' = srv_out s"
proof (induction n arbitrary: grp it k al s)
  case 0
  then show ?case by (cases grp) auto
next
  case (Suc n)
  from Suc.prems show ?case
    by (cases grp) (auto elim!: bindE split: if_split_asm dest!: allows_out Suc.IH)
qed

lemma Out_add_out [simp]: "srv_out (snd (srv_Out_add S srv m tx s)) = srv_out s"
  by (simp add: srv_Out_add_def Let_def split: prod.splits)

lemma Out_add_out_eq: "srv_Out_add S srv m tx s = (b, s') \<Longrightarrow> srv_out s' = srv_out s"
  using Out_add_out [of S srv m tx s] by simp

lemma local_loop_out: "local_loop n S tx grp it err one st = Some (err', one', a', s') \<Longrightarrow> srv_out s' = srv_out (snd st)"
proof (induction n arbitrary: grp it err one st)
  case 0
  then show ?case by (cases grp) auto
next
  case (Suc n)
  from Suc.prems show ?case
    by (cases grp; cases st) (auto elim!: bindE split: if_split_asm prod.split_asm dest!: grp_local_out Suc.IH)
qed

lemma remote_loop_out: "remote_loop n S m tx grp it err seen s = Some (b, s') \<Longrightarrow> srv_out s' = srv_out s"
proof (induction n arbitrary: grp it err seen s)
  case 0
  then show ?case by (cases grp) auto
next
  case (Suc n)
  from Suc.prems show ?case
    by (cases grp) (auto elim!: bindE split: if_split_asm prod.split_asm dest!: grp_local_out grp_server_out Out_add_out_eq Suc.IH)
qed

lemma pass_loop_out: "pass_loop n S m tx grp it s = Some (b, s') \<Longrightarrow> srv_out s' = srv_out s"
proof (induction n arbitrary: grp it s)
  case 0
  then show ?case by (cases grp) auto
next
  case (Suc n)
  from Suc.prems show ?case
    by (cases grp) (auto elim!: bindE split: if_split_asm prod.split_asm dest!: grp_local_out grp_server_out Out_add_out_eq Suc.IH)
qed

lemma log_loop_out: "log_loop n S grp it s = Some s' \<Longrightarrow> srv_out s' = srv_out s"
proof (induction n arbitrary: grp it s)
  case 0
  then show ?case by (cases grp) auto
next
  case (Suc n)
  from Suc.prems show ?case
    by (cases grp) (auto elim!: bindE split: if_split_asm prod.split_asm dest!: grp_local_out Suc.IH)
qed

lemma postArticle_out: "postArticle S ng m tx s = Some (b, s') \<Longrightarrow> srv_out s' = srv_out s"
  unfolding postArticle_def by (auto elim!: bindE dest!: local_loop_out remote_loop_out)

lemma handleControl_out: "handleControl S c ng m tx s = Some (b, s') \<Longrightarrow> srv_out s' = srv_out s"
  unfolding handleControl_def controlCancel_def
  by (auto elim!: bindE split: option.split_asm if_split_asm dest!: pass_loop_out log_loop_out)

lemma try_post_out: "try_post S ps s = Some (b, s') \<Longrightarrow> srv_out s' = srv_out s"
  unfolding try_post_def
  by (auto elim!: bindE split: option.split_asm if_split_asm dest!: check_loop_out postArticle_out handleControl_out)

text \<open>POST asks for the article and says afterwards what became of it.\<close>

lemma fprint_stats: "srv_out (putStat c x s) = snd (fprint (stat_line c x) (srv_out s))"
  by (simp add: putStat_def emit_def)

lemma doPost_answered:
  assumes "quiet S" "doPost S s = Some (b, s')"
  shows "b \<and> (\<exists>t st u. st \<in> {STAT_POST_OK, STAT_POST_FAILED}
    \<and> srv_out s' = snd (fprint (stat_line STAT_SEND_ART t @ stat_line st u) (srv_out s)))"
proof -
  obtain ls e r where t: "recv_text True (-1) (srv_in s) = (ls, e, r)" by (metis prod_cases3)
  let ?m = "''Continue (end with period)''"
  let ?s1 = "(putStat STAT_SEND_ART ?m s)\<lparr>srv_in := r\<rparr>"
  have i: "srv_in (putStat c x s) = srv_in s" for c x by (simp add: putStat_def emit_def)
  from assms(2) t obtain ps err s2 where
    r: "(if e \<noteq> Txt_end then Some (True, ?s1) else try_post S ps ?s1) = Some (err, s2)" and
    w: "(if err then Some (True, putStat STAT_POST_FAILED ''Posting failed'' s2)
        else do { let s3 = putStat STAT_POST_OK ''Message posted'' s2;
                  s4 \<leftarrow> (if online S s3 then net_postArts S s3 else Some s3); Some (True, s4) }) = Some (b, s')"
    unfolding doPost_def Let_def i by (auto elim!: bindE)
  from r have o: "srv_out s2 = snd (fprint (stat_line STAT_SEND_ART ?m) (srv_out s))"
    by (auto simp: fprint_stats split: if_split_asm dest: try_post_out)
  have "srv_out u = srv_out v" if "net_postArts S v = Some u" for u v
    using that assms(1) by (simp add: quiet_def)
  with w have "b \<and> (\<exists>st u. st \<in> {STAT_POST_OK, STAT_POST_FAILED} \<and> srv_out s' = snd (fprint (stat_line st u) (srv_out s2)))"
    by (fastforce simp: Let_def fprint_stats elim!: bindE split: if_split_asm)
  with o show ?thesis by (metis fprint_fprint)
qed

lemma doHelp_answers: "answers {} {STAT_HELP_FOLLOWS} s (doHelp s)"
proof -
  have f: "says t (fold (\<lambda>c. putTxtLn (snd c)) cs t)" for cs :: "(cstr \<times> cstr) list" and t :: "('g, 'd) server"
  proof (induction cs arbitrary: t)
    case (Cons c cs)
    show ?case using says_trans [OF says_put(3) Cons.IH] by simp
  qed simp
  show ?thesis
    unfolding doHelp_def by (rule text_now) (rule says_trans [OF says_put(4) f], simp)
qed

text \<open>The status codes of every command: those that stand alone, and those that announce a text.\<close>

definition replies :: "(cstr \<times> nat set \<times> nat set) list" where
  "replies =
     [(''article'', no_article, {STAT_ART_FOLLOWS}), (''body'', no_article, {STAT_BODY_FOLLOWS}),
      (''head'', no_article, {STAT_HEAD_FOLLOWS}), (''stat'', insert STAT_ART_RETRIEVED no_article, {}),
      (''group'', {STAT_GRP_SELECTED, STAT_NO_SUCH_GRP, STAT_SYNTAX_ERR}, {}),
      (''listgroup'', {STAT_NO_SUCH_GRP}, {STAT_GRP_SELECTED}), (''help'', {}, {STAT_HELP_FOLLOWS}),
      (''ihave'', {STAT_ART_REJECTED}, {}), (''mode'', {STAT_READY_POST_ALLOW}, {}), (''slave'', {STAT_CMD_OK}, {}),
      (''newnews'', {STAT_NO_PERMISSION}, {}), (''quit'', {STAT_GOODBYE}, {}),
      (''last'', {STAT_ART_RETRIEVED, STAT_NO_GRP_SELECTED, STAT_NO_ART_SELECTED, STAT_NO_PREV_ART}, {}),
      (''next'', {STAT_ART_RETRIEVED, STAT_NO_GRP_SELECTED, STAT_NO_ART_SELECTED, STAT_NO_NEXT_ART}, {}),
      (''list'', {STAT_SYNTAX_ERR}, list_texts), (''newgroups'', {STAT_SYNTAX_ERR}, {STAT_NEW_GRP_FOLLOW}),
      (''xhdr'', xhdr_codes, {STAT_HEAD_FOLLOWS}), (''xpat'', xhdr_codes, {STAT_HEAD_FOLLOWS}),
      (''xover'', {STAT_NO_GRP_SELECTED}, {STAT_OVERS_FOLLOW}), (''post'', {}, {})]"

text \<open>What may stand behind a status line of a command: nothing, a text with its end, or the second line of POST.  A line
  that is not a command gets 500.\<close>

definition reply :: "cstr \<Rightarrow> nat \<Rightarrow> cstr \<Rightarrow> bool" where
  "reply c st rest \<longleftrightarrow>
     (case map_of replies c of
        None \<Rightarrow> st = STAT_NO_SUCH_CMD \<and> rest = []
      | Some (A, B) \<Rightarrow> st \<in> A \<and> rest = [] \<or> st \<in> B \<and> (\<exists>body. rest = body @ period))
     \<or> c = ''post'' \<and> st = STAT_SEND_ART \<and> (\<exists>st2 t2. st2 \<in> {STAT_POST_OK, STAT_POST_FAILED} \<and> rest = stat_line st2 t2)"

definition replied :: "cstr \<Rightarrow> ('g, 'd) server \<Rightarrow> ('g, 'd) server \<Rightarrow> bool" where
  "replied c s s' \<longleftrightarrow> (\<exists>st t rest. srv_out s' = snd (fprint (stat_line st t @ rest) (srv_out s)) \<and> reply c st rest)"

lemma answers_replied: "answers A B s s' \<Longrightarrow> map_of replies c = Some (A, B) \<Longrightarrow> replied c s s'"
  unfolding answers_def replied_def reply_def by (elim disjE exE conjE) (force, fastforce)

lemma answered_replied: "answered A B s r \<Longrightarrow> r = Some (b, s') \<Longrightarrow> map_of replies c = Some (A, B) \<Longrightarrow> b \<and> replied c s s'"
  by (auto dest: answeredD answers_replied)

lemma commands_replies: "set (map fst commands) = set (map fst replies)"
  by code_simp


text \<open>The table and the dispatch, one command at a time.\<close>

lemma cmdProc_of:
  "cmdProc S ''article'' syntax arg s = doArt S arg s"
  "cmdProc S ''body'' syntax arg s = doBody S arg s"
  "cmdProc S ''head'' syntax arg s = doHead S arg s"
  "cmdProc S ''stat'' syntax arg s = doStat S arg s"
  "cmdProc S ''group'' syntax arg s = doGrp S syntax arg s"
  "cmdProc S ''listgroup'' syntax arg s = doListgrp S arg s"
  "cmdProc S ''last'' syntax arg s = doLast s"
  "cmdProc S ''next'' syntax arg s = doNext s"
  "cmdProc S ''list'' syntax arg s = doList S syntax arg s"
  "cmdProc S ''newgroups'' syntax arg s = doNewgrps S syntax arg s"
  "cmdProc S ''xhdr'' syntax arg s = doXhdr S syntax arg s"
  "cmdProc S ''xpat'' syntax arg s = doXpat S syntax arg s"
  "cmdProc S ''xover'' syntax arg s = doXOver S arg s"
  "cmdProc S ''help'' syntax arg s = Some (True, doHelp s)"
  "cmdProc S ''ihave'' syntax arg s = Some (True, doIhave s)"
  "cmdProc S ''mode'' syntax arg s = Some (True, doMode s)"
  "cmdProc S ''slave'' syntax arg s = Some (True, doSlave s)"
  "cmdProc S ''newnews'' syntax arg s = Some (True, notImplemented s)"
  "cmdProc S ''quit'' syntax arg s = Some (False, doQuit s)"
  "cmdProc S ''post'' syntax arg s = doPost S s"
  by (simp_all add: cmdProc_def)

lemma replies_of:
  "map_of replies ''article'' = Some (no_article, {STAT_ART_FOLLOWS})"
  "map_of replies ''body'' = Some (no_article, {STAT_BODY_FOLLOWS})"
  "map_of replies ''head'' = Some (no_article, {STAT_HEAD_FOLLOWS})"
  "map_of replies ''stat'' = Some (insert STAT_ART_RETRIEVED no_article, {})"
  "map_of replies ''group'' = Some ({STAT_GRP_SELECTED, STAT_NO_SUCH_GRP, STAT_SYNTAX_ERR}, {})"
  "map_of replies ''listgroup'' = Some ({STAT_NO_SUCH_GRP}, {STAT_GRP_SELECTED})"
  "map_of replies ''help'' = Some ({}, {STAT_HELP_FOLLOWS})"
  "map_of replies ''ihave'' = Some ({STAT_ART_REJECTED}, {})"
  "map_of replies ''mode'' = Some ({STAT_READY_POST_ALLOW}, {})"
  "map_of replies ''slave'' = Some ({STAT_CMD_OK}, {})"
  "map_of replies ''newnews'' = Some ({STAT_NO_PERMISSION}, {})"
  "map_of replies ''quit'' = Some ({STAT_GOODBYE}, {})"
  "map_of replies ''last'' = Some ({STAT_ART_RETRIEVED, STAT_NO_GRP_SELECTED, STAT_NO_ART_SELECTED, STAT_NO_PREV_ART}, {})"
  "map_of replies ''next'' = Some ({STAT_ART_RETRIEVED, STAT_NO_GRP_SELECTED, STAT_NO_ART_SELECTED, STAT_NO_NEXT_ART}, {})"
  "map_of replies ''list'' = Some ({STAT_SYNTAX_ERR}, list_texts)"
  "map_of replies ''newgroups'' = Some ({STAT_SYNTAX_ERR}, {STAT_NEW_GRP_FOLLOW})"
  "map_of replies ''xhdr'' = Some (xhdr_codes, {STAT_HEAD_FOLLOWS})"
  "map_of replies ''xpat'' = Some (xhdr_codes, {STAT_HEAD_FOLLOWS})"
  "map_of replies ''xover'' = Some ({STAT_NO_GRP_SELECTED}, {STAT_OVERS_FOLLOW})"
  "map_of replies ''post'' = Some ({}, {})"
  by (simp_all add: replies_def)

lemma fixed_answers:
  "answers {STAT_ART_REJECTED} {} s (doIhave s)" "answers {STAT_READY_POST_ALLOW} {} s (doMode s)"
  "answers {STAT_CMD_OK} {} s (doSlave s)" "answers {STAT_GOODBYE} {} s (doQuit s)" "answers {STAT_NO_PERMISSION} {} s (notImplemented s)"
  by (simp_all add: doIhave_def doMode_def doSlave_def doQuit_def notImplemented_def)

lemma cmdProc_answered:
  assumes "quiet S" "c \<in> set (map fst replies)" "c \<noteq> ''post''" "c \<noteq> ''quit''"
  shows "\<exists>A B. map_of replies c = Some (A, B) \<and> answered A B s (cmdProc S c syntax arg s)"
proof -
  note d = doArt_answered [OF assms(1)] doBody_answered [OF assms(1)] doHead_answered doStat_answered doGrp_answered [OF assms(1)]
    doListgrp_answered [OF assms(1)] doLast_answered doNext_answered doList_answered doNewgrps_answered
    doXhdr_answered doXpat_answered doXOver_answered doHelp_answers fixed_answers
  have "c = ''article'' \<or> c = ''body'' \<or> c = ''head'' \<or> c = ''stat'' \<or> c = ''group'' \<or> c = ''listgroup'' \<or> c = ''help'' \<or> c = ''ihave'' \<or> c = ''mode'' \<or> c = ''slave'' \<or> c = ''newnews'' \<or> c = ''last'' \<or> c = ''next'' \<or> c = ''list'' \<or> c = ''newgroups'' \<or> c = ''xhdr'' \<or> c = ''xpat'' \<or> c = ''xover''"
    using assms(2-4) by (simp add: replies_def)
  then show ?thesis by (elim disjE; simp add: cmdProc_of replies_of d)
qed

lemma post_replied:
  "st \<in> {STAT_POST_OK, STAT_POST_FAILED} \<Longrightarrow> srv_out s' = snd (fprint (stat_line STAT_SEND_ART t @ stat_line st u) (srv_out s))
    \<Longrightarrow> replied ''post'' s s'"
  unfolding replied_def reply_def by blast

lemma cmdProc_replies:
  assumes "quiet S" "cmdProc S c syntax arg s = Some (b, s')" "map_of commands c = Some x"
  shows "replied c s s' \<and> (b \<longleftrightarrow> c \<noteq> ''quit'')"
proof -
  have "c \<in> set (map fst commands)" using assms(3) map_of_SomeD by force
  then have c: "c \<in> set (map fst replies)" by (simp only: commands_replies)
  consider (post) "c = ''post''" | (quit) "c = ''quit''" | (other) "c \<noteq> ''post''" "c \<noteq> ''quit''" by blast
  then show ?thesis
  proof cases
    case post
    with doPost_answered [OF assms(1), of s b s'] assms(2) show ?thesis by (auto simp: cmdProc_of intro: post_replied)
  next
    case quit
    with answers_replied [OF fixed_answers(4) replies_of(12)] assms(2) show ?thesis by (auto simp: cmdProc_of)
  next
    case other
    from cmdProc_answered [OF assms(1) c this] obtain A B where
      "map_of replies c = Some (A, B)" "answered A B s (cmdProc S c syntax arg s)" by blast
    with answered_replied [OF this(2) assms(2) this(1)] other show ?thesis by simp
  qed
qed

subsection \<open>The network client\<close>

text \<open>The client that the server uses online changes the data bases and the requests, and writes nothing to the client
  of the server.\<close>

lemma hand_back_out [simp]: "srv_out (hand_back s c) = srv_out s"
  by (simp add: hand_back_def)

lemma post_servers_out: "post_servers C listing srvs s = Some s' \<Longrightarrow> srv_out s' = srv_out s"
proof (induction srvs arbitrary: s)
  case (Cons srv srvs)
  from Cons.prems show ?case by (auto elim!: bindE split: if_split_asm dest!: Cons.IH)
qed simp

lemma go_online_quiet: "quiet (go_online sig hosts listing S)"
  unfolding quiet_def go_online_def Let_def
  by (auto simp: online_getNewArts_def online_retrieveArt_def online_postArts_def elim!: bindE split: if_split_asm dest!: post_servers_out)

text \<open>The command of a line.\<close>

definition command_of :: "cstr \<Rightarrow> cstr" where
  "command_of line = (case scan_s line of None \<Rightarrow> [] | Some (w, _) \<Rightarrow> Utl_toLower w)"

lemma no_command: "map_of commands c = None \<longleftrightarrow> map_of replies c = None"
  using commands_replies by (simp only: map_of_eq_None_iff set_map)




definition reply_env :: "(cstr \<Rightarrow> byte list option, cstr \<Rightarrow> byte list option) senv" where
  "reply_env = \<lparr>se_env = post_env, se_cfg = config_init ''/var'' ''1'', se_gen = sample_gen, se_host = ''h'',
     se_date = (\<lambda>_. ''d''), se_mktime = (\<lambda>_ _ _ _ _ _. -1), se_sort = Some (\<lambda>t. t), se_pipe = 4096,
     se_groups = 10, se_servs = None, se_reqs = (\<lambda>_. True), net_getNewArts = (\<lambda>_ _ s. Some s),
     net_retrieveArt = (\<lambda>_ _ s. Some (False, s)), net_postArts = Some\<rparr>"

definition reply_state :: "(cstr \<Rightarrow> byte list option, cstr \<Rightarrow> byte list option) server" where
  "reply_state = \<lparr>running = True, artPtr = 0, srv_grp = [], srv_sp = post_spool, srv_fl = [], srv_req = \<lparr>reqserv = [], is_open = True, itr = None, it_valid = False,
       files = (\<lambda>_. None), no_mtime = 0\<rparr>,
     srv_in = [], srv_out = \<lparr>written = [], room = 4096\<rparr>\<rparr>"

text \<open>Two lines, with a client that reaches no server.\<close>

lemma reply_line:
  assumes "scan_s line = Some (w, r)" "map_of commands (Utl_toLower w) = Some syn" "strip_at ''x'' (Utl_restOfLn line 1) = Some arg"
  shows "parseAndExecute (go_online True (\<lambda>_ _. None) (\<lambda>_. None) reply_env) line s = cmdProc (go_online True (\<lambda>_ _. None) (\<lambda>_. None) reply_env) (Utl_toLower w) syn arg s"
proof -
  have "before (se_env (go_online True (\<lambda>_ _. None) (\<lambda>_. None) reply_env)) = ''x''"
    by (simp add: go_online_def Let_def reply_env_def post_env_def)
  then show ?thesis using assms by (simp add: parseAndExecute_def)
qed


end
