(* ===== verification/ServerNav.thy ===== *)
theory ServerNav
  imports ServerReply
begin

text \<open>
  The selected group as its readers see it: where LAST and NEXT move the article pointer, which articles a
  range has, and the overviews that XOVER prints.  The articles of a content list are the entries
  with a number from its first to its last.
\<close>

subsection \<open>The articles of a group\<close>

definition art_nr :: "cont \<Rightarrow> int \<Rightarrow> Over option" where
  "art_nr c n = (if first c \<le> n \<and> n \<le> last_nr c then look c n else None)"

fun arts_in :: "cont \<Rightarrow> int list \<Rightarrow> Over list" where
  "arts_in c [] = []"
| "arts_in c (i # is) = (case art_nr c i of None \<Rightarrow> arts_in c is | Some ov \<Rightarrow> ov # arts_in c is)"

lemma arts_in_append: "arts_in c (is @ js) = arts_in c is @ arts_in c js"
  by (induction "is") (auto split: option.splits)

lemma Cont_get_art: "cont_inv c \<Longrightarrow> Cont_get c n = Some (art_nr c n)"
  by (simp add: Cont_get_look art_nr_def)

lemma Cont_valid_art: "cont_inv c \<Longrightarrow> Cont_validNumb c n = Some (art_nr c n \<noteq> None)"
  by (auto simp: Cont_validNumb_def art_nr_def look_def elem_at_def cont_inv_def)

lemma art_nr_range: "art_nr c n \<noteq> None \<Longrightarrow> first c \<le> n \<and> n \<le> last_nr c"
  by (simp add: art_nr_def split: if_splits)

subsection \<open>The article pointer\<close>

lemma next_loop_finds:
  "cont_inv c \<Longrightarrow> p < n \<Longrightarrow> art_nr c n \<noteq> None \<Longrightarrow> (\<And>k. p < k \<Longrightarrow> k < n \<Longrightarrow> art_nr c k = None) \<Longrightarrow> next_loop c p = Some n"
proof (induction "nat (n - p)" arbitrary: p rule: less_induct)
  case less
  from art_nr_range [OF less.prems(3)] have n: "n \<le> last_nr c" ..
  show ?case
  proof (cases "p + 1 = n")
    case True
    with less.prems show ?thesis by (subst next_loop.simps) (simp add: Cont_valid_art)
  next
    case False
    with less.prems(2) have p: "p + 1 < n" by simp
    with less.prems(4) [of "p + 1"] less.prems(1) n have "next_loop c p = next_loop c (p + 1)"
      by (subst next_loop.simps) (simp add: Cont_valid_art)
    moreover have "next_loop c (p + 1) = Some n"
      using less.prems p by (intro less.hyps) auto
    ultimately show ?thesis by simp
  qed
qed

lemma next_loop_none:
  "cont_inv c \<Longrightarrow> (\<And>n. p < n \<Longrightarrow> art_nr c n = None) \<Longrightarrow> \<exists>m. next_loop c p = Some m \<and> p < m"
proof (induction c p rule: next_loop.induct)
  case (1 c p)
  show ?case
  proof (cases "p + 1 \<le> last_nr c")
    case True
    with 1(2,3) have "next_loop c p = next_loop c (p + 1)"
      by (subst next_loop.simps) (simp add: Cont_valid_art)
    with 1(1) [of False] 1(2,3) True show ?thesis by (fastforce simp: Cont_valid_art)
  next
    case False
    with 1(2,3) show ?thesis by (subst next_loop.simps) (simp add: Cont_valid_art)
  qed
qed

lemma last_loop_finds:
  "cont_inv c \<Longrightarrow> n < p \<Longrightarrow> art_nr c n \<noteq> None \<Longrightarrow> (\<And>k. n < k \<Longrightarrow> k < p \<Longrightarrow> art_nr c k = None) \<Longrightarrow> last_loop c p = Some n"
proof (induction "nat (p - n)" arbitrary: p rule: less_induct)
  case less
  from art_nr_range [OF less.prems(3)] have n: "first c \<le> n" ..
  show ?case
  proof (cases "p - 1 = n")
    case True
    with less.prems show ?thesis by (subst last_loop.simps) (simp add: Cont_valid_art)
  next
    case False
    with less.prems(2) have p: "n < p - 1" by simp
    with less.prems(4) [of "p - 1"] less.prems(1) n have "last_loop c p = last_loop c (p - 1)"
      by (subst last_loop.simps) (simp add: Cont_valid_art)
    moreover have "last_loop c (p - 1) = Some n"
      using less.prems p by (intro less.hyps) auto
    ultimately show ?thesis by simp
  qed
qed

lemma last_loop_none:
  "cont_inv c \<Longrightarrow> (\<And>n. n < p \<Longrightarrow> art_nr c n = None) \<Longrightarrow> \<exists>m. last_loop c p = Some m \<and> m < p"
proof (induction c p rule: last_loop.induct)
  case (1 c p)
  show ?case
  proof (cases "first c \<le> p - 1")
    case True
    with 1(2,3) have "last_loop c p = last_loop c (p - 1)"
      by (subst last_loop.simps) (simp add: Cont_valid_art)
    with 1(1) [of False] 1(2,3) True show ?thesis by (fastforce simp: Cont_valid_art)
  next
    case False
    with 1(2,3) show ?thesis by (subst last_loop.simps) (simp add: Cont_valid_art)
  qed
qed

text \<open>The nearest article on a side of the pointer: \<open>before p n\<close> says that \<open>n\<close> is on that side and nearer than the rest.\<close>

definition nearest_after :: "cont \<Rightarrow> int \<Rightarrow> int \<Rightarrow> Over \<Rightarrow> bool" where
  "nearest_after c p n ov \<longleftrightarrow> p < n \<and> art_nr c n = Some ov \<and> (\<forall>k. p < k \<and> k < n \<longrightarrow> art_nr c k = None)"

definition nearest_before :: "cont \<Rightarrow> int \<Rightarrow> int \<Rightarrow> Over \<Rightarrow> bool" where
  "nearest_before c p n ov \<longleftrightarrow> n < p \<and> art_nr c n = Some ov \<and> (\<forall>k. n < k \<and> k < p \<longrightarrow> art_nr c k = None)"

text \<open>The answer that selects an article.\<close>

definition moved :: "int \<Rightarrow> Over \<Rightarrow> ('g, 'd) server \<Rightarrow> ('g, 'd) server" where
  "moved n ov s = (putStat 223 (dec_int n @ '' '' @ ov_msgId ov @ '' selected'') s)\<lparr>artPtr := n\<rparr>"

lemma selected_moved: "cont_inv (srv_cont s) \<Longrightarrow> art_nr (srv_cont s) n = Some ov \<Longrightarrow> selected n s = Some (moved n ov s)"
  by (simp add: selected_def Cont_get_art moved_def STAT_ART_RETRIEVED_def)

lemma move_nearest:
  assumes "cont_inv (srv_cont s)" "srv_grp s \<noteq> []" "art_nr (srv_cont s) (artPtr s) \<noteq> None"
    "loop (srv_cont s) (artPtr s) = Some n"
  shows "move loop st none s =
    Some (True, case art_nr (srv_cont s) n of None \<Rightarrow> putStat st none s | Some ov \<Rightarrow> moved n ov s)"
  using assms by (auto simp: move_def testGrpSelected_def Cont_valid_art selected_moved split: option.splits)

text \<open>C6. NEXT and LAST move the pointer to the nearest article with a higher or a lower number, over the
  gaps that deleted articles leave, and answer 421 or 422 and stay where they are when there is none; without a
  group the answer is 412, without a current article 420.\<close>

theorem doNext_doLast_nearest:
  assumes "cont_inv (srv_cont s)"
  shows "(srv_grp s = [] \<longrightarrow> doNext s = Some (True, putStat 412 ''No group selected'' s) \<and> doLast s = doNext s)
    \<and> (srv_grp s \<noteq> [] \<and> art_nr (srv_cont s) (artPtr s) = None \<longrightarrow>
        doNext s = Some (True, putStat 420 ''No article selected'' s) \<and> doLast s = doNext s)
    \<and> (srv_grp s \<noteq> [] \<and> art_nr (srv_cont s) (artPtr s) \<noteq> None \<longrightarrow>
        (\<forall>n ov. nearest_after (srv_cont s) (artPtr s) n ov \<longrightarrow> doNext s = Some (True, moved n ov s))
        \<and> ((\<forall>n > artPtr s. art_nr (srv_cont s) n = None) \<longrightarrow> doNext s = Some (True, putStat 421 ''No next article'' s))
        \<and> (\<forall>n ov. nearest_before (srv_cont s) (artPtr s) n ov \<longrightarrow> doLast s = Some (True, moved n ov s))
        \<and> ((\<forall>n < artPtr s. art_nr (srv_cont s) n = None) \<longrightarrow> doLast s = Some (True, putStat 422 ''No previous article'' s)))"
proof -
  let ?c = "srv_cont s" and ?p = "artPtr s"
  note defs = doNext_def doLast_def STAT_NO_NEXT_ART_def STAT_NO_PREV_ART_def
  have "doNext s = Some (True, moved n ov s)" if "srv_grp s \<noteq> []" "art_nr ?c ?p \<noteq> None" "nearest_after ?c ?p n ov" for n ov
    using move_nearest [OF assms that(1,2), of next_loop n] next_loop_finds [OF assms, of ?p n] that(3)
    by (simp add: defs nearest_after_def)
  moreover have "doLast s = Some (True, moved n ov s)" if "srv_grp s \<noteq> []" "art_nr ?c ?p \<noteq> None" "nearest_before ?c ?p n ov" for n ov
    using move_nearest [OF assms that(1,2), of last_loop n] last_loop_finds [OF assms, of n ?p] that(3)
    by (simp add: defs nearest_before_def)
  moreover have "doNext s = Some (True, putStat 421 ''No next article'' s)"
    if "srv_grp s \<noteq> []" "art_nr ?c ?p \<noteq> None" "\<forall>n > ?p. art_nr ?c n = None"
    using move_nearest [OF assms that(1,2), of next_loop] next_loop_none [OF assms, of ?p] that(3) by (auto simp: defs)
  moreover have "doLast s = Some (True, putStat 422 ''No previous article'' s)"
    if "srv_grp s \<noteq> []" "art_nr ?c ?p \<noteq> None" "\<forall>n < ?p. art_nr ?c n = None"
    using move_nearest [OF assms that(1,2), of last_loop] last_loop_none [OF assms, of ?p] that(3) by (auto simp: defs)
  moreover have "doNext s = Some (True, putStat 412 ''No group selected'' s)" "doLast s = doNext s" if "srv_grp s = []"
    using that by (simp_all add: defs move_def testGrpSelected_def STAT_NO_GRP_SELECTED_def)
  moreover have "doNext s = Some (True, putStat 420 ''No article selected'' s)" "doLast s = doNext s"
    if "srv_grp s \<noteq> []" "art_nr ?c ?p = None"
    using that assms by (simp_all add: defs move_def testGrpSelected_def Cont_valid_art STAT_NO_ART_SELECTED_def)
  ultimately show ?thesis by blast
qed

subsection \<open>Ranges\<close>

text \<open>The argument \<open>a-\<close> or \<open>a-b\<close>.\<close>

definition range_arg :: "int \<Rightarrow> int option \<Rightarrow> cstr" where
  "range_arg a b = dec_int a @ CHR ''-'' # (case b of None \<Rightarrow> [] | Some e \<Rightarrow> dec_int e)"

lemma count_valid_arts: "cont_inv c \<Longrightarrow> count_valid c is = Some (int (length (arts_in c is)))"
  by (induction "is") (auto simp: Cont_valid_art split: option.splits)

lemma arts_in_filter: "arts_in c is = [] \<longleftrightarrow> (\<forall>i \<in> set is. art_nr c i = None)"
  by (induction "is") (auto split: option.splits)

lemma arts_in_numbers:
  "cont_inv c \<Longrightarrow> map ov_numb (arts_in c is) = filter (\<lambda>i. art_nr c i \<noteq> None) is"
  by (induction "is") (auto split: option.splits simp: art_nr_def dest: look_numb split: if_splits)

lemma dec_int_ends: "dec_int i \<noteq> []" "\<not> cisspace (hd (dec_int i))" "\<not> cisspace (last (dec_int i))"
  "last (dec_int i) \<noteq> CHR ''-''"
proof -
  have w: "\<forall>c \<in> set (dec_nat n). cisdigit c" for n using cisdigit_dec_nat by blast
  have l: "cisdigit (last (dec_nat n))" for n using w last_in_set [OF dec_nat_nonempty] by blast
  show "dec_int i \<noteq> []" "\<not> cisspace (hd (dec_int i))" "\<not> cisspace (last (dec_int i))" "last (dec_int i) \<noteq> CHR ''-''"
    using l cisdigit_not [OF l] cisdigit_not [OF hd_dec_nat]
    by (auto simp: dec_int_def cisspace_def)
qed

lemma length_dec_int: "int_ok i \<Longrightarrow> length (dec_int i) \<le> 11"
proof -
  assume "int_ok i"
  then have "nat \<bar>i\<bar> < 10 ^ 10" by (auto simp: int_ok_def INT_MAX_def nat_less_iff)
  then have "length (dec_nat (nat \<bar>i\<bar>)) \<le> 10" by (rule dec_nat_length) simp
  then show ?thesis by (auto simp: dec_int_def)
qed

lemma range_arg_strip:
  assumes "int_ok a" "\<And>e. b = Some e \<Longrightarrow> int_ok e"
  shows "Utl_cpyStr (range_arg a b) = Some (range_arg a b)" "strip_at pre (range_arg a b) = Some (range_arg a b)"
proof -
  have "length (range_arg a b) \<le> 23"
    using length_dec_int [OF assms(1)] length_dec_int [OF assms(2)]
    by (cases b) (auto simp: range_arg_def)
  then show "Utl_cpyStr (range_arg a b) = Some (range_arg a b)" by (simp add: Utl_cpyStr_eq MAXCHAR_def)
  have "proper (range_arg a b)"
    using proper_dec_int by (auto simp: range_arg_def proper_def split: option.splits)
  then show "strip_at pre (range_arg a b) = Some (range_arg a b)"
    using dec_int_ends by (intro strip_at_word) (auto simp: range_arg_def cisspace_def split: option.splits)
qed

definition range_last :: "cont \<Rightarrow> int option \<Rightarrow> int" where
  "range_last c b = (case b of None \<Rightarrow> last_nr c | Some e \<Rightarrow> e)"

lemma parseRange_arg:
  assumes "cont_inv (srv_cont s)" "int_ok a" "\<And>e. b = Some e \<Longrightarrow> int_ok e"
  defines "c \<equiv> srv_cont s"
  defines "f \<equiv> max a (first c)" and "e \<equiv> min (range_last c b) (last_nr c)"
  defines "l \<equiv> (if f > last_nr c \<or> e < first c then f - 1 else e)"
  shows "parseRange pre (range_arg a b) s = Some (f, l, int (length (arts_in c [f..l])))"
proof -
  have sc: "scan_range (range_arg a b) = Some (a # (case b of None \<Rightarrow> [] | Some e \<Rightarrow> [e]))"
  proof -
    have "scan_d (range_arg a b) = Some (a, CHR ''-'' # (case b of None \<Rightarrow> [] | Some e \<Rightarrow> dec_int e))"
      unfolding range_arg_def by (rule scan_d_dec_int) (simp add: cisdigit_def)
    moreover have "scan_d [] = None" by (simp add: scan_d_def)
    ultimately show ?thesis using assms(2,3) by (auto simp: scan_range_def as_int32_def split: option.splits)
  qed
  have lst: "last (range_arg a None) = CHR ''-''" by (simp add: range_arg_def)
  have sel: "(case a # (case b of None \<Rightarrow> [] | Some e \<Rightarrow> [e]) of
        [] \<Rightarrow> (artPtr s, artPtr s)
      | [f] \<Rightarrow> (f, if last (range_arg a b) = CHR ''-'' then last_nr c else f)
      | f # l # _ \<Rightarrow> (f, l)) = (a, range_last c b)"
    using lst by (cases b) (simp_all add: range_last_def)
  note rs = range_arg_strip [OF assms(2,3)]
  have "parseRange pre (range_arg a b) s =
      (let f1 = (if a < first c then first c else a);
           l1 = (if range_last c b > last_nr c then last_nr c else range_last c b);
           l2 = (if f1 > last_nr c \<or> l1 < first c then f1 - 1 else l1)
       in do { n \<leftarrow> count_valid c [f1..l2]; Some (f1, l2, n) })"
    unfolding parseRange_def by (simp only: rs sc sel bind.bind_lunit Let_def prod.case flip: c_def)
  moreover have "(if a < first c then first c else a) = f"
    "(if range_last c b > last_nr c then last_nr c else range_last c b) = e"
    by (simp_all add: f_def e_def)
  ultimately show ?thesis using assms(1) by (simp add: Let_def count_valid_arts c_def l_def flip: c_def)
qed

subsection \<open>Overviews\<close>

definition over_wire :: "Over \<Rightarrow> cstr" where
  "over_wire ov = stuffed (str_of (over_line ov)) @ [CR, LF]"

lemma emit_emit: "emit b (emit a s) = emit (a @ b) s"
  by (simp add: emit_def fprint_fprint)

lemma put_emits: "putStat st t s = emit (stat_line st t) s" "putTxtLn t s = emit (stuffed (str_of t) @ [CR, LF]) s"
  "putEndOfTxt s = emit (''.'' @ [CR, LF]) s"
  by (simp_all add: putStat_def putTxtLn_def putEndOfTxt_def emit_def putTxtLn_stuffed Prt_putEndOfTxt_def)

lemma emit_cont [simp]: "srv_sp (emit t s) = srv_sp s" "artPtr (emit t s) = artPtr s" "srv_grp (emit t s) = srv_grp s"
  by (simp_all add: emit_def)

lemma emit_Nil [simp]: "emit [] s = s"
  by (simp add: emit_def fprint_def)

lemma put_overs:
  "cont_inv (srv_cont s) \<Longrightarrow> put_arts (\<lambda>ov s. Some (putTxtLn (over_line ov) s)) is s
     = Some (emit (concat (map over_wire (arts_in (srv_cont s) is))) s)"
  by (induction "is" arbitrary: s)
    (auto simp: Cont_get_art put_emits emit_emit over_wire_def split: option.splits)

text \<open>C5. XOVER with a range answers with the overviews of exactly the articles of the group whose numbers are in it,
  in the order of their numbers and framed as a text; the status line names the range cut to the numbers of
  the group.  A range without articles gives the current article instead.\<close>

theorem doXOver_range:
  assumes "cont_inv (srv_cont s)" "srv_grp s \<noteq> []" "int_ok a" "\<And>e. b = Some e \<Longrightarrow> int_ok e"
  defines "c \<equiv> srv_cont s"
  defines "hit \<equiv> (\<exists>n \<ge> a. n \<le> range_last c b \<and> art_nr c n \<noteq> None)"
  defines "x \<equiv> (if hit then max a (first c) else artPtr s)"
    and "y \<equiv> (if hit then min (range_last c b) (last_nr c) else artPtr s)"
  shows "doXOver S (range_arg a b) s = Some (True,
      s\<lparr>srv_out := snd (fprint (stat_line 224 (''Overview '' @ dec_int x @ ''-'' @ dec_int y)
         @ concat (map over_wire (arts_in c [x..y])) @ ''.'' @ [CR, LF]) (srv_out s))\<rparr>)
    \<and> map ov_numb (arts_in c [x..y]) = filter (\<lambda>n. art_nr c n \<noteq> None) [x..y]"
proof
  define f where "f = max a (first c)"
  define e where "e = min (range_last c b) (last_nr c)"
  define l where "l = (if f > last_nr c \<or> e < first c then f - 1 else e)"
  have p: "parseRange (before (se_env S)) (range_arg a b) s = Some (f, l, int (length (arts_in c [f..l])))"
    using parseRange_arg [OF assms(1,3,4)] unfolding c_def f_def e_def l_def by simp
  have r: "(f \<le> n \<and> n \<le> l) = (a \<le> n \<and> n \<le> range_last c b)" if "art_nr c n \<noteq> None" for n
    using art_nr_range [OF that] by (auto simp: f_def e_def l_def)
  have h: "arts_in c [f..l] = [] \<longleftrightarrow> \<not> hit"
    unfolding arts_in_filter hit_def set_upto atLeastAtMost_iff Ball_def by (metis r)
  have xy: "(if arts_in c [f..l] = [] then (artPtr s, artPtr s) else (f, l)) = (x, y)"
  proof (cases hit)
    case True
    then obtain n where n: "a \<le> n" "n \<le> range_last c b" "art_nr c n \<noteq> None" by (auto simp: hit_def)
    from art_nr_range [OF n(3)] n have "l = e" by (auto simp: l_def f_def e_def)
    with True h show ?thesis by (simp add: x_def y_def f_def e_def)
  qed (simp add: h x_def y_def)
  have "doXOver S (range_arg a b) s =
      Some (True, emit (stat_line 224 (''Overview '' @ dec_int x @ ''-'' @ dec_int y)
         @ concat (map over_wire (arts_in c [x..y])) @ ''.'' @ [CR, LF]) s)"
    using assms(1,2) xy unfolding doXOver_def testGrpSelected_def
    by (simp add: p Let_def put_emits(1,3) put_overs emit_emit STAT_OVERS_FOLLOW_def flip: c_def split: if_splits)
  then show "doXOver S (range_arg a b) s = Some (True,
      s\<lparr>srv_out := snd (fprint (stat_line 224 (''Overview '' @ dec_int x @ ''-'' @ dec_int y)
         @ concat (map over_wire (arts_in c [x..y])) @ ''.'' @ [CR, LF]) (srv_out s))\<rparr>)"
    by (simp add: emit_def)
  show "map ov_numb (arts_in c [x..y]) = filter (\<lambda>n. art_nr c n \<noteq> None) [x..y]"
    using assms(1) by (simp add: arts_in_numbers c_def)
qed

subsection \<open>A group with a gap\<close>

definition nav_cont :: cont where
  "nav_cont = (cont_init\<lparr>vecFirst := 3, first := 3, last_nr := 5,
     elem := [Some (over_nr 3), None, Some (over_nr 5)], grp_name := ''ab''\<rparr>)"

definition nav_state :: "(cstr \<Rightarrow> byte list option, cstr \<Rightarrow> byte list option) server" where
  "nav_state = reply_state\<lparr>srv_grp := ''ab'', artPtr := 3, srv_sp := post_spool\<lparr>sp_cont := nav_cont\<rparr>\<rparr>"

lemma nav_cont_inv: "cont_inv nav_cont"
  by (auto simp: cont_inv_def nav_cont_def over_nr_def Ov_setNumb_def less_Suc_eq nth_Cons')

lemma nav_arts: "art_nr nav_cont 3 = Some (over_nr 3)" "art_nr nav_cont 4 = None" "art_nr nav_cont 5 = Some (over_nr 5)"
  by (simp_all add: art_nr_def nav_cont_def look_def elem_at_def)

lemma nav_state_simps: "srv_cont nav_state = nav_cont" "srv_grp nav_state = ''ab''" "artPtr nav_state = 3"
  by (simp_all add: nav_state_def)

theorem doNext_doLast_nearest_witness:
  "doNext nav_state = Some (True, moved 5 (over_nr 5) nav_state)
   \<and> doLast nav_state = Some (True, putStat 422 ''No previous article'' nav_state)"
proof -
  have g: "art_nr nav_cont n = None" if "n < 3" for n
    using that by (simp add: art_nr_def nav_cont_def)
  have k: "k = 4" if "3 < k" "k < 5" for k :: int using that by simp
  have n: "nearest_after nav_cont 3 5 (over_nr 5)"
    unfolding nearest_after_def by (intro conjI allI impI) (use nav_arts k in \<open>blast | simp\<close>)+
  from doNext_doLast_nearest [of nav_state] nav_cont_inv n g nav_arts show ?thesis
    unfolding nav_state_simps by blast
qed

theorem doXOver_range_witness:
  "doXOver reply_env (range_arg 4 None) nav_state = Some (True,
      nav_state\<lparr>srv_out := snd (fprint (stat_line 224 ''Overview 4-5'' @ over_wire (over_nr 5) @ ''.'' @ [CR, LF]) (srv_out nav_state))\<rparr>)"
proof -
  have h: "\<exists>n \<ge> 4. n \<le> range_last nav_cont None \<and> art_nr nav_cont n \<noteq> None"
    using nav_arts by (intro exI [of _ 5]) (simp add: range_last_def nav_cont_def)
  have l: "[4..5] = [4, 5 :: int]" by (simp add: upto_rec1)
  have c: "first nav_cont = 3" "last_nr nav_cont = 5" "range_last nav_cont None = 5"
    by (simp_all add: nav_cont_def range_last_def)
  have d: "dec_int 4 = ''4''" "dec_int 5 = ''5''" by code_simp+
  from doXOver_range [of nav_state 4 None reply_env] h nav_cont_inv show ?thesis
    unfolding nav_state_simps by (simp add: int_ok_def INT_MAX_def c l nav_arts d)
qed

end
