(* ===== verification/ServerHeader.thy ===== *)
theory ServerHeader
  imports ServerNav
begin

text \<open>
  What POST makes of an article: the lines that come over the wire are the header fields and the body,
  and the text that is posted has the same fields, with the message ID at the end of the header,
  with the fields that are missing, and with the field X-Sender renamed.
\<close>

subsection \<open>The header\<close>

definition fname :: "cstr \<times> cstr \<Rightarrow> cstr" where
  "fname nv = Utl_toLower (fst nv)"

definition has_field :: "(cstr \<times> cstr) list \<Rightarrow> cstr \<Rightarrow> bool" where
  "has_field hs n \<longleftrightarrow> n \<in> set (map fname hs)"

text \<open>The value of the last field of a name.\<close>

definition field_val :: "(cstr \<times> cstr) list \<Rightarrow> cstr \<Rightarrow> cstr option" where
  "field_val hs n = map_option (\<lambda>nv. strip (snd nv)) (find (\<lambda>nv. fname nv = n) (rev hs))"

definition val_or_empty :: "cstr option \<Rightarrow> cstr" where
  "val_or_empty v = (case v of None \<Rightarrow> [] | Some x \<Rightarrow> x)"

definition sent_line :: "cstr \<times> cstr \<Rightarrow> cstr list" where
  "sent_line nv = (if fname nv = ''message-id'' then []
     else if fname nv = ''x-sender'' then [''X-NOFFLE-X-Sender: '' @ strip (snd nv)] else [hdr_line nv])"

definition header_read :: "(cstr \<times> cstr) list \<Rightarrow> posting" where
  "header_read hs = \<lparr>ps_inHeader = True, ps_replyTo = has_field hs ''reply-to'', ps_date = has_field hs ''date'',
     ps_approved = has_field hs ''approved'', ps_msgId = val_or_empty (field_val hs ''message-id''),
     ps_from = val_or_empty (field_val hs ''from''),
     ps_newsgroups = map_option (\<lambda>v. new_Itl (Utl_toLower v) '' ,'') (field_val hs ''newsgroups''),
     ps_control = map_option (\<lambda>v. new_Itl v '' '') (field_val hs ''control''),
     ps_text = text_of (concat (map sent_line hs))\<rparr>"

lemma field_val_snoc: "field_val (hs @ [nv]) n = (if fname nv = n then Some (strip (snd nv)) else field_val hs n)"
  by (simp add: field_val_def)

lemma has_field_snoc: "has_field (hs @ [nv]) n \<longleftrightarrow> fname nv = n \<or> has_field hs n"
  by (auto simp: has_field_def)

lemma text_of_snoc: "text_of (ls @ [l]) = text_of ls @ l @ [LF]"
  by (simp add: text_of_def)

lemma header_read_snoc:
  "post_field (fname nv) (strip (snd nv)) (hdr_line nv) (header_read hs) = header_read (hs @ [nv])"
  by (simp add: post_field_def header_read_def app_ln_def field_val_snoc has_field_snoc sent_line_def val_or_empty_def
      text_of_snoc)

lemma post_line_field:
  assumes "hdr_ok nv"
  shows "post_line S (hdr_line nv) (header_read hs) = Some (header_read (hs @ [nv]))"
proof -
  have w: "hdr_line nv \<noteq> []" "\<not> cisspace (hd (hdr_line nv))" "\<not> cisspace (last (hdr_line nv))" "proper (hdr_line nv)"
    using assms by (auto simp: hdr_ok_def hdr_line_def)
  have "ps_inHeader (header_read hs)" by (simp add: header_read_def)
  with strip_at_word [OF w] getField_line [OF assms] w(1) header_read_snoc [of nv hs] show ?thesis
    by (simp add: post_line_def fname_def)
qed

lemma post_lines_append: "post_lines S (ls @ ms) ps = do { ps' \<leftarrow> post_lines S ls ps; post_lines S ms ps' }"
proof (induction ls arbitrary: ps)
  case (Cons l ls)
  then show ?case by (cases "post_line S l ps") simp_all
qed simp

lemma header_read_Nil: "posting_init = header_read []"
  by (simp add: posting_init_def header_read_def has_field_def field_val_def val_or_empty_def text_of_def)

lemma post_lines_header: "list_all hdr_ok hs \<Longrightarrow> post_lines S (map hdr_line hs) posting_init = Some (header_read hs)"
proof (induction hs rule: rev_induct)
  case Nil
  then show ?case by (simp add: header_read_Nil)
next
  case (snoc nv hs)
  then show ?case by (simp add: post_lines_append post_line_field)
qed

lemma post_lines_body:
  "\<not> ps_inHeader ps \<Longrightarrow> post_lines S body ps = Some (ps\<lparr>ps_text := ps_text ps @ text_of body\<rparr>)"
  by (induction body arbitrary: ps) (simp_all add: post_line_def app_ln_def text_of_def)

text \<open>The message ID of the posted article.\<close>

definition new_msgId :: "('g, 'd) senv \<Rightarrow> (cstr \<times> cstr) list \<Rightarrow> cstr option" where
  "new_msgId S hs =
     (case field_val hs ''message-id'' of
        Some m \<Rightarrow> if replaceMsgId (se_cfg S) = 0 \<and> m \<noteq> [] then Some m
                  else Prt_genMsgId (gen_fqdn (se_gen S)) (gen_stamp (se_gen S)) (gen_rnd (se_gen S))
                         (val_or_empty (field_val hs ''from'')) ''NOFFLE''
      | None \<Rightarrow> Prt_genMsgId (gen_fqdn (se_gen S)) (gen_stamp (se_gen S)) (gen_rnd (se_gen S))
                  (val_or_empty (field_val hs ''from'')) ''NOFFLE'')"

text \<open>The lines of the posted header.\<close>

definition sent_header :: "('g, 'd) senv \<Rightarrow> (cstr \<times> cstr) list \<Rightarrow> cstr \<Rightarrow> cstr list" where
  "sent_header S hs m = concat (map sent_line hs) @ [''Message-ID: '' @ m]
     @ (case field_val hs ''from'' of
          Some f \<Rightarrow> if has_field hs ''reply-to'' \<or> f = [] then [] else [''Reply-To: '' @ f]
        | None \<Rightarrow> [])
     @ (if has_field hs ''date'' then [] else [''Date: '' @ gen_date (se_gen S)])"

definition posted :: "('g, 'd) senv \<Rightarrow> (cstr \<times> cstr) list \<Rightarrow> cstr \<Rightarrow> cstr list \<Rightarrow> posting" where
  "posted S hs m body = (header_read hs)\<lparr>ps_inHeader := False, ps_msgId := m,
     ps_text := text_of (sent_header S hs m @ [] # body)\<rparr>"

lemma end_header_posted:
  assumes "new_msgId S hs = Some m"
  shows "end_header S (header_read hs) = Some (posted S hs m [])"
proof -
  have "(if replaceMsgId (se_cfg S) \<noteq> 0 \<or> ps_msgId (header_read hs) = []
         then Prt_genMsgId (gen_fqdn (se_gen S)) (gen_stamp (se_gen S)) (gen_rnd (se_gen S)) (ps_from (header_read hs)) ''NOFFLE''
         else Some (ps_msgId (header_read hs))) = Some m"
    using assms by (auto simp: new_msgId_def header_read_def val_or_empty_def split: option.splits if_splits)
  then show ?thesis
    unfolding end_header_def
    by (auto simp: Let_def app_ln_def posted_def sent_header_def header_read_def val_or_empty_def text_of_def
        split: option.splits)
qed

lemma post_lines_posted:
  assumes "before (se_env S) \<noteq> []" "\<not> cisspace (last (before (se_env S)))" "list_all hdr_ok hs" "new_msgId S hs = Some m"
  shows "post_lines S (map hdr_line hs @ [] # body) posting_init = Some (posted S hs m body)"
proof -
  have "post_line S [] (header_read hs) = end_header S (header_read hs)"
    using strip_at_empty [OF assms(1,2)] by (simp add: post_line_def header_read_def)
  moreover have "post_lines S body (posted S hs m []) = Some (posted S hs m body)"
    by (subst post_lines_body) (simp_all add: posted_def text_of_def)
  ultimately show ?thesis
    using end_header_posted [OF assms(4)] by (simp add: post_lines_append post_lines_header [OF assms(3)])
qed

text \<open>C1. POST reads an article whose lines fit their buffers up to the line with the dot and not further, and
  what it posts is the same header and body, except that the message IDs of the header give way to
  one at its end (its own, or a new one), that X-Sender is renamed, and that Reply-To and Date are added when they are
  missing; the answer is 240 or 441 as the posting goes.\<close>

theorem doPost_transforms:
  assumes "before (se_env S) \<noteq> []" "\<not> cisspace (last (before (se_env S)))"
    and "list_all hdr_ok hs" "list_all sendable (map hdr_line hs @ [] # body)" "new_msgId S hs = Some m"
    and "srv_in s = wire (map hdr_line hs @ [] # body) @ ''.'' @ [CR, LF] @ rest"
  shows "doPost S s =
      do { (err, s1) \<leftarrow> try_post S (posted S hs m body)
                         ((putStat 340 ''Continue (end with period)'' s)\<lparr>srv_in := rest\<rparr>);
           if err then Some (True, putStat 441 ''Posting failed'' s1)
           else do { let s2 = putStat 240 ''Message posted'' s1;
                     s3 \<leftarrow> (if online S s2 then net_postArts S s2 else Some s2);
                     Some (True, s3) } }
    \<and> ps_text (posted S hs m body) = text_of (sent_header S hs m @ [] # body)"
proof
  have i: "srv_in (putStat c x s) = srv_in s" for c x by (simp add: putStat_def emit_def)
  have r: "recv_text True (-1) (srv_in (putStat 340 ''Continue (end with period)'' s))
      = (map hdr_line hs @ [] # body, Txt_end, rest)"
    unfolding i assms(6) by (rule recv_wire) (use assms(4) in auto)
  show "doPost S s =
      do { (err, s1) \<leftarrow> try_post S (posted S hs m body)
                         ((putStat 340 ''Continue (end with period)'' s)\<lparr>srv_in := rest\<rparr>);
           if err then Some (True, putStat 441 ''Posting failed'' s1)
           else do { let s2 = putStat 240 ''Message posted'' s1;
                     s3 \<leftarrow> (if online S s2 then net_postArts S s2 else Some s2);
                     Some (True, s3) } }"
    unfolding doPost_def r Let_def prod.case post_lines_posted [OF assms(1,2,3,5)] bind.bind_lunit
      STAT_SEND_ART_def STAT_POST_FAILED_def STAT_POST_OK_def by simp
qed (simp add: posted_def)

definition post_fields :: "(cstr \<times> cstr) list" where
  "post_fields = [(''From'', '' a@b.c''), (''X-Sender'', '' x''), (''Newsgroups'', '' none''), (''Message-ID'', '' <1@b.c>'')]"

definition post_state :: "(cstr \<Rightarrow> byte list option, cstr \<Rightarrow> byte list option) server" where
  "post_state = reply_state\<lparr>srv_in := wire (map hdr_line post_fields @ [] # [''.t'']) @ ''.'' @ [CR, LF] @ ''QUIT''\<rparr>"

theorem doPost_transforms_witness:
  "\<exists>m. ps_text (posted reply_env post_fields m [''.t'']) =
      text_of [''From: a@b.c'', ''X-NOFFLE-X-Sender: x'', ''Newsgroups: none'', ''Message-ID: '' @ m, ''Reply-To: a@b.c'',
        ''Date: now'', [], ''.t'']
    \<and> doPost reply_env post_state =
      do { (err, s1) \<leftarrow> try_post reply_env (posted reply_env post_fields m [''.t''])
                         ((putStat 340 ''Continue (end with period)'' post_state)\<lparr>srv_in := ''QUIT''\<rparr>);
           if err then Some (True, putStat 441 ''Posting failed'' s1)
           else do { let s2 = putStat 240 ''Message posted'' s1;
                     s3 \<leftarrow> (if online reply_env s2 then net_postArts reply_env s2 else Some s2);
                     Some (True, s3) } }"
proof -
  have b: "before (se_env reply_env) = ''x''" by (simp add: reply_env_def post_env_def)
  have h: "list_all hdr_ok post_fields" by (simp add: hdr_ok_def hdr_line_def post_fields_def cisspace_def MAXCHAR_def)
  have l: "list_all sendable (map hdr_line post_fields @ [] # [''.t''])"
    by (simp add: sendable_def hdr_line_def post_fields_def MAXCHAR_def)
  have f: "Utl_toLower ''From'' = ''from''" "Utl_toLower ''X-Sender'' = ''x-sender''" "Utl_toLower ''Newsgroups'' = ''newsgroups''"
    "Utl_toLower ''Message-ID'' = ''message-id''" "strip '' a@b.c'' = ''a@b.c''" "strip '' x'' = ''x''"
    by code_simp+
  have g: "se_gen reply_env = sample_gen" "replaceMsgId (se_cfg reply_env) = 1"
    by (simp_all add: reply_env_def config_init_def)
  have "getDomain (Some ''h.org'') frm = Some ''h.org.local''" for frm
    by (simp add: getDomain_def Utl_cpyStr_def strncat_def MAXCHAR_def cstrstr_single Let_def)
  then obtain m where m: "Prt_genMsgId (Some ''h.org'') ''1'' 5 (val_or_empty (field_val post_fields ''from'')) ''NOFFLE'' = Some m"
    by (simp add: Prt_genMsgId_def)
  have n: "new_msgId reply_env post_fields = Some m"
    using m by (simp add: new_msgId_def g sample_gen_def split: option.splits)
  have s: "sent_header reply_env post_fields m =
      [''From: a@b.c'', ''X-NOFFLE-X-Sender: x'', ''Newsgroups: none'', ''Message-ID: '' @ m, ''Reply-To: a@b.c'', ''Date: now'']"
    by (simp add: sent_header_def post_fields_def sent_line_def fname_def f field_val_def has_field_def hdr_line_def g sample_gen_def)
  from doPost_transforms [of reply_env, unfolded b, OF _ _ h l n, of post_state "''QUIT''"] show ?thesis
    by (intro exI [of _ m]) (simp add: post_state_def cisspace_def s)
qed

end
