(* ===== verification/CrFilter.thy ===== *)
theory CrFilter
  imports Interfaces
begin

text \<open>
  The line-end filters of ucspi-tcp-0.88: \<^verbatim>\<open>addcr.c\<close>, \<^verbatim>\<open>delcr.c\<close> and \<^verbatim>\<open>fixcrio.c\<close>.

  The inner loop of each is a step function on a flag and a character; the main programs run it over
  the chunks that \<open>buffer_feed\<close> or \<open>read\<close> deliver, and the locale \<open>byte_filter\<close> gives that the
  chunks do not matter.  \<open>fixcrio\<close> runs two such filters at once between four descriptors: its event
  loop is a function of which descriptors are ready, and an inductive predicate says which states
  it can be in.
\<close>

subsection \<open>addcr and delcr\<close>

definition addcr_step :: "unit \<Rightarrow> char \<Rightarrow> unit \<times> cstr" where
  "addcr_step s ch = ((), (if ch = LF then [CR] else []) @ [ch])"

definition delcr_step :: "bool \<Rightarrow> char \<Rightarrow> bool \<times> cstr" where
  "delcr_step flagcr ch =
     (if \<not> flagcr then (if ch = CR then (True, []) else (False, [ch]))
      else if ch \<noteq> LF then (if ch = CR then (True, [CR]) else (False, [CR, ch]))
      else (False, [ch]))"

text \<open>What \<open>buffer_feed\<close> returns: a chunk, the end, or an error.  The results of a run are the
  output and the exit code; the output is flushed before every read.\<close>

datatype feed = Chunk cstr | Feed_end | Feed_error

fun addcr_main :: "feed list \<Rightarrow> cstr \<times> int option" where
  "addcr_main [] = ([], None)"
| "addcr_main (Feed_error # fs) = ([], Some 111)"
| "addcr_main (Feed_end # fs) = ([], Some 0)"
| "addcr_main (Chunk c # fs) =
     (let (_, o1) = run_filter addcr_step () c; (o2, e) = addcr_main fs in (o1 @ o2, e))"

fun delcr_main :: "bool \<Rightarrow> feed list \<Rightarrow> cstr \<times> int option" where
  "delcr_main flagcr [] = ([], None)"
| "delcr_main flagcr (Feed_error # fs) = ([], Some 111)"
| "delcr_main flagcr (Feed_end # fs) = (if flagcr then [CR] else [], Some 0)"
| "delcr_main flagcr (Chunk c # fs) =
     (let (f1, o1) = run_filter delcr_step flagcr c; (o2, e) = delcr_main f1 fs in (o1 @ o2, e))"

subsection \<open>fixcrio\<close>

definition fix_step :: "bool \<Rightarrow> char \<Rightarrow> bool \<times> cstr" where
  "fix_step flagcr ch = (ch = CR, (if ch = LF \<and> \<not> flagcr then [CR] else []) @ [ch])"

text \<open>One direction: 0 waits for input, 1 has output pending, -1 is closed.  \<open>buf\<close> is the buffer up
  to its length, and \<open>got\<close> and \<open>sent\<close> record what was read and written so far.\<close>

record side =
  status :: int
  sbuf :: cstr
  pos :: nat
  flagcr :: bool
  got :: cstr
  sent :: cstr

definition side_init :: side where
  "side_init = \<lparr>status = 0, sbuf = [], pos = 0, flagcr = False, got = [], sent = []\<rparr>"

definition PREBUF :: nat where "PREBUF = 256"
definition OUTBUF :: nat where "OUTBUF = 512"

text \<open>\<open>read\<close> stored \<open>c\<close>, of 1 to 256 characters; \<open>None\<close> is a store behind the output buffer.\<close>

definition side_read :: "cstr \<Rightarrow> side \<Rightarrow> side option" where
  "side_read c s =
     (let (f, o1) = run_filter fix_step (flagcr s) c in
      if length o1 > OUTBUF then None
      else Some (s\<lparr>status := 1, sbuf := o1, pos := 0, flagcr := f, got := got s @ c\<rparr>))"

text \<open>\<open>write\<close> took \<open>r\<close> characters.\<close>

definition side_write :: "nat \<Rightarrow> side \<Rightarrow> side" where
  "side_write r s =
     (let s1 = s\<lparr>pos := pos s + r, sent := sent s @ take r (drop (pos s) (sbuf s))\<rparr>
      in if pos s1 = length (sbuf s1) then s1\<lparr>status := 0\<rparr> else s1)"

datatype read_ev = Read_not_ready | Read_data cstr | Read_end
datatype write_ev = Write_not_ready | Wrote nat | Write_failed

record events =
  ev_0 :: read_ev
  ev_left :: write_ev
  ev_right :: read_ev
  ev_1 :: write_ev

record fixcrio =
  left :: side
  right :: side

definition fixcrio_init :: fixcrio where
  "fixcrio_init = \<lparr>left = side_init, right = side_init\<rparr>"

text \<open>One turn of \<open>doit\<close>: the four events in the order of the source, each looked at only if its
  side was in the right state when the turn began.  \<open>Exited\<close> is the \<open>break\<close>.\<close>

datatype turn = Exited | Running fixcrio

definition left_in :: "events \<Rightarrow> side \<Rightarrow> side option" where
  "left_in ev s =
     (if status s \<noteq> 0 then Some s
      else case ev_0 ev of
             Read_not_ready \<Rightarrow> Some s
           | Read_end \<Rightarrow> Some (s\<lparr>status := -1\<rparr>)
           | Read_data c \<Rightarrow> side_read c s)"

definition doit_turn :: "events \<Rightarrow> fixcrio \<Rightarrow> turn option" where
  "doit_turn ev st =
     do { l1 \<leftarrow> left_in ev (left st);
          let out_left = (if status (left st) = 1 then ev_left ev else Write_not_ready);
          let in_right = (if status (right st) = 0 then ev_right ev else Read_not_ready);
          let out_1 = (if status (right st) = 1 then ev_1 ev else Write_not_ready);
          case out_left of
            Write_failed \<Rightarrow> Some Exited
          | _ \<Rightarrow>
            let l2 = (case out_left of Wrote r \<Rightarrow> side_write r l1 | _ \<Rightarrow> l1) in
            (case in_right of
               Read_end \<Rightarrow> Some Exited
             | _ \<Rightarrow>
               do { r1 \<leftarrow> (case in_right of Read_data c \<Rightarrow> side_read c (right st) | _ \<Rightarrow> Some (right st));
                    (case out_1 of
                       Write_failed \<Rightarrow> Some Exited
                     | _ \<Rightarrow>
                       let r2 = (case out_1 of Wrote r \<Rightarrow> side_write r r1 | _ \<Rightarrow> r1)
                       in Some (Running \<lparr>left = l2, right = r2\<rparr>)) }) }"

text \<open>What the system calls may do.\<close>

definition read_ok :: "read_ev \<Rightarrow> bool" where
  "read_ok e = (case e of Read_data c \<Rightarrow> length c \<le> PREBUF | _ \<Rightarrow> True)"

definition write_ok :: "write_ev \<Rightarrow> side \<Rightarrow> bool" where
  "write_ok e s = (case e of Wrote r \<Rightarrow> pos s + r \<le> length (sbuf s) | _ \<Rightarrow> True)"

definition events_ok :: "events \<Rightarrow> fixcrio \<Rightarrow> bool" where
  "events_ok ev st \<longleftrightarrow> read_ok (ev_0 ev) \<and> read_ok (ev_right ev) \<and> write_ok (ev_left ev) (left st)
     \<and> write_ok (ev_1 ev) (right st)"

inductive reachable :: "fixcrio \<Rightarrow> bool" where
  start: "reachable fixcrio_init"
| turn: "reachable st \<Longrightarrow> events_ok ev st \<Longrightarrow> doit_turn ev st = Some (Running st') \<Longrightarrow> reachable st'"

inductive_cases reachable_cases: "reachable st"

subsection \<open>The filters\<close>

definition addcr :: "cstr \<Rightarrow> cstr" where
  "addcr s = snd (run_filter addcr_step () s)"

definition delcr :: "cstr \<Rightarrow> cstr" where
  "delcr s = (let (f, o1) = run_filter delcr_step False s in o1 @ (if f then [CR] else []))"

text \<open>What \<open>fixcrio\<close> is for, without its flag: each line ends with CR LF.  A CR LF of the text stays, a LF without a CR
  before it gets one, and everything else, other CRs included, is copied.\<close>

fun fixcr :: "cstr \<Rightarrow> cstr" where
  "fixcr [] = []"
| "fixcr [c] = (if c = LF then [CR, LF] else [c])"
| "fixcr (c # d # s) =
     (if c = CR \<and> d = LF then CR # LF # fixcr s
      else if c = LF then CR # LF # fixcr (d # s)
      else c # fixcr (d # s))"

interpretation addcr: byte_filter addcr_step 2
  by unfold_locales (simp add: addcr_step_def)

interpretation delcr: byte_filter delcr_step 2
  by unfold_locales (simp add: delcr_step_def)

interpretation fixcr: byte_filter fix_step 2
  by unfold_locales (simp add: fix_step_def)

lemma addcr_simps [simp]:
  "addcr [] = []"
  "addcr (c # s) = (if c = LF then CR # LF # addcr s else c # addcr s)"
  by (auto simp: addcr_def addcr_step_def split: prod.splits)

lemma addcr_append [simp]: "addcr (s @ t) = addcr s @ addcr t"
  by (induction s) auto

text \<open>\<open>delcr\<close> from a state, with what is put at the end.\<close>

fun delcr_from :: "bool \<Rightarrow> cstr \<Rightarrow> cstr" where
  "delcr_from f [] = (if f then [CR] else [])"
| "delcr_from f (c # s) = snd (delcr_step f c) @ delcr_from (fst (delcr_step f c)) s"

lemma delcr_from_run:
  "delcr_from f s = (let (f', o1) = run_filter delcr_step f s in o1 @ (if f' then [CR] else []))"
  by (induction s arbitrary: f) (auto simp: Let_def split: prod.splits)

lemma delcr_from_False: "delcr s = delcr_from False s"
  by (simp add: delcr_def delcr_from_run)

fun fix_from :: "bool \<Rightarrow> cstr \<Rightarrow> cstr" where
  "fix_from f [] = []"
| "fix_from f (c # s) = (if c = LF \<and> \<not> f then [CR, c] else [c]) @ fix_from (c = CR) s"

lemma fix_from_run: "snd (run_filter fix_step f s) = fix_from f s"
  by (induction s arbitrary: f) (simp_all add: fix_step_def Let_def case_prod_beta)

lemma fix_from_other: "c \<noteq> LF \<Longrightarrow> fix_from f (c # s) = fix_from False (c # s)"
  by simp

lemma fixcr_from: "fixcr s = fix_from False s"
proof (induction s rule: fixcr.induct)
  case (3 c d s)
  then show ?case using fix_from_other [of d True s] by (auto simp del: fix_from.simps(2) simp: fix_from.simps(2) [of False c])
      (simp_all add: fix_from.simps(2))
qed auto

lemma run_fix_step: "snd (run_filter fix_step False s) = fixcr s"
  by (simp add: fixcr_from fix_from_run)

text \<open>A pending CR of \<open>delcr\<close> is one that \<open>fixcrio\<close> has passed on.\<close>

lemma addcr_delcr_from:
  "addcr (delcr_from f s) = (if f then CR # fix_from True s else fix_from False s)"
  by (induction s arbitrary: f) (auto simp: delcr_step_def)

lemma delcr_addcr_from:
  "delcr_from f (addcr s) = (if f then CR # s else s)"
  by (induction s arbitrary: f) (auto simp: delcr_step_def)

lemma delcr_addcr: "delcr (addcr s) = s"
  by (simp add: delcr_from_False delcr_addcr_from)

lemma fixcr_addcr_delcr: "fixcr s = addcr (delcr s)"
  by (simp add: fixcr_from delcr_from_False addcr_delcr_from)

lemma addcr_main_run:
  "addcr_main (map Chunk cs @ [Feed_end]) = (addcr (concat cs), Some 0)"
proof (induction cs)
  case (Cons c cs)
  then show ?case by (auto simp: addcr_def run_filter_append split: prod.splits)
qed simp

lemma delcr_main_run:
  "delcr_main f (map Chunk cs @ [Feed_end]) = (delcr_from f (concat cs), Some 0)"
proof (induction cs arbitrary: f)
  case (Cons c cs)
  obtain f1 o1 where r: "run_filter delcr_step f c = (f1, o1)" by fastforce
  have "delcr_from f (c @ t) = o1 @ delcr_from f1 t" for t
    using r by (simp add: delcr_from_run run_filter_append split: prod.splits)
  with Cons r show ?case by simp
qed simp

text \<open>Whatever the chunks, the \<open>delcr\<close> program undoes the \<open>addcr\<close> program, and filtering a
  stream through \<open>delcr\<close> and then \<open>addcr\<close> is what \<open>fixcrio\<close> does to it, so that \<open>fixcrio\<close> is
  idempotent.\<close>

theorem cr_filters:
  "addcr_main (map Chunk cs @ [Feed_end]) = (addcr (concat cs), Some 0)
   \<and> delcr_main False (map Chunk ds @ [Feed_end]) = (delcr (concat ds), Some 0)
   \<and> delcr (addcr s) = s
   \<and> fixcr s = addcr (delcr s)
   \<and> fixcr (fixcr s) = fixcr s"
  by (simp add: addcr_main_run delcr_main_run delcr_from_False [symmetric] fixcr_addcr_delcr delcr_addcr)

subsection \<open>The event loop\<close>

text \<open>What was read, filtered, is what was sent and what is pending; and the pending output fits.\<close>

definition side_inv :: "side \<Rightarrow> bool" where
  "side_inv s \<longleftrightarrow> pos s \<le> length (sbuf s) \<and> length (sbuf s) \<le> OUTBUF
     \<and> run_filter fix_step False (got s) = (flagcr s, sent s @ drop (pos s) (sbuf s))
     \<and> (status s \<noteq> 1 \<longrightarrow> pos s = length (sbuf s))"

lemma side_init_inv: "side_inv side_init"
  by (simp add: side_inv_def side_init_def)

lemma side_read_inv:
  assumes "side_inv s" "status s \<noteq> 1" "length c \<le> PREBUF"
  shows "\<exists>s'. side_read c s = Some s' \<and> side_inv s' \<and> status s' = 1"
proof -
  obtain f o1 where r: "run_filter fix_step (flagcr s) c = (f, o1)" by fastforce
  from fixcr.run_filter_length [of "flagcr s" c] r assms(3) have "length o1 \<le> OUTBUF"
    by (simp add: PREBUF_def OUTBUF_def)
  with r assms(1,2) show ?thesis
    by (simp add: side_read_def side_inv_def run_filter_append Let_def)
qed

lemma side_write_inv:
  "side_inv s \<Longrightarrow> pos s + r \<le> length (sbuf s) \<Longrightarrow> status s = 1 \<Longrightarrow> side_inv (side_write r s)"
  by (auto simp: side_write_def side_inv_def Let_def) (metis append_take_drop_id drop_drop add.commute)+

lemma left_in_inv:
  assumes "side_inv s" "read_ok (ev_0 ev)"
  shows "\<exists>l. left_in ev s = Some l \<and> side_inv l \<and> (status s = 1 \<longrightarrow> l = s)"
proof (cases "status s = 0")
  case True
  show ?thesis
  proof (cases "ev_0 ev")
    case (Read_data c)
    with side_read_inv [OF assms(1), of c] assms(2) True show ?thesis
      by (auto simp: left_in_def read_ok_def)
  next
    case Read_end
    with True assms(1) show ?thesis by (simp add: left_in_def side_inv_def)
  qed (use True assms(1) in \<open>simp add: left_in_def\<close>)
qed (use assms(1) in \<open>simp add: left_in_def\<close>)

lemma doit_turn_inv:
  assumes l: "side_inv (left st)" and r: "side_inv (right st)" and ok: "events_ok ev st"
  shows "\<exists>t. doit_turn ev st = Some t \<and>
    (\<forall>st'. t = Running st' \<longrightarrow> side_inv (left st') \<and> side_inv (right st'))"
proof -
  from left_in_inv [OF l, of ev] ok obtain l1 where
    l1: "left_in ev (left st) = Some l1" "side_inv l1" "status (left st) = 1 \<Longrightarrow> l1 = left st"
    by (auto simp: events_ok_def)
  define ol where "ol = (if status (left st) = 1 then ev_left ev else Write_not_ready)"
  define ir where "ir = (if status (right st) = 0 then ev_right ev else Read_not_ready)"
  define o1 where "o1 = (if status (right st) = 1 then ev_1 ev else Write_not_ready)"
  define l2 where "l2 = (case ol of Wrote n \<Rightarrow> side_write n l1 | _ \<Rightarrow> l1)"
  define r1 where "r1 = (case ir of Read_data c \<Rightarrow> side_read c (right st) | _ \<Rightarrow> Some (right st))"
  have l2: "side_inv l2"
    using l1 l ok side_write_inv [of "left st"]
    by (auto simp: l2_def ol_def events_ok_def write_ok_def split: write_ev.splits)
  have "\<exists>r'. r1 = Some r' \<and> side_inv r' \<and> (status (right st) = 1 \<longrightarrow> r' = right st)"
  proof (cases ir)
    case (Read_data c)
    with ok have "status (right st) \<noteq> 1" "length c \<le> PREBUF"
      by (auto simp: ir_def events_ok_def read_ok_def split: if_splits)
    from side_read_inv [OF r this] Read_data \<open>status (right st) \<noteq> 1\<close> show ?thesis
      by (auto simp: r1_def)
  qed (use r in \<open>simp_all add: r1_def\<close>)
  then obtain r' where r': "r1 = Some r'" "side_inv r'" "status (right st) = 1 \<Longrightarrow> r' = right st" by blast
  define r2 where "r2 = (case o1 of Wrote n \<Rightarrow> side_write n r' | _ \<Rightarrow> r')"
  have r2: "side_inv r2"
    using r' r ok side_write_inv [of "right st"]
    by (auto simp: r2_def o1_def events_ok_def write_ok_def split: write_ev.splits)
  have "doit_turn ev st = (case ol of Write_failed \<Rightarrow> Some Exited | _ \<Rightarrow> (case ir of Read_end \<Rightarrow> Some Exited
      | _ \<Rightarrow> (case o1 of Write_failed \<Rightarrow> Some Exited
          | _ \<Rightarrow> Some (Running \<lparr>left = l2, right = r2\<rparr>))))"
    unfolding doit_turn_def Let_def l1(1) bind.bind_lunit ol_def [symmetric] ir_def [symmetric]
      o1_def [symmetric] r1_def [symmetric] r'(1) l2_def [symmetric] r2_def [symmetric] ..
  then show ?thesis using l2 r2 by (simp split: write_ev.split read_ev.split)
qed

lemma reachable_inv: "reachable st \<Longrightarrow> side_inv (left st) \<and> side_inv (right st)"
proof (induction rule: reachable.induct)
  case start
  then show ?case by (simp add: fixcrio_init_def side_init_inv)
next
  case (turn st ev st')
  with doit_turn_inv [of st ev] show ?case by auto
qed

text \<open>C31. In every reachable state of \<open>fixcrio\<close>, and for each direction, what has been written followed
  by what is pending is the text that has been read with CR LF at the end of every line, however the reads have cut
  it into chunks, also between a CR and its LF; once nothing is pending it is all written; and no turn stores behind the
  512 bytes of the output buffer.\<close>

theorem fixcrio_reachable:
  "reachable st \<Longrightarrow> events_ok ev st \<Longrightarrow> s \<in> {left st, right st} \<Longrightarrow>
     sent s @ drop (pos s) (sbuf s) = fixcr (got s)
     \<and> (status s \<noteq> 1 \<longrightarrow> sent s = fixcr (got s))
     \<and> length (sbuf s) \<le> OUTBUF \<and> doit_turn ev st \<noteq> None"
proof -
  assume r: "reachable st" and ok: "events_ok ev st" and s: "s \<in> {left st, right st}"
  from reachable_inv [OF r] s have inv: "side_inv s" by auto
  from doit_turn_inv [of st ev] reachable_inv [OF r] ok have "doit_turn ev st \<noteq> None" by auto
  with inv run_fix_step [of "got s"] show ?thesis by (auto simp: side_inv_def)
qed

definition sample_events :: events where
  "sample_events = \<lparr>ev_0 = Read_not_ready, ev_left = Write_not_ready, ev_right = Read_not_ready,
     ev_1 = Write_not_ready\<rparr>"

theorem fixcrio_reachable_witness:
  "\<exists>st. reachable st \<and> sbuf (left st) = ''x'' @ [CR, LF, CR, LF] \<and> got (left st) = ''x'' @ [CR, LF, LF]
     \<and> sent (left st) @ drop (pos (left st)) (sbuf (left st)) = fixcr (got (left st))"
proof -
  define st where "st = fixcrio_init\<lparr>left := side_init\<lparr>status := 1, sbuf := ''x'' @ [CR, LF, CR, LF], got := ''x'' @ [CR, LF, LF]\<rparr>\<rparr>"
  let ?ev = "sample_events\<lparr>ev_0 := Read_data (''x'' @ [CR, LF, LF])\<rparr>"
  have ok: "events_ok ?ev fixcrio_init"
    by (simp add: events_ok_def sample_events_def read_ok_def write_ok_def PREBUF_def)
  have "doit_turn ?ev fixcrio_init = Some (Running st)"
    by (simp add: doit_turn_def left_in_def fixcrio_init_def side_init_def sample_events_def
        side_read_def fix_step_def OUTBUF_def st_def)
  with ok have r: "reachable st" by (rule reachable.turn [OF reachable.start])
  have "events_ok (sample_events) st"
    by (simp add: events_ok_def sample_events_def read_ok_def write_ok_def)
  from fixcrio_reachable [OF r this, of "left st"] r show ?thesis
    by (intro exI [of _ st]) (simp add: st_def)
qed

end
