(* ===== verification/Cdb.thy ===== *)
theory Cdb
  imports Packs
begin

text \<open>
  Constant data bases of ucspi-tcp-0.88: \<^verbatim>\<open>cdb_hash.c\<close>, \<^verbatim>\<open>cdb_make.c\<close>, which writes one, and \<^verbatim>\<open>cdb.c\<close>, which
  looks a key up.

  A file has 256 pairs of the position and the number of slots of a table, the records, and the
  tables; a table is open addressing with half of its slots empty.  Memory and writing succeed, the
  file is mapped; keys and data are byte lists shorter than \<open>2 ^ 32\<close>.  \<open>None\<close> is the result -1.
\<close>

subsection \<open>The hash\<close>

definition CDB_HASHSTART :: u32 where "CDB_HASHSTART = 5381"

definition cdb_hashadd :: "u32 \<Rightarrow> byte \<Rightarrow> u32" where
  "cdb_hashadd h c = (h + push_bit 5 h) XOR ucast c"

definition cdb_hash :: "byte list \<Rightarrow> u32" where
  "cdb_hash buf = fold (\<lambda>c h. cdb_hashadd h c) buf CDB_HASHSTART"

subsection \<open>Writing\<close>

record cdb_hp =
  hp_h :: u32
  hp_p :: u32

definition CDB_HPLIST :: nat where "CDB_HPLIST = 1000"

text \<open>The list of the arrays of hashes and positions, the newest first, and what follows the table of 2048 bytes.\<close>

record cdb_make =
  mk_head :: "cdb_hp list list"
  mk_numentries :: nat
  mk_pos :: u32
  mk_out :: "byte list"

definition cdb_make_start :: cdb_make where
  "cdb_make_start = \<lparr>mk_head = [], mk_numentries = 0, mk_pos = 2048, mk_out = []\<rparr>"

definition posplus :: "cdb_make \<Rightarrow> u32 \<Rightarrow> cdb_make option" where
  "posplus c len = (let newpos = mk_pos c + len in if newpos < len then None else Some (c\<lparr>mk_pos := newpos\<rparr>))"

definition cdb_make_addend :: "cdb_make \<Rightarrow> u32 \<Rightarrow> u32 \<Rightarrow> u32 \<Rightarrow> cdb_make option" where
  "cdb_make_addend c keylen datalen h =
     (let head = (if mk_head c = [] \<or> length (hd (mk_head c)) \<ge> CDB_HPLIST then [] # mk_head c else mk_head c);
          hp = \<lparr>hp_h = h, hp_p = mk_pos c\<rparr>;
          c1 = c\<lparr>mk_head := (hd head @ [hp]) # tl head, mk_numentries := mk_numentries c + 1\<rparr>
      in do { c2 \<leftarrow> posplus c1 8; c3 \<leftarrow> posplus c2 keylen; posplus c3 datalen })"

definition buffer_putalign :: "cdb_make \<Rightarrow> byte list \<Rightarrow> cdb_make" where
  "buffer_putalign c buf = c\<lparr>mk_out := mk_out c @ buf\<rparr>"

definition cdb_make_addbegin :: "cdb_make \<Rightarrow> u32 \<Rightarrow> u32 \<Rightarrow> cdb_make" where
  "cdb_make_addbegin c keylen datalen = buffer_putalign c (uint32_pack keylen @ uint32_pack datalen)"

definition cdb_make_add :: "cdb_make \<Rightarrow> byte list \<Rightarrow> byte list \<Rightarrow> cdb_make option" where
  "cdb_make_add c key data =
     (let keylen = word_of_nat (length key); datalen = word_of_nat (length data)
      in cdb_make_addend (buffer_putalign (buffer_putalign (cdb_make_addbegin c keylen datalen) key) data)
           keylen datalen (cdb_hash key))"

text \<open>The segments of \<open>split\<close>: \<open>split[--start[255 & h]] = hp\<close> puts an entry in front of the segment of its hash.\<close>

definition split_one :: "cdb_hp \<Rightarrow> (nat \<Rightarrow> cdb_hp list) \<Rightarrow> nat \<Rightarrow> cdb_hp list" where
  "split_one e b = (let k = unat (255 AND hp_h e) in b(k := e # b k))"

definition split_hp :: "cdb_hp list list \<Rightarrow> nat \<Rightarrow> cdb_hp list" where
  "split_hp head = fold (\<lambda>x b. fold split_one (rev x) b) head (\<lambda>_. [])"

text \<open>\<open>while (c->hash[where].p) if (++where == len) where = 0;\<close> in at most \<open>len\<close> turns.\<close>

fun probe :: "nat \<Rightarrow> cdb_hp list \<Rightarrow> nat \<Rightarrow> nat option" where
  "probe 0 hash w = None"
| "probe (Suc n) hash w =
     (if hp_p (hash ! w) = 0 then Some w else probe n hash (if Suc w = length hash then 0 else Suc w))"

fun fill_hash :: "cdb_hp list \<Rightarrow> cdb_hp list \<Rightarrow> cdb_hp list option" where
  "fill_hash hash [] = Some hash"
| "fill_hash hash (e # es) =
     do { w \<leftarrow> probe (length hash) hash (unat (drop_bit 8 (hp_h e)) mod length hash);
          fill_hash (hash[w := e]) es }"

fun put_slots :: "cdb_hp list \<Rightarrow> cdb_make \<Rightarrow> cdb_make option" where
  "put_slots [] c = Some c"
| "put_slots (e # es) c =
     do { c1 \<leftarrow> posplus (buffer_putalign c (uint32_pack (hp_h e) @ uint32_pack (hp_p e))) 8; put_slots es c1 }"

fun put_tables :: "(nat \<Rightarrow> cdb_hp list) \<Rightarrow> nat list \<Rightarrow> byte list \<Rightarrow> cdb_make \<Rightarrow> (byte list \<times> cdb_make) option" where
  "put_tables split [] fin c = Some (fin, c)"
| "put_tables split (i # is) fin c =
     (let count = length (split i); len = count + count
      in do { hash \<leftarrow> fill_hash (replicate len \<lparr>hp_h = 0, hp_p = 0\<rparr>) (split i);
              c1 \<leftarrow> put_slots hash c;
              put_tables split is (fin @ uint32_pack (mk_pos c) @ uint32_pack (word_of_nat len)) c1 })"

definition memsize :: "cdb_make \<Rightarrow> (nat \<Rightarrow> cdb_hp list) \<Rightarrow> nat" where
  "memsize c split = fold (\<lambda>i m. max m (length (split i) * 2)) [0..<256] 1 + mk_numentries c"

text \<open>The file.\<close>

definition cdb_make_finish :: "cdb_make \<Rightarrow> byte list option" where
  "cdb_make_finish c =
     (let split = split_hp (mk_head c) in
      if memsize c split > 0xffffffff div 8 then None
      else do { (fin, c1) \<leftarrow> put_tables split [0..<256] [] c; Some (fin @ mk_out c1) })"

fun cdb_add_all :: "(byte list \<times> byte list) list \<Rightarrow> cdb_make \<Rightarrow> cdb_make option" where
  "cdb_add_all [] c = Some c"
| "cdb_add_all ((key, data) # rs) c = do { c1 \<leftarrow> cdb_make_add c key data; cdb_add_all rs c1 }"

definition cdb_build :: "(byte list \<times> byte list) list \<Rightarrow> byte list option" where
  "cdb_build rs = do { c \<leftarrow> cdb_add_all rs cdb_make_start; cdb_make_finish c }"

subsection \<open>Looking up\<close>

record cdb =
  cd_map :: "byte list"
  cd_loop :: u32
  cd_khash :: u32
  cd_kpos :: u32
  cd_hpos :: u32
  cd_hslots :: u32
  cd_dpos :: u32
  cd_dlen :: u32

definition cdb_init :: "byte list \<Rightarrow> cdb" where
  "cdb_init file = \<lparr>cd_map = file, cd_loop = 0, cd_khash = 0, cd_kpos = 0, cd_hpos = 0, cd_hslots = 0, cd_dpos = 0, cd_dlen = 0\<rparr>"

definition cdb_findstart :: "cdb \<Rightarrow> cdb" where
  "cdb_findstart c = c\<lparr>cd_loop := 0\<rparr>"

definition cdb_read :: "cdb \<Rightarrow> nat \<Rightarrow> u32 \<Rightarrow> byte list option" where
  "cdb_read c len pos =
     (let size = length (cd_map c) in
      if unat pos > size \<or> size - unat pos < len then None else Some (take len (drop (unat pos) (cd_map c))))"

function key_match :: "cdb \<Rightarrow> byte list \<Rightarrow> u32 \<Rightarrow> bool option" where
  "key_match c key pos =
     (if key = [] then Some True
      else let n = min 32 (length key)
           in do { buf \<leftarrow> cdb_read c n pos;
                   if buf \<noteq> take n key then Some False
                   else key_match c (drop n key) (pos + word_of_nat n) })"
  by pat_completeness auto

termination by (relation "measure (\<lambda>(_, key, _). length key)") auto

declare key_match.simps [simp del]

lemma unat_plus: "unat x + n < 2 ^ 32 \<Longrightarrow> unat (x + word_of_nat n :: u32) = unat x + n"
  by (simp add: unat_word_ariths unat_of_nat)

lemma unat_32: "unat (w :: u32) < 2 ^ 32"
  using unsigned_less [of w] by simp

lemma loop_step: "l < n \<Longrightarrow> unat n - unat (l + 1 :: u32) < unat n - unat l"
  using unat_plus [of l 1] unat_32 [of n] by (simp add: word_less_nat_alt)

text \<open>The loop of \<open>cdb_findnext\<close>: whether it found the key.\<close>

function findnext_loop :: "cdb \<Rightarrow> byte list \<Rightarrow> (bool \<times> cdb) option" where
  "findnext_loop c key =
     (if \<not> cd_loop c < cd_hslots c then Some (False, c)
      else do { buf \<leftarrow> cdb_read c 8 (cd_kpos c);
                let pos = uint32_unpack (drop 4 buf);
                if pos = 0 then Some (False, c)
                else do {
                  let kpos1 = cd_kpos c + 8;
                  let kpos2 = (if kpos1 = cd_hpos c + push_bit 3 (cd_hslots c) then cd_hpos c else kpos1);
                  let c1 = c\<lparr>cd_loop := cd_loop c + 1, cd_kpos := kpos2\<rparr>;
                  if uint32_unpack buf \<noteq> cd_khash c then findnext_loop c1 key
                  else do { buf2 \<leftarrow> cdb_read c1 8 pos;
                            if unat (uint32_unpack buf2) \<noteq> length key then findnext_loop c1 key
                            else do { m \<leftarrow> key_match c1 key (pos + 8);
                                      if m then Some (True, c1\<lparr>cd_dlen := uint32_unpack (drop 4 buf2),
                                                              cd_dpos := pos + 8 + word_of_nat (length key)\<rparr>)
                                      else findnext_loop c1 key } } } })"
  by pat_completeness auto

termination
  by (relation "measure (\<lambda>(c, _). unat (cd_hslots c) - unat (cd_loop c))") (auto simp: loop_step)

declare findnext_loop.simps [simp del]

definition cdb_findnext :: "cdb \<Rightarrow> byte list \<Rightarrow> (bool \<times> cdb) option" where
  "cdb_findnext c key =
     (if cd_loop c = 0 then
        do { let u = cdb_hash key;
             buf \<leftarrow> cdb_read c 8 (push_bit 3 u AND 2047);
             let c1 = c\<lparr>cd_hslots := uint32_unpack (drop 4 buf)\<rparr>;
             if cd_hslots c1 = 0 then Some (False, c1)
             else do { let hpos = uint32_unpack buf;
                       findnext_loop (c1\<lparr>cd_hpos := hpos, cd_khash := u,
                         cd_kpos := hpos + push_bit 3 (drop_bit 8 u mod cd_hslots c1)\<rparr>) key } }
      else findnext_loop c key)"

definition cdb_find :: "cdb \<Rightarrow> byte list \<Rightarrow> (bool \<times> cdb) option" where
  "cdb_find c key = cdb_findnext (cdb_findstart c) key"

end
