(* ===== verification/CdbTable.thy ===== *)
theory CdbTable
  imports Cdb
begin

text \<open>
  The hash tables of a constant data base: filling one by linear probing succeeds as long as it has an empty slot
  for every entry, and the slots on the way from the start of a hash to the first empty slot hold
  exactly the entries with this hash, in the order in which they were added, and others.
\<close>

subsection \<open>Slots\<close>

definition slot :: "nat \<Rightarrow> nat \<Rightarrow> nat \<Rightarrow> nat" where
  "slot n s k = (s + k) mod n"

definition hfree :: "cdb_hp list \<Rightarrow> nat \<Rightarrow> bool" where
  "hfree t i \<longleftrightarrow> hp_p (t ! i) = 0"

definition hstart :: "cdb_hp list \<Rightarrow> u32 \<Rightarrow> nat" where
  "hstart t h = unat (drop_bit 8 h) mod length t"

text \<open>How many slots from \<open>s\<close> on are taken.\<close>

definition run :: "cdb_hp list \<Rightarrow> nat \<Rightarrow> nat" where
  "run t s = (LEAST k. hfree t (slot (length t) s k))"

definition path :: "cdb_hp list \<Rightarrow> nat \<Rightarrow> cdb_hp list" where
  "path t s = map (\<lambda>k. t ! slot (length t) s k) [0..<run t s]"

definition has_free :: "cdb_hp list \<Rightarrow> bool" where
  "has_free t \<longleftrightarrow> (\<exists>i < length t. hfree t i)"

lemma slot_less [simp]: "0 < n \<Longrightarrow> slot n s k < n"
  by (simp add: slot_def)

lemma slot_0 [simp]: "s < n \<Longrightarrow> slot n s 0 = s"
  by (simp add: slot_def)

lemma slot_Suc: "slot n s (Suc k) = (if Suc (slot n s k) = n then 0 else Suc (slot n s k))"
  by (simp add: slot_def mod_Suc)

lemma slot_onto: "i < n \<Longrightarrow> s < n \<Longrightarrow> \<exists>k < n. slot n s k = i"
proof -
  assume i: "i < n" and s: "s < n"
  show ?thesis
  proof (cases "s \<le> i")
    case True
    with i show ?thesis by (intro exI [of _ "i - s"]) (auto simp: slot_def)
  next
    case False
    with i s show ?thesis by (intro exI [of _ "n + i - s"]) (auto simp: slot_def)
  qed
qed

lemma slot_inj: "k < n \<Longrightarrow> l < n \<Longrightarrow> slot n s k = slot n s l \<Longrightarrow> k = l"
proof -
  have *: "l - k = 0" if "k \<le> l" "l < n" "(s + k) mod n = (s + l) mod n" for k l
  proof -
    from that(1,3) have "n dvd (s + l) - (s + k)" by (subst mod_eq_dvd_iff_nat [symmetric]) simp_all
    then have d: "n dvd l - k" by simp
    show ?thesis
    proof (rule ccontr)
      assume "l - k \<noteq> 0"
      with dvd_imp_le [OF d] that(2) show False by linarith
    qed
  qed
  assume k: "k < n" and l: "l < n" and "slot n s k = slot n s l"
  then have e: "(s + k) mod n = (s + l) mod n" unfolding slot_def by blast
  from * [OF _ l e] * [OF _ k e [symmetric]] show "k = l" by linarith
qed

lemma run_props:
  assumes "has_free t" "s < length t"
  shows "run t s < length t" "hfree t (slot (length t) s (run t s))" "k < run t s \<Longrightarrow> \<not> hfree t (slot (length t) s k)"
proof -
  from assms(1) obtain i where "i < length t" "hfree t i" by (auto simp: has_free_def)
  with slot_onto [OF this(1) assms(2)] obtain m where k: "m < length t" "hfree t (slot (length t) s m)" by blast
  show "hfree t (slot (length t) s (run t s))" unfolding run_def using k(2) by (rule LeastI)
  have "run t s \<le> m" unfolding run_def using k(2) by (rule Least_le)
  with k(1) show "run t s < length t" by simp
  show "k < run t s \<Longrightarrow> \<not> hfree t (slot (length t) s k)" unfolding run_def by (rule not_less_Least)
qed

lemma run_eq: "hfree t (slot (length t) s k) \<Longrightarrow> (\<And>l. l < k \<Longrightarrow> \<not> hfree t (slot (length t) s l)) \<Longrightarrow> run t s = k"
  unfolding run_def by (rule Least_equality) (auto simp: not_less [symmetric])

lemma probe_run:
  assumes "has_free t" "s < length t"
  shows "probe (length t) t s = Some (slot (length t) s (run t s))"
proof -
  note r = run_props [OF assms]
  have "probe (length t - j) t (slot (length t) s j) = Some (slot (length t) s (run t s))" if "j \<le> run t s" for j
    using that
  proof (induction "run t s - j" arbitrary: j)
    case 0
    with r(1,2) obtain m where "length t - j = Suc m" by (metis Suc_diff_Suc diff_is_0_eq le_antisym)
    with 0 r(2) show ?case by (simp add: hfree_def)
  next
    case (Suc d)
    then have j: "j < run t s" by simp
    with r(1) have "length t - j = Suc (length t - Suc j)" by simp
    moreover have "\<not> hfree t (slot (length t) s j)" using r(3) j by blast
    moreover have "probe (length t - Suc j) t (slot (length t) s (Suc j)) = Some (slot (length t) s (run t s))"
      using Suc j by (intro Suc.hyps(1)) auto
    ultimately show ?case by (simp add: hfree_def slot_Suc)
  qed
  from this [of 0] assms(2) show ?thesis by simp
qed

subsection \<open>Adding an entry\<close>

text \<open>No slot between the start of an entry and its place is empty.\<close>

definition reached :: "cdb_hp list \<Rightarrow> bool" where
  "reached t \<longleftrightarrow> (\<forall>i < length t. \<not> hfree t i \<longrightarrow>
     (\<forall>k < length t. slot (length t) (hstart t (hp_h (t ! i))) k = i \<longrightarrow>
        (\<forall>l < k. \<not> hfree t (slot (length t) (hstart t (hp_h (t ! i))) l))))"

definition place :: "cdb_hp list \<Rightarrow> cdb_hp \<Rightarrow> cdb_hp list" where
  "place t e = t[slot (length t) (hstart t (hp_h e)) (run t (hstart t (hp_h e))) := e]"

lemma hstart_less: "0 < length t \<Longrightarrow> hstart t h < length t"
  by (simp add: hstart_def)

lemma length_place [simp]: "length (place t e) = length t" and hstart_place [simp]: "hstart (place t e) = hstart t"
  by (simp_all add: place_def hstart_def fun_eq_iff)

lemma has_free_length: "has_free t \<Longrightarrow> 0 < length t"
  by (auto simp: has_free_def)

text \<open>The place of the new entry.\<close>

definition home :: "cdb_hp list \<Rightarrow> cdb_hp \<Rightarrow> nat" where
  "home t e = slot (length t) (hstart t (hp_h e)) (run t (hstart t (hp_h e)))"

lemma home_props:
  assumes "has_free t"
  shows "home t e < length t" "hfree t (home t e)"
  using run_props [OF assms hstart_less [OF has_free_length [OF assms]]] has_free_length [OF assms]
  by (simp_all add: home_def)

lemma place_nth: "i < length t \<Longrightarrow> place t e ! i = (if i = home t e then e else t ! i)"
  by (simp add: place_def home_def nth_list_update)

lemma place_hfree:
  "has_free t \<Longrightarrow> hp_p e \<noteq> 0 \<Longrightarrow> i < length t \<Longrightarrow> hfree (place t e) i \<longleftrightarrow> i \<noteq> home t e \<and> hfree t i"
  by (simp add: hfree_def place_nth)

lemma place_reached:
  assumes "has_free t" "hp_p e \<noteq> 0" "reached t"
  shows "reached (place t e)"
  unfolding reached_def
proof (intro allI impI)
  fix i k l
  let ?n = "length t" and ?x = "place t e ! i"
  assume a: "i < length (place t e)" "\<not> hfree (place t e) i" "k < length (place t e)"
    "slot (length (place t e)) (hstart (place t e) (hp_h ?x)) k = i" "l < k"
  have n: "0 < ?n" using has_free_length [OF assms(1)] .
  have "\<not> hfree t (slot ?n (hstart t (hp_h ?x)) l)"
  proof (cases "i = home t e")
    case True
    with a have "slot ?n (hstart t (hp_h e)) k = slot ?n (hstart t (hp_h e)) (run t (hstart t (hp_h e)))"
      by (simp add: place_nth home_def)
    then have "k = run t (hstart t (hp_h e))"
      using slot_inj [of k ?n] run_props(1) [OF assms(1) hstart_less [OF n]] a(3) by simp
    with run_props(3) [OF assms(1) hstart_less [OF n]] a(5) True a(1) show ?thesis by (simp add: place_nth)
  next
    case False
    with a assms(3) place_hfree [OF assms(1,2)] show ?thesis
      unfolding reached_def by (simp add: place_nth)
  qed
  then show "\<not> hfree (place t e) (slot (length (place t e)) (hstart (place t e) (hp_h ?x)) l)"
    using place_hfree [OF assms(1,2)] n by simp
qed

text \<open>How the way from a start changes.\<close>

lemma path_place:
  assumes "has_free t" "hp_p e \<noteq> 0" "reached t" "has_free (place t e)"
  shows "filter (\<lambda>x. hp_h x = h) (path (place t e) (hstart t h))
    = filter (\<lambda>x. hp_h x = h) (path t (hstart t h)) @ (if hp_h e = h then [e] else [])"
proof -
  let ?n = "length t" and ?s = "hstart t h" and ?t' = "place t e"
  note n = has_free_length [OF assms(1)]
  note s = hstart_less [OF n, of h]
  note r = run_props [OF assms(1) s]
  note f = place_hfree [OF assms(1,2)]
  have same: "?t' ! slot ?n ?s k = t ! slot ?n ?s k" if "k < run t ?s" for k
    using r(3) [OF that] home_props(2) [OF assms(1), of e] n by (auto simp: place_nth)
  have pre: "map (\<lambda>k. ?t' ! slot ?n ?s k) [0..<run t ?s] = path t ?s"
    using same unfolding path_def by (intro map_cong) auto
  show ?thesis
  proof (cases "slot ?n ?s (run t ?s) = home t e")
    case False
    with r f n have u: "run ?t' ?s = run t ?s" by (intro run_eq) auto
    have "hp_h e \<noteq> h" using False by (auto simp: home_def)
    then show ?thesis unfolding path_def [of ?t'] length_place u pre by simp
  next
    case True
    let ?r = "run ?t' ?s"
    have s': "?s < length ?t'" using s by simp
    note r' = run_props [OF assms(4) s']
    have "run t ?s < ?r"
    proof (rule ccontr)
      assume "\<not> run t ?s < ?r"
      then have "?r = run t ?s \<or> ?r < run t ?s" by linarith
      with r'(2) True f n r(3) show False by auto
    qed
    then have split: "[0..<?r] = [0..<run t ?s] @ run t ?s # [Suc (run t ?s)..<?r]"
      using upt_add_eq_append [of 0 "run t ?s" "?r - run t ?s"] by (simp add: upt_conv_Cons)
    have "hp_h (?t' ! slot ?n ?s k) \<noteq> h" if "run t ?s < k" "k < ?r" for k
    proof
      assume h: "hp_h (?t' ! slot ?n ?s k) = h"
      from that r' have k: "k < ?n" by simp
      have "slot ?n ?s k \<noteq> home t e"
        using slot_inj [OF k r(1), of ?s] that(1) True by auto
      with h n have "hp_h (t ! slot ?n ?s k) = h" by (simp add: place_nth)
      moreover from r'(3) [OF that(2)] f n \<open>slot ?n ?s k \<noteq> home t e\<close> have "\<not> hfree t (slot ?n ?s k)" by simp
      ultimately have "\<not> hfree t (slot ?n ?s (run t ?s))"
        using assms(3) [unfolded reached_def, rule_format, of "slot ?n ?s k" k "run t ?s"] k n that(1) by simp
      with r(2) show False by simp
    qed
    then have rest: "filter (\<lambda>x. hp_h x = h) (map (\<lambda>k. ?t' ! slot ?n ?s k) [Suc (run t ?s)..<?r]) = []"
      by (auto simp: filter_empty_conv)
    have mid: "?t' ! slot ?n ?s (run t ?s) = e" using True n by (simp add: place_nth home_props assms(1))
    show ?thesis
      unfolding path_def [of ?t'] length_place split map_append list.map filter_append filter.simps pre mid rest by simp
  qed
qed

subsection \<open>Filling a table\<close>

definition free_slots :: "cdb_hp list \<Rightarrow> nat" where
  "free_slots t = card {i. i < length t \<and> hfree t i}"

lemma has_free_slots: "has_free t \<longleftrightarrow> 0 < free_slots t"
  by (auto simp: has_free_def free_slots_def card_gt_0_iff)

lemma free_slots_place:
  assumes "has_free t" "hp_p e \<noteq> 0"
  shows "free_slots (place t e) = free_slots t - 1"
proof -
  have "{i. i < length t \<and> hfree (place t e) i} = {i. i < length t \<and> hfree t i} - {home t e}"
    using place_hfree [OF assms] by auto
  moreover have "home t e \<in> {i. i < length t \<and> hfree t i}" using home_props [OF assms(1)] by simp
  ultimately show ?thesis by (simp add: free_slots_def)
qed

lemma fill_step: "has_free t \<Longrightarrow> fill_hash t (e # es) = fill_hash (place t e) es"
  using probe_run [of t "hstart t (hp_h e)"] hstart_less [OF has_free_length, of t]
  by (simp add: hstart_def place_def)

lemma fill_hash_paths:
  "length es < free_slots t \<Longrightarrow> reached t \<Longrightarrow> \<forall>e \<in> set es. hp_p e \<noteq> 0 \<Longrightarrow>
     \<exists>t'. fill_hash t es = Some t' \<and> length t' = length t \<and> has_free t'
       \<and> (\<forall>h. filter (\<lambda>x. hp_h x = h) (path t' (hstart t' h))
              = filter (\<lambda>x. hp_h x = h) (path t (hstart t h)) @ filter (\<lambda>x. hp_h x = h) es)"
proof (induction es arbitrary: t)
  case Nil
  then show ?case by (simp add: has_free_slots)
next
  case (Cons e es)
  then have f: "has_free t" "hp_p e \<noteq> 0" by (simp_all add: has_free_slots)
  have l: "length es < free_slots (place t e)" using Cons.prems(1) free_slots_place [OF f] by simp
  then have f': "has_free (place t e)" by (simp add: has_free_slots)
  from Cons.IH [OF l place_reached [OF f Cons.prems(2)]] Cons.prems(3) obtain t' where
    t': "fill_hash (place t e) es = Some t'" "length t' = length t" "has_free t'"
      "\<forall>h. filter (\<lambda>x. hp_h x = h) (path t' (hstart t' h))
              = filter (\<lambda>x. hp_h x = h) (path (place t e) (hstart t h)) @ filter (\<lambda>x. hp_h x = h) es"
    by auto
  with path_place [OF f Cons.prems(2) f'] fill_step [OF f(1)] show ?case by auto
qed

text \<open>A fresh table of twice as many slots.\<close>

definition fresh :: "nat \<Rightarrow> cdb_hp list" where
  "fresh n = replicate n \<lparr>hp_h = 0, hp_p = 0\<rparr>"

lemma fresh_simps: "length (fresh n) = n" "\<And>i. i < n \<Longrightarrow> hfree (fresh n) i" "free_slots (fresh n) = n" "reached (fresh n)"
proof -
  show l: "length (fresh n) = n" and f: "\<And>i. i < n \<Longrightarrow> hfree (fresh n) i"
    by (simp_all add: fresh_def hfree_def)
  then have "{i. i < length (fresh n) \<and> hfree (fresh n) i} = {..<n}" by auto
  then show "free_slots (fresh n) = n" by (simp add: free_slots_def)
  show "reached (fresh n)" using l f by (simp add: reached_def)
qed

lemma path_fresh: "0 < n \<Longrightarrow> path (fresh n) s = []"
  using run_eq [of "fresh n" s 0] fresh_simps(1) fresh_simps(2) [of "slot n s 0" n] by (simp add: path_def)

lemma fill_hash_finds:
  assumes "\<forall>e \<in> set es. hp_p e \<noteq> 0" "es \<noteq> []"
  shows "\<exists>t. fill_hash (fresh (length es + length es)) es = Some t \<and> length t = length es + length es \<and> has_free t
    \<and> (\<forall>h. filter (\<lambda>x. hp_h x = h) (path t (hstart t h)) = filter (\<lambda>x. hp_h x = h) es)"
  using fill_hash_paths [of es "fresh (length es + length es)"] assms path_fresh [of "length es + length es"]
  by (simp add: fresh_simps)

end
