(* ===== verification/CdbLookup.thy ===== *)
theory CdbLookup
  imports CdbTable
begin

text \<open>
  A constant data base that was written can be looked up: where the records and the tables of a file
  are, what a search of a table finds, and that \<open>cdb_find\<close> gives the data of the first record with
  the key.
\<close>

subsection \<open>Words and bytes\<close>

lemma unat_add_ok: "\<not> x + y < y \<Longrightarrow> unat (x + y :: u32) = unat x + unat y"
proof -
  assume a: "\<not> x + y < y"
  show ?thesis
  proof (cases "unat x + unat y < 2 ^ 32")
    case True
    then show ?thesis by (simp add: unat_word_ariths)
  next
    case False
    then have "unat (x + y) = unat x + unat y - 2 ^ 32"
      using unat_32 [of x] unat_32 [of y] by (simp add: unat_word_ariths mod_if)
    with a False unat_32 [of x] show ?thesis by (simp add: word_less_nat_alt)
  qed
qed

lemma unat_nat_32: "n < 2 ^ 32 \<Longrightarrow> unat (word_of_nat n :: u32) = n"
  by (simp add: unat_of_nat)

text \<open>The bytes \<open>bs\<close> stand in the file at a position.\<close>

definition stands :: "byte list \<Rightarrow> nat \<Rightarrow> byte list \<Rightarrow> bool" where
  "stands file p bs \<longleftrightarrow> p + length bs \<le> length file \<and> take (length bs) (drop p file) = bs"

lemma stands_append: "stands file p (xs @ ys) \<longleftrightarrow> stands file p xs \<and> stands file (p + length xs) ys"
proof -
  have "take (length (xs @ ys)) (drop p file) = take (length xs) (drop p file) @ take (length ys) (drop (p + length xs) file)"
    by (simp add: take_add add.commute)
  then show ?thesis by (auto simp: stands_def append_eq_append_conv_if min_def)
qed

lemma stands_here: "stands (as @ bs @ cs) (length as) bs"
  by (simp add: stands_def)

lemma stands_shift: "stands file p bs \<Longrightarrow> stands (as @ file) (length as + p) bs"
  by (simp add: stands_def)

lemma stands_more: "stands file p bs \<Longrightarrow> stands (file @ cs) p bs"
  by (simp add: stands_def)

lemma stands_read: "stands (cd_map c) (unat w) bs \<Longrightarrow> n = length bs \<Longrightarrow> cdb_read c n w = Some bs"
  by (auto simp: cdb_read_def stands_def)

lemma length_pack [simp]: "length (uint32_pack u) = 4"
  by (simp add: uint32_pack_def Let_def)

lemma unpack_append: "length s = 4 \<Longrightarrow> uint32_unpack (s @ r) = uint32_unpack s"
  by (simp add: uint32_unpack_def nth_append)

lemma unpack_two [simp]: "uint32_unpack (uint32_pack u @ r) = u" "uint32_unpack (drop 4 (uint32_pack v @ uint32_pack u)) = u"
  by (simp_all add: unpack_append unpack_pack_32)

declare unpack_pack_32 [simp]

subsection \<open>Records\<close>

definition rec_bytes :: "byte list \<times> byte list \<Rightarrow> byte list" where
  "rec_bytes r = uint32_pack (word_of_nat (length (fst r))) @ uint32_pack (word_of_nat (length (snd r))) @ fst r @ snd r"

fun entries :: "(byte list \<times> byte list) list \<Rightarrow> nat \<Rightarrow> cdb_hp list" where
  "entries [] p = []"
| "entries (r # rs) p = \<lparr>hp_h = cdb_hash (fst r), hp_p = word_of_nat p\<rparr> # entries rs (p + length (rec_bytes r))"

definition small :: "byte list \<times> byte list \<Rightarrow> bool" where
  "small r \<longleftrightarrow> length (fst r) < 2 ^ 32 \<and> length (snd r) < 2 ^ 32"

lemma posplus_Some:
  "posplus c len = Some c' \<Longrightarrow> c' = c\<lparr>mk_pos := mk_pos c + len\<rparr> \<and> unat (mk_pos c + len) = unat (mk_pos c) + unat len"
  by (auto simp: posplus_def Let_def unat_add_ok split: if_splits)

lemma add_step:
  assumes "cdb_make_add c k d = Some c'" "small (k, d)"
  shows "mk_out c' = mk_out c @ rec_bytes (k, d)
    \<and> concat (rev (mk_head c')) = concat (rev (mk_head c)) @ [\<lparr>hp_h = cdb_hash k, hp_p = mk_pos c\<rparr>]
    \<and> unat (mk_pos c') = unat (mk_pos c) + length (rec_bytes (k, d))
    \<and> mk_numentries c' = Suc (mk_numentries c)"
  using assms unat_nat_32 [of "length k"] unat_nat_32 [of "length d"]
  by (auto simp: cdb_make_add_def cdb_make_addend_def cdb_make_addbegin_def buffer_putalign_def Let_def rec_bytes_def
      small_def bind_eq_Some_conv dest!: posplus_Some split: if_splits)
    (cases "mk_head c"; simp)+

lemma add_all_step:
  "cdb_add_all rs c = Some c' \<Longrightarrow> list_all small rs \<Longrightarrow>
     mk_out c' = mk_out c @ concat (map rec_bytes rs)
     \<and> concat (rev (mk_head c')) = concat (rev (mk_head c)) @ entries rs (unat (mk_pos c))
     \<and> unat (mk_pos c') = unat (mk_pos c) + length (concat (map rec_bytes rs))"
proof (induction rs arbitrary: c)
  case (Cons r rs)
  obtain k d where r: "r = (k, d)" by (cases r)
  with Cons.prems obtain c1 where c1: "cdb_make_add c k d = Some c1" "cdb_add_all rs c1 = Some c'"
    by (auto simp: bind_eq_Some_conv)
  from add_step [OF c1(1)] Cons.prems(2) r Cons.IH [OF c1(2)] show ?case by simp
qed simp

text \<open>The record that is read at a position.\<close>

definition rec_at :: "byte list \<Rightarrow> nat \<Rightarrow> byte list \<times> byte list" where
  "rec_at file p =
     (let kl = unat (uint32_unpack (take 4 (drop p file))); dl = unat (uint32_unpack (take 4 (drop (p + 4) file)))
      in (take kl (drop (p + 8) file), take dl (drop (p + 8 + kl) file)))"

lemma stands_rec:
  "stands file p (rec_bytes r) \<longleftrightarrow> stands file p (uint32_pack (word_of_nat (length (fst r))))
     \<and> stands file (p + 4) (uint32_pack (word_of_nat (length (snd r))))
     \<and> stands file (p + 8) (fst r) \<and> stands file (p + 8 + length (fst r)) (snd r)"
  by (auto simp: rec_bytes_def stands_append add.assoc)

lemma stands_take: "stands file p bs \<Longrightarrow> take (length bs) (drop p file) = bs"
  by (simp add: stands_def)

lemma rec_at_stands: "stands file p (rec_bytes r) \<Longrightarrow> small r \<Longrightarrow> rec_at file p = r"
  using stands_take [of "file" p "uint32_pack (word_of_nat (length (fst r)))"]
    stands_take [of "file" "p + 4" "uint32_pack (word_of_nat (length (snd r)))"]
    stands_take [of "file" "p + 8" "fst r"] stands_take [of "file" "p + 8 + length (fst r)" "snd r"]
  by (simp add: rec_at_def stands_rec small_def unpack_pack_32 unat_nat_32)

definition good_entry :: "byte list \<Rightarrow> cdb_hp \<Rightarrow> bool" where
  "good_entry file e \<longleftrightarrow> (let r = rec_at file (unat (hp_p e)) in
     hp_p e \<noteq> 0 \<and> small r \<and> hp_h e = cdb_hash (fst r) \<and> stands file (unat (hp_p e)) (rec_bytes r))"

lemma entries_recs:
  "list_all small rs \<Longrightarrow> 0 < length as \<Longrightarrow> length (as @ concat (map rec_bytes rs)) < 2 ^ 32 \<Longrightarrow>
     file = as @ concat (map rec_bytes rs) @ cs \<Longrightarrow>
     map (\<lambda>e. rec_at file (unat (hp_p e))) (entries rs (length as)) = rs \<and> list_all (good_entry file) (entries rs (length as))"
proof (induction rs arbitrary: as)
  case (Cons r rs)
  let ?e = "\<lparr>hp_h = cdb_hash (fst r), hp_p = word_of_nat (length as)\<rparr>"
  from Cons.prems have p: "unat (hp_p ?e) = length as" by (simp add: unat_nat_32)
  have s: "stands file (unat (hp_p ?e)) (rec_bytes r)" unfolding p Cons.prems(4) by (simp add: stands_here)
  with Cons.prems(1) have r: "rec_at file (unat (hp_p ?e)) = r" by (intro rec_at_stands) simp_all
  from p Cons.prems(2) have "hp_p ?e \<noteq> 0" by (metis length_0_conv less_numeral_extra(3) unsigned_0)
  with s r Cons.prems(1) have "good_entry file ?e" by (simp add: good_entry_def)
  with r Cons.IH [of "as @ rec_bytes r"] Cons.prems show ?case by simp
qed simp

subsection \<open>Tables\<close>

definition slot_bytes :: "cdb_hp \<Rightarrow> byte list" where
  "slot_bytes e = uint32_pack (hp_h e) @ uint32_pack (hp_p e)"

lemma length_slot_bytes [simp]: "length (slot_bytes e) = 8"
  by (simp add: slot_bytes_def)

definition table_bytes :: "cdb_hp list \<Rightarrow> byte list" where
  "table_bytes t = concat (map slot_bytes t)"

lemma length_table_bytes [simp]: "length (table_bytes t) = 8 * length t"
  by (induction t) (simp_all add: table_bytes_def)

lemma put_slots_step:
  "put_slots es c = Some c' \<Longrightarrow> mk_out c' = mk_out c @ table_bytes es \<and> unat (mk_pos c') = unat (mk_pos c) + 8 * length es"
proof (induction es arbitrary: c)
  case (Cons e es)
  then show ?case
    by (auto simp: buffer_putalign_def table_bytes_def slot_bytes_def bind_eq_Some_conv dest!: posplus_Some)
qed (simp add: table_bytes_def)

text \<open>The place of table \<open>t\<close> in what follows the first 2048 bytes.\<close>

definition table_in :: "byte list \<Rightarrow> u32 \<Rightarrow> cdb_hp list \<Rightarrow> bool" where
  "table_in out p t \<longleftrightarrow> 2048 \<le> unat p \<and> stands out (unat p - 2048) (table_bytes t)"

lemma put_tables_step:
  "put_tables sp is fin c = Some (fin', c') \<Longrightarrow> unat (mk_pos c) = 2048 + length (mk_out c) \<Longrightarrow>
     \<exists>blk tail. fin' = fin @ blk \<and> length blk = 8 * length is \<and> mk_out c' = mk_out c @ tail
       \<and> unat (mk_pos c') = 2048 + length (mk_out c')
       \<and> (\<forall>j < length is. \<exists>p t. stands blk (8 * j) (uint32_pack p @ uint32_pack (word_of_nat (length t)))
            \<and> fill_hash (fresh (length (sp (is ! j)) + length (sp (is ! j)))) (sp (is ! j)) = Some t \<and> table_in (mk_out c') p t)"
proof (induction "is" arbitrary: fin c)
  case (Cons i "is")
  let ?len = "length (sp i) + length (sp i)"
  from Cons.prems(1) obtain t c1 where t: "fill_hash (fresh ?len) (sp i) = Some t" and c1: "put_slots t c = Some c1"
    and r: "put_tables sp is (fin @ uint32_pack (mk_pos c) @ uint32_pack (word_of_nat ?len)) c1 = Some (fin', c')"
    by (auto simp: Let_def fresh_def bind_eq_Some_conv)
  have len: "length hash' = length hash" if "fill_hash hash es = Some hash'" for hash es hash'
    using that by (induction es arbitrary: hash) (auto simp: bind_eq_Some_conv)
  have lt: "length t = ?len" using len [OF t] by (simp add: fresh_simps)
  note s = put_slots_step [OF c1]
  from Cons.IH [OF r] s Cons.prems(2) obtain blk tail where b:
    "fin' = (fin @ uint32_pack (mk_pos c) @ uint32_pack (word_of_nat ?len)) @ blk" "length blk = 8 * length is"
    "mk_out c' = mk_out c1 @ tail" "unat (mk_pos c') = 2048 + length (mk_out c')"
    "\<forall>j < length is. \<exists>p t. stands blk (8 * j) (uint32_pack p @ uint32_pack (word_of_nat (length t)))
            \<and> fill_hash (fresh (length (sp (is ! j)) + length (sp (is ! j)))) (sp (is ! j)) = Some t \<and> table_in (mk_out c') p t"
    by auto
  let ?blk = "(uint32_pack (mk_pos c) @ uint32_pack (word_of_nat ?len)) @ blk"
  have "table_in (mk_out c') (mk_pos c) t"
    using Cons.prems(2) s b(3) stands_here [of "mk_out c" "table_bytes t" tail] by (simp add: table_in_def)
  moreover have "stands ?blk 0 (uint32_pack (mk_pos c) @ uint32_pack (word_of_nat (length t)))"
    by (simp add: stands_def lt)
  ultimately have zero: "\<exists>p t. stands ?blk (8 * 0) (uint32_pack p @ uint32_pack (word_of_nat (length t)))
      \<and> fill_hash (fresh ?len) (sp i) = Some t \<and> table_in (mk_out c') p t" using t by auto
  have suc: "stands ?blk (8 * Suc j) x" if "stands blk (8 * j) x" for j x
    using stands_shift [OF that, of "uint32_pack (mk_pos c) @ uint32_pack (word_of_nat ?len)"] by simp
  have "\<exists>p t. stands ?blk (8 * j) (uint32_pack p @ uint32_pack (word_of_nat (length t)))
      \<and> fill_hash (fresh (length (sp ((i # is) ! j)) + length (sp ((i # is) ! j)))) (sp ((i # is) ! j)) = Some t
      \<and> table_in (mk_out c') p t" if "j < length (i # is)" for j
  proof (cases j)
    case 0
    with zero show ?thesis by simp
  next
    case (Suc m)
    with that have "m < length is" by simp
    with b(5) suc Suc show ?thesis by (metis nth_Cons_Suc)
  qed
  with b s show ?case by (intro exI [of _ ?blk] exI [of _ "table_bytes t @ tail"]) simp
qed (simp add: exI [of _ "[]"])

subsection \<open>Searching\<close>

lemma key_match_stands:
  "stands (cd_map c) (unat p) key' \<Longrightarrow> length key' = length key \<Longrightarrow> length (cd_map c) < 2 ^ 32 \<Longrightarrow>
     key_match c key p = Some (key' = key)"
proof (induction c key p arbitrary: key' rule: key_match.induct)
  case (1 c key p)
  show ?case
  proof (cases "key = []")
    case True
    with 1(3) show ?thesis by (simp add: key_match.simps)
  next
    case False
    let ?n = "min 32 (length key)"
    have k: "key' = take ?n key' @ drop ?n key'" by simp
    from 1(2) have s: "stands (cd_map c) (unat p) (take ?n key')" "stands (cd_map c) (unat p + ?n) (drop ?n key')"
      using stands_append [of "cd_map c" "unat p" "take ?n key'" "drop ?n key'"] 1(3) by simp_all
    have rd: "cdb_read c ?n p = Some (take ?n key')" using s(1) 1(3) by (intro stands_read) auto
    have "unat p + length key < 2 ^ 32" using 1(2,3,4) by (simp add: stands_def)
    then have u: "unat (p + word_of_nat ?n) = unat p + ?n" by (intro unat_plus) linarith
    show ?thesis
    proof (cases "take ?n key' = take ?n key")
      case True
      have "key_match c (drop ?n key) (p + word_of_nat ?n) = Some (drop ?n key' = drop ?n key)"
        using False rd True s(2) u 1(3,4) by (intro 1(1)) auto
      moreover have "(drop ?n key' = drop ?n key) = (key' = key)" using True by (metis append_take_drop_id)
      ultimately show ?thesis using False rd True by (subst key_match.simps) (simp add: Let_def)
    next
      case f: False
      then have "key' \<noteq> key" by auto
      with f False rd show ?thesis by (subst key_match.simps) (simp add: Let_def)
    qed
  qed
qed

text \<open>The search at slot \<open>k\<close> of the way from \<open>s\<close>.\<close>

definition searching :: "byte list \<Rightarrow> u32 \<Rightarrow> cdb_hp list \<Rightarrow> u32 \<Rightarrow> nat \<Rightarrow> nat \<Rightarrow> cdb \<Rightarrow> bool" where
  "searching file p t h s k c \<longleftrightarrow> cd_map c = file \<and> cd_khash c = h \<and> cd_hpos c = p \<and> unat (cd_hslots c) = length t
     \<and> unat (cd_loop c) = k \<and> unat (cd_kpos c) = unat p + 8 * slot (length t) s k"

text \<open>What a search gives: the data of the record of an entry, or nothing.\<close>

definition search_result :: "byte list \<Rightarrow> cdb_hp option \<Rightarrow> (bool \<times> cdb) option \<Rightarrow> bool" where
  "search_result file found res \<longleftrightarrow>
     (case found of
        None \<Rightarrow> \<exists>c. res = Some (False, c)
      | Some e \<Rightarrow> \<exists>c. res = Some (True, c) \<and> cd_map c = file
          \<and> cdb_read c (unat (cd_dlen c)) (cd_dpos c) = Some (snd (rec_at file (unat (hp_p e)))))"

lemma slot_stands:
  "stands file p (table_bytes t) \<Longrightarrow> i < length t \<Longrightarrow> stands file (p + 8 * i) (slot_bytes (t ! i))"
proof -
  assume s: "stands file p (table_bytes t)" and i: "i < length t"
  have "table_bytes t = table_bytes (take i t) @ slot_bytes (t ! i) @ table_bytes (drop (Suc i) t)"
    using id_take_nth_drop [OF i] by (metis table_bytes_def map_append concat_append list.simps(9) concat.simps(2))
  with s i show ?thesis by (simp add: stands_append)
qed

lemma good_stands:
  assumes "good_entry file e"
  defines "r \<equiv> rec_at file (unat (hp_p e))"
  shows "stands file (unat (hp_p e)) (uint32_pack (word_of_nat (length (fst r))) @ uint32_pack (word_of_nat (length (snd r))))"
    "stands file (unat (hp_p e) + 8) (fst r)" "stands file (unat (hp_p e) + 8 + length (fst r)) (snd r)"
    "length (fst r) < 2 ^ 32" "length (snd r) < 2 ^ 32" "hp_h e = cdb_hash (fst r)" "hp_p e \<noteq> 0"
  using assms by (auto simp: good_entry_def Let_def stands_rec small_def stands_append)

lemma find_loop_step:
  assumes "length file < 2 ^ 32" "stands file (unat p) (table_bytes t)" "has_free t"
    "\<And>e. e \<in> set (path t s) \<Longrightarrow> hp_h e = h \<Longrightarrow> good_entry file e" "s < length t" "searching file p t h s k c" "k < run t s"
    "length key < 2 ^ 32"
  defines "e \<equiv> t ! slot (length t) s k"
  defines "c1 \<equiv> c\<lparr>cd_loop := cd_loop c + 1, cd_kpos := (if cd_kpos c + 8 = cd_hpos c + push_bit 3 (cd_hslots c) then cd_hpos c else cd_kpos c + 8)\<rparr>"
  shows "searching file p t h s (Suc k) c1 \<and> (if hp_h e = h \<and> fst (rec_at file (unat (hp_p e))) = key
    then search_result file (Some e) (findnext_loop c key) else findnext_loop c key = findnext_loop c1 key)"
proof
  let ?n = "length t"
  have n: "0 < ?n" using assms(5) by linarith
  from run_props(1) [OF assms(3,5)] assms(7) have k: "k < ?n" by simp
  from assms(6) have c: "cd_map c = file" "cd_khash c = h" "cd_hpos c = p" "unat (cd_hslots c) = ?n" "unat (cd_loop c) = k"
    "unat (cd_kpos c) = unat p + 8 * slot ?n s k" by (simp_all add: searching_def)
  have size: "unat p + 8 * ?n \<le> length file" using assms(2) by (simp add: stands_def)
  have si: "slot ?n s k < ?n" using n by simp
  have kp: "unat (cd_kpos c + 8) = unat p + 8 * Suc (slot ?n s k)"
    using unat_plus [of "cd_kpos c" 8] c(6) size si assms(1) by simp
  have push: "unat (push_bit 3 (cd_hslots c)) = 8 * ?n"
    using size assms(1) c(4) by (simp add: push_bit_eq_mult unat_word_ariths)
  have "unat (p + push_bit 3 (cd_hslots c)) = unat p + 8 * ?n"
    using push size assms(1) by (simp add: unat_word_ariths)
  then have wrap: "cd_kpos c + 8 = cd_hpos c + push_bit 3 (cd_hslots c) \<longleftrightarrow> Suc (slot ?n s k) = ?n"
    unfolding c(3) word_unat_eq_iff kp by (simp, linarith)
  have lp: "unat (cd_loop c + 1) = Suc k"
    using unat_plus [of "cd_loop c" 1] c(5) k size assms(1) by simp
  show s1: "searching file p t h s (Suc k) c1"
    using c lp kp wrap by (simp add: searching_def c1_def slot_Suc)
  have e: "e \<in> set (path t s)" using assms(7) by (auto simp: path_def e_def)
  have nz: "hp_p e \<noteq> 0" using run_props(3) [OF assms(3,5,7)] by (simp add: hfree_def e_def)
  let ?r = "rec_at file (unat (hp_p e))"
  have rd: "cdb_read c 8 (cd_kpos c) = Some (slot_bytes e)"
    using slot_stands [OF assms(2) si] c(1,6) by (intro stands_read) (simp_all add: e_def)
  have u: "uint32_unpack (slot_bytes e) = hp_h e" "uint32_unpack (drop 4 (slot_bytes e)) = hp_p e"
    by (simp_all add: slot_bytes_def unpack_two unpack_pack_32)
  have lt: "cd_loop c < cd_hslots c" using c(4,5) k by (simp add: word_less_nat_alt)
  have c1: "cd_map c1 = file" by (simp add: c1_def c(1))
  have unf: "findnext_loop c key = (if hp_h e \<noteq> h then findnext_loop c1 key
      else do { buf2 \<leftarrow> cdb_read c1 8 (hp_p e);
                if unat (uint32_unpack buf2) \<noteq> length key then findnext_loop c1 key
                else do { m \<leftarrow> key_match c1 key (hp_p e + 8);
                          if m then Some (True, c1\<lparr>cd_dlen := uint32_unpack (drop 4 buf2),
                                                  cd_dpos := hp_p e + 8 + word_of_nat (length key)\<rparr>)
                          else findnext_loop c1 key } })"
    by (subst findnext_loop.simps)
      (simp only: lt rd u nz c(2) Let_def bind.bind_lunit not_True_eq_False if_False c1_def [symmetric])
  show "if hp_h e = h \<and> fst ?r = key then search_result file (Some e) (findnext_loop c key) else findnext_loop c key = findnext_loop c1 key"
  proof (cases "hp_h e = h")
    case False
    then show ?thesis by (simp add: unf)
  next
    case h: True
    note g = good_stands [OF assms(4) [OF e h]]
    let ?hd = "uint32_pack (word_of_nat (length (fst ?r))) @ uint32_pack (word_of_nat (length (snd ?r)))"
    have rd2: "cdb_read c1 8 (hp_p e) = Some ?hd" using g(1) c1 by (intro stands_read) simp_all
    have p8: "unat (hp_p e + 8) = unat (hp_p e) + 8"
      using unat_plus [of "hp_p e" 8] g(2) assms(1) by (simp add: stands_def)
    have km: "key_match c1 key (hp_p e + 8) = Some (fst ?r = key)" if "length (fst ?r) = length key"
      using g(2) that c1 p8 assms(1) by (intro key_match_stands) simp_all
    have len1: "unat (word_of_nat (length (fst ?r)) :: u32) = length (fst ?r)" using g(4) by (rule unat_nat_32)
    show ?thesis
    proof (cases "hp_h e = h \<and> fst ?r = key")
      case True
      have "unat (hp_p e + 8 + word_of_nat (length key)) = unat (hp_p e) + 8 + length key"
        using unat_plus [of "hp_p e + 8" "length key"] p8 g(2) True assms(1) by (simp add: stands_def)
      moreover have "unat (word_of_nat (length (snd ?r)) :: u32) = length (snd ?r)" using g(5) by (simp add: unat_nat_32)
      ultimately have "cdb_read (c1\<lparr>cd_dlen := word_of_nat (length (snd ?r)), cd_dpos := hp_p e + 8 + word_of_nat (length key)\<rparr>)
          (unat (word_of_nat (length (snd ?r)) :: u32)) (hp_p e + 8 + word_of_nat (length key)) = Some (snd ?r)"
        using g(3) True c1 by (intro stands_read) simp_all
      with True km show ?thesis
        using len1 by (simp add: unf rd2 search_result_def c1)
    next
      case False
      have "findnext_loop c key = findnext_loop c1 key"
      proof (cases "hp_h e = h \<and> length (fst ?r) = length key")
        case True
        with False km have "key_match c1 key (hp_p e + 8) = Some False" by auto
        with True show ?thesis by (simp add: unf rd2 len1)
      next
        case f: False
        with len1 show ?thesis by (auto simp: unf rd2)
      qed
      with False show ?thesis by (simp only: if_False)
    qed
  qed
qed

lemma find_loop_search:
  assumes "length file < 2 ^ 32" "stands file (unat p) (table_bytes t)" "has_free t"
    "\<And>e. e \<in> set (path t s) \<Longrightarrow> hp_h e = h \<Longrightarrow> good_entry file e" "s < length t" "length key < 2 ^ 32"
  shows "searching file p t h s k c \<Longrightarrow> k \<le> run t s \<Longrightarrow>
    search_result file (find (\<lambda>e. hp_h e = h \<and> fst (rec_at file (unat (hp_p e))) = key) (drop k (path t s))) (findnext_loop c key)"
proof (induction "run t s - k" arbitrary: k c)
  case 0
  then have k: "k = run t s" by simp
  let ?n = "length t"
  note r = run_props [OF assms(3,5)]
  from 0(2) have c: "cd_map c = file" "unat (cd_hslots c) = ?n" "unat (cd_loop c) = k"
    "unat (cd_kpos c) = unat p + 8 * slot ?n s k" by (simp_all add: searching_def)
  have "slot ?n s k < ?n" using assms(5) by (intro slot_less) linarith
  from slot_stands [OF assms(2) this] c have "cdb_read c 8 (cd_kpos c) = Some (slot_bytes (t ! slot ?n s k))"
    by (intro stands_read) simp_all
  moreover have "uint32_unpack (drop 4 (slot_bytes (t ! slot ?n s k))) = 0"
    using r(2) k by (simp add: slot_bytes_def unpack_pack_32 hfree_def)
  moreover have "cd_loop c < cd_hslots c" using c k r(1) by (simp add: word_less_nat_alt)
  ultimately have "findnext_loop c key = Some (False, c)" by (subst findnext_loop.simps) simp
  moreover have "drop k (path t s) = []" by (simp add: path_def k)
  ultimately show ?case by (simp add: search_result_def)
next
  case (Suc d)
  then have k: "k < run t s" by simp
  let ?e = "t ! slot (length t) s k"
  have d: "drop k (path t s) = ?e # drop (Suc k) (path t s)"
    using k by (subst Cons_nth_drop_Suc [symmetric]) (simp_all add: path_def)
  obtain c1 where st: "searching file p t h s (Suc k) c1"
    "if hp_h ?e = h \<and> fst (rec_at file (unat (hp_p ?e))) = key
     then search_result file (Some ?e) (findnext_loop c key) else findnext_loop c key = findnext_loop c1 key"
    using find_loop_step [OF assms(1-5) Suc.prems(1) k assms(6)] by blast
  show ?case
  proof (cases "hp_h ?e = h \<and> fst (rec_at file (unat (hp_p ?e))) = key")
    case True
    with st(2) d show ?thesis by simp
  next
    case False
    with st(2) have "findnext_loop c key = findnext_loop c1 key" by (simp only: if_False)
    moreover have "d = run t s - Suc k" using Suc.hyps(2) by simp
    from Suc.hyps(1) [OF this st(1)] k have
      "search_result file (find (\<lambda>e. hp_h e = h \<and> fst (rec_at file (unat (hp_p e))) = key) (drop (Suc k) (path t s)))
         (findnext_loop c1 key)" by simp
    ultimately show ?thesis unfolding d find.simps if_not_P [OF False] by (simp only:)
  qed
qed

subsection \<open>A data base that was written\<close>

lemma fold_split_one: "fold split_one es b i = rev (filter (\<lambda>e. unat (255 AND hp_h e) = i) es) @ b i"
  by (induction es arbitrary: b) (simp_all add: split_one_def Let_def)

lemma split_hp_filter: "split_hp hs i = filter (\<lambda>e. unat (255 AND hp_h e) = i) (concat (rev hs))"
proof -
  have "fold (\<lambda>x b. fold split_one (rev x) b) hs b i = filter (\<lambda>e. unat (255 AND hp_h e) = i) (concat (rev hs)) @ b i" for b
    by (induction hs arbitrary: b) (simp_all add: fold_split_one rev_filter [symmetric])
  then show ?thesis by (simp add: split_hp_def)
qed

lemma find_map_same: "map f xs = ys \<Longrightarrow> find P ys = map_option f (find (P \<circ> f) xs)"
  by (induction xs arbitrary: ys) auto

lemma find_filter: "(\<And>x. P x \<Longrightarrow> Q x) \<Longrightarrow> find P (filter Q xs) = find P xs"
  by (induction xs) auto

lemma find_conj_filter: "find (\<lambda>x. Q x \<and> P x) xs = find P (filter Q xs)"
  by (induction xs) auto

lemma table_slot_0: "push_bit 3 u AND 2047 = push_bit 3 (255 AND u :: u32)"
proof -
  have m: "(2047 :: u32) = mask 11" "(255 :: u32) = mask 8" by (simp_all add: mask_eq_exp_minus_1)
  show ?thesis unfolding m by (rule bit_eqI) (auto simp: bit_simps)
qed

lemma unat_low_byte: "unat (255 AND u :: u32) < 256"
proof -
  have "(255 :: u32) = mask 8" by (simp add: mask_eq_exp_minus_1)
  then have "255 AND u = take_bit 8 u" by (simp add: take_bit_eq_mask and.commute)
  then show ?thesis using take_bit_nat_less_exp [of 8 "unat u"] by (simp add: unsigned_take_bit_eq)
qed

lemma search_result_map:
  "search_result file (find P es) res \<Longrightarrow>
     (case find P es of None \<Rightarrow> \<exists>c. res = Some (False, c)
      | Some e \<Rightarrow> \<exists>c. res = Some (True, c) \<and> cdb_read c (unat (cd_dlen c)) (cd_dpos c) = Some (snd (rec_at file (unat (hp_p e)))))"
  by (auto simp: search_result_def split: option.splits)

text \<open>The start of a search.\<close>

lemma findnext_start:
  assumes "length file < 2 ^ 32" "stands file (8 * unat (255 AND cdb_hash key)) (uint32_pack p @ uint32_pack (word_of_nat (length t)))"
    "stands file (unat p) (table_bytes t)" "t \<noteq> []" "cd_map c0 = file"
  shows "\<exists>c. cdb_find c0 key = findnext_loop c key
    \<and> searching file p t (cdb_hash key) (hstart t (cdb_hash key)) 0 c"
proof -
  let ?u = "cdb_hash key" and ?c = "cdb_findstart c0"
  let ?buf = "uint32_pack p @ uint32_pack (word_of_nat (length t))"
  have size: "unat p + 8 * length t \<le> length file" using assms(3) by (simp add: stands_def)
  have lt: "length t < 2 ^ 32" using size assms(1) by linarith
  have n: "unat (word_of_nat (length t) :: u32) = length t" using lt by (rule unat_nat_32)
  have "unat (push_bit 3 (255 AND ?u)) = 8 * unat (255 AND ?u)"
    using unat_low_byte [of ?u] by (simp add: push_bit_eq_mult unat_word_ariths)
  then have rd: "cdb_read ?c 8 (push_bit 3 ?u AND 2047) = Some ?buf"
    unfolding table_slot_0 using assms(2)
    by (intro stands_read) (simp_all add: cdb_findstart_def assms(5))
  have hs: "uint32_unpack (drop 4 ?buf) = word_of_nat (length t)" "uint32_unpack ?buf = p"
    by simp_all
  have nz: "(word_of_nat (length t) :: u32) \<noteq> 0" using n assms(4) by (metis length_0_conv unsigned_0)
  let ?q = "drop_bit 8 ?u mod word_of_nat (length t) :: u32"
  have q: "unat ?q = hstart t ?u" by (simp add: unat_mod_distrib n hstart_def)
  have ql: "hstart t ?u < length t" using assms(4) by (intro hstart_less) simp
  have "unat (push_bit 3 ?q) = 8 * hstart t ?u"
    using q ql size assms(1) by (simp add: push_bit_eq_mult unat_word_ariths)
  then have k: "unat (p + push_bit 3 ?q) = unat p + 8 * hstart t ?u"
    using ql size assms(1) by (simp add: unat_word_ariths)
  let ?c1 = "?c\<lparr>cd_hslots := word_of_nat (length t), cd_hpos := p, cd_khash := ?u, cd_kpos := p + push_bit 3 ?q\<rparr>"
  have "cd_loop ?c = 0" by (simp add: cdb_findstart_def)
  then have "cdb_find c0 key = findnext_loop ?c1 key"
    unfolding cdb_find_def cdb_findnext_def by (simp add: Let_def rd nz)
  moreover have "searching file p t ?u (hstart t ?u) 0 ?c1"
    using n k ql by (simp add: searching_def cdb_findstart_def assms(5))
  ultimately show ?thesis by blast
qed

lemma findnext_empty:
  assumes "stands file (8 * unat (255 AND cdb_hash key)) (uint32_pack p @ uint32_pack 0)" "cd_map c0 = file"
  shows "\<exists>c. cdb_find c0 key = Some (False, c)"
proof -
  have "unat (push_bit 3 (255 AND cdb_hash key)) = 8 * unat (255 AND cdb_hash key)"
    using unat_low_byte [of "cdb_hash key"] by (simp add: push_bit_eq_mult unat_word_ariths)
  then have "cdb_read (cdb_findstart c0) 8 (push_bit 3 (cdb_hash key) AND 2047) = Some (uint32_pack p @ uint32_pack 0)"
    unfolding table_slot_0 using assms(1) by (intro stands_read) (simp_all add: cdb_findstart_def assms(2))
  moreover have "cd_loop (cdb_findstart c0) = 0" by (simp add: cdb_findstart_def)
  ultimately show ?thesis unfolding cdb_find_def cdb_findnext_def by (simp add: Let_def)
qed

text \<open>What a file that was written holds.\<close>

lemma cdb_build_layout:
  assumes "cdb_build rs = Some file" "list_all small rs"
  shows "\<exists>es. length file < 2 ^ 32 \<and> map (\<lambda>e. rec_at file (unat (hp_p e))) es = rs \<and> list_all (good_entry file) es
    \<and> (\<forall>i < 256. \<exists>p t. stands file (8 * i) (uint32_pack p @ uint32_pack (word_of_nat (length t)))
         \<and> stands file (unat p) (table_bytes t)
         \<and> (let b = filter (\<lambda>e. unat (255 AND hp_h e) = i) es in fill_hash (fresh (length b + length b)) b = Some t))"
proof -
  from assms(1) obtain c0 fin c1 where c0: "cdb_add_all rs cdb_make_start = Some c0"
    and pt: "put_tables (split_hp (mk_head c0)) [0..<256] [] c0 = Some (fin, c1)" and "file": "file = fin @ mk_out c1"
    by (auto simp: cdb_build_def cdb_make_finish_def Let_def bind_eq_Some_conv split: if_splits)
  let ?R = "concat (map rec_bytes rs)" and ?es = "entries rs 2048"
  from add_all_step [OF c0 assms(2)] have a: "mk_out c0 = ?R" "concat (rev (mk_head c0)) = ?es"
    "unat (mk_pos c0) = 2048 + length ?R" by (simp_all add: cdb_make_start_def)
  from put_tables_step [OF pt] a(1,3) obtain tail where t: "length fin = 2048" "mk_out c1 = ?R @ tail"
    "unat (mk_pos c1) = 2048 + length (mk_out c1)"
    "\<forall>j < 256. \<exists>p t. stands fin (8 * j) (uint32_pack p @ uint32_pack (word_of_nat (length t)))
       \<and> fill_hash (fresh (length (split_hp (mk_head c0) j) + length (split_hp (mk_head c0) j))) (split_hp (mk_head c0) j) = Some t
       \<and> table_in (mk_out c1) p t"
    by auto
  have len: "length file < 2 ^ 32" using unat_32 [of "mk_pos c1"] t(1,3) "file" by simp
  have "file = fin @ ?R @ tail" using "file" t(2) by simp
  from entries_recs [OF assms(2) _ _ this] t(1) len this have es:
    "map (\<lambda>e. rec_at file (unat (hp_p e))) ?es = rs" "list_all (good_entry file) ?es" by simp_all
  have "\<exists>p t. stands file (8 * i) (uint32_pack p @ uint32_pack (word_of_nat (length t))) \<and> stands file (unat p) (table_bytes t)
      \<and> (let b = filter (\<lambda>e. unat (255 AND hp_h e) = i) ?es in fill_hash (fresh (length b + length b)) b = Some t)"
    if "i < 256" for i
  proof -
    from t(4) that obtain p tb where p: "stands fin (8 * i) (uint32_pack p @ uint32_pack (word_of_nat (length tb)))"
      "fill_hash (fresh (length (split_hp (mk_head c0) i) + length (split_hp (mk_head c0) i))) (split_hp (mk_head c0) i) = Some tb"
      "table_in (mk_out c1) p tb" by blast
    have "stands file (8 * i) (uint32_pack p @ uint32_pack (word_of_nat (length tb)))"
      unfolding "file" using p(1) by (rule stands_more)
    moreover have "stands file (unat p) (table_bytes tb)"
      using p(3) stands_shift [of "mk_out c1" "unat p - 2048" "table_bytes tb" fin] t(1) "file" by (simp add: table_in_def)
    moreover have "split_hp (mk_head c0) i = filter (\<lambda>e. unat (255 AND hp_h e) = i) ?es"
      by (simp add: split_hp_filter a(2))
    ultimately show ?thesis using p(2) by (auto simp: Let_def)
  qed
  with len es show ?thesis by blast
qed

lemma find_loop_cases:
  defines "next c \<equiv> c\<lparr>cd_loop := cd_loop c + 1, cd_kpos := (if cd_kpos c + 8 = cd_hpos c + push_bit 3 (cd_hslots c) then cd_hpos c else cd_kpos c + 8)\<rparr>"
  shows "findnext_loop c key = None \<or> findnext_loop c key = Some (False, c)
    \<or> (\<exists>d p. findnext_loop c key = Some (True, next c\<lparr>cd_dlen := d, cd_dpos := p\<rparr>))
    \<or> cd_loop c < cd_hslots c \<and> findnext_loop c key = findnext_loop (next c) key"
proof -
  have "findnext_loop c key = (if \<not> cd_loop c < cd_hslots c then Some (False, c)
      else do { buf \<leftarrow> cdb_read c 8 (cd_kpos c);
                let pos = uint32_unpack (drop 4 buf);
                if pos = 0 then Some (False, c)
                else if uint32_unpack buf \<noteq> cd_khash c then findnext_loop (next c) key
                else do { buf2 \<leftarrow> cdb_read (next c) 8 pos;
                          if unat (uint32_unpack buf2) \<noteq> length key then findnext_loop (next c) key
                          else do { m \<leftarrow> key_match (next c) key (pos + 8);
                                    if m then Some (True, next c\<lparr>cd_dlen := uint32_unpack (drop 4 buf2),
                                                            cd_dpos := pos + 8 + word_of_nat (length key)\<rparr>)
                                    else findnext_loop (next c) key } } })"
    by (subst findnext_loop.simps) (simp only: Let_def next_def)
  then show ?thesis by (auto simp: Let_def split: bind_splits)
qed

lemma find_loop_map: "findnext_loop c key = Some (b, c') \<Longrightarrow> cd_map c' = cd_map c"
proof (induction "unat (cd_hslots c) - unat (cd_loop c)" arbitrary: c rule: less_induct)
  case less
  from find_loop_cases [of c key] less(2) loop_step less(1) show ?case by force
qed

lemma cdb_find_map: "cdb_find c key = Some (b, c') \<Longrightarrow> cd_map c' = cd_map c"
  unfolding cdb_find_def cdb_findnext_def
  by (auto simp: Let_def cdb_findstart_def bind_eq_Some_conv split: if_split_asm dest!: find_loop_map)

lemma cdb_find_written:
  assumes "cdb_build rs = Some file" "list_all small rs" "length key < 2 ^ 32" "cd_map c0 = file"
  shows "case find (\<lambda>r. fst r = key) rs of
      None \<Rightarrow> \<exists>c. cdb_find c0 key = Some (False, c)
    | Some r \<Rightarrow> \<exists>c. cdb_find c0 key = Some (True, c)
        \<and> cdb_read c (unat (cd_dlen c)) (cd_dpos c) = Some (snd r)"
proof -
  let ?h = "cdb_hash key" and ?rec = "\<lambda>e. rec_at file (unat (hp_p e))"
  let ?P = "\<lambda>e. fst (?rec e) = key"
  from cdb_build_layout [OF assms(1,2)] obtain es where es: "length file < 2 ^ 32" "map ?rec es = rs"
    "list_all (good_entry file) es"
    "\<forall>i < 256. \<exists>p t. stands file (8 * i) (uint32_pack p @ uint32_pack (word_of_nat (length t)))
         \<and> stands file (unat p) (table_bytes t)
         \<and> (let b = filter (\<lambda>e. unat (255 AND hp_h e) = i) es in fill_hash (fresh (length b + length b)) b = Some t)"
    by blast
  define b where "b = filter (\<lambda>e. unat (255 AND hp_h e) = unat (255 AND ?h)) es"
  from es(4) unat_low_byte [of ?h] obtain p t where t: "stands file (8 * unat (255 AND ?h)) (uint32_pack p @ uint32_pack (word_of_nat (length t)))"
    "stands file (unat p) (table_bytes t)" "fill_hash (fresh (length b + length b)) b = Some t"
    by (auto simp: b_def Let_def)
  have key_hash: "hp_h e = ?h" if "e \<in> set es" "?P e" for e
    using es(3) that by (auto simp: list_all_iff good_entry_def Let_def)
  have found: "find (\<lambda>r. fst r = key) rs = map_option ?rec (find ?P (filter (\<lambda>e. hp_h e = ?h) b))"
  proof -
    have "filter (\<lambda>e. hp_h e = ?h) b = filter (\<lambda>e. hp_h e = ?h) es"
      by (auto simp: b_def intro: filter_cong)
    moreover have "find ?P (filter (\<lambda>e. hp_h e = ?h) es) = find ?P es"
      using key_hash by (induction es) auto
    ultimately show ?thesis using find_map_same [OF es(2), of "\<lambda>r. fst r = key"] by (simp add: comp_def)
  qed
  show ?thesis
  proof (cases "b = []")
    case True
    with t(3) have "t = []" by (simp add: fresh_def)
    with findnext_empty [OF _ assms(4)] t(1) have "\<exists>c. cdb_find c0 key = Some (False, c)" by simp
    with found True show ?thesis by simp
  next
    case False
    have "\<forall>e \<in> set b. hp_p e \<noteq> 0" using es(3) by (auto simp: b_def list_all_iff good_entry_def Let_def)
    from fill_hash_finds [OF this False] t(3) have f: "length t = length b + length b" "has_free t"
      "\<forall>h. filter (\<lambda>x. hp_h x = h) (path t (hstart t h)) = filter (\<lambda>x. hp_h x = h) b" by auto
    then have "t \<noteq> []" using False by auto
    from findnext_start [OF es(1) t(1,2) this assms(4)] obtain c where
      c: "cdb_find c0 key = findnext_loop c key" "searching file p t ?h (hstart t ?h) 0 c" by blast
    have good: "good_entry file e" if "e \<in> set (path t (hstart t ?h))" "hp_h e = ?h" for e
    proof -
      have "e \<in> set (filter (\<lambda>x. hp_h x = ?h) (path t (hstart t ?h)))" using that by simp
      then have "e \<in> set (filter (\<lambda>x. hp_h x = ?h) b)" using f(3) by metis
      with es(3) show ?thesis by (auto simp: b_def list_all_iff)
    qed
    have "hstart t ?h < length t" using \<open>t \<noteq> []\<close> by (intro hstart_less) simp
    from find_loop_search [OF es(1) t(2) f(2) good this assms(3) c(2)]
    have "search_result file (find ?P (filter (\<lambda>e. hp_h e = ?h) b)) (findnext_loop c key)"
      using f(3) by (simp add: find_conj_filter)
    from search_result_map [OF this] c(1) found show ?thesis by (auto split: option.splits)
  qed
qed

subsection \<open>Writing succeeds\<close>

lemma posplus_ok: "unat (mk_pos c) + unat len < 2 ^ 32 \<Longrightarrow> posplus c len = Some (c\<lparr>mk_pos := mk_pos c + len\<rparr>)
    \<and> unat (mk_pos c + len) = unat (mk_pos c) + unat len"
  by (auto simp: posplus_def Let_def word_less_nat_alt unat_word_ariths)

lemma add_ok:
  assumes "unat (mk_pos c) + length (rec_bytes (k, d)) < 2 ^ 32"
  shows "\<exists>c'. cdb_make_add c k d = Some c'"
proof -
  have u: "unat (word_of_nat (length k) :: u32) = length k" "unat (word_of_nat (length d) :: u32) = length d"
    using assms by (auto intro!: unat_nat_32 simp: rec_bytes_def)
  have *: "\<exists>c'. (do { c2 \<leftarrow> posplus c1 8; c3 \<leftarrow> posplus c2 (word_of_nat (length k)); posplus c3 (word_of_nat (length d)) }) = Some c'"
    if "mk_pos c1 = mk_pos c" for c1
    using that assms u posplus_ok [of c1 8]
      posplus_ok [of "c1\<lparr>mk_pos := mk_pos c + 8\<rparr>" "word_of_nat (length k)"]
      posplus_ok [of "c1\<lparr>mk_pos := mk_pos c + 8 + word_of_nat (length k)\<rparr>" "word_of_nat (length d)"]
    by (simp add: rec_bytes_def)
  show ?thesis
    unfolding cdb_make_add_def cdb_make_addend_def Let_def
    by (rule *) (simp add: buffer_putalign_def cdb_make_addbegin_def)
qed

lemma add_all_ok:
  "list_all small rs \<Longrightarrow> unat (mk_pos c) + length (concat (map rec_bytes rs)) < 2 ^ 32 \<Longrightarrow>
     \<exists>c'. cdb_add_all rs c = Some c' \<and> mk_numentries c' = mk_numentries c + length rs"
proof (induction rs arbitrary: c)
  case (Cons r rs)
  obtain k d where r: "r = (k, d)" by (cases r)
  with Cons.prems add_ok [of c k d] obtain c1 where c1: "cdb_make_add c k d = Some c1" by auto
  from add_step [OF c1] Cons.prems r have "unat (mk_pos c1) + length (concat (map rec_bytes rs)) < 2 ^ 32"
    "mk_numentries c1 = Suc (mk_numentries c)" "list_all small rs" by simp_all
  with Cons.IH [of c1] c1 r show ?case by auto
qed simp

lemma put_slots_ok: "unat (mk_pos c) + 8 * length es < 2 ^ 32 \<Longrightarrow> \<exists>c'. put_slots es c = Some c'"
proof (induction es arbitrary: c)
  case (Cons e es)
  let ?c = "buffer_putalign c (uint32_pack (hp_h e) @ uint32_pack (hp_p e))"
  have "mk_pos ?c = mk_pos c" by (simp add: buffer_putalign_def)
  with posplus_ok [of ?c 8] Cons.prems Cons.IH [of "?c\<lparr>mk_pos := mk_pos c + 8\<rparr>"] show ?case by auto
qed simp

lemma put_tables_ok:
  "\<forall>i \<in> set is. \<forall>e \<in> set (sp i). hp_p e \<noteq> 0 \<Longrightarrow> unat (mk_pos c) + 16 * sum_list (map (\<lambda>i. length (sp i)) is) < 2 ^ 32 \<Longrightarrow>
     \<exists>r. put_tables sp is fin c = Some r"
proof (induction "is" arbitrary: fin c)
  case (Cons i "is")
  let ?len = "length (sp i) + length (sp i)"
  obtain t where t: "fill_hash (fresh ?len) (sp i) = Some t" "length t = ?len"
    using fill_hash_finds [of "sp i"] Cons.prems(1) by (cases "sp i = []") (auto simp: fresh_def)
  with put_slots_ok [of c t] Cons.prems(2) obtain c1 where c1: "put_slots t c = Some c1" by auto
  from put_slots_step [OF c1] t(2) Cons.prems(2) have "unat (mk_pos c1) + 16 * sum_list (map (\<lambda>i. length (sp i)) is) < 2 ^ 32"
    by simp
  with Cons.IH [of c1] Cons.prems(1) t c1 show ?case by (simp add: Let_def fresh_def)
qed simp

lemma sum_filters: "(\<And>e. f e < n) \<Longrightarrow> sum_list (map (\<lambda>i. length (filter (\<lambda>e. f e = i) es)) [0..<n]) = length es"
proof (induction es)
  case (Cons e es)
  have "sum_list (map (\<lambda>i. length (filter (\<lambda>e. f e = i) (e # es))) [0..<n])
      = sum_list (map (\<lambda>i. (if f e = i then 1 else 0) + length (filter (\<lambda>e. f e = i) es)) [0..<n])"
    by (intro arg_cong [where f = sum_list] map_cong) auto
  also have "\<dots> = sum_list (map (\<lambda>i. if f e = i then 1 else 0) [0..<n]) + length es"
    using Cons by (simp add: sum_list_addf)
  also have "sum_list (map (\<lambda>i. if f e = i then 1 else 0) [0..<n]) = (1 :: nat)"
    using Cons.prems [of e] by (simp add: interv_sum_list_conv_sum_set_nat)
  finally show ?case by simp
qed simp

lemma fold_max_le: "(\<And>i. g i \<le> m) \<Longrightarrow> a \<le> m \<Longrightarrow> fold (\<lambda>i b. max b (g i)) is a \<le> (m :: nat)"
  by (induction "is" arbitrary: a) auto

lemma cdb_build_ok:
  assumes "list_all small rs" "2048 + length (concat (map rec_bytes rs)) + 16 * length rs < 2 ^ 32"
  shows "\<exists>file. cdb_build rs = Some file"
proof -
  have p: "unat (mk_pos cdb_make_start) = 2048" "mk_numentries cdb_make_start = 0" by (simp_all add: cdb_make_start_def)
  from add_all_ok [OF assms(1), of cdb_make_start] p assms(2) obtain c0 where
    c0: "cdb_add_all rs cdb_make_start = Some c0" "mk_numentries c0 = length rs" by auto
  let ?es = "entries rs 2048" and ?sp = "split_hp (mk_head c0)"
  from add_all_step [OF c0(1) assms(1)] have a: "concat (rev (mk_head c0)) = ?es"
    "unat (mk_pos c0) = 2048 + length (concat (map rec_bytes rs))" by (simp_all add: cdb_make_start_def)
  have le: "length (entries rs q) = length rs" for q by (induction rs arbitrary: q) simp_all
  have sp: "?sp i = filter (\<lambda>e. unat (255 AND hp_h e) = i) ?es" for i by (simp add: split_hp_filter a(1))
  have len: "8 * length rs \<le> length (concat (map rec_bytes rs))"
    by (induction rs) (simp_all add: rec_bytes_def)
  have l2: "length (?sp i) * 2 \<le> max 1 (length rs * 2)" for i
    using length_filter_le [of "\<lambda>e. unat (255 AND hp_h e) = i" ?es] by (simp add: sp le)
  have "fold (\<lambda>i m. max m (length (?sp i) * 2)) [0..<256] 1 \<le> max 1 (length rs * 2)"
    by (rule fold_max_le [OF l2]) simp
  then have m: "\<not> memsize c0 ?sp > 0xffffffff div 8"
    using c0(2) assms(2) len by (simp add: memsize_def)
  have nz: "\<forall>e \<in> set ?es. hp_p e \<noteq> 0"
    using entries_recs [OF assms(1), of "replicate 2048 0" _ "[]"] assms(2)
    by (auto simp: list_all_iff good_entry_def Let_def)
  have "sum_list (map (\<lambda>i. length (?sp i)) [0..<256]) = length rs"
    using sum_filters [of "\<lambda>e. unat (255 AND hp_h e)" 256 ?es] unat_low_byte by (simp add: sp le)
  with put_tables_ok [of "[0..<256]" ?sp c0 "[]"] nz a(2) assms(2) obtain fin c1 where
    "put_tables ?sp [0..<256] [] c0 = Some (fin, c1)" by (auto simp: sp)
  with m c0(1) show ?thesis by (simp add: cdb_build_def cdb_make_finish_def Let_def)
qed

text \<open>C10. Records that fit into \<open>2 ^ 32\<close> bytes with their tables can be written, and looking a key up in the file
  gives the data of the first record that was added with this key, and nothing when there is none:
  collisions, tables that wrap around and several records of a key included.\<close>

theorem cdb_build_find:
  assumes "list_all small rs" "2048 + length (concat (map rec_bytes rs)) + 16 * length rs < 2 ^ 32"
  shows "\<exists>file. cdb_build rs = Some file \<and> (\<forall>key. length key < 2 ^ 32 \<longrightarrow>
    (case find (\<lambda>r. fst r = key) rs of
       None \<Rightarrow> \<exists>c. cdb_find (cdb_init file) key = Some (False, c)
     | Some r \<Rightarrow> \<exists>c. cdb_find (cdb_init file) key = Some (True, c)
         \<and> cdb_read c (unat (cd_dlen c)) (cd_dpos c) = Some (snd r)))"
proof -
  from cdb_build_ok [OF assms] obtain f where f: "cdb_build rs = Some f" by blast
  then show ?thesis using cdb_find_written [OF f assms(1), where ?c0.0 = "cdb_init f"] by (auto simp: cdb_init_def)
qed

theorem cdb_build_find_witness:
  "\<exists>file c d. cdb_build [([49, 50], [68]), ([49, 50], [43]), ([], [])] = Some file
     \<and> cdb_find (cdb_init file) [49, 50] = Some (True, c) \<and> cdb_read c (unat (cd_dlen c)) (cd_dpos c) = Some [68]
     \<and> cdb_find (cdb_init file) [51] = Some (False, d)"
proof -
  let ?rs = "[([49, 50], [68]), ([49, 50], [43]), ([], [])] :: (byte list \<times> byte list) list"
  have h: "list_all small ?rs" "2048 + length (concat (map rec_bytes ?rs)) + 16 * length ?rs < 2 ^ 32"
    by (simp_all add: small_def rec_bytes_def)
  from cdb_build_find [OF h] obtain f where f: "cdb_build ?rs = Some f" and
    l: "\<And>key. length key < 2 ^ 32 \<Longrightarrow> (case find (\<lambda>r. fst r = key) ?rs of
       None \<Rightarrow> \<exists>c. cdb_find (cdb_init f) key = Some (False, c)
     | Some r \<Rightarrow> \<exists>c. cdb_find (cdb_init f) key = Some (True, c)
         \<and> cdb_read c (unat (cd_dlen c)) (cd_dpos c) = Some (snd r))" by blast
  from l [of "[49, 50]"] l [of "[51]"] f show ?thesis by auto
qed

end
