(* ===== verification/Bytes.thy ===== *)
theory Bytes
  imports Overview
begin

text \<open>
  Byte strings, numbers and addresses of ucspi-tcp-0.88: \<^verbatim>\<open>byte_*.c\<close>, \<^verbatim>\<open>str_*.c\<close>, \<^verbatim>\<open>case_diff*.c\<close>,
  \<^verbatim>\<open>fmt_ulong.c\<close>, \<^verbatim>\<open>scan_ulong.c\<close>, \<^verbatim>\<open>ip4_fmt.c\<close>, \<^verbatim>\<open>ip4_scan.c\<close>.

  The loops of the source do four steps in a turn; a step is an equation here.  A \<open>byte_\<close> function takes the
  bytes it may look at, a \<open>str_\<close> function the characters before the NUL.  \<open>unsigned long\<close> has 32 bits.
\<close>

subsection \<open>Searching and comparing\<close>

fun byte_chr :: "cstr \<Rightarrow> char \<Rightarrow> nat" where
  "byte_chr [] ch = 0"
| "byte_chr (c # s) ch = (if c = ch then 0 else Suc (byte_chr s ch))"

text \<open>The last position seen so far is \<open>u\<close>, the length if there is none.\<close>

fun rchr_loop :: "cstr \<Rightarrow> char \<Rightarrow> nat \<Rightarrow> nat option \<Rightarrow> nat" where
  "rchr_loop [] ch t u = (case u of None \<Rightarrow> t | Some i \<Rightarrow> i)"
| "rchr_loop (c # s) ch t u = rchr_loop s ch (Suc t) (if c = ch then Some t else u)"

definition byte_rchr :: "cstr \<Rightarrow> char \<Rightarrow> nat" where
  "byte_rchr s ch = rchr_loop s ch 0 None"

fun byte_diff :: "cstr \<Rightarrow> cstr \<Rightarrow> int" where
  "byte_diff (a # s) (b # t) = (if a \<noteq> b then int (of_char a) - int (of_char b) else byte_diff s t)"
| "byte_diff _ _ = 0"

fun str_chr :: "cstr \<Rightarrow> char \<Rightarrow> nat" where
  "str_chr [] ch = 0"
| "str_chr (c # s) ch = (if c = ch then 0 else Suc (str_chr s ch))"

fun str_diff :: "cstr \<Rightarrow> cstr \<Rightarrow> int" where
  "str_diff [] [] = 0"
| "str_diff [] (b # t) = 0 - int (of_char b)"
| "str_diff (a # s) [] = int (of_char a)"
| "str_diff (a # s) (b # t) = (if a \<noteq> b then int (of_char a) - int (of_char b) else str_diff s t)"

fun str_len :: "cstr \<Rightarrow> nat" where
  "str_len [] = 0"
| "str_len (c # s) = Suc (str_len s)"

fun str_start :: "cstr \<Rightarrow> cstr \<Rightarrow> bool" where
  "str_start s [] = True"
| "str_start [] (x # t) = False"
| "str_start (c # s) (x # t) = (if x \<noteq> c then False else str_start s t)"

definition case_fold :: "byte \<Rightarrow> byte" where
  "case_fold b = (let x = b - 65 in if x \<le> 25 then x + 97 else x + 65)"

fun case_diffb :: "cstr \<Rightarrow> cstr \<Rightarrow> int" where
  "case_diffb (a # s) (b # t) =
     (let x = case_fold (byte_of a); y = case_fold (byte_of b)
      in if x \<noteq> y then int (unat x) - int (unat y) else case_diffb s t)"
| "case_diffb _ _ = 0"

text \<open>With the NUL at the end of both strings.\<close>

fun case_diffs :: "cstr \<Rightarrow> cstr \<Rightarrow> int" where
  "case_diffs [] [] = 0"
| "case_diffs [] (b # t) = int (unat (case_fold 0)) - int (unat (case_fold (byte_of b)))"
| "case_diffs (a # s) [] = int (unat (case_fold (byte_of a))) - int (unat (case_fold 0))"
| "case_diffs (a # s) (b # t) =
     (let x = case_fold (byte_of a); y = case_fold (byte_of b)
      in if x \<noteq> y then int (unat x) - int (unat y) else case_diffs s t)"

definition case_equals :: "cstr \<Rightarrow> cstr \<Rightarrow> bool" where
  "case_equals s t \<longleftrightarrow> case_diffs s t = 0"

subsection \<open>Numbers\<close>

function fmt_loop :: "nat \<Rightarrow> cstr \<Rightarrow> cstr" where
  "fmt_loop u s = (let s' = char_of (48 + u mod 10) # s in if u div 10 = 0 then s' else fmt_loop (u div 10) s')"
  by pat_completeness auto

termination by (relation "measure fst") auto

declare fmt_loop.simps [simp del]

text \<open>The count of the digits, and the digits from the end.\<close>

function fmt_len :: "nat \<Rightarrow> nat \<Rightarrow> nat" where
  "fmt_len len q = (if 9 < q then fmt_len (Suc len) (q div 10) else len)"
  by pat_completeness auto

termination by (relation "measure snd") auto

declare fmt_len.simps [simp del]

definition fmt_ulong :: "u32 \<Rightarrow> cstr" where
  "fmt_ulong u = fmt_loop (unat u) []"

definition digit_of :: "char \<Rightarrow> u32" where
  "digit_of c = ucast (byte_of c - 48)"

fun scan_loop :: "cstr \<Rightarrow> nat \<Rightarrow> u32 \<Rightarrow> nat \<times> u32" where
  "scan_loop [] pos result = (pos, result)"
| "scan_loop (c # s) pos result =
     (if digit_of c < 10 then scan_loop s (Suc pos) (result * 10 + digit_of c) else (pos, result))"

definition scan_ulong :: "cstr \<Rightarrow> nat \<times> u32" where
  "scan_ulong s = scan_loop s 0 0"

subsection \<open>Addresses\<close>

definition ip4_fmt :: "byte \<times> byte \<times> byte \<times> byte \<Rightarrow> cstr" where
  "ip4_fmt ip = (case ip of (a, b, c, d) \<Rightarrow>
     fmt_ulong (ucast a) @ ''.'' @ fmt_ulong (ucast b) @ ''.'' @ fmt_ulong (ucast c) @ ''.'' @ fmt_ulong (ucast d))"

text \<open>A number and what follows it; \<open>None\<close> is the result 0.\<close>

definition ip4_part :: "cstr \<Rightarrow> (byte \<times> cstr) option" where
  "ip4_part s = (let (i, u) = scan_ulong s in if i = 0 then None else Some (ucast u, drop i s))"

definition ip4_dot :: "cstr \<Rightarrow> cstr option" where
  "ip4_dot s = (case s of [] \<Rightarrow> None | c # r \<Rightarrow> if c \<noteq> CHR ''.'' then None else Some r)"

definition ip4_scan :: "cstr \<Rightarrow> (nat \<times> (byte \<times> byte \<times> byte \<times> byte)) option" where
  "ip4_scan s =
     do { (a, s1) \<leftarrow> ip4_part s; t1 \<leftarrow> ip4_dot s1;
          (b, s2) \<leftarrow> ip4_part t1; t2 \<leftarrow> ip4_dot s2;
          (c, s3) \<leftarrow> ip4_part t2; t3 \<leftarrow> ip4_dot s3;
          (d, s4) \<leftarrow> ip4_part t3;
          Some (length s - length s4, (a, b, c, d)) }"

subsection \<open>Properties\<close>

lemma byte_chr_takeWhile: "byte_chr s ch = length (takeWhile (\<lambda>c. c \<noteq> ch) s)"
  by (induction s) auto

lemma str_chr_byte_chr: "str_chr s ch = byte_chr s ch"
  by (induction s) auto

lemma rchr_loop_none: "ch \<notin> set s \<Longrightarrow> rchr_loop s ch t u = (case u of None \<Rightarrow> t + length s | Some i \<Rightarrow> i)"
  by (induction s arbitrary: t) (auto split: option.splits)

lemma rchr_loop_append: "rchr_loop (s @ ch # r) ch t u = rchr_loop r ch (Suc (t + length s)) (Some (t + length s))"
  by (induction s arbitrary: t u) auto

lemma byte_rchr_split: "ch \<notin> set r \<Longrightarrow> byte_rchr (s @ ch # r) ch = length s"
  by (simp add: byte_rchr_def rchr_loop_append rchr_loop_none)

lemma byte_rchr_none: "ch \<notin> set s \<Longrightarrow> byte_rchr s ch = length s"
  by (simp add: byte_rchr_def rchr_loop_none)

lemma byte_rchr_le: "byte_rchr s ch \<le> length s"
proof (cases "ch \<in> set s")
  case True
  then obtain a r where "s = a @ ch # r" "ch \<notin> set r" by (meson split_list_last)
  then show ?thesis by (simp add: byte_rchr_split)
qed (simp add: byte_rchr_none)

lemma byte_chr_split: "ch \<notin> set s \<Longrightarrow> byte_chr (s @ ch # r) ch = length s"
  by (induction s) auto

lemma byte_chr_none: "ch \<notin> set s \<Longrightarrow> byte_chr s ch = length s"
  by (induction s) auto

lemma byte_chr_le: "byte_chr s ch \<le> length s"
  by (induction s) auto

lemma byte_chr_eq_length: "byte_chr s ch = length s \<longleftrightarrow> ch \<notin> set s"
  by (induction s) auto

lemma of_char_pos: "NUL \<noteq> c \<Longrightarrow> 0 < (of_char c :: nat)"
  using of_char_eq_iff [of c NUL, where 'a = nat] by (auto simp del: of_char_eq_iff)

lemma byte_diff_eq: "length s = length t \<Longrightarrow> byte_diff s t = 0 \<longleftrightarrow> s = t"
  by (induction s t rule: list_induct2) auto

lemma str_diff_eq: "proper s \<Longrightarrow> proper t \<Longrightarrow> str_diff s t = 0 \<longleftrightarrow> s = t"
  by (induction s t rule: str_diff.induct) (auto simp: proper_def of_char_pos)

lemma str_start_prefix: "str_start s t \<longleftrightarrow> (\<exists>r. s = t @ r)"
  by (induction s t rule: str_start.induct) auto

lemma fmt_loop_dec: "fmt_loop u s = dec_nat u @ s"
proof (induction u s rule: fmt_loop.induct)
  case (1 u s)
  then show ?case
    by (subst fmt_loop.simps, subst dec_nat.simps) (auto simp: Let_def)
qed

lemma fmt_ulong_dec: "fmt_ulong u = dec_nat (unat u)"
  by (simp add: fmt_ulong_def fmt_loop_dec)

lemma fmt_len_dec: "fmt_len len q = len - 1 + length (dec_nat q)" if "0 < len"
  using that
proof (induction len q rule: fmt_len.induct)
  case (1 len q)
  then show ?case by (subst fmt_len.simps, subst dec_nat.simps) auto
qed

lemma fmt_len_ulong: "fmt_len 1 (unat u) = length (fmt_ulong u)"
  by (simp add: fmt_len_dec fmt_ulong_dec)

lemma unat_digit_of: "unat (digit_of c) = (of_char c + 208) mod 256"
proof -
  have "byte_of c - 48 = (word_of_nat (of_char c + 208) :: byte)" by (simp add: byte_of_def)
  then have "unat (byte_of c - 48) = (of_char c + 208) mod 256" by (simp only: unat_of_nat) simp
  then show ?thesis by (simp add: digit_of_def unsigned_ucast_eq take_bit_eq_mod)
qed

lemma digit_of_cisdigit: "digit_of c < 10 \<longleftrightarrow> cisdigit c"
proof -
  have "(n + 208) mod 256 < (10 :: nat) \<longleftrightarrow> 48 \<le> n \<and> n \<le> 57" if "n < 256" for n
  proof (cases "n < 48")
    case False
    have "(n + 208) mod 256 = (n - 48 + 256) mod 256" by (rule arg_cong [of _ _ "\<lambda>k. k mod 256"]) (use False in simp)
    also have "\<dots> = n - 48" using that by (simp only: mod_add_self2) simp
    finally show ?thesis using False by auto
  qed simp
  from this [of "of_char c"] show ?thesis
    using of_char_less_256 [of c] by (simp add: word_less_nat_alt unat_digit_of cisdigit_def)
qed

lemma digit_of_dec: "d < 10 \<Longrightarrow> digit_of (char_of (48 + d)) = word_of_nat d"
  by (rule word_unat_eq_iff [THEN iffD2]) (simp add: unat_digit_of of_char_mod_256 unat_of_nat)

lemma digit_of_dec_less: "(d :: nat) < 10 \<Longrightarrow> digit_of (char_of (48 + d)) < 10"
  by (simp add: digit_of_cisdigit cisdigit_def of_char_mod_256)

lemma scan_loop_dec:
  "scan_loop (dec_nat n @ r) pos x = scan_loop r (pos + length (dec_nat n)) (x * 10 ^ length (dec_nat n) + word_of_nat n)"
proof (induction n arbitrary: r pos x rule: dec_nat.induct)
  case (1 n)
  show ?case
  proof (cases "n < 10")
    case True
    with digit_of_dec_less [OF True] show ?thesis by (simp add: dec_nat.simps [of n] digit_of_dec)
  next
    case False
    have "(word_of_nat n :: u32) = word_of_nat (n div 10 * 10 + n mod 10)" by simp
    then have "(word_of_nat n :: u32) = word_of_nat (n div 10) * 10 + word_of_nat (n mod 10)"
      by (simp only: of_nat_add of_nat_mult of_nat_numeral)
    moreover have "digit_of (char_of (48 + n mod 10)) < 10" by (rule digit_of_dec_less) simp
    ultimately show ?thesis using False 1
      by (simp add: dec_nat.simps [of n] digit_of_dec algebra_simps)
  qed
qed

lemma scan_ulong_dec:
  assumes "n < 2 ^ 32" "case r of [] \<Rightarrow> True | c # _ \<Rightarrow> \<not> cisdigit c"
  shows "scan_ulong (dec_nat n @ r) = (length (dec_nat n), word_of_nat n)"
  using assms by (auto simp: scan_ulong_def scan_loop_dec digit_of_cisdigit split: list.splits)

lemma unat_byte_less: "unat (b :: byte) < 256"
  using unsigned_less [of b] by simp

lemma unat_byte_wide: "unat (ucast (b :: byte) :: u32) = unat b"
  using unat_byte_less [of b] by (simp add: unsigned_ucast_eq take_bit_eq_mod)

lemma ucast_byte_wide: "ucast (ucast (b :: byte) :: u32) = b"
proof (rule word_unat_eq_iff [THEN iffD2])
  have "unat (ucast (ucast b :: u32) :: byte) = take_bit 8 (unat (ucast b :: u32))"
    by (subst unsigned_ucast_eq) (simp add: unsigned_ucast_eq take_bit_eq_mod)
  then show "unat (ucast (ucast b :: u32) :: byte) = unat b"
    using unat_byte_less [of b] by (simp only: unat_byte_wide) (simp add: take_bit_eq_mod)
qed

lemma ip4_part_fmt:
  assumes "case r of [] \<Rightarrow> True | c # _ \<Rightarrow> \<not> cisdigit c"
  shows "ip4_part (fmt_ulong (ucast (b :: byte)) @ r) = Some (b, r)"
  using assms unat_byte_less [of b]
  by (simp add: ip4_part_def fmt_ulong_dec unat_byte_wide scan_ulong_dec ucast_byte_wide)

lemma ip4_dot_eq [simp]: "ip4_dot (CHR ''.'' # r) = Some r"
  by (simp add: ip4_dot_def)

text \<open>Scanning what \<open>ip4_fmt\<close> wrote gives the address back and stops behind it, whatever follows that is not a
  digit; the text has at most 15 characters, within the 20 of \<open>IP4_FMT\<close>.\<close>

theorem ip4_scan_fmt:
  assumes "case r of [] \<Rightarrow> True | c # _ \<Rightarrow> \<not> cisdigit c"
  shows "ip4_scan (ip4_fmt ip @ r) = Some (length (ip4_fmt ip), ip) \<and> length (ip4_fmt ip) \<le> 15"
proof -
  obtain a b c d where ip: "ip = (a, b, c, d)" by (cases ip)
  have dot: "\<not> cisdigit CHR ''.''" by (simp add: cisdigit_def)
  have len: "length (fmt_ulong (ucast (x :: byte))) \<le> 3" for x
    unfolding fmt_ulong_dec unat_byte_wide using unat_byte_less [of x] by (intro dec_nat_length) simp_all
  have "ip4_scan (ip4_fmt ip @ r) = Some (length (ip4_fmt ip), ip)"
    using assms by (simp add: ip ip4_scan_def ip4_fmt_def ip4_part_fmt dot)
  then show ?thesis using len [of a] len [of b] len [of c] len [of d] by (simp add: ip ip4_fmt_def)
qed

theorem ip4_scan_fmt_witness: "ip4_scan (ip4_fmt (192, 168, 0, 255) @ ''/8'') = Some (13, (192, 168, 0, 255))"
proof -
  have "length (ip4_fmt (192, 168, 0, 255)) = 13"
    by (simp add: ip4_fmt_def fmt_ulong_dec dec_nat.simps)
  then show ?thesis using ip4_scan_fmt [of "''/8''" "(192, 168, 0, 255)"] by (simp add: cisdigit_def)
qed

end
