(* ===== verification/Rules.thy ===== *)
theory Rules
  imports CdbLookup Bytes
begin

text \<open>
  The rules of tcpserver in ucspi-tcp-0.88: \<^verbatim>\<open>tcprules.c\<close>, which compiles a text into a constant data base,
  \<^verbatim>\<open>rules.c\<close>, which asks it under one name after the other, and \<^verbatim>\<open>tcprulescheck.c\<close>, which prints the rule
  of a connection.

  Names and texts are character lists, and the bytes of the data base are their codes.  Memory suffices and
  the operating system opens, writes and renames the files.
\<close>

definition bytes :: "cstr \<Rightarrow> byte list" where
  "bytes s = map byte_of s"

definition chars :: "byte list \<Rightarrow> cstr" where
  "chars bs = map char_of_byte bs"

subsection \<open>Asking: rules.c\<close>

text \<open>The result: \<open>None\<close> is -1, \<open>Some (None, _)\<close> is 0, and 1 is the name and the data that the callback gets.\<close>

type_synonym rules_answer = "((cstr \<times> cstr) option \<times> cdb) option"

definition dorule :: "cstr \<Rightarrow> cdb \<Rightarrow> rules_answer" where
  "dorule rules_name c =
     do { (found, c1) \<leftarrow> cdb_find c (bytes rules_name);
          if \<not> found then Some (None, c1)
          else do { data \<leftarrow> cdb_read c1 (unat (cd_dlen c1)) (cd_dpos c1); Some (Some (rules_name, chars data), c1) } }"

text \<open>\<open>r = dorule(callback); if (r) return r;\<close> and what follows.\<close>

definition or_rule :: "rules_answer \<Rightarrow> (cdb \<Rightarrow> rules_answer) \<Rightarrow> rules_answer" where
  "or_rule r k = do { (a, c) \<leftarrow> r; if a \<noteq> None then Some (a, c) else k c }"

text \<open>The beginnings of the address that end with a dot, the longest first; \<open>len\<close> is \<open>rules_name.len\<close>.\<close>

fun ip_loop :: "cstr \<Rightarrow> nat \<Rightarrow> cdb \<Rightarrow> rules_answer" where
  "ip_loop ip 0 c = Some (None, c)"
| "ip_loop ip (Suc n) c =
     (if ip ! n = CHR ''.'' then or_rule (dorule (take (Suc n) ip) c) (ip_loop ip n) else ip_loop ip n c)"

text \<open>The ends of the host name that begin with a dot.\<close>

fun host_loop :: "cstr \<Rightarrow> cdb \<Rightarrow> rules_answer" where
  "host_loop [] c = Some (None, c)"
| "host_loop (h # host) c =
     (if h = CHR ''.'' then or_rule (dorule (CHR ''='' # h # host) c) (host_loop host) else host_loop host c)"

definition doit :: "cstr \<Rightarrow> cstr option \<Rightarrow> cstr option \<Rightarrow> cdb \<Rightarrow> rules_answer" where
  "doit ip host info c =
     or_rule
       (case info of None \<Rightarrow> Some (None, c)
        | Some i \<Rightarrow> or_rule (dorule (i @ ''@'' @ ip) c) (\<lambda>c.
            case host of None \<Rightarrow> Some (None, c) | Some h \<Rightarrow> dorule (i @ ''@='' @ h) c)) (\<lambda>c.
     or_rule (dorule ip c) (\<lambda>c.
     or_rule (case host of None \<Rightarrow> Some (None, c) | Some h \<Rightarrow> dorule (''='' @ h) c) (\<lambda>c.
     or_rule (ip_loop ip (length ip) c) (\<lambda>c.
     or_rule
       (case host of None \<Rightarrow> Some (None, c)
        | Some h \<Rightarrow> or_rule (host_loop h c) (dorule ''='')) (dorule [])))))"

definition rules :: "byte list \<Rightarrow> cstr \<Rightarrow> cstr option \<Rightarrow> cstr option \<Rightarrow> (cstr \<times> cstr) option option" where
  "rules fd ip host info = map_option fst (doit ip host info (cdb_init fd))"

subsection \<open>Printing: tcprulescheck.c\<close>

text \<open>The loop of \<open>found\<close>: the output and whether it ended with the denial.\<close>

function found_loop :: "cstr \<Rightarrow> cstr" where
  "found_loop data =
     (let next0 = byte_chr data NUL in
      if next0 < length data then
        (if hd data = CHR ''D'' then ''deny connection'' @ [LF]
         else (if hd data = CHR ''+'' then ''set environment variable '' @ take (next0 - 1) (tl data) @ [LF] else [])
              @ found_loop (drop (Suc next0) data))
      else ''allow connection'' @ [LF])"
  by pat_completeness auto

termination
  by (relation "measure length") (auto simp: Let_def)

declare found_loop.simps [simp del]

definition found_text :: "cstr \<Rightarrow> cstr \<Rightarrow> cstr" where
  "found_text rules_name data = ''rule '' @ rules_name @ '':'' @ [LF] @ found_loop data"

text \<open>What the program prints; \<open>None\<close> is \<open>unable to read\<close>.\<close>

definition tcprulescheck :: "byte list \<Rightarrow> cstr option \<Rightarrow> cstr option \<Rightarrow> cstr option \<Rightarrow> cstr option" where
  "tcprulescheck fd ip host info =
     map_option (\<lambda>r. case r of None \<Rightarrow> ''default:'' @ [LF] @ ''allow connection'' @ [LF]
                            | Some (name, data) \<Rightarrow> found_text name data)
       (rules fd (case ip of None \<Rightarrow> ''0.0.0.0'' | Some i \<Rightarrow> i) host info)"

subsection \<open>Compiling: tcprules.c\<close>

datatype die = die_bad cstr | die_write

text \<open>\<open>getnum\<close> accepts when the scan stops at the NUL.\<close>

definition getnum :: "cstr \<Rightarrow> u32 option" where
  "getnum buf = (let sanum = buf @ [NUL]; (pos, u) = scan_ulong sanum
                 in if sanum ! pos \<noteq> NUL then None else Some u)"

text \<open>The loop over the numbers of a range; \<open>top\<close> is at most 255, so \<open>++bot\<close> does not wrap.\<close>

function range_loop :: "cstr \<Rightarrow> cstr \<Rightarrow> nat \<Rightarrow> nat \<Rightarrow> byte list \<Rightarrow> cdb_make \<Rightarrow> cdb_make option" where
  "range_loop left right bt tp data c =
     (if bt \<le> tp then
        do { c1 \<leftarrow> cdb_make_add c (bytes (left @ fmt_ulong (word_of_nat bt) @ right)) data;
             range_loop left right (Suc bt) tp data c1 }
      else Some c)"
  by pat_completeness auto

termination by (relation "measure (\<lambda>(_, _, bt, tp, _). Suc tp - bt)") auto

declare range_loop.simps [simp del]

definition written :: "cdb_make option \<Rightarrow> die + cdb_make" where
  "written r = (case r of None \<Rightarrow> Inl die_write | Some c \<Rightarrow> Inr c)"

definition doaddressdata :: "cstr \<Rightarrow> cstr \<Rightarrow> cstr \<Rightarrow> cdb_make \<Rightarrow> die + cdb_make" where
  "doaddressdata line address data c =
     (let i = byte_chr address (CHR ''-'') in
      if byte_chr address (CHR ''='') = length address \<and> byte_chr address (CHR ''@'') = length address
         \<and> i < length address then
        (let d = byte_rchr (take i address) (CHR ''.'');
             left = (if d = i then 0 else Suc d);
             right = Suc i + byte_chr (drop (Suc i) address) (CHR ''.'')
         in case getnum (take (i - left) (drop left address)) of
              None \<Rightarrow> Inl (die_bad line)
            | Some bt \<Rightarrow>
                (case getnum (take (right - Suc i) (drop (Suc i) address)) of
                   None \<Rightarrow> Inl (die_bad line)
                 | Some tp \<Rightarrow>
                     written (range_loop (take left address) (drop right address) (unat bt)
                                (unat (if tp > 255 then 255 else tp)) (bytes data) c)))
      else written (cdb_make_add c (bytes address) (bytes data)))"
text \<open>Lines: \<open>getln_text\<close> on the text that is left gives the line, the rest and \<open>match\<close>.\<close>

definition getln_text :: "cstr \<Rightarrow> cstr \<times> cstr \<times> bool" where
  "getln_text s = (let i = byte_chr s LF in
     if i < length s then (take (Suc i) s, drop (Suc i) s, True) else (s, [], False))"

fun strip_len :: "cstr \<Rightarrow> nat \<Rightarrow> nat" where
  "strip_len x 0 = 0"
| "strip_len x (Suc n) =
     (if x ! n \<noteq> LF \<and> x ! n \<noteq> CHR '' '' \<and> x ! n \<noteq> TAB then Suc n else strip_len x n)"

lemma shorter_rest: "drop (Suc i) x = ch # y \<Longrightarrow> length y - Suc j < length x"
  by (drule arg_cong [of _ _ length]) simp

text \<open>The loop \<open>while (len) switch(*x)\<close> over the variables.\<close>

function env_loop :: "cstr \<Rightarrow> cstr \<Rightarrow> cstr option" where
  "env_loop x data =
     (if x = [] then Some data
      else if hd x \<noteq> CHR '','' then None
      else let i = byte_chr x (CHR ''='') in
        if i = length x then None
        else (case drop (Suc i) x of
                [] \<Rightarrow> None
              | ch # y \<Rightarrow>
                  let j = byte_chr y ch in
                  if j = length y then None
                  else env_loop (drop (Suc j) y) (data @ ''+'' @ take i (tl x) @ take j y @ [NUL])))"
  by pat_completeness auto

termination
  by (relation "measure (\<lambda>(x, _). length x)") (auto dest: shorter_rest simp: Let_def)

declare env_loop.simps [simp del]

definition compile_data :: "cstr \<Rightarrow> cstr option" where
  "compile_data x =
     (if length x \<ge> 4 \<and> take 4 x = ''deny'' then env_loop (drop 4 x) (''D'' @ [NUL])
      else if length x \<ge> 5 \<and> take 5 x = ''allow'' then env_loop (drop 5 x) []
      else None)"

text \<open>The body of the loop of \<open>main\<close> for a line that is not empty.\<close>

definition do_line :: "cstr \<Rightarrow> cdb_make \<Rightarrow> die + cdb_make" where
  "do_line x c =
     (if hd x = CHR ''#'' \<or> hd x = LF then Inr c
      else let line = take (strip_len x (length x)) x; colon = byte_chr line (CHR '':'') in
        if colon = length line then Inr c
        else (case compile_data (drop (Suc colon) line) of
                None \<Rightarrow> Inl (die_bad line)
              | Some data \<Rightarrow> doaddressdata line (take colon line) data c))"

function main_loop :: "cstr \<Rightarrow> cdb_make \<Rightarrow> die + cdb_make" where
  "main_loop s c =
     (case getln_text s of (line, rest, mtch) \<Rightarrow>
        if line = [] then Inr c
        else (case do_line line c of
                Inl e \<Rightarrow> Inl e
              | Inr c1 \<Rightarrow> if mtch then main_loop rest c1 else Inr c1))"
  by pat_completeness auto

termination
  by (relation "measure (\<lambda>(s, _). length s)") (auto simp: getln_text_def Let_def split: if_splits)

declare main_loop.simps [simp del]

text \<open>The file that is renamed to its name at the end.\<close>

definition tcprules :: "cstr \<Rightarrow> die + byte list" where
  "tcprules input =
     (case main_loop input cdb_make_start of
        Inl e \<Rightarrow> Inl e
      | Inr c \<Rightarrow> (case cdb_make_finish c of None \<Rightarrow> Inl die_write | Some fd \<Rightarrow> Inr fd))"


subsection \<open>The order of the names\<close>

text \<open>The names of a connection in the order in which they are tried: with the user and the address, with the user and the host, the address, the host, the beginnings of the address
  that end with a dot from the longest on, the ends of the host name that begin with a dot from the longest
  on, \<open>=\<close> when there is a host name, and the empty name.\<close>

definition ip_prefixes :: "cstr \<Rightarrow> nat \<Rightarrow> cstr list" where
  "ip_prefixes ip n = map (\<lambda>m. take (Suc m) ip) (filter (\<lambda>m. ip ! m = CHR ''.'') (rev [0..<n]))"

definition host_suffixes :: "cstr \<Rightarrow> cstr list" where
  "host_suffixes h = map (\<lambda>m. CHR ''='' # drop m h) (filter (\<lambda>m. h ! m = CHR ''.'') [0..<length h])"

definition rule_names :: "cstr \<Rightarrow> cstr option \<Rightarrow> cstr option \<Rightarrow> cstr list" where
  "rule_names ip host info =
     (case info of None \<Rightarrow> []
      | Some i \<Rightarrow> (i @ ''@'' @ ip) # (case host of None \<Rightarrow> [] | Some h \<Rightarrow> [i @ ''@='' @ h]))
     @ [ip] @ (case host of None \<Rightarrow> [] | Some h \<Rightarrow> [''='' @ h]) @ ip_prefixes ip (length ip)
     @ (case host of None \<Rightarrow> [] | Some h \<Rightarrow> host_suffixes h @ [''='']) @ [[]]"

fun first_rule :: "(cstr \<Rightarrow> 'a option) \<Rightarrow> cstr list \<Rightarrow> (cstr \<times> 'a) option" where
  "first_rule look [] = None"
| "first_rule look (n # ns) = (case look n of None \<Rightarrow> first_rule look ns | Some d \<Rightarrow> Some (n, d))"

lemma first_rule_append:
  "first_rule look (ns @ ms) = (case first_rule look ns of None \<Rightarrow> first_rule look ms | Some r \<Rightarrow> Some r)"
  by (induction ns) (auto split: option.splits)

text \<open>A file that holds the rules \<open>look\<close>, and an answer that comes from the first of some names.\<close>

definition serves :: "byte list \<Rightarrow> (cstr \<Rightarrow> cstr option) \<Rightarrow> bool" where
  "serves fd look \<longleftrightarrow> (\<forall>name c. length name < 2 ^ 32 \<longrightarrow> cd_map c = fd \<longrightarrow>
     (\<exists>c'. cd_map c' = fd \<and> dorule name c = Some (map_option (Pair name) (look name), c')))"

definition gives :: "byte list \<Rightarrow> (cstr \<Rightarrow> cstr option) \<Rightarrow> rules_answer \<Rightarrow> cstr list \<Rightarrow> bool" where
  "gives fd look r names \<longleftrightarrow> (\<exists>c. cd_map c = fd \<and> r = Some (first_rule look names, c))"

lemma gives_none: "cd_map c = fd \<Longrightarrow> gives fd look (Some (None, c)) []"
  by (simp add: gives_def)

lemma gives_rule: "serves fd look \<Longrightarrow> length name < 2 ^ 32 \<Longrightarrow> cd_map c = fd \<Longrightarrow> gives fd look (dorule name c) [name]"
  by (fastforce simp: serves_def gives_def split: option.splits)

lemma gives_or:
  assumes "gives fd look r ns" "\<And>c. cd_map c = fd \<Longrightarrow> gives fd look (k c) ms"
  shows "gives fd look (or_rule r k) (ns @ ms)"
  using assms by (fastforce simp: gives_def or_rule_def first_rule_append split: option.splits)

lemma gives_or_one:
  "serves fd look \<Longrightarrow> length n < 2 ^ 32 \<Longrightarrow> cd_map c = fd \<Longrightarrow> (\<And>c. cd_map c = fd \<Longrightarrow> gives fd look (k c) ms)
     \<Longrightarrow> gives fd look (or_rule (dorule n c) k) (n # ms)"
  using gives_or [OF gives_rule, of fd look n c k ms] by simp

lemma ip_prefixes_Suc:
  "ip_prefixes ip (Suc n) = (if ip ! n = CHR ''.'' then take (Suc n) ip # ip_prefixes ip n else ip_prefixes ip n)"
  by (simp add: ip_prefixes_def)

lemma ip_loop_gives:
  assumes "serves fd look" "length ip < 2 ^ 32"
  shows "cd_map c = fd \<Longrightarrow> gives fd look (ip_loop ip n c) (ip_prefixes ip n)"
proof (induction n arbitrary: c)
  case 0
  then show ?case by (simp add: ip_prefixes_def gives_none)
next
  case (Suc n)
  show ?case using Suc gives_or_one [OF assms(1) _ Suc.prems Suc.IH, of "take (Suc n) ip"] assms(2)
    by (simp add: ip_prefixes_Suc)
qed

lemma host_suffixes_Cons:
  "host_suffixes (x # h) = (if x = CHR ''.'' then (CHR ''='' # x # h) # host_suffixes h else host_suffixes h)"
proof -
  have "[0..<length (x # h)] = 0 # map Suc [0..<length h]" by (metis length_Cons map_Suc_upt upt_conv_Cons zero_less_Suc)
  then show ?thesis by (simp add: host_suffixes_def filter_map comp_def)
qed

lemma host_loop_gives:
  assumes "serves fd look"
  shows "Suc (length h) < 2 ^ 32 \<Longrightarrow> cd_map c = fd \<Longrightarrow> gives fd look (host_loop h c) (host_suffixes h)"
proof (induction h arbitrary: c)
  case Nil
  then show ?case by (simp add: host_suffixes_def gives_none)
next
  case (Cons x h)
  then show ?case using gives_or_one [OF assms _ Cons.prems(2), of "CHR ''='' # CHR ''.'' # h" "host_loop h" "host_suffixes h"]
    by (simp add: host_suffixes_Cons)
qed

definition name_lengths :: "cstr \<Rightarrow> cstr option \<Rightarrow> cstr option \<Rightarrow> nat" where
  "name_lengths ip host info = length ip + (case host of None \<Rightarrow> 0 | Some h \<Rightarrow> length h) + (case info of None \<Rightarrow> 0 | Some i \<Rightarrow> length i)"

lemma doit_gives:
  assumes "serves fd look" "name_lengths ip host info + 2 < 2 ^ 32" "cd_map c = fd"
  shows "gives fd look (doit ip host info c) (rule_names ip host info)"
proof -
  note one = gives_rule [OF assms(1)] and orone = gives_or_one [OF assms(1)]
  note l = assms(2) [unfolded name_lengths_def]
  have t1: "cd_map c = fd \<Longrightarrow> gives fd look (case host of None \<Rightarrow> Some (None, c) | Some h \<Rightarrow> or_rule (host_loop h c) (dorule ''=''))
    (case host of None \<Rightarrow> [] | Some h \<Rightarrow> host_suffixes h @ [''=''])" for c
  proof (cases host)
    case (Some h)
    assume "cd_map c = fd"
    then show ?thesis using l Some gives_or [OF host_loop_gives [OF assms(1)] one] by simp
  qed (simp add: gives_none)
  have t2: "cd_map c = fd \<Longrightarrow> gives fd look (case host of None \<Rightarrow> Some (None, c) | Some h \<Rightarrow> dorule (''='' @ h) c)
    (case host of None \<Rightarrow> [] | Some h \<Rightarrow> [''='' @ h])" for c
    using l by (cases host) (simp_all add: gives_none one)
  have t3: "cd_map c = fd \<Longrightarrow> gives fd look (case info of None \<Rightarrow> Some (None, c)
        | Some i \<Rightarrow> or_rule (dorule (i @ ''@'' @ ip) c) (\<lambda>c.
            case host of None \<Rightarrow> Some (None, c) | Some h \<Rightarrow> dorule (i @ ''@='' @ h) c))
     (case info of None \<Rightarrow> [] | Some i \<Rightarrow> (i @ ''@'' @ ip) # (case host of None \<Rightarrow> [] | Some h \<Rightarrow> [i @ ''@='' @ h]))" for c
    using l by (cases info; cases host) (simp_all add: gives_none orone one)
  have t4: "cd_map c = fd \<Longrightarrow> gives fd look (or_rule (dorule ip c) k) ([ip] @ ms)"
    if "\<And>c. cd_map c = fd \<Longrightarrow> gives fd look (k c) ms" for c k ms
    using l that by (simp add: orone)
  show ?thesis
    unfolding doit_def rule_names_def
    by (intro gives_or t1 t2 t3 t4 ip_loop_gives [OF assms(1)] one assms(3)) (use l in simp_all)
qed


subsection \<open>The records of a text of rules\<close>

lemma chars_bytes [simp]: "chars (bytes s) = s"
  by (induction s) (simp_all add: chars_def bytes_def)

lemma bytes_eq [simp]: "bytes s = bytes t \<longleftrightarrow> s = t"
  by (metis chars_bytes)

lemma length_bytes [simp]: "length (bytes s) = length s"
  by (simp add: bytes_def)

text \<open>The names that an address stands for.\<close>

definition address_keys :: "cstr \<Rightarrow> cstr list option" where
  "address_keys address =
     (let i = byte_chr address (CHR ''-'') in
      if CHR ''='' \<notin> set address \<and> CHR ''@'' \<notin> set address \<and> i < length address then
        (let d = byte_rchr (take i address) (CHR ''.'');
             left = (if d = i then 0 else Suc d);
             right = Suc i + byte_chr (drop (Suc i) address) (CHR ''.'')
         in do { bt \<leftarrow> getnum (take (i - left) (drop left address));
                 tp \<leftarrow> getnum (take (right - Suc i) (drop (Suc i) address));
                 Some (map (\<lambda>n. take left address @ dec_nat n @ drop right address) [unat bt..<Suc (min 255 (unat tp))]) })
      else Some [address])"

lemma cdb_add_all_append: "cdb_add_all (xs @ ys) c = do { c1 \<leftarrow> cdb_add_all xs c; cdb_add_all ys c1 }"
  by (induction xs c rule: cdb_add_all.induct) (auto split: bind_split)

lemma range_loop_adds:
  "tp \<le> 255 \<Longrightarrow> range_loop l r bt tp data c = cdb_add_all (map (\<lambda>n. (bytes (l @ dec_nat n @ r), data)) [bt..<Suc tp]) c"
proof (induction l r bt tp data c rule: range_loop.induct)
  case (1 l r bt tp data c)
  show ?case
  proof (cases "bt \<le> tp")
    case True
    then have "[bt..<Suc tp] = bt # [Suc bt..<Suc tp]" by (simp add: upt_conv_Cons)
    moreover have "fmt_ulong (word_of_nat bt) = dec_nat bt"
      using True 1(2) by (simp add: fmt_ulong_dec unat_nat_32)
    ultimately show ?thesis using True 1
      by (subst range_loop.simps) (auto split: bind_split)
  qed (simp add: range_loop.simps)
qed

lemma unat_min_255: "unat (if tp > 255 then 255 else tp :: u32) = min 255 (unat tp)"
  by (auto simp: word_less_nat_alt)

lemma doaddressdata_keys:
  "doaddressdata line address data c =
     (case address_keys address of None \<Rightarrow> Inl (die_bad line)
      | Some ks \<Rightarrow> written (cdb_add_all (map (\<lambda>k. (bytes k, bytes data)) ks) c))"
  unfolding doaddressdata_def address_keys_def byte_chr_eq_length Let_def unat_min_255
  by (simp add: range_loop_adds comp_def split: option.split bind_split)

subsection \<open>Rules and their text\<close>

text \<open>A rule as the administrator writes it: the address, whether it denies, and for every variable the name,
  the value and the character around the value.\<close>

record rule =
  ru_addr :: cstr
  ru_deny :: bool
  ru_env :: "(cstr \<times> cstr \<times> char) list"

definition print_env :: "cstr \<times> cstr \<times> char \<Rightarrow> cstr" where
  "print_env v = (case v of (n, x, q) \<Rightarrow> '','' @ n @ ''='' @ [q] @ x @ [q])"

definition print_rule :: "rule \<Rightarrow> cstr" where
  "print_rule r = ru_addr r @ '':'' @ (if ru_deny r then ''deny'' else ''allow'') @ concat (map print_env (ru_env r))"

definition env_data :: "cstr \<times> cstr \<times> char \<Rightarrow> cstr" where
  "env_data v = (case v of (n, x, q) \<Rightarrow> ''+'' @ n @ ''='' @ x @ [NUL])"

definition rule_data :: "rule \<Rightarrow> cstr" where
  "rule_data r = (if ru_deny r then ''D'' @ [NUL] else []) @ concat (map env_data (ru_env r))"

definition var_ok :: "cstr \<times> cstr \<times> char \<Rightarrow> bool" where
  "var_ok v = (case v of (n, x, q) \<Rightarrow> CHR ''='' \<notin> set n \<and> LF \<notin> set n \<and> NUL \<notin> set n
     \<and> q \<notin> set x \<and> LF \<notin> set x \<and> NUL \<notin> set x \<and> q \<noteq> LF \<and> q \<noteq> TAB \<and> q \<noteq> CHR '' '')"

definition rule_ok :: "rule \<Rightarrow> bool" where
  "rule_ok r \<longleftrightarrow> CHR '':'' \<notin> set (ru_addr r) \<and> LF \<notin> set (ru_addr r) \<and> (ru_addr r = [] \<or> hd (ru_addr r) \<noteq> CHR ''#'')
     \<and> address_keys (ru_addr r) \<noteq> None \<and> list_all var_ok (ru_env r)"

lemma env_loop_print:
  "list_all var_ok vs \<Longrightarrow> env_loop (concat (map print_env vs)) data = Some (data @ concat (map env_data vs))"
proof (induction vs arbitrary: data)
  case Nil
  then show ?case by (simp add: env_loop.simps)
next
  case (Cons v vs)
  obtain n x q where v: "v = (n, x, q)" by (cases v)
  let ?r = "concat (map print_env vs)"
  from Cons.prems have ok: "CHR ''='' \<notin> set n" "q \<notin> set x" "list_all var_ok vs" using v by (auto simp: var_ok_def [of "(n, x, q)"])
  have x: "concat (map print_env (v # vs)) = CHR '','' # n @ CHR ''='' # q # x @ q # ?r" by (simp add: v print_env_def)
  have c: "byte_chr (n @ CHR ''='' # q # x @ q # ?r) (CHR ''='') = length n"
    using ok(1) by (rule byte_chr_split)
  have j: "byte_chr (x @ q # ?r) q = length x" using ok(2) by (rule byte_chr_split)
  have "env_loop (concat (map print_env (v # vs))) data = env_loop ?r (data @ ''+'' @ (n @ ''='') @ x @ [NUL])"
    unfolding x by (subst env_loop.simps) (simp add: c j)
  then show ?case using Cons.IH [OF ok(3)] by (simp add: v env_data_def)
qed

lemma compile_data_print:
  assumes "list_all var_ok (ru_env r)"
  shows "compile_data ((if ru_deny r then ''deny'' else ''allow'') @ concat (map print_env (ru_env r))) = Some (rule_data r)"
  using env_loop_print [OF assms] by (simp add: compile_data_def rule_data_def)


definition rule_keys :: "rule \<Rightarrow> cstr list" where
  "rule_keys r = (case address_keys (ru_addr r) of None \<Rightarrow> [] | Some ks \<Rightarrow> ks)"

definition rule_records :: "rule \<Rightarrow> (byte list \<times> byte list) list" where
  "rule_records r = map (\<lambda>k. (bytes k, bytes (rule_data r))) (rule_keys r)"

definition rules_input :: "rule list \<Rightarrow> cstr" where
  "rules_input rs = concat (map (\<lambda>r. print_rule r @ [LF]) rs)"

lemma print_env_LF: "var_ok v \<Longrightarrow> LF \<notin> set (print_env v)"
  by (auto simp: var_ok_def print_env_def split: prod.splits)

lemma print_rule_LF: "rule_ok r \<Longrightarrow> LF \<notin> set (print_rule r)"
  by (auto simp: rule_ok_def print_rule_def list_all_iff dest: print_env_LF)

definition white :: "char \<Rightarrow> bool" where
  "white c \<longleftrightarrow> c = LF \<or> c = CHR '' '' \<or> c = TAB"

lemma strip_len_end: "s \<noteq> [] \<Longrightarrow> \<not> white (List.last s) \<Longrightarrow> strip_len (s @ [LF]) (Suc (length s)) = length s"
  by (cases s rule: rev_cases) (simp_all add: nth_append white_def)

lemma print_rule_end: "rule_ok r \<Longrightarrow> print_rule r \<noteq> [] \<and> \<not> white (List.last (print_rule r))"
  by (cases "ru_env r" rule: rev_cases)
    (auto simp: print_rule_def rule_ok_def print_env_def var_ok_def white_def)

lemma print_rule_hd: "rule_ok r \<Longrightarrow> hd (print_rule r @ [LF]) \<noteq> CHR ''#'' \<and> hd (print_rule r @ [LF]) \<noteq> LF"
  by (cases "ru_addr r") (auto simp: print_rule_def rule_ok_def)

lemma do_line_print:
  assumes "rule_ok r"
  shows "do_line (print_rule r @ [LF]) c = written (cdb_add_all (rule_records r) c)"
proof -
  let ?x = "print_rule r @ [LF]"
  have len: "take (strip_len ?x (length ?x)) ?x = print_rule r"
    using strip_len_end [of "print_rule r"] print_rule_end [OF assms] by simp
  let ?t = "(if ru_deny r then ''deny'' else ''allow'') @ concat (map print_env (ru_env r))"
  have p: "print_rule r = ru_addr r @ CHR '':'' # ?t" by (simp add: print_rule_def)
  have colon: "byte_chr (print_rule r) (CHR '':'') = length (ru_addr r)"
    unfolding p using assms by (intro byte_chr_split) (simp add: rule_ok_def)
  have "do_line ?x c = doaddressdata (print_rule r) (ru_addr r) (rule_data r) c"
    using print_rule_hd [OF assms] compile_data_print [of r] assms unfolding do_line_def len Let_def colon
    by (simp add: p rule_ok_def)
  moreover obtain ks where "address_keys (ru_addr r) = Some ks" using assms by (auto simp: rule_ok_def)
  ultimately show ?thesis by (simp add: doaddressdata_keys rule_records_def rule_keys_def)
qed

lemma getln_text_line: "LF \<notin> set s \<Longrightarrow> getln_text (s @ LF # t) = (s @ [LF], t, True)"
  by (simp add: getln_text_def byte_chr_split)

lemma main_loop_print:
  "list_all rule_ok rs \<Longrightarrow> main_loop (rules_input rs) c = written (cdb_add_all (concat (map rule_records rs)) c)"
proof (induction rs arbitrary: c)
  case Nil
  then show ?case by (simp add: rules_input_def main_loop.simps getln_text_def written_def)
next
  case (Cons r rs)
  have "rules_input (r # rs) = print_rule r @ LF # rules_input rs" by (simp add: rules_input_def)
  moreover have "LF \<notin> set (print_rule r)" using Cons.prems print_rule_LF by simp
  ultimately have "main_loop (rules_input (r # rs)) c =
    (case do_line (print_rule r @ [LF]) c of Inl e \<Rightarrow> Inl e | Inr c1 \<Rightarrow> main_loop (rules_input rs) c1)"
    by (subst main_loop.simps) (simp add: getln_text_line split: sum.split)
  with Cons show ?case
    by (cases "cdb_add_all (rule_records r) c") (simp_all add: do_line_print cdb_add_all_append written_def)
qed

lemma tcprules_build:
  assumes "list_all rule_ok rs" "cdb_build (concat (map rule_records rs)) = Some fd"
  shows "tcprules (rules_input rs) = Inr fd"
  using assms by (auto simp: tcprules_def main_loop_print cdb_build_def written_def split: bind_splits)

subsection \<open>What a connection gets\<close>

definition rule_for :: "rule list \<Rightarrow> cstr \<Rightarrow> rule option" where
  "rule_for rs name = find (\<lambda>r. name \<in> set (rule_keys r)) rs"

definition rule_text :: "rule \<Rightarrow> cstr" where
  "rule_text r = (if ru_deny r then ''deny connection'' @ [LF]
     else concat (map (\<lambda>(n, x, q). ''set environment variable '' @ n @ ''='' @ x @ [LF]) (ru_env r)) @ ''allow connection'' @ [LF])"

lemma found_loop_deny: "found_loop (''D'' @ NUL # t) = ''deny connection'' @ [LF]"
  by (subst found_loop.simps) simp

lemma found_loop_env:
  "list_all var_ok vs \<Longrightarrow> found_loop (concat (map env_data vs)) =
     concat (map (\<lambda>(n, x, q). ''set environment variable '' @ n @ ''='' @ x @ [LF]) vs) @ ''allow connection'' @ [LF]"
proof (induction vs)
  case Nil
  then show ?case by (simp add: found_loop.simps)
next
  case (Cons v vs)
  obtain n x q where v: "v = (n, x, q)" by (cases v)
  have nul: "NUL \<notin> set (CHR ''+'' # n @ CHR ''='' # x)" and ok: "list_all var_ok vs"
    using Cons.prems v by (auto simp: var_ok_def [of "(n, x, q)"])
  have d: "concat (map env_data (v # vs)) = (CHR ''+'' # n @ CHR ''='' # x) @ NUL # concat (map env_data vs)"
    by (simp add: v env_data_def)
  have "found_loop (concat (map env_data (v # vs))) =
    ''set environment variable '' @ n @ ''='' @ x @ [LF] @ found_loop (concat (map env_data vs))"
    unfolding d by (subst found_loop.simps, subst byte_chr_split [OF nul]) simp
  with Cons.IH [OF ok] show ?case by (simp add: v)
qed

lemma found_loop_rule: "rule_ok r \<Longrightarrow> found_loop (rule_data r) = rule_text r"
  using found_loop_deny found_loop_env by (simp add: rule_data_def rule_text_def rule_ok_def)


lemma find_rule_records:
  "find (\<lambda>p. fst p = bytes name) (concat (map rule_records rs))
     = map_option (\<lambda>r. (bytes name, bytes (rule_data r))) (rule_for rs name)"
proof (induction rs)
  case (Cons r rs)
  have "find (\<lambda>p. fst p = bytes name) (map (\<lambda>k. (bytes k, d)) ks @ ps)
      = (if name \<in> set ks then Some (bytes name, d) else find (\<lambda>p. fst p = bytes name) ps)" for d ks and ps :: "(byte list \<times> byte list) list"
    by (induction ks) auto
  with Cons show ?case by (simp add: rule_records_def rule_for_def)
qed (simp add: rule_for_def)

lemma built_serves:
  assumes "cdb_build (concat (map rule_records rs)) = Some fd" "list_all small (concat (map rule_records rs))"
  shows "serves fd (\<lambda>name. map_option rule_data (rule_for rs name))"
  unfolding serves_def
proof (intro allI impI)
  fix name :: cstr and c :: cdb
  assume n: "length name < 2 ^ 32" and c: "cd_map c = fd"
  have "length (bytes name) < 2 ^ 32" using n by simp
  from cdb_find_written [OF assms this c] show
    "\<exists>c'. cd_map c' = fd \<and> dorule name c = Some (map_option (Pair name) (map_option rule_data (rule_for rs name)), c')"
    using c by (auto simp: dorule_def find_rule_records split: option.splits dest: cdb_find_map)
qed

lemma small_records: "length (concat (map rec_bytes ps)) < 2 ^ 32 \<Longrightarrow> list_all small ps"
  by (induction ps) (auto simp: small_def rec_bytes_def)

lemma first_rule_map: "first_rule (\<lambda>n. map_option f (g n)) ns = map_option (\<lambda>(n, r). (n, f r)) (first_rule g ns)"
  by (induction ns) (auto split: option.splits)

lemma first_rule_member: "first_rule (rule_for rs) ns = Some (n, r) \<Longrightarrow> r \<in> set rs"
  by (induction ns) (auto simp: rule_for_def find_Some_iff split: option.splits)

definition rules_size :: "rule list \<Rightarrow> nat" where
  "rules_size rs = (let ps = concat (map rule_records rs) in 2048 + length (concat (map rec_bytes ps)) + 16 * length ps)"

text \<open>C4. Compiling the text of rules with \<open>tcprules\<close> and asking the file with \<open>tcprulescheck\<close> prints the rule of the first
  name of the connection, in the order of \<open>rule_names\<close>, that stands in the text: the first rule that covers this
  name, its denial or its variables as they were written; and the default when no name has a rule.\<close>

theorem tcprules_check:
  assumes "list_all rule_ok rs" "rules_size rs < 2 ^ 32"
  shows "\<exists>fd. tcprules (rules_input rs) = Inr fd \<and>
    (\<forall>ip host info. name_lengths ip host info + 2 < 2 ^ 32 \<longrightarrow>
       tcprulescheck fd (Some ip) host info = Some
         (case first_rule (rule_for rs) (rule_names ip host info) of
            None \<Rightarrow> ''default:'' @ [LF] @ ''allow connection'' @ [LF]
          | Some (name, r) \<Rightarrow> ''rule '' @ name @ '':'' @ [LF] @ rule_text r))"
proof -
  let ?ps = "concat (map rule_records rs)"
  have b: "2048 + length (concat (map rec_bytes ?ps)) + 16 * length ?ps < 2 ^ 32"
    using assms(2) by (simp only: rules_size_def Let_def)
  then have sm: "list_all small ?ps" by (intro small_records) linarith
  from cdb_build_ok [OF sm b] obtain fd where fd: "cdb_build ?ps = Some fd" by blast
  have "tcprulescheck fd (Some ip) host info = Some
         (case first_rule (rule_for rs) (rule_names ip host info) of
            None \<Rightarrow> ''default:'' @ [LF] @ ''allow connection'' @ [LF]
          | Some (name, r) \<Rightarrow> ''rule '' @ name @ '':'' @ [LF] @ rule_text r)"
    if l: "name_lengths ip host info + 2 < 2 ^ 32" for ip host info
  proof -
    have "cd_map (cdb_init fd) = fd" by (simp add: cdb_init_def)
    from doit_gives [OF built_serves [OF fd sm] l this] obtain c where
      "doit ip host info (cdb_init fd) =
         Some (map_option (\<lambda>(n, r). (n, rule_data r)) (first_rule (rule_for rs) (rule_names ip host info)), c)"
      by (auto simp: gives_def first_rule_map)
    moreover have "found_loop (rule_data r) = rule_text r"
      if "first_rule (rule_for rs) (rule_names ip host info) = Some (n, r)" for n r
      using first_rule_member [OF that] assms(1) by (intro found_loop_rule) (simp add: list_all_iff)
    ultimately show ?thesis
      by (auto simp: tcprulescheck_def rules_def found_text_def split: option.splits)
  qed
  with tcprules_build [OF assms(1) fd] show ?thesis by blast
qed

theorem tcprules_check_witness:
  "\<exists>fd. tcprules (rules_input [\<lparr>ru_addr = ''10.0.0.'', ru_deny = True, ru_env = []\<rparr>,
       \<lparr>ru_addr = '''', ru_deny = False, ru_env = [(''RELAYCLIENT'', ''x'', CHR 0x22)]\<rparr>]) = Inr fd
     \<and> tcprulescheck fd (Some ''10.0.0.7'') None None = Some (''rule 10.0.0.:'' @ [LF] @ ''deny connection'' @ [LF])
     \<and> tcprulescheck fd (Some ''10.0.1.7'') None None =
         Some (''rule :'' @ [LF] @ ''set environment variable RELAYCLIENT=x'' @ [LF] @ ''allow connection'' @ [LF])"
proof -
  let ?rs = "[\<lparr>ru_addr = ''10.0.0.'', ru_deny = True, ru_env = []\<rparr>,
       \<lparr>ru_addr = '''', ru_deny = False, ru_env = [(''RELAYCLIENT'', ''x'', CHR 0x22)]\<rparr>]"
  have k: "address_keys ''10.0.0.'' = Some [''10.0.0.'']" "address_keys [] = Some [[]]"
    by (simp_all add: address_keys_def)
  have ok: "list_all rule_ok ?rs" by (simp add: rule_ok_def k var_ok_def)
  have size: "rules_size ?rs < 2 ^ 32"
    by (simp add: rules_size_def rule_records_def rule_keys_def k rec_bytes_def rule_data_def env_data_def)
  have look: "rule_for ?rs ''10.0.0.7'' = None" "rule_for ?rs ''10.0.1.7'' = None" "rule_for ?rs ''10.0.1.'' = None"
    "rule_for ?rs ''10.0.'' = None" "rule_for ?rs ''10.'' = None"
    "rule_for ?rs ''10.0.0.'' = Some (hd ?rs)" "rule_for ?rs [] = Some (?rs ! 1)"
    by (simp_all add: rule_for_def rule_keys_def k)
  have names: "rule_names ''10.0.0.7'' None None = [''10.0.0.7'', ''10.0.0.'', ''10.0.'', ''10.'', []]"
    "rule_names ''10.0.1.7'' None None = [''10.0.1.7'', ''10.0.1.'', ''10.0.'', ''10.'', []]"
    by (simp_all add: rule_names_def ip_prefixes_def upt_rec)
  have len: "name_lengths ''10.0.0.7'' None None + 2 < 2 ^ 32" "name_lengths ''10.0.1.7'' None None + 2 < 2 ^ 32"
    by (simp_all add: name_lengths_def)
  from tcprules_check [OF ok size] obtain fd where fd: "tcprules (rules_input ?rs) = Inr fd"
    "\<And>ip host info. name_lengths ip host info + 2 < 2 ^ 32 \<Longrightarrow> tcprulescheck fd (Some ip) host info = Some
         (case first_rule (rule_for ?rs) (rule_names ip host info) of
            None \<Rightarrow> ''default:'' @ [LF] @ ''allow connection'' @ [LF]
          | Some (name, r) \<Rightarrow> ''rule '' @ name @ '':'' @ [LF] @ rule_text r)" by blast
  from fd(2) [OF len(1)] fd(2) [OF len(2)] fd(1) show ?thesis
    by (simp add: names look rule_text_def)
qed

subsection \<open>Ranges of addresses\<close>

lemma getnum_dec: "n < 2 ^ 32 \<Longrightarrow> getnum (dec_nat n) = Some (word_of_nat n)"
  by (simp add: getnum_def scan_ulong_dec cisdigit_def)

definition plain :: "cstr \<Rightarrow> bool" where
  "plain s \<longleftrightarrow> CHR ''='' \<notin> set s \<and> CHR ''@'' \<notin> set s"

lemma plain_dec: "plain (dec_nat n)" and no_dot_dec: "CHR ''.'' \<notin> set (dec_nat n)" and no_minus_dec: "CHR ''-'' \<notin> set (dec_nat n)"
  using cisdigit_dec_nat by (fastforce simp: plain_def cisdigit_def)+

text \<open>An address with a range stands for the addresses with the numbers of the range, its end cut to 255, when the
  numbers stand between dots or at an end.\<close>

theorem address_range:
  assumes "plain pre" "plain suf" "CHR ''-'' \<notin> set pre" "pre = [] \<or> List.last pre = CHR ''.''" "suf = [] \<or> hd suf = CHR ''.''"
    "a < 2 ^ 32" "b < 2 ^ 32"
  shows "address_keys (pre @ dec_nat a @ ''-'' @ dec_nat b @ suf)
    = Some (map (\<lambda>n. pre @ dec_nat n @ suf) [a..<Suc (min 255 b)])"
proof -
  let ?ad = "pre @ dec_nat a @ CHR ''-'' # dec_nat b @ suf"
  let ?i = "length pre + length (dec_nat a)"
  have i: "byte_chr ?ad (CHR ''-'') = ?i"
    using byte_chr_split [of "CHR ''-''" "pre @ dec_nat a"] assms(3) no_minus_dec by simp
  have t: "take ?i ?ad = pre @ dec_nat a" "drop (Suc ?i) ?ad = dec_nat b @ suf" by simp_all
  have left: "(if byte_rchr (pre @ dec_nat a) (CHR ''.'') = ?i then 0 else Suc (byte_rchr (pre @ dec_nat a) (CHR ''.''))) = length pre"
  proof (cases pre rule: rev_cases)
    case Nil
    then show ?thesis using no_dot_dec by (simp add: byte_rchr_none)
  next
    case (snoc p x)
    then have "pre @ dec_nat a = p @ CHR ''.'' # dec_nat a" using assms(4) by simp
    then show ?thesis using snoc no_dot_dec by (simp add: byte_rchr_split)
  qed
  have right: "byte_chr (dec_nat b @ suf) (CHR ''.'') = length (dec_nat b)"
    using assms(5) no_dot_dec [of b] byte_chr_split byte_chr_none by (cases suf) auto
  have "plain ?ad" using assms(1,2) plain_dec by (simp add: plain_def)
  then show ?thesis
    using assms(6,7) by (simp add: address_keys_def plain_def i t left right getnum_dec unat_nat_32 Let_def del: upt_Suc)
qed

theorem address_range_witness: "address_keys ''1.2.3.254-999'' = Some [''1.2.3.254'', ''1.2.3.255'']"
proof -
  have "dec_nat 254 = ''254''" "dec_nat 255 = ''255''" "dec_nat 999 = ''999''" by code_simp+
  then show ?thesis using address_range [of "''1.2.3.''" "[]" 254 999] by (simp add: plain_def upt_rec)
qed

end
