(* ===== verification/ClientProofs.thy ===== *)
theory ClientProofs
  imports ClientArt Expire
begin

text \<open>
  What is proved of the reading of articles and overviews by the client: the data base after a list
  of articles has been fetched, overview lines, and what a short overview line does.
\<close>

subsection \<open>Replies\<close>

definition link_ok :: "('g, 'd) cenv \<Rightarrow> ('g, 'd) client \<Rightarrow> bool" where
  "link_ok C c \<longleftrightarrow> gdbm_laws (cdlib C) \<and> stores_succeed (cdlib C) \<and> db_inv (cdlib C) (sp_db (cl_sp c)) \<and> connected c
     \<and> (connectTimeout (ce_cfg C) < 0 \<or> ce_sig C)"

abbreviation carts :: "('g, 'd) cenv \<Rightarrow> ('g, 'd) client \<Rightarrow> cstr \<Rightarrow> art option" where
  "carts C c \<equiv> arts (cdlib C) (db_dbf (sp_db (cl_sp c)))"

definition with_db :: "'d database \<Rightarrow> ('g, 'd) client \<Rightarrow> ('g, 'd) client" where
  "with_db d c = c\<lparr>cl_sp := (cl_sp c)\<lparr>sp_db := d\<rparr>\<rparr>"

definition fits_line :: "cstr \<Rightarrow> bool" where
  "fits_line l \<longleftrightarrow> LF \<notin> set l \<and> proper l \<and> length l + 2 < MAXCHAR"

lemma with_db_simps [simp]:
  "connected (with_db d c) = connected c" "cl_in (with_db d c) = cl_in c" "cl_out (with_db d c) = cl_out c"
  "sp_db (cl_sp (with_db d c)) = d" "cl_req (with_db d c) = cl_req c" "with_db d (with_db e c) = with_db d c"
  "cl_serv (with_db d c) = cl_serv c" "cl_auth (with_db d c) = cl_auth c" "lastStat (with_db d c) = lastStat c"
  "(with_db d c)\<lparr>cl_in := r\<rparr> = with_db d (c\<lparr>cl_in := r\<rparr>)" "(with_db d c)\<lparr>lastStat := l\<rparr> = with_db d (c\<lparr>lastStat := l\<rparr>)"
  by (simp_all add: with_db_def)

lemma getLn_link:
  assumes "link_ok C c" "fits_line l" "cl_in c = l @ [CR, LF] @ r"
  shows "cl_getLn C c = (Some l, c\<lparr>cl_in := r\<rparr>)"
  using assms getLn_CRLF [of l "connectTimeout (ce_cfg C)" "ce_sig C" r]
  by (simp add: cl_getLn_def link_ok_def fits_line_def)

lemma getStat_link:
  assumes "link_ok C c" "fits_line l" "cl_in c = l @ [CR, LF] @ r" "scan_d l = Some (n, t)" "n \<noteq> int STAT_AUTH_REQUIRED"
  shows "getStat C c = Some (n, c\<lparr>cl_in := r, lastStat := l\<rparr>)"
  using assms getLn_link [OF assms(1-3)] by (simp add: getStat_def read_stat_def)

lemma getTxtLn_link:
  assumes "link_ok C c" "cl_in c = stuffed l @ [CR, LF] @ r" "sendable l"
  shows "cl_getTxtLn C c = Some (Txt_line l, c\<lparr>cl_in := r\<rparr>)"
  using assms getTxtLn_stuffed [of l "connectTimeout (ce_cfg C)" "ce_sig C" r] by (simp add: cl_getTxtLn_def link_ok_def)

lemma getTxtLn_end:
  assumes "link_ok C c" "cl_in c = ''.'' @ [CR, LF] @ r"
  shows "cl_getTxtLn C c = Some (Txt_end, c\<lparr>cl_in := r\<rparr>)"
  using assms getLn_CRLF [of "''.''" "connectTimeout (ce_cfg C)" "ce_sig C" r]
  by (simp add: cl_getTxtLn_def link_ok_def Prt_getTxtLn_def MAXCHAR_def)

lemma link_ok_in [simp]: "link_ok C (c\<lparr>cl_in := r\<rparr>) = link_ok C c" "link_ok C (c\<lparr>lastStat := l\<rparr>) = link_ok C c"
  by (simp_all add: link_ok_def)

lemma art_loop_link:
  "link_ok C c \<Longrightarrow> list_all sendable ls \<Longrightarrow> cl_in c = wire ls @ ''.'' @ [CR, LF] @ r \<Longrightarrow>
     art_loop C s c = Some (False, s @ text_of ls, c\<lparr>cl_in := r\<rparr>)"
proof (induction ls arbitrary: s c)
  case Nil
  then show ?case using getTxtLn_end [OF Nil(1), of r] by (simp add: art_loop.simps [of C s c] wire_def)
next
  case (Cons l ls)
  have i: "cl_in c = stuffed l @ [CR, LF] @ wire ls @ ''.'' @ [CR, LF] @ r" using Cons.prems(3) by (simp add: wire_def)
  have "cl_getTxtLn C c = Some (Txt_line l, c\<lparr>cl_in := wire ls @ ''.'' @ [CR, LF] @ r\<rparr>)"
    by (rule getTxtLn_link [OF Cons.prems(1) i]) (use Cons.prems in simp)
  then show ?case using Cons.IH [of "c\<lparr>cl_in := wire ls @ ''.'' @ [CR, LF] @ r\<rparr>" "s @ l @ [LF]"] Cons.prems
    by (simp add: art_loop.simps [of C s c])
qed

subsection \<open>The data base of the client\<close>

lemma on_db_status:
  assumes "link_ok C c" "m \<noteq> []" "length m < MAXCHAR"
  shows "\<exists>d. on_db (Db_status (cdlib C) m) c = Some (case carts C c m of None \<Rightarrow> 0 | Some a \<Rightarrow> a_status a, with_db d c)
    \<and> link_ok C (with_db d c) \<and> db_dbf d = db_dbf (sp_db (cl_sp c))"
proof -
  have "db_inv (cdlib C) (sp_db (cl_sp c))" using assms(1) by (simp add: link_ok_def)
  from art_getter_refines [OF this assms(2,3), of 0 a_status] assms(1) show ?thesis
    by (auto simp: on_db_def Db_status_def with_db_def link_ok_def)
qed

lemma set_db_status:
  assumes "link_ok C c" "m \<noteq> []" "length m < MAXCHAR"
  shows "\<exists>d. set_db (Db_setStatus s (cdlib C) m) c = Some (with_db d c) \<and> link_ok C (with_db d c)
    \<and> arts (cdlib C) (db_dbf d) = (carts C c)(m := map_option (\<lambda>a. a\<lparr>a_status := s\<rparr>) (carts C c m))"
proof -
  have i: "gdbm_laws (cdlib C)" "stores_succeed (cdlib C)" "db_inv (cdlib C) (sp_db (cl_sp c))"
    using assms(1) by (simp_all add: link_ok_def)
  have f: "art_ok a \<Longrightarrow> Some (a\<lparr>a_status := s\<rparr>) = Some (a\<lparr>a_status := s\<rparr>) \<and> art_ok (a\<lparr>a_status := s\<rparr>)" for a
    by (simp add: art_ok_def)
  from art_setter_refines [OF i(1,2) assms(2,3) i(3) f] assms(1) show ?thesis
    by (fastforce simp: set_db_def Db_setStatus_def with_db_def link_ok_def)
qed

definition art_reply_ok :: "(cstr \<times> cstr) list \<Rightarrow> cstr list \<Rightarrow> bool" where
  "art_reply_ok hs ls \<longleftrightarrow> list_all hdr_ok hs \<and> list_all field_fits ls \<and> list_all sendable (map hdr_line hs @ [] # ls)"

lemma store_link:
  assumes "link_ok C c" "m \<noteq> []" "length m < MAXCHAR" "carts C c m = Some a" "a_status a AND DB_NOT_DOWNLOADED \<noteq> 0"
    "list_all hdr_ok hs" "list_all field_fits ls"
  shows "\<exists>d. Db_storeArt pre now (cdlib C) m (text_of (map hdr_line hs @ [] # ls)) (sp_db (cl_sp c)) = Some (True, d)
    \<and> link_ok C (with_db d c) \<and> arts (cdlib C) (db_dbf d) = (carts C c)(m \<mapsto> stored now hs ls a)"
proof -
  have i: "gdbm_laws (cdlib C)" "stores_succeed (cdlib C)" "db_inv (cdlib C) (sp_db (cl_sp c))"
    using assms(1) by (simp_all add: link_ok_def)
  from storeArt_refines [OF i assms(2-7), of pre now] assms(1) show ?thesis by (auto simp: link_ok_def)
qed

lemma retrieveAndStore_link:
  assumes "link_ok C c" "m \<noteq> []" "length m < MAXCHAR" "carts C c m = Some a" "a_status a AND DB_NOT_DOWNLOADED \<noteq> 0"
    "art_reply_ok hs ls" "cl_in c = wire (map hdr_line hs @ [] # ls) @ ''.'' @ [CR, LF] @ r"
  shows "\<exists>d. retrieveAndStoreArt C m c = Some (True, with_db d (c\<lparr>cl_in := r\<rparr>)) \<and> link_ok C (with_db d (c\<lparr>cl_in := r\<rparr>))
    \<and> arts (cdlib C) (db_dbf d) = (carts C c)(m \<mapsto> stored (clock (ce_env C)) hs ls a)"
proof -
  have ok: "list_all hdr_ok hs" "list_all field_fits ls" "list_all sendable (map hdr_line hs @ [] # ls)"
    using assms(6) by (simp_all add: art_reply_ok_def)
  from art_loop_link [OF assms(1) ok(3) assms(7), of "[]"] store_link [OF assms(1-5) ok(1,2), of "before (ce_env C)" "clock (ce_env C)"]
  show ?thesis by (auto simp: retrieveAndStoreArt_def on_db_def with_db_def link_ok_def)
qed

subsection \<open>Failures\<close>

definition failed_hs :: "(cstr \<times> cstr) list" where
  "failed_hs = [(''Comments'', '' Pseudo body generated by news server NOFFLE'')]"

definition failed_ls :: "cstr \<Rightarrow> cstr list" where
  "failed_ls reason =
     [[],
      TAB # ''[ NOFFLE ERROR: Retrieving failed ]'',
      [],
      TAB # ''[ This article could not be retrieved. Maybe ]'',
      TAB # ''[ it has already expired at the remote server ]'',
      TAB # ''[ or it has been cancelled by its sender. See ]'',
      TAB # ''[ the appended status line of the remote ]'',
      TAB # ''[ server for more information. ]'',
      [],
      TAB # ''[ This message will disappear the next time ]'',
      TAB # ''[ someone tries to read this article, so that ]'',
      TAB # ''[ it can be marked for download again. ]'',
      [],
      TAB # ''[ Remote server status: '' @ reason @ '' ]'']"

lemma failed_text_lines: "failed_text reason = text_of (map hdr_line failed_hs @ [] # failed_ls reason)"
  by (simp add: failed_text_def failed_hs_def failed_ls_def hdr_line_def text_of_def)

text \<open>The entry after a failure: the message is the body, and the entry is still not downloaded.\<close>

definition failed :: "u32 \<Rightarrow> cstr \<Rightarrow> art \<Rightarrow> art" where
  "failed now reason a = (stored now failed_hs (failed_ls reason) a)\<lparr>a_status := a_status a OR DB_RETRIEVING_FAILED\<rparr>"

definition reason_ok :: "cstr \<Rightarrow> bool" where
  "reason_ok t \<longleftrightarrow> LF \<notin> set t \<and> proper t \<and> length t + 40 < MAXCHAR"

lemma failed_ok:
  assumes "reason_ok t"
  shows "list_all hdr_ok failed_hs" "list_all field_fits (failed_ls t)"
  using assms by (simp_all add: failed_hs_def failed_ls_def hdr_ok_def hdr_line_def cisspace_def field_fits_def reason_ok_def MAXCHAR_def)

lemma retrievingFailed_link:
  assumes "link_ok C c" "m \<noteq> []" "length m < MAXCHAR" "carts C c m = Some a" "a_status a AND DB_NOT_DOWNLOADED \<noteq> 0"
    "reason_ok t"
  shows "\<exists>d. retrievingFailed C m t c = Some (with_db d c) \<and> link_ok C (with_db d c)
    \<and> arts (cdlib C) (db_dbf d) = (carts C c)(m \<mapsto> failed (clock (ce_env C)) t a)"
proof -
  from on_db_status [OF assms(1-3)] assms(4) obtain d1 where
    d1: "on_db (Db_status (cdlib C) m) c = Some (a_status a, with_db d1 c)" "link_ok C (with_db d1 c)"
      "db_dbf d1 = db_dbf (sp_db (cl_sp c))" by auto
  have a1: "carts C (with_db d1 c) m = Some a" using d1(3) assms(4) by simp
  from store_link [OF d1(2) assms(2,3) a1 assms(5) failed_ok [OF assms(6)], of "before (ce_env C)" "clock (ce_env C)"] obtain d2 where
    d2: "Db_storeArt (before (ce_env C)) (clock (ce_env C)) (cdlib C) m (failed_text t) d1 = Some (True, d2)"
      "link_ok C (with_db d2 c)" "arts (cdlib C) (db_dbf d2) = (carts C c)(m \<mapsto> stored (clock (ce_env C)) failed_hs (failed_ls t) a)"
    using d1(3) by (auto simp: failed_text_lines)
  have con: "Db_contains (cdlib C) m d1"
    using Db_contains_refines [of "cdlib C" d1 m] d1(2,3) assms(2-4) by (simp add: link_ok_def)
  have s2: "set_db (Pseudo_retrievingFailed (ce_env C) m t) (with_db d1 c) = Some (with_db d2 c)"
    using con d2(1) by (simp add: set_db_def Pseudo_retrievingFailed_def with_db_def)
  from set_db_status [OF d2(2) assms(2,3), of "a_status a OR DB_RETRIEVING_FAILED"] obtain d3 where
    d3: "set_db (Db_setStatus (a_status a OR DB_RETRIEVING_FAILED) (cdlib C) m) (with_db d2 c) = Some (with_db d3 c)"
      "link_ok C (with_db d3 c)"
      "arts (cdlib C) (db_dbf d3) = (carts C (with_db d2 c))(m := map_option (\<lambda>b. b\<lparr>a_status := a_status a OR DB_RETRIEVING_FAILED\<rparr>) (carts C (with_db d2 c) m))"
    by auto
  with d1 s2 d2(3) show ?thesis by (auto simp: retrievingFailed_def failed_def)
qed

subsection \<open>A list of articles\<close>

text \<open>What a server answers to ARTICLE: a status line and the article, or a refusal.\<close>

datatype answer = Found cstr "(cstr \<times> cstr) list" "cstr list" | Refused cstr

fun answer_text :: "answer \<Rightarrow> cstr" where
  "answer_text (Found t hs ls) = (''220'' @ t) @ [CR, LF] @ wire (map hdr_line hs @ [] # ls) @ ''.'' @ [CR, LF]"
| "answer_text (Refused t) = t @ [CR, LF]"

fun answer_ok :: "answer \<Rightarrow> bool" where
  "answer_ok (Found t hs ls) \<longleftrightarrow> fits_line (''220'' @ t) \<and> (t = [] \<or> \<not> cisdigit (hd t)) \<and> art_reply_ok hs ls"
| "answer_ok (Refused t) \<longleftrightarrow> reason_ok t
     \<and> (\<exists>n r. scan_d t = Some (n, r) \<and> n \<noteq> int STAT_ART_FOLLOWS \<and> n \<noteq> int STAT_AUTH_REQUIRED)"

fun after :: "u32 \<Rightarrow> answer \<Rightarrow> art \<Rightarrow> art" where
  "after now (Found t hs ls) a = stored now hs ls a"
| "after now (Refused t) a = failed now t a"

definition wanted :: "(cstr \<Rightarrow> art option) \<Rightarrow> cstr \<Rightarrow> bool" where
  "wanted M m \<longleftrightarrow> (case M m of None \<Rightarrow> False | Some a \<Rightarrow> a_status a AND DB_NOT_DOWNLOADED \<noteq> 0)"

definition id_ok :: "cstr \<Rightarrow> bool" where
  "id_ok m \<longleftrightarrow> m \<noteq> [] \<and> LF \<notin> set m \<and> length m + 10 < MAXCHAR"

lemma scan_220: "t = [] \<or> \<not> cisdigit (hd t) \<Longrightarrow> scan_d (''220'' @ t) = Some (220, t)"
proof -
  assume t: "t = [] \<or> \<not> cisdigit (hd t)"
  have "dec_nat 220 = ''220''" by code_simp
  with scan_d_dec_nat [OF t, of 220] show ?thesis by simp
qed


definition art_cmd :: "cstr \<Rightarrow> cstr" where
  "art_cmd m = ''ARTICLE '' @ m @ [CR, LF]"

lemma contains_link: "link_ok C c \<Longrightarrow> m \<noteq> [] \<Longrightarrow> cl_contains C m c \<longleftrightarrow> carts C c m \<noteq> None"
  by (simp add: cl_contains_def link_ok_def Db_contains_refines)

lemma putCmd_link:
  assumes "link_ok C c" "id_ok m" "length (art_cmd m) \<le> room (cl_out c)"
  shows "\<exists>c1. putCmdNoFlush (''ARTICLE '' @ m) c = (True, c1) \<and> link_ok C c1 \<and> cl_in c1 = cl_in c \<and> cl_sp c1 = cl_sp c
    \<and> cl_req c1 = cl_req c \<and> cl_out c1 = (cl_out c)\<lparr>written := written (cl_out c) @ art_cmd m, room := room (cl_out c) - length (art_cmd m)\<rparr>"
proof -
  have s: "str_of (''ARTICLE '' @ m) = ''ARTICLE '' @ m" using assms(2) by (simp add: str_of_def id_ok_def MAXCHAR_def)
  have "fprint ((''ARTICLE '' @ m) @ [CR, LF]) (cl_out c) =
    (True, (cl_out c)\<lparr>written := written (cl_out c) @ art_cmd m, room := room (cl_out c) - length (art_cmd m)\<rparr>)"
    using fprint_room [of "art_cmd m" "cl_out c"] assms(3) by (simp add: art_cmd_def)
  with assms(1) s show ?thesis by (simp add: putCmdNoFlush_def putCmdLn_def link_ok_def Let_def)
qed

lemma ask_loop_link:
  assumes "list_all id_ok ms" "link_ok C c"
    "length (concat (map art_cmd (filter (wanted (carts C c)) ms))) \<le> room (cl_out c)"
  shows "\<exists>c1. ask_loop C (text_of ms) s c = Some (True, s @ text_of (filter (wanted (carts C c)) ms), c1)
    \<and> link_ok C c1 \<and> cl_in c1 = cl_in c \<and> carts C c1 = carts C c \<and> cl_req c1 = cl_req c
    \<and> written (cl_out c1) = written (cl_out c) @ concat (map art_cmd (filter (wanted (carts C c)) ms))"
  using assms
proof (induction ms arbitrary: s c)
  case Nil
  then show ?case by (simp add: ask_loop.simps Utl_getLn_def)
next
  case (Cons m ms)
  let ?M = "carts C c"
  have m: "m \<noteq> []" "LF \<notin> set m" "length m < MAXCHAR" using Cons.prems(1) by (simp_all add: id_ok_def)
  have g: "Utl_getLn (text_of (m # ms)) = Got_line m (text_of ms)" using Utl_getLn_line [OF m(2,3)] by simp
  show ?case
  proof (cases "?M m")
    case None
    then have "\<not> cl_contains C m c" "\<not> wanted ?M m" using contains_link [OF Cons.prems(2) m(1)] by (simp_all add: wanted_def)
    then have "ask_loop C (text_of (m # ms)) s c = ask_loop C (text_of ms) s c" using g by (simp add: ask_loop.simps [of C "m @ LF # text_of ms"])
    with Cons.IH [of c s] Cons.prems \<open>\<not> wanted ?M m\<close> show ?thesis by simp
  next
    case (Some a)
    then have co: "cl_contains C m c" using contains_link [OF Cons.prems(2) m(1)] by simp
    from on_db_status [OF Cons.prems(2) m(1,3)] Some obtain d where
      d: "on_db (Db_status (cdlib C) m) c = Some (a_status a, with_db d c)" "link_ok C (with_db d c)" "db_dbf d = db_dbf (sp_db (cl_sp c))" by auto
    have M: "carts C (with_db d c) = ?M" using d(3) by simp
    show ?thesis
    proof (cases "wanted ?M m")
      case False
      then have "a_status a AND DB_NOT_DOWNLOADED = 0" using Some by (simp add: wanted_def)
      then have "ask_loop C (text_of (m # ms)) s c = ask_loop C (text_of ms) s (with_db d c)"
        using g co d(1) by (simp add: ask_loop.simps [of C "m @ LF # text_of ms"])
      with Cons.IH [of "with_db d c" s] Cons.prems(1,3) d(2) M False show ?thesis by simp
    next
      case True
      then have nd: "a_status a AND DB_NOT_DOWNLOADED \<noteq> 0" using Some by (simp add: wanted_def)
      let ?w = "filter (wanted ?M) ms"
      have room: "length (art_cmd m) + length (concat (map art_cmd ?w)) \<le> room (cl_out c)" using Cons.prems(3) True by simp
      have "id_ok m" "length (art_cmd m) \<le> room (cl_out (with_db d c))" using Cons.prems(1) room by simp_all
      from putCmd_link [OF d(2) this] obtain c1 where
        c1: "putCmdNoFlush (''ARTICLE '' @ m) (with_db d c) = (True, c1)" "link_ok C c1" "cl_in c1 = cl_in c" "cl_sp c1 = cl_sp (with_db d c)"
          "cl_req c1 = cl_req c"
          "cl_out c1 = (cl_out c)\<lparr>written := written (cl_out c) @ art_cmd m, room := room (cl_out c) - length (art_cmd m)\<rparr>" by auto
      have M1: "carts C c1 = ?M" using c1(4) M by simp
      have "ask_loop C (text_of (m # ms)) s c = ask_loop C (text_of ms) (s @ m @ [LF]) c1"
        using g co d(1) nd c1(1) by (simp add: ask_loop.simps [of C "m @ LF # text_of ms"])
      moreover have "length (concat (map art_cmd (filter (wanted (carts C c1)) ms))) \<le> room (cl_out c1)"
        using room c1(6) M1 by simp
      ultimately show ?thesis using Cons.IH [of c1 "s @ m @ [LF]"] Cons.prems(1) c1(2,3,5,6) M1 True by simp
    qed
  qed
qed

lemma receive_step:
  assumes "link_ok C c" "id_ok m" "carts C c m = Some a" "a_status a AND DB_NOT_DOWNLOADED \<noteq> 0" "answer_ok w"
    "cl_in c = answer_text w @ r"
  shows "\<exists>d l. receive_loop C (m @ LF # p) c = receive_loop C p (with_db d (c\<lparr>cl_in := r, lastStat := l\<rparr>))
    \<and> link_ok C (with_db d (c\<lparr>cl_in := r, lastStat := l\<rparr>))
    \<and> arts (cdlib C) (db_dbf d) = (carts C c)(m \<mapsto> after (clock (ce_env C)) w a)"
proof -
  have m: "m \<noteq> []" "LF \<notin> set m" "length m < MAXCHAR" using assms(2) by (simp_all add: id_ok_def)
  have g: "Utl_getLn (m @ LF # p) = Got_line m p" using Utl_getLn_line [OF m(2,3)] by simp
  show ?thesis
  proof (cases w)
    case (Found t hs ls)
    let ?r = "wire (map hdr_line hs @ [] # ls) @ ''.'' @ [CR, LF] @ r" and ?l = "''220'' @ t"
    have i: "cl_in c = ?l @ [CR, LF] @ ?r" using assms(6) Found by simp
    have ok: "fits_line ?l" "t = [] \<or> \<not> cisdigit (hd t)" "art_reply_ok hs ls" using assms(5) Found by simp_all
    have gs: "getStat C c = Some (220, c\<lparr>cl_in := ?r, lastStat := ?l\<rparr>)"
      by (rule getStat_link [OF assms(1) ok(1) i scan_220 [OF ok(2)]]) (simp add: stat_codes)
    let ?c1 = "c\<lparr>cl_in := ?r, lastStat := ?l\<rparr>"
    have l1: "link_ok C ?c1" "carts C ?c1 m = Some a" "cl_in ?c1 = ?r" using assms(1,3) by simp_all
    from retrieveAndStore_link [OF l1(1) m(1,3) l1(2) assms(4) ok(3) l1(3)] obtain d where
      d: "retrieveAndStoreArt C m ?c1 = Some (True, with_db d (?c1\<lparr>cl_in := r\<rparr>))" "link_ok C (with_db d (?c1\<lparr>cl_in := r\<rparr>))"
        "arts (cdlib C) (db_dbf d) = (carts C ?c1)(m \<mapsto> stored (clock (ce_env C)) hs ls a)" by blast
    have "?c1\<lparr>cl_in := r\<rparr> = c\<lparr>cl_in := r, lastStat := ?l\<rparr>" "carts C ?c1 = carts C c" by simp_all
    note d = d [unfolded this]
    show ?thesis using d gs g Found
      by (intro exI [of _ d] exI [of _ ?l]) (simp add: receive_loop.simps [of C "m @ LF # p"] STAT_ART_FOLLOWS_def)
  next
    case (Refused t)
    then obtain n q where ok: "reason_ok t" "scan_d t = Some (n, q)" "n \<noteq> int STAT_ART_FOLLOWS" "n \<noteq> int STAT_AUTH_REQUIRED"
      using assms(5) by auto
    have f: "fits_line t" using ok(1) by (simp add: reason_ok_def fits_line_def)
    have i: "cl_in c = t @ [CR, LF] @ r" using assms(6) Refused by simp
    note gs = getStat_link [OF assms(1) f i ok(2,4)]
    let ?c1 = "c\<lparr>cl_in := r, lastStat := t\<rparr>"
    have l1: "link_ok C ?c1" "carts C ?c1 m = Some a" using assms(1,3) by simp_all
    from retrievingFailed_link [OF l1(1) m(1,3) l1(2) assms(4) ok(1)] obtain d where
      "retrievingFailed C m t ?c1 = Some (with_db d ?c1)" "link_ok C (with_db d ?c1)"
      "arts (cdlib C) (db_dbf d) = (carts C c)(m \<mapsto> failed (clock (ce_env C)) t a)" by auto
    then show ?thesis using gs g Refused ok(3)
      by (intro exI [of _ d] exI [of _ t]) (simp add: receive_loop.simps [of C "m @ LF # p"])
  qed
qed


text \<open>The second loop over the articles that were asked for, each once.\<close>

definition answered :: "u32 \<Rightarrow> (cstr \<Rightarrow> answer) \<Rightarrow> cstr list \<Rightarrow> (cstr \<Rightarrow> art option) \<Rightarrow> cstr \<Rightarrow> art option" where
  "answered now rp ms M = (\<lambda>m. if m \<in> set ms \<and> wanted M m then map_option (after now (rp m)) (M m) else M m)"

lemma receive_loop_link:
  assumes "distinct ms" "list_all id_ok ms" "list_all (wanted (carts C c)) ms" "list_all (\<lambda>m. answer_ok (rp m)) ms" "link_ok C c"
    "cl_in c = concat (map (\<lambda>m. answer_text (rp m)) ms) @ r"
  shows "\<exists>c1. receive_loop C (text_of ms) c = Some c1 \<and> link_ok C c1 \<and> cl_in c1 = r \<and> cl_out c1 = cl_out c \<and> cl_req c1 = cl_req c
    \<and> carts C c1 = answered (clock (ce_env C)) rp ms (carts C c)"
  using assms
proof (induction ms arbitrary: c)
  case Nil
  then show ?case by (simp add: receive_loop.simps Utl_getLn_def answered_def)
next
  case (Cons m ms)
  let ?q = "concat (map (\<lambda>m. answer_text (rp m)) ms) @ r" and ?now = "clock (ce_env C)"
  from Cons.prems(3) obtain a where a: "carts C c m = Some a" "a_status a AND DB_NOT_DOWNLOADED \<noteq> 0"
    by (auto simp: wanted_def split: option.splits)
  have i: "id_ok m" "answer_ok (rp m)" "cl_in c = answer_text (rp m) @ ?q" using Cons.prems(2,4,6) by simp_all
  from receive_step [OF Cons.prems(5) i(1) a i(2,3), of "text_of ms"] obtain d l where
    d: "receive_loop C (m @ LF # text_of ms) c = receive_loop C (text_of ms) (with_db d (c\<lparr>cl_in := ?q, lastStat := l\<rparr>))"
      "link_ok C (with_db d (c\<lparr>cl_in := ?q, lastStat := l\<rparr>))"
      "arts (cdlib C) (db_dbf d) = (carts C c)(m \<mapsto> after ?now (rp m) a)" by blast
  let ?c1 = "with_db d (c\<lparr>cl_in := ?q, lastStat := l\<rparr>)"
  have m: "m \<notin> set ms" using Cons.prems(1) by simp
  have M: "carts C ?c1 x = carts C c x" if "x \<in> set ms" for x using that m d(3) by auto
  have w: "list_all (wanted (carts C ?c1)) ms"
    using Cons.prems(3) M by (auto simp: list_all_iff wanted_def)
  have p: "distinct ms" "list_all id_ok ms" "list_all (\<lambda>m. answer_ok (rp m)) ms" "cl_in ?c1 = ?q"
    using Cons.prems(1,2,4) by simp_all
  from Cons.IH [OF p(1,2) w p(3) d(2) p(4)] obtain c2 where
    c2: "receive_loop C (text_of ms) ?c1 = Some c2" "link_ok C c2" "cl_in c2 = r" "cl_out c2 = cl_out c" "cl_req c2 = cl_req c"
      "carts C c2 = answered ?now rp ms (carts C ?c1)" by auto
  have "answered ?now rp ms (carts C ?c1) = answered ?now rp (m # ms) (carts C c)"
  proof
    fix x
    show "answered ?now rp ms (carts C ?c1) x = answered ?now rp (m # ms) (carts C c) x"
      using m a d(3) by (cases "x = m") (auto simp: answered_def wanted_def)
  qed
  with c2 d(1) show ?case by simp
qed

text \<open>C2. A list of distinct message IDs is fetched from a server that answers each command with an
  article or with a refusal: one ARTICLE command is written for each entry that is in the data base and
  not yet downloaded, in the order of the list, and none for the others; all the answers are read, no
  more and no less; and afterwards each of these entries holds the article that was sent for it (or the
  text of the failure), while every other entry is what it was.  The invariant of the data base holds
  again and the connection is still up.  The laws of gdbm are assumed, stores that succeed, an alarm
  that does not go off, and room in the socket for the commands.
\<close>

theorem Client_retrieveArtList_stores:
  assumes "gdbm_laws (cdlib C)" "stores_succeed (cdlib C)" "db_inv (cdlib C) (sp_db (cl_sp c))" "connected c"
    "connectTimeout (ce_cfg C) < 0 \<or> ce_sig C"
    "distinct ms" "list_all id_ok ms" "\<And>m. m \<in> set ms \<Longrightarrow> answer_ok (rp m)"
    "cl_in c = concat (map (\<lambda>m. answer_text (rp m)) (filter (wanted (carts C c)) ms)) @ r"
    "length (concat (map art_cmd (filter (wanted (carts C c)) ms))) \<le> room (cl_out c)"
  shows "\<exists>c1. Client_retrieveArtList C (text_of ms) c = Some c1 \<and> connected c1 \<and> cl_in c1 = r
    \<and> written (cl_out c1) = written (cl_out c) @ concat (map art_cmd (filter (wanted (carts C c)) ms))
    \<and> db_inv (cdlib C) (sp_db (cl_sp c1)) \<and> carts C c1 = answered (clock (ce_env C)) rp ms (carts C c)"
proof -
  have l: "link_ok C c" using assms(1-5) by (simp add: link_ok_def)
  let ?w = "filter (wanted (carts C c)) ms"
  from ask_loop_link [OF assms(7) l assms(10), of "[]"] obtain c1 where
    c1: "ask_loop C (text_of ms) [] c = Some (True, text_of ?w, c1)" "link_ok C c1" "cl_in c1 = cl_in c" "carts C c1 = carts C c"
      "written (cl_out c1) = written (cl_out c) @ concat (map art_cmd ?w)" by auto
  have p: "distinct ?w" "list_all id_ok ?w" "list_all (wanted (carts C c1)) ?w" "list_all (\<lambda>m. answer_ok (rp m)) ?w"
    "cl_in c1 = concat (map (\<lambda>m. answer_text (rp m)) ?w) @ r"
    using assms(6-9) c1(3,4) by (auto simp: list_all_iff)
  from receive_loop_link [OF p(1-4) c1(2) p(5)] obtain c2 where
    c2: "receive_loop C (text_of ?w) c1 = Some c2" "link_ok C c2" "cl_in c2 = r" "cl_out c2 = cl_out c1"
      "carts C c2 = answered (clock (ce_env C)) rp ?w (carts C c1)" by blast
  have "answered now rp ?w (carts C c) = answered now rp ms (carts C c)" for now
    by (rule ext) (simp add: answered_def)
  with c1 c2 l show ?thesis by (auto simp: Client_retrieveArtList_def link_ok_def)
qed


definition fetch_client :: "(cstr \<Rightarrow> byte list option, cstr \<Rightarrow> byte list option) client" where
  "fetch_client = (client_at [] (''220 1 m'' @ [CR, LF] @ ''Subject: s'' @ [CR, LF] @ [CR, LF] @ ''text'' @ [CR, LF] @ ''.'' @ [CR, LF]))
     \<lparr>cl_sp := post_spool\<lparr>sp_db := sample_db\<rparr>\<rparr>"

lemma fetch_client_arts:
  "carts client_env fetch_client ''m'' = Some sample_art" "carts client_env fetch_client ''q'' = None"
  by (simp_all add: sample_db_inv client_env_def post_env_def fetch_client_def)
    (simp add: arts_def sample_db_def db_init_def mem_gdbm_def key_of_def)

theorem Client_retrieveArtList_stores_witness:
  "\<exists>c1. Client_retrieveArtList client_env (''m'' @ [LF] @ ''q'' @ [LF]) fetch_client = Some c1 \<and> cl_in c1 = []
    \<and> written (cl_out c1) = ''ARTICLE m'' @ [CR, LF]
    \<and> carts client_env c1 ''m'' = Some (stored (clock post_env) [(''Subject'', '' s'')] [''text''] sample_art)"
proof -
  let ?ms = "[''m'', ''q'']" and ?w = "Found '' 1 m'' [(''Subject'', '' s'')] [''text'']" and ?c = fetch_client
  have d: "cdlib client_env = mem_gdbm" by (simp add: client_env_def post_env_def)
  have s: "a_status sample_art AND DB_NOT_DOWNLOADED \<noteq> 0" by (simp add: sample_art_def prepared_def DB_NOT_DOWNLOADED_def)
  have c: "connected ?c" "sp_db (cl_sp ?c) = sample_db" by (simp_all add: fetch_client_def client_at_def)
  have a: "gdbm_laws (cdlib client_env)" "stores_succeed (cdlib client_env)" "db_inv (cdlib client_env) (sp_db (cl_sp ?c))"
    using mem_gdbm_laws sample_db_inv(1) by (simp_all add: d c)
  have g: "connectTimeout (ce_cfg client_env) < 0 \<or> ce_sig client_env" by (simp add: client_env_def)
  have i: "distinct ?ms" "list_all id_ok ?ms" by (simp_all add: id_ok_def MAXCHAR_def)
  have w: "answer_ok ?w"
    by (simp add: art_reply_ok_def fits_line_def hdr_ok_def hdr_line_def field_fits_def sendable_def cisspace_def cisdigit_def MAXCHAR_def)
  have f: "filter (wanted (carts client_env ?c)) ?ms = [''m'']" using s fetch_client_arts by (simp add: wanted_def)
  have t: "cl_in ?c = concat (map (\<lambda>_. answer_text ?w) (filter (wanted (carts client_env ?c)) ?ms)) @ []"
    unfolding f by (simp add: fetch_client_def client_at_def hdr_line_def wire_def stuffed_def)
  have r: "length (concat (map art_cmd (filter (wanted (carts client_env ?c)) ?ms))) \<le> room (cl_out ?c)"
    unfolding f by (simp add: fetch_client_def client_at_def art_cmd_def)
  from Client_retrieveArtList_stores [OF a c(1) g i w t r] show ?thesis
    unfolding f using s fetch_client_arts
    by (auto simp: art_cmd_def answered_def wanted_def client_env_def fetch_client_def client_at_def)
qed

end
