(* ===== verification/DnsName.thy ===== *)
theory DnsName
  imports Bytes
begin

text \<open>
  Domain names and names inside DNS packets, ucspi-tcp-0.88: \<^verbatim>\<open>dns_packet.c\<close>, \<^verbatim>\<open>dns_domain.c\<close>, \<^verbatim>\<open>dns_dfd.c\<close>,
  \<^verbatim>\<open>dns_dtda.c\<close>.

  A packet is the list of its bytes and a position an index into it; a position behind the last byte is
  never read, and \<open>None\<close> is the result 0 with \<open>error_proto\<close>.  A domain is its labels, each behind its length, and
  the empty label.  Memory is never exhausted.
\<close>

abbreviation code :: "char \<Rightarrow> nat" where "code c \<equiv> of_char c"

subsection \<open>Packets\<close>

fun dns_packet_copy :: "cstr \<Rightarrow> nat \<Rightarrow> nat \<Rightarrow> (cstr \<times> nat) option" where
  "dns_packet_copy buf pos 0 = Some ([], pos)"
| "dns_packet_copy buf pos (Suc outlen) =
     (if pos \<ge> length buf then None
      else do { (out, p) \<leftarrow> dns_packet_copy buf (pos + 1) outlen; Some (buf ! pos # out, p) })"

function dns_packet_skipname :: "cstr \<Rightarrow> nat \<Rightarrow> nat option" where
  "dns_packet_skipname buf pos =
     (if pos \<ge> length buf then None
      else let ch = code (buf ! pos) in
        if ch \<ge> 192 then Some (pos + 1 + 1)
        else if ch \<ge> 64 then None
        else if ch = 0 then Some (pos + 1)
        else dns_packet_skipname buf (pos + 1 + ch))"
  by pat_completeness auto

termination by (relation "measure (\<lambda>(buf, pos). length buf - pos)") auto

declare dns_packet_skipname.simps [simp del]

text \<open>The inner loop of \<open>dns_packet_getname\<close>: \<open>ch\<close> was read before \<open>pos\<close>.  The result is the first byte that is no
  pointer, the position behind it, and the two counters.\<close>

function follow :: "cstr \<Rightarrow> char \<Rightarrow> nat \<Rightarrow> nat \<Rightarrow> nat \<Rightarrow> (char \<times> nat \<times> nat \<times> nat) option" where
  "follow buf ch pos firstcompress loop =
     (if code ch \<ge> 192 then
        if pos \<ge> length buf then None
        else let wh = (code ch - 192) * 256; ch2 = buf ! pos; pos1 = pos + 1;
                 fc = (if firstcompress = 0 then pos1 else firstcompress); pos2 = wh + code ch2 in
          if pos2 \<ge> length buf then None
          else if loop + 1 \<ge> 1000 then None
          else follow buf (buf ! pos2) (pos2 + 1) fc (loop + 1)
      else Some (ch, pos, firstcompress, loop))"
  by pat_completeness auto

termination by (relation "measure (\<lambda>(buf, ch, pos, fc, loop). 1000 - loop)") auto

declare follow.simps [simp del]

lemma follow_loop: "follow buf ch pos fc loop = Some (ch', pos', fc', loop') \<Longrightarrow> loop \<le> loop'"
proof (induction buf ch pos fc loop rule: follow.induct)
  case (1 buf ch pos fc loop)
  show ?case
  proof (cases "code ch \<ge> 192")
    case True
    with 1(2) have "\<not> pos \<ge> length buf" "\<not> (code ch - 192) * 256 + code (buf ! pos) \<ge> length buf" "\<not> loop + 1 \<ge> 1000"
      by (auto simp: follow.simps [of buf ch] Let_def split: if_splits)
    from 1(1) [OF True this(1) refl refl refl refl refl this(2,3)] 1(2) True this show ?thesis
      by (simp add: follow.simps [of buf ch] Let_def cong: if_cong)
  qed (use 1(2) in \<open>simp add: follow.simps [of buf ch]\<close>)
qed

text \<open>The loop: \<open>state\<close> bytes of a label are still to be copied.  The result is the name, the position and \<open>firstcompress\<close>.\<close>

function getname_loop :: "cstr \<Rightarrow> nat \<Rightarrow> nat \<Rightarrow> nat \<Rightarrow> cstr \<Rightarrow> nat \<Rightarrow> (cstr \<times> nat \<times> nat) option" where
  "getname_loop buf loop state firstcompress name pos =
     (if pos \<ge> length buf then None
      else let ch = buf ! pos in
        if loop + 1 \<ge> 1000 then None
        else if state \<noteq> 0 then
          if length name + 1 > 255 then None
          else getname_loop buf (loop + 1) (state - 1) firstcompress (name @ [ch]) (pos + 1)
        else (case follow buf ch (pos + 1) firstcompress (loop + 1) of
                None \<Rightarrow> None
              | Some (ch1, pos1, fc, loop1) \<Rightarrow>
                  if code ch1 \<ge> 64 then None
                  else if length name + 1 > 255 then None
                  else if code ch1 = 0 then Some (name @ [ch1], pos1, fc)
                  else getname_loop buf loop1 (code ch1) fc (name @ [ch1]) pos1))"
  by pat_completeness auto

termination
  by (relation "measure (\<lambda>(buf, loop, s, fc, name, pos). 1000 - loop)") (auto dest!: follow_loop)

declare getname_loop.simps [simp del]

subsection \<open>Domains\<close>

text \<open>How far the loop of \<open>dns_domain_length\<close> gets from \<open>x\<close>; \<open>None\<close> is a read behind the domain.\<close>

function length_loop :: "cstr \<Rightarrow> nat \<Rightarrow> nat option" where
  "length_loop dn x =
     (if x \<ge> length dn then None
      else if code (dn ! x) = 0 then Some (x + 1) else length_loop dn (x + 1 + code (dn ! x)))"
  by pat_completeness auto

termination by (relation "measure (\<lambda>(dn, x). length dn - x)") auto

declare length_loop.simps [simp del]

definition dns_domain_length :: "cstr \<Rightarrow> nat option" where
  "dns_domain_length dn = length_loop dn 0"

definition dns_domain_copy :: "cstr \<Rightarrow> cstr option" where
  "dns_domain_copy dn = map_option (\<lambda>n. take n dn) (dns_domain_length dn)"

definition dns_packet_getname :: "cstr \<Rightarrow> nat \<Rightarrow> (cstr \<times> nat) option" where
  "dns_packet_getname buf pos =
     do { (name, p, firstcompress) \<leftarrow> getname_loop buf 0 0 0 [] pos;
          d \<leftarrow> dns_domain_copy name;
          Some (d, if firstcompress \<noteq> 0 then firstcompress else p) }"

definition dns_domain_equal :: "cstr \<Rightarrow> cstr \<Rightarrow> bool option" where
  "dns_domain_equal dn1 dn2 =
     do { len \<leftarrow> dns_domain_length dn1; len2 \<leftarrow> dns_domain_length dn2;
          Some (len = len2 \<and> case_diffb (take len dn1) (take len dn2) = 0) }"

function dns_domain_suffix :: "cstr \<Rightarrow> cstr \<Rightarrow> cstr option option" where
  "dns_domain_suffix big little =
     do { eq \<leftarrow> dns_domain_equal big little;
          if eq then Some (Some big)
          else case big of
                 [] \<Rightarrow> None
               | c # r \<Rightarrow> if code c = 0 then Some None else dns_domain_suffix (drop (code c) r) little }"
  by pat_completeness auto

termination by (relation "measure (\<lambda>(big, little). length big)") auto

declare dns_domain_suffix.simps [simp del]

subsection \<open>Names in text\<close>

text \<open>A label that ended goes to the name behind its length.\<close>

definition put_label :: "cstr \<Rightarrow> cstr \<Rightarrow> cstr option" where
  "put_label name label =
     (if label = [] then Some name
      else if length name + length label + 1 > 255 then None
      else Some (name @ char_of (length label) # label))"

definition is_octal :: "char \<Rightarrow> bool" where
  "is_octal c \<longleftrightarrow> 48 \<le> code c \<and> code c \<le> 55"

text \<open>The character after a backslash and what is left; a \<open>char\<close> holds 8 bits.\<close>

definition escape :: "char \<Rightarrow> cstr \<Rightarrow> char \<times> cstr" where
  "escape ch buf =
     (if is_octal ch then
        case buf of
          c2 # r2 \<Rightarrow>
            if is_octal c2 then
              let v = (code ch - 48) * 8 + (code c2 - 48) in
                case r2 of
                  c3 # r3 \<Rightarrow> if is_octal c3 then (char_of (v * 8 + (code c3 - 48)), r3) else (char_of v, r2)
                | [] \<Rightarrow> (char_of v, r2)
            else (char_of (code ch - 48), buf)
        | [] \<Rightarrow> (char_of (code ch - 48), buf)
      else (ch, buf))"

lemma escape_shorter: "escape ch buf = (c, r) \<Longrightarrow> length r \<le> length buf"
  by (auto simp: escape_def Let_def split: list.splits if_splits)

text \<open>The loop over the characters; a backslash at the end is dropped.\<close>

function dot_loop :: "cstr \<Rightarrow> cstr \<Rightarrow> cstr \<Rightarrow> (cstr \<times> cstr) option" where
  "dot_loop [] name label = Some (name, label)"
| "dot_loop (ch # buf) name label =
     (if ch = CHR ''.'' then do { name1 \<leftarrow> put_label name label; dot_loop buf name1 [] }
      else if ch = CHR 0x5C then
        case buf of
          [] \<Rightarrow> Some (name, label)
        | e # r \<Rightarrow> (case escape e r of (c, r1) \<Rightarrow>
                     if length label \<ge> 63 then None else dot_loop r1 name (label @ [c]))
      else if length label \<ge> 63 then None else dot_loop buf name (label @ [ch]))"
  by pat_completeness auto

termination
  by (relation "measure (\<lambda>(buf, name, label). length buf)")
    (auto simp: less_Suc_eq_le dest: escape_shorter escape_shorter [OF sym] intro: le_SucI)

definition dns_domain_fromdot :: "cstr \<Rightarrow> cstr option" where
  "dns_domain_fromdot buf =
     do { (name, label) \<leftarrow> dot_loop buf [] [];
          name1 \<leftarrow> put_label name label;
          if length name1 + 1 > 255 then None else Some (name1 @ [NUL]) }"

definition todot_char :: "char \<Rightarrow> cstr" where
  "todot_char c =
     (let ch2 = (if 65 \<le> code c \<and> code c \<le> 90 then char_of (code c + 32) else c); n = code ch2 in
      if 97 \<le> n \<and> n \<le> 122 \<or> cisdigit ch2 \<or> ch2 = CHR ''-'' \<or> ch2 = CHR ''_'' then [ch2]
      else [CHR 0x5C, char_of (48 + n div 64 mod 8), char_of (48 + n div 8 mod 8), char_of (48 + n mod 8)])"

text \<open>The labels from the one at the head on; \<open>None\<close> is a read behind the domain.\<close>

function todot_loop :: "cstr \<Rightarrow> cstr option" where
  "todot_loop [] = None"
| "todot_loop (c # d) =
     (if length d < code c then None
      else let t = concat (map todot_char (take (code c) d)); d1 = drop (code c) d in
        case d1 of [] \<Rightarrow> None
        | e # _ \<Rightarrow> if code e = 0 then Some t else map_option (\<lambda>r. t @ ''.'' @ r) (todot_loop d1))"
  by pat_completeness auto

termination by (relation "measure length") auto

declare todot_loop.simps(2) [simp del]

definition dns_domain_todot_cat :: "cstr \<Rightarrow> cstr \<Rightarrow> cstr option" where
  "dns_domain_todot_cat out d =
     (case d of [] \<Rightarrow> None
      | c # _ \<Rightarrow> if code c = 0 then Some (out @ ''.'') else map_option (\<lambda>t. out @ t) (todot_loop d))"


subsection \<open>Names in packets\<close>

text \<open>The bytes at \<open>pos\<close> spell labels: with their end, a label before others, or a pointer to them.  The number counts
  the turns of the loop: one for each byte of the name and one for each pointer.\<close>

inductive name_at :: "cstr \<Rightarrow> nat \<Rightarrow> cstr list \<Rightarrow> nat \<Rightarrow> bool" where
  name_end: "pos < length buf \<Longrightarrow> code (buf ! pos) = 0 \<Longrightarrow> name_at buf pos [] 1"
| name_label: "pos < length buf \<Longrightarrow> k = code (buf ! pos) \<Longrightarrow> 0 < k \<Longrightarrow> k < 64 \<Longrightarrow> pos + 1 + k \<le> length buf \<Longrightarrow>
    name_at buf (pos + 1 + k) ls n \<Longrightarrow> name_at buf pos (take k (drop (pos + 1) buf) # ls) (n + k + 1)"
| name_pointer: "pos + 1 < length buf \<Longrightarrow> 192 \<le> code (buf ! pos) \<Longrightarrow>
    name_at buf ((code (buf ! pos) - 192) * 256 + code (buf ! (pos + 1))) ls n \<Longrightarrow> name_at buf pos ls (n + 1)"

definition pack :: "cstr list \<Rightarrow> cstr" where
  "pack ls = concat (map (\<lambda>l. char_of (length l) # l) ls) @ [NUL]"

lemma pack_simps [simp]: "pack [] = [NUL]" "pack (l # ls) = char_of (length l) # l @ pack ls"
  by (simp_all add: pack_def)

definition label_ok :: "cstr \<Rightarrow> bool" where
  "label_ok l \<longleftrightarrow> l \<noteq> [] \<and> length l < 64"

lemma code_length: "n < 256 \<Longrightarrow> code (char_of (n :: nat)) = n"
  by (simp add: of_char_mod_256)

lemma code_0: "code c = 0 \<longleftrightarrow> c = NUL"
  using of_char_eq_iff [of c NUL, where 'a = nat] by (auto simp del: of_char_eq_iff)

lemma length_loop_step: "length_loop (a @ char_of (length l) # l @ r) (length a) = length_loop (a @ char_of (length l) # l @ r) (length a + 1 + length l)"
  if "label_ok l"
  using that by (subst length_loop.simps) (simp add: label_ok_def code_length)

lemma length_loop_pack: "list_all label_ok ls \<Longrightarrow> length_loop (a @ pack ls @ r) (length a) = Some (length a + length (pack ls))"
proof (induction ls arbitrary: a)
  case Nil
  then show ?case by (subst length_loop.simps) simp
next
  case (Cons l ls)
  from Cons.IH [of "a @ char_of (length l) # l"] Cons.prems length_loop_step [of l a "pack ls @ r"] show ?case by simp
qed

lemma domain_length_pack: "list_all label_ok ls \<Longrightarrow> dns_domain_length (pack ls @ r) = Some (length (pack ls))"
  using length_loop_pack [of ls "[]" r] by (simp add: dns_domain_length_def)

lemma domain_copy_pack: "list_all label_ok ls \<Longrightarrow> dns_domain_copy (pack ls) = Some (pack ls)"
  using domain_length_pack [of ls "[]"] by (simp add: dns_domain_copy_def)

lemma name_at_ok: "name_at buf pos ls n \<Longrightarrow> list_all label_ok ls \<and> pos < length buf \<and> 0 < n"
  by (induction rule: name_at.induct) (auto simp: label_ok_def)

lemma name_at_skip: "name_at buf pos ls n \<Longrightarrow> dns_packet_skipname buf pos \<noteq> None"
  by (induction rule: name_at.induct) (subst dns_packet_skipname.simps, simp)+

text \<open>What the loop does with the bytes of a label, with a pointer, and with the end.\<close>

lemma getname_step:
  "getname_loop buf loop state fc name pos =
     (if pos \<ge> length buf \<or> loop + 1 \<ge> 1000 then None
      else if state \<noteq> 0 then
        if length name \<ge> 255 then None
        else getname_loop buf (loop + 1) (state - 1) fc (name @ [buf ! pos]) (pos + 1)
      else (case follow buf (buf ! pos) (pos + 1) fc (loop + 1) of
              None \<Rightarrow> None
            | Some (ch1, pos1, fc, loop1) \<Rightarrow>
                if code ch1 \<ge> 64 \<or> length name \<ge> 255 then None
                else if code ch1 = 0 then Some (name @ [ch1], pos1, fc)
                else getname_loop buf loop1 (code ch1) fc (name @ [ch1]) pos1))"
  by (subst getname_loop.simps) (simp add: Let_def split: option.split)

lemma getname_copy:
  "getname_loop buf loop k fc name pos =
     (if k = 0 \<or> pos + k \<le> length buf \<and> loop + k < 1000 \<and> length name + k \<le> 255
      then getname_loop buf (loop + k) 0 fc (name @ take k (drop pos buf)) (pos + k) else None)"
proof (induction k arbitrary: loop name pos)
  case (Suc k)
  show ?case
  proof (cases "pos < length buf \<and> loop + 1 < 1000 \<and> length name + 1 \<le> 255")
    case True
    then have "getname_loop buf loop (Suc k) fc name pos = getname_loop buf (loop + 1) k fc (name @ [buf ! pos]) (pos + 1)"
      by (subst getname_step) simp
    moreover have "take (Suc k) (drop pos buf) = buf ! pos # take k (drop (Suc pos) buf)"
      using True by (simp add: Cons_nth_drop_Suc [symmetric])
    ultimately show ?thesis using Suc.IH [of "loop + 1" "name @ [buf ! pos]" "pos + 1"] True
      by (cases "k = 0") auto
  next
    case False
    then have "getname_loop buf loop (Suc k) fc name pos = None" by (subst getname_step) auto
    then show ?thesis using False by auto
  qed
qed simp

lemma getname_end:
  assumes "pos < length buf" "code (buf ! pos) = 0"
  shows "getname_loop buf loop 0 fc name pos =
    (if loop + 1 < 1000 \<and> length name + 1 \<le> 255 then Some (name @ [NUL], pos + 1, fc) else None)"
  using assms by (subst getname_step) (simp add: follow.simps code_0)

lemma getname_label:
  assumes "pos < length buf" "0 < code (buf ! pos)" "code (buf ! pos) < 64"
  shows "getname_loop buf loop 0 fc name pos =
    (if loop + 1 < 1000 \<and> length name + 1 \<le> 255
     then getname_loop buf (loop + 1) (code (buf ! pos)) fc (name @ [buf ! pos]) (pos + 1) else None)"
  using assms by (subst getname_step) (simp add: follow.simps)

lemma getname_bad:
  assumes "64 \<le> code (buf ! pos)" "code (buf ! pos) < 192"
  shows "getname_loop buf loop 0 fc name pos = None"
  using assms by (subst getname_step) (simp add: follow.simps Let_def)

lemma getname_pointer:
  assumes "192 \<le> code (buf ! pos)"
  shows "getname_loop buf loop 0 fc name pos =
    (if pos + 1 < length buf \<and> loop + 1 < 1000
     then getname_loop buf (loop + 1) 0 (if fc = 0 then pos + 2 else fc) name ((code (buf ! pos) - 192) * 256 + code (buf ! (pos + 1)))
     else None)" (is "?l = (if ?c then getname_loop buf (loop + 1) 0 ?fc name ?w else None)")
proof (cases "?c \<and> ?w < length buf \<and> loop + 2 < 1000")
  case True
  then have f: "follow buf (buf ! pos) (pos + 1) fc (loop + 1) = follow buf (buf ! ?w) (?w + 1) ?fc (loop + 2)"
    using assms by (subst follow.simps) (simp add: Let_def)
  let ?body = "case_option None (\<lambda>(ch1, pos1, fc, loop1).
      if code ch1 \<ge> 64 \<or> length name \<ge> 255 then None
      else if code ch1 = 0 then Some (name @ [ch1], pos1, fc)
      else getname_loop buf loop1 (code ch1) fc (name @ [ch1]) pos1)"
  have "?l = ?body (follow buf (buf ! pos) (pos + 1) fc (loop + 1))"
    using True by (subst getname_step) simp
  also have "\<dots> = ?body (follow buf (buf ! ?w) (?w + 1) ?fc (loop + 2))" unfolding f ..
  also have "\<dots> = getname_loop buf (loop + 1) 0 ?fc name ?w"
    using True by (subst (2) getname_step) simp
  finally show ?thesis using True by simp
next
  case False
  then have "?l = None"
    using assms by (subst getname_step, subst follow.simps) (auto simp: Let_def)
  moreover have "\<not> ?c \<or> getname_loop buf (loop + 1) 0 ?fc name ?w = None"
    using False by (subst getname_step) auto
  ultimately show ?thesis by auto
qed


lemma skip_end: "pos < length buf \<Longrightarrow> code (buf ! pos) = 0 \<Longrightarrow> dns_packet_skipname buf pos = Some (pos + 1)"
  by (subst dns_packet_skipname.simps) simp

lemma skip_pointer: "pos < length buf \<Longrightarrow> 192 \<le> code (buf ! pos) \<Longrightarrow> dns_packet_skipname buf pos = Some (pos + 2)"
  by (subst dns_packet_skipname.simps) simp

lemma skip_label: "pos < length buf \<Longrightarrow> 0 < code (buf ! pos) \<Longrightarrow> code (buf ! pos) < 64 \<Longrightarrow>
    dns_packet_skipname buf pos = dns_packet_skipname buf (pos + 1 + code (buf ! pos))"
  by (subst dns_packet_skipname.simps) (simp add: Let_def)

text \<open>The position that is handed out: behind the first pointer, or behind the name.\<close>

definition next_pos :: "nat \<Rightarrow> nat \<Rightarrow> nat" where
  "next_pos fc p = (if fc \<noteq> 0 then fc else p)"

lemma getname_sound:
  "getname_loop buf loop 0 fc name pos = Some (d, p, fc') \<Longrightarrow>
     \<exists>ls n. name_at buf pos ls n \<and> loop + n < 1000 \<and> d = name @ pack ls \<and> length d \<le> 255
       \<and> Some (next_pos fc' p) = (if fc \<noteq> 0 then Some fc else dns_packet_skipname buf pos)"
proof (induction "1000 - loop" arbitrary: loop fc name pos rule: less_induct)
  case less
  let ?ch = "code (buf ! pos)"
  have pos: "pos < length buf" and loop: "loop + 1 < 1000"
    using less.prems by (subst (asm) getname_step, simp split: if_splits)+
  consider "?ch = 0" | "0 < ?ch" "?ch < 64" | "64 \<le> ?ch" "?ch < 192" | "192 \<le> ?ch" by linarith
  then show ?case
  proof cases
    case 1
    with less.prems pos have "d = name @ [NUL]" "p = pos + 1" "fc' = fc" "length name + 1 \<le> 255"
      by (simp_all add: getname_end split: if_splits)
    with name_end [OF pos 1] loop skip_end [OF pos 1] show ?thesis
      by (intro exI [of _ "[]"] exI [of _ 1]) (simp add: next_pos_def)
  next
    case 2
    let ?k = ?ch
    from less.prems have g: "getname_loop buf (loop + 1) ?k fc (name @ [buf ! pos]) (pos + 1) = Some (d, p, fc')"
      by (simp add: getname_label [OF pos 2] split: if_splits)
    then have c: "pos + 1 + ?k \<le> length buf" "loop + 1 + ?k < 1000" and
      "getname_loop buf (loop + 1 + ?k) 0 fc ((name @ [buf ! pos]) @ take ?k (drop (pos + 1) buf)) (pos + 1 + ?k) = Some (d, p, fc')"
      using 2 by (subst (asm) getname_copy, simp split: if_splits)+
    moreover have "1000 - (loop + 1 + ?k) < 1000 - loop" using loop by simp
    ultimately obtain ls n where
      n: "name_at buf (pos + 1 + ?k) ls n" "loop + 1 + ?k + n < 1000" "d = ((name @ [buf ! pos]) @ take ?k (drop (pos + 1) buf)) @ pack ls"
        "length d \<le> 255" "Some (next_pos fc' p) = (if fc \<noteq> 0 then Some fc else dns_packet_skipname buf (pos + 1 + ?k))"
      using less.hyps by blast
    have l: "length (take ?k (drop (Suc pos) buf)) = ?k" using c(1) by simp
    from name_label [OF pos refl 2 c(1) n(1)] n(2-5) skip_label [OF pos 2] show ?thesis
      by (intro exI [of _ "take ?k (drop (pos + 1) buf) # ls"] exI [of _ "n + ?k + 1"]) (simp add: l del: length_take)
  next
    case 3
    with less.prems show ?thesis by (simp add: getname_bad)
  next
    case 4
    let ?w = "(code (buf ! pos) - 192) * 256 + code (buf ! (pos + 1))"
    let ?fc = "if fc = 0 then pos + 2 else fc"
    from less.prems have p: "pos + 1 < length buf" and g: "getname_loop buf (loop + 1) 0 ?fc name ?w = Some (d, p, fc')"
      by (simp_all add: getname_pointer [OF 4] split: if_splits)
    have "1000 - (loop + 1) < 1000 - loop" using loop by simp
    from less.hyps [OF this g] obtain ls n where
      n: "name_at buf ?w ls n" "loop + 1 + n < 1000" "d = name @ pack ls" "length d \<le> 255"
        "Some (next_pos fc' p) = (if ?fc \<noteq> 0 then Some ?fc else dns_packet_skipname buf ?w)" by blast
    from name_pointer [OF p 4 n(1)] n(2-5) skip_pointer [OF pos 4] show ?thesis
      by (intro exI [of _ ls] exI [of _ "n + 1"]) (simp split: if_splits)
  qed
qed

lemma getname_complete:
  "name_at buf pos ls n \<Longrightarrow> loop + n < 1000 \<Longrightarrow> length (name @ pack ls) \<le> 255 \<Longrightarrow>
     \<exists>p fc'. getname_loop buf loop 0 fc name pos = Some (name @ pack ls, p, fc')
       \<and> Some (next_pos fc' p) = (if fc \<noteq> 0 then Some fc else dns_packet_skipname buf pos)"
proof (induction arbitrary: loop fc name rule: name_at.induct)
  case (name_end pos buf)
  then show ?case by (simp add: getname_end skip_end next_pos_def)
next
  case (name_label pos buf k ls n)
  have k: "0 < code (buf ! pos)" "code (buf ! pos) < 64" "buf ! pos = char_of k" using name_label.hyps by simp_all
  let ?l = "take k (drop (pos + 1) buf)"
  have l: "length ?l = k" using name_label.hyps by simp
  have d: "name @ pack (?l # ls) = (name @ buf ! pos # ?l) @ pack ls" using l k(3) by simp
  have len: "length (name @ buf ! pos # ?l) + length (pack ls) \<le> 255" using name_label.prems(2) unfolding d by simp
  then have "getname_loop buf loop 0 fc name pos = getname_loop buf (loop + 1 + k) 0 fc ((name @ [buf ! pos]) @ ?l) (pos + 1 + k)"
    using name_label.hyps(2-5) name_label.prems(1) l
    by (subst getname_label [OF name_label.hyps(1) k(1,2)], subst getname_copy) simp
  moreover from name_label.IH [of "loop + 1 + k" "name @ buf ! pos # ?l" fc] name_label.prems(1) len
  obtain p fc' where "getname_loop buf (loop + 1 + k) 0 fc (name @ buf ! pos # ?l) (pos + 1 + k) = Some ((name @ buf ! pos # ?l) @ pack ls, p, fc')"
    "Some (next_pos fc' p) = (if fc \<noteq> 0 then Some fc else dns_packet_skipname buf (pos + 1 + k))" by auto
  ultimately show ?case using skip_label [OF name_label.hyps(1) k(1,2)] name_label.hyps(2) unfolding d by simp
next
  case (name_pointer pos buf ls n)
  from name_pointer.IH [of "loop + 1" name "if fc = 0 then pos + 2 else fc"] name_pointer.prems name_pointer.hyps skip_pointer [of pos buf]
  show ?case by (fastforce simp: getname_pointer)
qed

text \<open>C13. A name is read from a packet exactly when the bytes at the position spell one, with its labels and with pointers
  to anywhere in the packet, in fewer than 1000 turns and in at most 255 bytes.  What is handed out is the
  domain of these labels, and the position behind the name as \<open>dns_packet_skipname\<close> finds it; a circle of
  pointers spells nothing, and a name that runs out of the packet is refused.\<close>

theorem dns_packet_getname_names:
  "dns_packet_getname buf pos = Some (d, p) \<longleftrightarrow>
     (\<exists>ls n. name_at buf pos ls n \<and> n < 1000 \<and> d = pack ls \<and> length d \<le> 255 \<and> dns_packet_skipname buf pos = Some p)"
    (is "?l \<longleftrightarrow> ?r")
proof
  assume ?l
  then obtain name q fc where g: "getname_loop buf 0 0 0 [] pos = Some (name, q, fc)" "dns_domain_copy name = Some d" "p = next_pos fc q"
    by (auto simp: dns_packet_getname_def next_pos_def split: bind_splits)
  from getname_sound [OF g(1)] obtain ls n where
    n: "name_at buf pos ls n" "n < 1000" "name = pack ls" "length name \<le> 255" "Some (next_pos fc q) = dns_packet_skipname buf pos" by auto
  with g(2,3) name_at_ok [OF n(1)] show ?r by (auto simp: domain_copy_pack)
next
  assume ?r
  then obtain ls n where n: "name_at buf pos ls n" "n < 1000" "d = pack ls" "length d \<le> 255" "dns_packet_skipname buf pos = Some p" by auto
  from getname_complete [OF n(1), of 0 "[]" 0] n(2-5) obtain q fc where
    "getname_loop buf 0 0 0 [] pos = Some (pack ls, q, fc)" "p = next_pos fc q" by auto
  with n(3) name_at_ok [OF n(1)] show ?l by (simp add: dns_packet_getname_def domain_copy_pack next_pos_def)
qed


text \<open>A pointer to itself is refused.\<close>

lemma getname_circle: "dns_packet_getname [char_of (192 :: nat), NUL] 0 = None"
proof -
  have "\<not> name_at [char_of (192 :: nat), NUL] 0 ls n" for ls n
  proof
    assume "name_at [char_of (192 :: nat), NUL] 0 ls n"
    then show False
      by (induction "[char_of (192 :: nat), NUL]" "0 :: nat" ls n rule: name_at.induct) (simp_all add: code_length)
  qed
  then show ?thesis
    by (auto simp: dns_packet_getname_def split: bind_splits dest: getname_sound)
qed

subsection \<open>Names and their text\<close>

lemma escape_octal:
  assumes "(n :: nat) < 256"
  shows "escape (char_of (48 + n div 64 mod 8)) (char_of (48 + n div 8 mod 8) # char_of (48 + n mod 8) # r) = (char_of n, r)"
proof -
  have o: "is_octal (char_of (48 + m))" "code (char_of (48 + m)) - 48 = m" if "m < 8" for m :: nat
    using that by (simp_all add: is_octal_def code_length)
  have d: "n div 64 < 8" "n div 8 div 8 = n div 64" using assms by (simp_all add: div_mult2_eq [symmetric] less_mult_imp_div_less)
  have m: "n div 64 mod 8 = n div 64" "(n div 64 * 8 + n div 8 mod 8) * 8 + n mod 8 = n"
    using div_mult_mod_eq [of "n div 8" 8] div_mult_mod_eq [of n 8] d by simp_all
  with o [of "n div 64"] o [of "n div 8 mod 8"] o [of "n mod 8"] d(1) show ?thesis
    by (simp add: escape_def Let_def del: char_of_mod_256)
qed

lemma todot_char_lower: "dot_loop (todot_char c @ r) name label =
    (if length label \<ge> 63 then None else dot_loop r name (label @ [ctolower c]))"
proof -
  let ?c = "ctolower c"
  have l: "(if 65 \<le> code c \<and> code c \<le> 90 then char_of (code c + 32) else c) = ?c" by (simp add: ctolower_def)
  show ?thesis
  proof (cases "97 \<le> code ?c \<and> code ?c \<le> 122 \<or> cisdigit ?c \<or> ?c = CHR ''-'' \<or> ?c = CHR ''_''")
    case True
    then have "todot_char c = [?c]" by (simp add: todot_char_def l Let_def)
    moreover have "?c \<noteq> CHR ''.''" "?c \<noteq> CHR 0x5C" using True by (auto simp: cisdigit_def)
    ultimately show ?thesis by simp
  next
    case False
    define a b d where ab: "a = char_of (48 + code ?c div 64 mod 8)" "b = char_of (48 + code ?c div 8 mod 8)" "d = char_of (48 + code ?c mod 8)"
    have "todot_char c = [CHR 0x5C, a, b, d]"
      using False unfolding ab by (simp add: todot_char_def l Let_def del: of_char_eq_iff)
    moreover have "escape a (b # d # r) = (char_of (code ?c), r)" unfolding ab by (rule escape_octal) simp
    ultimately show ?thesis by simp
  qed
qed

lemma todot_label: "length label + length l \<le> 63 \<Longrightarrow>
    dot_loop (concat (map todot_char l) @ r) name label = dot_loop r name (label @ map ctolower l)"
  by (induction l arbitrary: label) (simp_all add: todot_char_lower)

lemma todot_loop_label: "label_ok l \<Longrightarrow> todot_loop (char_of (length l) # l @ e # d) =
    (if code e = 0 then Some (concat (map todot_char l)) else map_option (\<lambda>r. concat (map todot_char l) @ ''.'' @ r) (todot_loop (e # d)))"
  by (subst todot_loop.simps) (simp add: label_ok_def code_length Let_def)

definition lower :: "cstr list \<Rightarrow> cstr list" where
  "lower ls = map (map ctolower) ls"

lemma lower_simps [simp]: "lower [] = []" "lower (l # ls) = map ctolower l # lower ls"
  by (simp_all add: lower_def)

lemma length_pack_lower [simp]: "length (pack (lower ls)) = length (pack ls)"
  by (induction ls) simp_all

text \<open>The text of labels, read behind a name of which nothing is cut off.\<close>

lemma dot_loop_labels:
  "list_all label_ok ls \<Longrightarrow> ls \<noteq> [] \<Longrightarrow> length name + length (pack ls) \<le> 255 \<Longrightarrow>
     \<exists>t name1 label. todot_loop (pack ls) = Some t \<and> dot_loop t name [] = Some (name1, label)
       \<and> put_label name1 label = Some (name @ butlast (pack (lower ls)))"
proof (induction ls arbitrary: name)
  case (Cons l ls)
  have l: "label_ok l" "length l \<le> 63" "map ctolower l \<noteq> []" using Cons.prems(1) by (simp_all add: label_ok_def)
  let ?t = "concat (map todot_char l)"
  show ?case
  proof (cases ls)
    case Nil
    have "todot_loop (pack [l]) = Some ?t" using todot_loop_label [OF l(1), of NUL "[]"] by simp
    moreover have "dot_loop ?t name [] = Some (name, map ctolower l)" using todot_label [of "[]" l "[]" name] l(2) by simp
    ultimately show ?thesis using Cons.prems(3) l(3) Nil by (simp add: put_label_def butlast_append)
  next
    case (Cons l2 ls2)
    have l2: "label_ok l2" using Cons.prems(1) Cons by simp
    let ?name = "name @ char_of (length l) # map ctolower l"
    have len: "length ?name + length (pack ls) \<le> 255" using Cons.prems(3) by simp
    from Cons.IH [OF _ _ len] Cons.prems(1) Cons obtain t name1 label where
      i: "todot_loop (pack ls) = Some t" "dot_loop t ?name [] = Some (name1, label)"
        "put_label name1 label = Some (?name @ butlast (pack (lower ls)))" by auto
    have p: "pack (l # ls) = char_of (length l) # l @ char_of (length l2) # l2 @ pack ls2" "pack ls = char_of (length l2) # l2 @ pack ls2"
      using Cons by simp_all
    have "code (char_of (length l2)) \<noteq> 0" using l2 by (simp add: label_ok_def code_length)
    then have t: "todot_loop (pack (l # ls)) = Some (?t @ ''.'' @ t)"
      using todot_loop_label [OF l(1), of "char_of (length l2)" "l2 @ pack ls2"] i(1) unfolding p by simp
    have "put_label name (map ctolower l) = Some ?name" using len l(3) by (simp add: put_label_def pack_def)
    then have "dot_loop (?t @ ''.'' @ t) name [] = Some (name1, label)" using todot_label [of "[]" l "''.'' @ t" name] l(2) i(2) by simp
    with t i(3) show ?thesis by (simp add: butlast_append pack_def)
  qed
qed simp

text \<open>C22. The text of a domain, with every byte that is no letter, digit, hyphen or underscore as an octal escape, is read back
  as the same domain in small letters.\<close>

theorem dns_domain_todot_fromdot:
  assumes "list_all label_ok ls" "length (pack ls) \<le> 255"
  shows "\<exists>t. dns_domain_todot_cat out (pack ls) = Some (out @ t) \<and> dns_domain_fromdot t = Some (pack (lower ls))"
proof (cases ls)
  case Nil
  then show ?thesis
    by (intro exI [of _ "''.''"]) (simp add: dns_domain_todot_cat_def dns_domain_fromdot_def put_label_def)
next
  case (Cons l r)
  from dot_loop_labels [OF assms(1), of "[]"] assms(2) Cons obtain t name label where
    t: "todot_loop (pack ls) = Some t" "dot_loop t [] [] = Some (name, label)" "put_label name label = Some (butlast (pack (lower ls)))"
    by auto
  have "code (char_of (length l)) \<noteq> 0" using assms(1) Cons by (simp add: label_ok_def code_length)
  with t(1) have "dns_domain_todot_cat out (pack ls) = Some (out @ t)"
    by (simp add: dns_domain_todot_cat_def Cons)
  moreover have "butlast (pack (lower ls)) @ [NUL] = pack (lower ls)" "length (butlast (pack (lower ls))) + 1 \<le> 255"
    using assms(2) length_pack_lower [of ls] by (simp_all add: pack_def butlast_append del: length_pack_lower)
  ultimately show ?thesis using t(2,3) by (auto simp: dns_domain_fromdot_def)
qed

theorem dns_domain_todot_fromdot_witness:
  "\<exists>t. dns_domain_todot_cat [] (pack [''Www'', ''eh.2002'']) = Some ([] @ t) \<and> dns_domain_fromdot t = Some (pack (lower [''Www'', ''eh.2002'']))"
  by (rule dns_domain_todot_fromdot) (simp_all add: label_ok_def pack_def)

end
