(* ===== verification/DnsAnswer.thy ===== *)
theory DnsAnswer
  imports DnsName Packs "HOL-Library.Multiset"
begin

text \<open>
  Answers of the DNS and what is asked, ucspi-tcp-0.88: \<^verbatim>\<open>dns_random.c\<close>, \<^verbatim>\<open>dns_sortip.c\<close>, \<^verbatim>\<open>dns_ip.c\<close>, \<^verbatim>\<open>dns_name.c\<close>,
  \<^verbatim>\<open>dns_txt.c\<close>, \<^verbatim>\<open>dns_nd.c\<close>.

  A \<open>stralloc\<close> is the list of its bytes.  \<open>None\<close> is the result -1.  The resolver, which gives the packet
  for a domain and a type or fails, is an argument.
\<close>

subsection \<open>Random numbers\<close>

record rnd =
  r_seed :: "u32 list"
  r_in :: "u32 list"
  r_out :: "u32 list"
  outleft :: nat

definition rotate :: "u32 \<Rightarrow> nat \<Rightarrow> u32" where
  "rotate x b = push_bit b x OR drop_bit (32 - b) x"

text \<open>The macro \<open>MUSH\<close> on \<open>t\<close> and \<open>x\<close>.\<close>

definition mush :: "u32 list \<Rightarrow> u32 \<Rightarrow> nat \<times> nat \<Rightarrow> u32 list \<times> u32 \<Rightarrow> u32 list \<times> u32" where
  "mush seed acc ib tx =
     (case (ib, tx) of ((i, b), (t, x)) \<Rightarrow> let v = t ! i + (((x XOR seed ! i) + acc) XOR rotate x b) in (t[i := v], v))"

definition mushes :: "(nat \<times> nat) list" where
  "mushes = [(0, 5), (1, 7), (2, 9), (3, 13), (4, 5), (5, 7), (6, 9), (7, 13), (8, 5), (9, 7), (10, 9), (11, 13)]"

fun rounds :: "nat \<Rightarrow> u32 list \<Rightarrow> u32 \<Rightarrow> u32 list \<times> u32 \<Rightarrow> u32 \<times> u32 list \<times> u32" where
  "rounds 0 seed acc tx = (acc, tx)"
| "rounds (Suc r) seed acc tx = (let s = acc + 0x9e3779b9 in rounds r seed s (fold (mush seed s) mushes tx))"

definition surf :: "rnd \<Rightarrow> rnd" where
  "surf d =
     (let seed = r_seed d; t0 = map2 (XOR) (r_in d) (take 12 (drop 12 seed)); o0 = take 8 (drop 24 seed);
          (s1, t1, x1) = rounds 16 seed 0 (t0, t0 ! 11); o1 = map2 (XOR) o0 (take 8 (drop 4 t1));
          (s2, t2, x2) = rounds 16 seed s1 (t1, x1); o2 = map2 (XOR) o1 (take 8 (drop 4 t2))
      in d\<lparr>r_out := o2\<rparr>)"

definition words4 :: "byte list \<Rightarrow> nat \<Rightarrow> u32 list" where
  "words4 s n = map (\<lambda>i. uint32_unpack (drop (4 * i) s)) [0..<n]"

text \<open>\<open>now\<close>, \<open>pid\<close> and \<open>ppid\<close> are what the system gives; what is not set here is 0.\<close>

definition dns_random_init :: "byte list \<Rightarrow> taia \<Rightarrow> u32 \<Rightarrow> u32 \<Rightarrow> rnd" where
  "dns_random_init data now pid ppid =
     \<lparr>r_seed = words4 data 32, r_in = replicate 4 0 @ words4 (taia_pack now) 4 @ [pid, ppid, 0, 0],
      r_out = replicate 8 0, outleft = 0\<rparr>"

fun count_up :: "nat list \<Rightarrow> u32 list \<Rightarrow> u32 list" where
  "count_up [] w = w"
| "count_up (i # js) w = (let v = w ! i + 1; w1 = w[i := v] in if v = 0 then count_up js w1 else w1)"

definition dns_random :: "nat \<Rightarrow> rnd \<Rightarrow> nat \<times> rnd" where
  "dns_random n d =
     (if n = 0 then (0, d)
      else let d1 = (if outleft d = 0 then (surf (d\<lparr>r_in := count_up [0, 1, 2, 3] (r_in d)\<rparr>))\<lparr>outleft := 8\<rparr> else d);
               k = outleft d1 - 1
           in (unat (r_out d1 ! k) mod n, d1\<lparr>outleft := k\<rparr>))"

text \<open>Addresses of 4 bytes change places.\<close>

definition get4 :: "cstr \<Rightarrow> nat \<Rightarrow> cstr" where
  "get4 s i = take 4 (drop (4 * i) s)"

definition put4 :: "nat \<Rightarrow> cstr \<Rightarrow> cstr \<Rightarrow> cstr" where
  "put4 i b s = take (4 * i) s @ b @ drop (4 * i + 4) s"

fun sort_loop :: "nat \<Rightarrow> cstr \<Rightarrow> rnd \<Rightarrow> cstr \<times> rnd" where
  "sort_loop (Suc (Suc n)) s d =
     (let (i, d1) = dns_random (Suc (Suc n)) d; m = Suc n; tmp = get4 s i; s1 = put4 i (get4 s m) s; s2 = put4 m tmp s1
      in sort_loop (Suc n) s2 d1)"
| "sort_loop n s d = (s, d)"

definition dns_sortip :: "cstr \<Rightarrow> rnd \<Rightarrow> cstr \<times> rnd" where
  "dns_sortip s d = sort_loop (length s div 4) s d"

subsection \<open>Answers\<close>

definition DNS_C_IN :: cstr where "DNS_C_IN = [NUL, CHR 0x01]"
definition DNS_T_A :: cstr where "DNS_T_A = [NUL, CHR 0x01]"
definition DNS_T_PTR :: cstr where "DNS_T_PTR = [NUL, CHR 0x0C]"
definition DNS_T_TXT :: cstr where "DNS_T_TXT = [NUL, CHR 0x10]"

definition unpack_at :: "nat \<Rightarrow> cstr \<Rightarrow> nat" where
  "unpack_at i header = unat (uint16_unpack_big (map byte_of (take 2 (drop i header))))"

text \<open>The begin of all three parsers: the number of answers and the position behind one question.\<close>

definition open_packet :: "cstr \<Rightarrow> (nat \<times> nat) option" where
  "open_packet buf =
     do { (header, pos) \<leftarrow> dns_packet_copy buf 0 12;
          pos1 \<leftarrow> dns_packet_skipname buf pos;
          Some (unpack_at 6 header, pos1 + 4) }"

text \<open>The begin of an answer: its type and class, the length of its data and where they are.\<close>

definition open_answer :: "cstr \<Rightarrow> nat \<Rightarrow> (cstr \<times> cstr \<times> nat \<times> nat) option" where
  "open_answer buf pos =
     do { pos1 \<leftarrow> dns_packet_skipname buf pos;
          (header, pos2) \<leftarrow> dns_packet_copy buf pos1 10;
          Some (take 2 header, take 2 (drop 2 header), unpack_at 8 header, pos2) }"

fun ip4_answers :: "nat \<Rightarrow> cstr \<Rightarrow> nat \<Rightarrow> cstr \<Rightarrow> cstr option" where
  "ip4_answers 0 buf pos out = Some out"
| "ip4_answers (Suc n) buf pos out =
     do { (typ, cls, datalen, pos1) \<leftarrow> open_answer buf pos;
          out1 \<leftarrow> (if typ = DNS_T_A \<and> cls = DNS_C_IN \<and> datalen = 4
                   then do { (ip, _) \<leftarrow> dns_packet_copy buf pos1 4; Some (out @ ip) } else Some out);
          ip4_answers n buf (pos1 + datalen) out1 }"

definition dns_ip4_packet :: "cstr \<Rightarrow> rnd \<Rightarrow> (cstr \<times> rnd) option" where
  "dns_ip4_packet buf d =
     do { (numanswers, pos) \<leftarrow> open_packet buf;
          out \<leftarrow> ip4_answers numanswers buf pos [];
          Some (dns_sortip out d) }"

text \<open>The first name counts.\<close>

fun name_answers :: "nat \<Rightarrow> cstr \<Rightarrow> nat \<Rightarrow> cstr option" where
  "name_answers 0 buf pos = Some []"
| "name_answers (Suc n) buf pos =
     do { (typ, cls, datalen, pos1) \<leftarrow> open_answer buf pos;
          if typ = DNS_T_PTR \<and> cls = DNS_C_IN
          then do { (q, _) \<leftarrow> dns_packet_getname buf pos1; dns_domain_todot_cat [] q }
          else name_answers n buf (pos1 + datalen) }"

definition dns_name_packet :: "cstr \<Rightarrow> cstr option" where
  "dns_name_packet buf = do { (numanswers, pos) \<leftarrow> open_packet buf; name_answers numanswers buf pos }"

text \<open>The strings of a text, each behind its length; \<open>txtlen\<close> bytes of one are still to come.\<close>

fun txt_loop :: "cstr \<Rightarrow> nat \<Rightarrow> cstr \<Rightarrow> cstr" where
  "txt_loop [] txtlen out = out"
| "txt_loop (ch # s) txtlen out =
     (if txtlen = 0 then txt_loop s (code ch) out
      else txt_loop s (txtlen - 1) (out @ [if schar ch < 32 \<or> schar ch > 126 then CHR ''?'' else ch]))"

fun txt_answers :: "nat \<Rightarrow> cstr \<Rightarrow> nat \<Rightarrow> cstr \<Rightarrow> cstr option" where
  "txt_answers 0 buf pos out = Some out"
| "txt_answers (Suc n) buf pos out =
     do { (typ, cls, datalen, pos1) \<leftarrow> open_answer buf pos;
          out1 \<leftarrow> (if typ = DNS_T_TXT \<and> cls = DNS_C_IN
                   then if pos1 + datalen > length buf then None
                        else Some (txt_loop (take datalen (drop pos1 buf)) 0 out)
                   else Some out);
          txt_answers n buf (pos1 + datalen) out1 }"

definition dns_txt_packet :: "cstr \<Rightarrow> cstr option" where
  "dns_txt_packet buf = do { (numanswers, pos) \<leftarrow> open_packet buf; txt_answers numanswers buf pos [] }"


subsection \<open>Questions\<close>

text \<open>An address in numbers, with brackets or without; \<open>None\<close> is another character.\<close>

fun literal_loop :: "cstr \<Rightarrow> nat \<Rightarrow> cstr \<Rightarrow> cstr option" where
  "literal_loop [] cd out = Some out"
| "literal_loop (ch # s) cd out =
     (if ch = CHR ''['' \<or> ch = CHR '']'' then literal_loop s cd out
      else if ch = CHR ''.'' then literal_loop s 0 (out @ [char_of cd])
      else if cisdigit ch then literal_loop s ((cd * 10 + (code ch - 48)) mod 256) out
      else None)"

definition dns_ip4 :: "(cstr \<Rightarrow> cstr \<Rightarrow> cstr option) \<Rightarrow> cstr \<Rightarrow> rnd \<Rightarrow> (cstr \<times> rnd) option" where
  "dns_ip4 resolve fqdn d =
     (case literal_loop (fqdn @ ''.'') 0 [] of
        Some out \<Rightarrow> Some (take (length out - length out mod 4) out, d)
      | None \<Rightarrow> do { q \<leftarrow> dns_domain_fromdot fqdn; packet \<leftarrow> resolve q DNS_T_A; dns_ip4_packet packet d })"

definition dns_txt :: "(cstr \<Rightarrow> cstr \<Rightarrow> cstr option) \<Rightarrow> cstr \<Rightarrow> cstr option" where
  "dns_txt resolve fqdn = do { q \<leftarrow> dns_domain_fromdot fqdn; packet \<leftarrow> resolve q DNS_T_TXT; dns_txt_packet packet }"

definition number_label :: "byte \<Rightarrow> cstr" where
  "number_label b = (let s = fmt_ulong (ucast b) in char_of (length s) # s)"

definition dns_name4_domain :: "byte \<times> byte \<times> byte \<times> byte \<Rightarrow> cstr" where
  "dns_name4_domain ip =
     (case ip of (a, b, c, d) \<Rightarrow>
        number_label d @ number_label c @ number_label b @ number_label a
        @ CHR 0x07 # ''in-addr'' @ CHR 0x04 # ''arpa'' @ [NUL])"

definition dns_name4 :: "(cstr \<Rightarrow> cstr \<Rightarrow> cstr option) \<Rightarrow> byte \<times> byte \<times> byte \<times> byte \<Rightarrow> cstr option" where
  "dns_name4 resolve ip = do { packet \<leftarrow> resolve (dns_name4_domain ip) DNS_T_PTR; dns_name_packet packet }"

subsection \<open>What a packet holds\<close>

text \<open>The name of a question or an answer: labels, and their end or a pointer.\<close>

datatype owner = Owner "cstr list" "(char \<times> char) option"

fun owner_bytes :: "owner \<Rightarrow> cstr" where
  "owner_bytes (Owner ls e) = concat (map (\<lambda>l. char_of (length l) # l) ls) @ (case e of None \<Rightarrow> [NUL] | Some (c, f) \<Rightarrow> [c, f])"

fun owner_ok :: "owner \<Rightarrow> bool" where
  "owner_ok (Owner ls e) \<longleftrightarrow> list_all label_ok ls \<and> (case e of None \<Rightarrow> True | Some (c, f) \<Rightarrow> 192 \<le> code c)"

definition be16 :: "nat \<Rightarrow> cstr" where
  "be16 n = [char_of (n div 256), char_of (n mod 256)]"

record rr =
  rr_owner :: owner
  rr_type :: cstr
  rr_class :: cstr
  rr_ttl :: cstr
  rr_data :: cstr

definition rr_bytes :: "rr \<Rightarrow> cstr" where
  "rr_bytes r = owner_bytes (rr_owner r) @ rr_type r @ rr_class r @ rr_ttl r @ be16 (length (rr_data r)) @ rr_data r"

definition rr_ok :: "rr \<Rightarrow> bool" where
  "rr_ok r \<longleftrightarrow> owner_ok (rr_owner r) \<and> length (rr_type r) = 2 \<and> length (rr_class r) = 2 \<and> length (rr_ttl r) = 4
     \<and> length (rr_data r) < 65536"

text \<open>A packet: 6 bytes, the number of answers, 4 bytes, the question, the answers and the rest.\<close>

definition packet_of :: "cstr \<Rightarrow> cstr \<Rightarrow> owner \<Rightarrow> cstr \<Rightarrow> rr list \<Rightarrow> cstr \<Rightarrow> cstr" where
  "packet_of h1 h2 q tc rs rest = h1 @ be16 (length rs) @ h2 @ owner_bytes q @ tc @ concat (map rr_bytes rs) @ rest"

definition packet_ok :: "cstr \<Rightarrow> cstr \<Rightarrow> owner \<Rightarrow> cstr \<Rightarrow> rr list \<Rightarrow> bool" where
  "packet_ok h1 h2 q tc rs \<longleftrightarrow> length h1 = 6 \<and> length h2 = 4 \<and> owner_ok q \<and> length tc = 4 \<and> list_all rr_ok rs \<and> length rs < 65536"

lemma packet_copy_here: "dns_packet_copy (pre @ s @ post) (length pre) (length s) = Some (s, length pre + length s)"
proof (induction s arbitrary: pre)
  case (Cons c s)
  from Cons.IH [of "pre @ [c]"] show ?case by simp
qed simp

lemma skip_owner: "owner_ok q \<Longrightarrow> dns_packet_skipname (pre @ owner_bytes q @ post) (length pre) = Some (length pre + length (owner_bytes q))"
proof (cases q)
  case (Owner ls e)
  assume "owner_ok q"
  then have "list_all label_ok ls" "case e of None \<Rightarrow> True | Some (c, f) \<Rightarrow> 192 \<le> code c" using Owner by simp_all
  then have "dns_packet_skipname (pre @ owner_bytes (Owner ls e) @ post) (length pre) = Some (length pre + length (owner_bytes (Owner ls e)))"
  proof (induction ls arbitrary: pre)
    case Nil
    then show ?case
      by (cases e) (auto simp: skip_end skip_pointer nth_append)
  next
    case (Cons l ls)
    let ?s = "pre @ owner_bytes (Owner (l # ls) e) @ post"
    have k: "code (?s ! length pre) = length l" "length pre < length ?s" using Cons.prems(1) by (simp_all add: code_length label_ok_def)
    then have "dns_packet_skipname ?s (length pre) = dns_packet_skipname ?s (length pre + 1 + length l)"
      using Cons.prems(1) by (subst skip_label) (simp_all add: label_ok_def del: append_assoc)
    with Cons.IH [of "pre @ char_of (length l) # l"] Cons.prems show ?case by simp
  qed
  then show ?thesis using Owner by simp
qed

lemma unpack_be16: "n < 65536 \<Longrightarrow> unpack_at 0 (be16 n) = n"
proof -
  assume n: "n < 65536"
  have "uint16_unpack_big [byte_of (char_of (n div 256)), byte_of (char_of (n mod 256))] = (word_of_nat n :: u16)"
  proof (rule word_unat_eq_iff [THEN iffD2])
    have c: "unat (byte_of (char_of m)) = m mod 256" for m :: nat
      by (simp add: byte_of_def of_char_mod_256 unat_of_nat)
    have b: "unat (byte_of (char_of (n div 256))) = n div 256" "unat (byte_of (char_of n)) = n mod 256"
      using n by (simp_all add: c less_mult_imp_div_less)
    have u: "unat (ucast (x :: byte) :: u16) = unat x" for x
      using unat_byte_less [of x] by (simp add: unsigned_ucast_eq take_bit_eq_mod)
    show "unat (uint16_unpack_big [byte_of (char_of (n div 256)), byte_of (char_of (n mod 256))]) = unat (word_of_nat n :: u16)"
      using n div_mult_mod_eq [of n 256]
      by (simp add: uint16_unpack_big_def shift_in_def push_bit_eq_mult unat_word_ariths u b unat_of_nat)
  qed
  then show ?thesis using n by (simp add: unpack_at_def be16_def unat_of_nat)
qed

lemma unpack_at_here: "n < 65536 \<Longrightarrow> unpack_at (length a) (a @ be16 n @ r) = n"
  using unpack_be16 [of n] by (simp add: unpack_at_def be16_def)


lemma open_packet_of:
  assumes "packet_ok h1 h2 q tc rs"
  shows "open_packet (packet_of h1 h2 q tc rs rest) = Some (length rs, 12 + length (owner_bytes q) + 4)"
proof -
  let ?h = "h1 @ be16 (length rs) @ h2" and ?p = "packet_of h1 h2 q tc rs rest"
  have l: "length h1 = 6" "length h2 = 4" "length ?h = 12" using assms by (simp_all add: packet_ok_def be16_def)
  have p: "?p = [] @ ?h @ (owner_bytes q @ tc @ concat (map rr_bytes rs) @ rest)"
    "?p = ?h @ owner_bytes q @ (tc @ concat (map rr_bytes rs) @ rest)" by (simp_all add: packet_of_def)
  have c: "dns_packet_copy ?p 0 12 = Some (?h, 12)" using packet_copy_here [of "[]" ?h] unfolding p(1) l(3) by simp
  have s: "dns_packet_skipname ?p 12 = Some (12 + length (owner_bytes q))"
    using skip_owner [of q ?h] assms unfolding p(2) l(3) by (simp add: packet_ok_def)
  have u: "unpack_at 6 ?h = length rs" using unpack_at_here [of "length rs" h1] assms by (simp add: packet_ok_def)
  show ?thesis unfolding open_packet_def c by (simp add: s u)
qed

definition rr_head :: "rr \<Rightarrow> nat" where
  "rr_head r = length (owner_bytes (rr_owner r)) + 10"

lemma open_answer_here:
  assumes "rr_ok r"
  shows "open_answer (pre @ rr_bytes r @ post) (length pre) =
    Some (rr_type r, rr_class r, length (rr_data r), length pre + rr_head r)"
proof -
  let ?o = "owner_bytes (rr_owner r)" and ?tc = "rr_type r @ rr_class r @ rr_ttl r" and ?n = "be16 (length (rr_data r))"
  let ?h = "?tc @ ?n" and ?s = "pre @ rr_bytes r @ post"
  have l: "length (rr_type r) = 2" "length (rr_class r) = 2" "length ?tc = 8" "length ?h = 10" "owner_ok (rr_owner r)"
    using assms by (simp_all add: rr_ok_def be16_def)
  have p: "?s = pre @ ?o @ (?h @ rr_data r @ post)" "?s = (pre @ ?o) @ ?h @ (rr_data r @ post)" by (simp_all add: rr_bytes_def)
  have k: "dns_packet_skipname ?s (length pre) = Some (length (pre @ ?o))"
    unfolding p(1) using skip_owner [OF l(5)] by simp
  have c: "dns_packet_copy ?s (length (pre @ ?o)) 10 = Some (?h, length (pre @ ?o) + 10)"
    using packet_copy_here [of "pre @ ?o" ?h "rr_data r @ post"] unfolding p(2) l(4) .
  have u: "unpack_at 8 ?h = length (rr_data r)"
    using unpack_at_here [of "length (rr_data r)" ?tc "[]"] l(3) assms by (simp add: rr_ok_def)
  show ?thesis using l(1,2) c u unfolding open_answer_def k by (simp add: rr_head_def)
qed

lemma rr_data_here: "rr_ok r \<Longrightarrow> pre @ rr_bytes r @ post = (pre @ take (rr_head r) (rr_bytes r)) @ rr_data r @ post
    \<and> length (pre @ take (rr_head r) (rr_bytes r)) = length pre + rr_head r \<and> length (rr_bytes r) = rr_head r + length (rr_data r)"
  by (simp add: rr_bytes_def rr_head_def rr_ok_def be16_def)

definition is_rr :: "cstr \<Rightarrow> rr \<Rightarrow> bool" where
  "is_rr typ r \<longleftrightarrow> rr_type r = typ \<and> rr_class r = DNS_C_IN"

lemma ip4_answers_of:
  "list_all rr_ok rs \<Longrightarrow>
     ip4_answers (length rs) (pre @ concat (map rr_bytes rs) @ rest) (length pre) out =
       Some (out @ concat (map rr_data (filter (\<lambda>r. is_rr DNS_T_A r \<and> length (rr_data r) = 4) rs)))"
proof (induction rs arbitrary: pre out)
  case (Cons r rs)
  have r: "rr_ok r" using Cons.prems by simp
  let ?s = "pre @ rr_bytes r @ concat (map rr_bytes rs) @ rest" and ?pre = "pre @ rr_bytes r"
  have o: "open_answer ?s (length pre) = Some (rr_type r, rr_class r, length (rr_data r), length pre + rr_head r)"
    by (rule open_answer_here [OF r])
  note d = rr_data_here [OF r, of pre "concat (map rr_bytes rs) @ rest"]
  have "dns_packet_copy ?s (length pre + rr_head r) (length (rr_data r)) = Some (rr_data r, length pre + rr_head r + length (rr_data r))"
    using packet_copy_here [of "pre @ take (rr_head r) (rr_bytes r)" "rr_data r"] d by metis
  moreover have "length ?pre = length pre + rr_head r + length (rr_data r)" using d by simp
  ultimately show ?case using o Cons.IH [of ?pre] Cons.prems by (auto simp: is_rr_def add.assoc)
qed simp

lemma txt_answers_of:
  "list_all rr_ok rs \<Longrightarrow>
     txt_answers (length rs) (pre @ concat (map rr_bytes rs) @ rest) (length pre) out =
       Some (fold (\<lambda>r. txt_loop (rr_data r) 0) (filter (is_rr DNS_T_TXT) rs) out)"
proof (induction rs arbitrary: pre out)
  case (Cons r rs)
  have r: "rr_ok r" using Cons.prems by simp
  let ?s = "pre @ rr_bytes r @ concat (map rr_bytes rs) @ rest" and ?pre = "pre @ rr_bytes r"
  have o: "open_answer ?s (length pre) = Some (rr_type r, rr_class r, length (rr_data r), length pre + rr_head r)"
    by (rule open_answer_here [OF r])
  note d = rr_data_here [OF r, of pre "concat (map rr_bytes rs) @ rest"]
  have "take (length (rr_data r)) (drop (length pre + rr_head r) ?s) = rr_data r"
    by (subst conjunct1 [OF d], subst conjunct1 [OF conjunct2 [OF d], symmetric], simp only: append_eq_conv_conj [THEN iffD1, OF refl, THEN conjunct2] drop_append) simp
  moreover have "length ?pre = length pre + rr_head r + length (rr_data r)" using d by simp
  moreover have "length pre + rr_head r + length (rr_data r) \<le> length ?s" using d by simp
  ultimately show ?case using o Cons.IH [of ?pre] Cons.prems by (auto simp: is_rr_def add.assoc)
qed simp

subsection \<open>Sorting\<close>

lemma get4_blocks: "list_all (\<lambda>b. length b = 4) bs \<Longrightarrow> i < length bs \<Longrightarrow> get4 (concat bs) i = bs ! i"
proof (induction bs arbitrary: i)
  case (Cons b bs)
  then show ?case by (cases i) (simp_all add: get4_def)
qed simp

lemma put4_blocks: "list_all (\<lambda>b. length b = 4) bs \<Longrightarrow> i < length bs \<Longrightarrow> put4 i b (concat bs) = concat (bs[i := b])"
proof (induction bs arbitrary: i)
  case (Cons c bs)
  then show ?case by (cases i) (simp_all add: put4_def add.commute)
qed simp

lemma dns_random_less: "0 < n \<Longrightarrow> fst (dns_random n d) < n"
  by (simp add: dns_random_def Let_def)

lemma sort_loop_blocks:
  "list_all (\<lambda>b. length b = 4) bs \<Longrightarrow> n \<le> length bs \<Longrightarrow>
     \<exists>bs' d'. sort_loop n (concat bs) d = (concat bs', d') \<and> mset bs' = mset bs"
proof (induction n arbitrary: bs d)
  case (Suc m)
  show ?case
  proof (cases m)
    case (Suc n)
    obtain i d1 where r: "dns_random (Suc (Suc n)) d = (i, d1)" by fastforce
    let ?m = "Suc n" and ?bs = "(bs[i := bs ! Suc n])[Suc n := bs ! i]"
    have i: "i < length bs" "?m < length bs" using dns_random_less [of "Suc (Suc n)" d] r Suc.prems(2) Suc by simp_all
    have all: "list_all (\<lambda>b. length b = 4) (bs[i := bs ! ?m])" "list_all (\<lambda>b. length b = 4) ?bs"
      using Suc.prems(1) i by (auto simp: list_all_iff dest!: set_update_subset_insert [THEN subsetD])
    have s: "sort_loop (Suc (Suc n)) (concat bs) d = sort_loop (Suc n) (concat ?bs) d1"
      using Suc.prems(1) i all(1) by (simp add: r get4_blocks put4_blocks)
    from Suc.IH [OF all(2), of d1] Suc.prems(2) Suc obtain bs' d' where
      "sort_loop (Suc n) (concat ?bs) d1 = (concat bs', d')" "mset bs' = mset ?bs" by auto
    moreover have "mset ?bs = mset bs" using i by (simp add: mset_swap)
    ultimately show ?thesis unfolding Suc s by auto
  qed auto
qed auto


lemma length_blocks: "list_all (\<lambda>b. length b = 4) bs \<Longrightarrow> length (concat bs) = 4 * length bs"
  by (induction bs) simp_all

text \<open>C17. The addresses that are taken from a packet are exactly the data of its answers of type A and class IN that have 4
  bytes, each as often as it is there, whatever else is in the packet, however the names are compressed and
  whatever the random numbers are that give their order.\<close>

theorem dns_ip4_packet_addresses:
  assumes "packet_ok h1 h2 q tc rs"
  shows "\<exists>ips d'. dns_ip4_packet (packet_of h1 h2 q tc rs rest) d = Some (concat ips, d')
    \<and> mset ips = mset (map rr_data (filter (\<lambda>r. is_rr DNS_T_A r \<and> length (rr_data r) = 4) rs))"
proof -
  let ?pre = "h1 @ be16 (length rs) @ h2 @ owner_bytes q @ tc" and ?ips = "map rr_data (filter (\<lambda>r. is_rr DNS_T_A r \<and> length (rr_data r) = 4) rs)"
  have l: "12 + length (owner_bytes q) + 4 = length ?pre" "list_all rr_ok rs" using assms by (simp_all add: packet_ok_def be16_def)
  have p: "packet_of h1 h2 q tc rs rest = ?pre @ concat (map rr_bytes rs) @ rest" by (simp add: packet_of_def)
  have a: "ip4_answers (length rs) (packet_of h1 h2 q tc rs rest) (12 + length (owner_bytes q) + 4) [] = Some (concat ?ips)"
    using ip4_answers_of [OF l(2), of ?pre rest "[]"] unfolding p l(1) by simp
  have b: "list_all (\<lambda>b. length b = 4) ?ips" by (auto simp: list_all_iff)
  then have n: "length (concat ?ips) div 4 = length ?ips" using length_blocks [OF b] by simp
  from sort_loop_blocks [OF b le_refl, of d] show ?thesis
    using a n by (auto simp: dns_ip4_packet_def open_packet_of [OF assms] dns_sortip_def)
qed

theorem dns_ip4_packet_addresses_witness:
  "\<exists>d'. dns_ip4_packet (packet_of ''123456'' ''7890'' (Owner [''eh''] None) (DNS_T_A @ DNS_C_IN)
     [\<lparr>rr_owner = Owner [] (Some (char_of (192 :: nat), CHR 0x0C)), rr_type = DNS_T_A, rr_class = DNS_C_IN, rr_ttl = ''0000'', rr_data = ''abcd''\<rparr>,
      \<lparr>rr_owner = Owner [''eh''] None, rr_type = DNS_T_TXT, rr_class = DNS_C_IN, rr_ttl = ''0000'', rr_data = ''wxyz''\<rparr>] [])
     (dns_random_init [] \<lparr>sec = \<lparr>tai_x = 0\<rparr>, nano = 0, atto = 0\<rparr> 1 2) = Some (''abcd'', d')"
  using dns_ip4_packet_addresses [of "''123456''" "''7890''" "Owner [''eh''] None" "DNS_T_A @ DNS_C_IN"
     "[\<lparr>rr_owner = Owner [] (Some (char_of (192 :: nat), CHR 0x0C)), rr_type = DNS_T_A, rr_class = DNS_C_IN, rr_ttl = ''0000'', rr_data = ''abcd''\<rparr>,
      \<lparr>rr_owner = Owner [''eh''] None, rr_type = DNS_T_TXT, rr_class = DNS_C_IN, rr_ttl = ''0000'', rr_data = ''wxyz''\<rparr>]" "[]"
     "dns_random_init [] \<lparr>sec = \<lparr>tai_x = 0\<rparr>, nano = 0, atto = 0\<rparr> 1 2"]
  by (auto simp: packet_ok_def rr_ok_def label_ok_def DNS_T_A_def DNS_T_TXT_def DNS_C_IN_def code_length is_rr_def)

text \<open>The texts of a packet, in their order.\<close>

lemma dns_txt_packet_texts:
  assumes "packet_ok h1 h2 q tc rs"
  shows "dns_txt_packet (packet_of h1 h2 q tc rs rest) = Some (fold (\<lambda>r. txt_loop (rr_data r) 0) (filter (is_rr DNS_T_TXT) rs) [])"
proof -
  let ?pre = "h1 @ be16 (length rs) @ h2 @ owner_bytes q @ tc"
  have l: "12 + length (owner_bytes q) + 4 = length ?pre" "list_all rr_ok rs" using assms by (simp_all add: packet_ok_def be16_def)
  have p: "packet_of h1 h2 q tc rs rest = ?pre @ concat (map rr_bytes rs) @ rest" by (simp add: packet_of_def)
  have "txt_answers (length rs) (packet_of h1 h2 q tc rs rest) (12 + length (owner_bytes q) + 4) []
    = Some (fold (\<lambda>r. txt_loop (rr_data r) 0) (filter (is_rr DNS_T_TXT) rs) [])"
    using txt_answers_of [OF l(2), of ?pre rest "[]"] unfolding p l(1) by simp
  then show ?thesis by (simp add: dns_txt_packet_def open_packet_of [OF assms])
qed

text \<open>What is shown of a text is printable.\<close>

lemma txt_loop_printable:
  "(\<forall>c \<in> set out. 32 \<le> code c \<and> code c \<le> 126) \<Longrightarrow> \<forall>c \<in> set (txt_loop s n out). 32 \<le> code c \<and> code c \<le> 126"
proof (induction s n out rule: txt_loop.induct)
  case (2 ch s n out)
  show ?case
  proof (cases "n = 0")
    case False
    let ?c = "if schar ch < 32 \<or> schar ch > 126 then CHR ''?'' else ch"
    have "schar ch < 32" if "128 \<le> code ch"
    proof -
      have "schar ch = int (code ch) - 256" using that by (simp add: schar_def Let_def)
      with of_char_less_256 [of ch] show ?thesis by linarith
    qed
    then have small: "schar ch = int (code ch)" if "\<not> schar ch < 32"
      using that by (simp add: schar_def Let_def split: if_split_asm)
    have "32 \<le> code ?c \<and> code ?c \<le> 126"
    proof (cases "schar ch < 32 \<or> schar ch > 126")
      case ok: False
      with small show ?thesis by simp
    qed simp
    with 2(3) have "\<forall>c \<in> set (out @ [?c]). 32 \<le> code c \<and> code c \<le> 126" by simp
    from 2(2) [OF False this] show ?thesis unfolding txt_loop.simps(2) using False by (simp only: if_False)
  qed (use 2 in simp)
qed simp

subsection \<open>Addresses as names\<close>

lemma literal_loop_dec:
  "literal_loop (dec_nat n @ s) cd out = literal_loop s ((cd * 10 ^ length (dec_nat n) + n) mod 256) out"
  if "cd < 256"
  using that
proof (induction n arbitrary: s cd rule: dec_nat.induct)
  case (1 n)
  have dig: "literal_loop (char_of (48 + k) # t) e out = literal_loop t ((e * 10 + k) mod 256) out" if "k < 10" for k :: nat and t e
  proof -
    have c: "code (char_of (48 + k)) = 48 + k" using that by (simp add: code_length)
    have "char_of (48 + k) \<noteq> CHR ''[''" "char_of (48 + k) \<noteq> CHR '']''" "char_of (48 + k) \<noteq> CHR ''.''"
      using c that by (auto dest: arg_cong [of _ _ code])
    then show ?thesis using that by (simp add: cisdigit_def c)
  qed
  show ?case
  proof (cases "n < 10")
    case True
    then show ?thesis by (subst (1 2) dec_nat.simps) (simp add: dig del: literal_loop.simps(2))
  next
    case False
    have "literal_loop (dec_nat n @ s) cd out = literal_loop (dec_nat (n div 10) @ char_of (48 + n mod 10) # s) cd out"
      using False by (subst dec_nat.simps) simp
    also have "\<dots> = literal_loop s (((cd * 10 ^ length (dec_nat (n div 10)) + n div 10) mod 256 * 10 + n mod 10) mod 256) out"
      using 1(1) [OF False 1(2), of "char_of (48 + n mod 10) # s"] by (simp add: dig del: literal_loop.simps(2))
    also have "((cd * 10 ^ length (dec_nat (n div 10)) + n div 10) mod 256 * 10 + n mod 10) mod 256
      = ((cd * 10 ^ length (dec_nat (n div 10)) + n div 10) * 10 + n mod 10) mod 256"
      by (metis mod_add_left_eq mod_mult_left_eq)
    also have "(cd * 10 ^ length (dec_nat (n div 10)) + n div 10) * 10 + n mod 10 = cd * 10 ^ length (dec_nat n) + n"
      using False by (subst (2) dec_nat.simps) (simp add: algebra_simps)
    finally show ?thesis .
  qed
qed

text \<open>An address that is written in numbers is taken as it is; the resolver is not asked.\<close>

lemma dns_ip4_literal:
  "dns_ip4 resolve (ip4_fmt (a, b, c, e)) d = Some (map (\<lambda>x. char_of (unat x)) [a, b, c, e], d)"
proof -
  have n: "unat x mod 256 = unat x" for x :: byte using unat_byte_less [of x] by simp
  show ?thesis
    by (simp add: dns_ip4_def ip4_fmt_def fmt_ulong_dec unat_byte_wide literal_loop_dec n)
qed

text \<open>The name under which the name of an address is asked for is a domain of the labels it should have, and it fits into
  the 31 bytes of \<open>DNS_NAME4_DOMAIN\<close>.\<close>

lemma dns_name4_domain_labels:
  "dns_name4_domain (a, b, c, d) = pack (map (\<lambda>x. dec_nat (unat x)) [d, c, b, a] @ [''in-addr'', ''arpa''])"
  "length (dns_name4_domain (a, b, c, d)) \<le> 31"
proof -
  show e: "dns_name4_domain (a, b, c, d) = pack (map (\<lambda>x. dec_nat (unat x)) [d, c, b, a] @ [''in-addr'', ''arpa''])"
  proof -
    have "char_of (length ''in-addr'') = CHR 0x07" "char_of (length ''arpa'') = CHR 0x04" by code_simp+
    then show ?thesis
      by (simp add: dns_name4_domain_def number_label_def fmt_ulong_dec unat_byte_wide Let_def del: list.size(4))
  qed
  have "length (dec_nat (unat x)) \<le> 3" for x :: byte
  proof (cases "unat x < 10")
    case False
    show ?thesis
    proof (cases "unat x div 10 < 10")
      case True
      with False show ?thesis by (subst dec_nat.simps, subst dec_nat.simps) simp
    next
      case h: False
      have "unat x div 10 div 10 < 10" using unat_byte_less [of x] by simp
      with False h show ?thesis by (subst dec_nat.simps, subst dec_nat.simps, subst dec_nat.simps) simp
    qed
  qed (subst dec_nat.simps, simp)
  from add_mono [OF add_mono [OF this [of a] this [of b]] add_mono [OF this [of c] this [of d]]]
  show "length (dns_name4_domain (a, b, c, d)) \<le> 31" unfolding e by simp
qed

end
