(* ===== verification/DnsConf.thy ===== *)
theory DnsConf
  imports DnsAnswer
begin

text \<open>
  Configuration of the resolver, ucspi-tcp-0.88: \<^verbatim>\<open>dns_rcip.c\<close> (the servers), \<^verbatim>\<open>dns_rcrw.c\<close> (the rules that complete a
  name) and \<^verbatim>\<open>dns_ipq.c\<close> (completing a name).

  A file is \<open>None\<close> when it cannot be read, \<open>Some None\<close> when it does not exist, and otherwise its text.  The
  environment variables and the host name are arguments.
\<close>

text \<open>The loops over a file with a newline at its end: the lines.\<close>

fun lines_of :: "cstr \<Rightarrow> cstr \<Rightarrow> cstr list" where
  "lines_of [] acc = []"
| "lines_of (c # s) acc = (if c = LF then acc # lines_of s [] else lines_of s (acc @ [c]))"

definition file_lines :: "cstr \<Rightarrow> cstr list" where
  "file_lines data = lines_of (data @ [LF]) []"

subsection \<open>Servers\<close>

definition ip_chars :: "byte \<times> byte \<times> byte \<times> byte \<Rightarrow> cstr" where
  "ip_chars ip = (case ip of (a, b, c, d) \<Rightarrow> map (\<lambda>x. char_of (unat x)) [a, b, c, d])"

lemma ip_chars_length [simp]: "length (ip_chars ip) = 4"
  by (cases ip) (simp add: ip_chars_def)

lemma ip4_part_shorter: "ip4_part s = Some (a, r) \<Longrightarrow> length r < length s"
  by (cases s) (auto simp: ip4_part_def scan_ulong_def split: if_splits prod.splits)

lemma ip4_dot_shorter: "ip4_dot s = Some r \<Longrightarrow> length r < length s"
  by (auto simp: ip4_dot_def split: list.splits if_splits)

lemma ip4_scan_pos: "ip4_scan s = Some (i, ip) \<Longrightarrow> 0 < i \<and> s \<noteq> []"
  by (auto simp: ip4_scan_def split: bind_splits dest!: ip4_part_shorter ip4_dot_shorter)

text \<open>The addresses in the environment.\<close>

function cache_loop :: "cstr \<Rightarrow> cstr \<Rightarrow> cstr" where
  "cache_loop x ip =
     (if length ip \<le> 60 then
        case x of
          [] \<Rightarrow> ip
        | c # r \<Rightarrow>
            if c = CHR ''.'' then cache_loop r ip
            else (case ip4_scan x of
                    None \<Rightarrow> ip
                  | Some (i, a) \<Rightarrow> cache_loop (drop i x) (ip @ ip_chars a))
      else ip)"
  by pat_completeness auto

termination
  by (relation "measure (\<lambda>(x, ip). length x)") (auto dest: ip4_scan_pos)

declare cache_loop.simps [simp del]

text \<open>A line of \<^verbatim>\<open>resolv.conf\<close>.\<close>

definition nameserver_line :: "cstr \<Rightarrow> cstr \<Rightarrow> cstr" where
  "nameserver_line line ip =
     (if take 11 line = ''nameserver '' \<or> take 11 line = ''nameserver'' @ [TAB] then
        let s = dropWhile (\<lambda>c. c = CHR '' '' \<or> c = TAB) (drop 10 line) in
        if length ip \<le> 60 then
          (case ip4_scan (s @ [LF]) of None \<Rightarrow> ip | Some (_, a) \<Rightarrow> ip @ ip_chars a)
        else ip
      else ip)"

definition rcip_init :: "cstr option \<Rightarrow> cstr option option \<Rightarrow> cstr option" where
  "rcip_init cacheip resolvconf =
     do { let ip0 = (case cacheip of None \<Rightarrow> [] | Some x \<Rightarrow> cache_loop x []);
          ip1 \<leftarrow> (if ip0 = [] then
                    do { f \<leftarrow> resolvconf;
                         Some (case f of None \<Rightarrow> [] | Some data \<Rightarrow> fold nameserver_line (file_lines data) []) }
                  else Some ip0);
          let ip2 = (if ip1 = [] then [CHR 0x7F, NUL, NUL, CHR 0x01] else ip1);
          Some (ip2 @ replicate (64 - length ip2) NUL) }"

text \<open>What is kept of it between calls.\<close>

record 'a cached =
  ca_ok :: bool
  ca_uses :: nat
  ca_deadline :: taia
  ca_value :: 'a

definition refresh :: "(unit \<Rightarrow> 'a option) \<Rightarrow> taia \<Rightarrow> 'a cached \<Rightarrow> ('a \<times> 'a cached) option" where
  "refresh init now c =
     (let c1 = (if taia_less (ca_deadline c) now \<or> ca_uses c = 0 then c\<lparr>ca_ok := False\<rparr> else c) in
      do { c2 \<leftarrow> (if \<not> ca_ok c1
                  then do { v \<leftarrow> init ();
                            Some \<lparr>ca_ok = True, ca_uses = 10000, ca_deadline = taia_add now (taia_uint 600), ca_value = v\<rparr> }
                  else Some c1);
           Some (ca_value c2, c2\<lparr>ca_uses := ca_uses c2 - 1\<rparr>) })"

definition dns_resolvconfip :: "cstr option \<Rightarrow> cstr option option \<Rightarrow> taia \<Rightarrow> cstr cached \<Rightarrow> (cstr \<times> cstr cached) option" where
  "dns_resolvconfip cacheip resolvconf = refresh (\<lambda>_. rcip_init cacheip resolvconf)"

subsection \<open>Rules\<close>

definition strip_end :: "cstr \<Rightarrow> cstr" where
  "strip_end s = rev (dropWhile (\<lambda>c. c = CHR '' '' \<or> c = TAB \<or> c = CR) (rev s))"

text \<open>The rules of a file: a line and a NUL.\<close>

definition rewrite_line :: "cstr \<Rightarrow> cstr \<Rightarrow> cstr" where
  "rewrite_line line rules = strip_end (rules @ line) @ [NUL]"

fun localdomain_loop :: "cstr \<Rightarrow> cstr \<Rightarrow> cstr \<Rightarrow> cstr" where
  "localdomain_loop [] acc rules = rules"
| "localdomain_loop (c # s) acc rules =
     (if c = CHR '' '' then localdomain_loop s [] (rules @ ''+.'' @ acc) else localdomain_loop s (acc @ [c]) rules)"

function search_dom :: "cstr \<Rightarrow> cstr \<Rightarrow> cstr" where
  "search_dom s rules =
     (case s of
        [] \<Rightarrow> rules
      | c # r \<Rightarrow>
          let k = byte_chr (take (byte_chr s (CHR '' '')) s) TAB in
          if k = 0 then search_dom r rules else search_dom (drop k s) (rules @ ''+.'' @ take k s))"
  by pat_completeness auto

termination by (relation "measure (\<lambda>(s, rules). length s)") auto

declare search_dom.simps [simp del]

definition is_search :: "cstr \<Rightarrow> bool" where
  "is_search line \<longleftrightarrow> take 7 line \<in> {''search '', ''search'' @ [TAB], ''domain '', ''domain'' @ [TAB]}"

definition rcrw_init :: "cstr option option \<Rightarrow> cstr option \<Rightarrow> cstr option option \<Rightarrow> cstr option \<Rightarrow> cstr option" where
  "rcrw_init dnsrewrite localdomain resolvconf hostname =
     do { f \<leftarrow> dnsrewrite;
          case f of
            Some data \<Rightarrow> Some (fold rewrite_line (file_lines data) [])
          | None \<Rightarrow>
              (case localdomain of
                 Some x \<Rightarrow> Some (localdomain_loop (x @ '' '') [] ''?:'' @ [NUL] @ ''*.:'' @ [NUL])
               | None \<Rightarrow>
                   do { g \<leftarrow> resolvconf;
                        case (case g of None \<Rightarrow> None | Some data \<Rightarrow> find is_search (file_lines data)) of
                          Some line \<Rightarrow> Some (search_dom (drop 7 line) ''?:'' @ [NUL] @ ''*.:'' @ [NUL])
                        | None \<Rightarrow>
                            do { host \<leftarrow> hostname;
                                 let h = take 255 host; let i = str_chr h (CHR ''.'');
                                 Some ((if i < length h then ''?:'' @ drop i h @ [NUL] else []) @ ''*.:'' @ [NUL]) } }) }"

definition dns_resolvconfrewrite ::
    "cstr option option \<Rightarrow> cstr option \<Rightarrow> cstr option option \<Rightarrow> cstr option \<Rightarrow> taia \<Rightarrow> cstr cached \<Rightarrow> (cstr \<times> cstr cached) option" where
  "dns_resolvconfrewrite dnsrewrite localdomain resolvconf hostname =
     refresh (\<lambda>_. rcrw_init dnsrewrite localdomain resolvconf hostname)"

subsection \<open>Completing a name\<close>

definition rule_doit :: "cstr \<Rightarrow> cstr \<Rightarrow> cstr" where
  "rule_doit rule0 work =
     (case rule0 of
        [] \<Rightarrow> work
      | ch # rule \<Rightarrow>
          if ch \<noteq> CHR ''?'' \<and> ch \<noteq> CHR ''='' \<and> ch \<noteq> CHR ''*'' \<and> ch \<noteq> CHR ''-'' then work
          else let colon = str_chr rule (CHR '':'') in
            if colon = length rule then work
            else if length work < colon then work
            else let prefixlen = length work - colon; prefix = take prefixlen work in
              if ch = CHR ''='' \<and> prefixlen \<noteq> 0 then work
              else if case_diffb (take colon rule) (drop prefixlen work) \<noteq> 0 then work
              else if ch = CHR ''?'' \<and> (byte_chr prefix (CHR ''.'') < prefixlen \<or> byte_chr prefix (CHR ''['') < prefixlen
                   \<or> byte_chr prefix (CHR '']'') < prefixlen) then work
              else (if ch = CHR ''-'' then [] else prefix) @ drop (colon + 1) rule)"

text \<open>The rules stand one behind the other, each with a NUL at its end.\<close>

fun rules_loop :: "cstr \<Rightarrow> cstr \<Rightarrow> cstr \<Rightarrow> cstr" where
  "rules_loop [] acc fqdn = fqdn"
| "rules_loop (c # s) acc fqdn = (if c = NUL then rules_loop s [] (rule_doit acc fqdn) else rules_loop s (acc @ [c]) fqdn)"

lemma plus_shorter: "i + j < length s \<Longrightarrow> length (take pl s @ take j (drop i s) @ drop (pl + j) s) - (i + j + 1) < length s - i"
  by auto

text \<open>The names behind the plus signs, tried one after the other on the text before the first; \<open>s\<close> is the buffer.\<close>

function plus_loop :: "(cstr \<Rightarrow> cstr \<Rightarrow> cstr option) \<Rightarrow> nat \<Rightarrow> nat \<Rightarrow> cstr \<Rightarrow> rnd \<Rightarrow> (cstr \<times> cstr \<times> rnd) option" where
  "plus_loop resolve pl i s d =
     do { let j = byte_chr (drop i s) (CHR ''+''); let s1 = take pl s @ take j (drop i s) @ drop (pl + j) s; let fqdn = take (pl + j) s1;
          (out, d1) \<leftarrow> dns_ip4 resolve fqdn d;
          if out \<noteq> [] then Some (out, fqdn, d1)
          else if i + j \<ge> length s then Some (out, fqdn, d1)
          else plus_loop resolve pl (i + j + 1) s1 d1 }"
  by pat_completeness auto

termination
  by (relation "measure (\<lambda>(r, pl, i, s, d). length s - i)") (use plus_shorter in auto)

declare plus_loop.simps [simp del]

definition dns_ip4_qualify_rules :: "(cstr \<Rightarrow> cstr \<Rightarrow> cstr option) \<Rightarrow> cstr \<Rightarrow> cstr \<Rightarrow> rnd \<Rightarrow> (cstr \<times> cstr \<times> rnd) option" where
  "dns_ip4_qualify_rules resolve in_name rules d =
     (let fqdn = rules_loop rules [] in_name; pl = byte_chr fqdn (CHR ''+'') in
      if pl \<ge> length fqdn then do { (out, d1) \<leftarrow> dns_ip4 resolve fqdn d; Some (out, fqdn, d1) }
      else plus_loop resolve pl (pl + 1) fqdn d)"


definition dns_ip4_qualify ::
    "cstr option option \<Rightarrow> cstr option \<Rightarrow> cstr option option \<Rightarrow> cstr option \<Rightarrow> (cstr \<Rightarrow> cstr \<Rightarrow> cstr option)
      \<Rightarrow> taia \<Rightarrow> cstr cached \<Rightarrow> cstr \<Rightarrow> rnd \<Rightarrow> ((cstr \<times> cstr \<times> rnd) \<times> cstr cached) option" where
  "dns_ip4_qualify dnsrewrite localdomain resolvconf hostname resolve now ca in_name d =
     do { (rules, ca1) \<leftarrow> dns_resolvconfrewrite dnsrewrite localdomain resolvconf hostname now ca;
          r \<leftarrow> dns_ip4_qualify_rules resolve in_name rules d; Some (r, ca1) }"

subsection \<open>Properties\<close>

lemma cache_loop_bounds: "length ip mod 4 = 0 \<Longrightarrow> length ip \<le> 64 \<Longrightarrow>
    length (cache_loop x ip) mod 4 = 0 \<and> length (cache_loop x ip) \<le> 64"
proof (induction x ip rule: cache_loop.induct)
  case (1 x ip)
  show ?case
  proof (cases "length ip \<le> 60 \<and> x \<noteq> []")
    case True
    then obtain c r where x: "x = c # r" "length ip \<le> 60" by (cases x) auto
    show ?thesis
    proof (cases "c = CHR ''.''")
      case True
      with 1(1) [OF x(2,1)] 1(3,4) x show ?thesis by (subst (1 2) cache_loop.simps) simp
    next
      case False
      with 1(2) [OF x(2,1) False] 1(3,4) x show ?thesis
        by (subst (1 2) cache_loop.simps) (auto split: option.split)
    qed
  next
    case False
    then show ?thesis using 1(3,4) by (subst (1 2) cache_loop.simps) (auto split: list.split)
  qed
qed

lemma nameserver_line_bounds: "length ip mod 4 = 0 \<and> length ip \<le> 64 \<Longrightarrow>
    length (nameserver_line l ip) mod 4 = 0 \<and> length (nameserver_line l ip) \<le> 64"
  by (auto simp: nameserver_line_def Let_def split: option.split)

lemma fold_nameserver_bounds: "length ip mod 4 = 0 \<and> length ip \<le> 64 \<Longrightarrow>
    length (fold nameserver_line ls ip) mod 4 = 0 \<and> length (fold nameserver_line ls ip) \<le> 64"
  by (induction ls arbitrary: ip) (use nameserver_line_bounds in auto)

text \<open>Whatever stands in the environment and in the file, the list of servers fills its 64 bytes exactly, with one
  address of 4 bytes at least.\<close>

lemma rcip_init_bounds:
  assumes "rcip_init cacheip resolvconf = Some ip"
  shows "length ip = 64 \<and> (\<exists>k. 4 \<le> k \<and> k \<le> 64 \<and> k mod 4 = 0 \<and> drop k ip = replicate (64 - k) NUL)"
proof -
  let ?ip0 = "case cacheip of None \<Rightarrow> [] | Some x \<Rightarrow> cache_loop x []"
  let ?full = "\<lambda>ip. let ip2 = (if ip = [] then [CHR 0x7F, NUL, NUL, CHR 0x01] else ip) in ip2 @ replicate (64 - length ip2) NUL"
  have i0: "length ?ip0 mod 4 = 0 \<and> length ?ip0 \<le> 64" using cache_loop_bounds [of "[]"] by (simp split: option.split)
  from assms obtain ip1 where ip1: "(if ?ip0 = [] then do { f \<leftarrow> resolvconf;
         Some (case f of None \<Rightarrow> [] | Some data \<Rightarrow> fold nameserver_line (file_lines data) []) } else Some ?ip0) = Some ip1" "ip = ?full ip1"
    unfolding rcip_init_def Let_def by (auto simp only: bind_eq_Some_conv option.inject)
  from ip1(1) have i: "length ip1 mod 4 = 0" "length ip1 \<le> 64" "ip = ?full ip1"
    using i0 fold_nameserver_bounds [of "[]"] ip1(2) by (auto split: if_split_asm bind_splits option.splits)
  show ?thesis
  proof (cases "ip1 = []")
    case False
    then have "4 \<le> length ip1" using i(1) by (cases "length ip1 < 4") auto
    with i False show ?thesis by (intro conjI exI [of _ "length ip1"]) auto
  qed (use i in \<open>auto intro!: exI [of _ 4]\<close>)
qed

text \<open>A name without a dot is completed by the search list of \<^verbatim>\<open>resolv.conf\<close>; any other is left as it is.\<close>

lemma search_rules:
  assumes "CHR '':'' \<notin> set r" "NUL \<notin> set r" "NUL \<notin> set name" "name \<noteq> []"
  shows "rule_doit (''?:'' @ r) name = (if set name \<inter> {CHR ''.'', CHR ''['', CHR '']''} = {} then name @ r else name)"
proof -
  have b: "byte_chr name ch < length name \<longleftrightarrow> ch \<in> set name" for ch
    using byte_chr_eq_length [of name ch] byte_chr_le [of name ch] by linarith
  show ?thesis by (auto simp: rule_doit_def b)
qed

end
