(* ===== verification/DnsTransmit.thy ===== *)
theory DnsTransmit
  imports DnsAnswer "HOL-Library.Code_Target_Nat"
begin

text \<open>
  Asking a server, ucspi-tcp-0.88: \<^verbatim>\<open>dns_transmit.c\<close>.

  The state is \<open>struct dns_transmit\<close> with the random numbers; a socket is only open or not.  What the system does
  while one server is tried is a \<open>sys\<close>; a step may try many, each at its own place among the 4 rounds over 16 servers, so
  it takes a \<open>sys\<close> for every place, and what has been read or written is an \<open>io\<close>: any behaviour of the system is a
  sequence of these.  \<open>None\<close> is a null query that is used, or memory outside of a buffer.
\<close>

record transmit =
  d_query :: "cstr option"
  d_packet :: "cstr option"
  packetlen :: nat
  sock :: bool
  tcpstate :: nat
  udploop :: nat
  curserver :: nat
  d_deadline :: taia
  d_pos :: nat
  d_servers :: cstr
  qtype :: cstr
  d_rnd :: rnd

datatype connection = Connected | In_progress | Refused

record sys =
  has_socket :: bool
  bindable :: "nat \<Rightarrow> nat \<Rightarrow> bool"
  sys_connect :: connection
  sys_send :: bool
  sys_now :: taia

text \<open>The place of a server in the whole of the search, and what the system does at each of them.\<close>

definition place :: "transmit \<Rightarrow> nat" where
  "place d = 16 * udploop d + curserver d"

type_synonym world = "nat \<Rightarrow> sys"

record io =
  revents :: bool
  io_when :: taia
  arrived :: "cstr option"
  is_connected :: bool
  taken :: nat

datatype outcome = Again | Answer | Failed

subsection \<open>Is it an answer\<close>

definition serverwantstcp :: "cstr \<Rightarrow> bool" where
  "serverwantstcp buf = (case dns_packet_copy buf 0 12 of None \<Rightarrow> True | Some (out, _) \<Rightarrow> code (out ! 2) AND 2 \<noteq> 0)"

definition serverfailed :: "cstr \<Rightarrow> bool" where
  "serverfailed buf =
     (case dns_packet_copy buf 0 12 of None \<Rightarrow> True
      | Some (out, _) \<Rightarrow> let rcode = code (out ! 3) AND 15 in rcode \<noteq> 0 \<and> rcode \<noteq> 3)"

definition irrelevant :: "cstr \<Rightarrow> cstr \<Rightarrow> cstr \<Rightarrow> bool" where
  "irrelevant query qt buf =
     (case dns_packet_copy buf 0 12 of None \<Rightarrow> True
      | Some (out, pos) \<Rightarrow>
          if byte_diff (take 2 out) (take 2 (drop 2 query)) \<noteq> 0 then True
          else if out ! 4 \<noteq> NUL then True
          else if out ! 5 \<noteq> CHR 0x01 then True
          else (case dns_packet_getname buf pos of None \<Rightarrow> True
                | Some (dn, pos1) \<Rightarrow>
                    if dns_domain_equal dn (drop 14 query) \<noteq> Some True then True
                    else (case dns_packet_copy buf pos1 4 of None \<Rightarrow> True
                          | Some (out, _) \<Rightarrow>
                              if byte_diff (take 2 out) qt \<noteq> 0 then True
                              else byte_diff (drop 2 out) DNS_C_IN \<noteq> 0)))"

subsection \<open>Sockets\<close>

definition packetfree :: "transmit \<Rightarrow> transmit" where
  "packetfree d = d\<lparr>d_packet := None\<rparr>"

definition queryfree :: "transmit \<Rightarrow> transmit" where
  "queryfree d = d\<lparr>d_query := None\<rparr>"

definition socketfree :: "transmit \<Rightarrow> transmit" where
  "socketfree d = d\<lparr>sock := False\<rparr>"

definition dns_transmit_free :: "transmit \<Rightarrow> transmit" where
  "dns_transmit_free d = packetfree (socketfree (queryfree d))"

fun bind_loop :: "nat \<Rightarrow> sys \<Rightarrow> transmit \<Rightarrow> bool \<times> transmit" where
  "bind_loop 0 S d = (bindable S 0 0, d)"
| "bind_loop (Suc j) S d =
     (let (r, rn) = dns_random 64510 (d_rnd d); d1 = d\<lparr>d_rnd := rn\<rparr>
      in if bindable S (Suc j) (1025 + r) then (True, d1) else bind_loop j S d1)"

definition randombind :: "sys \<Rightarrow> transmit \<Rightarrow> bool \<times> transmit" where
  "randombind S d = bind_loop 10 S d"

definition timeouts :: "nat list" where
  "timeouts = [1, 3, 11, 45]"

definition server_ip :: "transmit \<Rightarrow> cstr" where
  "server_ip d = take 4 (drop (4 * curserver d) (d_servers d))"

definition no_ip :: cstr where
  "no_ip = [NUL, NUL, NUL, NUL]"

text \<open>A new random number of two bytes for the query.\<close>

definition new_id :: "transmit \<Rightarrow> transmit option" where
  "new_id d =
     do { q \<leftarrow> d_query d;
          let (a, r1) = dns_random 256 (d_rnd d); let (b, r2) = dns_random 256 r1;
          Some (d\<lparr>d_query := Some (q[2 := char_of a, 3 := char_of b]), d_rnd := r2\<rparr>) }"

definition set_deadline :: "nat \<Rightarrow> sys \<Rightarrow> transmit \<Rightarrow> transmit" where
  "set_deadline n S d = d\<lparr>d_deadline := taia_add (taia_uint (word_of_nat n)) (sys_now S)\<rparr>"

text \<open>One server: whether the search is over, with the result, or goes on to the next one.\<close>

definition try_udp :: "sys \<Rightarrow> transmit \<Rightarrow> (bool option \<times> transmit) option" where
  "try_udp S d =
     (if byte_diff (server_ip d) no_ip \<noteq> 0 then
        do { d1 \<leftarrow> new_id d;
             if \<not> has_socket S then Some (Some False, dns_transmit_free (d1\<lparr>sock := False\<rparr>))
             else let (ok, d2) = randombind S (d1\<lparr>sock := True\<rparr>) in
               if \<not> ok then Some (Some False, dns_transmit_free d2)
               else if sys_connect S = Connected \<and> sys_send S
               then Some (Some True, (set_deadline (timeouts ! udploop d2) S d2)\<lparr>tcpstate := 0\<rparr>)
               else Some (None, socketfree d2) }
      else Some (None, d))"

definition try_tcp :: "sys \<Rightarrow> transmit \<Rightarrow> (bool option \<times> transmit) option" where
  "try_tcp S d =
     (if byte_diff (server_ip d) no_ip \<noteq> 0 then
        do { d1 \<leftarrow> new_id d;
             if \<not> has_socket S then Some (Some False, dns_transmit_free (d1\<lparr>sock := False\<rparr>))
             else let (ok, d2) = randombind S (d1\<lparr>sock := True\<rparr>) in
               if \<not> ok then Some (Some False, dns_transmit_free d2)
               else let d3 = set_deadline 10 S d2 in
                 (case sys_connect S of
                    Connected \<Rightarrow> Some (Some True, d3\<lparr>tcpstate := 2\<rparr>)
                  | In_progress \<Rightarrow> Some (Some True, d3\<lparr>tcpstate := 1\<rparr>)
                  | Refused \<Rightarrow> Some (None, socketfree d3)) }
      else Some (None, d))"

text \<open>The loops over 16 servers, with \<open>n\<close> of them left, and over the times that all are asked, with \<open>m\<close> left.\<close>

fun udp_servers :: "nat \<Rightarrow> world \<Rightarrow> transmit \<Rightarrow> (bool option \<times> transmit) option" where
  "udp_servers 0 S d = Some (None, d)"
| "udp_servers (Suc n) S d =
     do { (r, d1) \<leftarrow> try_udp (S (place d)) d;
          case r of Some b \<Rightarrow> Some (Some b, d1) | None \<Rightarrow> udp_servers n S (d1\<lparr>curserver := curserver d1 + 1\<rparr>) }"

fun udp_times :: "nat \<Rightarrow> world \<Rightarrow> transmit \<Rightarrow> (bool \<times> transmit) option" where
  "udp_times 0 S d = Some (False, dns_transmit_free d)"
| "udp_times (Suc m) S d =
     do { (r, d1) \<leftarrow> udp_servers (16 - curserver d) S d;
          case r of Some b \<Rightarrow> Some (b, d1)
          | None \<Rightarrow> udp_times m S (d1\<lparr>udploop := udploop d1 + 1, curserver := 0\<rparr>) }"

definition thisudp :: "world \<Rightarrow> transmit \<Rightarrow> (bool \<times> transmit) option" where
  "thisudp S d = udp_times (4 - udploop d) S (socketfree d)"

fun tcp_servers :: "nat \<Rightarrow> world \<Rightarrow> transmit \<Rightarrow> (bool \<times> transmit) option" where
  "tcp_servers 0 S d = Some (False, dns_transmit_free d)"
| "tcp_servers (Suc n) S d =
     do { (r, d1) \<leftarrow> try_tcp (S (place d)) d;
          case r of Some b \<Rightarrow> Some (b, d1) | None \<Rightarrow> tcp_servers n S (d1\<lparr>curserver := curserver d1 + 1\<rparr>) }"

definition thistcp :: "world \<Rightarrow> transmit \<Rightarrow> (bool \<times> transmit) option" where
  "thistcp S d = tcp_servers (16 - curserver d) S (packetfree (socketfree d))"

definition firstudp :: "world \<Rightarrow> transmit \<Rightarrow> (bool \<times> transmit) option" where
  "firstudp S d = thisudp S (d\<lparr>curserver := 0\<rparr>)"

definition nextudp :: "world \<Rightarrow> transmit \<Rightarrow> (bool \<times> transmit) option" where
  "nextudp S d = thisudp S (d\<lparr>curserver := curserver d + 1\<rparr>)"

definition firsttcp :: "world \<Rightarrow> transmit \<Rightarrow> (bool \<times> transmit) option" where
  "firsttcp S d = thistcp S (d\<lparr>curserver := 0\<rparr>)"

definition nexttcp :: "world \<Rightarrow> transmit \<Rightarrow> (bool \<times> transmit) option" where
  "nexttcp S d = thistcp S (d\<lparr>curserver := curserver d + 1\<rparr>)"

subsection \<open>The question and the steps\<close>

definition query_of :: "bool \<Rightarrow> cstr \<Rightarrow> cstr \<Rightarrow> cstr" where
  "query_of flagrecursive q qt =
     map char_of_byte (uint16_pack_big (word_of_nat (length q + 16)))
     @ [NUL, NUL, if flagrecursive then CHR 0x01 else NUL, NUL, NUL, CHR 0x01, NUL, NUL, NUL, NUL, NUL, NUL]
     @ q @ qt @ DNS_C_IN"

definition dns_transmit_start :: "world \<Rightarrow> cstr \<Rightarrow> bool \<Rightarrow> cstr \<Rightarrow> cstr \<Rightarrow> transmit \<Rightarrow> (bool \<times> transmit) option" where
  "dns_transmit_start S servers flagrecursive q qt d0 =
     do { len \<leftarrow> dns_domain_length q;
          let d = (dns_transmit_free d0)\<lparr>d_query := Some (query_of flagrecursive (take len q) qt), qtype := qt, d_servers := servers,
                     udploop := (if flagrecursive then 1 else 0)\<rparr>;
          if len + 16 > 512 then firsttcp S d else firstudp S d }"

definition dns_transmit_io :: "transmit \<Rightarrow> taia \<Rightarrow> bool \<times> taia" where
  "dns_transmit_io d deadline =
     (tcpstate d \<noteq> 1 \<and> tcpstate d \<noteq> 2, if taia_less (d_deadline d) deadline then d_deadline d else deadline)"

definition got :: "nat \<Rightarrow> io \<Rightarrow> cstr option" where
  "got n x = (case arrived x of None \<Rightarrow> None | Some s \<Rightarrow> if take n s = [] then None else Some (take n s))"

definition again :: "(bool \<times> transmit) option \<Rightarrow> (outcome \<times> transmit) option" where
  "again r = do { (ok, d) \<leftarrow> r; Some (if ok then Again else Failed, d) }"

definition get_udp :: "world \<Rightarrow> io \<Rightarrow> transmit \<Rightarrow> (outcome \<times> transmit) option" where
  "get_udp S x d =
     (case got 513 x of
        None \<Rightarrow> if udploop d = 2 then Some (Again, d) else again (nextudp S d)
      | Some buf \<Rightarrow>
          if length buf + 1 > 513 then Some (Again, d)
          else do { q \<leftarrow> d_query d;
                    if irrelevant q (qtype d) buf then Some (Again, d)
                    else if serverwantstcp buf then again (firsttcp S d)
                    else if serverfailed buf then (if udploop d = 2 then Some (Again, d) else again (nextudp S d))
                    else Some (Answer, queryfree ((socketfree d)\<lparr>packetlen := length buf, d_packet := Some buf\<rparr>)) })"

definition get_packet :: "world \<Rightarrow> io \<Rightarrow> transmit \<Rightarrow> (outcome \<times> transmit) option" where
  "get_packet S x d =
     (if packetlen d < d_pos d then None else
      case got (packetlen d - d_pos d) x of
        None \<Rightarrow> again (nexttcp S d)
      | Some t \<Rightarrow>
          do { p \<leftarrow> d_packet d; q \<leftarrow> d_query d;
               let buf = take (d_pos d) p @ t;
               let d1 = d\<lparr>d_packet := Some buf, d_pos := d_pos d + length t\<rparr>;
               if d_pos d1 < packetlen d then Some (Again, d1)
               else let d2 = socketfree d1 in
                 if irrelevant q (qtype d) buf \<or> serverwantstcp buf \<or> serverfailed buf then again (nexttcp S d2)
                 else Some (Answer, queryfree d2) })"

definition dns_transmit_get :: "world \<Rightarrow> io \<Rightarrow> transmit \<Rightarrow> (outcome \<times> transmit) option" where
  "dns_transmit_get S x d =
     (if \<not> revents x then
        if taia_less (io_when x) (d_deadline d) then Some (Again, d)
        else if tcpstate d = 0 then again (nextudp S d) else again (nexttcp S d)
      else if tcpstate d = 0 then get_udp S x d
      else if tcpstate d = 1 then
        if \<not> is_connected x then again (nexttcp S d) else Some (Again, d\<lparr>d_pos := 0, tcpstate := 2\<rparr>)
      else if tcpstate d = 2 then
        do { q \<leftarrow> d_query d;
             let r = min (taken x) (length q - d_pos d);
             if length q < d_pos d then None
             else if r = 0 then again (nexttcp S d)
             else let d1 = d\<lparr>d_pos := d_pos d + r\<rparr> in
               Some (Again, if d_pos d1 = length q then (set_deadline 10 (S (place d1)) d1)\<lparr>tcpstate := 3\<rparr> else d1) }
      else if tcpstate d = 3 then
        (case got 1 x of None \<Rightarrow> again (nexttcp S d)
         | Some t \<Rightarrow> Some (Again, d\<lparr>packetlen := code (hd t), tcpstate := 4\<rparr>))
      else if tcpstate d = 4 then
        (case got 1 x of None \<Rightarrow> again (nexttcp S d)
         | Some t \<Rightarrow> Some (Again, d\<lparr>packetlen := packetlen d * 256 + code (hd t), tcpstate := 5, d_pos := 0, d_packet := Some []\<rparr>))
      else if tcpstate d = 5 then get_packet S x d
      else Some (Again, d))"


subsection \<open>What stays the same\<close>

text \<open>The query is the one that was started, with some two bytes as its number.\<close>

definition asks :: "cstr \<Rightarrow> transmit \<Rightarrow> bool" where
  "asks q d \<longleftrightarrow> (\<exists>a b. d_query d = Some (q[2 := a, 3 := b]))"

definition freed :: "transmit \<Rightarrow> bool" where
  "freed d \<longleftrightarrow> d_query d = None \<and> \<not> sock d \<and> d_packet d = None"

lemma freed_free [simp]: "freed (dns_transmit_free d)"
  by (simp add: freed_def dns_transmit_free_def packetfree_def socketfree_def queryfree_def)

lemma asks_updates [simp]:
  "asks q (d\<lparr>sock := s\<rparr>) = asks q d" "asks q (d\<lparr>tcpstate := n\<rparr>) = asks q d" "asks q (d\<lparr>curserver := n\<rparr>) = asks q d"
  "asks q (d\<lparr>udploop := n\<rparr>) = asks q d" "asks q (d\<lparr>d_deadline := t\<rparr>) = asks q d" "asks q (d\<lparr>d_rnd := r\<rparr>) = asks q d"
  "asks q (d\<lparr>d_packet := p\<rparr>) = asks q d" "asks q (d\<lparr>d_pos := n\<rparr>) = asks q d" "asks q (d\<lparr>packetlen := n\<rparr>) = asks q d"
  "asks q (socketfree d) = asks q d" "asks q (packetfree d) = asks q d" "asks q (set_deadline n S d) = asks q d"
  by (simp_all add: asks_def socketfree_def packetfree_def set_deadline_def)

lemma field_simps_free [simp]:
  "curserver (socketfree d) = curserver d" "udploop (socketfree d) = udploop d" "tcpstate (socketfree d) = tcpstate d"
  "qtype (socketfree d) = qtype d" "curserver (packetfree d) = curserver d" "qtype (packetfree d) = qtype d"
  "curserver (set_deadline n S d) = curserver d" "udploop (set_deadline n S d) = udploop d" "qtype (set_deadline n S d) = qtype d"
  by (simp_all add: socketfree_def packetfree_def set_deadline_def)

lemma bind_loop_keeps: "bind_loop j S d = (ok, d') \<Longrightarrow> \<exists>r. d' = d\<lparr>d_rnd := r\<rparr>"
proof (induction j arbitrary: d)
  case 0
  then show ?case by (intro exI [of _ "d_rnd d"]) simp
next
  case (Suc j)
  then show ?case by (fastforce simp: Let_def split: prod.splits if_splits)
qed

lemma overwrite_id: "q[2 := a, 3 := b, 2 := c, 3 := e] = q[2 := c, 3 := (e :: char)]"
  by (simp add: list_update_swap [of 3 2])

lemma new_id_asks: "asks q d \<Longrightarrow> \<exists>d1. new_id d = Some d1 \<and> asks q d1 \<and> (\<exists>x r. d1 = d\<lparr>d_query := x, d_rnd := r\<rparr>)"
proof -
  assume "asks q d"
  then obtain a b where q: "d_query d = Some (q[2 := a, 3 := b])" by (auto simp: asks_def)
  obtain m r1 where m: "dns_random 256 (d_rnd d) = (m, r1)" by fastforce
  obtain n r2 where n: "dns_random 256 r1 = (n, r2)" by fastforce
  let ?d1 = "d\<lparr>d_query := Some (q[2 := char_of m, 3 := char_of n]), d_rnd := r2\<rparr>"
  have "new_id d = Some ?d1" using q m n overwrite_id [of q a b] by (simp add: new_id_def)
  moreover have "asks q ?d1" by (auto simp: asks_def)
  ultimately show ?thesis by blast
qed

text \<open>A try leaves the place among the servers as it is; when it is over, the query is out or everything is freed.\<close>

definition tried :: "cstr \<Rightarrow> transmit \<Rightarrow> bool option \<Rightarrow> transmit \<Rightarrow> bool" where
  "tried q d r d1 \<longleftrightarrow> (case r of Some False \<Rightarrow> freed d1 | _ \<Rightarrow> asks q d1 \<and> curserver d1 = curserver d \<and> udploop d1 = udploop d \<and> qtype d1 = qtype d)"

lemma try_udp_tried:
  assumes "asks q d"
  shows "\<exists>r d1. try_udp S d = Some (r, d1) \<and> tried q d r d1 \<and> (r = Some True \<longrightarrow> tcpstate d1 = 0)"
proof -
  obtain d1 where n: "new_id d = Some d1" "asks q d1" "curserver d1 = curserver d" "udploop d1 = udploop d" "qtype d1 = qtype d"
    using new_id_asks [OF assms] by auto
  obtain ok d2 where b: "randombind S (d1\<lparr>sock := True\<rparr>) = (ok, d2)" by fastforce
  then obtain r where "d2 = d1\<lparr>sock := True, d_rnd := r\<rparr>" by (auto simp: randombind_def dest: bind_loop_keeps)
  with n have "asks q d2" "curserver d2 = curserver d" "udploop d2 = udploop d" "qtype d2 = qtype d" by simp_all
  then show ?thesis using n assms by (auto simp: try_udp_def b tried_def)
qed

lemma try_tcp_tried:
  assumes "asks q d"
  shows "\<exists>r d1. try_tcp S d = Some (r, d1) \<and> tried q d r d1 \<and> (r = Some True \<longrightarrow> tcpstate d1 \<in> {1, 2})"
proof -
  obtain d1 where n: "new_id d = Some d1" "asks q d1" "curserver d1 = curserver d" "udploop d1 = udploop d" "qtype d1 = qtype d"
    using new_id_asks [OF assms] by auto
  obtain ok d2 where b: "randombind S (d1\<lparr>sock := True\<rparr>) = (ok, d2)" by fastforce
  then obtain r where "d2 = d1\<lparr>sock := True, d_rnd := r\<rparr>" by (auto simp: randombind_def dest: bind_loop_keeps)
  with n have "asks q d2" "curserver d2 = curserver d" "udploop d2 = udploop d" "qtype d2 = qtype d" by simp_all
  then show ?thesis using n assms by (auto simp: try_tcp_def b tried_def Let_def split: connection.split)
qed

text \<open>A connection over TCP that is there at once goes on at the position an earlier server left.\<close>

lemma try_tcp_pos: "try_tcp S d = Some (Some True, d1) \<Longrightarrow> d_pos d1 = d_pos d"
  by (auto simp: try_tcp_def new_id_def randombind_def set_deadline_def Let_def socketfree_def split: if_splits bind_splits connection.splits prod.splits
      dest!: bind_loop_keeps)

definition asking :: "cstr \<Rightarrow> cstr \<Rightarrow> transmit \<Rightarrow> bool" where
  "asking q qt d \<longleftrightarrow> asks q d \<and> qtype d = qt \<and> curserver d < 16 \<and> (tcpstate d = 0 \<longrightarrow> udploop d < 4)
     \<and> (tcpstate d = 5 \<longrightarrow> d_packet d \<noteq> None \<and> d_pos d \<le> packetlen d)"

definition udp_found :: "cstr \<Rightarrow> transmit \<Rightarrow> bool option \<Rightarrow> transmit \<Rightarrow> bool" where
  "udp_found q d r d1 \<longleftrightarrow>
     (case r of
        Some False \<Rightarrow> freed d1
      | Some True \<Rightarrow> asks q d1 \<and> qtype d1 = qtype d \<and> tcpstate d1 = 0 \<and> udploop d1 = udploop d
          \<and> curserver d \<le> curserver d1 \<and> curserver d1 < 16
      | None \<Rightarrow> asks q d1 \<and> qtype d1 = qtype d \<and> udploop d1 = udploop d)"

lemma udp_found_later: "udp_found q e r d1 \<Longrightarrow> qtype e = qtype d \<Longrightarrow> udploop e = udploop d \<Longrightarrow> curserver d \<le> curserver e \<Longrightarrow> udp_found q d r d1"
  by (auto simp: udp_found_def split: option.splits bool.splits)

lemma udp_servers_found:
  "asks q d \<Longrightarrow> curserver d + n = 16 \<Longrightarrow> \<exists>r d1. udp_servers n S d = Some (r, d1) \<and> udp_found q d r d1"
proof (induction n arbitrary: d)
  case (Suc n)
  from try_udp_tried [OF Suc.prems(1), of "S (place d)"] obtain r d1 where
    t: "try_udp (S (place d)) d = Some (r, d1)" "tried q d r d1" "r = Some True \<longrightarrow> tcpstate d1 = 0" by blast
  show ?case
  proof (cases r)
    case None
    let ?e = "d1\<lparr>curserver := curserver d1 + 1\<rparr>"
    from t(2) None have d1: "asks q d1" "curserver d1 = curserver d" "udploop d1 = udploop d" "qtype d1 = qtype d" by (simp_all add: tried_def)
    with Suc.prems(2) have "asks q ?e" "curserver ?e + n = 16" by simp_all
    from Suc.IH [OF this] obtain r2 d2 where e: "udp_servers n S ?e = Some (r2, d2)" "udp_found q ?e r2 d2" by blast
    have "udp_found q d r2 d2" by (rule udp_found_later [OF e(2)]) (use d1 in simp_all)
    then show ?thesis using t(1) None e(1) by simp
  next
    case (Some b)
    with t Suc.prems(2) show ?thesis by (cases b) (simp_all add: tried_def udp_found_def)
  qed
qed (auto simp: udp_found_def)

text \<open>What a search gives back: the query is out again at a later place, or everything is freed.\<close>

definition udp_over :: "cstr \<Rightarrow> transmit \<Rightarrow> bool \<Rightarrow> transmit \<Rightarrow> bool" where
  "udp_over q d ok d1 \<longleftrightarrow>
     (if ok then asks q d1 \<and> qtype d1 = qtype d \<and> tcpstate d1 = 0 \<and> udploop d1 < 4 \<and> curserver d1 < 16 \<and> place d \<le> place d1
      else freed d1)"

lemma udp_times_found:
  "asks q d \<Longrightarrow> udploop d + m = 4 \<Longrightarrow> curserver d \<le> 16 \<Longrightarrow> \<exists>ok d1. udp_times m S d = Some (ok, d1) \<and> udp_over q d ok d1"
proof (induction m arbitrary: d)
  case (Suc m)
  have "curserver d + (16 - curserver d) = 16" using Suc.prems(3) by simp
  from udp_servers_found [OF Suc.prems(1) this, of S] obtain r d1 where
    s: "udp_servers (16 - curserver d) S d = Some (r, d1)" "udp_found q d r d1" by blast
  show ?case
  proof (cases r)
    case None
    let ?e = "d1\<lparr>udploop := udploop d1 + 1, curserver := 0\<rparr>"
    from s(2) None have d1: "asks q d1" "qtype d1 = qtype d" "udploop d1 = udploop d" by (simp_all add: udp_found_def)
    with Suc.prems(2) have "asks q ?e" "udploop ?e + m = 4" "curserver ?e \<le> 16" by simp_all
    from Suc.IH [OF this] obtain ok d2 where e: "udp_times m S ?e = Some (ok, d2)" "udp_over q ?e ok d2" by blast
    have "place d \<le> place ?e" using d1 Suc.prems(3) by (simp add: place_def)
    with e(2) d1(2) have "udp_over q d ok d2" by (auto simp: udp_over_def split: if_splits)
    then show ?thesis using s(1) None e(1) by simp
  next
    case (Some b)
    with s Suc.prems(2) show ?thesis by (cases b) (auto simp: udp_found_def udp_over_def place_def)
  qed
qed (auto simp: udp_over_def)

lemma thisudp_over:
  assumes "asks q d" "udploop d \<le> 4" "curserver d \<le> 16"
  shows "\<exists>ok d1. thisudp S d = Some (ok, d1) \<and> udp_over q d ok d1"
proof -
  have "asks q (socketfree d)" "udploop (socketfree d) + (4 - udploop d) = 4" "curserver (socketfree d) \<le> 16" using assms by simp_all
  from udp_times_found [OF this, of S] obtain ok d1 where "udp_times (4 - udploop d) S (socketfree d) = Some (ok, d1)"
    "udp_over q (socketfree d) ok d1" by blast
  moreover have "udp_over q (socketfree d) ok d1 = udp_over q d ok d1" by (simp add: udp_over_def place_def)
  ultimately show ?thesis unfolding thisudp_def by blast
qed

definition tcp_over :: "cstr \<Rightarrow> transmit \<Rightarrow> bool \<Rightarrow> transmit \<Rightarrow> bool" where
  "tcp_over q d ok d1 \<longleftrightarrow>
     (if ok then asks q d1 \<and> qtype d1 = qtype d \<and> tcpstate d1 \<in> {1, 2} \<and> curserver d \<le> curserver d1 \<and> curserver d1 < 16
      else freed d1)"

lemma tcp_servers_over:
  "asks q d \<Longrightarrow> curserver d + n = 16 \<Longrightarrow> \<exists>ok d1. tcp_servers n S d = Some (ok, d1) \<and> tcp_over q d ok d1"
proof (induction n arbitrary: d)
  case (Suc n)
  from try_tcp_tried [OF Suc.prems(1), of "S (place d)"] obtain r d1 where
    t: "try_tcp (S (place d)) d = Some (r, d1)" "tried q d r d1" "r = Some True \<longrightarrow> tcpstate d1 \<in> {1, 2}" by blast
  show ?case
  proof (cases r)
    case None
    let ?e = "d1\<lparr>curserver := curserver d1 + 1\<rparr>"
    from t(2) None have d1: "asks q d1" "curserver d1 = curserver d" "udploop d1 = udploop d" "qtype d1 = qtype d" by (simp_all add: tried_def)
    with Suc.prems(2) have "asks q ?e" "curserver ?e + n = 16" by simp_all
    from Suc.IH [OF this] obtain ok d2 where e: "tcp_servers n S ?e = Some (ok, d2)" "tcp_over q ?e ok d2" by blast
    have "tcp_over q d ok d2" using e(2) d1 by (auto simp: tcp_over_def split: if_splits)
    then show ?thesis using t(1) None e(1) by simp
  next
    case (Some b)
    with t Suc.prems(2) show ?thesis by (cases b) (auto simp: tried_def tcp_over_def)
  qed
qed (auto simp: tcp_over_def)

lemma thistcp_over:
  assumes "asks q d" "curserver d \<le> 16"
  shows "\<exists>ok d1. thistcp S d = Some (ok, d1) \<and> tcp_over q d ok d1"
proof -
  have "asks q (packetfree (socketfree d))" "curserver (packetfree (socketfree d)) + (16 - curserver d) = 16" using assms by simp_all
  from tcp_servers_over [OF this, of S] obtain ok d1 where "tcp_servers (16 - curserver d) S (packetfree (socketfree d)) = Some (ok, d1)"
    "tcp_over q (packetfree (socketfree d)) ok d1" by blast
  moreover have "tcp_over q (packetfree (socketfree d)) ok d1 = tcp_over q d ok d1" by (simp add: tcp_over_def)
  ultimately show ?thesis unfolding thistcp_def by blast
qed


lemma again_simps [simp]: "again (Some (ok, d)) = Some (if ok then Again else Failed, d)"
  by (simp add: again_def)

lemma again_not_Answer: "again r \<noteq> Some (Answer, d)"
  by (auto simp: again_def split: bind_splits if_splits)

text \<open>A step that goes on to the next server: the query is out at a later place, or everything is freed.\<close>

lemma next_udp:
  assumes "asking q qt d" "tcpstate d = 0"
  shows "\<exists>r d1. again (nextudp S d) = Some (r, d1) \<and>
    (r = Again \<and> asking q qt d1 \<and> tcpstate d1 = 0 \<and> place d < place d1 \<or> r = Failed \<and> freed d1)"
proof -
  have a: "asks q d" "qtype d = qt" "udploop d < 4" "curserver d < 16" using assms by (simp_all add: asking_def)
  then obtain ok d1 where "thisudp S (d\<lparr>curserver := curserver d + 1\<rparr>) = Some (ok, d1)" "udp_over q (d\<lparr>curserver := curserver d + 1\<rparr>) ok d1"
    using thisudp_over [of q "d\<lparr>curserver := curserver d + 1\<rparr>" S] by auto
  with a show ?thesis by (cases ok) (auto simp: nextudp_def udp_over_def asking_def place_def)
qed

lemma next_tcp:
  assumes "asks q d" "qtype d = qt" "curserver d < 16"
  shows "\<exists>r d1. again (nexttcp S d) = Some (r, d1) \<and>
    (r = Again \<and> asking q qt d1 \<and> tcpstate d1 \<noteq> 0 \<and> curserver d < curserver d1 \<or> r = Failed \<and> freed d1)"
proof -
  obtain ok d1 where "thistcp S (d\<lparr>curserver := curserver d + 1\<rparr>) = Some (ok, d1)" "tcp_over q (d\<lparr>curserver := curserver d + 1\<rparr>) ok d1"
    using thistcp_over [of q "d\<lparr>curserver := curserver d + 1\<rparr>" S] assms by auto
  with assms show ?thesis by (cases ok) (auto simp: nexttcp_def tcp_over_def asking_def)
qed

lemma first_tcp:
  assumes "asks q d" "qtype d = qt"
  shows "\<exists>r d1. again (firsttcp S d) = Some (r, d1) \<and> (r = Again \<and> asking q qt d1 \<or> r = Failed \<and> freed d1)"
proof -
  obtain ok d1 where "thistcp S (d\<lparr>curserver := 0\<rparr>) = Some (ok, d1)" "tcp_over q (d\<lparr>curserver := 0\<rparr>) ok d1"
    using thistcp_over [of q "d\<lparr>curserver := 0\<rparr>" S] assms by auto
  with assms show ?thesis by (cases ok) (auto simp: firsttcp_def tcp_over_def asking_def)
qed

text \<open>The answer to a question, as its packet shows it: the number and the question are those that were sent, it is
  whole, and the server did not fail.\<close>

definition answers_to :: "cstr \<Rightarrow> cstr \<Rightarrow> cstr \<Rightarrow> cstr \<Rightarrow> bool" where
  "answers_to nr q qt p \<longleftrightarrow> 12 \<le> length p \<and> take 2 p = nr \<and> p ! 4 = NUL \<and> p ! 5 = CHR 0x01
     \<and> code (p ! 2) AND 2 = 0 \<and> code (p ! 3) AND 15 \<in> {0, 3}
     \<and> (\<exists>dn pos. dns_packet_getname p 12 = Some (dn, pos) \<and> dns_domain_equal dn q = Some True \<and> take 4 (drop pos p) = qt @ DNS_C_IN)"

lemma packet_copy_Some: "dns_packet_copy buf pos n = Some (out, p) \<Longrightarrow> out = take n (drop pos buf) \<and> p = pos + n \<and> (0 < n \<longrightarrow> pos + n \<le> length buf)"
proof (induction n arbitrary: pos out p)
  case (Suc n)
  from Suc.prems obtain o2 where o: "pos < length buf" "dns_packet_copy buf (pos + 1) n = Some (o2, p)" "out = buf ! pos # o2"
    by (auto split: if_splits bind_splits)
  from Suc.IH [OF o(2)] o(1,3) show ?case by (cases n) (auto simp: Cons_nth_drop_Suc [symmetric])
qed simp

lemma packet_copy_defined: "pos + n \<le> length buf \<Longrightarrow> dns_packet_copy buf pos n = Some (take n (drop pos buf), pos + n)"
proof (induction n arbitrary: pos)
  case (Suc n)
  from Suc.IH [of "pos + 1"] Suc.prems show ?case by (simp add: Cons_nth_drop_Suc [symmetric])
qed simp

lemma equal_longer: "list_all label_ok ls \<Longrightarrow> dns_domain_equal dn (pack ls @ r) = dns_domain_equal dn (pack ls)"
  using domain_length_pack [of ls r] domain_length_pack [of ls "[]"]
  by (cases "dns_domain_length dn") (auto simp: dns_domain_equal_def)

lemma relevant_answer:
  assumes "\<not> irrelevant qq qt p" "\<not> serverwantstcp p" "\<not> serverfailed p" "length qt = 2" "4 \<le> length qq"
    "drop 14 qq = pack ls @ r" "list_all label_ok ls"
  shows "answers_to (take 2 (drop 2 qq)) (pack ls) qt p"
proof -
  from assms(1) obtain o1 pos1 where o1: "dns_packet_copy p 0 12 = Some (o1, pos1)" by (auto simp: irrelevant_def split: option.splits)
  from packet_copy_Some [OF o1] have o: "o1 = take 12 p" "pos1 = 12" "12 \<le> length p" by simp_all
  note c = o1 [unfolded o(1,2)]
  from assms(1) obtain dn pos o2 pos2 where
    n: "byte_diff (take 2 p) (take 2 (drop 2 qq)) = 0" "p ! 4 = NUL" "p ! 5 = CHR 0x01" "dns_packet_getname p 12 = Some (dn, pos)"
      "dns_domain_equal dn (drop 14 qq) = Some True" "dns_packet_copy p pos 4 = Some (o2, pos2)"
      "byte_diff (take 2 o2) qt = 0" "byte_diff (drop 2 o2) DNS_C_IN = 0"
    using o(3) by (auto simp: irrelevant_def c split: option.splits if_splits)
  from packet_copy_Some [OF n(6)] have o2: "o2 = take 4 (drop pos p)" "length o2 = 4" by auto
  have "take 2 p = take 2 (drop 2 qq)" using n(1) o(3) assms(5) by (subst (asm) byte_diff_eq) simp_all
  moreover have "take 2 o2 = qt" using n(7) o2(2) assms(4) by (subst (asm) byte_diff_eq) simp_all
  moreover have "drop 2 o2 = DNS_C_IN" using n(8) o2(2) by (subst (asm) byte_diff_eq) (simp_all add: DNS_C_IN_def)
  ultimately have "take 4 (drop pos p) = qt @ DNS_C_IN" "take 2 p = take 2 (drop 2 qq)" using append_take_drop_id [of 2 o2] o2(1) by metis+
  then show ?thesis using n(2-5) o(3) assms(2,3,6) equal_longer [OF assms(7)] c
    by (auto simp: answers_to_def serverwantstcp_def serverfailed_def Let_def)
qed


lemma query_asks: "d_query d = Some (query_of f q qt) \<Longrightarrow> asks (query_of f q qt) d"
proof -
  obtain a b where "map char_of_byte (uint16_pack_big (word_of_nat (length q + 16))) = [a, b]"
    by (simp add: uint16_pack_big_def)
  then have "query_of f q qt = (query_of f q qt)[2 := NUL, 3 := NUL]" by (simp add: query_of_def)
  then show "d_query d = Some (query_of f q qt) \<Longrightarrow> asks (query_of f q qt) d" unfolding asks_def by metis
qed

lemma query_parts: "drop 14 ((query_of f q qt)[2 := a, 3 := b]) = q @ qt @ DNS_C_IN" "4 \<le> length ((query_of f q qt)[2 := a, 3 := b])"
  by (simp_all add: query_of_def uint16_pack_big_def)

lemma start_asking:
  assumes "dns_transmit_start S servers f (pack ls) qt d0 = Some (True, d)" "list_all label_ok ls"
  shows "asking (query_of f (pack ls) qt) qt d"
proof -
  let ?q = "query_of f (pack ls) qt"
  let ?d = "(dns_transmit_free d0)\<lparr>d_query := Some ?q, qtype := qt, d_servers := servers, udploop := (if f then 1 else 0)\<rparr>"
  have a: "asks ?q ?d" by (rule query_asks) simp
  have "dns_domain_length (pack ls) = Some (length (pack ls))" using domain_length_pack [OF assms(2), of "[]"] by simp
  with assms(1) have s: "(if length (pack ls) + 16 > 512 then firsttcp S ?d else firstudp S ?d) = Some (True, d)"
    by (simp add: dns_transmit_start_def Let_def del: if_split cong: if_cong)
  show ?thesis
  proof (cases "length (pack ls) + 16 > 512")
    case True
    with s first_tcp [OF a, of qt S] show ?thesis by (auto split: if_splits)
  next
    case False
    have "asks ?q (?d\<lparr>curserver := 0\<rparr>)" "udploop (?d\<lparr>curserver := 0\<rparr>) \<le> 4" "curserver (?d\<lparr>curserver := 0\<rparr>) \<le> 16"
      using a by simp_all
    from thisudp_over [OF this, of S] obtain ok d1 where
      "thisudp S (?d\<lparr>curserver := 0\<rparr>) = Some (ok, d1)" "udp_over ?q (?d\<lparr>curserver := 0\<rparr>) ok d1" by blast
    with s False show ?thesis by (auto simp: firstudp_def udp_over_def asking_def)
  qed
qed

lemma asking_parts: "asking q qt d \<Longrightarrow> asks q d \<and> qtype d = qt \<and> curserver d < 16 \<and> (\<exists>qq. d_query d = Some qq)"
  by (auto simp: asking_def asks_def)

lemma next_tcp_asking: "asking q qt d \<Longrightarrow> again (nexttcp S d) = Some (Again, d') \<Longrightarrow> asking q qt d'"
  using next_tcp [of q d qt S] by (auto simp: asking_def)

lemma next_udp_asking: "asking q qt d \<Longrightarrow> tcpstate d = 0 \<Longrightarrow> again (nextudp S d) = Some (Again, d') \<Longrightarrow> asking q qt d'"
  using next_udp [of q qt d S] by auto

lemma first_tcp_asking: "asking q qt d \<Longrightarrow> again (firsttcp S d) = Some (Again, d') \<Longrightarrow> asking q qt d'"
  using first_tcp [of q d qt S] by (auto simp: asking_def)

lemma get_udp_asking:
  assumes "asking q qt d" "tcpstate d = 0" "get_udp S x d = Some (Again, d')"
  shows "asking q qt d'"
proof -
  obtain qq where "d_query d = Some qq" using asking_parts [OF assms(1)] by blast
  with assms show ?thesis
    by (auto simp: get_udp_def split: option.split_asm if_split_asm dest: next_udp_asking first_tcp_asking)
qed

lemma got_length: "got n x = Some t \<Longrightarrow> length t \<le> n"
  by (auto simp: got_def split: option.splits if_splits)

lemma get_packet_asking:
  assumes "asking q qt d" "tcpstate d = 5" "get_packet S x d = Some (Again, d')"
  shows "asking q qt d'"
proof (cases "got (packetlen d - d_pos d) x")
  case None
  with assms show ?thesis by (auto simp: get_packet_def dest: next_tcp_asking split: if_split_asm)
next
  case (Some t)
  with assms(3) obtain pk qq where pq: "d_packet d = Some pk" "d_query d = Some qq" by (auto simp: get_packet_def split: bind_splits if_split_asm)
  have l: "d_pos d \<le> packetlen d" "d_pos d + length t \<le> packetlen d" using assms(1,2) got_length [OF Some] by (auto simp: asking_def)
  let ?d1 = "d\<lparr>d_packet := Some (take (d_pos d) pk @ t), d_pos := d_pos d + length t\<rparr>"
  have "asking q qt ?d1" using assms(1,2) l by (simp add: asking_def)
  moreover from this have "asking q qt (socketfree ?d1)" by (simp add: asking_def) (simp add: socketfree_def)
  ultimately show ?thesis using assms(3) Some pq l(1)
    by (auto simp: get_packet_def Let_def split: if_split_asm dest: next_tcp_asking)
qed

lemma get_asking:
  assumes "asking q qt d" "dns_transmit_get S x d = Some (Again, d')"
  shows "asking q qt d'"
proof -
  obtain qq where qq: "d_query d = Some qq" using asking_parts [OF assms(1)] by blast
  note p = asking_parts [OF assms(1)]
  consider (silent) "\<not> revents x" | (udp) "revents x" "tcpstate d = 0" | (pkt) "revents x" "tcpstate d = 5"
    | (other) "revents x" "tcpstate d \<noteq> 0" "tcpstate d \<noteq> 5" by blast
  then show ?thesis
  proof cases
    case silent
    with assms show ?thesis
      by (auto simp: dns_transmit_get_def split: if_split_asm dest: next_udp_asking next_tcp_asking)
  next
    case udp
    with assms show ?thesis by (simp add: dns_transmit_get_def get_udp_asking)
  next
    case pkt
    with assms show ?thesis by (simp add: dns_transmit_get_def get_packet_asking)
  next
    case other
    with assms p qq show ?thesis
      by (auto simp: dns_transmit_get_def Let_def split: option.split_asm if_split_asm dest: next_tcp_asking)
        (simp_all add: asking_def)
  qed
qed


subsection \<open>What holds of every talk\<close>

text \<open>The states of a question that was started and is still open, for all that the system and the servers may do.\<close>

inductive talks :: "bool \<Rightarrow> cstr \<Rightarrow> cstr \<Rightarrow> transmit \<Rightarrow> bool" where
  talk_start: "dns_transmit_start S servers f q qt d0 = Some (True, d) \<Longrightarrow> talks f q qt d"
| talk_step: "talks f q qt d \<Longrightarrow> dns_transmit_get S x d = Some (Again, d') \<Longrightarrow> talks f q qt d'"

lemma talks_asking: "talks f q qt d \<Longrightarrow> q = pack ls \<Longrightarrow> list_all label_ok ls \<Longrightarrow> asking (query_of f q qt) qt d"
  by (induction rule: talks.induct) (simp_all add: start_asking get_asking)

lemma get_answer:
  assumes "dns_transmit_get S x d = Some (Answer, d')"
  shows "\<exists>p qq. d_query d = Some qq \<and> d_packet d' = Some p \<and> \<not> sock d' \<and> d_query d' = None
    \<and> \<not> irrelevant qq (qtype d) p \<and> \<not> serverwantstcp p \<and> \<not> serverfailed p"
  using assms again_not_Answer
  by (auto simp: dns_transmit_get_def get_udp_def get_packet_def Let_def queryfree_def socketfree_def
      split: if_split_asm option.split_asm bind_splits)

lemma asking_continues:
  assumes "asking q qt d"
  shows "again (nexttcp S d) \<noteq> None" "again (firsttcp S d) \<noteq> None" "tcpstate d = 0 \<Longrightarrow> again (nextudp S d) \<noteq> None"
  using next_tcp [of q d qt S] first_tcp [of q d qt S] next_udp [OF assms, of S] assms
  by (auto simp: asking_def)

text \<open>The one way to leave the memory: the position of an earlier server is behind the end of the query.\<close>

lemma get_undefined:
  assumes "asking q qt d"
  shows "dns_transmit_get S x d = None \<longleftrightarrow> revents x \<and> tcpstate d = 2 \<and> (\<exists>qq. d_query d = Some qq \<and> length qq < d_pos d)"
proof -
  obtain qq where qq: "d_query d = Some qq" using asking_parts [OF assms] by blast
  note c = asking_continues [OF assms]
  have u: "tcpstate d = 0 \<Longrightarrow> get_udp S x d \<noteq> None"
    using qq c by (auto simp: get_udp_def split: option.split)
  have p: "tcpstate d = 5 \<Longrightarrow> get_packet S x d \<noteq> None"
  proof -
    assume "tcpstate d = 5"
    then obtain pk where pk: "d_packet d = Some pk" "d_pos d \<le> packetlen d" using assms by (auto simp: asking_def)
    show "get_packet S x d \<noteq> None"
    proof (cases "got (packetlen d - d_pos d) x")
      case None
      then show ?thesis using pk c by (simp add: get_packet_def del: not_None_eq)
    next
      case (Some t)
      let ?d2 = "socketfree (d\<lparr>d_packet := Some (take (d_pos d) pk @ t), d_pos := d_pos d + length t\<rparr>)"
      have "asks q ?d2" "qtype ?d2 = qtype d" "curserver ?d2 < 16" using assms by (simp_all add: asking_def)
      from next_tcp [OF this, of S] have "again (nexttcp S ?d2) \<noteq> None" by auto
      then show ?thesis using pk Some qq by (simp add: get_packet_def Let_def del: not_None_eq)
    qed
  qed
  show ?thesis
    using qq c u p by (auto simp: dns_transmit_get_def Let_def split: option.split if_split_asm)
qed

text \<open>C12. Whatever arrives, and whatever sockets and times do at every server that is tried: the packet that is handed out
  answers the question.  It has the random number of the query that is out, exactly one question with the same domain
  and type and class IN, it is not cut off, and its status is success or that there is no such domain.  The socket is
  closed, the query freed.  A step leaves the memory in one case only: a connection that was there at once is written
  to from the position that an earlier server left, and that is behind the end of the query.\<close>

theorem dns_transmit_answers:
  assumes "talks f (pack ls) qt d" "list_all label_ok ls" "length qt = 2"
  shows "(\<forall>d'. dns_transmit_get S x d = Some (Answer, d') \<longrightarrow>
      (\<exists>p qq. d_query d = Some qq \<and> d_packet d' = Some p \<and> answers_to (take 2 (drop 2 qq)) (pack ls) qt p
        \<and> \<not> sock d' \<and> d_query d' = None))
    \<and> (dns_transmit_get S x d = None \<longleftrightarrow>
      revents x \<and> tcpstate d = 2 \<and> (\<exists>qq. d_query d = Some qq \<and> length qq < d_pos d))"
proof -
  have a: "asking (query_of f (pack ls) qt) qt d" using talks_asking [OF assms(1) refl assms(2)] .
  then obtain b c where q: "d_query d = Some ((query_of f (pack ls) qt)[2 := b, 3 := c])" "qtype d = qt"
    by (auto simp: asking_def asks_def)
  have "\<exists>p qq. d_query d = Some qq \<and> d_packet d' = Some p \<and> answers_to (take 2 (drop 2 qq)) (pack ls) qt p
        \<and> \<not> sock d' \<and> d_query d' = None" if g: "dns_transmit_get S x d = Some (Answer, d')" for d'
  proof -
    from get_answer [OF g] obtain p qq where
      p: "d_query d = Some qq" "d_packet d' = Some p" "\<not> sock d'" "d_query d' = None"
        "\<not> irrelevant qq qt p" "\<not> serverwantstcp p" "\<not> serverfailed p" using q(2) by auto
    have "drop 14 qq = pack ls @ qt @ DNS_C_IN" "4 \<le> length qq" using p(1) q(1) query_parts by auto
    from relevant_answer [OF p(5-7) assms(3) this(2,1) assms(2)] p show ?thesis by blast
  qed
  with get_undefined [OF a] show ?thesis by blast
qed

text \<open>A step in which the time is up and nothing came; several of them, until one is not \<open>Again\<close>.\<close>

definition expire :: "world \<Rightarrow> transmit \<Rightarrow> (outcome \<times> transmit) option" where
  "expire S d = dns_transmit_get S \<lparr>revents = False, io_when = d_deadline d, arrived = None, is_connected = False, taken = 0\<rparr> d"

fun silent :: "world list \<Rightarrow> transmit \<Rightarrow> (outcome \<times> transmit) option" where
  "silent [] d = Some (Again, d)"
| "silent (S # Ss) d = do { (r, d1) \<leftarrow> expire S d; if r = Again then silent Ss d1 else Some (r, d1) }"

definition places_left :: "transmit \<Rightarrow> nat" where
  "places_left d = (if tcpstate d = 0 then 64 - place d else 16 - curserver d)"

lemma taia_less_irrefl: "\<not> taia_less t t"
  by (simp add: taia_less_def)

lemma expire_next:
  assumes "asking q qt d"
  shows "\<exists>r d1. expire S d = Some (r, d1) \<and>
    (r = Again \<and> asking q qt d1 \<and> places_left d1 < places_left d \<or> r = Failed \<and> freed d1)"
proof (cases "tcpstate d = 0")
  case True
  from next_udp [OF assms True, of S] obtain r d1 where n: "again (nextudp S d) = Some (r, d1)"
    "r = Again \<and> asking q qt d1 \<and> tcpstate d1 = 0 \<and> place d < place d1 \<or> r = Failed \<and> freed d1" by blast
  have "place d1 < 64" if "asking q qt d1" "tcpstate d1 = 0" using that by (auto simp: asking_def place_def)
  with n True show ?thesis by (auto simp: expire_def dns_transmit_get_def taia_less_irrefl places_left_def)
next
  case False
  from assms have "asks q d" "qtype d = qt" "curserver d < 16" by (simp_all add: asking_def)
  from next_tcp [OF this, of S] obtain r d1 where n: "again (nexttcp S d) = Some (r, d1)"
    "r = Again \<and> asking q qt d1 \<and> tcpstate d1 \<noteq> 0 \<and> curserver d < curserver d1 \<or> r = Failed \<and> freed d1" by blast
  then show ?thesis using False
    by (auto simp: expire_def dns_transmit_get_def taia_less_irrefl places_left_def asking_def)
qed

lemma silent_fails: "asking q qt d \<Longrightarrow> places_left d \<le> length Ss \<Longrightarrow> \<exists>d1. silent Ss d = Some (Failed, d1) \<and> freed d1"
proof (induction Ss arbitrary: d)
  case Nil
  then show ?case by (auto simp: places_left_def place_def asking_def split: if_splits)
next
  case (Cons S Ss)
  from expire_next [OF Cons.prems(1), of S] obtain r d1 where e: "expire S d = Some (r, d1)"
    "r = Again \<and> asking q qt d1 \<and> places_left d1 < places_left d \<or> r = Failed \<and> freed d1" by blast
  then show ?case using Cons.IH [of d1] Cons.prems(2) by auto
qed

text \<open>C16. When no server answers, the search ends: at any moment of a talk, 64 times that are up are enough for it to give up,
  with the query and the packet freed and the socket closed.\<close>

theorem silent_servers_fail:
  assumes "talks f (pack ls) qt d" "list_all label_ok ls" "64 \<le> length Ss"
  shows "\<exists>d1. silent Ss d = Some (Failed, d1) \<and> d_query d1 = None \<and> d_packet d1 = None \<and> \<not> sock d1"
proof -
  have "places_left d \<le> 64" by (auto simp: places_left_def intro: order_trans [OF diff_le_self])
  with assms(3) have "places_left d \<le> length Ss" by (rule order_trans [rotated])
  from silent_fails [OF talks_asking [OF assms(1) refl assms(2)] this] show ?thesis by (auto simp: freed_def)
qed


definition talk_sys :: world where
  "talk_sys = (\<lambda>_. \<lparr>has_socket = True, bindable = (\<lambda>_ _. True), sys_connect = Connected, sys_send = True,
     sys_now = taia_uint 1000\<rparr>)"

definition talk_idle :: transmit where
  "talk_idle = \<lparr>d_query = None, d_packet = None, packetlen = 0, sock = False, tcpstate = 0, udploop = 0, curserver = 0,
     d_deadline = taia_uint 0, d_pos = 0, d_servers = [], qtype = [],
     d_rnd = \<lparr>r_seed = replicate 32 0, r_in = replicate 12 0, r_out = replicate 8 0, outleft = 8\<rparr>\<rparr>"

definition talk_servers :: cstr where
  "talk_servers = [CHR 0x7F, NUL, NUL, CHR 0x01] @ replicate 60 NUL"

definition talk_reply :: cstr where
  "talk_reply = [NUL, NUL, CHR 0x01, NUL, NUL, CHR 0x01, NUL, NUL, NUL, NUL, NUL, NUL] @ CHR 0x02 # ''EH'' @ [NUL] @ DNS_T_A @ DNS_C_IN"

definition no_io :: io where
  "no_io = \<lparr>revents = True, io_when = taia_uint 1000, arrived = None, is_connected = True, taken = 0\<rparr>"

definition talk_io :: io where
  "talk_io = no_io\<lparr>arrived := Some talk_reply\<rparr>"

text \<open>An answer to another query comes first and is passed over.\<close>

definition other_io :: io where
  "other_io = no_io\<lparr>arrived := Some (talk_reply[1 := CHR 0x07])\<rparr>"

fun talk_steps :: "world \<Rightarrow> io list \<Rightarrow> transmit \<Rightarrow> transmit option" where
  "talk_steps S [] d = Some d"
| "talk_steps S (x # xs) d = do { (r, d1) \<leftarrow> dns_transmit_get S x d; if r = Again then talk_steps S xs d1 else None }"

lemma talk_steps_talks: "talks f q qt d \<Longrightarrow> talk_steps S xs d = Some d' \<Longrightarrow> talks f q qt d'"
  proof (induction xs arbitrary: d)
  case (Cons x xs)
  from Cons.prems(2) obtain d1 where "dns_transmit_get S x d = Some (Again, d1)" "talk_steps S xs d1 = Some d'"
    by (auto split: bind_splits if_split_asm)
  with Cons show ?case by (blast intro: talk_step)
qed simp

definition talk_first :: "transmit option" where
  "talk_first = (case dns_transmit_start talk_sys talk_servers True (pack [''eh'']) DNS_T_A talk_idle of Some (True, d) \<Rightarrow> Some d | _ \<Rightarrow> None)"

lemma talk_run:
  "(case talk_first of None \<Rightarrow> None | Some d \<Rightarrow>
      case talk_steps talk_sys [other_io] d of None \<Rightarrow> None | Some d1 \<Rightarrow>
      case dns_transmit_get talk_sys talk_io d1 of Some (Answer, d') \<Rightarrow> d_packet d' | _ \<Rightarrow> None) = Some talk_reply"
  by code_simp

lemma talk_begin:
  "\<exists>d0 d d'. dns_transmit_start talk_sys talk_servers True (pack [''eh'']) DNS_T_A talk_idle = Some (True, d0)
     \<and> dns_transmit_get talk_sys other_io d0 = Some (Again, d) \<and> talks True (pack [''eh'']) DNS_T_A d
     \<and> dns_transmit_get talk_sys talk_io d = Some (Answer, d') \<and> d_packet d' = Some talk_reply"
  using talk_run unfolding talk_first_def
  by (auto split: option.splits bool.splits outcome.splits prod.splits if_split_asm bind_splits intro!: exI intro: talk_start talk_step)

theorem dns_transmit_answers_witness:
  "\<exists>d0 d d' qq. dns_transmit_start talk_sys talk_servers True (pack [''eh'']) DNS_T_A talk_idle = Some (True, d0)
     \<and> dns_transmit_get talk_sys other_io d0 = Some (Again, d)
     \<and> dns_transmit_get talk_sys talk_io d = Some (Answer, d') \<and> d_query d = Some qq \<and> d_packet d' = Some talk_reply
     \<and> answers_to (take 2 (drop 2 qq)) (pack [''eh'']) DNS_T_A talk_reply"
proof -
  from talk_begin obtain d0 d d' where t: "dns_transmit_start talk_sys talk_servers True (pack [''eh'']) DNS_T_A talk_idle = Some (True, d0)"
    "dns_transmit_get talk_sys other_io d0 = Some (Again, d)" "talks True (pack [''eh'']) DNS_T_A d"
    "dns_transmit_get talk_sys talk_io d = Some (Answer, d')" "d_packet d' = Some talk_reply" by blast
  have "list_all label_ok [''eh'']" "length DNS_T_A = 2" by (simp_all add: label_ok_def DNS_T_A_def)
  from dns_transmit_answers [OF t(3) this, of talk_sys talk_io] t show ?thesis by auto
qed

text \<open>The case does occur: a short answer says that it was cut off, the first server takes the question over TCP and
  answers with 64 bytes of something else, the second one is connected at once.\<close>

definition stale_servers :: cstr where
  "stale_servers = [CHR 0x7F, NUL, NUL, CHR 0x01, CHR 0x7F, NUL, NUL, CHR 0x02] @ replicate 56 NUL"

definition stale_sys :: world where
  "stale_sys n = (talk_sys n)\<lparr>sys_connect := if n = 16 then In_progress else Connected\<rparr>"

definition stale_ios :: "io list" where
  "stale_ios = [no_io\<lparr>arrived := Some (talk_reply[2 := CHR 0x02])\<rparr>, no_io, no_io\<lparr>taken := 22\<rparr>,
     no_io\<lparr>arrived := Some [NUL]\<rparr>, no_io\<lparr>arrived := Some [CHR 0x40]\<rparr>]"

definition junk :: cstr where
  "junk = replicate 64 CHR 0xFF"

definition stale_state :: "transmit option" where
  "stale_state = (case dns_transmit_start talk_sys stale_servers True (pack [''eh'']) DNS_T_A talk_idle of
     Some (True, d) \<Rightarrow> talk_steps stale_sys stale_ios d | _ \<Rightarrow> None)"

lemma stale_run:
  "(case stale_state of None \<Rightarrow> False | Some d \<Rightarrow>
      d_pos d = 0 \<and> tcpstate d = 5 \<and> curserver d = 0 \<and> packetlen d = 64 \<and> d_servers d = stale_servers \<and> d_packet d = Some []
      \<and> udploop d = 1
      \<and> (case d_query d of None \<Rightarrow> False | Some q \<Rightarrow> length q = 22 \<and> irrelevant q (qtype d) junk))"
  by code_simp

text \<open>A server that is connected at once, with the sockets of the sample system.\<close>

lemma bind_loop_sample: "\<exists>r. bind_loop j (stale_sys n) d = (True, d\<lparr>d_rnd := r\<rparr>)"
  by (cases j) (auto simp: stale_sys_def talk_sys_def Let_def intro: exI [of _ "d_rnd d"] split: prod.split)

lemma try_tcp_at_once:
  assumes "d_query d = Some q" "server_ip d = [CHR 0x7F, NUL, NUL, CHR 0x02]" "n \<noteq> 16"
  shows "\<exists>d1 a b. try_tcp (stale_sys n) d = Some (Some True, d1) \<and> tcpstate d1 = 2 \<and> d_pos d1 = d_pos d
    \<and> d_query d1 = Some (q[2 := a, 3 := b])"
proof -
  obtain x r1 y r2 where r: "dns_random 256 (d_rnd d) = (x, r1)" "dns_random 256 r1 = (y, r2)" by fastforce
  let ?d1 = "d\<lparr>d_query := Some (q[2 := char_of x, 3 := char_of y]), d_rnd := r2\<rparr>"
  have n: "new_id d = Some ?d1" using assms(1) r by (simp add: new_id_def)
  obtain r where b: "randombind (stale_sys n) (?d1\<lparr>sock := True\<rparr>) = (True, ?d1\<lparr>sock := True, d_rnd := r\<rparr>)"
    using bind_loop_sample unfolding randombind_def by blast
  have c: "sys_connect (stale_sys n) = Connected" "has_socket (stale_sys n)" using assms(3) by (simp_all add: stale_sys_def talk_sys_def)
  have "byte_diff (server_ip d) no_ip \<noteq> 0" unfolding assms(2) no_ip_def by code_simp
  then show ?thesis by (auto simp: try_tcp_def n b c set_deadline_def Let_def)
qed

lemma stale_position:
  "\<exists>d. talks True (pack [''eh'']) DNS_T_A d \<and> dns_transmit_get stale_sys (no_io\<lparr>taken := 1\<rparr>) d = None"
proof -
  from stale_run obtain d0 d q where d: "dns_transmit_start talk_sys stale_servers True (pack [''eh'']) DNS_T_A talk_idle = Some (True, d0)"
    "talk_steps stale_sys stale_ios d0 = Some d" "d_pos d = 0" "tcpstate d = 5" "curserver d = 0" "packetlen d = 64"
    "d_servers d = stale_servers" "d_packet d = Some []" "udploop d = 1" "d_query d = Some q" "length q = 22" "irrelevant q (qtype d) junk"
    unfolding stale_state_def by (auto split: option.splits bool.splits)
  have t: "talks True (pack [''eh'']) DNS_T_A d" using d(1,2) by (blast intro: talk_start talk_steps_talks)
  let ?d2 = "(packetfree (socketfree (socketfree (d\<lparr>d_packet := Some junk, d_pos := 64\<rparr>))))\<lparr>curserver := 1\<rparr>"
  have "server_ip ?d2 = [CHR 0x7F, NUL, NUL, CHR 0x02]" using d(7)
    by (simp add: server_ip_def stale_servers_def packetfree_def socketfree_def)
  from try_tcp_at_once [OF _ this, of q 17] obtain d1 a b where d1:
    "try_tcp (stale_sys 17) ?d2 = Some (Some True, d1)" "tcpstate d1 = 2" "d_pos d1 = 64" "d_query d1 = Some (q[2 := a, 3 := b])"
    using d(10) by (auto simp: packetfree_def socketfree_def)
  have g: "got 64 (no_io\<lparr>arrived := Some junk\<rparr>) = Some junk" by (simp add: got_def no_io_def junk_def)
  have e: "packetfree (socketfree (socketfree (d\<lparr>d_packet := Some junk, d_pos := 64\<rparr>)\<lparr>curserver := 1\<rparr>)) = ?d2"
    by (simp add: packetfree_def socketfree_def)
  have "place ?d2 = 17" using d(9) by (simp add: place_def packetfree_def socketfree_def)
  then have "tcp_servers (Suc 14) stale_sys ?d2 = Some (True, d1)" using d1(1) by (simp only: tcp_servers.simps) simp
  then have "nexttcp stale_sys (socketfree (d\<lparr>d_packet := Some junk, d_pos := 64\<rparr>)) = Some (True, d1)"
    using d(5) e unfolding nexttcp_def thistcp_def by (simp add: eval_nat_numeral del: tcp_servers.simps)
  then have "dns_transmit_get stale_sys (no_io\<lparr>arrived := Some junk\<rparr>) d = Some (Again, d1)"
    using d g by (simp add: dns_transmit_get_def get_packet_def no_io_def junk_def)
  with t have "talks True (pack [''eh'']) DNS_T_A d1" by (blast intro: talk_step)
  moreover have "dns_transmit_get stale_sys (no_io\<lparr>taken := 1\<rparr>) d1 = None"
    using d1 d(11) by (simp add: dns_transmit_get_def no_io_def)
  ultimately show ?thesis by blast
qed

theorem silent_servers_fail_witness:
  "\<exists>d d1. talks True (pack [''eh'']) DNS_T_A d \<and> silent (replicate 64 talk_sys) d = Some (Failed, d1)"
proof -
  from talk_begin obtain d where t: "talks True (pack [''eh'']) DNS_T_A d" by blast
  have "list_all label_ok [''eh'']" by (simp add: label_ok_def)
  from silent_servers_fail [OF t this, of "replicate 64 talk_sys"] t show ?thesis by auto
qed

end
