(* ===== verification/Noffle.thy ===== *)
theory Noffle
  imports Fetch Control ServerMain
begin

text \<open>
  The command line of noffle, \<^verbatim>\<open>noffle-1.0.1/src/noffle.c\<close>: the actions on the data bases and the choice among them.

  The record \<open>noffle\<close> has the fetching state, in which are the client, the spool and the requests, the fetch list, the
  configuration with its cursors, and what was printed.  \<open>nenv\<close> is what an action does not change: the environments of
  server and client, a bound on the number of keys in the data bases and requests, \<open>strftime\<close> with \<open>localtime\<close> and with
  \<open>gmtime\<close>, the directories of queues and overviews, what opening the data bases gives, the empty data base of an
  expiry, and the events of a session.  \<open>None\<close> is an access outside an object, the use of an unset variable, a failed
  assertion or \<open>abort\<close>.  What goes to the log is left out.
\<close>

record ('g, 'd) noffle =
  nf_f :: "('g, 'd) fetch"
  nf_fl :: fetchlist
  nf_cfg :: config
  nf_in :: cstr
  nf_out :: cstr
  nf_err :: cstr

record ('g, 'd) nenv =
  ne_S :: "('g, 'd) senv"
  ne_C :: "('g, 'd) cenv"
  ne_bound :: nat
  ne_local :: "int \<Rightarrow> cstr"
  ne_ymd :: "nat \<Rightarrow> cstr"
  ne_queue :: "cstr \<Rightarrow> cstr list option"
  ne_overviews :: "cstr list option"
  ne_opens :: bool
  ne_tmp :: "'d option"
  ne_reopens :: bool
  ne_online :: bool
  ne_room :: nat
  ne_events :: "event list"

abbreviation nf_sp :: "('g, 'd) noffle \<Rightarrow> ('g, 'd) spool" where "nf_sp n \<equiv> f_sp (nf_f n)"
abbreviation nf_req :: "('g, 'd) noffle \<Rightarrow> req" where "nf_req n \<equiv> cl_req (f_cl (nf_f n))"
abbreviation nenv_env :: "('g, 'd) nenv \<Rightarrow> ('g, 'd) env" where "nenv_env N \<equiv> ce_env (ne_C N)"
abbreviation nglib :: "('g, 'd) nenv \<Rightarrow> 'g gdbm" where "nglib N \<equiv> cglib (ne_C N)"
abbreviation ndlib :: "('g, 'd) nenv \<Rightarrow> 'd gdbm" where "ndlib N \<equiv> cdlib (ne_C N)"

definition set_sp :: "('g, 'd) noffle \<Rightarrow> ('g, 'd) spool \<Rightarrow> ('g, 'd) noffle" where
  "set_sp n sp = n\<lparr>nf_f := put_sp (nf_f n) sp\<rparr>"

definition set_grps :: "('g, 'd) noffle \<Rightarrow> 'g grp \<Rightarrow> ('g, 'd) noffle" where
  "set_grps n g = set_sp n ((nf_sp n)\<lparr>sp_grp := g\<rparr>)"

definition set_arts :: "('g, 'd) noffle \<Rightarrow> 'd database \<Rightarrow> ('g, 'd) noffle" where
  "set_arts n db = set_sp n ((nf_sp n)\<lparr>sp_db := db\<rparr>)"

definition set_req :: "('g, 'd) noffle \<Rightarrow> req \<Rightarrow> ('g, 'd) noffle" where
  "set_req n rq = n\<lparr>nf_f := put_cl (nf_f n) ((f_cl (nf_f n))\<lparr>cl_req := rq\<rparr>)\<rparr>"

definition say :: "cstr \<Rightarrow> ('g, 'd) noffle \<Rightarrow> ('g, 'd) noffle" where
  "say t n = n\<lparr>nf_out := nf_out n @ t\<rparr>"

definition complain :: "cstr \<Rightarrow> ('g, 'd) noffle \<Rightarrow> ('g, 'd) noffle" where
  "complain t n = n\<lparr>nf_err := nf_err n @ t\<rparr>"

subsection \<open>Articles\<close>

text \<open>\<open>printf\<close> of a null pointer, which \<open>Db_header\<close> gives for an entry that cannot be read, is \<open>None\<close>.\<close>

definition art_header :: "('g, 'd) nenv \<Rightarrow> cstr \<Rightarrow> 'd database \<Rightarrow> (cstr \<times> 'd database) option" where
  "art_header N msgId db =
     do { (h, db1) \<leftarrow> Db_header (str_of (''Xref: '' @ se_host (ne_S N))) (se_date (ne_S N)) (ndlib N) msgId db;
          t \<leftarrow> h; Some (t, db1) }"

definition print_from :: "('g, 'd) nenv \<Rightarrow> cstr \<Rightarrow> ('g, 'd) noffle \<Rightarrow> ('g, 'd) noffle option" where
  "print_from N msgId n =
     do { (fr, db1) \<leftarrow> Db_from (ndlib N) msgId (sp_db (nf_sp n));
          (dt, db2) \<leftarrow> Db_date (ndlib N) msgId db1;
          (h, db3) \<leftarrow> art_header N msgId db2;
          (b, db4) \<leftarrow> Db_body (ndlib N) msgId db3;
          Some (say (''From '' @ fr @ '' '' @ dt @ [LF] @ h @ [LF] @ b @ [LF]) (set_arts n db4)) }"

definition print_art :: "('g, 'd) nenv \<Rightarrow> cstr \<Rightarrow> ('g, 'd) noffle \<Rightarrow> ('g, 'd) noffle option" where
  "print_art N msgId n =
     do { (h, db1) \<leftarrow> art_header N msgId (sp_db (nf_sp n));
          (b, db2) \<leftarrow> Db_body (ndlib N) msgId db1;
          Some (say (h @ [LF] @ b) (set_arts n db2)) }"

text \<open>The loop over the articles of the data base; \<open>k\<close> bounds them.\<close>

fun each_art :: "nat \<Rightarrow> ('g, 'd) nenv \<Rightarrow> (cstr \<Rightarrow> ('g, 'd) noffle \<Rightarrow> ('g, 'd) noffle option) \<Rightarrow> cstr option \<Rightarrow> ('g, 'd) noffle
    \<Rightarrow> ('g, 'd) noffle option" where
  "each_art k N f None n = Some n"
| "each_art 0 N f (Some key) n = None"
| "each_art (Suc k) N f (Some key) n =
     do { n1 \<leftarrow> f (key_str key) n; each_art k N f (Db_next (ndlib N) (Some key) (sp_db (nf_sp n1))) n1 }"

definition all_arts :: "('g, 'd) nenv \<Rightarrow> (cstr \<Rightarrow> ('g, 'd) noffle \<Rightarrow> ('g, 'd) noffle option) \<Rightarrow> ('g, 'd) noffle \<Rightarrow> ('g, 'd) noffle option" where
  "all_arts N f n =
     (case Db_first (ndlib N) (sp_db (nf_sp n)) of
        None \<Rightarrow> Some (complain (''Database empty.'' @ [LF]) n)
      | Some key \<Rightarrow> each_art (ne_bound N) N f (Some key) n)"

definition nf_doArt :: "('g, 'd) nenv \<Rightarrow> cstr \<Rightarrow> ('g, 'd) noffle \<Rightarrow> ('g, 'd) noffle option" where
  "nf_doArt N msgId n =
     (if msgId = ''all'' then all_arts N (print_from N) n
      else if \<not> Db_contains (ndlib N) msgId (sp_db (nf_sp n)) then Some (complain (''Not in database.'' @ [LF]) n)
      else print_art N msgId n)"

definition doDb :: "('g, 'd) nenv \<Rightarrow> ('g, 'd) noffle \<Rightarrow> ('g, 'd) noffle option" where
  "doDb N = all_arts N (\<lambda>msgId n. Some (say (msgId @ [LF]) n))"

definition doCancel :: "('g, 'd) nenv \<Rightarrow> cstr \<Rightarrow> ('g, 'd) noffle \<Rightarrow> ('g, 'd) noffle option" where
  "doCancel N msgId n =
     do { (r, sp) \<leftarrow> Ctrl_cancel (nenv_env N) (se_servs (ne_S N)) msgId (nf_sp n);
          let n1 = set_sp n sp;
          Some (if r = CANCEL_NO_SUCH_MSG then say (''No such message '' @ [CHR 0x27] @ msgId @ [CHR 0x27] @ ''.'' @ [LF]) n1
                else if r = CANCEL_OK then say (''Message '' @ [CHR 0x27] @ msgId @ [CHR 0x27] @ '' cancelled.'' @ [LF]) n1
                else if r = CANCEL_NEEDS_MSG
                then say (''Message '' @ [CHR 0x27] @ msgId @ [CHR 0x27] @ '' cancelled in local database only.'' @ [LF]) n1
                else n1) }"

subsection \<open>Requests\<close>

fun requested_loop :: "nat \<Rightarrow> cstr \<Rightarrow> cstr \<Rightarrow> ('g, 'd) noffle \<Rightarrow> ('g, 'd) noffle option" where
  "requested_loop 0 srv msgid n = None"
| "requested_loop (Suc k) srv msgid n =
     do { let n1 = say (msgid @ '' '' @ srv @ [LF]) n;
          (r, rq) \<leftarrow> Req_next (nf_req n1);
          case r of None \<Rightarrow> Some (set_req n1 rq) | Some m \<Rightarrow> requested_loop k srv m (set_req n1 rq) }"

definition listRequested1 :: "('g, 'd) nenv \<Rightarrow> cstr \<Rightarrow> ('g, 'd) noffle \<Rightarrow> ('g, 'd) noffle option" where
  "listRequested1 N srv n =
     do { (r, rq) \<leftarrow> Req_first srv (nf_req n);
          case r of None \<Rightarrow> Some (set_req n rq) | Some m \<Rightarrow> requested_loop (ne_bound N) srv m (set_req n rq) }"

text \<open>\<open>Cfg_beginServEnum\<close> and the loop over \<open>Cfg_nextServ\<close>, with \<open>k\<close> servers left.\<close>

fun serv_loop :: "nat \<Rightarrow> (cstr \<Rightarrow> ('g, 'd) noffle \<Rightarrow> ('g, 'd) noffle option) \<Rightarrow> ('g, 'd) noffle \<Rightarrow> ('g, 'd) noffle option" where
  "serv_loop k f n =
     (case Cfg_nextServ (nf_cfg n) of
        None \<Rightarrow> Some n
      | Some (srv, c) \<Rightarrow> (case k of 0 \<Rightarrow> None | Suc j \<Rightarrow> do { n1 \<leftarrow> f srv (n\<lparr>nf_cfg := c\<rparr>); serv_loop j f n1 }))"

declare serv_loop.simps [simp del]

definition each_serv :: "(cstr \<Rightarrow> ('g, 'd) noffle \<Rightarrow> ('g, 'd) noffle option) \<Rightarrow> ('g, 'd) noffle \<Rightarrow> ('g, 'd) noffle option" where
  "each_serv f n = (let n1 = n\<lparr>nf_cfg := Cfg_beginServEnum (nf_cfg n)\<rparr> in serv_loop (length (servers (nf_cfg n1))) f n1)"

definition doRequested :: "('g, 'd) nenv \<Rightarrow> cstr option \<Rightarrow> ('g, 'd) noffle \<Rightarrow> ('g, 'd) noffle option" where
  "doRequested N arg n =
     (case arg of
        None \<Rightarrow> each_serv (listRequested1 N) n
      | Some a \<Rightarrow> if a = ''all'' then each_serv (listRequested1 N) n else listRequested1 N a n)"

subsection \<open>Fetching\<close>

definition fetch_server :: "('g, 'd) nenv \<Rightarrow> cstr \<Rightarrow> ('g, 'd) noffle \<Rightarrow> ('g, 'd) noffle option" where
  "fetch_server N srv n =
     do { (ok, f) \<leftarrow> Fetch_init (ne_C N) srv (nf_f n);
          if \<not> ok then Some (n\<lparr>nf_f := f\<rparr>)
          else do { f1 \<leftarrow> Fetch_postArts (ne_C N) (ne_queue N srv) f;
                    f2 \<leftarrow> Fetch_getNewGrps (ne_C N) (ne_ymd N) f1;
                    f3 \<leftarrow> Fetch_updateGrps (ne_C N) f2;
                    f4 \<leftarrow> Fetch_getReq (ne_bound N) (ne_C N) f3;
                    f5 \<leftarrow> Fetch_close (ne_C N) f4;
                    Some (n\<lparr>nf_f := f5\<rparr>) } }"

definition doFetch :: "('g, 'd) nenv \<Rightarrow> ('g, 'd) noffle \<Rightarrow> ('g, 'd) noffle option" where
  "doFetch N = each_serv (fetch_server N)"

definition query_server :: "('g, 'd) nenv \<Rightarrow> bool \<Rightarrow> bool \<Rightarrow> cstr \<Rightarrow> ('g, 'd) noffle \<Rightarrow> ('g, 'd) noffle option" where
  "query_server N queryGrps queryDsc srv n =
     do { (ok, f) \<leftarrow> Fetch_init (ne_C N) srv (nf_f n);
          if \<not> ok then Some (n\<lparr>nf_f := f\<rparr>)
          else do { c1 \<leftarrow> (if queryGrps then map_option snd (Client_getGrps (ne_C N) (f_cl f)) else Some (f_cl f));
                    c2 \<leftarrow> (if queryDsc then map_option snd (Client_getDsc (ne_C N) c1) else Some c1);
                    f1 \<leftarrow> Fetch_close (ne_C N) (put_cl f c2);
                    Some (n\<lparr>nf_f := f1\<rparr>) } }"

definition doQuery :: "('g, 'd) nenv \<Rightarrow> bool \<Rightarrow> bool \<Rightarrow> ('g, 'd) noffle \<Rightarrow> ('g, 'd) noffle option" where
  "doQuery N queryGrps queryDsc = each_serv (query_server N queryGrps queryDsc)"

subsection \<open>Expiry\<close>

definition expire_over :: "('g, 'd) nenv \<Rightarrow> 'd database \<Rightarrow> int \<Rightarrow> cont \<Rightarrow> cont option" where
  "expire_over N db i c =
     do { ov \<leftarrow> Cont_get c i;
          case ov of
            None \<Rightarrow> Some c
          | Some ov \<Rightarrow> if \<not> Db_contains (ndlib N) (ov_msgId ov) db then Cont_delete c i else Some c }"

text \<open>\<open>for ( i = Cont_first(); i <= Cont_last(); ++i )\<close>; no number changes in the body.\<close>

fun numb_loop :: "(int \<Rightarrow> 'a \<Rightarrow> 'a option) \<Rightarrow> int list \<Rightarrow> 'a \<Rightarrow> 'a option" where
  "numb_loop f [] a = Some a"
| "numb_loop f (i # is') a = do { a1 \<leftarrow> f i a; numb_loop f is' a1 }"

definition expire_overs :: "('g, 'd) nenv \<Rightarrow> 'd database \<Rightarrow> cont \<Rightarrow> cont option" where
  "expire_overs N db c = numb_loop (expire_over N db) [first c..last_nr c] c"

text \<open>Whether a group is to be unsubscribed; the conditions are asked one after the other.\<close>

definition forgotten :: "('g, 'd) nenv \<Rightarrow> int \<Rightarrow> cstr \<Rightarrow> ('g, 'd) noffle \<Rightarrow> (bool \<times> ('g, 'd) noffle) option" where
  "forgotten N maxAge grp n =
     do { (loc, g) \<leftarrow> Grp_local (nglib N) grp (sp_grp (nf_sp n));
          let n1 = set_grps n g;
          if loc \<or> \<not> Fetchlist_contains (nf_fl n1) grp \<or> autoUnsubscribe (nf_cfg n1) = 0 then Some (False, n1)
          else do { (a, g1) \<leftarrow> Grp_lastAccess (nglib N) grp (sp_grp (nf_sp n1));
                    Some (sint (clock (nenv_env N)) - a > maxAge, set_grps n1 g1) } }"

definition unsubscribe :: "('g, 'd) nenv \<Rightarrow> cstr \<Rightarrow> ('g, 'd) noffle \<Rightarrow> ('g, 'd) noffle option" where
  "unsubscribe N grp n =
     do { sp \<leftarrow> Pseudo_autoUnsubscribed (nenv_env N) (se_gen (ne_S N)) grp (autoUnsubscribeDays (nf_cfg n)) (nf_sp n);
          Some ((set_sp n sp)\<lparr>nf_fl := snd (Fetchlist_remove grp (nf_fl n))\<rparr>) }"

text \<open>\<open>Cont_write\<close> and \<open>Grp_setFirstLast\<close>.\<close>

definition write_group :: "('g, 'd) nenv \<Rightarrow> cstr \<Rightarrow> ('g, 'd) noffle \<Rightarrow> ('g, 'd) noffle option" where
  "write_group N grp n =
     (let sp = sp_Cont_write (nenv_env N) (nf_sp n) in
      do { g \<leftarrow> Grp_setFirstLast (first (sp_cont sp)) (last_nr (sp_cont sp)) (nglib N) grp (sp_grp sp);
           Some (set_sp n (sp\<lparr>sp_grp := g\<rparr>)) })"

definition expire_group :: "('g, 'd) nenv \<Rightarrow> int \<Rightarrow> cstr \<Rightarrow> ('g, 'd) noffle \<Rightarrow> ('g, 'd) noffle option" where
  "expire_group N maxAge grp n =
     (if \<not> Grp_exists (nglib N) grp (sp_grp (nf_sp n)) then Some n
      else do { sp \<leftarrow> sp_Cont_read (nenv_env N) grp (nf_sp n);
                c \<leftarrow> expire_overs N (sp_db sp) (sp_cont sp);
                (b, n1) \<leftarrow> forgotten N maxAge grp (set_sp n (sp\<lparr>sp_cont := c\<rparr>));
                n2 \<leftarrow> (if b then unsubscribe N grp n1 else Some n1);
                write_group N grp n2 })"

lemma Cont_nextGrp_shorter: "Cont_nextGrp dir = Some (Some g, dir1) \<Longrightarrow> length dir1 < length dir"
  by (auto simp: Cont_nextGrp_def split: list.splits)

function contents_loop :: "('g, 'd) nenv \<Rightarrow> int \<Rightarrow> cstr \<Rightarrow> cstr list \<Rightarrow> ('g, 'd) noffle \<Rightarrow> ('g, 'd) noffle option" where
  "contents_loop N maxAge grp dir n =
     do { n1 \<leftarrow> expire_group N maxAge grp n;
          (r, dir1) \<leftarrow> Cont_nextGrp dir;
          case r of None \<Rightarrow> Some n1 | Some g \<Rightarrow> contents_loop N maxAge g dir1 n1 }"
  by pat_completeness auto

termination
  by (relation "measure (\<lambda>(N, m, g, dir, n). length dir)") (auto dest: Cont_nextGrp_shorter)

declare contents_loop.simps [simp del]

definition nf_fetchlist :: "('g, 'd) nenv \<Rightarrow> cstr" where
  "nf_fetchlist N = str_of (spool_dir (nenv_env N) @ ''/fetchlist'')"

definition nf_Fetchlist_read :: "('g, 'd) nenv \<Rightarrow> ('g, 'd) noffle \<Rightarrow> ('g, 'd) noffle option" where
  "nf_Fetchlist_read N n = do { fl \<leftarrow> Fetchlist_read (sp_file (nf_sp n) (nf_fetchlist N)); Some (n\<lparr>nf_fl := fl\<rparr>) }"

definition nf_Fetchlist_write :: "('g, 'd) nenv \<Rightarrow> ('g, 'd) noffle \<Rightarrow> bool \<times> ('g, 'd) noffle" where
  "nf_Fetchlist_write N n =
     (let p = nf_fetchlist N; (fl, ok, f) = Fetchlist_write (can_write (nenv_env N) p) (nf_fl n) (sp_file (nf_sp n) p)
      in (ok, (set_sp n ((nf_sp n)\<lparr>sp_file := (sp_file (nf_sp n))(p := f)\<rparr>))\<lparr>nf_fl := fl\<rparr>))"

definition expireContents :: "('g, 'd) nenv \<Rightarrow> ('g, 'd) noffle \<Rightarrow> ('g, 'd) noffle option" where
  "expireContents N n =
     do { maxAge \<leftarrow> as_int (autoUnsubscribeDays (nf_cfg n) * 24 * 3600);
          (r, dir) \<leftarrow> Cont_firstGrp (ne_overviews N);
          case r of
            None \<Rightarrow> Some n
          | Some grp \<Rightarrow>
              do { n1 \<leftarrow> nf_Fetchlist_read N n;
                   n2 \<leftarrow> contents_loop N maxAge grp dir n1;
                   Some (snd (nf_Fetchlist_write N n2)) } }"

definition doExpire :: "('g, 'd) nenv \<Rightarrow> ('g, 'd) noffle \<Rightarrow> ('g, 'd) noffle option" where
  "doExpire N n =
     do { (_, db, cfg) \<leftarrow> Db_expire (ne_bound N) (ndlib N) (clock (nenv_env N)) (Db_close (sp_db (nf_sp n))) (nf_cfg n) (ne_tmp N);
          let n1 = (set_arts n db)\<lparr>nf_cfg := cfg\<rparr>;
          if \<not> ne_reopens N then Some n1
          else expireContents N (set_arts n1 (snd (Db_open (se_host (ne_S N)) (Some (db_dbf db)) db))) }"

subsection \<open>Local groups\<close>

definition group_arg :: "('g, 'd) nenv \<Rightarrow> cstr \<Rightarrow> cstr option" where
  "group_arg N name = do { grp \<leftarrow> Utl_cpyStr name; strip_at (before (nenv_env N)) (Utl_toLower grp) }"

definition quoted :: "cstr \<Rightarrow> cstr" where
  "quoted s = [CHR 0x27] @ s @ [CHR 0x27]"

definition doCreateLocalGroup :: "('g, 'd) nenv \<Rightarrow> cstr \<Rightarrow> ('g, 'd) noffle \<Rightarrow> ('g, 'd) noffle option" where
  "doCreateLocalGroup N name0 n =
     do { name \<leftarrow> group_arg N name0;
          if Grp_exists (nglib N) name (sp_grp (nf_sp n)) then Some (complain (quoted name @ '' already exists.'' @ [LF]) n)
          else do { g \<leftarrow> Grp_create (nglib N) (clock (nenv_env N)) name (sp_grp (nf_sp n));
                    g1 \<leftarrow> Grp_setLocal (nglib N) name g;
                    let n1 = say (''New local group '' @ quoted name @ '' created.'' @ [LF]) (set_grps n g1);
                    Some (n1\<lparr>nf_f := put_cl (nf_f n1) (put_file (groupinfo (ne_C N)) (Utl_stamp (unat (clock (nenv_env N)))) (ne_C N) (f_cl (nf_f n1)))\<rparr>) } }"

text \<open>The body of the loop over the articles; a number without an overview deletes the entry of a message ID that was
  not set.\<close>

definition delete_art :: "('g, 'd) nenv \<Rightarrow> int \<Rightarrow> ('g, 'd) spool \<Rightarrow> ('g, 'd) spool option" where
  "delete_art N i sp =
     do { ov \<leftarrow> Cont_get (sp_cont sp) i;
          case ov of
            None \<Rightarrow> None
          | Some ov \<Rightarrow>
              do { msgId \<leftarrow> Utl_cpyStr (ov_msgId ov);
                   (xref, db) \<leftarrow> Db_xref (ndlib N) msgId (sp_db sp);
                   c \<leftarrow> Cont_delete (sp_cont sp) i;
                   Some (sp\<lparr>sp_cont := c, sp_db := (if Itl_count (new_Itl xref '' '') > 1 then db else Db_delete (ndlib N) msgId db)\<rparr>) } }"

definition doDeleteLocalGroup :: "('g, 'd) nenv \<Rightarrow> cstr \<Rightarrow> ('g, 'd) noffle \<Rightarrow> ('g, 'd) noffle option" where
  "doDeleteLocalGroup N name0 n =
     do { name \<leftarrow> group_arg N name0;
          if \<not> Grp_exists (nglib N) name (sp_grp (nf_sp n)) then Some (complain (quoted name @ '' does not exist.'' @ [LF]) n)
          else do { sp \<leftarrow> sp_Cont_read (nenv_env N) name (nf_sp n);
                    sp1 \<leftarrow> numb_loop (delete_art N) [first (sp_cont sp)..last_nr (sp_cont sp)] sp;
                    let sp2 = sp_Cont_write (nenv_env N) sp1;
                    Some (say (''Group '' @ quoted name @ '' deleted.'' @ [LF])
                      (set_sp n (sp2\<lparr>sp_grp := Grp_delete (nglib N) name (sp_grp sp2)\<rparr>))) } }"

subsection \<open>Groups\<close>

definition nf_server :: "('g, 'd) nenv \<Rightarrow> cstr \<Rightarrow> ('g, 'd) noffle \<Rightarrow> (cstr \<times> ('g, 'd) noffle) option" where
  "nf_server N grp n =
     do { (s, g) \<leftarrow> Grp_server (Cfg_servListContains (nf_cfg n)) (nglib N) grp (sp_grp (nf_sp n)); Some (s, set_grps n g) }"

fun list_loop :: "('g, 'd) nenv \<Rightarrow> fetchlist \<Rightarrow> ('g, 'd) noffle \<Rightarrow> ('g, 'd) noffle option" where
  "list_loop N [] n = Some n"
| "list_loop N (e # es) n =
     do { (srv, n1) \<leftarrow> nf_server N (el_name e) n;
          list_loop N es (say (el_name e @ '' '' @ srv @ '' '' @ modeStr (el_mode e) @ [LF]) n1) }"

definition nf_doList :: "('g, 'd) nenv \<Rightarrow> ('g, 'd) noffle \<Rightarrow> ('g, 'd) noffle option" where
  "nf_doList N n =
     do { n1 \<leftarrow> nf_Fetchlist_read N n;
          if Fetchlist_size (nf_fl n1) = 0 then Some (complain (''Fetch list is empty.'' @ [LF]) n1)
          else list_loop N (nf_fl n1) n1 }"

text \<open>The words of a description.\<close>

fun cat_words :: "cstr \<Rightarrow> cstr list \<Rightarrow> cstr option" where
  "cat_words d [] = Some d"
| "cat_words d (w # ws) = do { d1 \<leftarrow> Utl_catStr d '' ''; d2 \<leftarrow> Utl_catStr d1 w; cat_words d2 ws }"

definition doModify :: "('g, 'd) nenv \<Rightarrow> cstr \<Rightarrow> cstr list \<Rightarrow> ('g, 'd) noffle \<Rightarrow> (bool \<times> ('g, 'd) noffle) option" where
  "doModify N cmd argv n =
     (case argv of
        grp # w # ws \<Rightarrow>
          if cmd \<noteq> ''desc'' \<and> cmd \<noteq> ''post'' then Some (False, complain (''Unknown argument -m '' @ cmd @ [LF]) n)
          else if cmd = ''desc'' then
            do { d0 \<leftarrow> Utl_cpyStr w; d \<leftarrow> cat_words d0 ws;
                 g \<leftarrow> Grp_setDsc d (nglib N) grp (sp_grp (nf_sp n)); Some (True, set_grps n g) }
          else do { (loc, g) \<leftarrow> Grp_local (nglib N) grp (sp_grp (nf_sp n));
                    let n1 = set_grps n g;
                    if \<not> loc then Some (False, complain (grp @ '' is not a local group'' @ [LF]) n1)
                    else let c = (case w of [] \<Rightarrow> NUL | c # _ \<Rightarrow> c) in
                      if c = CHR ''y'' \<or> c = CHR ''m'' \<or> c = CHR ''n'' then
                        do { g1 \<leftarrow> Grp_setPostAllow c (nglib N) grp (sp_grp (nf_sp n1)); Some (True, set_grps n1 g1) }
                      else Some (False, complain (''Access must be '' @ quoted ''y'' @ '', '' @ quoted ''n'' @ '' or '' @ quoted ''m'') n1) }
      | _ \<Rightarrow> Some (False, complain (''Insufficient arguments to -m'' @ [LF]) n))"

definition print_group :: "('g, 'd) nenv \<Rightarrow> cstr \<Rightarrow> ('g, 'd) noffle \<Rightarrow> ('g, 'd) noffle option" where
  "print_group N grp n =
     do { (a, g) \<leftarrow> Grp_lastAccess (nglib N) grp (sp_grp (nf_sp n));
          (cr, g) \<leftarrow> Grp_created (nglib N) grp g;
          if a < 0 \<or> cr < 0 then None
          else do { (srv, n1) \<leftarrow> nf_server N grp (set_grps n g);
                    (f, g) \<leftarrow> Grp_first (nglib N) grp (sp_grp (nf_sp n1));
                    (l, g) \<leftarrow> Grp_last (nglib N) grp g;
                    (r, g) \<leftarrow> Grp_rmtNext (nglib N) grp g;
                    (p, g) \<leftarrow> Grp_postAllow (nglib N) grp g;
                    (d, g) \<leftarrow> Grp_dsc (nglib N) grp g;
                    ds \<leftarrow> d;
                    Some (say (grp @ [TAB] @ srv @ [TAB] @ dec_int f @ [TAB] @ dec_int l @ [TAB] @ dec_int r @ [TAB] @ [p] @ [TAB]
                      @ ne_local N cr @ [TAB] @ ne_local N a @ [TAB] @ ds @ [LF]) (set_grps n1 g)) } }"

fun grps_list :: "nat \<Rightarrow> ('g, 'd) nenv \<Rightarrow> cstr option \<Rightarrow> ('g, 'd) noffle \<Rightarrow> ('g, 'd) noffle option" where
  "grps_list k N None n = Some n"
| "grps_list 0 N (Some key) n = None"
| "grps_list (Suc k) N (Some key) n =
     do { n1 \<leftarrow> print_group N (key_str key) n; grps_list k N (Grp_nextGrp (nglib N) (Some key) (sp_grp (nf_sp n1))) n1 }"

definition doGrps :: "('g, 'd) nenv \<Rightarrow> ('g, 'd) noffle \<Rightarrow> ('g, 'd) noffle option" where
  "doGrps N n = grps_list (ne_bound N) N (Grp_firstGrp (nglib N) (sp_grp (nf_sp n))) n"

definition mode_word :: "FetchMode \<Rightarrow> cstr" where
  "mode_word mode = (if mode = FULL then ''full'' else if mode = THREAD then ''thread'' else ''overview'')"

text \<open>The end of both: writing the list.\<close>

definition save_list :: "('g, 'd) nenv \<Rightarrow> ('g, 'd) noffle \<Rightarrow> ('g, 'd) noffle" where
  "save_list N n = (let (ok, n1) = nf_Fetchlist_write N n in if \<not> ok then complain (''Could not save fetchlist.'' @ [LF]) n1 else n1)"

definition doSubscribe :: "('g, 'd) nenv \<Rightarrow> cstr \<Rightarrow> FetchMode \<Rightarrow> ('g, 'd) noffle \<Rightarrow> (bool \<times> ('g, 'd) noffle) option" where
  "doSubscribe N name mode n =
     (if \<not> Grp_exists (nglib N) name (sp_grp (nf_sp n))
      then Some (False, complain (name @ '' is not available at remote servers.'' @ [LF]) n)
      else do { n1 \<leftarrow> nf_Fetchlist_read N n;
                (b, fl) \<leftarrow> Fetchlist_add name mode (nf_fl n1);
                let n2 = save_list N (say (if b then ''Adding '' @ name @ '' to fetch list in '' @ mode_word mode @ '' mode.'' @ [LF]
                           else name @ '' is already in fetch list. Mode is now: '' @ mode_word mode @ ''.'' @ [LF]) (n1\<lparr>nf_fl := fl\<rparr>));
                g \<leftarrow> Grp_setLastAccess (sint (clock (nenv_env N))) (nglib N) name (sp_grp (nf_sp n2));
                Some (True, set_grps n2 g) })"

definition doUnsubscribe :: "('g, 'd) nenv \<Rightarrow> cstr \<Rightarrow> ('g, 'd) noffle \<Rightarrow> ('g, 'd) noffle option" where
  "doUnsubscribe N name n =
     do { n1 \<leftarrow> nf_Fetchlist_read N n;
          let (b, fl) = Fetchlist_remove name (nf_fl n1);
          let n2 = n1\<lparr>nf_fl := fl\<rparr>;
          Some (save_list N (say (name @ (if b then '' removed from fetch list.'' else '' is not in fetch list.'') @ [LF]) n2)) }"

subsection \<open>The choice\<close>

definition usage :: cstr where
  "usage = text_of [
     ''Usage: noffle <option>'',
     ''Option is one of the following:'',
     '' -a | --article <msg id>|all      Show article(s) in database'',
     '' -c | --cancel <msg id>           Remove article from database'',
     '' -C | --create <grp>              Create a local group'',
     '' -d | --database                  Show content of article database'',
     '' -D | --delete <grp>              Delete a group'',
     '' -e | --expire                    Expire articles'',
     '' -f | --fetch                     Get newsfeed from server/post articles'',
     '' -g | --groups                    Show all groups available at server'',
     '' -h | --help                      Show this text'',
     '' -l | --list                      List groups on fetch list'',
     '' -m | --modify desc <grp> <desc>  Modify a group description'',
     '' -m | --modify post <grp> (y|n)   Modify posting status of a local group'',
     '' -n | --online                    Switch to online mode'',
     '' -o | --offline                   Switch to offline mode'',
     '' -q | --query groups              Get group list from server'',
     '' -q | --query desc                Get group descriptions from server'',
     '' -r | --server                    Run as server on stdin/stdout'',
     '' -R | --requested                 List articles marked for download'',
     '' -s | --subscribe-over <grp>      Add group to fetch list (overview)'',
     '' -S | --subscribe-full <grp>      Add group to fetch list (full)'',
     '' -t | --subscribe-thread <grp>    Add group to fetch list (thread)'',
     '' -u | --unsubscribe <grp>         Remove group from fetch list'',
     '' -v | --version                   Print version'']"

text \<open>The data bases are opened unless noffle runs as a server; opening fails as the system says.  The configuration file, which
  is read before, is that of \<open>noffle_program\<close> below.\<close>

definition initNoffle :: "('g, 'd) nenv \<Rightarrow> bool \<Rightarrow> ('g, 'd) noffle \<Rightarrow> (bool \<times> ('g, 'd) noffle) option" where
  "initNoffle N interactive n =
     (if \<not> interactive then Some (True, n)
      else if \<not> ne_opens N then Some (False, n)
      else do { rq \<leftarrow> Req_open (nf_req n);
                let db = sp_db (nf_sp n);
                Some (True, set_arts (set_req n rq) (snd (Db_open (se_host (ne_S N)) (Some (db_dbf db)) db))) })"

definition closeNoffle :: "('g, 'd) nenv \<Rightarrow> bool \<Rightarrow> ('g, 'd) noffle \<Rightarrow> ('g, 'd) noffle" where
  "closeNoffle N interactive n =
     (if \<not> interactive then n
      else let n1 = set_arts (set_grps n (Grp_close (sp_grp (nf_sp n)))) (Db_close (sp_db (nf_sp n)))
           in set_req n1 (Req_close (se_reqs (ne_S N)) (sint (clock (nenv_env N))) (nf_req n1)))"

definition run_server :: "('g, 'd) nenv \<Rightarrow> ('g, 'd) noffle \<Rightarrow> ('g, 'd) noffle option" where
  "run_server N n =
     do { (_, s) \<leftarrow> Server_run (ne_S N) (ne_events N)
            \<lparr>running = False, artPtr = 0, srv_grp = [], srv_sp = nf_sp n, srv_fl = nf_fl n, srv_req = nf_req n,
             srv_in = nf_in n, srv_out = \<lparr>written = nf_out n, room = ne_room N\<rparr>\<rparr>;
          Some ((set_req (set_sp n (srv_sp s)) (srv_req s))\<lparr>nf_fl := srv_fl s, nf_in := srv_in s, nf_out := written (srv_out s)\<rparr>) }"

definition switch_online :: "('g, 'd) nenv \<Rightarrow> bool \<Rightarrow> ('g, 'd) noffle \<Rightarrow> ('g, 'd) noffle" where
  "switch_online N b n =
     (let d = spool_dir (nenv_env N) in
      if Online_true d (sp_file (nf_sp n)) = b
      then complain (''NOFFLE is already '' @ (if b then ''online'' else ''offline'') @ [LF]) n
      else set_sp n ((nf_sp n)\<lparr>sp_file := Online_set d (ne_online N) b (sp_file (nf_sp n))\<rparr>))"

definition EXIT_SUCCESS :: int where "EXIT_SUCCESS = 0"
definition EXIT_FAILURE :: int where "EXIT_FAILURE = 1"

text \<open>An action whose result is not looked at, and one whose result becomes the exit status as it is.\<close>

definition succeed :: "('g, 'd) noffle option \<Rightarrow> (int \<times> ('g, 'd) noffle) option" where
  "succeed r = map_option (Pair EXIT_SUCCESS) r"

definition bool_status :: "(bool \<times> ('g, 'd) noffle) option \<Rightarrow> (int \<times> ('g, 'd) noffle) option" where
  "bool_status r = map_option (\<lambda>(b, n). (if b then 1 else 0, n)) r"

definition with_arg :: "char \<Rightarrow> cstr option \<Rightarrow> (cstr \<Rightarrow> (int \<times> ('g, 'd) noffle) option) \<Rightarrow> ('g, 'd) noffle \<Rightarrow> (int \<times> ('g, 'd) noffle) option" where
  "with_arg c optarg f n =
     (case optarg of
        None \<Rightarrow> Some (EXIT_FAILURE, complain (''Option -'' @ [c] @ '' needs argument.'' @ [LF]) n)
      | Some a \<Rightarrow> f a)"

text \<open>What \<open>getopt_long\<close> returned, \<open>None\<close> for -1, with its argument; \<open>argv\<close> is what is left of the words.\<close>

definition do_option :: "('g, 'd) nenv \<Rightarrow> char \<Rightarrow> cstr option \<Rightarrow> cstr list \<Rightarrow> ('g, 'd) noffle \<Rightarrow> (int \<times> ('g, 'd) noffle) option" where
  "do_option N c optarg argv n =
     (if c = CHR ''a'' then with_arg c optarg (\<lambda>a. succeed (nf_doArt N a n)) n
      else if c = CHR ''c'' then with_arg c optarg (\<lambda>a. succeed (doCancel N a n)) n
      else if c = CHR ''C'' then with_arg c optarg (\<lambda>a. succeed (doCreateLocalGroup N a n)) n
      else if c = CHR ''d'' then succeed (doDb N n)
      else if c = CHR ''D'' then with_arg c optarg (\<lambda>a. succeed (doDeleteLocalGroup N a n)) n
      else if c = CHR ''e'' then succeed (doExpire N n)
      else if c = CHR ''f'' then succeed (doFetch N n)
      else if c = CHR ''g'' then succeed (doGrps N n)
      else if c = CHR ''h'' then Some (EXIT_SUCCESS, complain usage n)
      else if c = CHR ''l'' then succeed (nf_doList N n)
      else if c = CHR ''m'' then
        with_arg c optarg (\<lambda>a. map_option (\<lambda>(b, n1). (if b then EXIT_SUCCESS else EXIT_FAILURE, n1)) (doModify N a argv n)) n
      else if c = CHR ''n'' then Some (EXIT_SUCCESS, switch_online N True n)
      else if c = CHR ''o'' then Some (EXIT_SUCCESS, switch_online N False n)
      else if c = CHR ''q'' then
        with_arg c optarg (\<lambda>a.
          if a = ''groups'' then succeed (doQuery N True False n)
          else if a = ''desc'' then succeed (doQuery N False True n)
          else map_option (Pair EXIT_FAILURE) (doQuery N False False (complain (''Unknown argument -q '' @ a @ [LF]) n))) n
      else if c = CHR ''r'' then succeed (run_server N n)
      else if c = CHR ''R'' then succeed (doRequested N optarg n)
      else if c = CHR ''s'' then with_arg c optarg (\<lambda>a. bool_status (doSubscribe N a OVER n)) n
      else if c = CHR ''S'' then with_arg c optarg (\<lambda>a. succeed (map_option snd (doSubscribe N a FULL n))) n
      else if c = CHR ''t'' then with_arg c optarg (\<lambda>a. bool_status (doSubscribe N a THREAD n)) n
      else if c = CHR ''u'' then with_arg c optarg (\<lambda>a. succeed (doUnsubscribe N a n)) n
      else if c = CHR ''?'' then Some (EXIT_FAILURE, n)
      else if c = CHR ''v'' then Some (EXIT_SUCCESS, say (''NNTP server NOFFLE, version '' @ version (nf_cfg n) @ ''.'' @ [LF]) n)
      else if c = NUL then Some (EXIT_SUCCESS, n)
      else None)"

definition noffle_main :: "('g, 'd) nenv \<Rightarrow> char option \<Rightarrow> cstr option \<Rightarrow> cstr list \<Rightarrow> ('g, 'd) noffle \<Rightarrow> (int \<times> ('g, 'd) noffle) option" where
  "noffle_main N c optarg argv n =
     (let interactive = (c \<noteq> Some (CHR ''r'')) in
      do { (ok, n1) \<leftarrow> initNoffle N interactive n;
           if \<not> ok then Some (EXIT_FAILURE, n1)
           else do { (result, n2) \<leftarrow> (case c of None \<Rightarrow> Some (EXIT_SUCCESS, complain usage n1)
                                       | Some c \<Rightarrow> do_option N c optarg argv n1);
                     Some (result, closeNoffle N interactive n2) } })"

text \<open>The whole program: \<open>initNoffle\<close> first reads the configuration file, which ends the program when it names no server; the
  environments of server and client then have the options of the file.  \<open>sd\<close> and \<open>ver\<close> are \<open>SPOOLDIR\<close> and \<open>VERSION\<close>,
  \<open>pre\<close> is the memory before the buffer of a line.\<close>

definition noffle_program :: "cstr \<Rightarrow> cstr \<Rightarrow> cstr \<Rightarrow> cstr option \<Rightarrow> (config \<Rightarrow> ('g, 'd) nenv) \<Rightarrow> char option \<Rightarrow> cstr option \<Rightarrow> cstr list
    \<Rightarrow> ('g, 'd) noffle \<Rightarrow> (int \<times> ('g, 'd) noffle) option" where
  "noffle_program sd ver pre file N c optarg argv n =
     do { r \<leftarrow> Cfg_read pre file (config_init sd ver);
          case r of
            Cfg_exit \<Rightarrow> Some (EXIT_FAILURE, n)
          | Cfg_done cfg \<Rightarrow> noffle_main (N cfg) c optarg argv (n\<lparr>nf_cfg := cfg\<rparr>) }"

end
