(* ===== verification/NoffleProofs.thy ===== *)
theory NoffleProofs
  imports Noffle ServerReply ClientProofs
begin

text \<open>
  What is proved of the command line of noffle: expiry keeps an overview exactly when it keeps its article, deleting a
  group deletes the articles that are in no other group, and the exit statuses.
\<close>

subsection \<open>Loops over the numbers of a group\<close>

lemma numb_loop_upto:
  assumes "a \<le> b + 1" "I a x"
    "\<And>i y. a \<le> i \<Longrightarrow> i \<le> b \<Longrightarrow> I i y \<Longrightarrow> \<exists>z. f i y = Some z \<and> I (i + 1) z"
  shows "\<exists>z. numb_loop f [a..b] x = Some z \<and> I (b + 1) z"
  using assms
proof (induction "nat (b + 1 - a)" arbitrary: a x)
  case 0
  then have "a = b + 1" by simp
  with 0 show ?case by simp
next
  case (Suc k)
  then have ab: "a \<le> b" by simp
  with Suc.prems obtain y where y: "f a x = Some y" "I (a + 1) y" by blast
  have k: "k = nat (b + 1 - (a + 1))" using Suc.hyps(2) by simp
  have "\<exists>z. numb_loop f [a + 1..b] y = Some z \<and> I (b + 1) z"
    by (rule Suc.hyps(1) [OF k _ y(2)]) (use ab Suc.prems(3) in auto)
  then obtain z where "numb_loop f [a + 1..b] y = Some z" "I (b + 1) z" by auto
  with y(1) ab show ?case by (simp add: upto_rec1)
qed

lemma Cont_read_first: "Cont_read spool name fl g c = Some c' \<Longrightarrow> first c' = vecFirst c'"
proof -
  have l: "read_loop ls c = Some c' \<Longrightarrow> vecFirst c = first c \<Longrightarrow> vecFirst c' = first c'" for ls c c'
  proof (induction ls arbitrary: c)
    case (Cons line ls)
    then show ?case by (auto simp: Let_def bind_eq_Some_conv split: option.splits if_splits)
  qed simp
  have e: "first (setupEmpty g c) = vecFirst (setupEmpty g c)" for c by (simp add: setupEmpty_def Let_def)
  assume "Cont_read spool name fl g c = Some c'"
  then show ?thesis
    by (auto simp: Cont_read_def Let_def clearCont_def e split: bind_splits option.splits if_splits dest!: l)
qed

lemma sp_Cont_read_first: "sp_Cont_read E n s = Some s' \<Longrightarrow> first (sp_cont s') = vecFirst (sp_cont s')"
  using Cont_read_first [of "spool_dir E" n "sp_file s (ov_path E n)" _ "sp_cont s"]
  by (auto simp: sp_Cont_read_def split: bind_splits)

text \<open>The state between two numbers: the positions before \<open>i\<close> are changed by \<open>h\<close>, the others as they were.\<close>

definition halfway :: "(Over option \<Rightarrow> Over option) \<Rightarrow> cont \<Rightarrow> int \<Rightarrow> cont \<Rightarrow> bool" where
  "halfway h c0 i c \<longleftrightarrow> cont_inv c \<and> vecFirst c = vecFirst c0 \<and> first c = first c0 \<and> last_nr c = last_nr c0
     \<and> grp_name c = grp_name c0 \<and> grp_file c = grp_file c0
     \<and> elem c = map h (take (nat (i - vecFirst c0)) (elem c0)) @ drop (nat (i - vecFirst c0)) (elem c0)"

lemma halfway_start: "cont_inv c \<Longrightarrow> first c = vecFirst c \<Longrightarrow> halfway h c (first c) c"
  by (simp add: halfway_def)

lemma halfway_end:
  assumes "halfway h c0 (last_nr c0 + 1) c"
  shows "elem c = map h (elem c0)"
proof -
  have c: "cont_inv c" "last_nr c = last_nr c0" "vecFirst c = vecFirst c0"
    and e: "elem c = map h (take (nat (last_nr c0 + 1 - vecFirst c0)) (elem c0)) @ drop (nat (last_nr c0 + 1 - vecFirst c0)) (elem c0)"
    using assms by (auto simp: halfway_def)
  from e have "length (elem c) = length (elem c0)" by simp
  with c have "nat (last_nr c0 + 1 - vecFirst c0) = length (elem c0)" by (auto simp: cont_inv_def)
  with e show ?thesis by simp
qed

lemma halfway_elem:
  assumes "halfway h c0 i c" "first c0 = vecFirst c0" "first c0 \<le> i" "i \<le> last_nr c0"
  shows "Cont_get c i = Some (elem c0 ! nat (i - vecFirst c0)) \<and> nat (i - vecFirst c0) < length (elem c0)"
proof -
  let ?k = "nat (i - vecFirst c0)"
  have c: "cont_inv c" "last_nr c = last_nr c0" "vecFirst c = vecFirst c0" "first c = first c0"
    and e: "elem c = map h (take ?k (elem c0)) @ drop ?k (elem c0)"
    using assms(1) by (auto simp: halfway_def)
  have l: "length (elem c) = length (elem c0)" unfolding e by simp
  with c(1-3) assms(4) have "i - vecFirst c0 < int (length (elem c0))" by (auto simp: cont_inv_def)
  then have k: "?k < length (elem c0)" using assms(2,3) by linarith
  then have "elem c ! ?k = elem c0 ! ?k" unfolding e by (simp add: nth_append)
  with Cont_get_look [OF c(1), of i] c assms k l show ?thesis by (simp add: look_def elem_at_def nat_less_iff)
qed

lemma Cont_delete_elem:
  assumes "cont_inv c" "first c \<le> i" "i \<le> last_nr c"
  shows "Cont_delete c i = Some (c\<lparr>elem := (elem c)[nat (i - vecFirst c) := None]\<rparr>)"
proof -
  have i: "0 \<le> i - vecFirst c" "i - vecFirst c < size_of c" "i \<noteq> 0" using assms by (auto simp: cont_inv_def)
  have "elem c ! nat (i - vecFirst c) = None \<Longrightarrow> (elem c)[nat (i - vecFirst c) := None] = elem c"
    using list_update_id [of "elem c" "nat (i - vecFirst c)"] by argo
  then show ?thesis using assms i by (auto simp: Cont_delete_def Cont_validNumb_def elem_at_def)
qed

lemma halfway_next:
  assumes "halfway h c0 i c" "first c0 = vecFirst c0" "first c0 \<le> i" "i \<le> last_nr c0"
    "h (elem c0 ! nat (i - vecFirst c0)) = elem c0 ! nat (i - vecFirst c0)"
  shows "halfway h c0 (i + 1) c"
proof -
  let ?k = "nat (i - vecFirst c0)"
  have k: "?k < length (elem c0)" using halfway_elem [OF assms(1-4)] by blast
  have s: "nat (i + 1 - vecFirst c0) = Suc ?k" using assms(2,3) by simp
  show ?thesis using assms(1,5) k
    by (simp add: halfway_def s take_Suc_conv_app_nth Cons_nth_drop_Suc [symmetric])
qed

lemma halfway_delete:
  assumes "halfway h c0 i c" "first c0 = vecFirst c0" "first c0 \<le> i" "i \<le> last_nr c0"
    "h (elem c0 ! nat (i - vecFirst c0)) = None"
  shows "\<exists>c'. Cont_delete c i = Some c' \<and> halfway h c0 (i + 1) c'"
proof -
  let ?k = "nat (i - vecFirst c0)"
  have k: "?k < length (elem c0)" using halfway_elem [OF assms(1-4)] by blast
  have s: "nat (i + 1 - vecFirst c0) = Suc ?k" using assms(2,3) by simp
  have c: "cont_inv c" "first c = first c0" "last_nr c = last_nr c0" "vecFirst c = vecFirst c0"
    and e: "elem c = map h (take ?k (elem c0)) @ drop ?k (elem c0)" using assms(1) by (auto simp: halfway_def)
  let ?c = "c\<lparr>elem := (elem c)[?k := None]\<rparr>"
  have d: "Cont_delete c i = Some ?c" using Cont_delete_elem [OF c(1)] c assms(3,4) by simp
  have "(elem c)[?k := None] = map h (take (Suc ?k) (elem c0)) @ drop (Suc ?k) (elem c0)"
    unfolding e using k assms(5)
    by (simp add: list_update_append take_Suc_conv_app_nth Cons_nth_drop_Suc [symmetric])
  with Cont_delete_inv [OF c(1) d] assms(1) have "halfway h c0 (i + 1) ?c" by (simp add: halfway_def s)
  with d show ?thesis by blast
qed

subsection \<open>The overviews that expire\<close>

definition in_db :: "('g, 'd) nenv \<Rightarrow> 'd database \<Rightarrow> Over \<Rightarrow> bool" where
  "in_db N db ov = Db_contains (ndlib N) (ov_msgId ov) db"

fun keep_elem :: "(Over \<Rightarrow> bool) \<Rightarrow> Over option \<Rightarrow> Over option" where
  "keep_elem P None = None"
| "keep_elem P (Some ov) = (if P ov then Some ov else None)"

lemma somes_keep: "somes (map (keep_elem P) es) = filter P (somes es)"
  by (induction es rule: somes.induct) auto

lemma expire_overs_keep:
  assumes "cont_inv c" "first c = vecFirst c"
  shows "\<exists>c'. expire_overs N db c = Some c' \<and> cont_inv c' \<and> last_nr c' = last_nr c \<and> grp_name c' = grp_name c
    \<and> grp_file c' = grp_file c \<and> somes (elem c') = filter (in_db N db) (somes (elem c))"
proof -
  let ?h = "keep_elem (in_db N db)"
  have "first c \<le> last_nr c + 1" using assms by (simp add: cont_inv_def)
  moreover have "\<exists>z. expire_over N db i y = Some z \<and> halfway ?h c (i + 1) z"
    if i: "first c \<le> i" "i \<le> last_nr c" "halfway ?h c i y" for i y
    using halfway_elem [OF i(3) assms(2) i(1,2)] halfway_next [OF i(3) assms(2) i(1,2)] halfway_delete [OF i(3) assms(2) i(1,2)]
    by (cases "elem c ! nat (i - vecFirst c)") (auto simp: expire_over_def in_db_def)
  ultimately obtain c' where c': "expire_overs N db c = Some c'" "halfway ?h c (last_nr c + 1) c'"
    using numb_loop_upto [of "first c" "last_nr c" "halfway ?h c" c "expire_over N db"] halfway_start [OF assms]
    unfolding expire_overs_def by blast
  have "somes (elem c') = filter (in_db N db) (somes (elem c))" by (simp only: halfway_end [OF c'(2)] somes_keep)
  with c' show ?thesis unfolding halfway_def by blast
qed

text \<open>A group is written with some of its overviews.\<close>

lemma Cont_write_somes:
  assumes "cont_inv c" "list_all plain_ov (somes (elem c))"
  shows "\<exists>c'. Cont_write True (\<lambda>_. True) c old
      = (c', if somes (elem c) = [] then None else Some (concat (map Ov_write (somes (elem c)))))
    \<and> last_nr c' = last_nr c \<and> grp_name c' = grp_name c \<and> grp_file c' = grp_file c \<and> elem c' = elem c"
proof (cases "somes (elem c) = []")
  case True
  then have "write_loop (vecFirst c) (\<lambda>_. True) 0 (elem c) (-1, False) = ([], -1, False)"
    using write_loop_all [of "elem c" "vecFirst c" 0 "-1" False] assms(1) somes_Nil [of "elem c" 0] by (auto simp: cont_inv_def)
  with True show ?thesis by (simp add: Cont_write_def)
next
  case False
  have "vecFirst c > 0" using assms(1) by (simp add: cont_inv_def)
  then have "\<exists>k. write_loop (vecFirst c) (\<lambda>_. True) 0 (elem c) (-1, False) = (concat (map Ov_write (somes (elem c))), k, True)"
    using write_loop_all [of "elem c" "vecFirst c" 0 "-1" False] assms(2) False by (auto simp: list_all_iff plain_ov_def)
  with False show ?thesis by (auto simp: Cont_write_def)
qed

lemma sp_rewrite:
  assumes "env_ok E" "spool_inv E s" "group_name E n" "group_has E s n ovs l"
    "cont_inv c" "last_nr c = l" "somes (elem c) = filter P ovs" "grp_file c = ov_path E n"
  shows "\<exists>s' c' g'. sp_Cont_write E (s\<lparr>sp_cont := c\<rparr>) = s' \<and> sp_cont s' = c' \<and> sp_db s' = sp_db s \<and> sp_grp s' = sp_grp s
    \<and> Grp_setFirstLast (first c') (last_nr c') (gdbm_g E) n (sp_grp s) = Some g'
    \<and> spool_inv E (s'\<lparr>sp_grp := g'\<rparr>) \<and> group_has E (s'\<lparr>sp_grp := g'\<rparr>) n (filter P ovs) l
    \<and> (\<forall>m os k. m \<noteq> n \<and> group_name E m \<and> group_has E s m os k \<longrightarrow> group_has E (s'\<lparr>sp_grp := g'\<rparr>) m os k)
    \<and> (\<forall>p. p \<noteq> ov_path E n \<longrightarrow> sp_file s' p = sp_file s p)"
proof -
  have g: "list_all plain_ov ovs" "sorted_wrt (<) (map ov_numb ovs)"
    "list_all (\<lambda>ov. 0 < ov_numb ov \<and> ov_numb ov \<le> l) ovs" "0 \<le> l" "l < INT_MAX"
    using assms(4) by (auto simp: group_has_def)
  obtain i where i: "info (gdbm_g E) (dbf (sp_grp s)) n = Some i" using assms(4) by (auto simp: group_has_def)
  let ?f = "if filter P ovs = [] then None else Some (concat (map Ov_write (filter P ovs)))"
  have pl: "list_all plain_ov (filter P ovs)" using g(1) by (auto simp: list_all_iff)
  from Cont_write_somes [OF assms(5), of "sp_file s (ov_path E n)"] pl obtain c' where
    c': "Cont_write True (\<lambda>_. True) c (sp_file s (ov_path E n)) = (c', ?f)" "last_nr c' = l"
    unfolding assms(6,7) by auto
  have wr: "sp_Cont_write E (s\<lparr>sp_cont := c\<rparr>) = s\<lparr>sp_cont := c', sp_file := (sp_file s)(ov_path E n := ?f)\<rparr>"
    using assms(1,8) c'(1) by (simp add: sp_Cont_write_def env_ok_def)
  have laws: "gdbm_laws (gdbm_g E)" "stores_succeed (gdbm_g E)" "grp_inv (gdbm_g E) (sp_grp s)" "name_ok n"
    using assms(1,2,3) by (auto simp: env_ok_def spool_inv_def group_name_def)
  let ?upd = "\<lambda>i. Some (i\<lparr>entry := (entry i)\<lparr>e_first := word_of_int (first c'), e_last := word_of_int l\<rparr>\<rparr>)"
  obtain g' where g': "Grp_setFirstLast (first c') l (gdbm_g E) n (sp_grp s) = Some g'" "grp_inv (gdbm_g E) g'"
    "info (gdbm_g E) (dbf g') = (info (gdbm_g E) (dbf (sp_grp s)))(n := info (gdbm_g E) (dbf (sp_grp s)) n \<bind> ?upd)"
    using setter_refines [OF laws, of ?upd] by (auto simp: Grp_setFirstLast_def ginfo_ok_def)
  let ?s = "(s\<lparr>sp_cont := c', sp_file := (sp_file s)(ov_path E n := ?f)\<rparr>)\<lparr>sp_grp := g'\<rparr>"
  have "sint (word_of_int l :: u32) = l" by (rule sint_of_int_ok) (use g(4,5) in \<open>simp add: int_ok_def\<close>)
  moreover have "sorted_wrt (<) (map ov_numb (filter P ovs))"
    using g(2) by (simp add: sorted_wrt_map sorted_wrt_filter)
  ultimately have h: "group_has E ?s n (filter P ovs) l"
    using g pl i g'(3) by (auto simp: group_has_def list_all_iff)
  have o: "group_has E ?s m os k" if "m \<noteq> n" "group_name E m" "group_has E s m os k" for m os k
    using that ov_path_inject [OF that(2) assms(3)] g'(3) by (simp add: group_has_def)
  have "spool_inv E ?s" using assms(2) g' by (simp add: spool_inv_def)
  with h o wr c' g' show ?thesis by (intro exI [of _ "s\<lparr>sp_cont := c', sp_file := (sp_file s)(ov_path E n := ?f)\<rparr>"] exI [of _ c'] exI [of _ g']) auto
qed

text \<open>One group.\<close>

lemma sp_simps [simp]:
  "nf_sp (set_sp n sp) = sp" "nf_fl (set_sp n sp) = nf_fl n" "nf_cfg (set_sp n sp) = nf_cfg n"
  "nf_sp (set_grps n g) = (nf_sp n)\<lparr>sp_grp := g\<rparr>" "nf_fl (set_grps n g) = nf_fl n" "nf_cfg (set_grps n g) = nf_cfg n"
  "nf_sp (set_arts n db) = (nf_sp n)\<lparr>sp_db := db\<rparr>" "nf_fl (set_arts n db) = nf_fl n" "nf_cfg (set_arts n db) = nf_cfg n"
  by (simp_all add: set_sp_def set_grps_def set_arts_def put_sp_def)

lemma forgotten_never:
  assumes "grp_inv (nglib N) (sp_grp (nf_sp n))" "name_ok grp" "autoUnsubscribe (nf_cfg n) = 0"
  shows "\<exists>g. forgotten N maxAge grp n = Some (False, set_grps n g) \<and> grp_inv (nglib N) g \<and> dbf g = dbf (sp_grp (nf_sp n))"
  using getter_refines [OF assms(1,2), of False "\<lambda>i. ginfo.serv i = GRP_LOCAL_SERVER_NAME"] assms(3)
  by (auto simp: forgotten_def Grp_local_def)

lemma Grp_exists_info:
  "env_ok E \<Longrightarrow> spool_inv E s \<Longrightarrow> group_name E n \<Longrightarrow> group_has E s n ovs l \<Longrightarrow> Grp_exists (gdbm_g E) n (sp_grp s)"
  by (auto simp: Grp_exists_def env_ok_def gdbm_laws_def group_has_def info_def bind_eq_Some_conv)

lemma expire_group_keeps:
  assumes "env_ok (nenv_env N)" "spool_inv (nenv_env N) (nf_sp n)" "group_name (nenv_env N) grp"
    "group_has (nenv_env N) (nf_sp n) grp ovs l" "autoUnsubscribe (nf_cfg n) = 0"
  shows "\<exists>n'. expire_group N maxAge grp n = Some n' \<and> spool_inv (nenv_env N) (nf_sp n') \<and> sp_db (nf_sp n') = sp_db (nf_sp n)
    \<and> group_has (nenv_env N) (nf_sp n') grp (filter (in_db N (sp_db (nf_sp n))) ovs) l
    \<and> (\<forall>m os k. m \<noteq> grp \<and> group_name (nenv_env N) m \<and> group_has (nenv_env N) (nf_sp n) m os k
         \<longrightarrow> group_has (nenv_env N) (nf_sp n') m os k)
    \<and> nf_cfg n' = nf_cfg n \<and> nf_fl n' = nf_fl n
    \<and> (\<forall>p. p \<noteq> ov_path (nenv_env N) grp \<longrightarrow> sp_file (nf_sp n') p = sp_file (nf_sp n) p)"
proof -
  let ?E = "nenv_env N"
  obtain s1 where s1: "sp_Cont_read ?E grp (nf_sp n) = Some s1" "spool_inv ?E s1" "sp_file s1 = sp_file (nf_sp n)"
    "dbf (sp_grp s1) = dbf (sp_grp (nf_sp n))" "sp_db s1 = sp_db (nf_sp n)" "cont_inv (sp_cont s1)" "last_nr (sp_cont s1) = l"
    "somes (elem (sp_cont s1)) = ovs" "grp_file (sp_cont s1) = ov_path ?E grp"
    using sp_Cont_read_group [OF assms(1-4)] by blast
  obtain c where c: "expire_overs N (sp_db s1) (sp_cont s1) = Some c" "cont_inv c" "last_nr c = l" "grp_file c = ov_path ?E grp"
    "somes (elem c) = filter (in_db N (sp_db (nf_sp n))) ovs"
    using expire_overs_keep [OF s1(6) sp_Cont_read_first [OF s1(1)], of N "sp_db s1"] s1(5,7-9) by auto
  have nm: "name_ok grp" using assms(3) by (simp add: group_name_def)
  let ?n1 = "set_sp n (s1\<lparr>sp_cont := c\<rparr>)"
  obtain g where g: "forgotten N maxAge grp ?n1 = Some (False, set_grps ?n1 g)" "grp_inv (gdbm_g ?E) g" "dbf g = dbf (sp_grp s1)"
    using forgotten_never [of N ?n1 grp maxAge] s1(2) nm assms(5) by (auto simp: spool_inv_def)
  let ?s = "s1\<lparr>sp_grp := g\<rparr>"
  have i: "spool_inv ?E ?s" using s1(2) g(2) by (simp add: spool_inv_def)
  have h: "group_has ?E ?s m os k \<longleftrightarrow> group_has ?E (nf_sp n) m os k" for m os k
    using s1(3,4) g(3) by (simp add: group_has_def)
  from sp_rewrite [OF assms(1) i assms(3) _ c(2,3,5,4)] assms(4) h obtain s' g' where
    s': "sp_Cont_write ?E (?s\<lparr>sp_cont := c\<rparr>) = s'" "sp_db s' = sp_db s1" "sp_grp s' = g"
      "Grp_setFirstLast (first (sp_cont s')) (last_nr (sp_cont s')) (gdbm_g ?E) grp g = Some g'"
      "spool_inv ?E (s'\<lparr>sp_grp := g'\<rparr>)" "group_has ?E (s'\<lparr>sp_grp := g'\<rparr>) grp (filter (in_db N (sp_db (nf_sp n))) ovs) l"
      "\<forall>m os k. m \<noteq> grp \<and> group_name ?E m \<and> group_has ?E (nf_sp n) m os k \<longrightarrow> group_has ?E (s'\<lparr>sp_grp := g'\<rparr>) m os k"
      "\<forall>p. p \<noteq> ov_path ?E grp \<longrightarrow> sp_file s' p = sp_file s1 p" by auto
  have e: "s1\<lparr>sp_cont := c, sp_grp := g\<rparr> = ?s\<lparr>sp_cont := c\<rparr>" by simp
  have "expire_group N maxAge grp n = Some (set_sp (set_grps ?n1 g) (s'\<lparr>sp_grp := g'\<rparr>))"
    using Grp_exists_info [OF assms(1-4)] s1(1) c(1) g(1) s'(1-4)
    by (simp add: expire_group_def write_group_def Let_def e)
  with s' s1 show ?thesis by auto
qed

text \<open>All groups with an overview file.\<close>

definition groups_have :: "('g, 'd) nenv \<Rightarrow> ('g, 'd) noffle \<Rightarrow> cstr list \<Rightarrow> (cstr \<Rightarrow> Over list) \<Rightarrow> (cstr \<Rightarrow> int) \<Rightarrow> bool" where
  "groups_have N n gs ovs l \<longleftrightarrow>
     (\<forall>g \<in> set gs. group_name (nenv_env N) g \<and> group_has (nenv_env N) (nf_sp n) g (ovs g) (l g))"

lemma groups_have_Cons:
  "groups_have N n (g # gs) ovs l \<longleftrightarrow>
     group_name (nenv_env N) g \<and> group_has (nenv_env N) (nf_sp n) g (ovs g) (l g) \<and> groups_have N n gs ovs l"
  by (auto simp: groups_have_def)

lemma Cont_nextGrp_name: "group_name E g \<Longrightarrow> Cont_nextGrp (g # gs) = Some (Some g, gs)"
  by (simp add: Cont_nextGrp_def Utl_cpyStr_eq group_name_def name_ok_def)

lemma contents_loop_keeps:
  assumes "env_ok (nenv_env N)"
  shows "spool_inv (nenv_env N) (nf_sp n) \<Longrightarrow> autoUnsubscribe (nf_cfg n) = 0 \<Longrightarrow> distinct (grp # gs) \<Longrightarrow>
    groups_have N n (grp # gs) ovs l \<Longrightarrow>
    \<exists>n'. contents_loop N maxAge grp gs n = Some n' \<and> spool_inv (nenv_env N) (nf_sp n') \<and> sp_db (nf_sp n') = sp_db (nf_sp n)
      \<and> groups_have N n' (grp # gs) (\<lambda>g. filter (in_db N (sp_db (nf_sp n))) (ovs g)) l
      \<and> (\<forall>m os k. m \<notin> set (grp # gs) \<and> group_name (nenv_env N) m \<and> group_has (nenv_env N) (nf_sp n) m os k
           \<longrightarrow> group_has (nenv_env N) (nf_sp n') m os k)"
proof (induction gs arbitrary: grp n)
  case Nil
  from expire_group_keeps [OF assms Nil.prems(1), of grp "ovs grp" "l grp" maxAge] Nil.prems
  obtain n1 where n1: "expire_group N maxAge grp n = Some n1" "spool_inv (nenv_env N) (nf_sp n1)" "sp_db (nf_sp n1) = sp_db (nf_sp n)"
    "group_has (nenv_env N) (nf_sp n1) grp (filter (in_db N (sp_db (nf_sp n))) (ovs grp)) (l grp)"
    "\<forall>m os k. m \<noteq> grp \<and> group_name (nenv_env N) m \<and> group_has (nenv_env N) (nf_sp n) m os k \<longrightarrow> group_has (nenv_env N) (nf_sp n1) m os k"
    by (auto simp: groups_have_def)
  then have "contents_loop N maxAge grp [] n = Some n1" by (subst contents_loop.simps) (simp add: Cont_nextGrp_def)
  with n1 Nil.prems(4) show ?case by (auto simp: groups_have_def)
next
  case (Cons g gs)
  from expire_group_keeps [OF assms Cons.prems(1), of grp "ovs grp" "l grp" maxAge] Cons.prems
  obtain n1 where n1: "expire_group N maxAge grp n = Some n1" "spool_inv (nenv_env N) (nf_sp n1)" "sp_db (nf_sp n1) = sp_db (nf_sp n)"
    "group_has (nenv_env N) (nf_sp n1) grp (filter (in_db N (sp_db (nf_sp n))) (ovs grp)) (l grp)"
    "\<forall>m os k. m \<noteq> grp \<and> group_name (nenv_env N) m \<and> group_has (nenv_env N) (nf_sp n) m os k \<longrightarrow> group_has (nenv_env N) (nf_sp n1) m os k"
    "nf_cfg n1 = nf_cfg n"
    by (auto simp: groups_have_def)
  have gn: "group_name (nenv_env N) grp" "group_name (nenv_env N) g" using Cons.prems(4) by (simp_all add: groups_have_Cons)
  have d: "distinct (g # gs)" "grp \<notin> set (g # gs)" using Cons.prems(3) by auto
  have "group_has (nenv_env N) (nf_sp n1) m (ovs m) (l m)" if "m \<in> set (g # gs)" for m
    using that Cons.prems(4) d(2) n1(5) unfolding groups_have_def by (metis list.set_intros(2))
  with Cons.prems(4) have "groups_have N n1 (g # gs) ovs l" by (auto simp: groups_have_def)
  from Cons.IH [OF n1(2) _ d(1) this] n1(3,6) Cons.prems(2) obtain n' where
    n': "contents_loop N maxAge g gs n1 = Some n'" "spool_inv (nenv_env N) (nf_sp n')" "sp_db (nf_sp n') = sp_db (nf_sp n)"
      "groups_have N n' (g # gs) (\<lambda>g. filter (in_db N (sp_db (nf_sp n))) (ovs g)) l"
      "\<forall>m os k. m \<notin> set (g # gs) \<and> group_name (nenv_env N) m \<and> group_has (nenv_env N) (nf_sp n1) m os k
           \<longrightarrow> group_has (nenv_env N) (nf_sp n') m os k" by auto
  have "contents_loop N maxAge grp (g # gs) n = Some n'"
    using n1(1) n'(1) by (subst contents_loop.simps) (simp add: Cont_nextGrp_name [OF gn(2)])
  moreover have "group_has (nenv_env N) (nf_sp n') grp (filter (in_db N (sp_db (nf_sp n))) (ovs grp)) (l grp)"
    using n'(5) d(2) gn(1) n1(4) by blast
  moreover have "group_has (nenv_env N) (nf_sp n') m os k"
    if "m \<notin> set (grp # g # gs)" "group_name (nenv_env N) m" "group_has (nenv_env N) (nf_sp n) m os k" for m os k
    using that n1(5) n'(5) by auto
  ultimately show ?case using n' gn by (simp add: groups_have_Cons)
qed

lemma fetchlist_not_overview: "group_name (nenv_env N) g \<Longrightarrow> nf_fetchlist N \<noteq> ov_path (nenv_env N) g"
proof
  let ?d = "spool_dir (nenv_env N)"
  assume g: "group_name (nenv_env N) g" and e: "nf_fetchlist N = ov_path (nenv_env N) g"
  have l: "length (?d @ ''/fetchlist'') \<le> MAXCHAR - 1" using g by (auto simp: group_name_def)
  with e g have "?d @ ''/fetchlist'' = ?d @ ''/overview/'' @ g"
    by (simp add: nf_fetchlist_def str_of_def ov_path_whole)
  then show False by simp
qed

lemma group_has_other_file:
  "p \<noteq> ov_path E g \<Longrightarrow> group_has E (s\<lparr>sp_file := (sp_file s)(p := f)\<rparr>) g os k = group_has E s g os k"
  by (simp add: group_has_def)

lemma nf_Fetchlist_write_sp:
  "\<exists>y. nf_sp (snd (nf_Fetchlist_write N n)) = (nf_sp n)\<lparr>sp_file := (sp_file (nf_sp n))(nf_fetchlist N := y)\<rparr>"
  by (cases "Fetchlist_write (can_write (nenv_env N) (nf_fetchlist N)) (nf_fl n) (sp_file (nf_sp n) (nf_fetchlist N))")
    (simp add: nf_Fetchlist_write_def Let_def exI)

lemma expireContents_expires:
  assumes "env_ok (nenv_env N)" "spool_inv (nenv_env N) (nf_sp n)" "autoUnsubscribe (nf_cfg n) = 0"
    "int_ok (autoUnsubscribeDays (nf_cfg n) * 24 * 3600)" "ne_overviews N = Some (''.'' # ''..'' # gs)" "distinct gs"
    "groups_have N n gs ovs l" "Fetchlist_read (sp_file (nf_sp n) (nf_fetchlist N)) \<noteq> None"
  shows "\<exists>n'. expireContents N n = Some n' \<and> spool_inv (nenv_env N) (nf_sp n') \<and> sp_db (nf_sp n') = sp_db (nf_sp n)
    \<and> groups_have N n' gs (\<lambda>g. filter (in_db N (sp_db (nf_sp n))) (ovs g)) l"
proof (cases gs)
  case Nil
  with assms(4,5) have "expireContents N n = Some n"
    by (simp add: expireContents_def as_int_def Cont_firstGrp_def Cont_nextGrp_def Utl_cpyStr_eq MAXCHAR_def)
  with Nil assms(2) show ?thesis by (simp add: groups_have_def)
next
  case (Cons grp gs')
  obtain fl where fl: "Fetchlist_read (sp_file (nf_sp n) (nf_fetchlist N)) = Some fl" using assms(8) by auto
  let ?n = "n\<lparr>nf_fl := fl\<rparr>"
  have h: "groups_have N ?n (grp # gs') ovs l" using assms(7) Cons by (simp add: groups_have_def)
  have gn: "group_name (nenv_env N) grp" using h by (simp add: groups_have_Cons)
  obtain n1 where n1: "contents_loop N (autoUnsubscribeDays (nf_cfg n) * 24 * 3600) grp gs' ?n = Some n1"
    "spool_inv (nenv_env N) (nf_sp n1)" "sp_db (nf_sp n1) = sp_db (nf_sp n)"
    "groups_have N n1 gs (\<lambda>g. filter (in_db N (sp_db (nf_sp n))) (ovs g)) l"
    using contents_loop_keeps [OF assms(1) _ _ _ h, of "autoUnsubscribeDays (nf_cfg n) * 24 * 3600"] assms(2,3,6) Cons by auto
  let ?n' = "snd (nf_Fetchlist_write N n1)"
  have f: "Cont_firstGrp (ne_overviews N) = Some (Some grp, gs')"
  proof -
    have "Cont_nextGrp (''.'' # r) = Some (Some ''.'', r)" "Cont_nextGrp (''..'' # r) = Some (Some ''..'', r)" for r
      by (simp_all add: Cont_nextGrp_def Utl_cpyStr_eq MAXCHAR_def)
    with assms(5) Cons Cont_nextGrp_name [OF gn, of gs'] show ?thesis by (simp add: Cont_firstGrp_def)
  qed
  have "expireContents N n = Some ?n'"
    using assms(4) f fl n1(1) by (simp add: expireContents_def as_int_def nf_Fetchlist_read_def)
  moreover obtain y where "nf_sp ?n' = (nf_sp n1)\<lparr>sp_file := (sp_file (nf_sp n1))(nf_fetchlist N := y)\<rparr>"
    using nf_Fetchlist_write_sp by blast
  moreover have "groups_have N ?n' gs (\<lambda>g. filter (in_db N (sp_db (nf_sp n))) (ovs g)) l"
    using n1(4) calculation(2) fetchlist_not_overview [of N]
    by (simp add: groups_have_def group_has_other_file)
  ultimately show ?thesis using n1(2,3) by (auto simp: spool_inv_def)
qed

text \<open>C7. After \<open>noffle -e\<close>, when gdbm enumerates every entry and no group is unsubscribed, articles and overviews have
  expired together: the data base holds exactly the articles that survive, each unchanged, and every group has exactly
  those of its overviews whose article survived, in their order and with their numbers, under its last number.\<close>

theorem doExpire_together:
  assumes "env_ok (nenv_env N)" "spool_inv (nenv_env N) (nf_sp n)" "d = db_dbf (sp_db (nf_sp n))"
    "ne_tmp N = Some d0" "g_fetch (ndlib N) d0 = (\<lambda>_. None)" "ne_reopens N"
    "key_walk (ne_bound N) (ndlib N) d (g_firstkey (ndlib N) d) = Some (map key_of ms)"
    "\<forall>m. arts (ndlib N) d m \<noteq> None \<longrightarrow> m \<in> set ms" "\<forall>m \<in> set ms. entry_ok (ndlib N) d (nf_cfg n) m"
    "\<forall>e \<in> set (expire (nf_cfg n)). 0 \<le> ex_days e" "autoUnsubscribe (nf_cfg n) = 0"
    "int_ok (autoUnsubscribeDays (nf_cfg n) * 24 * 3600)" "ne_overviews N = Some (''.'' # ''..'' # gs)" "distinct gs"
    "groups_have N n gs ovs l" "\<forall>g \<in> set gs. \<forall>ov \<in> set (ovs g). ov_msgId ov \<noteq> []"
    "Fetchlist_read (sp_file (nf_sp n) (nf_fetchlist N)) \<noteq> None"
    "alive = (\<lambda>m. case arts (ndlib N) d m of None \<Rightarrow> None
       | Some a \<Rightarrow> if survives (nf_cfg n) (clock (nenv_env N)) a then Some a else None)"
  shows "\<exists>n'. doExpire N n = Some n' \<and> arts (ndlib N) (db_dbf (sp_db (nf_sp n'))) = alive
    \<and> groups_have N n' gs (\<lambda>g. filter (\<lambda>ov. alive (ov_msgId ov) \<noteq> None) (ovs g)) l"
proof -
  have laws: "gdbm_laws (ndlib N)" "stores_succeed (ndlib N)" using assms(1) by (simp_all add: env_ok_def)
  let ?db = "Db_close (sp_db (nf_sp n))"
  have inv: "db_inv (ndlib N) ?db" "db_dbf ?db = d"
    using assms(2,3) by (auto simp: spool_inv_def db_inv_def Db_close_def)
  obtain db1 k where db1: "Db_expire (ne_bound N) (ndlib N) (clock (nenv_env N)) ?db (nf_cfg n) (Some d0)
      = Some (True, db1, (nf_cfg n)\<lparr>expireIdx := k\<rparr>)" "db_inv (ndlib N) db1" "arts (ndlib N) (db_dbf db1) = alive"
    using Db_expire_arts [OF laws inv(1) assms(5), of "ne_bound N" ms "nf_cfg n" "clock (nenv_env N)"] assms(7-10) inv(2)
    unfolding assms(18) by auto
  let ?db2 = "snd (Db_open (se_host (ne_S N)) (Some (db_dbf db1)) db1)"
  have db2: "db_dbf ?db2 = db_dbf db1" "db_msgId ?db2 = db_msgId db1" by (simp_all add: Db_open_def)
  have cl: "db_msgId db1 = []" using db1(1) by (auto simp: Db_expire_def Db_close_def split: bind_splits)
  have inv2: "db_inv (ndlib N) ?db2" using db1(2) cl db2 by (auto simp: db_inv_def)
  let ?n = "set_arts ((set_arts n db1)\<lparr>nf_cfg := (nf_cfg n)\<lparr>expireIdx := k\<rparr>\<rparr>) ?db2"
  have n: "nf_sp ?n = (nf_sp n)\<lparr>sp_db := ?db2\<rparr>" "nf_cfg ?n = (nf_cfg n)\<lparr>expireIdx := k\<rparr>" by simp_all
  have i: "spool_inv (nenv_env N) (nf_sp ?n)" using assms(2) inv2 unfolding n by (simp add: spool_inv_def)
  have h: "groups_have N ?n gs ovs l" using assms(15) unfolding groups_have_def n by (simp add: group_has_def)
  from expireContents_expires [OF assms(1) i _ _ assms(13,14) h] assms(11,12,17) n obtain n' where
    n': "expireContents N ?n = Some n'" "sp_db (nf_sp n') = ?db2"
      "groups_have N n' gs (\<lambda>g. filter (in_db N ?db2) (ovs g)) l" by auto
  have "in_db N ?db2 ov \<longleftrightarrow> alive (ov_msgId ov) \<noteq> None" if "ov_msgId ov \<noteq> []" for ov
    using Db_contains_refines [OF laws(1) inv2 that] db2(1) db1(3) by (simp add: in_db_def)
  then have "filter (in_db N ?db2) (ovs g) = filter (\<lambda>ov. alive (ov_msgId ov) \<noteq> None) (ovs g)" if "g \<in> set gs" for g
    using assms(16) that by (intro filter_cong) auto
  then have "groups_have N n' gs (\<lambda>g. filter (\<lambda>ov. alive (ov_msgId ov) \<noteq> None) (ovs g)) l"
    using n'(3) by (simp add: groups_have_def)
  moreover have "doExpire N n = Some n'"
    using db1(1) n'(1) assms(4,6) by (simp add: doExpire_def)
  ultimately show ?thesis using n'(2) db2(1) db1(3) by auto
qed

definition nf_ginfo :: ginfo where
  "nf_ginfo = post_ginfo\<lparr>entry := (entry post_ginfo)\<lparr>e_last := 2\<rparr>\<rparr>"

definition nf_overs :: "Over list" where
  "nf_overs = [Ov_setNumb (sample_over\<lparr>ov_msgId := ''m''\<rparr>) 1, Ov_setNumb (sample_over\<lparr>ov_msgId := ''gone''\<rparr>) 2]"

definition nf_spool :: "(cstr \<Rightarrow> byte list option, cstr \<Rightarrow> byte list option) spool" where
  "nf_spool = post_spool\<lparr>sp_grp := grp_init ((\<lambda>_. None)(key_of ''ab'' \<mapsto> record_image nf_ginfo)), sp_db := sample_db,
     sp_file := (\<lambda>_. None)(''/var/overview/ab'' \<mapsto> concat (map Ov_write nf_overs))\<rparr>"

definition nf_env :: "(cstr \<Rightarrow> byte list option, cstr \<Rightarrow> byte list option) env" where
  "nf_env = post_env\<lparr>gdbm_d := walk_gdbm, clock := 1000\<rparr>"

definition sample_nenv :: "(cstr \<Rightarrow> byte list option, cstr \<Rightarrow> byte list option) nenv" where
  "sample_nenv = \<lparr>ne_S = reply_env\<lparr>se_env := nf_env, se_cfg := day_config\<rparr>,
     ne_C = client_env\<lparr>ce_env := nf_env, ce_cfg := day_config\<rparr>, ne_bound = 1, ne_local = (\<lambda>_. ''d''), ne_ymd = (\<lambda>_. ''d''),
     ne_queue = (\<lambda>_. None), ne_overviews = Some [''.'', ''..'', ''ab''], ne_opens = True, ne_tmp = Some (\<lambda>_. None), ne_reopens = True,
     ne_online = True, ne_room = 0, ne_events = []\<rparr>"

definition sample_noffle :: "(cstr \<Rightarrow> byte list option, cstr \<Rightarrow> byte list option) noffle" where
  "sample_noffle = \<lparr>nf_f = fetch_start nf_spool no_requests, nf_fl = [], nf_cfg = day_config, nf_in = [], nf_out = [], nf_err = []\<rparr>"

lemma sample_noffle_simps [simp]:
  "nenv_env sample_nenv = nf_env" "gdbm_d nf_env = walk_gdbm" "gdbm_g nf_env = mem_gdbm" "clock nf_env = 1000" "spool_dir nf_env = ''/var''"
  "nf_sp sample_noffle = nf_spool" "nf_cfg sample_noffle = day_config" "sp_db nf_spool = sample_db"
  by (simp_all add: sample_nenv_def nf_env_def post_env_def sample_noffle_def fetch_start_def client_init_def nf_spool_def)

lemma nf_ginfo_ok: "ginfo_ok nf_ginfo"
  using post_ginfo_ok by (simp add: ginfo_ok_def nf_ginfo_def)

lemma nf_spool_inv: "env_ok nf_env" "spool_inv nf_env nf_spool"
proof -
  show "env_ok nf_env" using post_spool_inv(1) walk_gdbm_same(1,2) by (simp add: env_ok_def nf_env_def)
  show "spool_inv nf_env nf_spool"
    using sample_db_inv parse_record_image [OF nf_ginfo_ok]
    by (auto simp: spool_inv_def nf_spool_def grp_inv_def grp_init_def mem_gdbm_def name_ok_def MAXCHAR_def walk_gdbm_same)
qed

lemma nf_overs_plain: "list_all plain_ov nf_overs"
  unfolding nf_overs_def Ov_setNumb_def by code_simp

lemma nf_groups: "groups_have sample_nenv sample_noffle [''ab''] (\<lambda>_. nf_overs) (\<lambda>_. 2)"
proof -
  have p: "ov_path nf_env ''ab'' = ''/var/overview/ab''" by (simp add: ov_path_def MAXCHAR_def)
  have n: "map ov_numb nf_overs = [1, 2]" "nf_overs \<noteq> []" by (simp_all add: nf_overs_def Ov_setNumb_def)
  have "list_all (\<lambda>ov. 0 < ov_numb ov \<and> ov_numb ov \<le> 2) nf_overs" by (simp add: nf_overs_def Ov_setNumb_def)
  with n nf_overs_plain have "group_has nf_env nf_spool ''ab'' nf_overs 2"
    using parse_record_image [OF nf_ginfo_ok]
    by (simp add: group_has_def p nf_spool_def INT_MAX_def info_def grp_init_def mem_gdbm_def nf_ginfo_def)
  then show ?thesis by (simp add: groups_have_def group_name_def name_ok_def MAXCHAR_def)
qed

lemma nf_alive: "survives day_config 1000 sample_art" "arts walk_gdbm (db_dbf sample_db) m = (if m = ''m'' then Some sample_art else None)"
proof -
  show "survives day_config 1000 sample_art"
    by (simp add: survives_def expire_days_def sample_xref sample_groups pick_def day_config_def pat_matches_def
        sample_pat, simp add: sample_art_def prepared_def)
  show "arts walk_gdbm (db_dbf sample_db) m = (if m = ''m'' then Some sample_art else None)"
    using sample_db_inv(2) by (auto simp: walk_gdbm_same arts_def mem_gdbm_def sample_db_def db_init_def key_of_def)
qed

theorem doExpire_together_witness:
  "\<exists>n'. doExpire sample_nenv sample_noffle = Some n' \<and> group_has nf_env (nf_sp n') ''ab'' [hd nf_overs] 2"
proof -
  let ?d = "db_dbf sample_db"
  let ?alive = "\<lambda>m. case arts walk_gdbm ?d m of None \<Rightarrow> None | Some a \<Rightarrow> if survives day_config 1000 a then Some a else None"
  have d: "?d = (\<lambda>_. None)(key_of ''m'' \<mapsto> art_image sample_art)" by (simp add: sample_db_def db_init_def)
  have t: "ne_tmp sample_nenv = Some (\<lambda>_. None)" "ne_reopens sample_nenv" "ne_overviews sample_nenv = Some (''.'' # ''..'' # [''ab''])"
    "g_fetch walk_gdbm (\<lambda>_. None) = (\<lambda>_. None)"
    by (simp_all add: sample_nenv_def walk_gdbm_def mem_gdbm_def)
  have w: "key_walk (ne_bound sample_nenv) walk_gdbm ?d (g_firstkey walk_gdbm ?d) = Some (map key_of [''m''])"
    by (simp add: sample_nenv_def walk_gdbm_def mem_gdbm_def d)
  have all: "\<forall>m. arts walk_gdbm ?d m \<noteq> None \<longrightarrow> m \<in> set [''m'']" by (simp add: nf_alive)
  have ok: "\<forall>m \<in> set [''m'']. entry_ok walk_gdbm ?d day_config m"
    by (auto simp: entry_ok_def nf_alive pats_defined_def sample_xref sample_groups day_config_def sample_pat list_ok_def SEP_CHAR_def MAXCHAR_def)
  have c: "\<forall>e \<in> set (expire day_config). 0 \<le> ex_days e" "autoUnsubscribe day_config = 0" "int_ok (autoUnsubscribeDays day_config * 24 * 3600)"
    by (simp_all add: day_config_def config_init_def int_ok_def INT_MAX_def)
  have m: "\<forall>g \<in> set [''ab'']. \<forall>ov \<in> set nf_overs. ov_msgId ov \<noteq> []" by (simp add: nf_overs_def Ov_setNumb_def sample_over_def)
  have f: "Fetchlist_read (sp_file nf_spool (nf_fetchlist sample_nenv)) \<noteq> None"
    by (simp add: nf_fetchlist_def str_of_def MAXCHAR_def nf_spool_def Fetchlist_read_def)
  have "filter (\<lambda>ov. ?alive (ov_msgId ov) \<noteq> None) nf_overs = [hd nf_overs]"
    by (simp add: nf_overs_def Ov_setNumb_def sample_over_def nf_alive)
  moreover have "\<exists>n'. doExpire sample_nenv sample_noffle = Some n' \<and> arts (ndlib sample_nenv) (db_dbf (sp_db (nf_sp n'))) = ?alive
      \<and> groups_have sample_nenv n' [''ab''] (\<lambda>g. filter (\<lambda>ov. ?alive (ov_msgId ov) \<noteq> None) nf_overs) (\<lambda>_. 2)"
    by (rule doExpire_together [where d = ?d and d0 = "\<lambda>_. None" and ms = "[''m'']"]; (simp only: sample_noffle_simps)?;
        (fact nf_spool_inv t w all ok c m f nf_groups | simp)?)
  ultimately obtain n' where "doExpire sample_nenv sample_noffle = Some n'" "groups_have sample_nenv n' [''ab''] (\<lambda>g. [hd nf_overs]) (\<lambda>_. 2)"
    by auto
  then show ?thesis by (auto simp: groups_have_def)
qed

subsection \<open>Deleting a group\<close>

text \<open>A group whose numbers are all there, from the first to the last.\<close>

definition no_gap :: "Over list \<Rightarrow> int \<Rightarrow> bool" where
  "no_gap ovs l \<longleftrightarrow> map ov_numb ovs = [l + 1 - int (length ovs)..l]"

lemma length_somes: "length (somes es) \<le> length es"
  by (induction es rule: somes.induct) auto

lemma somes_full: "length (somes es) = length es \<Longrightarrow> es = map Some (somes es)"
proof (induction es rule: somes.induct)
  case (2 es)
  with length_somes [of es] show ?case by simp
qed auto

lemma group_read_full:
  assumes "env_ok E" "spool_inv E s" "group_name E n" "group_has E s n ovs l" "no_gap ovs l" "sp_Cont_read E n s = Some s'"
  shows "elem (sp_cont s') = map Some ovs"
proof -
  obtain s1 where "sp_Cont_read E n s = Some s1" "cont_inv (sp_cont s1)" "last_nr (sp_cont s1) = l" "somes (elem (sp_cont s1)) = ovs"
    using sp_Cont_read_group [OF assms(1-4)] by blast
  then have c: "cont_inv (sp_cont s')" "last_nr (sp_cont s') = l" "somes (elem (sp_cont s')) = ovs" using assms(6) by simp_all
  have f: "first (sp_cont s') = vecFirst (sp_cont s')" by (rule sp_Cont_read_first [OF assms(6)])
  show ?thesis
  proof (cases "ovs = []")
    case True
    from assms(6) obtain k g c1 where r: "Grp_last (gdbm_g E) n (sp_grp s) = Some (k, g)"
      "Cont_read (spool_dir E) n None k (sp_cont s) = Some c1" "sp_cont s' = c1"
      using assms(4) True by (auto simp: sp_Cont_read_def group_has_def split: bind_splits)
    from r(2) have "elem c1 = []" by (auto simp: Cont_read_def setupEmpty_def clearCont_def Let_def split: bind_splits)
    with r True show ?thesis by simp
  next
    case False
    from assms(6) obtain k g c1 where r: "Grp_last (gdbm_g E) n (sp_grp s) = Some (k, g)"
      "Cont_read (spool_dir E) n (Some (concat (map Ov_write ovs))) k (sp_cont s) = Some c1" "sp_cont s' = c1"
      using assms(4) False by (auto simp: sp_Cont_read_def group_has_def split: bind_splits)
    have g: "list_all ov_fits ovs" "0 < ov_numb (hd ovs)" "sorted_wrt (<) (map ov_numb ovs)" "ov_numb (last ovs) \<le> l"
      using assms(4) False by (auto simp: group_has_def list_all_iff plain_ov_def)
    have nm: "length n < MAXCHAR" "name_ok n" using assms(3) by (auto simp: group_name_def name_ok_def)
    have "k = l" using getter_refines [of "gdbm_g E" "sp_grp s" n 0 "\<lambda>i. sint (e_last (entry i))"] assms(2,4) nm(2) r(1)
      by (auto simp: spool_inv_def group_has_def Grp_last_def)
    with Cont_read_sorted [OF nm(1) False g, of "spool_dir E" "sp_cont s"] r(2,3) have "first (sp_cont s') = ov_numb (hd ovs)" by auto
    moreover have "ov_numb (hd ovs) = l + 1 - int (length ovs)"
      using assms(5) False by (cases ovs) (auto simp: no_gap_def upto_rec1 [of "l - int _"])
    ultimately have "length (elem (sp_cont s')) = length ovs" using c(1,2) f by (simp add: cont_inv_def)
    with somes_full [of "elem (sp_cont s')"] c(3) show ?thesis by simp
  qed
qed

text \<open>An article that no other group has; the items of Xref are a group and a number each.\<close>

definition alone :: "(cstr \<Rightarrow> art option) \<Rightarrow> cstr \<Rightarrow> bool" where
  "alone A m \<longleftrightarrow> (case A m of None \<Rightarrow> True | Some a \<Rightarrow> length (words_of (is_sep '' '') (a_xref a)) \<le> 1)"

definition without :: "cstr list \<Rightarrow> (cstr \<Rightarrow> art option) \<Rightarrow> cstr \<Rightarrow> art option" where
  "without ms A = (\<lambda>m. if m \<in> set ms \<and> alone A m then None else A m)"

lemma without_snoc: "without (ms @ [m]) A = (if alone A m then (without ms A)(m := None) else without ms A)"
  by (auto simp: without_def)

lemma Itl_count_words: "list_ok '' '' x \<Longrightarrow> Itl_count (new_Itl x '' '') = length (words_of (is_sep '' '') x)"
  using separate_words [of "'' ''" x] by (auto simp: new_Itl_def Itl_count_def Let_def split: prod.splits)

lemma Db_delete_alone:
  assumes "gdbm_laws lib" "db_inv lib db" "m \<noteq> []" "length m < MAXCHAR" "arts lib (db_dbf db) = without ms A"
    "\<forall>a. A m = Some a \<longrightarrow> list_ok '' '' (a_xref a)"
  shows "\<exists>x db1. Db_xref lib m db = Some (x, db1)
    \<and> db_inv lib (if Itl_count (new_Itl x '' '') > 1 then db1 else Db_delete lib m db1)
    \<and> arts lib (db_dbf (if Itl_count (new_Itl x '' '') > 1 then db1 else Db_delete lib m db1)) = without (ms @ [m]) A"
proof -
  obtain db1 where x: "Db_xref lib m db = Some (case without ms A m of None \<Rightarrow> [] | Some a \<Rightarrow> a_xref a, db1)"
    "db_inv lib db1" "db_dbf db1 = db_dbf db"
    using art_getter_refines [OF assms(2-4), of "[]" a_xref] assms(5) by (auto simp: Db_xref_def)
  have d: "db_inv lib (Db_delete lib m db1)" "arts lib (db_dbf (Db_delete lib m db1)) = (without ms A)(m := None)"
    using Db_delete_refines [OF assms(1) x(2) assms(3)] assms(5) x(3) by auto
  show ?thesis
  proof (cases "without ms A m")
    case None
    have "Itl_count (new_Itl [] '' '') = 0" by (simp add: Itl_count_words list_ok_def)
    moreover have "(without ms A)(m := None) = without (ms @ [m]) A"
      using None by (auto simp: without_snoc fun_upd_idem)
    ultimately show ?thesis using x d None by (intro exI [of _ "[]"] exI [of _ db1]) simp
  next
    case (Some a)
    then have a: "A m = Some a" by (auto simp: without_def split: if_splits)
    with assms(6) have n: "Itl_count (new_Itl (a_xref a) '' '') = length (words_of (is_sep '' '') (a_xref a))" by (simp add: Itl_count_words)
    have "(if Itl_count (new_Itl (a_xref a) '' '') > 1 then without ms A else (without ms A)(m := None)) = without (ms @ [m]) A"
      using a n by (auto simp: without_snoc alone_def)
    with x d Some assms(5) show ?thesis
      by (intro exI [of _ "a_xref a"] exI [of _ db1]) (auto split: if_splits)
  qed
qed

definition deleting :: "('g, 'd) nenv \<Rightarrow> Over list \<Rightarrow> (cstr \<Rightarrow> art option) \<Rightarrow> ('g, 'd) spool \<Rightarrow> int \<Rightarrow> ('g, 'd) spool \<Rightarrow> bool" where
  "deleting N ovs A s0 i s \<longleftrightarrow> halfway (\<lambda>_. None) (sp_cont s0) i (sp_cont s) \<and> sp_grp s = sp_grp s0 \<and> sp_file s = sp_file s0
     \<and> db_inv (ndlib N) (sp_db s)
     \<and> arts (ndlib N) (db_dbf (sp_db s)) = without (map ov_msgId (take (nat (i - vecFirst (sp_cont s0))) ovs)) A"

lemma delete_art_step:
  assumes "gdbm_laws (ndlib N)" "elem (sp_cont s0) = map Some ovs" "cont_inv (sp_cont s0)" "first (sp_cont s0) = vecFirst (sp_cont s0)"
    "\<forall>ov \<in> set ovs. ov_msgId ov \<noteq> [] \<and> length (ov_msgId ov) < MAXCHAR" "\<forall>m a. A m = Some a \<longrightarrow> list_ok '' '' (a_xref a)"
    "first (sp_cont s0) \<le> i" "i \<le> last_nr (sp_cont s0)" "deleting N ovs A s0 i s"
  shows "\<exists>s1. delete_art N i s = Some s1 \<and> deleting N ovs A s0 (i + 1) s1"
proof -
  let ?c0 = "sp_cont s0" and ?k = "nat (i - vecFirst (sp_cont s0))"
  have h: "halfway (\<lambda>_. None) ?c0 i (sp_cont s)" using assms(9) by (simp add: deleting_def)
  from halfway_elem [OF h assms(4,7,8)] assms(2) have k: "?k < length ovs" "Cont_get (sp_cont s) i = Some (Some (ovs ! ?k))" by auto
  then have m: "ov_msgId (ovs ! ?k) \<noteq> []" "length (ov_msgId (ovs ! ?k)) < MAXCHAR" using assms(5) by auto
  obtain c1 where c1: "Cont_delete (sp_cont s) i = Some c1" "halfway (\<lambda>_. None) ?c0 (i + 1) c1"
    using halfway_delete [OF h assms(4,7,8)] by auto
  from Db_delete_alone [OF assms(1) _ m, of "sp_db s" "map ov_msgId (take ?k ovs)" A] assms(6,9) obtain x db1 where
    x: "Db_xref (ndlib N) (ov_msgId (ovs ! ?k)) (sp_db s) = Some (x, db1)"
      "db_inv (ndlib N) (if Itl_count (new_Itl x '' '') > 1 then db1 else Db_delete (ndlib N) (ov_msgId (ovs ! ?k)) db1)"
      "arts (ndlib N) (db_dbf (if Itl_count (new_Itl x '' '') > 1 then db1 else Db_delete (ndlib N) (ov_msgId (ovs ! ?k)) db1))
        = without (map ov_msgId (take ?k ovs) @ [ov_msgId (ovs ! ?k)]) A" by (auto simp: deleting_def)
  have s: "nat (i + 1 - vecFirst ?c0) = Suc ?k" using assms(4,7) by simp
  let ?s1 = "s\<lparr>sp_cont := c1, sp_db := (if Itl_count (new_Itl x '' '') > 1 then db1 else Db_delete (ndlib N) (ov_msgId (ovs ! ?k)) db1)\<rparr>"
  have "delete_art N i s = Some ?s1" using k(2) m c1(1) x(1) by (simp add: delete_art_def Utl_cpyStr_eq)
  moreover have "map ov_msgId (take (Suc ?k) ovs) = map ov_msgId (take ?k ovs) @ [ov_msgId (ovs ! ?k)]"
    using k(1) by (simp add: take_Suc_conv_app_nth)
  then have "deleting N ovs A s0 (i + 1) ?s1" using assms(9) c1(2) x(2,3) by (simp add: deleting_def s del: take_Suc)
  ultimately show ?thesis by blast
qed

lemma delete_group_arts:
  assumes "env_ok (nenv_env N)" "spool_inv (nenv_env N) (nf_sp n)" "group_arg N name0 = Some name" "group_name (nenv_env N) name"
    "group_has (nenv_env N) (nf_sp n) name ovs l" "no_gap ovs l" "\<forall>ov \<in> set ovs. ov_msgId ov \<noteq> []"
    "\<forall>m a. arts (ndlib N) (db_dbf (sp_db (nf_sp n))) m = Some a \<longrightarrow> list_ok '' '' (a_xref a)"
  shows "\<exists>n'. doDeleteLocalGroup N name0 n = Some n'
    \<and> info (nglib N) (dbf (sp_grp (nf_sp n'))) = (info (nglib N) (dbf (sp_grp (nf_sp n))))(name := None)
    \<and> sp_file (nf_sp n') = (sp_file (nf_sp n))(ov_path (nenv_env N) name := None)
    \<and> arts (ndlib N) (db_dbf (sp_db (nf_sp n')))
        = (let A = arts (ndlib N) (db_dbf (sp_db (nf_sp n))) in (\<lambda>m. if m \<in> ov_msgId ` set ovs \<and> alone A m then None else A m))"
proof -
  let ?E = "nenv_env N" and ?A = "arts (ndlib N) (db_dbf (sp_db (nf_sp n)))"
  obtain s1 where s1: "sp_Cont_read ?E name (nf_sp n) = Some s1" "spool_inv ?E s1" "sp_file s1 = sp_file (nf_sp n)"
    "dbf (sp_grp s1) = dbf (sp_grp (nf_sp n))" "sp_db s1 = sp_db (nf_sp n)" "cont_inv (sp_cont s1)" "last_nr (sp_cont s1) = l"
    "grp_file (sp_cont s1) = ov_path ?E name"
    using sp_Cont_read_group [OF assms(1,2,4,5)] by blast
  note f = sp_Cont_read_first [OF s1(1)] and e = group_read_full [OF assms(1,2,4,5,6) s1(1)]
  have laws: "gdbm_laws (ndlib N)" "gdbm_laws (nglib N)" using assms(1) by (simp_all add: env_ok_def)
  have m: "\<forall>ov \<in> set ovs. ov_msgId ov \<noteq> [] \<and> length (ov_msgId ov) < MAXCHAR"
    using assms(5,7) by (auto simp: group_has_def list_all_iff plain_ov_def ov_fits_def ov_ok_def field_ok_def)
  have "deleting N ovs ?A s1 (first (sp_cont s1)) s1"
    using s1(2,5) halfway_start [OF s1(6) f] f by (simp add: deleting_def spool_inv_def without_def)
  moreover have "first (sp_cont s1) \<le> last_nr (sp_cont s1) + 1" using s1(6) f by (simp add: cont_inv_def)
  ultimately obtain s2 where s2: "numb_loop (delete_art N) [first (sp_cont s1)..last_nr (sp_cont s1)] s1 = Some s2"
    "deleting N ovs ?A s1 (last_nr (sp_cont s1) + 1) s2"
    using numb_loop_upto [of "first (sp_cont s1)" "last_nr (sp_cont s1)" "deleting N ovs ?A s1" s1 "delete_art N"]
      delete_art_step [OF laws(1) e s1(6) f m assms(8)] by blast
  from s2(2) have h: "halfway (\<lambda>_. None) (sp_cont s1) (last_nr (sp_cont s1) + 1) (sp_cont s2)" "sp_grp s2 = sp_grp s1" "sp_file s2 = sp_file s1"
    and a: "arts (ndlib N) (db_dbf (sp_db s2)) = without (map ov_msgId (take (nat (l + 1 - vecFirst (sp_cont s1))) ovs)) ?A"
    using s1(7) by (simp_all add: deleting_def)
  have "nat (l + 1 - vecFirst (sp_cont s1)) = length ovs" using s1(6,7) e by (simp add: cont_inv_def)
  with a have a: "arts (ndlib N) (db_dbf (sp_db s2)) = without (map ov_msgId ovs) ?A" by simp
  have "somes (map (\<lambda>_. None) es) = []" for es :: "Over option list" by (induction es) auto
  with halfway_end [OF h(1)] have "somes (elem (sp_cont s2)) = []" by simp
  with Cont_write_somes [of "sp_cont s2" "sp_file s2 (ov_path ?E name)"] h(1) obtain c' where
    "Cont_write True (\<lambda>_. True) (sp_cont s2) (sp_file s2 (ov_path ?E name)) = (c', None)" by (auto simp: halfway_def)
  moreover have "grp_file (sp_cont s2) = ov_path ?E name" using h(1) s1(8) by (simp add: halfway_def)
  ultimately have w: "sp_Cont_write ?E s2 = s2\<lparr>sp_cont := c', sp_file := (sp_file s2)(ov_path ?E name := None)\<rparr>"
    using assms(1) by (simp add: sp_Cont_write_def env_ok_def)
  let ?s = "(sp_Cont_write ?E s2)\<lparr>sp_grp := Grp_delete (nglib N) name (sp_grp s2)\<rparr>"
  have "info (nglib N) (dbf (Grp_delete (nglib N) name g)) = (info (nglib N) (dbf g))(name := None)" for g
    using laws(2) by (auto simp: gdbm_laws_def Grp_delete_def info_def fun_eq_iff)
  then have "info (nglib N) (dbf (sp_grp ?s)) = (info (nglib N) (dbf (sp_grp (nf_sp n))))(name := None)"
    using h(2) s1(4) by simp
  moreover have "doDeleteLocalGroup N name0 n = Some (say (''Group '' @ quoted name @ '' deleted.'' @ [LF]) (set_sp n ?s))"
    using assms(3) Grp_exists_info [OF assms(1,2,4,5)] s1(1) s2(1) w by (simp add: doDeleteLocalGroup_def Let_def)
  moreover have "nf_sp (say t (set_sp n ?s)) = ?s" for t by (simp add: say_def set_sp_def put_sp_def)
  ultimately show ?thesis using w h(3) s1(3) a by (auto simp: Let_def without_def image_iff fun_eq_iff)
qed

lemma numb_loop_Some:
  assumes "numb_loop f [a..b] x = Some z" "I a x"
    "\<And>i y z. a \<le> i \<Longrightarrow> i \<le> b \<Longrightarrow> I i y \<Longrightarrow> f i y = Some z \<Longrightarrow> I (i + 1) z \<and> Q i"
  shows "\<forall>i. a \<le> i \<and> i \<le> b \<longrightarrow> Q i"
  using assms
proof (induction "nat (b + 1 - a)" arbitrary: a x)
  case (Suc k)
  then have ab: "a \<le> b" by simp
  with Suc.prems(1) obtain y where y: "f a x = Some y" "numb_loop f [a + 1..b] y = Some z"
    by (auto simp: upto_rec1 split: bind_splits)
  from Suc.prems(3) [OF _ ab Suc.prems(2) y(1)] have q: "I (a + 1) y" "Q a" by auto
  have k: "k = nat (b + 1 - (a + 1))" using Suc.hyps(2) by simp
  have "\<forall>i. a + 1 \<le> i \<and> i \<le> b \<longrightarrow> Q i"
    by (rule Suc.hyps(1) [OF k y(2) q(1)]) (use Suc.prems(3) in auto)
  with q(2) show ?case by (metis add1_zle_eq order_le_less)
qed auto

lemma all_there: "None \<notin> set es \<Longrightarrow> es = map Some (somes es)"
  by (induction es rule: somes.induct) auto

lemma delete_art_there:
  assumes "first c0 = vecFirst c0" "first c0 \<le> i" "i \<le> last_nr c0" "halfway (\<lambda>_. None) c0 i (sp_cont s)" "delete_art N i s = Some s1"
  shows "halfway (\<lambda>_. None) c0 (i + 1) (sp_cont s1) \<and> elem c0 ! nat (i - vecFirst c0) \<noteq> None"
proof -
  from halfway_elem [OF assms(4,1-3)] halfway_delete [OF assms(4,1-3)] assms(5) show ?thesis
    by (auto simp: delete_art_def split: bind_splits option.splits)
qed

lemma no_gap_full:
  assumes "cont_inv c" "elem c = map Some ovs" "last_nr c = l"
  shows "no_gap ovs l"
proof -
  have v: "vecFirst c = l + 1 - int (length ovs)" using assms by (simp add: cont_inv_def)
  have "\<forall>i < length ovs. ov_numb (ovs ! i) = vecFirst c + int i" using assms(1,2) by (simp add: cont_inv_def)
  then have "map ov_numb ovs = [vecFirst c..l]"
    by (intro nth_equalityI) (simp_all add: v nth_upto)
  then show ?thesis by (simp add: no_gap_def v)
qed

lemma delete_group_gap:
  assumes "env_ok (nenv_env N)" "spool_inv (nenv_env N) (nf_sp n)" "group_arg N name0 = Some name" "group_name (nenv_env N) name"
    "group_has (nenv_env N) (nf_sp n) name ovs l" "doDeleteLocalGroup N name0 n \<noteq> None"
  shows "no_gap ovs l"
proof -
  let ?E = "nenv_env N"
  obtain s1 where s1: "sp_Cont_read ?E name (nf_sp n) = Some s1" "cont_inv (sp_cont s1)" "last_nr (sp_cont s1) = l" "somes (elem (sp_cont s1)) = ovs"
    using sp_Cont_read_group [OF assms(1,2,4,5)] by blast
  note f = sp_Cont_read_first [OF s1(1)]
  obtain s2 where "numb_loop (delete_art N) [first (sp_cont s1)..last_nr (sp_cont s1)] s1 = Some s2"
    using assms(3,6) Grp_exists_info [OF assms(1,2,4,5)] s1(1) by (auto simp: doDeleteLocalGroup_def split: bind_splits)
  from numb_loop_Some [OF this, of "\<lambda>i s. halfway (\<lambda>_. None) (sp_cont s1) i (sp_cont s)" "\<lambda>i. elem (sp_cont s1) ! nat (i - vecFirst (sp_cont s1)) \<noteq> None"]
  have t: "\<forall>i. first (sp_cont s1) \<le> i \<and> i \<le> last_nr (sp_cont s1) \<longrightarrow> elem (sp_cont s1) ! nat (i - vecFirst (sp_cont s1)) \<noteq> None"
    using halfway_start [OF s1(2) f] delete_art_there [OF f] by blast
  have "elem (sp_cont s1) ! k \<noteq> None" if "k < length (elem (sp_cont s1))" for k
    using t [rule_format, of "vecFirst (sp_cont s1) + int k"] that s1(2) f by (auto simp: cont_inv_def)
  then have "None \<notin> set (elem (sp_cont s1))" by (metis in_set_conv_nth)
  from all_there [OF this] no_gap_full [OF s1(2) _ s1(3)] s1(4) show ?thesis by metis
qed

text \<open>C14. Deleting a group deletes its overviews, its entry in the group data base, and of its articles exactly those
  that no other group has; articles that were posted to other groups too and all other files stay as they are.  But
  this is only defined when no number of the group is missing: for one without an overview, as expiry leaves them,
  the entry of a message ID that was never set is deleted.\<close>

theorem doDeleteLocalGroup_deletes:
  assumes "env_ok (nenv_env N)" "spool_inv (nenv_env N) (nf_sp n)" "group_arg N name0 = Some name" "group_name (nenv_env N) name"
    "group_has (nenv_env N) (nf_sp n) name ovs l" "\<forall>ov \<in> set ovs. ov_msgId ov \<noteq> []"
    "A = arts (ndlib N) (db_dbf (sp_db (nf_sp n)))" "\<forall>m a. A m = Some a \<longrightarrow> list_ok '' '' (a_xref a)"
  shows "(if no_gap ovs l then
      \<exists>n'. doDeleteLocalGroup N name0 n = Some n'
        \<and> info (nglib N) (dbf (sp_grp (nf_sp n'))) = (info (nglib N) (dbf (sp_grp (nf_sp n))))(name := None)
        \<and> sp_file (nf_sp n') = (sp_file (nf_sp n))(ov_path (nenv_env N) name := None)
        \<and> arts (ndlib N) (db_dbf (sp_db (nf_sp n'))) = (\<lambda>m. if m \<in> ov_msgId ` set ovs \<and> alone A m then None else A m)
    else doDeleteLocalGroup N name0 n = None)"
  using delete_group_arts [OF assms(1-5) _ assms(6)] delete_group_gap [OF assms(1-5)] assms(8) unfolding assms(7)
  by (auto simp: Let_def simp del: not_None_eq)

theorem doDeleteLocalGroup_deletes_witness:
  "\<exists>n'. doDeleteLocalGroup sample_nenv '' AB'' sample_noffle = Some n' \<and> arts walk_gdbm (db_dbf (sp_db (nf_sp n'))) ''m'' = None"
proof -
  have g: "group_arg sample_nenv '' AB'' = Some ''ab''"
    by (simp add: group_arg_def Utl_cpyStr_eq MAXCHAR_def Utl_toLower_def ctolower_def) (simp add: nf_env_def post_env_def, code_simp)
  have h: "group_name nf_env ''ab''" "group_has nf_env nf_spool ''ab'' nf_overs 2"
    using nf_groups by (simp_all add: groups_have_def)
  have m: "\<forall>ov \<in> set nf_overs. ov_msgId ov \<noteq> []" "no_gap nf_overs 2"
    by (simp_all add: nf_overs_def Ov_setNumb_def no_gap_def upto_rec1)
  have x: "\<forall>m a. arts walk_gdbm (db_dbf sample_db) m = Some a \<longrightarrow> list_ok '' '' (a_xref a)"
    by (simp add: nf_alive sample_xref list_ok_def SEP_CHAR_def)
  have "alone (arts walk_gdbm (db_dbf sample_db)) ''m''"
    by (simp add: alone_def nf_alive sample_xref is_sep_def)
  with doDeleteLocalGroup_deletes [of sample_nenv sample_noffle "'' AB''" "''ab''" nf_overs 2, OF _ _ g _ _ m(1) refl] nf_spool_inv h x m(2)
  show ?thesis by (fastforce simp: nf_overs_def Ov_setNumb_def)
qed

subsection \<open>Subscribing\<close>

lemma Fetchlist_add_set:
  assumes "distinct (names fl)" "length k < MAXCHAR"
  shows "\<exists>b fl'. Fetchlist_add k m fl = Some (b, fl') \<and> distinct (names fl')
    \<and> set fl' = insert \<lparr>el_name = k, el_mode = m\<rparr> {e \<in> set fl. el_name e \<noteq> k}"
proof (cases "searchElem k fl")
  case None
  then have "k \<notin> set (names fl)" by (simp add: searchElem_None)
  with None assms show ?thesis by (auto simp: Fetchlist_add_def appGrp_def strcpy_Str_def)
next
  case (Some i)
  note i = searchElem_Some [OF Some]
  let ?e = "\<lparr>el_name = k, el_mode = m\<rparr>"
  have n: "names (fl[i := ?e]) = names fl" using i by (simp add: map_update list_update_same_conv)
  have d: "distinct fl" using assms(1) by (simp add: distinct_map)
  have "{e \<in> set fl. el_name e \<noteq> k} = set fl - {fl ! i}"
    using i assms(1) by (auto simp: distinct_map dest: inj_onD [of el_name "set fl" _ "fl ! i"])
  then have "set (fl[i := ?e]) = insert ?e {e \<in> set fl. el_name e \<noteq> k}" using set_update_distinct [OF d] i by simp
  with Some assms n show ?thesis by (auto simp: Fetchlist_add_def strcpy_Str_def)
qed

lemma Grp_setLastAccess_ok:
  assumes "gdbm_laws lib" "stores_succeed lib" "grp_inv lib g" "name_ok k"
  shows "\<exists>g'. Grp_setLastAccess t lib k g = Some g'"
  using setter_refines [OF assms, of "\<lambda>i. Some (i\<lparr>entry := (entry i)\<lparr>e_lastAccess := word_of_int t\<rparr>\<rparr>)"]
  by (auto simp: Grp_setLastAccess_def ginfo_ok_def)

lemma close_file [simp]: "sp_file (nf_sp (closeNoffle N b n)) = sp_file (nf_sp n)"
  by (simp add: closeNoffle_def set_req_def put_cl_def Let_def)

lemma doSubscribe_file:
  assumes "env_ok (nenv_env N)" "grp_inv (nglib N) (sp_grp (nf_sp n))" "name_ok grp" "Grp_exists (nglib N) grp (sp_grp (nf_sp n))"
    "Fetchlist_read (sp_file (nf_sp n) (nf_fetchlist N)) = Some fl" "distinct (names fl)" "list_all elem_ok fl"
    "elem_ok \<lparr>el_name = grp, el_mode = mode\<rparr>"
  shows "\<exists>n' fl'. doSubscribe N grp mode n = Some (True, n') \<and> Fetchlist_read (sp_file (nf_sp n') (nf_fetchlist N)) = Some fl'
    \<and> distinct (names fl') \<and> set fl' = insert \<lparr>el_name = grp, el_mode = mode\<rparr> {e \<in> set fl. el_name e \<noteq> grp}"
proof -
  have len: "length grp < MAXCHAR" using assms(3) by (simp add: name_ok_def)
  obtain b fl1 where a: "Fetchlist_add grp mode fl = Some (b, fl1)" "distinct (names fl1)"
    "set fl1 = insert \<lparr>el_name = grp, el_mode = mode\<rparr> {e \<in> set fl. el_name e \<noteq> grp}"
    using Fetchlist_add_set [OF assms(6) len, of mode] by blast
  have ok: "list_all elem_ok fl1" using a(3) assms(7,8) by (auto simp: list_all_iff)
  let ?p = "nf_fetchlist N"
  obtain fl2 b2 f where w: "Fetchlist_write True fl1 (sp_file (nf_sp n) ?p) = (fl2, b2, f)" by (metis surj_pair)
  from Fetchlist_write_read [OF ok w] have r: "Fetchlist_read f = Some fl2" "b2" "mset fl2 = mset fl1" by auto
  have fl2: "distinct (names fl2)" "set fl2 = set fl1"
    using r(3) a(2) by (metis mset_map mset_eq_imp_distinct_iff) (use r(3) mset_eq_setD in blast)
  have cw: "can_write (nenv_env N) ?p" using assms(1) by (simp add: env_ok_def)
  let ?n2 = "say (if b then ''Adding '' @ grp @ '' to fetch list in '' @ mode_word mode @ '' mode.'' @ [LF]
      else grp @ '' is already in fetch list. Mode is now: '' @ mode_word mode @ ''.'' @ [LF]) (n\<lparr>nf_fl := fl1\<rparr>)"
  have s2: "nf_sp ?n2 = nf_sp n" "nf_fl ?n2 = fl1" by (simp_all add: say_def)
  let ?n3 = "save_list N ?n2"
  have s3: "nf_sp ?n3 = (nf_sp n)\<lparr>sp_file := (sp_file (nf_sp n))(?p := f)\<rparr>"
    unfolding save_list_def nf_Fetchlist_write_def using w r(2) cw by (simp add: s2)
  obtain g where g: "Grp_setLastAccess (sint (clock (nenv_env N))) (nglib N) grp (sp_grp (nf_sp ?n3)) = Some g"
    using Grp_setLastAccess_ok [of "nglib N" "sp_grp (nf_sp n)" grp] assms(1-3) by (auto simp: s3 env_ok_def)
  have "doSubscribe N grp mode n = Some (True, set_grps ?n3 g)"
    using assms(4,5) a(1) g by (simp add: doSubscribe_def nf_Fetchlist_read_def)
  with r(1) fl2 a(3) show ?thesis by (auto simp: s3)
qed

text \<open>C18. Subscribing to a group that the data base has puts it on the fetch list in the mode of the option, in the place of an
  entry it had there, with all others as they were; but the exit status is the one of a failure when the mode is \<open>over\<close> or
  \<open>thread\<close>, because the truth value is given out, and 0 when the group is unknown and nothing was done.\<close>

theorem noffle_subscribe_status:
  assumes "initNoffle N True n = Some (True, n1)" "env_ok (nenv_env N)" "grp_inv (nglib N) (sp_grp (nf_sp n1))" "name_ok grp"
    "Fetchlist_read (sp_file (nf_sp n1) (nf_fetchlist N)) = Some fl" "distinct (names fl)" "list_all elem_ok fl"
    "elem_ok \<lparr>el_name = grp, el_mode = mode\<rparr>"
    "c = (case mode of OVER \<Rightarrow> CHR ''s'' | FULL \<Rightarrow> CHR ''S'' | THREAD \<Rightarrow> CHR ''t'')"
  shows "\<exists>n' st. noffle_main N (Some c) (Some grp) argv n = Some (st, n')
    \<and> (if Grp_exists (nglib N) grp (sp_grp (nf_sp n1))
       then st = (if mode = FULL then EXIT_SUCCESS else EXIT_FAILURE)
         \<and> (\<exists>fl'. Fetchlist_read (sp_file (nf_sp n') (nf_fetchlist N)) = Some fl' \<and> distinct (names fl')
               \<and> set fl' = insert \<lparr>el_name = grp, el_mode = mode\<rparr> {e \<in> set fl. el_name e \<noteq> grp})
       else st = EXIT_SUCCESS \<and> sp_file (nf_sp n') = sp_file (nf_sp n1))"
proof (cases "Grp_exists (nglib N) grp (sp_grp (nf_sp n1))")
  case True
  obtain n' fl' where s: "doSubscribe N grp mode n1 = Some (True, n')" "Fetchlist_read (sp_file (nf_sp n') (nf_fetchlist N)) = Some fl'"
    "distinct (names fl')" "set fl' = insert \<lparr>el_name = grp, el_mode = mode\<rparr> {e \<in> set fl. el_name e \<noteq> grp}"
    using doSubscribe_file [OF assms(2-4) True assms(5-8)] by blast
  have "noffle_main N (Some c) (Some grp) argv n = Some (if mode = FULL then EXIT_SUCCESS else EXIT_FAILURE, closeNoffle N True n')"
    using s(1) assms(1) unfolding assms(9)
    by (cases mode) (simp_all add: noffle_main_def do_option_def with_arg_def bool_status_def succeed_def EXIT_SUCCESS_def EXIT_FAILURE_def)
  with True s show ?thesis by auto
next
  case False
  let ?n = "complain (grp @ '' is not available at remote servers.'' @ [LF]) n1"
  have "noffle_main N (Some c) (Some grp) argv n = Some (EXIT_SUCCESS, closeNoffle N True ?n)"
    using False assms(1) unfolding assms(9)
    by (cases mode) (simp_all add: noffle_main_def do_option_def with_arg_def bool_status_def succeed_def doSubscribe_def EXIT_SUCCESS_def EXIT_FAILURE_def)
  moreover have "sp_file (nf_sp ?n) = sp_file (nf_sp n1)" by (simp add: complain_def)
  ultimately show ?thesis using False by simp
qed

theorem noffle_subscribe_status_witness:
  "\<exists>n' st fl'. noffle_main sample_nenv (Some (CHR ''s'')) (Some ''ab'') [] sample_noffle = Some (st, n') \<and> st = 1
     \<and> Fetchlist_read (sp_file (nf_sp n') (nf_fetchlist sample_nenv)) = Some fl' \<and> set fl' = {\<lparr>el_name = ''ab'', el_mode = OVER\<rparr>}"
proof -
  have q: "Req_open (nf_req sample_noffle) = Some (nf_req sample_noffle)"
    by (simp add: sample_noffle_def fetch_start_def client_init_def no_requests_def Req_open_def cleanupReqserv_def)
  then obtain n1 where i: "initNoffle sample_nenv True sample_noffle = Some (True, n1)" "sp_grp (nf_sp n1) = sp_grp nf_spool" "sp_file (nf_sp n1) = sp_file nf_spool"
    by (auto simp: initNoffle_def sample_nenv_def set_req_def put_cl_def sample_noffle_def fetch_start_def client_init_def)
  have g: "grp_inv mem_gdbm (sp_grp nf_spool)" "name_ok ''ab''" "Grp_exists mem_gdbm ''ab'' (sp_grp nf_spool)"
    using nf_spool_inv(2) by (simp_all add: spool_inv_def name_ok_def MAXCHAR_def Grp_exists_def nf_spool_def grp_init_def mem_gdbm_def)
  have f: "Fetchlist_read (sp_file nf_spool (nf_fetchlist sample_nenv)) = Some []"
    by (simp add: nf_fetchlist_def str_of_def MAXCHAR_def nf_spool_def Fetchlist_read_def)
  have e: "elem_ok \<lparr>el_name = ''ab'', el_mode = OVER\<rparr>" by (simp add: elem_ok_def cisspace_def MAXCHAR_def)
  from noffle_subscribe_status [OF i(1), of "''ab''" "[]" OVER "CHR ''s''" "[]"] i g f e nf_spool_inv(1) show ?thesis
    by (auto simp: EXIT_FAILURE_def)
qed

end
