(* ===== verification/Getopt.thy ===== *)
theory Getopt
  imports Bytes
begin

text \<open>
  The option parser of ucspi-tcp-0.88: \<^verbatim>\<open>subgetopt.c\<close>, which finds one option after the other in \<open>argv\<close>, and
  \<^verbatim>\<open>sgetopt.c\<close>, which adds the message for a wrong one.

  \<open>argv\<close> is the list of the words before the null pointer.  A pointer into a word is the text from there on.  The
  static variables are a record; \<open>None\<close> as the option is \<open>optdone\<close>, and \<open>None\<close> as a result is a read behind the end of
  a word.
\<close>

subsection \<open>One option: subgetopt.c\<close>

record getopt_state =
  optind :: nat
  optpos :: nat
  optarg :: "cstr option"
  optproblem :: char

definition getopt_init :: getopt_state where
  "getopt_init = \<lparr>optind = 1, optpos = 0, optarg = None, optproblem = NUL\<rparr>"

text \<open>A character of a word, its NUL included.\<close>

definition char_at :: "cstr \<Rightarrow> nat \<Rightarrow> char" where
  "char_at w i = (w @ [NUL]) ! i"

text \<open>The search in \<open>opts\<close>: whether the option takes an argument.\<close>

fun opt_search :: "char \<Rightarrow> cstr \<Rightarrow> bool option" where
  "opt_search c [] = None"
| "opt_search c (x # s) =
     (if c = x then Some (s \<noteq> [] \<and> hd s = CHR '':'')
      else case s of [] \<Rightarrow> None | y # t \<Rightarrow> if y = CHR '':'' then opt_search c t else opt_search c s)"

text \<open>From \<open>c = argv[optind][optpos]\<close> to the end.\<close>

definition take_opt :: "cstr list \<Rightarrow> cstr \<Rightarrow> getopt_state \<Rightarrow> char option \<times> getopt_state" where
  "take_opt argv opts g =
     (let w = argv ! optind g;
          c = char_at w (optpos g);
          g = g\<lparr>optpos := Suc (optpos g)\<rparr>
      in case opt_search c opts of
           None \<Rightarrow> (Some CHR ''?'', g\<lparr>optproblem := c\<rparr>)
         | Some False \<Rightarrow> (Some c, g)
         | Some True \<Rightarrow>
             (let a = drop (optpos g) w;
                  g = g\<lparr>optarg := Some a, optind := Suc (optind g), optpos := 0\<rparr>
              in if a \<noteq> [] then (Some c, g)
                 else if length argv \<le> optind g then (Some CHR ''?'', g\<lparr>optarg := None, optproblem := c\<rparr>)
                 else (Some c, g\<lparr>optarg := Some (argv ! optind g), optind := Suc (optind g)\<rparr>)))"

definition sgopt :: "cstr list \<Rightarrow> cstr \<Rightarrow> getopt_state \<Rightarrow> (char option \<times> getopt_state) option" where
  "sgopt argv opts g =
     (let g = g\<lparr>optarg := None\<rparr> in
      if length argv \<le> optind g then Some (None, g)
      else if length (argv ! optind g) < optpos g then None
      else let g = (if optpos g \<noteq> 0 \<and> char_at (argv ! optind g) (optpos g) = NUL
                    then g\<lparr>optind := Suc (optind g), optpos := 0\<rparr> else g) in
      if length argv \<le> optind g then Some (None, g)
      else if optpos g \<noteq> 0 then Some (take_opt argv opts g)
      else if char_at (argv ! optind g) 0 \<noteq> CHR ''-'' then Some (None, g)
      else let c = char_at (argv ! optind g) 1 in
      if c = CHR ''-'' \<or> c = NUL
      then Some (None, g\<lparr>optind := (if c \<noteq> NUL then Suc (optind g) else optind g)\<rparr>)
      else Some (take_opt argv opts (g\<lparr>optpos := 1\<rparr>)))"

subsection \<open>With messages: sgetopt.c\<close>

text \<open>What follows the last slash of the first word.\<close>

fun prog_loop :: "cstr \<Rightarrow> cstr \<Rightarrow> cstr" where
  "prog_loop p [] = p"
| "prog_loop p (c # s) = prog_loop (if c = CHR ''/'' then s else p) s"

definition optprogname :: "cstr list \<Rightarrow> cstr" where
  "optprogname argv = (case argv of [] \<Rightarrow> [] | w # _ \<Rightarrow> prog_loop w w)"

text \<open>The option, the variables, and what goes to the standard error.\<close>

definition getopt :: "cstr list \<Rightarrow> cstr \<Rightarrow> getopt_state \<Rightarrow> (char option \<times> getopt_state \<times> cstr) option" where
  "getopt argv opts g =
     do { (c, g1) \<leftarrow> sgopt argv opts g;
          Some (c, g1,
            if c = Some CHR ''?''
            then optprogname argv
                 @ (if optind g1 < length argv then '': illegal option -- '' else '': option requires an argument -- '')
                 @ [optproblem g1, LF]
            else []) }"

text \<open>The measure of the loops over \<open>getopt\<close>: what is left of the words.\<close>

definition unread :: "cstr list \<Rightarrow> getopt_state \<Rightarrow> nat" where
  "unread argv g = (\<Sum>w\<leftarrow>drop (optind g) argv. Suc (length w)) - optpos g"

lemma unread_next: "i < length argv \<Longrightarrow> (\<Sum>w\<leftarrow>drop i argv. Suc (length w)) = Suc (length (argv ! i)) + (\<Sum>w\<leftarrow>drop (Suc i) argv. Suc (length w))"
  by (simp add: Cons_nth_drop_Suc [symmetric])

lemma char_at_end [simp]: "char_at w (length w) = NUL"
  by (simp add: char_at_def)

lemma char_at_cons: "char_at (a # w) (Suc k) = char_at w k" "char_at (a # w) 0 = a" "char_at [] 0 = NUL"
  by (simp_all add: char_at_def)

lemma take_opt_less:
  assumes "take_opt argv opts g = (r, g')" "optind g < length argv" "optpos g < length (argv ! optind g)"
  shows "unread argv g' < unread argv g"
proof -
  have s: "(\<Sum>w\<leftarrow>drop (Suc (Suc (optind g))) argv. Suc (length w)) \<le> (\<Sum>w\<leftarrow>drop (Suc (optind g)) argv. Suc (length w))"
    by (cases "Suc (optind g) < length argv") (simp_all add: unread_next)
  show ?thesis
    using assms s by (auto simp: take_opt_def unread_def unread_next Let_def simp del: drop_Suc split: option.splits bool.splits if_splits)
qed

lemma sgopt_less:
  assumes "sgopt argv opts g = Some (Some c, g')"
  shows "unread argv g' < unread argv g"
proof -
  obtain h where h: "take_opt argv opts h = (Some c, g')" "unread argv h \<le> unread argv g"
      "optind h < length argv" "optpos h < length (argv ! optind h)"
  proof -
    let ?g = "g\<lparr>optarg := None\<rparr>"
    let ?n = "?g\<lparr>optind := Suc (optind g), optpos := 0\<rparr>"
    let ?at = "\<lambda>h. char_at (argv ! optind h) (optpos h)"
    have first: "optpos h < length (argv ! optind h)" if "?at h \<noteq> NUL" "optpos h \<le> length (argv ! optind h)" for h
      using that by (cases "optpos h = length (argv ! optind h)") auto
    have one: "1 < length w" if "char_at w 0 = CHR ''-''" "char_at w 1 \<noteq> NUL" for w
      using that by (cases w; cases "tl w") (auto simp: char_at_def)
    have i: "optind g < length argv" and p: "optpos g \<le> length (argv ! optind g)"
      using assms by (auto simp: sgopt_def Let_def split: if_splits)
    consider "optpos g \<noteq> 0" "?at g \<noteq> NUL" "take_opt argv opts ?g = (Some c, g')"
      | "optpos g \<noteq> 0" "?at g = NUL" "Suc (optind g) < length argv" "char_at (argv ! Suc (optind g)) 0 = CHR ''-''"
        "char_at (argv ! Suc (optind g)) 1 \<noteq> NUL" "take_opt argv opts (?n\<lparr>optpos := 1\<rparr>) = (Some c, g')"
      | "optpos g = 0" "char_at (argv ! optind g) 0 = CHR ''-''" "char_at (argv ! optind g) 1 \<noteq> NUL"
        "take_opt argv opts (?g\<lparr>optpos := 1\<rparr>) = (Some c, g')"
      using assms by (auto simp: sgopt_def Let_def split: if_splits)
    then show ?thesis
    proof cases
      case 1 then show ?thesis using first [of g] i p by (intro that [of ?g]) (auto simp: unread_def)
    next
      case 2 then show ?thesis using one i p by (intro that [of "?n\<lparr>optpos := 1\<rparr>"]) (auto simp: unread_def unread_next)
    next
      case 3 then show ?thesis using one i by (intro that [of "?g\<lparr>optpos := 1\<rparr>"]) (auto simp: unread_def)
    qed
  qed
  from take_opt_less [OF h(1,3,4)] h(2) show ?thesis by simp
qed

lemma getopt_less: "getopt argv opts g = Some (Some c, g', m) \<Longrightarrow> unread argv g' < unread argv g"
  by (auto simp: getopt_def sgopt_less split: bind_splits)

subsection \<open>The loops of the programs\<close>

text \<open>\<open>while ((opt = getopt(argc,argv,opts)) != opteof) switch(opt) ...\<close>: the body of the switch gives the new
  variables of the program, or the way it exits.  The result holds what the loop wrote to the standard error.\<close>

function getopt_loop ::
  "(char \<Rightarrow> cstr option \<Rightarrow> 's \<Rightarrow> 'e + 's) \<Rightarrow> cstr list \<Rightarrow> cstr \<Rightarrow> getopt_state \<Rightarrow> 's
   \<Rightarrow> (cstr \<times> ('e + 's \<times> getopt_state)) option" where
  "getopt_loop switch argv opts g s =
     (case getopt argv opts g of
        None \<Rightarrow> None
      | Some (None, g1, m) \<Rightarrow> Some (m, Inr (s, g1))
      | Some (Some c, g1, m) \<Rightarrow>
          (case switch c (optarg g1) s of
             Inl e \<Rightarrow> Some (m, Inl e)
           | Inr s1 \<Rightarrow> map_option (apfst ((@) m)) (getopt_loop switch argv opts g1 s1)))"
  by pat_completeness auto

termination by (relation "measure (\<lambda>(_, argv, _, g, _). unread argv g)") (auto simp: getopt_less)

declare getopt_loop.simps [simp del]

subsection \<open>Command lines\<close>

text \<open>A word with options: characters without argument, and perhaps one with an argument at the end, in the same word
  or in the next.\<close>

datatype argument = Attached cstr | Separate cstr

record optword =
  ow_flags :: cstr
  ow_last :: "(char \<times> argument) option"

definition print_optword :: "optword \<Rightarrow> cstr list" where
  "print_optword w =
     (case ow_last w of
        None \<Rightarrow> [CHR ''-'' # ow_flags w]
      | Some (c, Attached a) \<Rightarrow> [CHR ''-'' # ow_flags w @ c # a]
      | Some (c, Separate a) \<Rightarrow> [CHR ''-'' # ow_flags w @ [c], a])"

fun arg_text :: "argument \<Rightarrow> cstr" where
  "arg_text (Attached a) = a"
| "arg_text (Separate a) = a"

definition optword_options :: "optword \<Rightarrow> (char \<times> cstr option) list" where
  "optword_options w =
     map (\<lambda>c. (c, None)) (ow_flags w) @ (case ow_last w of None \<Rightarrow> [] | Some (c, a) \<Rightarrow> [(c, Some (arg_text a))])"

definition optword_ok :: "cstr \<Rightarrow> optword \<Rightarrow> bool" where
  "optword_ok opts w \<longleftrightarrow>
     (\<forall>c \<in> set (ow_flags w). opt_search c opts = Some False) \<and> (ow_flags w \<noteq> [] \<or> ow_last w \<noteq> None)
     \<and> (case ow_last w of None \<Rightarrow> True
        | Some (c, a) \<Rightarrow> opt_search c opts = Some True \<and> a \<noteq> Attached [])"

text \<open>Options follow each other in the body of the switch until one of them exits.\<close>

fun run_options :: "(char \<Rightarrow> cstr option \<Rightarrow> 's \<Rightarrow> 'e + 's) \<Rightarrow> (char \<times> cstr option) list \<Rightarrow> 's \<Rightarrow> 'e + 's" where
  "run_options switch [] s = Inr s"
| "run_options switch ((c, a) # os) s = (case switch c a s of Inl e \<Rightarrow> Inl e | Inr s1 \<Rightarrow> run_options switch os s1)"

text \<open>The words after the options, and the first of them that the program takes.\<close>

definition stops :: "cstr list \<Rightarrow> bool" where
  "stops rest \<longleftrightarrow> (case rest of [] \<Rightarrow> True | w # _ \<Rightarrow> w = ''--'' \<or> w = ''-'' \<or> (w = [] \<or> hd w \<noteq> CHR ''-''))"

definition operands :: "cstr list \<Rightarrow> cstr list" where
  "operands rest = (case rest of [] \<Rightarrow> [] | w # ws \<Rightarrow> if w = ''--'' then ws else rest)"

text \<open>\<open>g\<close> is before word \<open>i\<close>: at its start, or at the end of the word before it.\<close>

definition before_word :: "cstr list \<Rightarrow> nat \<Rightarrow> getopt_state \<Rightarrow> bool" where
  "before_word argv i g \<longleftrightarrow>
     optind g = i \<and> optpos g = 0
     \<or> Suc (optind g) = i \<and> optind g < length argv \<and> optpos g = length (argv ! optind g) \<and> optpos g \<noteq> 0"

text \<open>\<open>g\<close> is inside word \<open>i\<close>, before character \<open>k\<close>.\<close>

definition in_word :: "cstr list \<Rightarrow> nat \<Rightarrow> nat \<Rightarrow> getopt_state \<Rightarrow> bool" where
  "in_word argv i k g \<longleftrightarrow>
     (if k = 1 then before_word argv i g else optind g = i \<and> optpos g = k)"

lemma opt_search_in: "opt_search c opts = Some b \<Longrightarrow> c \<in> set opts"
  by (induction c opts rule: opt_search.induct) (auto split: if_splits list.splits)

lemma char_at_nth: "k < length w \<Longrightarrow> char_at w k = w ! k"
  by (simp add: char_at_def nth_append)

text \<open>The next option is taken at the place that \<open>g\<close> shows.\<close>

lemma sgopt_in_word:
  assumes g: "in_word argv i k g" and k: "0 < k" "k < length (argv ! i)" and i: "i < length argv"
    and w: "hd (argv ! i) = CHR ''-''" "argv ! i ! k \<noteq> NUL" "k = 1 \<longrightarrow> argv ! i ! k \<noteq> CHR ''-''"
  shows "sgopt argv opts g = Some (take_opt argv opts (g\<lparr>optarg := None, optind := i, optpos := k\<rparr>))"
proof -
  have 0: "char_at (argv ! i) 0 = CHR ''-''" using w(1) k by (cases "argv ! i") (auto simp: char_at_def)
  have c: "char_at (argv ! i) k \<noteq> NUL" "k = 1 \<longrightarrow> char_at (argv ! i) (Suc 0) \<noteq> CHR ''-''" using w k by (auto simp: char_at_nth)
  show ?thesis
  proof (cases "k = 1")
    case True
    with g consider "optind g = i" "optpos g = 0"
      | "Suc (optind g) = i" "optind g < length argv" "optpos g = length (argv ! optind g)" "optpos g \<noteq> 0"
      by (auto simp: in_word_def before_word_def)
    then show ?thesis
    proof cases
      case 1 then show ?thesis using True 0 c i by (cases g) (simp add: sgopt_def Let_def)
    next
      case 2
      then have "char_at (argv ! optind g) (optpos g) = NUL" by simp
      with 2 show ?thesis using True 0 c i by (cases g) (simp add: sgopt_def Let_def)
    qed
  next
    case False
    with g have "optind g = i" "optpos g = k" by (auto simp: in_word_def)
    then show ?thesis using k c i by (cases g) (simp add: sgopt_def Let_def)
  qed
qed

definition opts_ok :: "cstr \<Rightarrow> bool" where
  "opts_ok opts \<longleftrightarrow> proper opts \<and> CHR ''-'' \<notin> set opts \<and> CHR ''?'' \<notin> set opts"

lemma getopt_quiet: "sgopt argv opts g = Some (Some c, h) \<Longrightarrow> c \<noteq> CHR ''?'' \<Longrightarrow> getopt argv opts g = Some (Some c, h, [])"
  by (simp add: getopt_def)

lemma opts_okD: "opts_ok opts \<Longrightarrow> opt_search c opts = Some b \<Longrightarrow> c \<noteq> NUL \<and> c \<noteq> CHR ''-'' \<and> c \<noteq> CHR ''?''"
  by (auto simp: opts_ok_def proper_def dest: opt_search_in)

lemma getopt_flag:
  assumes opts: "opts_ok opts" "opt_search c opts = Some False"
    and g: "in_word argv i (Suc (length fs)) g" and w: "argv ! i = CHR ''-'' # fs @ c # r" and i: "i < length argv"
  obtains h where "getopt argv opts g = Some (Some c, h, [])" "optarg h = None" "in_word argv i (Suc (length (fs @ [c]))) h"
proof -
  let ?g = "g\<lparr>optarg := None, optind := i, optpos := Suc (length fs)\<rparr>"
  have c: "char_at (argv ! i) (Suc (length fs)) = c" "argv ! i ! Suc (length fs) = c"
    using w by (simp_all add: char_at_def nth_append)
  have s: "sgopt argv opts g = Some (take_opt argv opts ?g)"
    by (rule sgopt_in_word [OF g]) (use w i c opts_okD [OF opts] in auto)
  moreover have "take_opt argv opts ?g = (Some c, ?g\<lparr>optpos := Suc (Suc (length fs))\<rparr>)"
    using c opts by (simp add: take_opt_def Let_def)
  ultimately show thesis
    using opts_okD [OF opts] by (intro that [of "?g\<lparr>optpos := Suc (Suc (length fs))\<rparr>"] getopt_quiet) (auto simp: in_word_def)
qed

lemma getopt_last:
  assumes opts: "opts_ok opts" "opt_search c opts = Some True"
    and g: "in_word argv i (Suc (length fs)) g" and w: "argv ! i = CHR ''-'' # fs @ c # a" and i: "i < length argv"
    and j: "if a \<noteq> [] then j = Suc i \<and> t = a else j = Suc (Suc i) \<and> Suc i < length argv \<and> t = argv ! Suc i"
  obtains h where "getopt argv opts g = Some (Some c, h, [])" "optarg h = Some t" "before_word argv j h"
proof -
  let ?g = "g\<lparr>optarg := None, optind := i, optpos := Suc (length fs)\<rparr>"
  let ?h = "?g\<lparr>optarg := Some t, optind := j, optpos := 0\<rparr>"
  have c: "char_at (argv ! i) (Suc (length fs)) = c" "argv ! i ! Suc (length fs) = c"
    using w by (simp_all add: char_at_def nth_append)
  have s: "sgopt argv opts g = Some (take_opt argv opts ?g)"
    by (rule sgopt_in_word [OF g]) (use w i c opts_okD [OF opts] in auto)
  moreover have "take_opt argv opts ?g = (Some c, ?h)"
    using c opts j w by (auto simp: take_opt_def Let_def split: if_splits)
  ultimately show thesis
    using opts_okD [OF opts] by (intro that [of ?h] getopt_quiet) (auto simp: before_word_def)
qed

lemma map_apfst_nil: "map_option (apfst ((@) [])) x = x"
  by (cases x) (auto simp: apfst_def map_prod_def)

lemma getopt_loop_some:
  assumes "getopt argv opts g = Some (Some c, h, [])"
  shows "getopt_loop switch argv opts g s =
    (case switch c (optarg h) s of Inl e \<Rightarrow> Some ([], Inl e) | Inr s1 \<Rightarrow> getopt_loop switch argv opts h s1)"
  using assms by (subst getopt_loop.simps) (simp add: map_apfst_nil split: sum.split)

lemma run_options_append:
  "run_options switch (xs @ ys) s = (case run_options switch xs s of Inl e \<Rightarrow> Inl e | Inr s1 \<Rightarrow> run_options switch ys s1)"
  by (induction xs arbitrary: s) (auto split: sum.split)

text \<open>The loop goes from \<open>g\<close> through the options \<open>os\<close> to a state that satisfies \<open>Q\<close>.\<close>

definition passes :: "cstr list \<Rightarrow> cstr \<Rightarrow> getopt_state \<Rightarrow> (char \<times> cstr option) list \<Rightarrow> (getopt_state \<Rightarrow> bool)
    \<Rightarrow> (char \<Rightarrow> cstr option \<Rightarrow> 's \<Rightarrow> 'e + 's) \<Rightarrow> bool" where
  "passes argv opts g os Q switch \<longleftrightarrow> (\<exists>h. Q h \<and> (\<forall>s. getopt_loop switch argv opts g s =
     (case run_options switch os s of Inl e \<Rightarrow> Some ([], Inl e) | Inr s1 \<Rightarrow> getopt_loop switch argv opts h s1)))"

lemma passes_nil: "Q g \<Longrightarrow> passes argv opts g [] Q switch"
  by (auto simp: passes_def)

lemma passes_cons:
  assumes "getopt argv opts g = Some (Some c, h, [])" "passes argv opts h os Q switch"
  shows "passes argv opts g ((c, optarg h) # os) Q switch"
  using assms by (fastforce simp: passes_def getopt_loop_some split: sum.split)

lemma passes_append:
  assumes "passes argv opts g os R switch" "\<And>h. R h \<Longrightarrow> passes argv opts h os' Q switch"
  shows "passes argv opts g (os @ os') Q switch"
proof -
  obtain h where h: "R h" "\<And>s. getopt_loop switch argv opts g s =
      (case run_options switch os s of Inl e \<Rightarrow> Some ([], Inl e) | Inr s1 \<Rightarrow> getopt_loop switch argv opts h s1)"
    using assms(1) by (auto simp: passes_def)
  obtain h' where "Q h'" "\<And>s. getopt_loop switch argv opts h s =
      (case run_options switch os' s of Inl e \<Rightarrow> Some ([], Inl e) | Inr s1 \<Rightarrow> getopt_loop switch argv opts h' s1)"
    using assms(2) [OF h(1)] by (auto simp: passes_def)
  with h show ?thesis unfolding passes_def by (intro exI [of _ h']) (auto simp: run_options_append split: sum.split)
qed

lemma before_in_word: "before_word argv i g \<Longrightarrow> in_word argv i (Suc 0) g"
  by (simp add: in_word_def)

lemma in_before_word: "in_word argv i (Suc (length fs)) g \<Longrightarrow> fs \<noteq> [] \<Longrightarrow> argv ! i = CHR ''-'' # fs \<Longrightarrow> i < length argv
    \<Longrightarrow> before_word argv (Suc i) g"
  by (auto simp: in_word_def before_word_def)

text \<open>Options without argument inside a word.\<close>

lemma passes_flags:
  assumes "opts_ok opts" "i < length argv"
    and "\<forall>c \<in> set fs. opt_search c opts = Some False" "argv ! i = CHR ''-'' # fs0 @ fs @ r" "in_word argv i (Suc (length fs0)) g"
  shows "passes argv opts g (map (\<lambda>c. (c, None)) fs) (in_word argv i (Suc (length (fs0 @ fs)))) switch"
  using assms(3-)
proof (induction fs arbitrary: fs0 g)
  case Nil then show ?case by (auto intro: passes_nil)
next
  case (Cons c fs)
  from Cons.prems obtain h where h: "getopt argv opts g = Some (Some c, h, [])" "optarg h = None"
      "in_word argv i (Suc (length (fs0 @ [c]))) h"
    using getopt_flag [OF assms(1), of c argv i fs0 g "fs @ r"] assms(2) by auto
  from Cons.IH [of "fs0 @ [c]" h] Cons.prems h(3)
  have "passes argv opts h (map (\<lambda>c. (c, None)) fs) (in_word argv i (Suc (length (fs0 @ c # fs)))) switch" by simp
  from passes_cons [OF h(1) this] h(2) show ?case by simp
qed

lemma passes_word:
  assumes opts: "opts_ok opts" and w: "optword_ok opts w" and argv: "argv = pre @ print_optword w @ post"
    and g: "before_word argv (length pre) g"
  shows "passes argv opts g (optword_options w) (before_word argv (length (pre @ print_optword w))) switch"
proof -
  let ?i = "length pre"
  let ?fs = "ow_flags w"
  obtain r where r: "argv ! ?i = CHR ''-'' # ?fs @ r" and i: "?i < length argv"
    using argv by (auto simp: print_optword_def split: option.splits argument.splits)
  have fl: "passes argv opts g (map (\<lambda>c. (c, None)) ?fs) (in_word argv ?i (Suc (length ?fs))) switch"
    using passes_flags [OF opts i, of ?fs "[]" r] w r before_in_word [OF g] by (simp add: optword_ok_def)
  show ?thesis
  proof (cases "ow_last w")
    case None
    then have "argv ! ?i = CHR ''-'' # ?fs" "?fs \<noteq> []" using argv w by (auto simp: print_optword_def optword_ok_def)
    then have "passes argv opts h [] (before_word argv (Suc ?i)) switch" if "in_word argv ?i (Suc (length ?fs)) h" for h
      by (intro passes_nil in_before_word [OF that]) (use i in auto)
    from passes_append [OF fl this] None show ?thesis by (simp add: optword_options_def print_optword_def)
  next
    case (Some l)
    obtain c a where l: "ow_last w = Some (c, a)" using Some by (cases l) auto
    have c: "opt_search c opts = Some True" using w l by (auto simp: optword_ok_def)
    let ?a = "case a of Attached t \<Rightarrow> t | Separate _ \<Rightarrow> []"
    let ?j = "length (pre @ print_optword w)"
    have word: "argv ! ?i = CHR ''-'' # ?fs @ c # ?a" using argv l by (auto simp: print_optword_def split: argument.splits)
    have j: "if ?a \<noteq> [] then ?j = Suc ?i \<and> arg_text a = ?a else ?j = Suc (Suc ?i) \<and> Suc ?i < length argv \<and> arg_text a = argv ! Suc ?i"
      using argv l w by (auto simp: print_optword_def optword_ok_def nth_append split: argument.splits)
    have "passes argv opts h [(c, Some (arg_text a))] (before_word argv ?j) switch" if "in_word argv ?i (Suc (length ?fs)) h" for h
    proof -
      from getopt_last [OF opts c that word i j] obtain h'
        where "getopt argv opts h = Some (Some c, h', [])" "optarg h' = Some (arg_text a)" "before_word argv ?j h'" by blast
      from passes_cons [OF this(1) passes_nil [of "before_word argv ?j", OF this(3)]] this(2) show ?thesis by simp
    qed
    from passes_append [OF fl this] l show ?thesis by (simp add: optword_options_def)
  qed
qed

lemma passes_words:
  assumes "opts_ok opts" "\<forall>w \<in> set ws. optword_ok opts w" "argv = pre @ concat (map print_optword ws) @ post"
    "before_word argv (length pre) g"
  shows "passes argv opts g (concat (map optword_options ws)) (before_word argv (length (pre @ concat (map print_optword ws)))) switch"
  using assms(2-)
proof (induction ws arbitrary: pre g)
  case Nil then show ?case by (auto intro: passes_nil)
next
  case (Cons w ws)
  have "passes argv opts h (concat (map optword_options ws))
      (before_word argv (length ((pre @ print_optword w) @ concat (map print_optword ws)))) switch"
    if "before_word argv (length (pre @ print_optword w)) h" for h
    using Cons.IH [of "pre @ print_optword w" h] Cons.prems that by simp
  moreover have "passes argv opts g (optword_options w) (before_word argv (length (pre @ print_optword w))) switch"
    by (rule passes_word [OF assms(1)]) (use Cons.prems in auto)
  ultimately show ?case by (simp add: passes_append)
qed

lemma getopt_stops:
  assumes "before_word argv (length pre) g" "argv = pre @ rest" "stops rest"
  obtains h where "getopt_loop switch argv opts g s = Some ([], Inr (s, h))" "drop (optind h) argv = operands rest"
proof -
  have "\<exists>h. sgopt argv opts g = Some (None, h) \<and> drop (optind h) argv = operands rest"
  proof -
    consider "optind g = length pre" "optpos g = 0"
      | "Suc (optind g) = length pre" "optind g < length argv" "optpos g = length (argv ! optind g)" "optpos g \<noteq> 0"
      using assms(1) by (auto simp: before_word_def)
    then show ?thesis
    proof cases
      case 1 then show ?thesis using assms(2,3)
        by (cases rest; cases "hd rest") (auto simp: sgopt_def Let_def stops_def operands_def char_at_def)
    next
      case 2
      then have "char_at (argv ! optind g) (optpos g) = NUL" by simp
      with 2 show ?thesis using assms(2,3)
        by (cases rest; cases "hd rest") (auto simp: sgopt_def Let_def stops_def operands_def char_at_def)
    qed
  qed
  then obtain h where "sgopt argv opts g = Some (None, h)" "drop (optind h) argv = operands rest" by blast
  then show thesis by (intro that [of h]) (simp_all add: getopt_def getopt_loop.simps)
qed

text \<open>A command line is parsed as it was written: with the program first, then words of options, then words of
  which the first is \<open>--\<close>, \<open>-\<close> or does not begin with a hyphen, the loop of a program runs its switch over exactly
  these options with these arguments, in their order, until one exits; nothing is written to the standard error, and
  the variable \<open>optind\<close> is left at the first operand, behind \<open>--\<close>.  An argument may be attached or the next word,
  which may be empty or begin with a hyphen.\<close>

theorem getopt_loop_parses:
  assumes "opts_ok opts" "\<forall>w \<in> set ws. optword_ok opts w" "stops rest"
    and "argv = prog # concat (map print_optword ws) @ rest"
  shows "case run_options switch (concat (map optword_options ws)) s of
      Inl e \<Rightarrow> getopt_loop switch argv opts getopt_init s = Some ([], Inl e)
    | Inr s1 \<Rightarrow> \<exists>g. getopt_loop switch argv opts getopt_init s = Some ([], Inr (s1, g))
                    \<and> drop (optind g) argv = operands rest"
proof -
  have "passes argv opts getopt_init (concat (map optword_options ws))
      (before_word argv (length ([prog] @ concat (map print_optword ws)))) switch"
    by (rule passes_words [OF assms(1,2)]) (use assms(4) in \<open>auto simp: getopt_init_def before_word_def\<close>)
  then obtain h where h: "before_word argv (length ([prog] @ concat (map print_optword ws))) h"
    "getopt_loop switch argv opts getopt_init s =
     (case run_options switch (concat (map optword_options ws)) s of
        Inl e \<Rightarrow> Some ([], Inl e) | Inr s1 \<Rightarrow> getopt_loop switch argv opts h s1)" by (auto simp: passes_def)
  show ?thesis
  proof (cases "run_options switch (concat (map optword_options ws)) s")
    case (Inr s1)
    obtain g where "getopt_loop switch argv opts h s1 = Some ([], Inr (s1, g))" "drop (optind g) argv = operands rest"
      using getopt_stops [OF h(1) _ assms(3), of switch opts s1] assms(4) by auto
    then show ?thesis using h(2) Inr by simp
  qed (simp add: h(2))
qed

theorem getopt_loop_parses_witness:
  "\<exists>g. getopt_loop (\<lambda>c a s. Inr (s @ [(c, a)]) :: unit + (char \<times> cstr option) list)
         [''rblsmtpd'', ''-bc'', ''-Cr'', ''-x'', ''-t5'', ''--'', ''-smtpd''] ''bBcCt:r:a:'' getopt_init [] =
       Some ([], Inr ([(CHR ''b'', None), (CHR ''c'', None), (CHR ''C'', None), (CHR ''r'', Some ''-x''), (CHR ''t'', Some ''5'')], g))
     \<and> drop (optind g) [''rblsmtpd'', ''-bc'', ''-Cr'', ''-x'', ''-t5'', ''--'', ''-smtpd''] = [''-smtpd'']"
  using getopt_loop_parses [of "''bBcCt:r:a:''"
      "[\<lparr>ow_flags = ''bc'', ow_last = None\<rparr>, \<lparr>ow_flags = ''C'', ow_last = Some (CHR ''r'', Separate ''-x'')\<rparr>,
        \<lparr>ow_flags = [], ow_last = Some (CHR ''t'', Attached ''5'')\<rparr>]" "[''--'', ''-smtpd'']"
      "[''rblsmtpd'', ''-bc'', ''-Cr'', ''-x'', ''-t5'', ''--'', ''-smtpd'']" "''rblsmtpd''"
      "\<lambda>c a s. Inr (s @ [(c, a)]) :: unit + (char \<times> cstr option) list" "[]"]
  by (simp add: opts_ok_def proper_def optword_ok_def stops_def operands_def print_optword_def optword_options_def)

subsection \<open>Every loop ends well\<close>

text \<open>The position is inside the word; then no read is outside.\<close>

definition getopt_ok :: "cstr list \<Rightarrow> getopt_state \<Rightarrow> bool" where
  "getopt_ok argv g \<longleftrightarrow> (optind g < length argv \<longrightarrow> optpos g \<le> length (argv ! optind g))"

lemma getopt_ok_init [simp]: "getopt_ok argv getopt_init"
  by (simp add: getopt_ok_def getopt_init_def)

lemma char_at_inside: "char_at w k \<noteq> NUL \<Longrightarrow> k \<le> length w \<Longrightarrow> k < length w"
  by (cases "k = length w") auto

lemma take_opt_ok: "optpos g < length (argv ! optind g) \<Longrightarrow> getopt_ok argv (snd (take_opt argv opts g))"
  by (auto simp: take_opt_def getopt_ok_def Let_def split: option.splits bool.splits)

lemma sgopt_ok: "getopt_ok argv g \<Longrightarrow> \<exists>c h. sgopt argv opts g = Some (c, h) \<and> getopt_ok argv h"
proof -
  assume g: "getopt_ok argv g"
  have "getopt_ok argv h" if h: "sgopt argv opts g = Some (c, h)" for c h
  proof -
    have one: "Suc 0 < length w" if "char_at w 0 = CHR ''-''" "char_at w (Suc 0) \<noteq> NUL" for w
      using that by (cases w; cases "tl w") (auto simp: char_at_def)
    have t: "getopt_ok argv h" if "take_opt argv opts k = (c, h)" "optpos k < length (argv ! optind k)" for k
      using take_opt_ok [OF that(2), of opts] that(1) by simp
    show ?thesis
      using h g by (auto simp: sgopt_def Let_def getopt_ok_def char_at_inside intro!: one t [unfolded getopt_ok_def, rule_format] split: if_splits)
  qed
  moreover have "sgopt argv opts g \<noteq> None" using g by (auto simp: sgopt_def Let_def getopt_ok_def)
  ultimately show ?thesis by (cases "sgopt argv opts g") auto
qed

lemma getopt_ok_next: "getopt_ok argv g \<Longrightarrow> \<exists>c h m. getopt argv opts g = Some (c, h, m) \<and> getopt_ok argv h"
  using sgopt_ok [of argv g opts] by (auto simp: getopt_def)

text \<open>A loop gives a result, and keeps what its switch keeps.\<close>

lemma getopt_loop_keeps:
  assumes "\<And>c a s s'. P s \<Longrightarrow> switch c a s = Inr s' \<Longrightarrow> P s'" "P s" "getopt_ok argv g"
  shows "\<exists>m r. getopt_loop switch argv opts g s = Some (m, r) \<and> (case r of Inl _ \<Rightarrow> True | Inr (s', _) \<Rightarrow> P s')"
  using assms
proof (induction switch argv opts g s rule: getopt_loop.induct)
  case (1 switch argv opts g s)
  obtain c h m where h: "getopt argv opts g = Some (c, h, m)" "getopt_ok argv h" using getopt_ok_next [OF "1.prems"(3)] by blast
  show ?case
  proof (cases "c = None")
    case True then show ?thesis using h "1.prems"(2) by (simp add: getopt_loop.simps)
  next
    case False
    then obtain d where c: "c = Some d" by blast
    show ?thesis
    proof (cases "switch d (optarg h) s")
      case (Inl e) then show ?thesis using h c by (simp add: getopt_loop.simps)
    next
      case (Inr s1)
      have "P s1" using "1.prems"(1,2) Inr by blast
      with "1.prems"(1) h(2) have "\<exists>m r. getopt_loop switch argv opts h s1 = Some (m, r) \<and> (case r of Inl _ \<Rightarrow> True | Inr (s', _) \<Rightarrow> P s')"
        by (intro "1.IH" [OF h(1) [unfolded c] refl refl refl Inr]) blast+
      then show ?thesis using h c Inr by (subst getopt_loop.simps) auto
    qed
  qed
qed

lemma getopt_loop_same:
  assumes "\<And>c a s. P s \<Longrightarrow> switch c a s = switch' c a s" "\<And>c a s s'. P s \<Longrightarrow> switch c a s = Inr s' \<Longrightarrow> P s'" "P s"
  shows "getopt_loop switch argv opts g s = getopt_loop switch' argv opts g s"
  using assms
proof (induction switch argv opts g s rule: getopt_loop.induct)
  case (1 switch argv opts g s)
  show ?case
  proof (cases "getopt argv opts g")
    case None then show ?thesis by (simp add: getopt_loop.simps)
  next
    case (Some x)
    then obtain c h m where h: "getopt argv opts g = Some (c, h, m)" by (cases x) auto
    show ?thesis
    proof (cases c)
      case None then show ?thesis using h by (simp add: getopt_loop.simps)
    next
      case c: (Some d)
      have e: "switch d (optarg h) s = switch' d (optarg h) s" using "1.prems" by blast
      show ?thesis
      proof (cases "switch d (optarg h) s")
        case (Inl x) then show ?thesis using h c e by (simp add: getopt_loop.simps)
      next
        case (Inr s1)
        with "1.prems" have "getopt_loop switch argv opts h s1 = getopt_loop switch' argv opts h s1"
          by (intro "1.IH" [OF h [unfolded c] refl refl refl Inr]) blast+
        moreover have "switch' d (optarg h) s = Inr s1" using e Inr by simp
        ultimately show ?thesis using h c Inr by (subst (1 2) getopt_loop.simps) simp
      qed
    qed
  qed
qed

end
