(* ===== verification/Env.thy ===== *)
theory Env
  imports Getopt "HOL-Library.Multiset"
begin

text \<open>
  The environment of a process in ucspi-tcp-0.88: \<^verbatim>\<open>env.c\<close>, which looks a variable up, \<^verbatim>\<open>pathexec_env.c\<close>,
  which collects changes and makes the environment of the program that is run, and \<^verbatim>\<open>pathexec_run.c\<close>, which finds
  the program.

  \<open>environ\<close> is the list of its strings, and \<open>pl\<close> the characters of the collection \<^verbatim>\<open>plus\<close>, in which each change ends with
  a NUL.  Memory suffices.
\<close>

fun env_get :: "cstr list \<Rightarrow> cstr \<Rightarrow> cstr option" where
  "env_get [] s = None"
| "env_get (e # environ) s =
     (if str_start e s \<and> char_at e (str_len s) = CHR ''='' then Some (drop (str_len s + 1) e) else env_get environ s)"

definition pathexec_env :: "cstr option \<Rightarrow> cstr option \<Rightarrow> cstr \<Rightarrow> cstr" where
  "pathexec_env s t pl =
     (case s of None \<Rightarrow> pl
      | Some s \<Rightarrow> pl @ s @ (case t of None \<Rightarrow> [] | Some t \<Rightarrow> CHR ''='' # t) @ [NUL])"

text \<open>The loop over the strings of the new environment: the first one with the name is overwritten by the last string,
  and \<open>elen\<close> becomes smaller.\<close>

fun drop_var :: "cstr \<Rightarrow> cstr list \<Rightarrow> cstr list" where
  "drop_var n [] = []"
| "drop_var n (w # e) =
     (if byte_diff n (w @ [NUL]) = 0 \<and> char_at w (length n) = CHR ''=''
      then (if e = [] then [] else last e # butlast e)
      else w # drop_var n e)"

text \<open>What happens at each NUL of \<^verbatim>\<open>plus\<close>; \<open>p\<close> is \<open>plus.s + j\<close>.\<close>

definition plus_var :: "cstr \<Rightarrow> cstr list \<Rightarrow> cstr list" where
  "plus_var p e =
     (let split = str_chr p CHR ''=''; e = drop_var (take split p) e
      in if char_at p split \<noteq> NUL then e @ [p] else e)"

function plus_changes :: "cstr \<Rightarrow> cstr list \<Rightarrow> cstr list" where
  "plus_changes pl e =
     (let i = byte_chr pl NUL
      in if i < length pl then plus_changes (drop (Suc i) pl) (plus_var (take i pl) e) else e)"
  by pat_completeness auto

termination by (relation "measure (\<lambda>(pl, _). length pl)") (auto simp: Let_def)

declare plus_changes.simps [simp del]

text \<open>The environment that \<open>pathexec\<close> runs the program with.\<close>

definition pathexec_environ :: "cstr list \<Rightarrow> cstr \<Rightarrow> cstr list" where
  "pathexec_environ environ pl = plus_changes pl environ"

text \<open>\<open>execve\<close> is an argument: it gives the error, or nothing when the program runs.\<close>

datatype exec_error = Enoent | Eacces | Eperm | Eisdir | Eother nat

datatype exec_result = Runs cstr | Exec_failed exec_error

function path_loop :: "(cstr \<Rightarrow> exec_error option) \<Rightarrow> cstr \<Rightarrow> cstr \<Rightarrow> exec_error option \<Rightarrow> exec_result" where
  "path_loop execve file path savederrno =
     (let split = str_chr path CHR '':'';
          tmp = take split path @ (if split = 0 then ''.'' else []) @ ''/'' @ file
      in case execve tmp of
           None \<Rightarrow> Runs tmp
         | Some e \<Rightarrow>
             if e \<noteq> Enoent \<and> e \<noteq> Eacces \<and> e \<noteq> Eperm \<and> e \<noteq> Eisdir then Exec_failed e
             else let savederrno = (if e \<noteq> Enoent then Some e else savederrno) in
             if char_at path split = NUL then Exec_failed (case savederrno of None \<Rightarrow> e | Some s \<Rightarrow> s)
             else path_loop execve file (drop (split + 1) path) savederrno)"
  by pat_completeness auto

termination
  by (relation "measure (\<lambda>(_, _, path, _). length path)")
     (auto simp: str_chr_byte_chr char_at_def nth_append split: if_splits dest!: gr0_conv_Suc [THEN iffD1])

declare path_loop.simps [simp del]

definition pathexec_run :: "(cstr \<Rightarrow> exec_error option) \<Rightarrow> cstr list \<Rightarrow> cstr \<Rightarrow> exec_result" where
  "pathexec_run execve environ file =
     (if char_at file (str_chr file CHR ''/'') \<noteq> NUL
      then (case execve file of None \<Rightarrow> Runs file | Some e \<Rightarrow> Exec_failed e)
      else path_loop execve file (case env_get environ ''PATH'' of None \<Rightarrow> ''/bin:/usr/bin'' | Some p \<Rightarrow> p) None)"

subsection \<open>What the program sees\<close>

text \<open>The variables that a string or an environment sets.\<close>

definition var_of :: "cstr \<Rightarrow> (cstr \<times> cstr) option" where
  "var_of w = (let n = takeWhile (\<lambda>c. c \<noteq> CHR ''='') w in if length n < length w then Some (n, drop (Suc (length n)) w) else None)"

definition vars :: "cstr list \<Rightarrow> (cstr \<times> cstr) list" where
  "vars e = List.map_filter var_of e"

lemma str_len_length [simp]: "str_len s = length s"
  by (induction s) auto

lemma var_of_Some: "var_of w = Some (n, v) \<longleftrightarrow> CHR ''='' \<notin> set n \<and> w = n @ CHR ''='' # v"
proof
  assume v: "var_of w = Some (n, v)"
  then have n: "n = takeWhile (\<lambda>c. c \<noteq> CHR ''='') w" and l: "length n < length w" "v = drop (Suc (length n)) w"
    by (auto simp: var_of_def Let_def split: if_splits)
  have "w = n @ w ! length n # v" using n l id_take_nth_drop [OF l(1)] takeWhile_eq_take [of "\<lambda>c. c \<noteq> CHR ''=''" w] by simp
  moreover have "w ! length n = CHR ''=''" using n l(1) nth_length_takeWhile [of "\<lambda>c. c \<noteq> CHR ''=''" w] by simp
  moreover have "CHR ''='' \<notin> set n" using n set_takeWhileD [of "CHR ''=''" "\<lambda>c. c \<noteq> CHR ''=''" w] by auto
  ultimately show "CHR ''='' \<notin> set n \<and> w = n @ CHR ''='' # v" by simp
next
  assume "CHR ''='' \<notin> set n \<and> w = n @ CHR ''='' # v"
  moreover from this have "takeWhile (\<lambda>c. c \<noteq> CHR ''='') w = n" by (auto simp: takeWhile_tail)
  ultimately show "var_of w = Some (n, v)" by (simp add: var_of_def Let_def)
qed

lemma vars_simps [simp]: "vars [] = []" "vars (w # e) = (case var_of w of None \<Rightarrow> vars e | Some x \<Rightarrow> x # vars e)"
  "vars (e @ e') = vars e @ vars e'"
  by (auto simp: vars_def List.map_filter_def split: option.splits)

lemma starts_var: "CHR ''='' \<notin> set s \<Longrightarrow> str_start e s \<and> char_at e (length s) = CHR ''='' \<longleftrightarrow> (\<exists>v. var_of e = Some (s, v))"
proof
  assume s: "CHR ''='' \<notin> set s" "str_start e s \<and> char_at e (length s) = CHR ''=''"
  then obtain r where r: "e = s @ r" by (auto simp: str_start_prefix)
  with s have "r \<noteq> [] \<and> hd r = CHR ''=''" by (cases r) (auto simp: char_at_def nth_append)
  then show "\<exists>v. var_of e = Some (s, v)" using r s by (cases r) (auto simp: var_of_Some)
qed (auto simp: var_of_Some str_start_prefix char_at_def nth_append)

lemma env_get_vars: "CHR ''='' \<notin> set s \<Longrightarrow> env_get e s = map_of (vars e) s"
proof (induction e)
  case (Cons w e)
  then show ?case using starts_var [OF Cons.prems, of w]
    by (cases "var_of w") (auto simp: var_of_Some)
qed simp

lemma byte_diff_prefix: "proper n \<Longrightarrow> byte_diff n (w @ [NUL]) = 0 \<longleftrightarrow> str_start w n"
proof (induction n arbitrary: w)
  case Nil then show ?case by (cases w) auto
next
  case (Cons c n)
  then show ?case using of_char_eq_iff [of c NUL, where 'a = nat]
    by (cases w) (auto simp: proper_def)
qed

lemma drop_var_vars:
  assumes "proper n" "CHR ''='' \<notin> set n" "distinct (map fst (vars e))"
  shows "distinct (map fst (vars (drop_var n e))) \<and> map_of (vars (drop_var n e)) = (map_of (vars e))(n := None)"
proof -
  have "mset (vars (drop_var n e)) = mset (filter (\<lambda>x. fst x \<noteq> n) (vars e))" if "distinct (map fst (vars e))" for e
    using that
  proof (induction e)
    case (Cons w e)
    have test: "byte_diff n (w @ [NUL]) = 0 \<and> char_at w (length n) = CHR ''='' \<longleftrightarrow> (\<exists>v. var_of w = Some (n, v))"
      using starts_var [OF assms(2)] byte_diff_prefix [OF assms(1)] by simp
    show ?case
    proof (cases "\<exists>v. var_of w = Some (n, v)")
      case True
      then obtain v where v: "var_of w = Some (n, v)" by blast
      with Cons.prems have "\<forall>x \<in> set (vars e). fst x \<noteq> n" by auto
      then have f: "filter (\<lambda>x. fst x \<noteq> n) (vars e) = vars e" by simp
      have "mset (vars (last e # butlast e)) = mset (vars (butlast e @ [last e]))" 
        by (cases "var_of (last e)") (simp_all del: append_butlast_last_id)
      then have "e \<noteq> [] \<Longrightarrow> mset (vars (last e # butlast e)) = mset (vars e)" by simp
      then show ?thesis using True v f test by (cases "e = []") auto
    next
      case False
      then show ?thesis using test Cons by (cases "var_of w") (auto)
    qed
  qed simp
  from this [OF assms(3)] have m: "mset (vars (drop_var n e)) = mset (filter (\<lambda>x. fst x \<noteq> n) (vars e))" .
  then have s: "set (vars (drop_var n e)) = set (filter (\<lambda>x. fst x \<noteq> n) (vars e))" by (metis set_mset_mset)
  have "mset (map fst (vars (drop_var n e))) = mset (map fst (filter (\<lambda>x. fst x \<noteq> n) (vars e)))" using m by simp
  moreover have "distinct (map fst (filter (\<lambda>x. fst x \<noteq> n) (vars e)))" using assms(3) by (simp add: distinct_map_filter)
  ultimately have d: "distinct (map fst (vars (drop_var n e)))" by (metis mset_eq_imp_distinct_iff)
  have "map_of (vars (drop_var n e)) k = Some v \<longleftrightarrow> ((map_of (vars e))(n := None)) k = Some v" for k v
    using map_of_eq_Some_iff [OF d, of k v] map_of_eq_Some_iff [OF assms(3), of k v] s by auto
  then have "map_of (vars (drop_var n e)) k = ((map_of (vars e))(n := None)) k" for k by (metis option.exhaust)
  then show ?thesis using d by auto
qed

text \<open>One change: the variable is set, or removed when there is no value.\<close>

definition change :: "cstr \<Rightarrow> cstr option \<Rightarrow> cstr" where
  "change s t = s @ (case t of None \<Rightarrow> [] | Some t \<Rightarrow> CHR ''='' # t)"

definition change_ok :: "cstr \<times> cstr option \<Rightarrow> bool" where
  "change_ok c \<longleftrightarrow> (case c of (s, t) \<Rightarrow> CHR ''='' \<notin> set s \<and> proper s \<and> (case t of None \<Rightarrow> True | Some v \<Rightarrow> proper v))"

lemma plus_var_vars:
  assumes "change_ok (s, t)" "distinct (map fst (vars e))"
  shows "distinct (map fst (vars (plus_var (change s t) e))) \<and> map_of (vars (plus_var (change s t) e)) = (map_of (vars e))(s := t)"
proof -
  have s: "proper s" "CHR ''='' \<notin> set s" using assms(1) by (auto simp: change_ok_def)
  note d = drop_var_vars [OF s assms(2)]
  show ?thesis
  proof (cases t)
    case None
    have "plus_var (change s t) e = drop_var s e"
      using s None byte_chr_none [OF s(2)] by (simp add: plus_var_def change_def str_chr_byte_chr Let_def)
    then show ?thesis using d None by simp
  next
    case (Some v)
    have "byte_chr (s @ CHR ''='' # v) CHR ''='' = length s" by (rule byte_chr_split) (rule s(2))
    then have p: "plus_var (change s t) e = drop_var s e @ [change s t]"
      using Some by (simp add: plus_var_def change_def str_chr_byte_chr char_at_def nth_append Let_def)
    have "var_of (change s t) = Some (s, v)" using s Some by (simp add: var_of_Some change_def)
    moreover have "s \<notin> fst ` set (vars (drop_var s e))" using d by (metis fun_upd_same map_of_eq_None_iff)
    ultimately show ?thesis using p d Some by (auto simp: map_add_def fun_eq_iff split: option.split)
  qed
qed

lemma plus_loop_calls:
  assumes "\<forall>c \<in> set calls. change_ok c"
  shows "plus_changes (concat (map (\<lambda>(s, t). change s t @ [NUL]) calls)) e = fold (\<lambda>(s, t). plus_var (change s t)) calls e"
  using assms
proof (induction calls arbitrary: e)
  case Nil then show ?case by (simp add: plus_changes.simps)
next
  case (Cons c calls)
  obtain s t where c: "c = (s, t)" by (cases c)
  have "NUL \<notin> set (change s t)" using Cons.prems c by (auto simp: change_ok_def change_def proper_def split: option.splits)
  then have "byte_chr (change s t @ NUL # r) NUL = length (change s t)" for r by (rule byte_chr_split)
  then show ?case using Cons c by (subst plus_changes.simps) (simp add: Let_def)
qed

lemma calls_plus: "fold (\<lambda>(s, t). pathexec_env (Some s) t) calls pl = pl @ concat (map (\<lambda>(s, t). change s t @ [NUL]) calls)"
  by (induction calls arbitrary: pl) (auto simp: pathexec_env_def change_def)

text \<open>The program sees, for every name, the value of the last \<open>pathexec_env\<close> for it, nothing when that call had no
  value, and what the process had before when there was no call: the collected changes are an update of the
  environment as a map, whatever the order of its strings, as long as no name is in it twice.\<close>

theorem pathexec_updates_environment:
  assumes "distinct (map fst (vars environ))" "\<forall>c \<in> set calls. change_ok c" "CHR ''='' \<notin> set n"
  shows "env_get (pathexec_environ environ (fold (\<lambda>(s, t). pathexec_env (Some s) t) calls [])) n =
    (case map_of (rev calls) n of Some t \<Rightarrow> t | None \<Rightarrow> env_get environ n)"
proof -
  have "map_of (vars (fold (\<lambda>(s, t). plus_var (change s t)) calls e)) n =
      (case map_of (rev calls) n of Some t \<Rightarrow> t | None \<Rightarrow> map_of (vars e) n)"
    if "distinct (map fst (vars e))" "\<forall>c \<in> set calls. change_ok c" for e
    using that
  proof (induction calls arbitrary: e)
    case (Cons c calls)
    obtain s t where c: "c = (s, t)" by (cases c)
    with Cons.prems have "change_ok (s, t)" by simp
    note p = plus_var_vars [OF this Cons.prems(1)]
    have "\<forall>c \<in> set calls. change_ok c" using Cons.prems(2) by simp
    from Cons.IH [OF conjunct1 [OF p] this] show ?case using p c by (auto split: option.splits)
  qed simp
  from this [OF assms(1,2)] show ?thesis
    by (simp add: pathexec_environ_def calls_plus plus_loop_calls [OF assms(2)] env_get_vars [OF assms(3)] cong: option.case_cong)
qed

theorem pathexec_updates_environment_witness:
  "env_get (pathexec_environ [''PATH=/bin'', ''TCPREMOTEINFO=root'', ''HOME=/'']
     (fold (\<lambda>(s, t). pathexec_env (Some s) t) [(''PROTO'', Some ''UDP''), (''TCPREMOTEINFO'', None), (''PROTO'', Some ''TCP'')] []))
     ''PROTO'' = Some ''TCP''"
  by (subst pathexec_updates_environment) (simp_all add: var_of_def change_ok_def proper_def)

text \<open>When a name is in the environment twice, a new value can be hidden by an old one.\<close>

lemma pathexec_duplicate_hides:
  "env_get (pathexec_environ [''A=1'', ''A=2''] (pathexec_env (Some ''A'') (Some ''3'') [])) ''A'' = Some ''2''"
  by (simp add: pathexec_environ_def pathexec_env_def plus_changes.simps plus_var_def Let_def char_at_def)

end
