(* ===== verification/Smtp.thy ===== *)
theory Smtp
  imports Env DnsAnswer
begin

text \<open>
  \<^verbatim>\<open>commands.c\<close> and \<^verbatim>\<open>rblsmtpd.c\<close> of ucspi-tcp-0.88: a program between \<^verbatim>\<open>tcpserver\<close> and a mail server that asks lists of
  addresses in the DNS and, for an address in one, speaks SMTP itself to refuse the mail.

  The DNS is the argument \<open>resolve\<close> of \<open>dns_txt\<close> and \<open>dns_ip4\<close>.  The input is what arrives before its end or the alarm;
  after both the program exits with 0.  Memory suffices.
\<close>

subsection \<open>Commands: commands.c\<close>

text \<open>A line up to the line feed, and the input behind it; \<open>None\<close> is the end of the input inside a line.\<close>

fun read_cmd :: "cstr \<Rightarrow> cstr \<Rightarrow> (cstr \<times> cstr) option" where
  "read_cmd cmd [] = None"
| "read_cmd cmd (ch # s) =
     (if ch = LF then Some (cmd, s) else read_cmd (cmd @ [if ch = NUL then LF else ch]) s)"

text \<open>The verb and the argument of a line.\<close>

definition parse_cmd :: "cstr \<Rightarrow> cstr \<times> cstr" where
  "parse_cmd cmd =
     (let cmd = (if cmd \<noteq> [] \<and> last cmd = CR then butlast cmd else cmd);
          i = str_chr cmd CHR '' ''
      in (take i cmd, dropWhile (\<lambda>c. c = CHR '' '') (drop i cmd)))"

text \<open>The table without its last entry, whose action is \<open>other\<close>.\<close>

fun find_action :: "(cstr \<times> 'a) list \<Rightarrow> 'a \<Rightarrow> cstr \<Rightarrow> 'a" where
  "find_action [] other cmd = other"
| "find_action ((verb, action) # c) other cmd = (if case_equals verb cmd then action else find_action c other cmd)"

lemma read_cmd_shorter: "read_cmd cmd s = Some (l, r) \<Longrightarrow> length r < length s"
  by (induction cmd s rule: read_cmd.induct) (fastforce split: if_splits)+

text \<open>An action gives its output and whether it exits.\<close>

function commands_run :: "(cstr \<times> 'a) list \<Rightarrow> 'a \<Rightarrow> ('a \<Rightarrow> cstr \<Rightarrow> cstr \<times> bool) \<Rightarrow> cstr \<Rightarrow> cstr \<times> bool" where
  "commands_run c other run ss =
     (case read_cmd [] ss of
        None \<Rightarrow> ([], False)
      | Some (cmd, ss1) \<Rightarrow>
          (let (verb, arg) = parse_cmd cmd; (out, exits) = run (find_action c other verb) arg
           in if exits then (out, True) else apfst ((@) out) (commands_run c other run ss1)))"
  by pat_completeness auto

termination by (relation "measure (\<lambda>(_, _, _, ss). length ss)") (auto simp: read_cmd_shorter)

declare commands_run.simps [simp del]

subsection \<open>The address: ip_init\<close>

text \<open>The place behind the last dot before \<open>j\<close>, or 0.\<close>

fun dot_before :: "cstr \<Rightarrow> nat \<Rightarrow> nat" where
  "dot_before ip 0 = 0"
| "dot_before ip (Suc j) = (if ip ! j = CHR ''.'' then Suc j else dot_before ip j)"

lemma dot_before_le: "dot_before ip i \<le> i"
  by (induction i) auto

lemma dot_before_pred: "0 < i \<Longrightarrow> dot_before ip i - Suc 0 < i"
  using dot_before_le [of ip i] by simp

function reverse_loop :: "cstr \<Rightarrow> nat \<Rightarrow> cstr" where
  "reverse_loop ip i =
     (if i = 0 then []
      else let j = dot_before ip i in
        take (i - j) (drop j ip) @ ''.'' @ (if j = 0 then [] else reverse_loop ip (j - 1)))"
  by pat_completeness auto

termination by (relation "measure snd") (auto intro: dot_before_pred)

declare reverse_loop.simps [simp del]

definition ip_env :: "cstr list \<Rightarrow> cstr" where
  "ip_env environ = (case env_get environ ''TCPREMOTEIP'' of None \<Rightarrow> [] | Some i \<Rightarrow> i)"

definition ip_reverse :: "cstr list \<Rightarrow> cstr" where
  "ip_reverse environ = (let ip = ip_env environ in reverse_loop ip (str_len ip))"

subsection \<open>Asking the lists\<close>

text \<open>The decision is 0 undecided, 1 accept, 2 reject, 3 bounce.  The text is \<open>None\<close> where a question that failed has
  left something in it that is not known.\<close>

record rblstate =
  decision :: nat
  rbl_text :: "cstr option"
  flagrblbounce :: bool
  flagfailclosed :: bool
  flagmustnotbounce :: bool
  timeout :: u32
  flagwantdefaultrbl :: bool
  rbl_rnd :: rnd

definition rbl :: "(cstr \<Rightarrow> cstr \<Rightarrow> cstr option) \<Rightarrow> cstr \<Rightarrow> cstr \<Rightarrow> rblstate \<Rightarrow> rblstate" where
  "rbl resolve rv base s =
     (if decision s \<noteq> 0 then s
      else case dns_txt resolve (rv @ base) of
        None \<Rightarrow>
          (let s = s\<lparr>rbl_text := None, flagmustnotbounce := True\<rparr>
           in if flagfailclosed s then s\<lparr>rbl_text := Some ''temporary RBL lookup error'', decision := 2\<rparr> else s)
      | Some t \<Rightarrow>
          (let s = s\<lparr>rbl_text := Some t\<rparr>
           in if t \<noteq> [] then s\<lparr>decision := (if flagrblbounce s then 3 else 2)\<rparr> else s))"

definition antirbl :: "(cstr \<Rightarrow> cstr \<Rightarrow> cstr option) \<Rightarrow> cstr \<Rightarrow> cstr \<Rightarrow> rblstate \<Rightarrow> rblstate" where
  "antirbl resolve rv base s =
     (if decision s \<noteq> 0 then s
      else case dns_ip4 resolve (rv @ base) (rbl_rnd s) of
        None \<Rightarrow>
          (let s = s\<lparr>rbl_text := None, flagmustnotbounce := True\<rparr>
           in if \<not> flagfailclosed s then s\<lparr>decision := 1\<rparr> else s)
      | Some (t, d) \<Rightarrow>
          (let s = s\<lparr>rbl_text := Some t, rbl_rnd := d\<rparr>
           in if t \<noteq> [] then s\<lparr>decision := 1\<rparr> else s))"

text \<open>The body of the switch of \<open>main\<close>; on the left it calls \<open>usage\<close>.\<close>

definition rbl_switch :: "(cstr \<Rightarrow> cstr \<Rightarrow> cstr option) \<Rightarrow> cstr \<Rightarrow> char \<Rightarrow> cstr option \<Rightarrow> rblstate \<Rightarrow> unit + rblstate" where
  "rbl_switch resolve rv opt oarg s =
     (let optarg = (case oarg of None \<Rightarrow> [] | Some a \<Rightarrow> a) in
      if opt = CHR ''b'' then Inr (s\<lparr>flagrblbounce := True\<rparr>)
      else if opt = CHR ''B'' then Inr (s\<lparr>flagrblbounce := False\<rparr>)
      else if opt = CHR ''c'' then Inr (s\<lparr>flagfailclosed := True\<rparr>)
      else if opt = CHR ''C'' then Inr (s\<lparr>flagfailclosed := False\<rparr>)
      else if opt = CHR ''t'' then Inr (s\<lparr>timeout := snd (scan_ulong optarg)\<rparr>)
      else if opt = CHR ''r'' then Inr ((rbl resolve rv optarg s)\<lparr>flagwantdefaultrbl := False\<rparr>)
      else if opt = CHR ''a'' then Inr (antirbl resolve rv optarg s)
      else Inl ())"

subsection \<open>The session: rblsmtpd\<close>

datatype smtp_action = Quit | Accept | Reject

definition smtpcommands :: "(cstr \<times> smtp_action) list" where
  "smtpcommands = [(''quit'', Quit), (''helo'', Accept), (''ehlo'', Accept), (''mail'', Accept), (''rset'', Accept), (''noop'', Accept)]"

definition CRLF :: cstr where "CRLF = [CR, LF]"

fun smtp_run :: "cstr \<Rightarrow> smtp_action \<Rightarrow> cstr \<Rightarrow> cstr \<times> bool" where
  "smtp_run message Reject arg = (message, False)"
| "smtp_run message Accept arg = (''250 rblsmtpd.local'' @ CRLF, False)"
| "smtp_run message Quit arg = (''221 rblsmtpd.local'' @ CRLF, True)"

definition printable :: "char \<Rightarrow> char" where
  "printable c = (if schar c < 32 \<or> 126 < schar c then CHR ''?'' else c)"

definition rbl_message :: "rblstate \<Rightarrow> cstr \<Rightarrow> cstr" where
  "rbl_message s text =
     map printable ((if flagmustnotbounce s \<or> decision s = 2 then ''451 '' else ''553 '') @ take 200 text)"

text \<open>What goes to the standard error and to the client; \<open>None\<close> is a text that is not known.\<close>

definition rblsmtpd :: "cstr list \<Rightarrow> u32 \<Rightarrow> cstr \<Rightarrow> rblstate \<Rightarrow> (cstr \<times> cstr) option" where
  "rblsmtpd environ pid input s =
     do { text \<leftarrow> rbl_text s;
          let message = rbl_message s text;
          let log = ''rblsmtpd: '' @ ip_env environ @ '' pid '' @ fmt_ulong pid @ '': '' @ message @ [LF];
          let message = message @ CRLF;
          Some (log,
            if timeout s = 0 then message
            else ''220 rblsmtpd.local'' @ CRLF @ fst (commands_run smtpcommands Reject (smtp_run message) input)) }"

subsection \<open>The program\<close>

definition rbl_init :: "cstr list \<Rightarrow> rnd \<Rightarrow> rblstate" where
  "rbl_init environ d =
     (let s = \<lparr>decision = 0, rbl_text = Some [], flagrblbounce = False, flagfailclosed = False, flagmustnotbounce = False,
               timeout = 60, flagwantdefaultrbl = True, rbl_rnd = d\<rparr>
      in case env_get environ ''RBLSMTPD'' of
           None \<Rightarrow> s
         | Some x \<Rightarrow>
             if x = [] then s\<lparr>decision := 1\<rparr>
             else if hd x = CHR ''-'' then s\<lparr>rbl_text := Some (tl x), decision := 3\<rparr>
             else s\<lparr>rbl_text := Some x, decision := 2\<rparr>)"

definition rbl_usage :: cstr where
  "rbl_usage = ''rblsmtpd: usage: rblsmtpd [ -b ] [ -R ] [ -t timeout ] [ -r base ] [ -a base ] smtpd [ arg ... ]'' @ [LF]"

text \<open>How the program ends: with 100, with 0 after a session with the client, or as the program of its arguments,
  which it may fail to run with 111.\<close>

datatype rbl_end = Usage | Session cstr | Program "cstr list" exec_result

text \<open>After the options; \<open>argv\<close> is what is left of the command line.\<close>

definition rbl_run ::
  "(cstr \<Rightarrow> cstr \<Rightarrow> cstr option) \<Rightarrow> (cstr \<Rightarrow> exec_error option) \<Rightarrow> cstr list \<Rightarrow> u32 \<Rightarrow> cstr list \<Rightarrow> cstr \<Rightarrow> cstr \<Rightarrow> rblstate
   \<Rightarrow> (cstr \<times> rbl_end) option" where
  "rbl_run resolve execve environ pid argv input err s =
     (if argv = [] then Some (err @ rbl_usage, Usage)
      else let s = (if flagwantdefaultrbl s then rbl resolve (ip_reverse environ) ''rbl.maps.vix.com'' s else s) in
      if 2 \<le> decision s
      then do { (log, out) \<leftarrow> rblsmtpd environ pid input s; Some (err @ log, Session out) }
      else Some (err, Program argv (pathexec_run execve environ (hd argv))))"

definition rblsmtpd_main ::
  "(cstr \<Rightarrow> cstr \<Rightarrow> cstr option) \<Rightarrow> (cstr \<Rightarrow> exec_error option) \<Rightarrow> cstr list \<Rightarrow> u32 \<Rightarrow> rnd \<Rightarrow> cstr list \<Rightarrow> cstr
   \<Rightarrow> (cstr \<times> rbl_end) option" where
  "rblsmtpd_main resolve execve environ pid d argv input =
     (case getopt_loop (rbl_switch resolve (ip_reverse environ)) argv ''bBcCt:r:a:'' getopt_init (rbl_init environ d) of
        None \<Rightarrow> None
      | Some (err, Inl _) \<Rightarrow> Some (err @ rbl_usage, Usage)
      | Some (err, Inr (s, g)) \<Rightarrow> rbl_run resolve execve environ pid (drop (optind g) argv) input err s)"

subsection \<open>Properties\<close>

text \<open>When a decision is made that needs the text, the text is there.\<close>

definition rbl_ok :: "rblstate \<Rightarrow> bool" where
  "rbl_ok s \<longleftrightarrow> (2 \<le> decision s \<longrightarrow> rbl_text s \<noteq> None)"

lemma rbl_ok_init: "rbl_ok (rbl_init environ d)"
  by (simp add: rbl_ok_def rbl_init_def Let_def split: option.split)

lemma rbl_ok_rbl: "rbl_ok s \<Longrightarrow> rbl_ok (rbl resolve rv base s)"
  by (auto simp: rbl_ok_def rbl_def Let_def split: option.split)

lemma rbl_ok_antirbl: "rbl_ok s \<Longrightarrow> rbl_ok (antirbl resolve rv base s)"
  by (auto simp: rbl_ok_def antirbl_def Let_def split: option.split)

lemma rbl_switch_cases:
  assumes "rbl_switch resolve rv c a s = Inr s'"
  obtains base where "s' = (rbl resolve rv base s)\<lparr>flagwantdefaultrbl := False\<rparr>" | base where "s' = antirbl resolve rv base s"
    | "decision s' = decision s" "rbl_text s' = rbl_text s"
  using assms by (auto simp: rbl_switch_def Let_def split: if_splits)

lemma rbl_switch_ok: "rbl_ok s \<Longrightarrow> rbl_switch resolve rv c a s = Inr s' \<Longrightarrow> rbl_ok s'"
  using rbl_ok_rbl [of s resolve rv] rbl_ok_antirbl [of s resolve rv]
  by (elim rbl_switch_cases) (simp_all add: rbl_ok_def)

lemma rbl_decided [simp]: "decision s \<noteq> 0 \<Longrightarrow> rbl resolve rv base s = s" "decision s \<noteq> 0 \<Longrightarrow> antirbl resolve rv base s = s"
  by (simp_all add: rbl_def antirbl_def)

lemma rbl_switch_decided: "decision s = n \<Longrightarrow> n \<noteq> 0 \<Longrightarrow> rbl_switch resolve rv c a s = Inr s' \<Longrightarrow> decision s' = n"
  by (erule rbl_switch_cases) auto

lemma rbl_switch_same: "decision s \<noteq> 0 \<Longrightarrow> rbl_switch resolve rv c a s = rbl_switch resolve' rv c a s"
  by (simp add: rbl_switch_def Let_def cong: if_cong)

lemma rblsmtpd_defined: "rbl_ok s \<Longrightarrow> 2 \<le> decision s \<Longrightarrow>
    \<exists>err e. do { (log, out) \<leftarrow> rblsmtpd environ pid input s; Some (m @ log, Session out) } = Some (err, e)"
  by (auto simp: rbl_ok_def rblsmtpd_def Let_def)

lemma rbl_run_defined:
  assumes "rbl_ok s"
  shows "\<exists>err e. rbl_run resolve execve environ pid argv input m s = Some (err, e)"
proof -
  let ?s = "if flagwantdefaultrbl s then rbl resolve (ip_reverse environ) ''rbl.maps.vix.com'' s else s"
  have "rbl_ok ?s" using assms rbl_ok_rbl by simp
  from rblsmtpd_defined [OF this, of environ pid input m] show ?thesis
    by (cases "argv = []"; cases "2 \<le> decision ?s") (simp_all add: rbl_run_def Let_def)
qed

lemma rbl_run_decided:
  assumes "decision s = n" "n \<noteq> 0"
  shows "rbl_run resolve execve environ pid argv input m s = rbl_run resolve' execve environ pid argv input m s"
    and "rbl_run resolve execve environ pid argv input m s = Some (err, e) \<Longrightarrow>
      if n = 1 then (case e of Session _ \<Rightarrow> False | _ \<Rightarrow> True) else (case e of Program _ _ \<Rightarrow> False | _ \<Rightarrow> True)"
  using assms by (auto simp: rbl_run_def Let_def split: if_splits bind_splits)

lemma rbl_init_decision:
  "decision (rbl_init environ d) =
     (case env_get environ ''RBLSMTPD'' of None \<Rightarrow> 0 | Some x \<Rightarrow> if x = [] then 1 else if hd x = CHR ''-'' then 3 else 2)"
  by (simp add: rbl_init_def Let_def split: option.split)

text \<open>Whatever the environment, the command line, the DNS and the client do, \<^verbatim>\<open>rblsmtpd\<close> comes to an end of one of its
  three kinds, and never reads a text that a failed question has left or a place outside of an argument.  When the
  environment has \<^verbatim>\<open>RBLSMTPD\<close>, it decides alone: the DNS has no influence, an empty value never leads to a refusal,
  and any other value never lets the mail server run.\<close>

theorem rblsmtpd_obeys_environment:
  "\<exists>err e. rblsmtpd_main resolve execve environ pid d argv input = Some (err, e) \<and>
     (case env_get environ ''RBLSMTPD'' of
        None \<Rightarrow> True
      | Some x \<Rightarrow>
          rblsmtpd_main resolve' execve environ pid d argv input = Some (err, e) \<and>
          (if x = [] then (case e of Session _ \<Rightarrow> False | _ \<Rightarrow> True) else (case e of Program _ _ \<Rightarrow> False | _ \<Rightarrow> True)))"
proof -
  let ?sw = "\<lambda>resolve. rbl_switch resolve (ip_reverse environ)"
  let ?s = "rbl_init environ d"
  let ?o = "''bBcCt:r:a:''"
  obtain m r where l: "getopt_loop (?sw resolve) argv ?o getopt_init ?s = Some (m, r)"
      "case r of Inl _ \<Rightarrow> True | Inr (s, _) \<Rightarrow> rbl_ok s"
    using getopt_loop_keeps [of rbl_ok "?sw resolve" ?s argv getopt_init ?o] rbl_switch_ok rbl_ok_init by auto
  have "\<exists>err e. rblsmtpd_main resolve execve environ pid d argv input = Some (err, e)"
    using l rbl_run_defined by (auto simp: rblsmtpd_main_def split: sum.splits)
  then obtain err e where e: "rblsmtpd_main resolve execve environ pid d argv input = Some (err, e)" by blast
  show ?thesis
  proof (cases "env_get environ ''RBLSMTPD''")
    case (Some x)
    let ?n = "if x = [] then 1 else if hd x = CHR ''-'' then 3 else 2 :: nat"
    have n: "decision ?s = ?n" "?n \<noteq> 0" using Some by (simp_all add: rbl_init_decision)
    have step: "decision s' = ?n" if "decision s = ?n" "?sw resolve c a s = Inr s'" for c a s s'
      by (rule rbl_switch_decided [OF that(1) n(2) that(2)])
    have "\<exists>m' r'. getopt_loop (?sw resolve) argv ?o getopt_init ?s = Some (m', r') \<and>
        (case r' of Inl _ \<Rightarrow> True | Inr (s, _) \<Rightarrow> decision s = ?n)"
      by (rule getopt_loop_keeps [of "\<lambda>s. decision s = ?n"]) (use step n(1) in auto)
    then have k: "case r of Inl _ \<Rightarrow> True | Inr (s, _) \<Rightarrow> decision s = ?n" using l(1) by simp
    have g: "getopt_loop (?sw resolve) argv ?o getopt_init ?s = getopt_loop (?sw resolve') argv ?o getopt_init ?s"
      by (rule getopt_loop_same [of "\<lambda>s. decision s = ?n"]) (use rbl_switch_same n step in metis)+
    have "rblsmtpd_main resolve' execve environ pid d argv input = Some (err, e) \<and>
      (if ?n = 1 then (case e of Session _ \<Rightarrow> False | _ \<Rightarrow> True) else (case e of Program _ _ \<Rightarrow> False | _ \<Rightarrow> True))"
    proof (cases r)
      case (Inl u) then show ?thesis using e l(1) g by (auto simp: rblsmtpd_main_def)
    next
      case (Inr y)
      obtain s h where "r = Inr (s, h)" "decision s = ?n" using Inr k by (cases y) auto
      moreover from this have "rbl_run resolve execve environ pid (drop (optind h) argv) input m s = Some (err, e)"
        using e l(1) by (simp add: rblsmtpd_main_def)
      ultimately show ?thesis
        using l(1) g rbl_run_decided(2) [OF _ n(2), of s] rbl_run_decided(1) [OF _ n(2), of s resolve _ _ _ _ _ _ resolve']
        by (simp add: rblsmtpd_main_def)
    qed
    then show ?thesis using e Some by auto
  qed (use e in auto)
qed

subsection \<open>The address backwards\<close>

fun dotted :: "cstr list \<Rightarrow> cstr" where
  "dotted [] = []"
| "dotted [l] = l"
| "dotted (l # ls) = l @ ''.'' @ dotted ls"

lemma dot_before_label: "CHR ''.'' \<notin> set l \<Longrightarrow> dot_before (p @ CHR ''.'' # l @ r) (Suc (length p + length l)) = Suc (length p)"
proof (induction l arbitrary: r rule: rev_induct)
  case (snoc c l)
  then have "(p @ CHR ''.'' # (l @ [c]) @ r) ! Suc (length p + length l) = c" by (simp add: nth_append)
  then show ?case using snoc.prems snoc.IH [of "c # r"] by auto
qed simp

lemma dot_before_first: "CHR ''.'' \<notin> set l \<Longrightarrow> dot_before (l @ r) (length l) = 0"
proof (induction l arbitrary: r rule: rev_induct)
  case (snoc c l) then show ?case using snoc.IH [of "c # r"] by (auto simp: nth_append)
qed simp

lemma dotted_snoc: "ls \<noteq> [] \<Longrightarrow> dotted (ls @ [l]) = dotted ls @ CHR ''.'' # l"
  by (induction ls rule: dotted.induct) auto

lemma reverse_loop_dotted:
  assumes "ls \<noteq> []" "hd ls \<noteq> []" "\<forall>l \<in> set ls. CHR ''.'' \<notin> set l"
  shows "reverse_loop (dotted ls @ r) (length (dotted ls)) = concat (map (\<lambda>l. l @ ''.'') (rev ls))"
  using assms
proof (induction ls arbitrary: r rule: rev_induct)
  case (snoc l ls)
  show ?case
  proof (cases "ls = []")
    case True
    then show ?thesis using snoc.prems dot_before_first [of l r] by (subst reverse_loop.simps) simp
  next
    case False
    have d: "dotted (ls @ [l]) @ r = dotted ls @ CHR ''.'' # l @ r" using False by (simp add: dotted_snoc)
    have "reverse_loop (dotted ls @ CHR ''.'' # l @ r) (length (dotted ls)) = concat (map (\<lambda>l. l @ ''.'') (rev ls))"
      using snoc False by simp
    then show ?thesis
      using snoc.prems False dot_before_label [of l "dotted ls" r]
      by (subst reverse_loop.simps) (simp add: d dotted_snoc)
  qed
qed simp

text \<open>The labels of the address in reverse order, each with a dot behind it: the name under which the lists have it.\<close>

lemma ip_reverse_dotted:
  assumes "env_get environ ''TCPREMOTEIP'' = Some (dotted ls)" "ls \<noteq> []" "hd ls \<noteq> []" "\<forall>l \<in> set ls. CHR ''.'' \<notin> set l"
  shows "ip_reverse environ = concat (map (\<lambda>l. l @ ''.'') (rev ls))"
  using reverse_loop_dotted [OF assms(2-), of "[]"] assms(1) by (simp add: ip_reverse_def ip_env_def Let_def)

subsection \<open>The session\<close>

lemma case_fold_ctolower: "case_fold (byte_of c) = byte_of (ctolower c)"
proof -
  have "\<forall>n < 256. case_fold (word_of_nat n) = (word_of_nat (if 65 \<le> n \<and> n \<le> 90 then n + 32 else n) :: byte)"
    by code_simp
  then have "case_fold (byte_of c) = word_of_nat (if 65 \<le> (of_char c :: nat) \<and> (of_char c :: nat) \<le> 90 then of_char c + 32 else of_char c)"
    using of_char_less_256 [of c] by (simp add: byte_of_def)
  then show ?thesis by (auto simp: byte_of_def ctolower_def of_char_mod_256)
qed

lemma byte_of_0: "byte_of NUL = 0"
  by (simp add: byte_of_def)

lemma ctolower_NUL: "ctolower c = NUL \<longleftrightarrow> c = NUL"
proof -
  have "(of_char (char_of n) :: nat) = n mod 256" for n :: nat by (rule of_char_of)
  then show ?thesis using of_char_eq_iff [of "ctolower c" NUL, where 'a = nat] of_char_eq_iff [of c NUL, where 'a = nat]
    by (auto simp: ctolower_def split: if_splits)
qed

lemma byte_of_eq_0: "byte_of c = 0 \<longleftrightarrow> c = NUL"
  using byte_of_inject [of c NUL] by (simp add: byte_of_0)

text \<open>Two C strings are equal without regard to case when they are the same in lower case.\<close>

lemma case_diffs_lower: "proper s \<Longrightarrow> proper t \<Longrightarrow> case_diffs s t = 0 \<longleftrightarrow> map ctolower s = map ctolower t"
proof (induction s t rule: case_diffs.induct)
  case (4 a s b t)
  then show ?case by (cases "ctolower a = ctolower b") (simp_all add: case_fold_ctolower Let_def word_uint_eq_iff [symmetric])
qed (simp_all add: case_fold_ctolower case_fold_def [of 0] Let_def uint_0_iff byte_of_eq_0 ctolower_NUL)

lemma case_equals_lower: "proper s \<Longrightarrow> proper t \<Longrightarrow> case_equals s t \<longleftrightarrow> map ctolower s = map ctolower t"
  by (simp add: case_equals_def case_diffs_lower)

text \<open>A line as the program keeps it, its verb in lower case, and the answer to it.\<close>

definition smtp_line :: "cstr \<Rightarrow> cstr" where
  "smtp_line l = (let l = map (\<lambda>c. if c = NUL then LF else c) l in if l \<noteq> [] \<and> last l = CR then butlast l else l)"

definition smtp_verb :: "cstr \<Rightarrow> cstr" where
  "smtp_verb l = map ctolower (takeWhile (\<lambda>c. c \<noteq> CHR '' '') (smtp_line l))"

definition smtp_reply :: "cstr \<Rightarrow> cstr \<Rightarrow> cstr" where
  "smtp_reply message l =
     (if smtp_verb l = ''quit'' then ''221 rblsmtpd.local'' @ CRLF
      else if smtp_verb l \<in> {''helo'', ''ehlo'', ''mail'', ''rset'', ''noop''} then ''250 rblsmtpd.local'' @ CRLF
      else message)"

text \<open>The lines that are answered: up to the first QUIT.\<close>

fun until_quit :: "cstr list \<Rightarrow> cstr list" where
  "until_quit [] = []"
| "until_quit (l # ls) = (if smtp_verb l = ''quit'' then [l] else l # until_quit ls)"

lemma read_cmd_line: "LF \<notin> set l \<Longrightarrow> read_cmd cmd (l @ LF # r) = Some (cmd @ map (\<lambda>c. if c = NUL then LF else c) l, r)"
  by (induction l arbitrary: cmd) auto

lemma read_cmd_rest: "LF \<notin> set r \<Longrightarrow> read_cmd cmd r = None"
  by (induction r arbitrary: cmd) auto

lemma proper_smtp_line: "proper (smtp_line l)"
  by (auto simp: smtp_line_def Let_def proper_def dest!: in_set_butlastD split: if_splits)

lemma parse_cmd_verb:
  "fst (parse_cmd (map (\<lambda>c. if c = NUL then LF else c) l)) = takeWhile (\<lambda>c. c \<noteq> CHR '' '') (smtp_line l)"
  by (simp add: parse_cmd_def smtp_line_def Let_def str_chr_byte_chr byte_chr_takeWhile takeWhile_eq_take [symmetric])

lemma find_smtp:
  "find_action smtpcommands Reject (takeWhile (\<lambda>c. c \<noteq> CHR '' '') (smtp_line l)) =
     (if smtp_verb l = ''quit'' then Quit
      else if smtp_verb l \<in> {''helo'', ''ehlo'', ''mail'', ''rset'', ''noop''} then Accept else Reject)"
proof -
  let ?v = "takeWhile (\<lambda>c. c \<noteq> CHR '' '') (smtp_line l)"
  have "proper ?v" using proper_smtp_line by simp
  then have "case_equals w ?v \<longleftrightarrow> smtp_verb l = map ctolower w" if "proper w" for w
    using case_equals_lower [OF that, of ?v] by (auto simp: smtp_verb_def)
  then show ?thesis by (simp add: smtpcommands_def ctolower_def)
qed

lemma commands_session:
  assumes "\<forall>l \<in> set ls. LF \<notin> set l" "LF \<notin> set rest"
  shows "fst (commands_run smtpcommands Reject (smtp_run message) (concat (map (\<lambda>l. l @ [LF]) ls) @ rest)) =
    concat (map (smtp_reply message) (until_quit ls))"
  using assms(1)
proof (induction ls)
  case Nil then show ?case using assms(2) by (simp add: commands_run.simps read_cmd_rest)
next
  case (Cons l ls)
  have "LF \<notin> set l" using Cons.prems by simp
  obtain arg where p: "parse_cmd (map (\<lambda>c. if c = NUL then LF else c) l) = (takeWhile (\<lambda>c. c \<noteq> CHR '' '') (smtp_line l), arg)"
    using parse_cmd_verb [of l] by (metis prod.collapse)
  have IH: "fst (commands_run smtpcommands Reject (smtp_run message) (concat (map (\<lambda>l. l @ [LF]) ls) @ rest)) =
    concat (map (smtp_reply message) (until_quit ls))" using Cons by simp
  have r: "commands_run smtpcommands Reject (smtp_run message) (concat (map (\<lambda>l. l @ [LF]) (l # ls)) @ rest) =
      (let (out, exits) = smtp_run message (find_action smtpcommands Reject (takeWhile (\<lambda>c. c \<noteq> CHR '' '') (smtp_line l))) arg
       in if exits then (out, True)
          else apfst ((@) out) (commands_run smtpcommands Reject (smtp_run message) (concat (map (\<lambda>l. l @ [LF]) ls) @ rest)))"
    using read_cmd_line [OF \<open>LF \<notin> set l\<close>, of "[]" "concat (map (\<lambda>l. l @ [LF]) ls) @ rest"] p
    by (subst commands_run.simps) simp
  show ?case unfolding r find_smtp using IH by (auto simp: smtp_reply_def [of message l])
qed

definition printing :: "char \<Rightarrow> bool" where
  "printing c \<longleftrightarrow> 32 \<le> (of_char c :: nat) \<and> (of_char c :: nat) \<le> 126"

lemma printing_printable: "printing (printable c)"
  using of_char_less_256 [of c] by (auto simp: printing_def printable_def schar_def Let_def simp del: of_char_less_256)

text \<open>A client that is refused gets the greeting and then exactly one answer for each line it sends, up to the first
  QUIT, also when a line has upper case verbs, ends with CR LF or holds NUL characters.  Only HELO, EHLO, MAIL, RSET
  and NOOP are accepted; RCPT, DATA and everything else get the message.  The message is one line of at most 204 printing
  characters that begins with 553 only when the decision is to bounce and no question has failed, and it is in the log.\<close>

theorem rblsmtpd_refuses:
  assumes "rbl_text s = Some t" "timeout s \<noteq> 0"
    and "input = concat (map (\<lambda>l. l @ [LF]) ls) @ rest" "\<forall>l \<in> set ls. LF \<notin> set l" "LF \<notin> set rest"
  shows "\<exists>log msg. rblsmtpd environ pid input s =
      Some (log, ''220 rblsmtpd.local'' @ CRLF @ concat (map (smtp_reply (msg @ CRLF)) (until_quit ls)))
    \<and> log = ''rblsmtpd: '' @ ip_env environ @ '' pid '' @ fmt_ulong pid @ '': '' @ msg @ [LF]
    \<and> take 4 msg = (if decision s \<noteq> 2 \<and> \<not> flagmustnotbounce s then ''553 '' else ''451 '')
    \<and> length msg \<le> 204 \<and> (\<forall>c \<in> set msg. printing c)"
proof -
  let ?m = "rbl_message s t"
  have 4: "take 4 ?m = (if decision s \<noteq> 2 \<and> \<not> flagmustnotbounce s then ''553 '' else ''451 '')"
    by (simp add: rbl_message_def printable_def schar_def Let_def)
  have p: "length ?m \<le> 204 \<and> (\<forall>c \<in> set ?m. printing c)"
    using printing_printable by (auto simp: rbl_message_def)
  have "rblsmtpd environ pid input s =
      Some (''rblsmtpd: '' @ ip_env environ @ '' pid '' @ fmt_ulong pid @ '': '' @ ?m @ [LF],
            ''220 rblsmtpd.local'' @ CRLF @ concat (map (smtp_reply (?m @ CRLF)) (until_quit ls)))"
    unfolding rblsmtpd_def assms(1,3) using assms(2) commands_session [OF assms(4,5), of "?m @ CRLF"] by (simp add: Let_def)
  with 4 p show ?thesis by blast
qed

theorem rblsmtpd_refuses_witness:
  "\<exists>log msg. rblsmtpd [''TCPREMOTEIP=127.0.0.2''] 7
      (concat (map (\<lambda>l. l @ [LF]) [''HELO x'' @ [CR], ''RCPT TO:<a>'' @ [CR], ''Quit'', ''noop'']) @ ''MAIL'')
      (rbl_init [''RBLSMTPD=-Go away''] \<lparr>r_seed = [], r_in = [], r_out = [], outleft = 0\<rparr>) =
      Some (log, ''220 rblsmtpd.local'' @ CRLF @ (''250 rblsmtpd.local'' @ CRLF) @ (msg @ CRLF) @ ''221 rblsmtpd.local'' @ CRLF)
    \<and> take 4 msg = ''553 ''"
proof -
  let ?s = "rbl_init [''RBLSMTPD=-Go away''] \<lparr>r_seed = [], r_in = [], r_out = [], outleft = 0\<rparr>"
  let ?ls = "[''HELO x'' @ [CR], ''RCPT TO:<a>'' @ [CR], ''Quit'', ''noop'']"
  have v: "smtp_verb (''HELO x'' @ [CR]) = ''helo''" "smtp_verb (''RCPT TO:<a>'' @ [CR]) = ''rcpt''" "smtp_verb ''Quit'' = ''quit''"
    by code_simp+
  have s: "rbl_text ?s = Some ''Go away''" "timeout ?s \<noteq> 0" "decision ?s = 3" "\<not> flagmustnotbounce ?s"
    by (simp_all add: rbl_init_def char_at_def)
  from rblsmtpd_refuses [OF s(1,2) refl, of ?ls "''MAIL''" "[''TCPREMOTEIP=127.0.0.2'']" 7] s(3,4) v show ?thesis
    by (auto simp: smtp_reply_def)
qed

theorem rblsmtpd_obeys_environment_witness:
  "\<exists>err e. rblsmtpd_main (\<lambda>_ _. Some ''x'') (\<lambda>_. None) [''RBLSMTPD=''] 7 \<lparr>r_seed = [], r_in = [], r_out = [], outleft = 0\<rparr>
       [''rblsmtpd'', ''-r'', ''rbl.org'', ''/bin/smtpd''] [] = Some (err, e)
     \<and> (case e of Session _ \<Rightarrow> False | _ \<Rightarrow> True)"
  using rblsmtpd_obeys_environment [of "\<lambda>_ _. Some ''x''" "\<lambda>_. None" "[''RBLSMTPD='']" 7
      "\<lparr>r_seed = [], r_in = [], r_out = [], outleft = 0\<rparr>" "[''rblsmtpd'', ''-r'', ''rbl.org'', ''/bin/smtpd'']" "[]" "\<lambda>_ _. None"]
  by (auto simp: char_at_def)

end
